(* ===== verification/Prelude.thy ===== *)
theory Prelude
  imports Main "HOL-Library.Multiset" "HOL-Library.Sublist"
begin

text \<open>
  Shared vocabulary of the development: the part of the JavaScript standard library that the
  browser code of the repository relies on (white space, case conversion, decimal printing,
  \<open>join\<close>, \<open>slice\<close>, \<open>indexOf\<close>), and the generic list lemmas the component theories use.

  A JavaScript string is a sequence of 16-bit code units; here it is a \<^typ>\<open>string\<close>, a list of
  8-bit characters, so code units above 255 are outside the model.
\<close>

section \<open>Collections of rules\<close>

named_theorems js_lib \<open>unfolding rules of the modelled JavaScript library\<close>
named_theorems scan_rules \<open>facts about scanners: what is consumed and what is left\<close>

type_synonym 'a array = "'a list"

section \<open>Characters\<close>

text \<open>The class \<open>\s\<close> of JavaScript regular expressions, restricted to 8-bit code units.\<close>

definition is_space :: "char \<Rightarrow> bool" where
  "is_space c \<longleftrightarrow> c \<in> {CHR 0x09, CHR 0x0A, CHR 0x0B, CHR 0x0C, CHR 0x0D, CHR '' '', CHR 0xA0}"

definition is_digit :: "char \<Rightarrow> bool" where
  "is_digit c \<longleftrightarrow> (let n = of_char c :: nat in 48 \<le> n \<and> n \<le> 57)"

definition is_word :: "char \<Rightarrow> bool" where
  "is_word c \<longleftrightarrow> (let n = of_char c :: nat in
     48 \<le> n \<and> n \<le> 57 \<or> 65 \<le> n \<and> n \<le> 90 \<or> n = 95 \<or> 97 \<le> n \<and> n \<le> 122)"

text \<open>
  \<open>toUpperCase\<close> and \<open>toLowerCase\<close> on one code unit: ASCII and the Latin-1 letters whose
  counterpart is an 8-bit code unit too.
\<close>

definition char_upper :: "char \<Rightarrow> char" where
  "char_upper c = (let n = of_char c :: nat in
     if 97 \<le> n \<and> n \<le> 122 \<or> 224 \<le> n \<and> n \<le> 254 \<and> n \<noteq> 247 then char_of (n - 32) else c)"

definition char_lower :: "char \<Rightarrow> char" where
  "char_lower c = (let n = of_char c :: nat in
     if 65 \<le> n \<and> n \<le> 90 \<or> 192 \<le> n \<and> n \<le> 222 \<and> n \<noteq> 215 then char_of (n + 32) else c)"

definition to_lower :: "string \<Rightarrow> string" where
  "to_lower = map char_lower"

definition to_upper :: "string \<Rightarrow> string" where
  "to_upper = map char_upper"

section \<open>Decimal numbers\<close>

definition digit_char :: "nat \<Rightarrow> char" where
  "digit_char d = char_of (48 + d)"

definition digit_val :: "char \<Rightarrow> nat" where
  "digit_val c = of_char c - 48"

fun nat_str :: "nat \<Rightarrow> string" where
  "nat_str n = (if n < 10 then [digit_char n] else nat_str (n div 10) @ [digit_char (n mod 10)])"

declare nat_str.simps [simp del]

definition int_str :: "int \<Rightarrow> string" where
  "int_str i = (if i < 0 then CHR ''-'' # nat_str (nat (- i)) else nat_str (nat i))"

text \<open>The value of a digit string, as \<open>parseInt(s, 10)\<close> computes it.\<close>

definition digits_val :: "string \<Rightarrow> nat" where
  "digits_val s = foldl (\<lambda>n c. 10 * n + digit_val c) 0 s"

lemma is_digit_digit_char [simp]: "d < 10 \<Longrightarrow> is_digit (digit_char d)"
  by (simp add: is_digit_def digit_char_def)

lemma digit_val_digit_char [simp]: "d < 10 \<Longrightarrow> digit_val (digit_char d) = d"
  by (simp add: digit_val_def digit_char_def)

lemma nat_str_nonempty [simp]: "nat_str n \<noteq> []"
  by (subst nat_str.simps) simp

lemma nat_str_digits: "\<forall>c \<in> set (nat_str n). is_digit c"
proof (induction n rule: nat_str.induct)
  case (1 n)
  then show ?case by (subst nat_str.simps) auto
qed

lemma digits_val_snoc: "digits_val (s @ [c]) = 10 * digits_val s + digit_val c"
  by (simp add: digits_val_def)

lemma digits_val_nat_str [simp]: "digits_val (nat_str n) = n"
proof (induction n rule: nat_str.induct)
  case (1 n)
  show ?case
  proof (cases "n < 10")
    case True
    then show ?thesis by (subst nat_str.simps) (simp add: digits_val_def)
  next
    case False
    then have "digits_val (nat_str (n div 10) @ [digit_char (n mod 10)]) = n"
      using 1 by (simp add: digits_val_snoc)
    with False show ?thesis by (subst nat_str.simps) simp
  qed
qed

lemma nat_str_inj [simp]: "nat_str m = nat_str n \<longleftrightarrow> m = n"
  by (metis digits_val_nat_str)

lemma nat_str_length: "length (nat_str n) \<le> k \<longleftrightarrow> n < 10 ^ k" if "0 < k"
  using that
proof (induction n arbitrary: k rule: nat_str.induct)
  case (1 n)
  show ?case
  proof (cases "n < 10")
    case True
    moreover have "(10::nat) \<le> 10 ^ k" using 1(2) by (cases k) auto
    ultimately show ?thesis using 1(2) by (subst nat_str.simps) auto
  next
    case False
    then obtain j where k: "k = Suc j" using 1(2) by (cases k) auto
    have lens: "length (nat_str n) = Suc (length (nat_str (n div 10)))"
      using False by (subst nat_str.simps) simp
    show ?thesis
    proof (cases j)
      case 0
      have "0 < length (nat_str (n div 10))" by simp
      then show ?thesis using lens k 0 False by simp
    next
      case (Suc i)
      then have "length (nat_str (n div 10)) \<le> j \<longleftrightarrow> n div 10 < 10 ^ j"
        using 1(1) False by simp
      then show ?thesis using lens k by (simp add: less_mult_imp_div_less div_less_iff_less_mult mult.commute)
    qed
  qed
qed

section \<open>Strings and arrays\<close>

fun join :: "string \<Rightarrow> string list \<Rightarrow> string" where
  "join sep [] = []"
| "join sep [x] = x"
| "join sep (x # xs) = x @ sep @ join sep xs"

lemma join_empty_sep: "join [] xs = concat xs"
  by (induction xs rule: induct_list012) auto

text \<open>Reading one expected character.\<close>

definition eat :: "char \<Rightarrow> string \<Rightarrow> string option" where
  "eat c s = (case s of [] \<Rightarrow> None | x # t \<Rightarrow> if x = c then Some t else None)"

lemma eat_simps [simp]: "eat c [] = None" "eat c (x # t) = (if x = c then Some t else None)"
  by (simp_all add: eat_def)

lemma eat_Some: "eat c s = Some t \<longleftrightarrow> s = c # t"
  by (cases s) auto

lemma eat_length: "eat c s = Some t \<Longrightarrow> length t < length s"
  by (simp add: eat_Some)

text \<open>\<open>s.split(c)\<close> for a one-character separator.\<close>

fun split_on :: "char \<Rightarrow> string \<Rightarrow> string list" where
  "split_on c [] = [[]]"
| "split_on c (x # xs) =
     (if x = c then [] # split_on c xs
      else case split_on c xs of [] \<Rightarrow> [[x]] | y # ys \<Rightarrow> (x # y) # ys)"

lemma split_on_nonempty [simp]: "split_on c s \<noteq> []"
  by (cases s) (auto split: list.splits)

lemma join_split_on: "join [c] (split_on c s) = s"
proof (induction s)
  case Nil
  show ?case by simp
next
  case (Cons x xs)
  obtain y ys where ys: "split_on c xs = y # ys"
    by (cases "split_on c xs") auto
  with Cons show ?case by (cases ys) auto
qed

lemma split_on_plain: "c \<notin> set s \<Longrightarrow> split_on c s = [s]"
  by (induction s) auto

lemma split_on_append: "c \<notin> set s \<Longrightarrow> split_on c (s @ c # t) = s # split_on c t"
  by (induction s) auto

lemma split_on_join: "xs \<noteq> [] \<Longrightarrow> \<forall>x \<in> set xs. c \<notin> set x \<Longrightarrow> split_on c (join [c] xs) = xs"
  by (induction xs rule: induct_list012) (simp_all add: split_on_plain split_on_append)

lemma split_on_parts: "x \<in> set (split_on c s) \<Longrightarrow> c \<notin> set x"
  by (induction s arbitrary: x) (auto split: list.splits if_splits)

text \<open>\<open>xs.slice(start, end)\<close>: negative positions count from the end, a missing end is the length.\<close>

definition slice_pos :: "nat \<Rightarrow> int \<Rightarrow> nat" where
  "slice_pos n i = nat (if i < 0 then max 0 (int n + i) else min i (int n))"

definition js_slice :: "'a list \<Rightarrow> int \<Rightarrow> int option \<Rightarrow> 'a list" where
  "js_slice xs s e =
     (let n = length xs; a = slice_pos n s;
          b = (case e of None \<Rightarrow> n | Some e' \<Rightarrow> slice_pos n e')
      in take (b - a) (drop a xs))"

lemma js_slice_all [simp]: "js_slice xs 0 None = xs"
  by (simp add: js_slice_def slice_pos_def)

lemma js_slice_nonneg:
  "0 \<le> a \<Longrightarrow> 0 \<le> b \<Longrightarrow> js_slice xs a (Some b) = take (nat b - nat a) (drop (nat a) xs)"
  by (auto simp: js_slice_def slice_pos_def Let_def min_def)

lemma set_js_slice: "set (js_slice xs a b) \<subseteq> set xs"
  by (auto simp: js_slice_def Let_def dest: in_set_takeD in_set_dropD)

text \<open>\<open>xs.indexOf(x)\<close>, with \<open>None\<close> for -1.\<close>

fun index_of :: "'a \<Rightarrow> 'a list \<Rightarrow> nat option" where
  "index_of x [] = None"
| "index_of x (y # ys) = (if x = y then Some 0 else map_option Suc (index_of x ys))"

lemma index_of_None [simp]: "index_of x xs = None \<longleftrightarrow> x \<notin> set xs"
  by (induction xs) auto

lemma index_of_Some: "index_of x xs = Some i \<Longrightarrow> i < length xs \<and> xs ! i = x \<and> x \<notin> set (take i xs)"
  by (induction xs arbitrary: i) (auto split: if_splits)

lemma index_of_Some_ex: "x \<in> set xs \<Longrightarrow> \<exists>i. index_of x xs = Some i"
  by (meson index_of_None not_None_eq)

text \<open>Objects as association lists in insertion order: reading and assigning a key.\<close>

fun assoc :: "'k \<Rightarrow> ('k \<times> 'v) list \<Rightarrow> 'v option" where
  "assoc k [] = None"
| "assoc k ((k', v) # kvs) = (if k = k' then Some v else assoc k kvs)"

fun assoc_set :: "'k \<Rightarrow> 'v \<Rightarrow> ('k \<times> 'v) list \<Rightarrow> ('k \<times> 'v) list" where
  "assoc_set k v [] = [(k, v)]"
| "assoc_set k v ((k', v') # kvs) =
     (if k = k' then (k, v) # kvs else (k', v') # assoc_set k v kvs)"

definition assoc_del :: "'k \<Rightarrow> ('k \<times> 'v) list \<Rightarrow> ('k \<times> 'v) list" where
  "assoc_del k kvs = filter (\<lambda>(k', _). k' \<noteq> k) kvs"

lemma assoc_map_of: "assoc k kvs = map_of kvs k"
  by (induction kvs) auto

lemma assoc_set_get [simp]: "assoc k (assoc_set k' v kvs) = (if k = k' then Some v else assoc k kvs)"
  by (induction kvs) auto

lemma assoc_del_get [simp]: "assoc k (assoc_del k' kvs) = (if k = k' then None else assoc k kvs)"
  by (induction kvs) (auto simp: assoc_del_def)

lemma assoc_set_keys: "map fst (assoc_set k v kvs) = (if k \<in> fst ` set kvs then map fst kvs else map fst kvs @ [k])"
  by (induction kvs) (force split: if_splits)+

lemma assoc_None: "assoc k kvs = None \<longleftrightarrow> k \<notin> fst ` set kvs"
  by (simp add: assoc_map_of map_of_eq_None_iff)

lemma distinct_assoc_set: "distinct (map fst kvs) \<Longrightarrow> distinct (map fst (assoc_set k v kvs))"
  by (simp add: assoc_set_keys)

lemma distinct_assoc_del: "distinct (map fst kvs) \<Longrightarrow> distinct (map fst (assoc_del k kvs))"
  unfolding assoc_del_def by (induction kvs) auto

section \<open>Association lists as the maps the components rely on\<close>

text \<open>
  The interface a cache, a registry or an option object offers to its clients: what a read
  returns after a write or a deletion.
\<close>

locale object_map =
  fixes get :: "'k \<Rightarrow> 'm \<Rightarrow> 'v option"
    and put :: "'k \<Rightarrow> 'v \<Rightarrow> 'm \<Rightarrow> 'm"
    and del :: "'k \<Rightarrow> 'm \<Rightarrow> 'm"
  assumes get_put: "get k (put k' v m) = (if k = k' then Some v else get k m)"
    and get_del: "get k (del k' m) = (if k = k' then None else get k m)"
begin

lemma get_put_same: "get k (put k v m) = Some v"
  by (simp add: get_put)

lemma put_put: "get k (put k' v (put k' w m)) = get k (put k' v m)"
  by (simp add: get_put)

lemma put_del_fresh: "get k' m = None \<Longrightarrow> get k (del k' (put k' v m)) = get k m"
  by (simp add: get_put get_del)

text \<open>Writing what is already there, the way a memo table does, changes no read.\<close>

lemma put_known: "get k' m = Some v \<Longrightarrow> get k (put k' v m) = get k m"
  by (simp add: get_put)

end

interpretation alist: object_map assoc assoc_set assoc_del
  by unfold_locales simp_all

section \<open>Stable sorting\<close>

text \<open>
  \<open>Array.prototype.sort(cmp)\<close> is required to be a stable sort of its input when the comparison
  function is consistent. Insertion sort is the model: \<open>lt a b\<close> stands for \<open>cmp(a, b) < 0\<close>.
\<close>

fun ins_by :: "('a \<Rightarrow> 'a \<Rightarrow> bool) \<Rightarrow> 'a \<Rightarrow> 'a list \<Rightarrow> 'a list" where
  "ins_by lt x [] = [x]"
| "ins_by lt x (y # ys) = (if lt y x then y # ins_by lt x ys else x # y # ys)"

definition sort_by :: "('a \<Rightarrow> 'a \<Rightarrow> bool) \<Rightarrow> 'a list \<Rightarrow> 'a list" where
  "sort_by lt xs = foldr (ins_by lt) xs []"

lemma sort_by_Nil [simp]: "sort_by lt [] = []"
  by (simp add: sort_by_def)

lemma sort_by_Cons [simp]: "sort_by lt (x # xs) = ins_by lt x (sort_by lt xs)"
  by (simp add: sort_by_def)

lemma mset_ins_by [simp]: "mset (ins_by lt x xs) = add_mset x (mset xs)"
  by (induction xs) auto

lemma mset_sort_by [simp]: "mset (sort_by lt xs) = mset xs"
  by (induction xs) auto

lemma set_sort_by [simp]: "set (sort_by lt xs) = set xs"
  by (metis mset_sort_by set_mset_mset)

lemma length_sort_by [simp]: "length (sort_by lt xs) = length xs"
  by (metis mset_sort_by size_mset)

text \<open>
  The contract of a comparison function on the values \<open>A\<close> of a column: asymmetric and negatively
  transitive, which is what ECMAScript calls consistent. Under it the result of the sort is
  determined: it is ordered, and equal elements keep their order.
\<close>

locale consistent_less =
  fixes lt :: "'a \<Rightarrow> 'a \<Rightarrow> bool" and A :: "'a set"
  assumes asym: "a \<in> A \<Longrightarrow> b \<in> A \<Longrightarrow> lt a b \<Longrightarrow> \<not> lt b a"
    and neg_trans: "a \<in> A \<Longrightarrow> b \<in> A \<Longrightarrow> c \<in> A \<Longrightarrow> lt a c \<Longrightarrow> lt a b \<or> lt b c"
begin

lemma le_trans: "a \<in> A \<Longrightarrow> b \<in> A \<Longrightarrow> c \<in> A \<Longrightarrow> \<not> lt b a \<Longrightarrow> \<not> lt c b \<Longrightarrow> \<not> lt c a"
  using neg_trans by blast

lemma set_ins_by: "set (ins_by lt x xs) = insert x (set xs)"
  by (metis mset_ins_by set_mset_add_mset_insert set_mset_mset)

lemma sorted_ins_by:
  "x \<in> A \<Longrightarrow> set xs \<subseteq> A \<Longrightarrow> sorted_wrt (\<lambda>a b. \<not> lt b a) xs \<Longrightarrow>
   sorted_wrt (\<lambda>a b. \<not> lt b a) (ins_by lt x xs)"
proof (induction xs)
  case (Cons y ys)
  then show ?case
    by (auto simp: set_ins_by dest: asym le_trans [of x y])
qed simp

lemma sort_by_sorted: "set xs \<subseteq> A \<Longrightarrow> sorted_wrt (\<lambda>a b. \<not> lt b a) (sort_by lt xs)"
  by (induction xs) (simp_all add: sorted_ins_by)

text \<open>Two elements are tied when neither is less; a class of ties keeps its order.\<close>

lemma ins_by_stable:
  "x \<in> A \<Longrightarrow> set xs \<subseteq> A \<Longrightarrow> k \<in> A \<Longrightarrow> sorted_wrt (\<lambda>a b. \<not> lt b a) xs \<Longrightarrow>
   filter (\<lambda>a. \<not> lt a k \<and> \<not> lt k a) (ins_by lt x xs) =
   filter (\<lambda>a. \<not> lt a k \<and> \<not> lt k a) (x # xs)"
proof (induction xs)
  case (Cons y ys)
  have "\<not> lt x k \<and> \<not> lt k x \<Longrightarrow> lt y x \<Longrightarrow> lt y k"
    using Cons.prems neg_trans [of y k x] by auto
  with Cons show ?case by auto
qed simp

lemma sort_by_stable:
  "set xs \<subseteq> A \<Longrightarrow> k \<in> A \<Longrightarrow>
   filter (\<lambda>a. \<not> lt a k \<and> \<not> lt k a) (sort_by lt xs) = filter (\<lambda>a. \<not> lt a k \<and> \<not> lt k a) xs"
proof (induction xs)
  case (Cons x xs)
  then have "filter (\<lambda>a. \<not> lt a k \<and> \<not> lt k a) (ins_by lt x (sort_by lt xs)) =
      filter (\<lambda>a. \<not> lt a k \<and> \<not> lt k a) (x # sort_by lt xs)"
    by (intro ins_by_stable) (auto intro: sort_by_sorted)
  with Cons show ?case by auto
qed simp

text \<open>Sorting a sorted array changes nothing.\<close>

lemma sort_by_id: "set xs \<subseteq> A \<Longrightarrow> sorted_wrt (\<lambda>a b. \<not> lt b a) xs \<Longrightarrow> sort_by lt xs = xs"
proof (induction xs)
  case (Cons x xs)
  then show ?case by (cases xs) auto
qed simp

end

section \<open>Runs of state machines\<close>

text \<open>
  A widget takes one step for every input: \<open>fold step\<close> is a run. The guard \<open>ok\<close> says which inputs the
  surroundings may send in a state.
\<close>

fun legal :: "('e \<Rightarrow> 's \<Rightarrow> 's) \<Rightarrow> ('e \<Rightarrow> 's \<Rightarrow> bool) \<Rightarrow> 'e list \<Rightarrow> 's \<Rightarrow> bool" where
  "legal step ok [] s = True"
| "legal step ok (e # es) s = (ok e s \<and> legal step ok es (step e s))"

lemma legal_append: "legal step ok (es @ fs) s \<longleftrightarrow> legal step ok es s \<and> legal step ok fs (fold step es s)"
  by (induction es arbitrary: s) auto

lemma legal_inputs: "\<forall>e \<in> set es. P e \<Longrightarrow> legal step (\<lambda>e _. P e) es s"
  by (induction es arbitrary: s) auto

lemma legal_True [simp]: "legal step (\<lambda>_ _. True) es s"
  by (rule legal_inputs) simp

text \<open>An invariant is a property of states that every legal step keeps.\<close>

locale invariant_system =
  fixes step :: "'e \<Rightarrow> 's \<Rightarrow> 's" and ok :: "'e \<Rightarrow> 's \<Rightarrow> bool" and inv :: "'s \<Rightarrow> bool"
  assumes inv_step: "inv s \<Longrightarrow> ok e s \<Longrightarrow> inv (step e s)"
begin

lemma run_inv: "inv s \<Longrightarrow> legal step ok es s \<Longrightarrow> inv (fold step es s)"
  by (induction es arbitrary: s) (auto intro: inv_step)

lemma run_inv_prefix: "inv s \<Longrightarrow> legal step ok (es @ fs) s \<Longrightarrow> inv (fold step es s)"
  by (auto simp: legal_append intro: run_inv)

end

text \<open>A machine simulates another when every legal step is a step of the other under the abstraction.\<close>

locale simulation = invariant_system step ok inv for step :: "'e \<Rightarrow> 's \<Rightarrow> 's" and ok and inv +
  fixes astep :: "'e \<Rightarrow> 'a \<Rightarrow> 'a" and abs :: "'s \<Rightarrow> 'a"
  assumes abs_step: "inv s \<Longrightarrow> ok e s \<Longrightarrow> abs (step e s) = astep e (abs s)"
begin

lemma run_abs: "inv s \<Longrightarrow> legal step ok es s \<Longrightarrow> abs (fold step es s) = fold astep es (abs s)"
  by (induction es arbitrary: s) (simp_all add: abs_step inv_step)

end

end
