(* ===== verification/JsVal.thy ===== *)
theory JsVal
  imports Prelude
begin

text \<open>
  JavaScript values as the browser code handles them: the primitive types, arrays and plain
  objects as trees (a row of a table, the view of a template), and functions as names that a
  host environment interprets. Numbers are the integers a double represents exactly, with
  \<open>NaN\<close> and the two infinities; fractions and the rounding above \<open>2^53\<close> are outside the model
  here (the geometry theories work over the reals instead).
\<close>

datatype jsnum = Fin int | NaN | PosInf | NegInf

datatype fn = UserFn nat | NativeFn string

datatype jsval =
    Undefined
  | Null
  | Bool bool
  | Num jsnum
  | Str string
  | Arr "jsval list"
  | Obj "(string \<times> jsval) list"
  | Fn fn

text \<open>What the host supplies for function values: calls, source text and own properties.\<close>

record host =
  fn_call :: "fn \<Rightarrow> jsval \<Rightarrow> jsval"
  fn_str :: "fn \<Rightarrow> string"
  fn_prop :: "fn \<Rightarrow> string \<Rightarrow> jsval"

section \<open>Truth, types and conversion to strings\<close>

fun truthy :: "jsval \<Rightarrow> bool" where
  "truthy Undefined = False"
| "truthy Null = False"
| "truthy (Bool b) = b"
| "truthy (Num n) = (n \<noteq> Fin 0 \<and> n \<noteq> NaN)"
| "truthy (Str s) = (s \<noteq> [])"
| "truthy (Arr _) = True"
| "truthy (Obj _) = True"
| "truthy (Fn _) = True"

definition nullish :: "jsval \<Rightarrow> bool" where
  "nullish v \<longleftrightarrow> v = Undefined \<or> v = Null"

fun is_array :: "jsval \<Rightarrow> bool" where
  "is_array (Arr _) = True"
| "is_array _ = False"

fun is_function :: "jsval \<Rightarrow> bool" where
  "is_function (Fn _) = True"
| "is_function _ = False"

fun is_string :: "jsval \<Rightarrow> bool" where
  "is_string (Str _) = True"
| "is_string _ = False"

fun is_number :: "jsval \<Rightarrow> bool" where
  "is_number (Num _) = True"
| "is_number _ = False"

text \<open>\<open>typeof v === 'object'\<close>; it holds of \<open>null\<close> and of arrays.\<close>

fun is_object :: "jsval \<Rightarrow> bool" where
  "is_object Null = True"
| "is_object (Arr _) = True"
| "is_object (Obj _) = True"
| "is_object _ = False"

fun num_str :: "jsnum \<Rightarrow> string" where
  "num_str (Fin i) = int_str i"
| "num_str NaN = ''NaN''"
| "num_str PosInf = ''Infinity''"
| "num_str NegInf = ''-Infinity''"

fun tostr :: "host \<Rightarrow> jsval \<Rightarrow> string" where
  "tostr h Undefined = ''undefined''"
| "tostr h Null = ''null''"
| "tostr h (Bool b) = (if b then ''true'' else ''false'')"
| "tostr h (Num n) = num_str n"
| "tostr h (Str s) = s"
| "tostr h (Arr vs) = join '','' (map (\<lambda>v. if nullish v then [] else tostr h v) vs)"
| "tostr h (Obj _) = ''[object Object]''"
| "tostr h (Fn f) = fn_str h f"

section \<open>Properties\<close>

text \<open>Names that every object inherits, and the further ones of arrays, strings and numbers.\<close>

definition object_proto :: "string list" where
  "object_proto =
     [''constructor'', ''hasOwnProperty'', ''isPrototypeOf'', ''propertyIsEnumerable'',
      ''toLocaleString'', ''toString'', ''valueOf'', ''__defineGetter__'', ''__defineSetter__'',
      ''__lookupGetter__'', ''__lookupSetter__'']"

definition array_proto :: "string list" where
  "array_proto =
     [''concat'', ''copyWithin'', ''entries'', ''every'', ''fill'', ''filter'', ''find'',
      ''findIndex'', ''flat'', ''flatMap'', ''forEach'', ''includes'', ''indexOf'', ''join'',
      ''keys'', ''lastIndexOf'', ''map'', ''pop'', ''push'', ''reduce'', ''reduceRight'',
      ''reverse'', ''shift'', ''slice'', ''some'', ''sort'', ''splice'', ''unshift'', ''values'']"

definition string_proto :: "string list" where
  "string_proto =
     [''anchor'', ''big'', ''blink'', ''bold'', ''charAt'', ''charCodeAt'', ''codePointAt'',
      ''concat'', ''endsWith'', ''fixed'', ''fontcolor'', ''fontsize'', ''includes'', ''indexOf'',
      ''italics'', ''lastIndexOf'', ''link'', ''localeCompare'', ''match'', ''normalize'',
      ''padEnd'', ''padStart'', ''repeat'', ''replace'', ''search'', ''slice'', ''small'',
      ''split'', ''startsWith'', ''strike'', ''sub'', ''substr'', ''substring'', ''sup'',
      ''toLocaleLowerCase'', ''toLocaleUpperCase'', ''toLowerCase'', ''toUpperCase'', ''trim'',
      ''trimEnd'', ''trimLeft'', ''trimRight'', ''trimStart'']"

definition number_proto :: "string list" where
  "number_proto = [''toExponential'', ''toFixed'', ''toPrecision'']"

definition inherited :: "string list \<Rightarrow> string \<Rightarrow> jsval" where
  "inherited extra k =
     (if k = ''__proto__'' then Obj []
      else if k \<in> set extra \<or> k \<in> set object_proto then Fn (NativeFn k)
      else Undefined)"

text \<open>The element a canonical index names, as in \<open>xs[''0'']\<close>.\<close>

definition indexed :: "'a list \<Rightarrow> string \<Rightarrow> 'a option" where
  "indexed xs k =
     (if k \<noteq> [] \<and> list_all is_digit k \<and> nat_str (digits_val k) = k \<and> digits_val k < length xs
      then Some (xs ! digits_val k) else None)"

text \<open>\<open>v[k]\<close>; reading a property of \<open>undefined\<close> or \<open>null\<close> throws, which is \<open>None\<close>.\<close>

fun getprop :: "host \<Rightarrow> jsval \<Rightarrow> string \<Rightarrow> jsval option" where
  "getprop h Undefined k = None"
| "getprop h Null k = None"
| "getprop h (Bool b) k = Some (inherited [] k)"
| "getprop h (Num n) k = Some (inherited number_proto k)"
| "getprop h (Str s) k = Some
     (if k = ''length'' then Num (Fin (int (length s)))
      else case indexed s k of Some c \<Rightarrow> Str [c] | None \<Rightarrow> inherited string_proto k)"
| "getprop h (Arr vs) k = Some
     (if k = ''length'' then Num (Fin (int (length vs)))
      else case indexed vs k of Some v \<Rightarrow> v | None \<Rightarrow> inherited array_proto k)"
| "getprop h (Obj kvs) k = Some
     (case assoc k kvs of Some v \<Rightarrow> v | None \<Rightarrow> inherited [] k)"
| "getprop h (Fn f) k = Some (fn_prop h f k)"

lemma getprop_None [simp]: "getprop h v k = None \<longleftrightarrow> nullish v"
  by (cases v) (auto simp: nullish_def)

lemma nullish_simps [simp]:
  "nullish Undefined" "nullish Null" "\<not> nullish (Bool b)" "\<not> nullish (Num n)" "\<not> nullish (Str s)"
  "\<not> nullish (Arr vs)" "\<not> nullish (Obj kvs)" "\<not> nullish (Fn f)"
  by (simp_all add: nullish_def)

lemma truthy_not_nullish: "truthy v \<Longrightarrow> \<not> nullish v"
  by (cases v) auto

text \<open>The property keys \<open>for ... in\<close> visits, in order.\<close>

fun keys_of :: "jsval \<Rightarrow> string list" where
  "keys_of (Arr vs) = map nat_str [0..<length vs]"
| "keys_of (Str s) = map nat_str [0..<length s]"
| "keys_of (Obj kvs) = map fst kvs"
| "keys_of _ = []"

lemma indexed_nat_str [simp]: "indexed xs (nat_str i) = (if i < length xs then Some (xs ! i) else None)"
  by (simp add: indexed_def list_all_iff nat_str_digits)

section \<open>Numbers from values\<close>

definition trim :: "string \<Rightarrow> string" where
  "trim s = rev (dropWhile is_space (rev (dropWhile is_space s)))"

definition all_digits :: "string \<Rightarrow> bool" where
  "all_digits s \<longleftrightarrow> s \<noteq> [] \<and> list_all is_digit s"

text \<open>The exponent part of a decimal literal; \<open>None\<close> when it is malformed.\<close>

definition exponent :: "string \<Rightarrow> int option" where
  "exponent r =
     (case r of
        [] \<Rightarrow> Some 0
      | e # s \<Rightarrow>
          if e = CHR ''e'' \<or> e = CHR ''E'' then
            (case eat (CHR ''+'') s of
               Some t \<Rightarrow> if all_digits t then Some (int (digits_val t)) else None
             | None \<Rightarrow>
                 (case eat (CHR ''-'') s of
                    Some t \<Rightarrow> if all_digits t then Some (- int (digits_val t)) else None
                  | None \<Rightarrow> if all_digits s then Some (int (digits_val s)) else None))
          else None)"

text \<open>An unsigned decimal literal; one whose value is not an integer is outside the model.\<close>

definition unsigned_decimal :: "string \<Rightarrow> jsnum" where
  "unsigned_decimal s =
     (if s = ''Infinity'' then PosInf
      else
        let ip = takeWhile is_digit s;
            r = dropWhile is_digit s;
            fp = (case eat (CHR ''.'') r of Some t \<Rightarrow> takeWhile is_digit t | None \<Rightarrow> []);
            r' = (case eat (CHR ''.'') r of Some t \<Rightarrow> dropWhile is_digit t | None \<Rightarrow> r)
        in if ip = [] \<and> fp = [] then NaN
           else case exponent r' of
             None \<Rightarrow> NaN
           | Some e \<Rightarrow>
               let m = int (digits_val (ip @ fp)); k = e - int (length fp)
               in if 0 \<le> k then Fin (m * 10 ^ nat k)
                  else if m mod 10 ^ nat (- k) = 0 then Fin (m div 10 ^ nat (- k)) else NaN)"

fun neg_num :: "jsnum \<Rightarrow> jsnum" where
  "neg_num (Fin i) = Fin (- i)"
| "neg_num NaN = NaN"
| "neg_num PosInf = NegInf"
| "neg_num NegInf = PosInf"

text \<open>The digits of a hexadecimal, octal or binary literal, and its value.\<close>

definition radix_digit :: "char \<Rightarrow> nat" where
  "radix_digit c =
     (let k = of_char c in
      if 48 \<le> k \<and> k \<le> 57 then k - 48
      else if 97 \<le> k \<and> k \<le> 102 then k - 87
      else if 65 \<le> k \<and> k \<le> 70 then k - 55 else 16)"

definition radix_literal :: "nat \<Rightarrow> string \<Rightarrow> jsnum" where
  "radix_literal b ds =
     (if ds = [] \<or> \<not> list_all (\<lambda>c. radix_digit c < b) ds then NaN
      else Fin (int (foldl (\<lambda>a c. a * b + radix_digit c) 0 ds)))"

definition prefixed_literal :: "string \<Rightarrow> jsnum option" where
  "prefixed_literal t =
     (case t of
        z # p # ds \<Rightarrow>
          if z \<noteq> CHR ''0'' then None
          else if p = CHR ''x'' \<or> p = CHR ''X'' then Some (radix_literal 16 ds)
          else if p = CHR ''o'' \<or> p = CHR ''O'' then Some (radix_literal 8 ds)
          else if p = CHR ''b'' \<or> p = CHR ''B'' then Some (radix_literal 2 ds)
          else None
      | _ \<Rightarrow> None)"

definition str_to_num :: "string \<Rightarrow> jsnum" where
  "str_to_num s =
     (let t = trim s in
      if t = [] then Fin 0
      else case prefixed_literal t of
        Some n \<Rightarrow> n
      | None \<Rightarrow>
          (case eat (CHR ''-'') t of
             Some u \<Rightarrow> neg_num (unsigned_decimal u)
           | None \<Rightarrow>
               (case eat (CHR ''+'') t of
                  Some u \<Rightarrow> unsigned_decimal u
                | None \<Rightarrow> unsigned_decimal t)))"

text \<open>\<open>parseInt(s)\<close> for a decimal string: the longest run of digits after the sign.\<close>

definition parse_int :: "string \<Rightarrow> jsnum" where
  "parse_int s =
     (let t = dropWhile is_space s;
          u = (case eat (CHR ''-'') t of
                 Some u \<Rightarrow> u
               | None \<Rightarrow> (case eat (CHR ''+'') t of Some u \<Rightarrow> u | None \<Rightarrow> t));
          ds = takeWhile is_digit u
      in if ds = [] then NaN
         else Fin (if eat (CHR ''-'') t \<noteq> None then - int (digits_val ds) else int (digits_val ds)))"

text \<open>\<open>ToPrimitive\<close> and \<open>ToNumber\<close>.\<close>

definition to_prim :: "host \<Rightarrow> jsval \<Rightarrow> jsval" where
  "to_prim h v = (case v of Arr _ \<Rightarrow> Str (tostr h v) | Obj _ \<Rightarrow> Str (tostr h v)
     | Fn _ \<Rightarrow> Str (tostr h v) | _ \<Rightarrow> v)"

fun prim_num :: "jsval \<Rightarrow> jsnum" where
  "prim_num Null = Fin 0"
| "prim_num (Bool b) = Fin (if b then 1 else 0)"
| "prim_num (Num n) = n"
| "prim_num (Str s) = str_to_num s"
| "prim_num _ = NaN"

section \<open>Comparison\<close>

fun num_less :: "jsnum \<Rightarrow> jsnum \<Rightarrow> bool" where
  "num_less NaN _ = False"
| "num_less _ NaN = False"
| "num_less (Fin a) (Fin b) = (a < b)"
| "num_less NegInf b = (b \<noteq> NegInf)"
| "num_less a NegInf = False"
| "num_less PosInf b = False"
| "num_less a PosInf = True"

fun str_less :: "string \<Rightarrow> string \<Rightarrow> bool" where
  "str_less _ [] = False"
| "str_less [] (y # ys) = True"
| "str_less (x # xs) (y # ys) =
     (if (of_char x :: nat) < of_char y then True else if x = y then str_less xs ys else False)"

text \<open>The operator \<open><\<close>: strings by code units, anything else by number.\<close>

definition js_less :: "host \<Rightarrow> jsval \<Rightarrow> jsval \<Rightarrow> bool" where
  "js_less h a b =
     (case (to_prim h a, to_prim h b) of
        (Str s, Str t) \<Rightarrow> str_less s t
      | (p, q) \<Rightarrow> num_less (prim_num p) (prim_num q))"

lemma js_less_Str [simp]: "js_less h (Str s) (Str t) = str_less s t"
  by (simp add: js_less_def to_prim_def)

lemma js_less_Num [simp]: "js_less h (Num m) (Num n) = num_less m n"
  by (simp add: js_less_def to_prim_def)

lemma str_less_irrefl [simp]: "\<not> str_less s s"
  by (induction s) auto

lemma str_less_linear: "str_less s t \<or> s = t \<or> str_less t s"
proof (induction s arbitrary: t)
  case Nil
  show ?case by (cases t) auto
next
  case (Cons x xs)
  have tri: "(of_char x :: nat) < of_char y \<or> x = y \<or> (of_char y :: nat) < of_char x" for y
    by (metis linorder_neqE_nat of_char_eq_iff)
  show ?case
  proof (cases t)
    case (Cons y ys)
    then show ?thesis using tri [of y] \<open>\<And>t. str_less xs t \<or> xs = t \<or> str_less t xs\<close> [of ys] by auto
  qed simp
qed

lemma str_less_asym: "str_less s t \<Longrightarrow> \<not> str_less t s"
  by (induction s t rule: str_less.induct) (auto split: if_splits)

lemma str_less_trans: "str_less s t \<Longrightarrow> str_less t u \<Longrightarrow> str_less s u"
proof (induction s u arbitrary: t rule: str_less.induct)
  case (3 x xs y ys)
  then show ?case by (cases t) (auto split: if_splits)
qed (auto elim: str_less.elims)

lemma num_less_asym: "num_less m n \<Longrightarrow> \<not> num_less n m"
  by (cases m; cases n) auto

lemma num_less_trans: "num_less m n \<Longrightarrow> num_less n k \<Longrightarrow> num_less m k"
  by (cases m; cases n; cases k) auto

lemma num_less_linear: "m \<noteq> NaN \<Longrightarrow> n \<noteq> NaN \<Longrightarrow> num_less m n \<or> m = n \<or> num_less n m"
  by (cases m; cases n) auto

lemma js_less_asym: "js_less h a b \<Longrightarrow> \<not> js_less h b a"
  by (auto simp: js_less_def dest: str_less_asym num_less_asym split: jsval.splits)

section \<open>Arithmetic\<close>

text \<open>The operators on numbers; the sign of zero is not kept.\<close>

fun num_add :: "jsnum \<Rightarrow> jsnum \<Rightarrow> jsnum" where
  "num_add NaN _ = NaN"
| "num_add _ NaN = NaN"
| "num_add (Fin a) (Fin b) = Fin (a + b)"
| "num_add (Fin _) b = b"
| "num_add PosInf b = (if b = NegInf then NaN else PosInf)"
| "num_add NegInf b = (if b = PosInf then NaN else NegInf)"

definition num_sub :: "jsnum \<Rightarrow> jsnum \<Rightarrow> jsnum" where
  "num_sub a b = num_add a (neg_num b)"

definition num_sign :: "jsnum \<Rightarrow> int" where
  "num_sign a = (case a of Fin i \<Rightarrow> sgn i | NaN \<Rightarrow> 0 | PosInf \<Rightarrow> 1 | NegInf \<Rightarrow> -1)"

definition num_mul :: "jsnum \<Rightarrow> jsnum \<Rightarrow> jsnum" where
  "num_mul a b =
     (case (a, b) of
        (NaN, _) \<Rightarrow> NaN
      | (_, NaN) \<Rightarrow> NaN
      | (Fin i, Fin j) \<Rightarrow> Fin (i * j)
      | _ \<Rightarrow> (let s = num_sign a * num_sign b in if s = 0 then NaN else if 0 < s then PosInf else NegInf))"

text \<open>\<open>Math.ceil(a / b)\<close>.\<close>

definition num_ceil_div :: "jsnum \<Rightarrow> jsnum \<Rightarrow> jsnum" where
  "num_ceil_div a b =
     (case (a, b) of
        (NaN, _) \<Rightarrow> NaN
      | (_, NaN) \<Rightarrow> NaN
      | (Fin i, Fin j) \<Rightarrow>
          if j = 0 then (if i = 0 then NaN else if 0 < i then PosInf else NegInf)
          else Fin (- ((- i) div j))
      | (Fin i, _) \<Rightarrow> Fin 0
      | (_, Fin j) \<Rightarrow> (if (0 \<le> j) = (a = PosInf) then PosInf else NegInf)
      | _ \<Rightarrow> NaN)"

definition num_eq :: "jsnum \<Rightarrow> jsnum \<Rightarrow> bool" where
  "num_eq a b \<longleftrightarrow> a \<noteq> NaN \<and> a = b"

definition num_le :: "jsnum \<Rightarrow> jsnum \<Rightarrow> bool" where
  "num_le a b \<longleftrightarrow> num_less a b \<or> num_eq a b"

lemma num_simps [simp]:
  "num_sub (Fin a) (Fin b) = Fin (a - b)" "num_mul (Fin a) (Fin b) = Fin (a * b)"
  "num_le (Fin a) (Fin b) \<longleftrightarrow> a \<le> b" "num_eq (Fin a) (Fin b) \<longleftrightarrow> a = b"
  "num_le (Fin a) PosInf" "\<not> num_le n NaN" "\<not> num_le NaN n" "\<not> num_le PosInf (Fin a)"
  "num_ceil_div (Fin a) (Fin b) =
     (if b = 0 then (if a = 0 then NaN else if 0 < a then PosInf else NegInf) else Fin (- ((- a) div b)))"
  by (auto simp: num_sub_def num_mul_def num_le_def num_eq_def num_ceil_div_def elim: num_less.elims)

end
