(* ===== verification/JQ_Core.thy ===== *)
theory JQ_Core
  imports JsVal
begin

text \<open>
  The core utilities of jQuery: type tests, the iteration helpers \<open>each\<close>, \<open>grep\<close>, \<open>map\<close>,
  \<open>makeArray\<close>, \<open>merge\<close> and \<open>inArray\<close>, object extension, and the matched set with its stack of
  previous sets. Values are trees, so an object is always a plain one and no object contains
  itself; arrays have no properties besides their elements.
\<close>

section \<open>Types\<close>

fun toType :: "jsval \<Rightarrow> string" where
  "toType Undefined = ''undefined''"
| "toType Null = ''null''"
| "toType (Bool _) = ''boolean''"
| "toType (Num _) = ''number''"
| "toType (Str _) = ''string''"
| "toType (Arr _) = ''array''"
| "toType (Obj _) = ''object''"
| "toType (Fn _) = ''function''"

fun isPlainObject :: "jsval \<Rightarrow> bool" where
  "isPlainObject (Obj _) = True"
| "isPlainObject _ = False"

definition isEmptyObject :: "jsval \<Rightarrow> bool" where
  "isEmptyObject v \<longleftrightarrow> keys_of v = []"

text \<open>
  \<open>isArrayLike\<close>; \<open>''length'' in obj\<close> throws on a primitive that is not falsy, which is \<open>None\<close>.
\<close>

fun isArrayLike :: "jsval \<Rightarrow> bool option" where
  "isArrayLike (Arr vs) = Some True"
| "isArrayLike (Fn f) = Some False"
| "isArrayLike (Obj kvs) = Some
     (case assoc ''length'' kvs of
        Some (Num (Fin n)) \<Rightarrow> n = 0 \<or> (0 < n \<and> assoc (int_str (n - 1)) kvs \<noteq> None)
      | _ \<Rightarrow> False)"
| "isArrayLike v = (if truthy v then None else Some False)"

section \<open>Iteration\<close>

text \<open>The pairs \<open>i\<close>, \<open>obj[i]\<close> a loop over an array-like object or over the keys visits.\<close>

definition loop_items :: "jsval \<Rightarrow> (jsval \<times> jsval) list option" where
  "loop_items obj =
     (case isArrayLike obj of
        None \<Rightarrow> None
      | Some True \<Rightarrow> Some
          (case obj of
             Arr vs \<Rightarrow> map (\<lambda>i. (Num (Fin (int i)), vs ! i)) [0..<length vs]
           | Obj kvs \<Rightarrow>
               (case assoc ''length'' kvs of
                  Some (Num (Fin n)) \<Rightarrow>
                    map (\<lambda>i. (Num (Fin (int i)), case assoc (nat_str i) kvs of Some v \<Rightarrow> v | None \<Rightarrow> Undefined))
                      [0..<nat n]
                | _ \<Rightarrow> [])
           | _ \<Rightarrow> [])
      | Some False \<Rightarrow> Some
          (case obj of Obj kvs \<Rightarrow> map (\<lambda>(k, v). (Str k, v)) kvs | _ \<Rightarrow> []))"

text \<open>The callback sees the state and returns its value; \<open>false\<close> ends the loop.\<close>

fun each_loop :: "(jsval \<Rightarrow> jsval \<Rightarrow> 's \<Rightarrow> jsval \<times> 's) \<Rightarrow> (jsval \<times> jsval) list \<Rightarrow> 's \<Rightarrow> 's" where
  "each_loop callback [] s = s"
| "each_loop callback ((i, v) # rest) s =
     (let (r, s') = callback i v s in if r = Bool False then s' else each_loop callback rest s')"

definition jq_each :: "jsval \<Rightarrow> (jsval \<Rightarrow> jsval \<Rightarrow> 's \<Rightarrow> jsval \<times> 's) \<Rightarrow> 's \<Rightarrow> 's option" where
  "jq_each obj callback s = map_option (\<lambda>is. each_loop callback is s) (loop_items obj)"

text \<open>\<open>merge\<close> appends the elements of the second to the first.\<close>

definition merge :: "'a list \<Rightarrow> 'a list \<Rightarrow> 'a list" where
  "merge first second = first @ second"

definition makeArray :: "jsval \<Rightarrow> jsval list \<Rightarrow> jsval list" where
  "makeArray arr results =
     (if nullish arr then results
      else case arr of
        Str s \<Rightarrow> merge results [arr]
      | _ \<Rightarrow>
          (if isArrayLike arr = Some True
           then merge results (map snd (case loop_items arr of Some is \<Rightarrow> is | None \<Rightarrow> []))
           else results @ [arr]))"

text \<open>\<open>indexOf\<close> from a start index; a negative one counts from the end.\<close>

definition inArray :: "'a \<Rightarrow> 'a list option \<Rightarrow> int \<Rightarrow> int" where
  "inArray elem arr i =
     (case arr of
        None \<Rightarrow> -1
      | Some xs \<Rightarrow>
          (let k = slice_pos (length xs) i
           in case index_of elem (drop k xs) of Some j \<Rightarrow> int (k + j) | None \<Rightarrow> -1))"

fun grep_from :: "nat \<Rightarrow> 'a list \<Rightarrow> ('a \<Rightarrow> nat \<Rightarrow> bool) \<Rightarrow> bool \<Rightarrow> 'a list" where
  "grep_from i [] callback invert = []"
| "grep_from i (x # xs) callback invert =
     (let callbackInverse = (\<not> callback x i); callbackExpect = (\<not> invert)
      in if callbackInverse \<noteq> callbackExpect then x # grep_from (i + 1) xs callback invert
         else grep_from (i + 1) xs callback invert)"

definition grep :: "'a list \<Rightarrow> ('a \<Rightarrow> nat \<Rightarrow> bool) \<Rightarrow> bool \<Rightarrow> 'a list" where
  "grep elems callback invert = grep_from 0 elems callback invert"

text \<open>\<open>flat\<close> concatenates one level of arrays.\<close>

definition flat_arr :: "jsval list \<Rightarrow> jsval list" where
  "flat_arr vs = concat (map (\<lambda>v. case v of Arr us \<Rightarrow> us | _ \<Rightarrow> [v]) vs)"

definition jq_map :: "jsval \<Rightarrow> (jsval \<Rightarrow> jsval \<Rightarrow> jsval) \<Rightarrow> jsval list option" where
  "jq_map elems callback =
     map_option (\<lambda>is. flat_arr (filter (\<lambda>v. \<not> nullish v) (map (\<lambda>(i, v). callback v i) is))) (loop_items elems)"

section \<open>The matched set\<close>

datatype 'a jq = JQ (elems: "'a list") (prev: "'a jq option")

definition pushStack :: "'a jq \<Rightarrow> 'a list \<Rightarrow> 'a jq" where
  "pushStack this es = JQ (merge [] es) (Some this)"

text \<open>\<open>this[ num ]\<close> is undefined out of range.\<close>

definition jq_get :: "'a jq \<Rightarrow> int \<Rightarrow> 'a option" where
  "jq_get this num =
     (let len = int (length (elems this)); k = (if num < 0 then num + len else num)
      in if 0 \<le> k \<and> k < len then Some (elems this ! nat k) else None)"

definition jq_eq :: "'a jq \<Rightarrow> int \<Rightarrow> 'a jq" where
  "jq_eq this i =
     (let len = int (length (elems this)); j = i + (if i < 0 then len else 0)
      in pushStack this (if j \<ge> 0 \<and> j < len then [elems this ! nat j] else []))"

definition jq_first :: "'a jq \<Rightarrow> 'a jq" where
  "jq_first this = jq_eq this 0"

definition jq_last :: "'a jq \<Rightarrow> 'a jq" where
  "jq_last this = jq_eq this (-1)"

definition jq_even :: "'a jq \<Rightarrow> 'a jq" where
  "jq_even this = pushStack this (grep (elems this) (\<lambda>_ i. (i + 1) mod 2 \<noteq> 0) False)"

definition jq_odd :: "'a jq \<Rightarrow> 'a jq" where
  "jq_odd this = pushStack this (grep (elems this) (\<lambda>_ i. i mod 2 \<noteq> 0) False)"

definition jq_slice :: "'a jq \<Rightarrow> int \<Rightarrow> int option \<Rightarrow> 'a jq" where
  "jq_slice this a b = pushStack this (js_slice (elems this) a b)"

definition jq_end :: "'a jq \<Rightarrow> 'a jq" where
  "jq_end this = (case prev this of Some p \<Rightarrow> p | None \<Rightarrow> JQ [] None)"

section \<open>Extension\<close>

text \<open>\<open>target[name] = v\<close>: an array grows to the index, with holes that read as undefined.\<close>

definition set_index :: "jsval list \<Rightarrow> nat \<Rightarrow> jsval \<Rightarrow> jsval list" where
  "set_index vs i v =
     (if i < length vs then vs[i := v] else vs @ replicate (i - length vs) Undefined @ [v])"

definition is_index :: "string \<Rightarrow> bool" where
  "is_index k \<longleftrightarrow> k \<noteq> [] \<and> list_all is_digit k \<and> nat_str (digits_val k) = k"

fun setprop :: "jsval \<Rightarrow> string \<Rightarrow> jsval \<Rightarrow> jsval" where
  "setprop (Obj kvs) k v = Obj (assoc_set k v kvs)"
| "setprop (Arr vs) k v = Arr (if is_index k then set_index vs (digits_val k) v else vs)"
| "setprop t k v = t"

text \<open>The names and values \<open>for ( name in options )\<close> visits.\<close>

fun own_items :: "jsval \<Rightarrow> (string \<times> jsval) list" where
  "own_items (Obj kvs) = kvs"
| "own_items (Arr vs) = zip (map nat_str [0..<length vs]) vs"
| "own_items (Str s) = zip (map nat_str [0..<length s]) (map (\<lambda>c. Str [c]) s)"
| "own_items _ = []"

fun own_prop :: "jsval \<Rightarrow> string \<Rightarrow> jsval" where
  "own_prop (Obj kvs) k = (case assoc k kvs of Some v \<Rightarrow> v | None \<Rightarrow> Undefined)"
| "own_prop (Arr vs) k = (case indexed vs k of Some v \<Rightarrow> v | None \<Rightarrow> Undefined)"
| "own_prop _ k = Undefined"

text \<open>The object a nested value is merged into: the old value when its type fits, else a new one.\<close>

definition clone_of :: "jsval \<Rightarrow> jsval \<Rightarrow> jsval" where
  "clone_of src copy =
     (if is_array copy \<and> \<not> is_array src then Arr []
      else if \<not> is_array copy \<and> \<not> isPlainObject src then Obj []
      else src)"

text \<open>The number of values in a tree bounds the recursion.\<close>

fun weight :: "jsval \<Rightarrow> nat" where
  "weight (Arr vs) = Suc (sum_list (map weight vs))"
| "weight (Obj kvs) = Suc (sum_list (map (\<lambda>kv. weight (snd kv)) kvs))"
| "weight _ = 1"

abbreviation weights :: "(string \<times> jsval) list \<Rightarrow> nat" where
  "weights kvs \<equiv> sum_list (map (\<lambda>kv. weight (snd kv)) kvs)"

lemma weights_zip: "length ks = length vs \<Longrightarrow> weights (zip ks vs) = sum_list (map weight vs)"
  by (induction ks vs rule: list_induct2) auto

lemma weight_pos [simp]: "0 < weight v"
  by (cases v) auto

lemma weights_own_items: "is_array c \<or> isPlainObject c \<Longrightarrow> weights (own_items c) < weight c"
  by (cases c) (auto simp: weights_zip)

function ext_items :: "bool \<Rightarrow> jsval \<Rightarrow> (string \<times> jsval) list \<Rightarrow> jsval" where
  "ext_items deep target [] = target"
| "ext_items deep target ((name, copy) # rest) =
     (let target' =
        (if name = ''__proto__'' then target
         else if deep \<and> (isPlainObject copy \<or> is_array copy) then
           setprop target name (ext_items deep (clone_of (own_prop target name) copy) (own_items copy))
         else if copy \<noteq> Undefined then setprop target name copy
         else target)
      in ext_items deep target' rest)"
  by pat_completeness auto
termination
  by (relation "measure (\<lambda>(d, t, kvs). weights kvs)") (auto intro!: trans_less_add1 weights_own_items)

text \<open>A target that is not an object is replaced by a new one; null arguments are skipped.\<close>

definition extend :: "bool \<Rightarrow> jsval \<Rightarrow> jsval list \<Rightarrow> jsval" where
  "extend deep target options =
     fold (\<lambda>opt t. if nullish opt then t else ext_items deep t (own_items opt)) options
       (if truthy target \<and> (is_object target \<or> is_function target) then target else Obj [])"

section \<open>What the utilities guarantee\<close>

lemma grep_from_filter:
  "grep_from i xs (\<lambda>x k. P x k) invert =
   map fst (filter (\<lambda>(x, k). P x k \<noteq> invert) (zip xs [i..<i + length xs]))"
  by (induction xs arbitrary: i) (auto simp: Let_def upt_conv_Cons simp del: upt_Suc)

lemma grep_filter: "grep xs (\<lambda>x _. P x) invert = filter (\<lambda>x. P x \<noteq> invert) xs"
proof -
  have "grep_from i xs (\<lambda>x _. P x) invert = filter (\<lambda>x. P x \<noteq> invert) xs" for i
    by (induction xs arbitrary: i) (auto simp: Let_def)
  then show ?thesis by (simp add: grep_def)
qed

fun interleave :: "'a list \<Rightarrow> 'a list \<Rightarrow> 'a list" where
  "interleave (x # xs) (y # ys) = x # y # interleave xs ys"
| "interleave xs [] = xs"
| "interleave [] ys = ys"

text \<open>
  \<open>even\<close> and \<open>odd\<close> split the matched set by position, \<open>end\<close> undoes either, and putting the
  elements back in turn gives the set again.
\<close>

theorem even_odd_split:
  "interleave (elems (jq_even s)) (elems (jq_odd s)) = elems s \<and>
   jq_end (jq_even s) = s \<and> jq_end (jq_odd s) = s"
proof -
  have "interleave (grep_from i xs (\<lambda>_ i. (i + 1) mod 2 \<noteq> 0) False) (grep_from i xs (\<lambda>_ i. i mod 2 \<noteq> 0) False) = xs"
    if "even i" for i and xs :: "'a list"
    using that
  proof (induction xs arbitrary: i rule: induct_list012)
    case (3 x y zs)
    have e: "(Suc i) mod 2 = 1" "i mod 2 = 0" using 3(3) by presburger+
    have "even (Suc (Suc i))" using 3(3) by simp
    from 3(1) [OF this] e show ?case by (simp add: Let_def)
  qed (auto simp: Let_def even_iff_mod_2_eq_zero)
  from this [of 0] show ?thesis
    by (simp add: jq_even_def jq_odd_def pushStack_def merge_def grep_def jq_end_def)
qed

text \<open>
  \<open>inArray\<close> returns the first position of the element at or after the start index, and \<open>-1\<close>
  exactly when there is none.
\<close>

theorem inArray_first:
  "if x \<in> set (drop (slice_pos (length xs) i) xs)
   then \<exists>k. inArray x (Some xs) i = int k \<and> slice_pos (length xs) i \<le> k \<and> k < length xs \<and> xs ! k = x \<and>
            x \<notin> set (take (k - slice_pos (length xs) i) (drop (slice_pos (length xs) i) xs))
   else inArray x (Some xs) i = -1"
proof (cases "x \<in> set (drop (slice_pos (length xs) i) xs)")
  case True
  let ?k = "slice_pos (length xs) i"
  from index_of_Some_ex [OF True] obtain j where j: "index_of x (drop ?k xs) = Some j" by auto
  from index_of_Some [OF this] have "j < length (drop ?k xs)" "drop ?k xs ! j = x" "x \<notin> set (take j (drop ?k xs))"
    by auto
  then have "inArray x (Some xs) i = int (?k + j) \<and> ?k \<le> ?k + j \<and> ?k + j < length xs \<and> xs ! (?k + j) = x \<and>
     x \<notin> set (take (?k + j - ?k) (drop ?k xs))"
    using j by (auto simp: inArray_def Let_def)
  with True show ?thesis by (metis (no_types))
next
  case False
  then have n: "index_of x (drop (slice_pos (length xs) i) xs) = None" by simp
  have "inArray x (Some xs) i = -1" unfolding inArray_def by (simp only: option.case Let_def n)
  with False show ?thesis by simp
qed

section \<open>Extension is safe\<close>

text \<open>No object anywhere in a tree has an own property \<open>__proto__\<close>.\<close>

fun proto_free :: "jsval \<Rightarrow> bool" where
  "proto_free (Arr vs) = list_all proto_free vs"
| "proto_free (Obj kvs) = (list_all (\<lambda>kv. proto_free (snd kv)) kvs \<and> ''__proto__'' \<notin> fst ` set kvs)"
| "proto_free _ = True"

lemma assoc_mem: "assoc k kvs = Some v \<Longrightarrow> (k, v) \<in> set kvs"
  by (simp add: assoc_map_of map_of_SomeD)

lemma set_assoc_set: "set (assoc_set k v kvs) \<subseteq> insert (k, v) (set kvs)"
  by (induction kvs) (auto split: if_splits)

lemma proto_free_setprop:
  "proto_free t \<Longrightarrow> proto_free v \<Longrightarrow> k \<noteq> ''__proto__'' \<Longrightarrow> proto_free (setprop t k v)"
proof (cases t)
  case (Obj kvs)
  assume a: "proto_free t" "proto_free v" "k \<noteq> ''__proto__''"
  with Obj show ?thesis
    using set_assoc_set [of k v kvs] by (fastforce simp: list_all_iff)
next
  case (Arr vs)
  assume a: "proto_free t" "proto_free v" "k \<noteq> ''__proto__''"
  with Arr show ?thesis
    using set_update_subset_insert [of vs "digits_val k" v] by (auto simp: set_index_def list_all_iff)
qed auto

lemma proto_free_own_prop: "proto_free t \<Longrightarrow> proto_free (own_prop t k)"
  by (cases t) (auto simp: list_all_iff indexed_def split: option.split dest!: assoc_mem)

lemma proto_free_clone: "proto_free src \<Longrightarrow> proto_free (clone_of src copy)"
  by (simp add: clone_of_def)

lemma ext_items_proto_free:
  "deep \<Longrightarrow> proto_free t \<Longrightarrow> proto_free (ext_items deep t kvs)"
proof (induction deep t kvs rule: ext_items.induct)
  case (2 deep target name copy rest)
  have leaf: "\<not> isPlainObject copy \<Longrightarrow> \<not> is_array copy \<Longrightarrow> proto_free copy" by (cases copy) auto
  define target' where "target' =
        (if name = ''__proto__'' then target
         else if deep \<and> (isPlainObject copy \<or> is_array copy) then
           setprop target name (ext_items deep (clone_of (own_prop target name) copy) (own_items copy))
         else if copy \<noteq> Undefined then setprop target name copy
         else target)"
  have "proto_free target'"
    unfolding target'_def
    using 2(1) 2(3,4) leaf proto_free_clone [OF proto_free_own_prop [OF 2(4)]]
    by (auto intro!: proto_free_setprop)
  from 2(2) [OF target'_def 2(3) this] show ?case
    by (simp only: ext_items.simps target'_def Let_def)
qed simp

text \<open>
  A deep \<open>extend\<close> cannot pollute a prototype: whatever the options contain, and at any depth,
  no \<open>__proto__\<close> property is ever copied into a target that has none.
\<close>

theorem extend_no_pollution:
  "proto_free target \<Longrightarrow> proto_free (extend True target options)"
proof -
  have "proto_free (fold (\<lambda>opt t. if nullish opt then t else ext_items True t (own_items opt)) os t)"
    if "proto_free t" for os t
    using that by (induction os arbitrary: t) (auto simp: ext_items_proto_free)
  then show "proto_free target \<Longrightarrow> proto_free (extend True target options)" by (simp add: extend_def)
qed

theorem extend_no_pollution_witness:
  "proto_free (extend True (Obj [(''a'', Obj [])])
     [Obj [(''a'', Obj [(''__proto__'', Obj [(''x'', Bool True)])]), (''__proto__'', Obj [])]])"
  by (rule extend_no_pollution) simp

text \<open>
  A shallow \<open>extend\<close> overwrites exactly the properties the options define: a name is read
  from the options when they give it a value that is not undefined, else from the target.
\<close>

theorem extend_lookup:
  "distinct (map fst kvs) \<Longrightarrow> k \<noteq> ''__proto__'' \<Longrightarrow>
   own_prop (extend False (Obj ts) [Obj kvs]) k =
     (if own_prop (Obj kvs) k \<noteq> Undefined then own_prop (Obj kvs) k else own_prop (Obj ts) k)"
proof -
  assume k: "k \<noteq> ''__proto__''"
  have "own_prop (ext_items False (Obj ts) kvs) k =
     (if own_prop (Obj kvs) k \<noteq> Undefined then own_prop (Obj kvs) k else own_prop (Obj ts) k)"
    if "distinct (map fst kvs)" for kvs ts
    using that
  proof (induction kvs arbitrary: ts)
    case (Cons kv kvs)
    obtain n c where kv: "kv = (n, c)" by (cases kv)
    have fresh: "assoc n kvs = None" using Cons.prems kv by (auto simp: assoc_None)
    show ?case
      using Cons k kv fresh by (auto simp: Let_def split: option.split)
  qed simp
  then show "distinct (map fst kvs) \<Longrightarrow> own_prop (extend False (Obj ts) [Obj kvs]) k =
     (if own_prop (Obj kvs) k \<noteq> Undefined then own_prop (Obj kvs) k else own_prop (Obj ts) k)"
    by (simp add: extend_def)
qed

theorem extend_lookup_witness:
  "own_prop (extend False (Obj [(''page'', Num (Fin 1)), (''size'', Num (Fin 5))])
      [Obj [(''size'', Num (Fin 10)), (''page'', Undefined)]]) ''size'' = Num (Fin 10)"
  by (subst extend_lookup) simp_all

end
