(* ===== verification/JsRegExp.thy ===== *)
theory JsRegExp
  imports JsVal
begin

text \<open>
  The regular expressions of JavaScript, as far as the code uses them: the source text of a
  pattern is split into tokens, the tokens are parsed with a stack of open groups, and a
  backtracking matcher returns, for a position of the input, the texts that may be left over
  in the order in which a JavaScript engine tries them. The first one is the engine's match.

  Not covered, and reported as \<open>Unsupported\<close>: back references, word boundaries, look-behind and
  named groups. Captured groups are not recorded: no caller reads them.
\<close>

section \<open>Syntax\<close>

datatype re =
    Eps
  | Cls bool "(char \<times> char) list"   \<comment> \<open>a class of ranges; \<open>True\<close> negates it\<close>
  | Seq re re
  | Alt re re
  | Rep bool "nat option" re        \<comment> \<open>greedy or not, most iterations\<close>
  | Look bool re                    \<comment> \<open>look-ahead; \<open>True\<close>: negative\<close>
  | Bol
  | Eol

datatype re_error = SyntaxError | Unsupported

datatype re_token =
    TAtom re
  | TOpen
  | TLook bool
  | TClose
  | TBar
  | TQuant nat "nat option" bool    \<comment> \<open>least and greatest count, greedy\<close>

definition chr :: "char \<Rightarrow> re" where
  "chr c = Cls False [(c, c)]"

definition digit_ranges :: "(char \<times> char) list" where
  "digit_ranges = [(CHR ''0'', CHR ''9'')]"

definition word_ranges :: "(char \<times> char) list" where
  "word_ranges = [(CHR ''0'', CHR ''9''), (CHR ''A'', CHR ''Z''), (CHR ''_'', CHR ''_''),
     (CHR ''a'', CHR ''z'')]"

definition space_ranges :: "(char \<times> char) list" where
  "space_ranges = [(CHR 0x09, CHR 0x0D), (CHR '' '', CHR '' ''), (CHR 0xA0, CHR 0xA0)]"

definition line_ends :: "(char \<times> char) list" where
  "line_ends = [(CHR 0x0A, CHR 0x0A), (CHR 0x0D, CHR 0x0D)]"

text \<open>The complement of a list of ranges, for \<open>\D\<close>, \<open>\W\<close> and \<open>\S\<close> inside a class.\<close>

definition complement :: "(char \<times> char) list \<Rightarrow> (char \<times> char) list" where
  "complement rs =
     map (\<lambda>n. (char_of n, char_of n))
       (filter (\<lambda>n. list_all (\<lambda>(a, b). n < of_char a \<or> of_char b < n) rs) [0 ..< 256::nat])"

text \<open>What a backslash and the character after it stand for.\<close>

definition escape_class :: "char \<Rightarrow> (bool \<times> (char \<times> char) list) option" where
  "escape_class c =
     (if c = CHR ''d'' then Some (False, digit_ranges)
      else if c = CHR ''D'' then Some (True, digit_ranges)
      else if c = CHR ''w'' then Some (False, word_ranges)
      else if c = CHR ''W'' then Some (True, word_ranges)
      else if c = CHR ''s'' then Some (False, space_ranges)
      else if c = CHR ''S'' then Some (True, space_ranges)
      else if c = CHR ''n'' then Some (False, [(CHR 0x0A, CHR 0x0A)])
      else if c = CHR ''r'' then Some (False, [(CHR 0x0D, CHR 0x0D)])
      else if c = CHR ''t'' then Some (False, [(CHR 0x09, CHR 0x09)])
      else if c = CHR ''v'' then Some (False, [(CHR 0x0B, CHR 0x0B)])
      else if c = CHR ''f'' then Some (False, [(CHR 0x0C, CHR 0x0C)])
      else if is_digit c \<or> c \<in> {CHR ''b'', CHR ''B'', CHR ''k'', CHR ''c'', CHR ''u'', CHR ''x''} then None
      else Some (False, [(c, c)]))"

definition ranges_of :: "bool \<times> (char \<times> char) list \<Rightarrow> (char \<times> char) list" where
  "ranges_of p = (if fst p then complement (snd p) else snd p)"

text \<open>The members of a bracketed class up to its closing bracket.\<close>

fun class_items :: "string \<Rightarrow> (char \<times> char) list \<Rightarrow> re_error + (char \<times> char) list \<times> string" where
  "class_items [] acc = Inl SyntaxError"
| "class_items (c # s) acc =
     (if c = CHR '']'' then Inr (acc, s)
      else if c = CHR 0x5C then
        (case s of
           [] \<Rightarrow> Inl SyntaxError
         | e # s' \<Rightarrow>
             (case escape_class e of
                None \<Rightarrow> Inl Unsupported
              | Some p \<Rightarrow> class_items s' (acc @ ranges_of p)))
      else
        (case s of
           d # e # s' \<Rightarrow>
             if d = CHR ''-'' \<and> e \<noteq> CHR '']'' then
               (if e = CHR 0x5C then Inl Unsupported
                else if (of_char e :: nat) < of_char c then Inl SyntaxError
                else class_items s' (acc @ [(c, e)]))
             else class_items s (acc @ [(c, c)])
         | _ \<Rightarrow> class_items s (acc @ [(c, c)])))"

lemma class_items_length: "class_items s acc = Inr (rs, t) \<Longrightarrow> length t < length s"
proof (induction s acc rule: class_items.induct)
  case (2 c s acc)
  then show ?case
    by (simp split: if_splits list.splits option.splits) (auto intro!: less_SucI)
qed simp

text \<open>A counted quantifier after its opening brace; \<open>None\<close>: the brace is a plain character.\<close>

definition brace_quant :: "string \<Rightarrow> (nat \<times> nat option \<times> string) option" where
  "brace_quant s =
     (let ds = takeWhile is_digit s; r = dropWhile is_digit s
      in if ds = [] then None
         else case eat (CHR ''}'') r of
           Some t \<Rightarrow> Some (digits_val ds, Some (digits_val ds), t)
         | None \<Rightarrow>
             (case eat (CHR '','') r of
                None \<Rightarrow> None
              | Some u \<Rightarrow>
                  (let es = takeWhile is_digit u
                   in case eat (CHR ''}'') (dropWhile is_digit u) of
                     Some t \<Rightarrow> Some (digits_val ds, if es = [] then None else Some (digits_val es), t)
                   | None \<Rightarrow> None)))"

lemma brace_quant_length:
  assumes "brace_quant s = Some (m, n, t)"
  shows "length t < length s"
proof -
  have drop: "length (dropWhile is_digit u) \<le> length u" for u
    by (rule length_dropWhile_le)
  show ?thesis
  proof (cases "eat (CHR ''}'') (dropWhile is_digit s)")
    case (Some u)
    with assms have "u = t" by (simp add: brace_quant_def Let_def split: if_splits)
    with Some drop [of s] show ?thesis by (auto dest: eat_length)
  next
    case None
    with assms obtain u where u: "eat (CHR '','') (dropWhile is_digit s) = Some u"
      and t: "eat (CHR ''}'') (dropWhile is_digit u) = Some t"
      by (auto simp: brace_quant_def Let_def split: if_splits option.splits)
    from eat_length [OF u] eat_length [OF t] drop [of s] drop [of u] show ?thesis by linarith
  qed
qed

text \<open>A quantifier is lazy when a question mark follows it.\<close>

definition quant_token :: "nat \<Rightarrow> nat option \<Rightarrow> string \<Rightarrow> re_token \<times> string" where
  "quant_token m n s =
     (case eat (CHR ''?'') s of Some t \<Rightarrow> (TQuant m n False, t) | None \<Rightarrow> (TQuant m n True, s))"

lemma quant_token_length [simp]: "length (snd (quant_token m n s)) \<le> length s"
  by (auto simp: quant_token_def dest: eat_length split: option.split)

definition then_tokens :: "re_token \<Rightarrow> re_error + re_token list \<Rightarrow> re_error + re_token list" where
  "then_tokens t r = (case r of Inl e \<Rightarrow> Inl e | Inr ts \<Rightarrow> Inr (t # ts))"

lemma then_tokens_simps [simp]:
  "then_tokens t (Inl e) = Inl e" "then_tokens t (Inr ts) = Inr (t # ts)"
  by (simp_all add: then_tokens_def)

text \<open>The token an opening parenthesis starts, and what follows it.\<close>

definition open_token :: "string \<Rightarrow> re_error + re_token \<times> string" where
  "open_token s =
     (case eat (CHR ''?'') s of
        None \<Rightarrow> Inr (TOpen, s)
      | Some [] \<Rightarrow> Inl SyntaxError
      | Some (c # t) \<Rightarrow>
          if c = CHR '':'' then Inr (TOpen, t)
          else if c = CHR ''='' then Inr (TLook False, t)
          else if c = CHR ''!'' then Inr (TLook True, t)
          else if c = CHR ''<'' then Inl Unsupported
          else Inl SyntaxError)"

lemma open_token_length: "open_token s = Inr (t, r) \<Longrightarrow> length r \<le> length s"
  by (auto simp: open_token_def eat_Some split: option.splits list.splits if_splits)

function re_tokens :: "string \<Rightarrow> re_error + re_token list" where
  "re_tokens [] = Inr []"
| "re_tokens (c # s) =
     (if c = CHR ''.'' then then_tokens (TAtom (Cls True line_ends)) (re_tokens s)
      else if c = CHR ''^'' then then_tokens (TAtom Bol) (re_tokens s)
      else if c = CHR ''$'' then then_tokens (TAtom Eol) (re_tokens s)
      else if c = CHR ''|'' then then_tokens TBar (re_tokens s)
      else if c = CHR '')'' then then_tokens TClose (re_tokens s)
      else if c = CHR ''('' then
        (case open_token s of
           Inl e \<Rightarrow> Inl e
         | Inr (t, r) \<Rightarrow> then_tokens t (re_tokens r))
      else if c = CHR ''*'' then
        (case quant_token 0 None s of (t, r) \<Rightarrow> then_tokens t (re_tokens r))
      else if c = CHR ''+'' then
        (case quant_token 1 None s of (t, r) \<Rightarrow> then_tokens t (re_tokens r))
      else if c = CHR ''?'' then
        (case quant_token 0 (Some 1) s of (t, r) \<Rightarrow> then_tokens t (re_tokens r))
      else if c = CHR ''{'' then
        (case brace_quant s of
           None \<Rightarrow> then_tokens (TAtom (chr c)) (re_tokens s)
         | Some (m, n, u) \<Rightarrow>
             if n \<noteq> None \<and> the n < m then Inl SyntaxError
             else (case quant_token m n u of (t, r) \<Rightarrow> then_tokens t (re_tokens r)))
      else if c = CHR ''['' then
        (case eat (CHR ''^'') s of
           Some u \<Rightarrow>
             (case class_items u [] of
                Inl e \<Rightarrow> Inl e
              | Inr (rs, r) \<Rightarrow> then_tokens (TAtom (Cls True rs)) (re_tokens r))
         | None \<Rightarrow>
             (case class_items s [] of
                Inl e \<Rightarrow> Inl e
              | Inr (rs, r) \<Rightarrow> then_tokens (TAtom (Cls False rs)) (re_tokens r)))
      else if c = CHR 0x5C then
        (case s of
           [] \<Rightarrow> Inl SyntaxError
         | e # r \<Rightarrow>
             (case escape_class e of
                None \<Rightarrow> Inl Unsupported
              | Some (neg, rs) \<Rightarrow> then_tokens (TAtom (Cls neg rs)) (re_tokens r)))
      else then_tokens (TAtom (chr c)) (re_tokens s))"
  by pat_completeness auto

lemma quant_token_length': "(t, r) = quant_token m n s \<Longrightarrow> length r \<le> length s"
  using quant_token_length [of m n s] by (cases "quant_token m n s") simp

termination re_tokens
  by (relation "measure length")
    (auto dest: open_token_length quant_token_length' class_items_length brace_quant_length eat_length
      simp: less_Suc_eq_le intro: order.trans less_imp_le)

declare re_tokens.simps(2) [simp del]

section \<open>Parsing\<close>

text \<open>An open group: whether it is a look-ahead, its finished branches, the items of the last branch.\<close>

type_synonym frame = "bool option \<times> re list \<times> (re \<times> bool) list"

definition seq_re :: "(re \<times> bool) list \<Rightarrow> re" where
  "seq_re items = foldr (\<lambda>it r. Seq (fst it) r) (rev items) Eps"

fun alt_re :: "re list \<Rightarrow> re" where
  "alt_re [] = Eps"
| "alt_re [r] = r"
| "alt_re (r # rs) = Alt r (alt_re rs)"

fun frame_re :: "frame \<Rightarrow> re" where
  "frame_re (look, alts, items) =
     (let r = alt_re (rev alts @ [seq_re items])
      in case look of None \<Rightarrow> r | Some neg \<Rightarrow> Look neg r)"

text \<open>\<open>r{m,n}\<close>: the required iterations, then the optional ones.\<close>

fun repeat_re :: "nat \<Rightarrow> nat option \<Rightarrow> bool \<Rightarrow> re \<Rightarrow> re" where
  "repeat_re 0 n g r = Rep g n r"
| "repeat_re (Suc m) n g r = Seq r (repeat_re m (map_option (\<lambda>k. k - 1) n) g r)"

fun push_item :: "re \<times> bool \<Rightarrow> frame list \<Rightarrow> frame list" where
  "push_item it [] = []"
| "push_item it ((look, alts, items) # fs) = (look, alts, it # items) # fs"

text \<open>The stack always holds the frame of the whole pattern at its bottom.\<close>

fun parse_re :: "re_token list \<Rightarrow> frame list \<Rightarrow> re_error + re" where
  "parse_re [] fs = (case fs of [f] \<Rightarrow> Inr (frame_re f) | _ \<Rightarrow> Inl SyntaxError)"
| "parse_re (TAtom r # ts) fs = parse_re ts (push_item (r, r \<noteq> Bol \<and> r \<noteq> Eol) fs)"
| "parse_re (TOpen # ts) fs = parse_re ts ((None, [], []) # fs)"
| "parse_re (TLook neg # ts) fs = parse_re ts ((Some neg, [], []) # fs)"
| "parse_re (TClose # ts) fs =
     (case fs of
        f # f' # fs' \<Rightarrow> parse_re ts (push_item (frame_re f, True) (f' # fs'))
      | _ \<Rightarrow> Inl SyntaxError)"
| "parse_re (TBar # ts) fs =
     (case fs of
        (look, alts, items) # fs' \<Rightarrow> parse_re ts ((look, seq_re items # alts, []) # fs')
      | _ \<Rightarrow> Inl SyntaxError)"
| "parse_re (TQuant m n g # ts) fs =
     (case fs of
        (look, alts, (r, True) # items) # fs' \<Rightarrow>
          parse_re ts ((look, alts, (repeat_re m n g r, False) # items) # fs')
      | _ \<Rightarrow> Inl SyntaxError)"

text \<open>\<open>new RegExp(pattern)\<close>.\<close>

definition RegExp :: "string \<Rightarrow> re_error + re" where
  "RegExp pat = (case re_tokens pat of Inl e \<Rightarrow> Inl e | Inr ts \<Rightarrow> parse_re ts [(None, [], [])])"

section \<open>Matching\<close>

fun re_size :: "re \<Rightarrow> nat" where
  "re_size (Seq a b) = Suc (re_size a + re_size b)"
| "re_size (Alt a b) = Suc (re_size a + re_size b)"
| "re_size (Rep g n r) = Suc (re_size r)"
| "re_size (Look neg r) = Suc (re_size r)"
| "re_size _ = 0"

definition in_range :: "char \<Rightarrow> char \<times> char \<Rightarrow> bool" where
  "in_range c r \<longleftrightarrow> (of_char (fst r) :: nat) \<le> of_char c \<and> (of_char c :: nat) \<le> of_char (snd r)"

definition in_class :: "bool \<Rightarrow> bool \<Rightarrow> (char \<times> char) list \<Rightarrow> char \<Rightarrow> bool" where
  "in_class ic neg rs c =
     (neg \<noteq> list_ex (\<lambda>r. in_range c r \<or> ic \<and> (in_range (char_upper c) r \<or> in_range (char_lower c) r)) rs)"

text \<open>
  \<open>re_run ic n r s\<close>: the rests of \<open>s\<close> after \<open>r\<close>, in the order of a backtracking engine; \<open>n\<close> is
  the length of the whole input and \<open>ic\<close> the flag \<open>i\<close>. An optional iteration that consumes
  nothing is rejected, as the language definition asks.
\<close>

function re_run :: "bool \<Rightarrow> nat \<Rightarrow> re \<Rightarrow> string \<Rightarrow> string list" where
  "re_run ic n Eps s = [s]"
| "re_run ic n (Cls neg rs) s =
     (case s of [] \<Rightarrow> [] | c # t \<Rightarrow> if in_class ic neg rs c then [t] else [])"
| "re_run ic n (Seq a b) s = concat (map (re_run ic n b) (re_run ic n a s))"
| "re_run ic n (Alt a b) s = re_run ic n a s @ re_run ic n b s"
| "re_run ic n (Rep g k r) s =
     (let more = (if k = Some 0 then []
                  else concat (map (\<lambda>t. if length t < length s
                                       then re_run ic n (Rep g (map_option (\<lambda>j. j - 1) k) r) t else [])
                                   (re_run ic n r s)))
      in if g then more @ [s] else s # more)"
| "re_run ic n (Look neg r) s = (if neg \<noteq> (re_run ic n r s \<noteq> []) then [s] else [])"
| "re_run ic n Bol s = (if length s = n then [s] else [])"
| "re_run ic n Eol s = (if s = [] then [s] else [])"
  by pat_completeness auto
termination re_run
  by (relation "measures [\<lambda>(ic, n, r, s). re_size r, \<lambda>(ic, n, r, s). length s]") auto

declare re_run.simps(5) [simp del]

text \<open>The first match at or after the current position: its index and its text.\<close>

fun search_from :: "bool \<Rightarrow> nat \<Rightarrow> re \<Rightarrow> nat \<Rightarrow> string \<Rightarrow> (nat \<times> string) option" where
  "search_from ic n r i s =
     (case re_run ic n r s of
        t # _ \<Rightarrow> Some (i, take (length s - length t) s)
      | [] \<Rightarrow> (case s of [] \<Rightarrow> None | _ # s' \<Rightarrow> search_from ic n r (Suc i) s'))"

declare search_from.simps [simp del]

definition re_search :: "bool \<Rightarrow> re \<Rightarrow> string \<Rightarrow> (nat \<times> string) option" where
  "re_search ic r s = search_from ic (length s) r 0 s"

definition re_test :: "bool \<Rightarrow> re \<Rightarrow> string \<Rightarrow> bool" where
  "re_test ic r s \<longleftrightarrow> re_search ic r s \<noteq> None"

section \<open>Literal patterns\<close>

text \<open>A pattern without syntax characters, or with all of them escaped, matches its own text.\<close>

definition lit_re :: "string \<Rightarrow> re \<Rightarrow> re" where
  "lit_re s r = foldr (\<lambda>c r. Seq (chr c) r) s r"

lemma lit_re_simps [simp]:
  "lit_re [] r = r" "lit_re (c # s) r = Seq (chr c) (lit_re s r)"
  by (simp_all add: lit_re_def)

lemma re_run_chr [simp]:
  "re_run False n (chr c) s = (case s of [] \<Rightarrow> [] | x # t \<Rightarrow> if x = c then [t] else [])"
  by (auto simp: chr_def in_class_def in_range_def split: list.split)

lemma re_run_lit:
  "re_run False n (lit_re p r) s = (if prefix p s then re_run False n r (drop (length p) s) else [])"
  by (induction p arbitrary: s) (auto split: list.split)

definition re_syntax :: "char list" where
  "re_syntax = ''.^$|()*+?{['' @ [CHR 0x5C]"

lemma re_tokens_plain: "c \<notin> set re_syntax \<Longrightarrow> re_tokens (c # s) = then_tokens (TAtom (chr c)) (re_tokens s)"
  by (simp add: re_syntax_def re_tokens.simps(2))

lemma re_tokens_escaped:
  "escape_class c = Some (neg, rs) \<Longrightarrow>
   re_tokens (CHR 0x5C # c # s) = then_tokens (TAtom (Cls neg rs)) (re_tokens s)"
  by (simp add: re_tokens.simps(2))

definition escape_with :: "(char \<Rightarrow> bool) \<Rightarrow> string \<Rightarrow> string" where
  "escape_with P s = concat (map (\<lambda>c. if P c then [CHR 0x5C, c] else [c]) s)"

lemma escape_with_simps [simp]:
  "escape_with P [] = []"
  "escape_with P (c # s) = (if P c then CHR 0x5C # c # escape_with P s else c # escape_with P s)"
  by (simp_all add: escape_with_def)

lemma re_tokens_escape:
  assumes "\<And>c. P c \<Longrightarrow> escape_class c = Some (False, [(c, c)])"
    and "\<And>c. c \<in> set re_syntax \<Longrightarrow> P c"
  shows "re_tokens (escape_with P s @ t) = foldr (\<lambda>c r. then_tokens (TAtom (chr c)) r) s (re_tokens t)"
proof (induction s)
  case (Cons c s)
  show ?case
  proof (cases "P c")
    case True
    then have "re_tokens (CHR 0x5C # c # u) = then_tokens (TAtom (chr c)) (re_tokens u)" for u
      using re_tokens_escaped [OF assms(1)] by (simp add: chr_def)
    with True Cons show ?thesis by simp
  next
    case False
    then have "c \<notin> set re_syntax" using assms(2) by blast
    with False Cons show ?thesis by (simp add: re_tokens_plain)
  qed
qed simp

lemma foldr_then_tokens: "foldr (\<lambda>c r. then_tokens (TAtom (chr c)) r) s (Inr ts) = Inr (map (\<lambda>c. TAtom (chr c)) s @ ts)"
  by (induction s) simp_all

lemma parse_re_chars:
  "parse_re (map (\<lambda>c. TAtom (chr c)) s @ ts) ((look, alts, items) # fs) =
   parse_re ts ((look, alts, rev (map (\<lambda>c. (chr c, True)) s) @ items) # fs)"
  by (induction s arbitrary: items) (simp_all add: chr_def)

lemma seq_re_chars: "seq_re (items @ rev (map (\<lambda>c. (chr c, True)) s)) = lit_re s (seq_re items)"
  by (induction s arbitrary: items) (simp_all add: seq_re_def)

text \<open>An escaped literal compiles to the literal.\<close>

lemma RegExp_escape:
  assumes "\<And>c. P c \<Longrightarrow> escape_class c = Some (False, [(c, c)])"
    and "\<And>c. c \<in> set re_syntax \<Longrightarrow> P c"
  shows "RegExp (escape_with P s) = Inr (lit_re s Eps)"
  using re_tokens_escape [of P s "[]", OF assms]
  by (simp add: RegExp_def foldr_then_tokens parse_re_chars [where ts = "[]", simplified]
      seq_re_chars [where items = "[]", simplified] seq_re_def [of "[]"])

text \<open>What is left is always a suffix, so the matched text and the rest make up the input.\<close>

lemma re_run_Rep:
  "t \<in> set (re_run ic n (Rep g k r) s) \<longleftrightarrow>
   t = s \<or> k \<noteq> Some 0 \<and> (\<exists>u \<in> set (re_run ic n r s). length u < length s \<and>
     t \<in> set (re_run ic n (Rep g (map_option (\<lambda>j. j - 1) k) r) u))"
  by (subst re_run.simps) (auto simp: Let_def)

lemma re_run_suffix: "t \<in> set (re_run ic n r s) \<Longrightarrow> suffix t s"
proof (induction ic n r s arbitrary: t rule: re_run.induct)
  case (2 ic n neg rs s)
  then show ?case by (auto split: list.splits if_splits intro: suffix_ConsI)
next
  case (3 ic n a b s)
  then show ?case by (auto intro: suffix_order.trans)
next
  case (5 ic n g k r s)
  from "5.prems" consider "t = s"
    | u where "k \<noteq> Some 0" "u \<in> set (re_run ic n r s)" "length u < length s"
        "t \<in> set (re_run ic n (Rep g (map_option (\<lambda>j. j - 1) k) r) u)"
    using re_run_Rep [THEN iffD1, OF "5.prems"] by blast
  then show ?case
  proof cases
    case 2
    then have "suffix t u" "suffix u s" using "5.IH" by blast+
    then show ?thesis by (rule suffix_order.trans)
  qed simp
qed (auto split: if_splits)

lemma re_run_length: "t \<in> set (re_run ic n r s) \<Longrightarrow> length t \<le> length s"
  by (meson re_run_suffix suffix_length_le)

text \<open>The search returns the leftmost position at which the expression matches.\<close>

lemma search_from_Some:
  "search_from ic n r i s = Some (j, m) \<Longrightarrow>
   i \<le> j \<and> j - i \<le> length s \<and> prefix m (drop (j - i) s) \<and>
   drop (j - i + length m) s = hd (re_run ic n r (drop (j - i) s)) \<and> re_run ic n r (drop (j - i) s) \<noteq> [] \<and>
   (\<forall>k < j - i. re_run ic n r (drop k s) = [])"
proof (induction ic n r i s rule: search_from.induct)
  case (1 ic n r i s)
  show ?case
  proof (cases "re_run ic n r s")
    case (Cons t ts)
    then have "suffix t s" using re_run_suffix [of t ic n r s] by simp
    then obtain u where "s = u @ t" by (auto simp: suffix_def)
    moreover from this have "j = i" "m = u"
      using 1(2) Cons search_from.simps [of ic n r i s] by auto
    ultimately show ?thesis using Cons by simp
  next
    case Nil
    with 1(2) obtain c s' where s: "s = c # s'"
      and rest: "search_from ic n r (Suc i) s' = Some (j, m)"
      by (auto simp: search_from.simps [of ic n r i s] split: list.splits)
    from 1(1) [OF Nil s rest] have IH: "Suc i \<le> j" "j - Suc i \<le> length s'" 
      "prefix m (drop (j - Suc i) s')"
      "drop (j - Suc i + length m) s' = hd (re_run ic n r (drop (j - Suc i) s'))"
      "re_run ic n r (drop (j - Suc i) s') \<noteq> []"
      "\<forall>k < j - Suc i. re_run ic n r (drop k s') = []"
      by auto
    have "j - i = Suc (j - Suc i)" using IH(1) by simp
    moreover have "re_run ic n r (drop k s) = []" if "k < j - i" for k
      using that Nil IH(6) s by (cases k) auto
    ultimately show ?thesis using IH s by simp
  qed
qed

lemma search_from_None:
  "search_from ic n r i s = None \<Longrightarrow> k \<le> length s \<Longrightarrow> re_run ic n r (drop k s) = []"
proof (induction ic n r i s arbitrary: k rule: search_from.induct)
  case (1 ic n r i s)
  have e: "re_run ic n r s = []"
    using 1(2) by (auto simp: search_from.simps [of ic n r i s] split: list.splits)
  show ?case
  proof (cases k)
    case (Suc k')
    then obtain c s' where s: "s = c # s'" using 1(3) by (cases s) auto
    then have "search_from ic n r (Suc i) s' = None"
      using 1(2) e search_from.simps [of ic n r i s] by simp
    then show ?thesis using 1(1) [OF e s] Suc s 1(3) by simp
  qed (simp add: e)
qed

lemma search_from_none_iff:
  "search_from ic n r i s = None \<longleftrightarrow> (\<forall>k \<le> length s. re_run ic n r (drop k s) = [])"
proof
  assume "search_from ic n r i s = None"
  then show "\<forall>k \<le> length s. re_run ic n r (drop k s) = []" using search_from_None by blast
next
  assume a: "\<forall>k \<le> length s. re_run ic n r (drop k s) = []"
  show "search_from ic n r i s = None"
  proof (rule ccontr)
    assume "search_from ic n r i s \<noteq> None"
    then obtain j m where "search_from ic n r i s = Some (j, m)" by auto
    from search_from_Some [OF this] a show False by auto
  qed
qed

lemma re_test_iff: "re_test ic r s \<longleftrightarrow> (\<exists>k \<le> length s. re_run ic (length s) r (drop k s) \<noteq> [])"
  by (simp add: re_test_def re_search_def search_from_none_iff)

text \<open>A pattern without syntax characters; with the flag \<open>i\<close> it is found regardless of case.\<close>

lemma RegExp_plain:
  assumes "set s \<inter> set re_syntax = {}"
  shows "RegExp s = Inr (lit_re s Eps)"
proof -
  have "re_tokens s = Inr (map (\<lambda>c. TAtom (chr c)) s)"
    using assms by (induction s) (simp_all add: re_tokens_plain)
  then show ?thesis
    by (simp add: RegExp_def parse_re_chars [where ts = "[]", simplified]
        seq_re_chars [where items = "[]", simplified] seq_re_def [of "[]"])
qed

lemma of_char_lower: "(of_char (char_lower c) :: nat) =
   (let n = of_char c in if 65 \<le> n \<and> n \<le> 90 \<or> 192 \<le> n \<and> n \<le> 222 \<and> n \<noteq> 215 then n + 32 else n)"
  by (auto simp: char_lower_def Let_def of_char_of)

lemma of_char_upper: "(of_char (char_upper c) :: nat) =
   (let n = of_char c in if 97 \<le> n \<and> n \<le> 122 \<or> 224 \<le> n \<and> n \<le> 254 \<and> n \<noteq> 247 then n - 32 else n)"
  by (auto simp: char_upper_def Let_def of_char_of)

lemma same_letter: "(x = c \<or> char_upper x = c \<or> char_lower x = c) \<longleftrightarrow> char_lower x = char_lower c"
proof -
  have eq: "a = b \<longleftrightarrow> (of_char a :: nat) = of_char b" for a b :: char by simp
  show ?thesis unfolding eq of_char_lower of_char_upper Let_def by auto
qed

lemma in_range_single: "in_range x (c, c) \<longleftrightarrow> x = c"
proof -
  have "(of_char x :: nat) = of_char c \<longleftrightarrow> x = c" by simp
  then show ?thesis by (auto simp: in_range_def)
qed

lemma re_run_chr_ic:
  "re_run True n (chr c) s = (case s of [] \<Rightarrow> [] | x # t \<Rightarrow> if char_lower x = char_lower c then [t] else [])"
  using same_letter by (auto simp: chr_def in_class_def in_range_single split: list.split)

lemma re_run_lit_ic:
  "re_run True n (lit_re p r) s =
   (if prefix (to_lower p) (to_lower s) then re_run True n r (drop (length p) s) else [])"
proof (induction p arbitrary: s)
  case (Cons c p)
  then show ?case by (cases s) (auto simp: re_run_chr_ic to_lower_def)
qed (simp add: to_lower_def)

lemma re_test_lit_ic: "re_test True (lit_re p Eps) s \<longleftrightarrow> sublist (to_lower p) (to_lower s)"
proof -
  have "(\<exists>k \<le> length s. prefix (to_lower p) (drop k (to_lower s))) \<longleftrightarrow> sublist (to_lower p) (to_lower s)"
  proof
    assume "\<exists>k \<le> length s. prefix (to_lower p) (drop k (to_lower s))"
    then show "sublist (to_lower p) (to_lower s)"
      by (metis append_take_drop_id prefix_def sublist_appendI)
  next
    assume "sublist (to_lower p) (to_lower s)"
    then obtain u v where "to_lower s = u @ to_lower p @ v" by (auto simp: sublist_def)
    then have "prefix (to_lower p) (drop (length u) (to_lower s))" "length u \<le> length (to_lower s)" by simp_all
    then show "\<exists>k \<le> length s. prefix (to_lower p) (drop k (to_lower s))" by (auto simp: to_lower_def)
  qed
  moreover have "to_lower (drop k s) = drop k (to_lower s)" for k by (simp add: to_lower_def drop_map)
  ultimately show ?thesis by (auto simp: re_test_iff re_run_lit_ic)
qed

end
