(* ===== verification/Mustache_Scanner.thy ===== *)
theory Mustache_Scanner
  imports JsRegExp
begin

text \<open>
  The first part of \<open>mustache.js\<close>: the helpers for regular expressions and HTML, and the string
  scanner of the template parser. Regular expressions are compiled from the pattern texts of
  the source by \<^const>\<open>RegExp\<close>.
\<close>

section \<open>Helpers\<close>

definition re_of :: "string \<Rightarrow> re" where
  "re_of pat = (case RegExp pat of Inr r \<Rightarrow> r | Inl _ \<Rightarrow> Eps)"

definition backslash :: string where
  "backslash = [CHR 0x5C]"

definition re_special :: "char \<Rightarrow> bool" where
  "re_special c \<longleftrightarrow> c \<in> set (''-[]{}()*+?.,^$|#'' @ backslash) \<or> is_space c"

definition escapeRegExp :: "string \<Rightarrow> string" where
  "escapeRegExp s = escape_with re_special s"

definition nonSpaceRe :: re where
  "nonSpaceRe = re_of (backslash @ ''S'')"

definition isWhitespace :: "string \<Rightarrow> bool" where
  "isWhitespace s \<longleftrightarrow> \<not> re_test False nonSpaceRe s"

definition entityMap :: "char \<Rightarrow> string option" where
  "entityMap c =
     (if c = CHR ''&'' then Some ''&amp;''
      else if c = CHR ''<'' then Some ''&lt;''
      else if c = CHR ''>'' then Some ''&gt;''
      else if c = CHR 0x22 then Some ''&quot;''
      else if c = CHR 0x27 then Some ''&#39;''
      else if c = CHR ''/'' then Some ''&#x2F;''
      else None)"

definition escape_string :: "string \<Rightarrow> string" where
  "escape_string s = concat (map (\<lambda>c. case entityMap c of Some e \<Rightarrow> e | None \<Rightarrow> [c]) s)"

definition escapeHtml :: "host \<Rightarrow> jsval \<Rightarrow> string" where
  "escapeHtml h v = escape_string (tostr h v)"

definition whiteRe :: re where
  "whiteRe = re_of (backslash @ ''s*'')"

definition equalsRe :: re where
  "equalsRe = re_of (backslash @ ''s*='')"

definition curlyRe :: re where
  "curlyRe = re_of (backslash @ ''s*'' @ backslash @ ''}'')"

definition tagRe :: re where
  "tagRe = re_of (''#|'' @ backslash @ ''^|'' @ backslash @ ''/|>|'' @ backslash @ ''{|&|=|!'')"

text \<open>\<open>s.split(/\s+/)\<close>.\<close>

function split_spaces :: "string \<Rightarrow> string list" where
  "split_spaces s =
     (let w = takeWhile (\<lambda>c. \<not> is_space c) s; r = dropWhile (\<lambda>c. \<not> is_space c) s
      in if r = [] then [w] else w # split_spaces (dropWhile is_space r))"
  by pat_completeness auto
lemma split_spaces_shorter:
  "dropWhile (\<lambda>c. \<not> is_space c) s \<noteq> [] \<Longrightarrow>
   length (dropWhile is_space (dropWhile (\<lambda>c. \<not> is_space c) s)) < length s"
proof (induction s)
  case (Cons c s)
  then show ?case
    using length_dropWhile_le [of is_space s] by (cases "is_space c") auto
qed simp

termination split_spaces
  by (relation "measure length") (simp_all add: split_spaces_shorter)

declare split_spaces.simps [simp del]

section \<open>The scanner\<close>

record scanner =
  sc_string :: string
  sc_tail :: string
  sc_pos :: nat

definition Scanner :: "string \<Rightarrow> scanner" where
  "Scanner s = \<lparr>sc_string = s, sc_tail = s, sc_pos = 0\<rparr>"

definition eos :: "scanner \<Rightarrow> bool" where
  "eos sc \<longleftrightarrow> sc_tail sc = []"

definition advance :: "nat \<Rightarrow> scanner \<Rightarrow> scanner" where
  "advance n sc = sc\<lparr>sc_tail := drop n (sc_tail sc), sc_pos := sc_pos sc + n\<rparr>"

definition scan :: "re \<Rightarrow> scanner \<Rightarrow> string \<times> scanner" where
  "scan r sc =
     (case re_search False r (sc_tail sc) of
        None \<Rightarrow> ([], sc)
      | Some (index, m) \<Rightarrow> if index \<noteq> 0 then ([], sc) else (m, advance (length m) sc))"

definition scanUntil :: "re \<Rightarrow> scanner \<Rightarrow> string \<times> scanner" where
  "scanUntil r sc =
     (case re_search False r (sc_tail sc) of
        None \<Rightarrow> (sc_tail sc, advance (length (sc_tail sc)) sc)
      | Some (index, m) \<Rightarrow>
          if index = 0 then ([], sc) else (take index (sc_tail sc), advance index sc))"

section \<open>The scanner only moves forward over its string\<close>

text \<open>What is read plus what is left is what was there, at the position the scanner reports.\<close>

definition scanner_ok :: "scanner \<Rightarrow> bool" where
  "scanner_ok sc \<longleftrightarrow> sc_pos sc \<le> length (sc_string sc) \<and> sc_tail sc = drop (sc_pos sc) (sc_string sc)"

lemma scanner_ok_init [simp]: "scanner_ok (Scanner s)"
  by (simp add: scanner_ok_def Scanner_def)

lemma advance_sel [simp]:
  "sc_string (advance n sc) = sc_string sc" "sc_tail (advance n sc) = drop n (sc_tail sc)"
  "sc_pos (advance n sc) = sc_pos sc + n"
  by (simp_all add: advance_def)

lemma advance_0 [simp]: "advance 0 sc = sc"
  by (simp add: advance_def)

lemma re_search_prefix:
  "re_search ic r s = Some (i, m) \<Longrightarrow> i + length m \<le> length s \<and> prefix m (drop i s)"
  unfolding re_search_def
  by (drule search_from_Some) (auto dest: prefix_length_le)

lemma re_search_index: "re_search ic r s = Some (i, m) \<Longrightarrow> i \<le> length s"
  using re_search_prefix by fastforce

text \<open>The common shape of both operations: some prefix of the tail is consumed and returned.\<close>

lemma scan_advance: "scan r sc = (m, sc') \<Longrightarrow> prefix m (sc_tail sc) \<and> sc' = advance (length m) sc"
  by (auto simp: scan_def dest: re_search_prefix split: option.splits if_splits)

lemma scanUntil_advance:
  "scanUntil r sc = (m, sc') \<Longrightarrow> prefix m (sc_tail sc) \<and> sc' = advance (length m) sc"
proof (cases "re_search False r (sc_tail sc)")
  case (Some p)
  then have "min (length (sc_tail sc)) (fst p) = fst p"
    by (cases p) (auto dest: re_search_index)
  moreover assume "scanUntil r sc = (m, sc')"
  ultimately show ?thesis
    using Some by (auto simp: scanUntil_def take_is_prefix split: if_splits prod.splits)
qed (auto simp: scanUntil_def)

lemma advance_ok: "scanner_ok sc \<Longrightarrow> prefix m (sc_tail sc) \<Longrightarrow> scanner_ok (advance (length m) sc)"
  by (auto simp: scanner_ok_def add.commute dest!: prefix_length_le)

lemma scan_ok: "scanner_ok sc \<Longrightarrow> scan r sc = (m, sc') \<Longrightarrow> scanner_ok sc'"
  by (metis scan_advance advance_ok)

lemma scanUntil_ok: "scanner_ok sc \<Longrightarrow> scanUntil r sc = (m, sc') \<Longrightarrow> scanner_ok sc'"
  by (metis scanUntil_advance advance_ok)

lemma scan_string: "scan r sc = (m, sc') \<Longrightarrow> sc_string sc' = sc_string sc"
  by (metis scan_advance advance_sel(1))

lemma scanUntil_string: "scanUntil r sc = (m, sc') \<Longrightarrow> sc_string sc' = sc_string sc"
  by (metis scanUntil_advance advance_sel(1))

lemma scan_length: "scan r sc = (m, sc') \<Longrightarrow> length (sc_tail sc') + length m = length (sc_tail sc)"
  by (auto dest!: scan_advance prefix_length_le)

lemma scanUntil_length:
  "scanUntil r sc = (m, sc') \<Longrightarrow> length (sc_tail sc') + length m = length (sc_tail sc)"
  by (auto dest!: scanUntil_advance prefix_length_le)

text \<open>The text of a token is the part of the template between its two positions.\<close>

lemma scanUntil_slice:
  "scanner_ok sc \<Longrightarrow> scanUntil r sc = (m, sc') \<Longrightarrow>
   m = take (sc_pos sc' - sc_pos sc) (drop (sc_pos sc) (sc_string sc))"
  by (auto simp: scanner_ok_def dest!: scanUntil_advance) (metis append_eq_conv_conj prefix_def)

section \<open>Escaping\<close>

lemma special_chars_escape:
  "list_all (\<lambda>c. escape_class c = Some (False, [(c, c)]))
     (''-[]{}()*+?.,^$|#'' @ backslash @
      [CHR 0x09, CHR 0x0A, CHR 0x0B, CHR 0x0C, CHR 0x0D, CHR '' '', CHR 0xA0])"
  by code_simp

lemma re_special_escapes: "re_special c \<Longrightarrow> escape_class c = Some (False, [(c, c)])"
  using special_chars_escape unfolding re_special_def is_space_def list_all_iff by auto

lemma re_syntax_special: "c \<in> set re_syntax \<Longrightarrow> re_special c"
  by (auto simp: re_special_def re_syntax_def backslash_def)

lemma RegExp_escapeRegExp: "RegExp (escapeRegExp s) = Inr (lit_re s Eps)"
  unfolding escapeRegExp_def by (rule RegExp_escape [OF re_special_escapes re_syntax_special])

end
