(* ===== verification/Mustache_Parser.thy ===== *)
theory Mustache_Parser
  imports Mustache_Scanner
begin

text \<open>
  The template parser of \<open>mustache.js\<close>: \<open>parseTemplate\<close> with its local functions
  \<open>stripSpace\<close> and \<open>compileTags\<close>, and the two passes \<open>squashTokens\<close> and \<open>nestTokens\<close>.
  Every \<open>throw\<close> is an error value. \<open>delete tokens[i]\<close> leaves a hole in the array, so the
  array holds optional tokens. A section token that later receives its children through a
  shared array is a frame of a stack here.
\<close>

section \<open>Tokens and errors\<close>

datatype toktype = Text | Name | Section | Inverted | Close | Partial | Triple | Unescaped
  | SetDelim | Comment

record token =
  t_type :: toktype
  t_value :: string
  t_start :: nat
  t_end :: nat

datatype merror =
    InvalidTags
  | UnclosedTag nat
  | UnopenedSection string nat
  | UnclosedSection string nat
  | HigherOrder
  | MTypeError
  | StackOverflow

text \<open>A token with a subtree carries its children and where its closing tag begins.\<close>

datatype ntoken = NTok token | NSec token "ntoken list" "nat option"

text \<open>The type a tag symbol stands for; no symbol is a plain name.\<close>

definition toktype_of :: "string \<Rightarrow> toktype" where
  "toktype_of s =
     (if s = ''#'' then Section else if s = ''^'' then Inverted else if s = ''/'' then Close
      else if s = ''>'' then Partial else if s = ''{'' then Triple else if s = ''&'' then Unescaped
      else if s = ''='' then SetDelim else if s = ''!'' then Comment else Name)"

section \<open>Tags\<close>

record tag_res =
  openingTagRe :: re
  closingTagRe :: re
  closingCurlyRe :: re

definition compileTags :: "jsval \<Rightarrow> merror + tag_res" where
  "compileTags tags =
     (let tags' = (case tags of Str s \<Rightarrow> Arr (map Str (take 2 (split_spaces s))) | _ \<Rightarrow> tags)
      in case tags' of
        Arr [t0, t1] \<Rightarrow>
          (case (t0, t1) of
             (Str a, Str b) \<Rightarrow>
               Inr \<lparr>openingTagRe = re_of (escapeRegExp a @ backslash @ ''s*''),
                    closingTagRe = re_of (backslash @ ''s*'' @ escapeRegExp b),
                    closingCurlyRe = re_of (backslash @ ''s*'' @ escapeRegExp (''}'' @ b))\<rparr>
           | _ \<Rightarrow> Inl MTypeError)
      | _ \<Rightarrow> Inl InvalidTags)"

section \<open>The parser state\<close>

record pstate =
  p_scanner :: scanner
  p_sections :: "token list"          \<comment> \<open>stack of open sections, innermost first\<close>
  p_tokens :: "token option list"
  p_spaces :: "nat list"
  p_hasTag :: bool
  p_nonSpace :: bool
  p_tags :: tag_res

definition stripSpace :: "pstate \<Rightarrow> pstate" where
  "stripSpace st =
     (let toks = (if p_hasTag st \<and> \<not> p_nonSpace st
                  then fold (\<lambda>i ts. ts[i := None]) (p_spaces st) (p_tokens st)
                  else p_tokens st)
      in st\<lparr>p_tokens := toks, p_spaces := [], p_hasTag := False, p_nonSpace := False\<rparr>)"

text \<open>The loop over the characters of the text before a tag.\<close>

fun push_text :: "string \<Rightarrow> nat \<Rightarrow> pstate \<Rightarrow> pstate" where
  "push_text [] start st = st"
| "push_text (c # s) start st =
     (let st1 = (if isWhitespace [c]
                 then st\<lparr>p_spaces := p_spaces st @ [length (p_tokens st)]\<rparr>
                 else st\<lparr>p_nonSpace := True\<rparr>);
          tok = \<lparr>t_type = Text, t_value = [c], t_start = start, t_end = start + 1\<rparr>;
          st2 = st1\<lparr>p_tokens := p_tokens st1 @ [Some tok]\<rparr>;
          st3 = (if c = CHR 0x0A then stripSpace st2 else st2)
      in push_text s (start + 1) st3)"

text \<open>The value of a tag: what follows its symbol, up to the closing tag.\<close>

definition scan_value :: "tag_res \<Rightarrow> toktype \<Rightarrow> scanner \<Rightarrow> toktype \<times> string \<times> scanner" where
  "scan_value tg ty sc =
     (if ty = SetDelim then
        (let (value, sc1) = scanUntil equalsRe sc;
             (_, sc2) = scan equalsRe sc1;
             (_, sc3) = scanUntil (closingTagRe tg) sc2
         in (ty, value, sc3))
      else if ty = Triple then
        (let (value, sc1) = scanUntil (closingCurlyRe tg) sc;
             (_, sc2) = scan curlyRe sc1;
             (_, sc3) = scanUntil (closingTagRe tg) sc2
         in (Unescaped, value, sc3))
      else
        (let (value, sc1) = scanUntil (closingTagRe tg) sc in (ty, value, sc1)))"

text \<open>What the parser does with a complete tag: section nesting, and new tags.\<close>

definition enter_token :: "token \<Rightarrow> pstate \<Rightarrow> merror + pstate" where
  "enter_token tok st =
     (let st1 = st\<lparr>p_tokens := p_tokens st @ [Some tok]\<rparr>
      in case t_type tok of
        Section \<Rightarrow> Inr (st1\<lparr>p_sections := tok # p_sections st1\<rparr>)
      | Inverted \<Rightarrow> Inr (st1\<lparr>p_sections := tok # p_sections st1\<rparr>)
      | Close \<Rightarrow>
          (case p_sections st1 of
             [] \<Rightarrow> Inl (UnopenedSection (t_value tok) (t_start tok))
           | op # rest \<Rightarrow>
               if t_value op \<noteq> t_value tok then Inl (UnclosedSection (t_value op) (t_start tok))
               else Inr (st1\<lparr>p_sections := rest\<rparr>))
      | Name \<Rightarrow> Inr (st1\<lparr>p_nonSpace := True\<rparr>)
      | Triple \<Rightarrow> Inr (st1\<lparr>p_nonSpace := True\<rparr>)
      | Unescaped \<Rightarrow> Inr (st1\<lparr>p_nonSpace := True\<rparr>)
      | SetDelim \<Rightarrow>
          (case compileTags (Str (t_value tok)) of
             Inl e \<Rightarrow> Inl e
           | Inr tg \<Rightarrow> Inr (st1\<lparr>p_tags := tg\<rparr>))
      | _ \<Rightarrow> Inr st1)"

text \<open>The rest of one turn of the main loop, after the opening tag at \<open>start\<close> was read.\<close>

definition parse_tag :: "nat \<Rightarrow> pstate \<Rightarrow> merror + pstate" where
  "parse_tag start st =
     (let (sym, sc1) = scan tagRe (p_scanner st);
          (_, sc2) = scan whiteRe sc1;
          (ty, value, sc3) = scan_value (p_tags st) (toktype_of sym) sc2;
          (close, sc4) = scan (closingTagRe (p_tags st)) sc3
      in if close = [] then Inl (UnclosedTag (sc_pos sc4))
         else enter_token \<lparr>t_type = ty, t_value = value, t_start = start, t_end = sc_pos sc4\<rparr>
                (st\<lparr>p_scanner := sc4\<rparr>))"

lemma stripSpace_scanner [simp]: "p_scanner (stripSpace st) = p_scanner st"
  by (simp add: stripSpace_def Let_def)

lemma push_text_scanner [simp]: "p_scanner (push_text s start st) = p_scanner st"
  by (induction s start st rule: push_text.induct) (simp_all add: Let_def)

lemma enter_token_scanner: "enter_token tok st = Inr st' \<Longrightarrow> p_scanner st' = p_scanner st"
  by (auto simp: enter_token_def Let_def split: toktype.splits list.splits if_splits sum.splits)

lemma scan_value_length:
  "scan_value tg ty sc = (ty', v, sc') \<Longrightarrow> length (sc_tail sc') \<le> length (sc_tail sc)"
  by (auto simp: scan_value_def split: if_splits prod.splits dest!: scan_length scanUntil_length)

lemma parse_tag_length:
  "parse_tag start st = Inr st' \<Longrightarrow>
   length (sc_tail (p_scanner st')) \<le> length (sc_tail (p_scanner st))"
  by (auto simp: parse_tag_def split: if_splits prod.splits
      dest!: enter_token_scanner scan_value_length scan_length)

section \<open>The main loop\<close>

function parse_loop :: "pstate \<Rightarrow> merror + pstate" where
  "parse_loop st =
     (if eos (p_scanner st) then Inr st
      else
        let start = sc_pos (p_scanner st);
            (value, sc1) = scanUntil (openingTagRe (p_tags st)) (p_scanner st);
            st1 = push_text value start (st\<lparr>p_scanner := sc1\<rparr>);
            (m, sc2) = scan (openingTagRe (p_tags st1)) sc1
        in if m = [] then Inr (st1\<lparr>p_scanner := sc2\<rparr>)
           else case parse_tag (start + length value) (st1\<lparr>p_scanner := sc2, p_hasTag := True\<rparr>) of
             Inl e \<Rightarrow> Inl e
           | Inr st2 \<Rightarrow> parse_loop st2)"
  by pat_completeness auto
termination parse_loop
proof (relation "measure (\<lambda>st. length (sc_tail (p_scanner st)))", goal_cases)
  case (2 st start x v sc1 st1 y m sc2 st2)
  then have "length (sc_tail sc1) \<le> length (sc_tail (p_scanner st))"
    using scanUntil_length [of "openingTagRe (p_tags st)" "p_scanner st" v sc1] by simp
  moreover have "length (sc_tail sc2) < length (sc_tail sc1)"
    using 2 scan_length [of "openingTagRe (p_tags st1)" sc1 m sc2] by (cases m) auto
  moreover have "length (sc_tail (p_scanner st2)) \<le> length (sc_tail sc2)"
    using parse_tag_length [OF 2(9)] by simp
  ultimately show ?case by simp
qed simp

declare parse_loop.simps [simp del]

definition parse_init :: "string \<Rightarrow> tag_res \<Rightarrow> pstate" where
  "parse_init template tg =
     \<lparr>p_scanner = Scanner template, p_sections = [], p_tokens = [], p_spaces = [],
      p_hasTag = False, p_nonSpace = False, p_tags = tg\<rparr>"

section \<open>Squashing and nesting\<close>

text \<open>The accumulator holds the squashed tokens, the last one first.\<close>

fun squash_acc :: "token option list \<Rightarrow> token list \<Rightarrow> token list" where
  "squash_acc [] acc = rev acc"
| "squash_acc (None # ts) acc = squash_acc ts acc"
| "squash_acc (Some t # ts) [] = squash_acc ts [t]"
| "squash_acc (Some t # ts) (l # acc) =
     (if t_type t = Text \<and> t_type l = Text
      then squash_acc ts (l\<lparr>t_value := t_value l @ t_value t, t_end := t_end t\<rparr> # acc)
      else squash_acc ts (t # l # acc))"

definition squashTokens :: "token option list \<Rightarrow> token list" where
  "squashTokens tokens = squash_acc tokens []"

text \<open>
  The stack of open sections with their children, innermost section and latest child first;
  \<open>root\<close> collects what is outside every section.
\<close>

type_synonym nest_stack = "(token \<times> ntoken list) list"

fun collect :: "ntoken \<Rightarrow> nest_stack \<Rightarrow> ntoken list \<Rightarrow> nest_stack \<times> ntoken list" where
  "collect n [] root = ([], n # root)"
| "collect n ((s, cs) # stack) root = ((s, n # cs) # stack, root)"

text \<open>A section that is never closed stays in its parent, without an end position.\<close>

fun close_all :: "nest_stack \<Rightarrow> ntoken list \<Rightarrow> ntoken list" where
  "close_all [] root = rev root"
| "close_all [(s, cs)] root = rev (NSec s (rev cs) None # root)"
| "close_all ((s, cs) # (s', cs') # stack) root =
     close_all ((s', NSec s (rev cs) None # cs') # stack) root"

definition nest_step :: "token \<Rightarrow> nest_stack \<Rightarrow> ntoken list \<Rightarrow> merror + nest_stack \<times> ntoken list" where
  "nest_step t stack root =
     (if t_type t = Section \<or> t_type t = Inverted then Inr ((t, []) # stack, root)
      else if t_type t = Close then
        (case stack of
           [] \<Rightarrow> Inl MTypeError
         | (s, cs) # rest \<Rightarrow> Inr (collect (NSec s (rev cs) (Some (t_start t))) rest root))
      else Inr (collect (NTok t) stack root))"

fun nest_acc :: "token list \<Rightarrow> nest_stack \<Rightarrow> ntoken list \<Rightarrow> merror + nest_stack \<times> ntoken list" where
  "nest_acc [] stack root = Inr (stack, root)"
| "nest_acc (t # ts) stack root =
     (case nest_step t stack root of
        Inl e \<Rightarrow> Inl e
      | Inr (stack', root') \<Rightarrow> nest_acc ts stack' root')"

definition nestTokens :: "token list \<Rightarrow> merror + ntoken list" where
  "nestTokens tokens =
     (case nest_acc tokens [] [] of
        Inl e \<Rightarrow> Inl e
      | Inr (stack, root) \<Rightarrow> Inr (close_all stack root))"

section \<open>The parser\<close>

definition parseTemplate :: "string \<Rightarrow> jsval \<Rightarrow> merror + ntoken list" where
  "parseTemplate template tags =
     (if template = [] then Inr []
      else case compileTags tags of
        Inl e \<Rightarrow> Inl e
      | Inr tg \<Rightarrow>
          (case parse_loop (parse_init template tg) of
             Inl e \<Rightarrow> Inl e
           | Inr st \<Rightarrow>
               (case p_sections st of
                  op # _ \<Rightarrow> Inl (UnclosedSection (t_value op) (sc_pos (p_scanner st)))
                | [] \<Rightarrow> nestTokens (squashTokens (p_tokens st)))))"

text \<open>
  A template that is not a string: a falsy one has no tokens, any other reaches
  \<open>this.tail.search\<close> in the scanner, a method it does not have.  (Objects and functions that carry
  a \<open>search\<close> method of their own are outside the model.)
\<close>

definition parseTemplate_value :: "jsval \<Rightarrow> jsval \<Rightarrow> merror + ntoken list" where
  "parseTemplate_value v tags =
     (case v of
        Str template \<Rightarrow> parseTemplate template tags
      | _ \<Rightarrow> if \<not> truthy v then Inr []
            else case compileTags tags of Inl e \<Rightarrow> Inl e | Inr _ \<Rightarrow> Inl MTypeError)"

lemma parseTemplate_value_Str [simp]: "parseTemplate_value (Str s) tags = parseTemplate s tags"
  by (simp add: parseTemplate_value_def)

end
