(* ===== verification/Mustache_Writer.thy ===== *)
theory Mustache_Writer
  imports Mustache_Parser
begin

text \<open>
  Rendering contexts and the writer of \<open>mustache.js\<close>. A context is its view, its cache of
  looked-up names and the views of its parents; the caches of the parents are never read or
  written through a child. The writer's cache of parsed templates is passed through every
  call. Recursion through partials and section functions is bounded by fuel: running out is the
  engine's stack overflow.
\<close>

section \<open>Contexts\<close>

record ctx =
  c_view :: jsval
  c_cache :: "(string \<times> jsval) list"
  c_parents :: "jsval list"

definition view_of :: "jsval \<Rightarrow> jsval" where
  "view_of v = (if nullish v then Obj [] else v)"

definition Context :: "jsval \<Rightarrow> jsval list \<Rightarrow> ctx" where
  "Context v parents = \<lparr>c_view = view_of v, c_cache = [(''.'', view_of v)], c_parents = parents\<rparr>"

definition ctx_push :: "ctx \<Rightarrow> jsval \<Rightarrow> ctx" where
  "ctx_push c v = Context v (c_view c # c_parents c)"

text \<open>\<open>while (value != null && index < names.length) value = value[names[index++]]\<close>.\<close>

fun walk :: "host \<Rightarrow> jsval \<Rightarrow> string list \<Rightarrow> jsval" where
  "walk h v [] = v"
| "walk h v (n # ns) = (case getprop h v n of None \<Rightarrow> v | Some w \<Rightarrow> walk h w ns)"

definition view_value :: "host \<Rightarrow> jsval \<Rightarrow> string \<Rightarrow> jsval" where
  "view_value h v name =
     (if CHR ''.'' \<in> set name \<and> hd name \<noteq> CHR ''.'' then walk h v (split_on (CHR ''.'') name)
      else case getprop h v name of Some w \<Rightarrow> w | None \<Rightarrow> Undefined)"

text \<open>The loop up the context hierarchy: the first value that is not null or undefined.\<close>

fun ctx_search :: "host \<Rightarrow> string \<Rightarrow> jsval list \<Rightarrow> jsval" where
  "ctx_search h name [] = Undefined"
| "ctx_search h name [v] = view_value h v name"
| "ctx_search h name (v # vs) =
     (let w = view_value h v name in if nullish w then ctx_search h name vs else w)"

text \<open>\<open>name in cache\<close> and \<open>cache[name]\<close>: the cache object inherits from \<open>Object.prototype\<close>.\<close>

definition in_cache :: "(string \<times> 'v) list \<Rightarrow> string \<Rightarrow> bool" where
  "in_cache cache name \<longleftrightarrow> assoc name cache \<noteq> None \<or> inherited [] name \<noteq> Undefined"

definition cache_get :: "(string \<times> jsval) list \<Rightarrow> string \<Rightarrow> jsval" where
  "cache_get cache name = (case assoc name cache of Some v \<Rightarrow> v | None \<Rightarrow> inherited [] name)"

definition call_value :: "host \<Rightarrow> jsval \<Rightarrow> jsval \<Rightarrow> jsval" where
  "call_value h v this = (case v of Fn f \<Rightarrow> fn_call h f this | _ \<Rightarrow> v)"

definition lookup :: "host \<Rightarrow> string \<Rightarrow> ctx \<Rightarrow> jsval \<times> ctx" where
  "lookup h name c =
     (let (value, c') =
        (if in_cache (c_cache c) name then (cache_get (c_cache c) name, c)
         else let v = ctx_search h name (c_view c # c_parents c)
              in (v, c\<lparr>c_cache := assoc_set name v (c_cache c)\<rparr>))
      in (call_value h value (c_view c), c'))"

section \<open>The writer\<close>

type_synonym wcache = "(string \<times> ntoken list) list"

text \<open>
  What \<open>Writer.parse\<close> hands on: parsed tokens, or, when the template text is the name of an
  inherited property, that property itself, of which only its \<open>length\<close> matters later.
\<close>

datatype parsed = PTokens "ntoken list" | PNative nat

definition native_length :: "string \<Rightarrow> nat" where
  "native_length k =
     (if k \<in> {''__defineGetter__'', ''__defineSetter__''} then 2
      else if k \<in> {''constructor'', ''hasOwnProperty'', ''isPrototypeOf'', ''propertyIsEnumerable'',
                   ''__lookupGetter__'', ''__lookupSetter__''} then 1
      else 0)"

text \<open>\<open>cache[template]\<close>: a template of any type is cached under its text.\<close>

definition writer_parse :: "host \<Rightarrow> jsval \<Rightarrow> jsval \<Rightarrow> wcache \<Rightarrow> merror + parsed \<times> wcache" where
  "writer_parse h template tags w =
     (let key = tostr h template in
      case assoc key w of
        Some ts \<Rightarrow> Inr (PTokens ts, w)
      | None \<Rightarrow>
          if inherited [] key \<noteq> Undefined then Inr (PNative (native_length key), w)
          else case parseTemplate_value template tags of
            Inl e \<Rightarrow> Inl e
          | Inr ts \<Rightarrow> Inr (PTokens ts, assoc_set key ts w))"

definition clearCache :: "wcache \<Rightarrow> wcache" where
  "clearCache w = []"

datatype partials = NoPartials | PFun "string \<Rightarrow> jsval" | PObj "(string \<times> jsval) list"

text \<open>The replaceable parts of the module: default tags, escape function, section functions.\<close>

type_synonym render_state = "ctx \<times> wcache"
type_synonym sub_render = "jsval \<Rightarrow> render_state \<Rightarrow> merror + string \<times> render_state"

record mustache =
  m_host :: host
  m_tags :: jsval
  m_escape :: "jsval \<Rightarrow> string"
  m_section :: "fn \<Rightarrow> jsval \<Rightarrow> string \<Rightarrow> sub_render \<Rightarrow> render_state \<Rightarrow> merror + jsval \<times> render_state"

definition partial_value :: "mustache \<Rightarrow> partials \<Rightarrow> string \<Rightarrow> jsval" where
  "partial_value m ps name =
     (case ps of
        NoPartials \<Rightarrow> Undefined
      | PFun f \<Rightarrow> f name
      | PObj kvs \<Rightarrow> (case getprop (m_host m) (Obj kvs) name of Some v \<Rightarrow> v | None \<Rightarrow> Undefined))"

text \<open>\<open>originalTemplate.slice(token[3], token[5])\<close>.\<close>

definition section_text :: "string \<Rightarrow> token \<Rightarrow> nat option \<Rightarrow> string" where
  "section_text orig t e = js_slice orig (int (t_end t)) (map_option int e)"

text \<open>\<open>typeof originalTemplate !== 'string'\<close>: only a string can be cut into section texts.\<close>

definition template_text :: "jsval \<Rightarrow> string option" where
  "template_text v = (case v of Str s \<Rightarrow> Some s | _ \<Rightarrow> None)"

text \<open>\<open>isArray\<close> and \<open>isFunction\<close>, with what they recognise.\<close>

definition array_items :: "jsval \<Rightarrow> jsval list option" where
  "array_items v = (case v of Arr vs \<Rightarrow> Some vs | _ \<Rightarrow> None)"

definition function_of :: "jsval \<Rightarrow> fn option" where
  "function_of v = (case v of Fn f \<Rightarrow> Some f | _ \<Rightarrow> None)"

definition add_string :: "string \<Rightarrow> merror + string \<times> render_state \<Rightarrow> merror + string \<times> render_state" where
  "add_string s r = (case r of Inl e \<Rightarrow> Inl e | Inr (s', st) \<Rightarrow> Inr (s @ s', st))"

function (sequential)
  renderTokens :: "mustache \<Rightarrow> partials \<Rightarrow> nat \<Rightarrow> string option \<Rightarrow> ntoken list \<Rightarrow> ctx \<Rightarrow> wcache \<Rightarrow>
    merror + string \<times> render_state"
and renderToken :: "mustache \<Rightarrow> partials \<Rightarrow> nat \<Rightarrow> string option \<Rightarrow> ntoken \<Rightarrow> ctx \<Rightarrow> wcache \<Rightarrow>
    merror + string \<times> render_state"
and renderEach :: "mustache \<Rightarrow> partials \<Rightarrow> nat \<Rightarrow> string option \<Rightarrow> ntoken list \<Rightarrow> jsval list \<Rightarrow> ctx \<Rightarrow> wcache \<Rightarrow>
    merror + string \<times> render_state"
and renderParsed :: "mustache \<Rightarrow> partials \<Rightarrow> nat \<Rightarrow> jsval \<Rightarrow> ctx \<Rightarrow> wcache \<Rightarrow>
    merror + string \<times> render_state"
where
  "renderTokens m ps n orig [] c w = Inr ([], c, w)"
| "renderTokens m ps n orig (t # ts) c w =
     (case renderToken m ps n orig t c w of
        Inl e \<Rightarrow> Inl e
      | Inr (s, c', w') \<Rightarrow> add_string s (renderTokens m ps n orig ts c' w'))"
| "renderToken m ps n orig (NSec t children e) c w =
     (case lookup (m_host m) (t_value t) c of
        (value, c') \<Rightarrow>
          if t_type t = Inverted then
            (if \<not> truthy value \<or> value = Arr [] then renderTokens m ps n orig children c' w
             else Inr ([], c', w))
          else if \<not> truthy value then Inr ([], c', w)
          else case array_items value of
            Some vs \<Rightarrow> renderEach m ps n orig children vs c' w
          | None \<Rightarrow>
              if is_object value \<or> is_string value then
                (case renderTokens m ps n orig children (ctx_push c' value) w of
                   Inl err \<Rightarrow> Inl err
                 | Inr (s, _, w') \<Rightarrow> Inr (s, c', w'))
              else (case function_of value of
                Some f \<Rightarrow>
                  (case orig of
                     None \<Rightarrow> Inl HigherOrder
                   | Some template \<Rightarrow>
                       (case n of
                          0 \<Rightarrow> Inl StackOverflow
                        | Suc n' \<Rightarrow>
                            (case m_section m f (c_view c') (section_text template t e)
                                    (\<lambda>tmpl (c1, w1). renderParsed m ps n' tmpl c1 w1) (c', w) of
                               Inl err \<Rightarrow> Inl err
                             | Inr (v, st) \<Rightarrow>
                                 Inr (if nullish v then [] else tostr (m_host m) v, st))))
              | None \<Rightarrow> renderTokens m ps n orig children c' w))"
| "renderToken m ps n orig (NTok t) c w =
     (case t_type t of
        Partial \<Rightarrow>
          (let value = partial_value m ps (t_value t)
           in if nullish value then Inr ([], c, w)
              else case n of
                0 \<Rightarrow> Inl StackOverflow
              | Suc n' \<Rightarrow> renderParsed m ps n' value c w)
      | Unescaped \<Rightarrow>
          (case lookup (m_host m) (t_value t) c of
             (value, c') \<Rightarrow> Inr (if nullish value then [] else tostr (m_host m) value, c', w))
      | Name \<Rightarrow>
          (case lookup (m_host m) (t_value t) c of
             (value, c') \<Rightarrow> Inr (if nullish value then [] else m_escape m value, c', w))
      | Text \<Rightarrow> Inr (t_value t, c, w)
      | _ \<Rightarrow> Inr ([], c, w))"
| "renderEach m ps n orig children [] c w = Inr ([], c, w)"
| "renderEach m ps n orig children (v # vs) c w =
     (case renderTokens m ps n orig children (ctx_push c v) w of
        Inl e \<Rightarrow> Inl e
      | Inr (s, _, w') \<Rightarrow> add_string s (renderEach m ps n orig children vs c w'))"
| "renderParsed m ps n template c w =
     (case writer_parse (m_host m) template (m_tags m) w of
        Inl e \<Rightarrow> Inl e
      | Inr (PNative k, w') \<Rightarrow> if k = 0 then Inr ([], c, w') else Inl MTypeError
      | Inr (PTokens ts, w') \<Rightarrow>
          (case n of 0 \<Rightarrow> Inl StackOverflow
           | Suc n' \<Rightarrow> renderTokens m ps n' (template_text template) ts c w'))"
  by pat_completeness auto
termination
  by (relation "measures
      [\<lambda>x. case x of Inl (Inl (m, ps, n, orig, ts, c, w)) \<Rightarrow> n | Inl (Inr (m, ps, n, orig, t, c, w)) \<Rightarrow> n
         | Inr (Inl (m, ps, n, orig, ch, vs, c, w)) \<Rightarrow> n | Inr (Inr (m, ps, n, t, c, w)) \<Rightarrow> n,
       \<lambda>x. case x of Inl (Inl (m, ps, n, orig, ts, c, w)) \<Rightarrow> 2 * size_list size ts
         | Inl (Inr (m, ps, n, orig, t, c, w)) \<Rightarrow> 2 * size t + 1
         | Inr (Inl (m, ps, n, orig, ch, vs, c, w)) \<Rightarrow> 2 * size_list size ch + 1
         | Inr (Inr (m, ps, n, t, c, w)) \<Rightarrow> 0,
       \<lambda>x. case x of Inr (Inl (m, ps, n, orig, ch, vs, c, w)) \<Rightarrow> length vs | _ \<Rightarrow> 0]")
    auto

section \<open>The module's functions\<close>

text \<open>
  \<open>renderParsed\<close> is \<open>Writer.prototype.render\<close> on a context; a plain view is wrapped in a new one.
  A call that throws loses the cache entries made on the way here, while the code keeps them.
\<close>

definition mustache_render :: "mustache \<Rightarrow> partials \<Rightarrow> nat \<Rightarrow> jsval \<Rightarrow> jsval \<Rightarrow> wcache \<Rightarrow> merror + string \<times> wcache" where
  "mustache_render m ps n template view w =
     (case renderParsed m ps n template (Context view []) w of
        Inl e \<Rightarrow> Inl e
      | Inr (s, _, w') \<Rightarrow> Inr (s, w'))"

text \<open>\<open>tags || mustache.tags\<close>.\<close>

definition mustache_parse :: "mustache \<Rightarrow> jsval \<Rightarrow> jsval option \<Rightarrow> wcache \<Rightarrow> merror + parsed \<times> wcache" where
  "mustache_parse m template tags w =
     writer_parse (m_host m) template (case tags of Some t \<Rightarrow> (if truthy t then t else m_tags m) | None \<Rightarrow> m_tags m) w"

definition mustache_clearCache :: "wcache \<Rightarrow> wcache" where
  "mustache_clearCache w = clearCache w"

text \<open>With a \<open>send\<close> function the text is sent and nothing is returned.\<close>

definition to_html :: "mustache \<Rightarrow> partials \<Rightarrow> nat \<Rightarrow> jsval \<Rightarrow> jsval \<Rightarrow> bool \<Rightarrow> wcache \<Rightarrow>
    merror + (string option \<times> string list) \<times> wcache" where
  "to_html m ps n template view send w =
     (case mustache_render m ps n template view w of
        Inl e \<Rightarrow> Inl e
      | Inr (s, w') \<Rightarrow> Inr (if send then (None, [s]) else (Some s, []), w'))"

end
