(* ===== verification/Mustache_Parser_Props.thy ===== *)
theory Mustache_Parser_Props
  imports Mustache_Parser
begin

text \<open>
  What the token passes and the parser guarantee. The invariant of the main loop ties the stack
  of open sections to the tokens pushed so far (\<open>parse_inv\<close>); it makes \<open>nestTokens\<close> succeed on
  everything the loop accepts. A template without an opening tag is one text token.
\<close>

section \<open>The token passes\<close>

text \<open>The text a token list stands for, and the condition \<open>squashTokens\<close> establishes.\<close>

definition text_of :: "token list \<Rightarrow> string" where
  "text_of ts = concat (map t_value (filter (\<lambda>t. t_type t = Text) ts))"

fun no_adjacent_text :: "token list \<Rightarrow> bool" where
  "no_adjacent_text (a # b # ts) \<longleftrightarrow> \<not> (t_type a = Text \<and> t_type b = Text) \<and> no_adjacent_text (b # ts)"
| "no_adjacent_text _ \<longleftrightarrow> True"

definition present :: "token option list \<Rightarrow> token list" where
  "present ts = List.map_filter id ts"

lemma present_simps [simp]:
  "present [] = []" "present (None # ts) = present ts" "present (Some t # ts) = t # present ts"
  "present (ts @ us) = present ts @ present us"
  by (simp_all add: present_def List.map_filter_def)

lemma text_of_append [simp]: "text_of (ts @ us) = text_of ts @ text_of us"
  by (simp add: text_of_def)

lemma text_of_Cons [simp]: "text_of (t # ts) = (if t_type t = Text then t_value t else []) @ text_of ts"
  by (simp add: text_of_def)

lemma text_of_Nil [simp]: "text_of [] = []"
  by (simp add: text_of_def)

lemma squash_acc_text: "text_of (squash_acc ts acc) = text_of (rev acc) @ text_of (present ts)"
  by (induction ts acc rule: squash_acc.induct) auto

lemma squash_acc_tags:
  "filter (\<lambda>t. t_type t \<noteq> Text) (squash_acc ts acc) =
   filter (\<lambda>t. t_type t \<noteq> Text) (rev acc @ present ts)"
  by (induction ts acc rule: squash_acc.induct) auto

lemma no_adjacent_text_append:
  "no_adjacent_text (ts @ [a]) \<longleftrightarrow>
   no_adjacent_text ts \<and> (ts = [] \<or> \<not> (t_type (last ts) = Text \<and> t_type a = Text))"
  by (induction ts rule: no_adjacent_text.induct) auto

lemma no_adjacent_text_append2:
  "no_adjacent_text (ts @ [a, b]) \<longleftrightarrow>
   no_adjacent_text (ts @ [a]) \<and> \<not> (t_type a = Text \<and> t_type b = Text)"
  using no_adjacent_text_append [of "ts @ [a]" b] by simp

lemma squash_acc_adjacent: "no_adjacent_text (rev acc) \<Longrightarrow> no_adjacent_text (squash_acc ts acc)"
  by (induction ts acc rule: squash_acc.induct) (auto simp: no_adjacent_text_append no_adjacent_text_append2)

text \<open>
  \<open>squashTokens\<close> loses nothing and merges everything it should: the text and the tags of the
  token buffer (holes left by stripped white space aside) are those of the result, in order, and
  no two text tokens of the result are adjacent.
\<close>

theorem squashTokens_sound:
  "text_of (squashTokens ts) = text_of (present ts) \<and>
   filter (\<lambda>t. t_type t \<noteq> Text) (squashTokens ts) = filter (\<lambda>t. t_type t \<noteq> Text) (present ts) \<and>
   no_adjacent_text (squashTokens ts)"
  by (simp add: squashTokens_def squash_acc_text squash_acc_tags squash_acc_adjacent)

text \<open>A tree read from left to right: what opens, what stands alone, and where sections close.\<close>

datatype event = Enter token | Leave nat

fun flat :: "ntoken \<Rightarrow> event list" where
  "flat (NTok t) = [Enter t]"
| "flat (NSec t ts e) =
     Enter t # concat (map flat ts) @ (case e of None \<Rightarrow> [] | Some p \<Rightarrow> [Leave p])"

abbreviation flats :: "ntoken list \<Rightarrow> event list" where
  "flats ts \<equiv> concat (map flat ts)"

definition event_of :: "token \<Rightarrow> event" where
  "event_of t = (if t_type t = Close then Leave (t_start t) else Enter t)"

fun flat_stack :: "nest_stack \<Rightarrow> event list" where
  "flat_stack [] = []"
| "flat_stack ((s, cs) # stack) = flat_stack stack @ Enter s # flats (rev cs)"

lemma collect_flat:
  "collect n stack root = (stack', root') \<Longrightarrow>
   flats (rev root') @ flat_stack stack' = flats (rev root) @ flat_stack stack @ flat n"
  by (cases stack) auto

lemma nest_step_flat:
  "nest_step t stack root = Inr (stack', root') \<Longrightarrow>
   flats (rev root') @ flat_stack stack' = flats (rev root) @ flat_stack stack @ [event_of t]"
  by (auto simp: nest_step_def event_of_def split: if_splits list.splits dest!: collect_flat)

lemma nest_acc_flat:
  "nest_acc ts stack root = Inr (stack', root') \<Longrightarrow>
   flats (rev root') @ flat_stack stack' = flats (rev root) @ flat_stack stack @ map event_of ts"
proof (induction ts arbitrary: stack root)
  case (Cons t ts)
  then obtain stack1 root1 where "nest_step t stack root = Inr (stack1, root1)"
    "nest_acc ts stack1 root1 = Inr (stack', root')"
    by (auto split: sum.splits)
  then show ?case using Cons.IH nest_step_flat by fastforce
qed simp

lemma close_all_flat: "flats (close_all stack root) = flats (rev root) @ flat_stack stack"
  by (induction stack root rule: close_all.induct) auto

lemma nestTokens_events: "nestTokens ts = Inr ns \<Longrightarrow> flats ns = map event_of ts"
  using nest_acc_flat [of ts "[]" "[]"]
  by (auto simp: nestTokens_def close_all_flat split: sum.splits prod.splits)

section \<open>Nesting\<close>

text \<open>
  The stack discipline of sections: the open sections after reading some tokens, \<open>None\<close> where a
  closing tag has no open section or names another one.
\<close>

fun open_after :: "token list \<Rightarrow> token list \<Rightarrow> token list option" where
  "open_after [] ss = Some ss"
| "open_after (t # ts) ss =
     (if t_type t = Section \<or> t_type t = Inverted then open_after ts (t # ss)
      else if t_type t = Close then
        (case ss of [] \<Rightarrow> None | s # ss' \<Rightarrow> if t_value s = t_value t then open_after ts ss' else None)
      else open_after ts ss)"

lemma open_after_append:
  "open_after (ts @ us) ss = (case open_after ts ss of None \<Rightarrow> None | Some ss' \<Rightarrow> open_after us ss')"
  by (induction ts ss rule: open_after.induct) (auto split: list.splits)

lemma open_after_filter: "open_after (filter (\<lambda>t. t_type t \<noteq> Text) ts) ss = open_after ts ss"
  by (induction ts ss rule: open_after.induct) (auto split: list.splits)

lemma open_after_squash: "open_after (squashTokens ts) ss = open_after (present ts) ss"
  by (metis open_after_filter squash_acc_tags squashTokens_def append_Nil rev.simps(1))

text \<open>Deleting white-space tokens cannot delete a tag: the recorded indices hold text.\<close>

definition spaces_ok :: "pstate \<Rightarrow> bool" where
  "spaces_ok st \<longleftrightarrow>
     (\<forall>i \<in> set (p_spaces st). i < length (p_tokens st) \<and>
        (case p_tokens st ! i of None \<Rightarrow> True | Some t \<Rightarrow> t_type t = Text))"

definition parse_inv :: "pstate \<Rightarrow> bool" where
  "parse_inv st \<longleftrightarrow> spaces_ok st \<and> open_after (present (p_tokens st)) [] = Some (p_sections st)"

lemma open_after_delete:
  "i < length ts \<Longrightarrow> (case ts ! i of None \<Rightarrow> True | Some t \<Rightarrow> t_type t = Text) \<Longrightarrow>
   open_after (present (ts[i := None])) ss = open_after (present ts) ss"
proof (induction ts arbitrary: i ss)
  case (Cons t ts)
  show ?case
  proof (cases i)
    case 0
    with Cons.prems show ?thesis by (cases t) auto
  next
    case (Suc j)
    then have "open_after (present (ts[j := None])) ss' = open_after (present ts) ss'" for ss'
      using Cons by simp
    with Suc show ?thesis by (cases t) (auto split: list.splits)
  qed
qed simp

lemma open_after_deletes:
  "(\<forall>i \<in> set is. i < length ts \<and> (case ts ! i of None \<Rightarrow> True | Some t \<Rightarrow> t_type t = Text)) \<Longrightarrow>
   open_after (present (fold (\<lambda>i ts. ts[i := None]) is ts)) ss = open_after (present ts) ss"
proof (induction "is" arbitrary: ts)
  case (Cons i "is")
  have "\<forall>j \<in> set is. j < length (ts[i := None]) \<and>
      (case ts[i := None] ! j of None \<Rightarrow> True | Some t \<Rightarrow> t_type t = Text)"
    using Cons.prems by (auto simp: nth_list_update)
  with Cons show ?case by (simp add: open_after_delete)
qed simp

lemma stripSpace_inv: "parse_inv st \<Longrightarrow> parse_inv (stripSpace st)"
  by (auto simp: parse_inv_def stripSpace_def Let_def spaces_ok_def open_after_deletes)

lemma push_text_inv: "parse_inv st \<Longrightarrow> parse_inv (push_text s start st)"
proof (induction s start st rule: push_text.induct)
  case (2 c s start st)
  define st2 where "st2 = (if isWhitespace [c] then st\<lparr>p_spaces := p_spaces st @ [length (p_tokens st)]\<rparr>
      else st\<lparr>p_nonSpace := True\<rparr>)
      \<lparr>p_tokens := p_tokens st @ [Some \<lparr>t_type = Text, t_value = [c], t_start = start, t_end = start + 1\<rparr>]\<rparr>"
  have "parse_inv st2"
    using 2(2) by (auto simp: st2_def parse_inv_def spaces_ok_def open_after_append nth_append)
  with 2(1) show ?case by (auto simp: st2_def Let_def stripSpace_inv cong: if_cong)
qed simp

lemma enter_token_inv:
  assumes "parse_inv st" "enter_token tok st = Inr st'" "t_type tok \<noteq> Text"
  shows "parse_inv st'"
proof -
  have sp: "spaces_ok (st\<lparr>p_tokens := p_tokens st @ [Some tok]\<rparr>)"
    using assms(1) by (auto simp: parse_inv_def spaces_ok_def nth_append)
  have tk: "open_after (present (p_tokens st @ [Some tok])) [] = open_after [tok] (p_sections st)"
    using assms(1) by (simp add: parse_inv_def open_after_append)
  show ?thesis
    using assms(2,3) sp tk
    by (cases "t_type tok")
      (auto simp: enter_token_def Let_def parse_inv_def spaces_ok_def split: list.splits if_splits sum.splits)
qed

lemma toktype_of_not_Text: "toktype_of s \<noteq> Text"
  by (simp add: toktype_of_def)

lemma scan_value_type: "scan_value tg ty sc = (ty', v, sc') \<Longrightarrow> ty \<noteq> Text \<Longrightarrow> ty' \<noteq> Text"
  by (auto simp: scan_value_def split: if_splits prod.splits)

lemma parse_inv_scanner [simp]:
  "parse_inv (st\<lparr>p_scanner := sc\<rparr>) = parse_inv st"
  "parse_inv (st\<lparr>p_hasTag := b\<rparr>) = parse_inv st"
  by (simp_all add: parse_inv_def spaces_ok_def)

lemma parse_tag_inv:
  assumes "parse_inv st" and "parse_tag start st = Inr st'"
  shows "parse_inv st'"
proof -
  from assms(2) obtain ty v p sc sc1 sc2 sym where
    t: "scan_value (p_tags st) (toktype_of sym) sc1 = (ty, v, sc2)" and
    e: "enter_token \<lparr>t_type = ty, t_value = v, t_start = start, t_end = p\<rparr> (st\<lparr>p_scanner := sc\<rparr>) = Inr st'"
    by (auto simp: parse_tag_def split: if_splits prod.splits)
  show ?thesis
    by (rule enter_token_inv [OF _ e])
      (use assms(1) scan_value_type [OF t toktype_of_not_Text] in simp_all)
qed

lemma parse_loop_inv: "parse_inv st \<Longrightarrow> parse_loop st = Inr st' \<Longrightarrow> parse_inv st'"
proof (induction st rule: parse_loop.induct)
  case (1 st)
  show ?case
  proof (cases "eos (p_scanner st)")
    case True
    with 1 show ?thesis by (simp add: parse_loop.simps)
  next
    case False
    obtain v sc1 where v: "scanUntil (openingTagRe (p_tags st)) (p_scanner st) = (v, sc1)"
      by fastforce
    define st1 where "st1 = push_text v (sc_pos (p_scanner st)) (st\<lparr>p_scanner := sc1\<rparr>)"
    obtain m sc2 where m: "scan (openingTagRe (p_tags st1)) sc1 = (m, sc2)" by fastforce
    have inv: "parse_inv st1"
      unfolding st1_def by (rule push_text_inv) (use 1(2) in simp)
    have unf: "parse_loop st =
        (if m = [] then Inr (st1\<lparr>p_scanner := sc2\<rparr>)
         else case parse_tag (sc_pos (p_scanner st) + length v) (st1\<lparr>p_scanner := sc2, p_hasTag := True\<rparr>) of
           Inl e \<Rightarrow> Inl e | Inr st2 \<Rightarrow> parse_loop st2)"
      using m False v by (simp add: parse_loop.simps [of st] st1_def Let_def)
    show ?thesis
    proof (cases "m = []")
      case True
      with 1(3) inv show ?thesis by (auto simp: unf)
    next
      case ne: False
      let ?st1 = "st1\<lparr>p_scanner := sc2, p_hasTag := True\<rparr>"
      have inv1: "parse_inv ?st1" using inv by simp
      from 1(3) ne obtain st2 where
        st2: "parse_tag (sc_pos (p_scanner st) + length v) ?st1 = Inr st2"
        and rest: "parse_loop st2 = Inr st'"
        by (auto simp: unf split: sum.splits)
      have "parse_inv st2" using inv1 st2 by (rule parse_tag_inv)
      then show ?thesis
        using 1(1) [OF False refl v [symmetric] refl st1_def m [symmetric]] st2 rest ne by blast
    qed
  qed
qed

text \<open>Tokens that follow the stack discipline nest without an error and leave no section open.\<close>

lemma collect_stack [simp]: "map fst (fst (collect n stack root)) = map fst stack"
  by (cases stack) auto

lemma nest_step_open:
  "open_after [t] (map fst stack) = Some ss \<Longrightarrow>
   \<exists>p. nest_step t stack root = Inr p \<and> map fst (fst p) = ss"
  by (auto simp: nest_step_def split: list.splits if_splits simp del: split_paired_Ex)

lemma nest_acc_open:
  "open_after ts (map fst stack) = Some ss \<Longrightarrow>
   \<exists>stack' root'. nest_acc ts stack root = Inr (stack', root') \<and> map fst stack' = ss"
proof (induction ts arbitrary: stack root)
  case (Cons t ts)
  then obtain ss1 where t: "open_after [t] (map fst stack) = Some ss1" and ts: "open_after ts ss1 = Some ss"
    using open_after_append [of "[t]" ts "map fst stack"] by (auto split: option.splits)
  from nest_step_open [OF t] obtain stack1 root1 where
    "nest_step t stack root = Inr (stack1, root1)" "map fst stack1 = ss1" by fastforce
  with Cons.IH [of stack1 root1] ts show ?case by simp
qed simp

text \<open>Every section of a tree has its end.\<close>

fun all_closed :: "ntoken \<Rightarrow> bool" where
  "all_closed (NTok t) = True"
| "all_closed (NSec t ts e) = (e \<noteq> None \<and> list_all all_closed ts)"

lemma collect_closed:
  "collect n stack root = (stack', root') \<Longrightarrow> all_closed n \<Longrightarrow> list_all all_closed root \<Longrightarrow>
   list_all (\<lambda>(s, cs). list_all all_closed cs) stack \<Longrightarrow>
   list_all all_closed root' \<and> list_all (\<lambda>(s, cs). list_all all_closed cs) stack'"
  by (cases stack) auto

lemma nest_step_closed:
  "nest_step t stack root = Inr (stack', root') \<Longrightarrow> list_all all_closed root \<Longrightarrow>
   list_all (\<lambda>(s, cs). list_all all_closed cs) stack \<Longrightarrow>
   list_all all_closed root' \<and> list_all (\<lambda>(s, cs). list_all all_closed cs) stack'"
  by (auto simp: nest_step_def split: if_splits list.splits dest!: collect_closed)

lemma nest_acc_closed:
  "nest_acc ts stack root = Inr (stack', root') \<Longrightarrow> list_all all_closed root \<Longrightarrow>
   list_all (\<lambda>(s, cs). list_all all_closed cs) stack \<Longrightarrow>
   list_all all_closed root' \<and> list_all (\<lambda>(s, cs). list_all all_closed cs) stack'"
proof (induction ts arbitrary: stack root)
  case (Cons t ts)
  then obtain stack1 root1 where s: "nest_step t stack root = Inr (stack1, root1)"
    and "nest_acc ts stack1 root1 = Inr (stack', root')"
    by (auto split: sum.splits)
  with nest_step_closed [OF s] Cons show ?case by blast
qed simp

lemma close_all_Nil [simp]: "close_all [] root = rev root"
  by simp

lemma nestTokens_ok:
  "open_after ts [] = Some [] \<Longrightarrow> \<exists>ns. nestTokens ts = Inr ns \<and> list_all all_closed ns"
proof -
  assume "open_after ts [] = Some []"
  then obtain root where r: "nest_acc ts [] [] = Inr ([], root)"
    using nest_acc_open [of ts "[]" "[]" "[]"] by auto
  with nest_acc_closed [OF r] show ?thesis by (simp add: nestTokens_def list_all_rev)
qed

text \<open>
  C30. \<open>nestTokens\<close> builds the tree of a properly nested token list: it does not fail, every
  section of the tree has its end position, and reading the tree from left to right gives back
  the token list, so the tree is a faithful representation of it.
\<close>

theorem nestTokens_roundtrip:
  assumes "open_after ts [] = Some []"
  shows "\<exists>ns. nestTokens ts = Inr ns \<and> list_all all_closed ns \<and> flats ns = map event_of ts"
  using nestTokens_ok [OF assms] nestTokens_events by blast

theorem nestTokens_roundtrip_witness:
  "\<exists>ns. nestTokens
      [\<lparr>t_type = Section, t_value = ''a'', t_start = 0, t_end = 6\<rparr>,
       \<lparr>t_type = Name, t_value = ''b'', t_start = 6, t_end = 11\<rparr>,
       \<lparr>t_type = Close, t_value = ''a'', t_start = 11, t_end = 17\<rparr>] = Inr ns \<and> list_all all_closed ns \<and>
     flats ns = map event_of
      [\<lparr>t_type = Section, t_value = ''a'', t_start = 0, t_end = 6\<rparr>,
       \<lparr>t_type = Name, t_value = ''b'', t_start = 6, t_end = 11\<rparr>,
       \<lparr>t_type = Close, t_value = ''a'', t_start = 11, t_end = 17\<rparr>]"
  by (rule nestTokens_roundtrip) simp

section \<open>The parser\<close>

text \<open>The parser's own tags are strings, so no \<open>TypeError\<close> comes out of the loop.\<close>

lemma compileTags_Str: "compileTags (Str v) \<noteq> Inl MTypeError"
  by (auto simp: compileTags_def split: list.splits jsval.splits)

lemma parse_tag_error: "parse_tag start st = Inl e \<Longrightarrow> e \<noteq> MTypeError"
  using compileTags_Str
  by (fastforce simp: parse_tag_def enter_token_def Let_def
      split: if_splits prod.splits toktype.splits list.splits sum.splits)

lemma parse_loop_error: "parse_loop st = Inl e \<Longrightarrow> e \<noteq> MTypeError"
proof (induction st rule: parse_loop.induct)
  case (1 st)
  from 1(2) show ?case
    by (subst (asm) parse_loop.simps)
      (auto simp: Let_def split: if_splits prod.splits sum.splits dest: parse_tag_error 1(1))
qed

text \<open>
  C4. Whatever the template, parsing ends, and it ends in a documented way: either with one of
  the parser's own errors (an unclosed tag, an unopened or unclosed section, invalid tags) and
  never a \<open>TypeError\<close> from popping an empty section stack in \<open>nestTokens\<close>, or with a tree in which
  every section is closed.
\<close>

theorem parseTemplate_nested:
  "case parseTemplate t (Arr [Str a, Str b]) of
     Inl e \<Rightarrow> e \<noteq> MTypeError
   | Inr ns \<Rightarrow> list_all all_closed ns"
proof (cases "t = []")
  case True
  then show ?thesis by (simp add: parseTemplate_def)
next
  case False
  obtain tg where tg: "compileTags (Arr [Str a, Str b]) = Inr tg" by (simp add: compileTags_def)
  show ?thesis
  proof (cases "parse_loop (parse_init t tg)")
    case (Inl e)
    with False tg parse_loop_error [OF Inl] show ?thesis by (simp add: parseTemplate_def)
  next
    case (Inr st)
    have "parse_inv (parse_init t tg)" by (simp add: parse_inv_def parse_init_def spaces_ok_def)
    from parse_loop_inv [OF this Inr]
    have o: "open_after (squashTokens (p_tokens st)) [] = Some (p_sections st)"
      by (simp add: parse_inv_def open_after_squash)
    show ?thesis
    proof (cases "p_sections st")
      case Nil
      from nestTokens_ok [OF o [unfolded Nil]] False tg Inr Nil show ?thesis
        by (auto simp: parseTemplate_def)
    qed (use False tg Inr in \<open>simp add: parseTemplate_def\<close>)
  qed
qed

section \<open>Templates without tags\<close>

lemma re_tokens_white: "re_tokens (backslash @ ''s*'') = Inr [TAtom (Cls False space_ranges), TQuant 0 None True]"
  by code_simp

text \<open>The opening tag compiles to its literal followed by white space.\<close>

lemma re_of_opening:
  "re_of (escapeRegExp a @ backslash @ ''s*'') =
   lit_re a (Seq (Rep True None (Cls False space_ranges)) Eps)"
  using re_tokens_escape [of re_special a "backslash @ ''s*''", OF re_special_escapes re_syntax_special]
  by (simp add: re_of_def RegExp_def escapeRegExp_def re_tokens_white foldr_then_tokens parse_re_chars
      seq_re_chars [where items = "[it]" for it, simplified] seq_re_def [of "[it]" for it])

lemma re_run_Rep_nonempty: "re_run ic n (Rep g k r) s \<noteq> []"
  by (subst re_run.simps) (simp add: Let_def)

lemma opening_run: "re_run False n (lit_re a (Seq (Rep g k r) Eps)) s = [] \<longleftrightarrow> \<not> prefix a s"
  using re_run_Rep_nonempty [of False n g k r] by (auto simp: re_run_lit)

lemma no_opening_search:
  "\<not> sublist a s \<Longrightarrow> re_search False (lit_re a (Seq (Rep g k r) Eps)) s = None"
proof -
  assume "\<not> sublist a s"
  then have "\<not> prefix a (drop k s)" for k
    by (metis append_take_drop_id prefix_def sublist_appendI)
  then show ?thesis by (simp add: re_search_def search_from_none_iff opening_run)
qed

text \<open>Text alone leaves one text token per character and no hole, since no line has a tag.\<close>

lemma push_text_plain:
  "\<not> p_hasTag st \<Longrightarrow>
   p_tokens (push_text s start st) =
     p_tokens st @ map (\<lambda>i. Some \<lparr>t_type = Text, t_value = [s ! i], t_start = start + i, t_end = start + i + 1\<rparr>)
       [0..<length s] \<and>
   p_sections (push_text s start st) = p_sections st \<and> p_tags (push_text s start st) = p_tags st \<and>
   \<not> p_hasTag (push_text s start st)"
proof (induction s start st rule: push_text.induct)
  case (2 c s start st)
  from 2 show ?case
    by (auto simp: Let_def stripSpace_def map_upt_Suc simp del: upt_Suc)
qed simp

lemma squash_chars:
  "t_type l = Text \<Longrightarrow>
   squash_acc (map (\<lambda>i. Some \<lparr>t_type = Text, t_value = [s ! i], t_start = k + i, t_end = k + i + 1\<rparr>)
      [0..<length s]) [l] =
   [l\<lparr>t_value := t_value l @ s, t_end := (if s = [] then t_end l else k + length s)\<rparr>]"
proof (induction s arbitrary: l k)
  case (Cons c s)
  show ?case
    using Cons.IH [of "l\<lparr>t_value := t_value l @ [c], t_end := k + 1\<rparr>" "Suc k"] Cons.prems
    by (simp add: map_upt_Suc del: upt_Suc)
qed simp

lemma squash_text:
  "s \<noteq> [] \<Longrightarrow>
   squashTokens (map (\<lambda>i. Some \<lparr>t_type = Text, t_value = [s ! i], t_start = i, t_end = Suc i\<rparr>) [0..<length s]) =
   [\<lparr>t_type = Text, t_value = s, t_start = 0, t_end = length s\<rparr>]"
proof (cases s)
  case (Cons c s')
  then show ?thesis
    using squash_chars [of "\<lparr>t_type = Text, t_value = [c], t_start = 0, t_end = 1\<rparr>" s' 1]
    by (auto simp: squashTokens_def map_upt_Suc simp del: upt_Suc)
qed simp

lemma scanUntil_none: "re_search False r (sc_tail sc) = None \<Longrightarrow> scanUntil r sc = (sc_tail sc, advance (length (sc_tail sc)) sc)"
  by (simp add: scanUntil_def)

lemma scan_none: "re_search False r (sc_tail sc) = None \<Longrightarrow> scan r sc = ([], sc)"
  by (simp add: scan_def)

lemma parse_plain:
  assumes "t \<noteq> []" and "a \<noteq> []" and "\<not> sublist a t"
  shows "parseTemplate t (Arr [Str a, Str b]) =
     Inr [NTok \<lparr>t_type = Text, t_value = t, t_start = 0, t_end = length t\<rparr>]"
proof -
  define tg where "tg = \<lparr>openingTagRe = re_of (escapeRegExp a @ backslash @ ''s*''),
      closingTagRe = re_of (backslash @ ''s*'' @ escapeRegExp b),
      closingCurlyRe = re_of (backslash @ ''s*'' @ escapeRegExp (''}'' @ b))\<rparr>"
  have tags: "compileTags (Arr [Str a, Str b]) = Inr tg" by (simp add: compileTags_def tg_def)
  let ?st = "parse_init t tg"
  have op: "openingTagRe tg = lit_re a (Seq (Rep True None (Cls False space_ranges)) Eps)"
    by (simp add: tg_def re_of_opening)
  have none: "re_search False (openingTagRe tg) t = None" "re_search False (openingTagRe tg) [] = None"
    using assms no_opening_search [of a t] no_opening_search [of a "[]"] by (auto simp: op)
  let ?sc = "advance (length t) (Scanner t)"
  let ?st1 = "push_text t 0 (?st\<lparr>p_scanner := ?sc\<rparr>)"
  have st1: "p_tokens ?st1 = map (\<lambda>i. Some \<lparr>t_type = Text, t_value = [t ! i], t_start = 0 + i, t_end = 0 + i + 1\<rparr>) [0..<length t]"
    "p_sections ?st1 = []" "p_tags ?st1 = tg"
    using push_text_plain [of "?st\<lparr>p_scanner := ?sc\<rparr>" t 0] by (simp_all add: parse_init_def)
  have "scanUntil (openingTagRe tg) (Scanner t) = (t, ?sc)"
    using none scanUntil_none [of "openingTagRe tg" "Scanner t"] by (simp add: Scanner_def)
  moreover have "scan (openingTagRe tg) ?sc = ([], ?sc)"
    using none scan_none [of "openingTagRe tg" ?sc] by (simp add: Scanner_def)
  ultimately have loop: "parse_loop ?st = Inr (?st1\<lparr>p_scanner := ?sc\<rparr>)"
    using assms(1) st1(3)
    by (subst parse_loop.simps) (simp add: parse_init_def eos_def Let_def Scanner_def)
  have sq: "squashTokens (p_tokens ?st1) = [\<lparr>t_type = Text, t_value = t, t_start = 0, t_end = length t\<rparr>]"
    unfolding st1(1) by (simp add: squash_text assms(1))
  show ?thesis
    using assms(1) st1(2) sq by (simp add: parseTemplate_def tags loop nestTokens_def nest_step_def)
qed

end
