(* ===== verification/Mustache_Render_Props.thy ===== *)
theory Mustache_Render_Props
  imports Mustache_Writer Mustache_Parser_Props
begin

text \<open>
  What rendering guarantees: a template without tags is its own rendering, a name means the same
  with and without the caches, and rendering from any coherent cache of parsed templates gives
  the text that rendering from an empty cache gives.
\<close>

section \<open>Templates without tags\<close>

text \<open>
  Rendering a template in which the opening tag does not occur returns the template itself,
  whatever the view and the partials, and caches its one text token. (Templates that spell the
  name of a property of \<open>Object.prototype\<close> are excluded: the cache object answers for them.)
\<close>

theorem render_plain:
  assumes "\<not> sublist a t" and "a \<noteq> []" and "m_tags m = Arr [Str a, Str b]"
    and "inherited [] t = Undefined" and "assoc t w = None"
  shows "renderParsed m ps (Suc n) (Str t) c w =
     Inr (t, c, assoc_set t (if t = [] then [] else [NTok \<lparr>t_type = Text, t_value = t, t_start = 0, t_end = length t\<rparr>]) w)"
proof (cases "t = []")
  case True
  with assms show ?thesis by (simp add: writer_parse_def parseTemplate_def)
next
  case False
  with assms show ?thesis by (simp add: writer_parse_def parse_plain add_string_def)
qed

theorem render_plain_witness:
  "renderParsed \<lparr>m_host = \<lparr>fn_call = (\<lambda>f v. v), fn_str = (\<lambda>f. []), fn_prop = (\<lambda>f k. Undefined)\<rparr>,
      m_tags = Arr [Str ''{{'', Str ''}}''], m_escape = (\<lambda>v. []), m_section = (\<lambda>f v b sub st. Inr (Undefined, st))\<rparr>
     NoPartials 1 (Str ''a {b} c'') (Context Null []) [] =
   Inr (''a {b} c'', Context Null [], [(''a {b} c'', [NTok \<lparr>t_type = Text, t_value = ''a {b} c'', t_start = 0, t_end = 7\<rparr>])])"
  by (subst One_nat_def, subst render_plain [where a = "''{{''" and b = "''}}''"])
    (simp_all add: inherited_def object_proto_def sublist_Cons_right)

section \<open>Names and the lookup cache\<close>

text \<open>What a name means, without a cache: the specification of \<open>lookup\<close>.\<close>

definition name_value :: "host \<Rightarrow> string \<Rightarrow> jsval list \<Rightarrow> jsval" where
  "name_value h name views =
     (let v = (if name = ''.'' then hd views
               else if inherited [] name \<noteq> Undefined then inherited [] name
               else ctx_search h name views)
      in call_value h v (hd views))"

definition views :: "ctx \<Rightarrow> jsval list" where
  "views c = c_view c # c_parents c"

text \<open>A cache is coherent when every entry is what the search would find.\<close>

definition ctx_ok :: "host \<Rightarrow> ctx \<Rightarrow> bool" where
  "ctx_ok h c \<longleftrightarrow>
     (\<forall>k v. assoc k (c_cache c) = Some v \<longrightarrow>
        inherited [] k = Undefined \<and> v = (if k = ''.'' then c_view c else ctx_search h k (views c))) \<and>
     assoc ''.'' (c_cache c) = Some (c_view c)"

lemma inherited_dot: "inherited [] ''.'' = Undefined"
  by (simp add: inherited_def object_proto_def)

lemma ctx_ok_new [simp]: "ctx_ok h (Context v ps)"
  by (simp add: ctx_ok_def Context_def inherited_dot)

lemma ctx_ok_push [simp]: "ctx_ok h (ctx_push c v)"
  by (simp add: ctx_push_def)

lemma lookup_views [simp]: "views (snd (lookup h name c)) = views c"
  by (simp add: lookup_def views_def Let_def)

lemma lookup_ok:
  assumes "ctx_ok h c"
  shows "fst (lookup h name c) = name_value h name (views c) \<and> ctx_ok h (snd (lookup h name c))"
proof (cases "assoc name (c_cache c)")
  case None
  with assms have "name \<noteq> ''.''" by (auto simp: ctx_ok_def)
  with assms None show ?thesis
    by (auto simp: lookup_def name_value_def in_cache_def cache_get_def Let_def views_def ctx_ok_def
        split: if_splits)
next
  case (Some v)
  with assms have "inherited [] name = Undefined"
    "v = (if name = ''.'' then c_view c else ctx_search h name (views c))"
    by (auto simp: ctx_ok_def)
  then show ?thesis
    using assms Some
    by (auto simp: lookup_def name_value_def in_cache_def cache_get_def Let_def views_def)
qed

text \<open>
  The lookup cache of a context is invisible: after any sequence of lookups in a new context,
  a name is looked up to the value the search through the views finds, called with the current
  view when it is a function.
\<close>

theorem lookup_cached:
  "fst (lookup h name (fold (\<lambda>k c. snd (lookup h k c)) ks (Context v ps))) =
   name_value h name (view_of v # ps)"
proof -
  have "ctx_ok h (fold (\<lambda>k c. snd (lookup h k c)) ks c) \<and>
      views (fold (\<lambda>k c. snd (lookup h k c)) ks c) = views c" if "ctx_ok h c" for c
    using that by (induction ks arbitrary: c) (auto simp: lookup_ok)
  from this [OF ctx_ok_new] show ?thesis by (simp add: lookup_ok) (simp add: views_def Context_def)
qed

section \<open>The caches are invisible\<close>

definition wcache_ok :: "mustache \<Rightarrow> wcache \<Rightarrow> bool" where
  "wcache_ok m w \<longleftrightarrow>
     (\<forall>t ts. assoc t w = Some ts \<longrightarrow> inherited [] t = Undefined \<and> parseTemplate t (m_tags m) = Inr ts)"

text \<open>
  Partials are meant to be strings.  A partial that is not one is cached under its text: when it is
  truthy it can only be rendered through an entry that a string made (otherwise the scanner
  throws); a falsy one (\<open>false\<close>, \<open>0\<close>, \<open>NaN\<close>) makes an entry itself.
\<close>

definition text_partials :: "mustache \<Rightarrow> partials \<Rightarrow> bool" where
  "text_partials m ps \<longleftrightarrow> (\<forall>name. nullish (partial_value m ps name) \<or> is_string (partial_value m ps name))"

definition partials_ok :: "mustache \<Rightarrow> partials \<Rightarrow> bool" where
  "partials_ok m ps \<longleftrightarrow>
     (\<forall>name. nullish (partial_value m ps name) \<or> is_string (partial_value m ps name) \<or> truthy (partial_value m ps name))"

definition usable :: "mustache \<Rightarrow> partials \<Rightarrow> jsval \<Rightarrow> bool" where
  "usable m ps v \<longleftrightarrow> is_string v \<or> truthy v \<and> \<not> text_partials m ps"

lemma usable_Str [simp]: "usable m ps (Str t)"
  by (simp add: usable_def)

lemma partial_usable:
  "partials_ok m ps \<Longrightarrow> \<not> nullish (partial_value m ps name) \<Longrightarrow> usable m ps (partial_value m ps name)"
  by (auto simp: partials_ok_def text_partials_def usable_def)

text \<open>Two states that differ in their caches only, the second cache holding no more than the first.\<close>

definition cached_le :: "wcache \<Rightarrow> wcache \<Rightarrow> bool" where
  "cached_le w2 w1 \<longleftrightarrow> (\<forall>k. assoc k w2 \<noteq> None \<longrightarrow> assoc k w1 \<noteq> None)"

definition caches_rel :: "mustache \<Rightarrow> wcache \<Rightarrow> wcache \<Rightarrow> bool" where
  "caches_rel m w1 w2 \<longleftrightarrow> wcache_ok m w1 \<and> wcache_ok m w2 \<and> cached_le w2 w1"

fun st_rel :: "mustache \<Rightarrow> render_state \<Rightarrow> render_state \<Rightarrow> bool" where
  "st_rel m (c1, w1) (c2, w2) \<longleftrightarrow>
     views c1 = views c2 \<and> ctx_ok (m_host m) c1 \<and> ctx_ok (m_host m) c2 \<and> caches_rel m w1 w2"

text \<open>
  Two results: the same value or the same error.  Where some partial is not a string, an error of
  the second run, the one with the smaller cache, says nothing of the first.
\<close>

definition res_rel :: "mustache \<Rightarrow> partials \<Rightarrow> jsval list \<Rightarrow> merror + 'a \<times> render_state \<Rightarrow> merror + 'a \<times> render_state \<Rightarrow> bool" where
  "res_rel m ps vs r1 r2 \<longleftrightarrow>
     (case (r1, r2) of
        (Inl e1, Inl e2) \<Rightarrow> e1 = e2 \<or> \<not> text_partials m ps
      | (Inr (a1, s1), Inr (a2, s2)) \<Rightarrow> a1 = a2 \<and> st_rel m s1 s2 \<and> views (fst s1) = vs
      | (Inr _, Inl _) \<Rightarrow> \<not> text_partials m ps
      | _ \<Rightarrow> False)"

text \<open>
  Section functions get the state only through \<open>subRender\<close>, which they call on strings, and pass
  its errors on: on states that differ in the caches only, a section function returns the same value.
\<close>

definition sections_ok :: "mustache \<Rightarrow> partials \<Rightarrow> bool" where
  "sections_ok m ps \<longleftrightarrow>
     (\<forall>f v body sub s1 s2.
        (\<forall>t u1 u2. st_rel m u1 u2 \<longrightarrow> res_rel m ps (views (fst u1)) (sub (Str t) u1) (sub (Str t) u2)) \<longrightarrow>
        st_rel m s1 s2 \<longrightarrow> res_rel m ps (views (fst s1)) (m_section m f v body sub s1) (m_section m f v body sub s2))"

lemma sections_okD:
  assumes "sections_ok m ps" and "\<And>t u1 u2. st_rel m u1 u2 \<Longrightarrow> res_rel m ps (views (fst u1)) (sub (Str t) u1) (sub (Str t) u2)"
    and "st_rel m s1 s2"
  shows "res_rel m ps (views (fst s1)) (m_section m f v body sub s1) (m_section m f v body sub s2)"
  using assms unfolding sections_ok_def by (elim allE [where x = f] allE [where x = v] allE [where x = body] allE [where x = sub]) blast

lemma res_rel_simps [simp]:
  "res_rel m ps vs (Inl e1) (Inl e2) \<longleftrightarrow> e1 = e2 \<or> \<not> text_partials m ps"
  "\<not> res_rel m ps vs (Inl e) (Inr x)" "res_rel m ps vs (Inr x) (Inl e) \<longleftrightarrow> \<not> text_partials m ps"
  "res_rel m ps vs (Inr (a1, s1)) (Inr (a2, s2)) \<longleftrightarrow> a1 = a2 \<and> st_rel m s1 s2 \<and> views (fst s1) = vs"
  by (auto simp: res_rel_def split: prod.splits)

lemma res_rel_lax: "\<not> text_partials m ps \<Longrightarrow> res_rel m ps vs r (Inl e)"
  by (cases r) auto

lemma res_relE:
  assumes "res_rel m ps vs r1 r2"
  obtains (err) e where "r1 = Inl e" "r2 = Inl e"
  | (ok) a c1 w1 c2 w2 where "r1 = Inr (a, c1, w1)" "r2 = Inr (a, c2, w2)"
      "st_rel m (c1, w1) (c2, w2)" "views c1 = vs"
  | (lax) e where "r2 = Inl e" "\<not> text_partials m ps"
  using assms by (cases r1; cases r2) auto

lemma add_string_rel: "res_rel m ps vs r1 r2 \<Longrightarrow> res_rel m ps vs (add_string s r1) (add_string s r2)"
  by (erule res_relE) (auto simp: add_string_def res_rel_lax)

lemma caches_rel_set:
  assumes "caches_rel m w1 w2" and "inherited [] t = Undefined" and "parseTemplate t (m_tags m) = Inr ts"
  shows "caches_rel m (assoc_set t ts w1) (assoc_set t ts w2)"
  using assms by (auto simp: caches_rel_def cached_le_def wcache_ok_def split: if_splits)

lemma writer_parse_Str_rel:
  assumes "caches_rel m w1 w2"
  shows "case (writer_parse h (Str t) (m_tags m) w1, writer_parse h (Str t) (m_tags m) w2) of
      (Inl e1, Inl e2) \<Rightarrow> e1 = e2
    | (Inr (p1, u1), Inr (p2, u2)) \<Rightarrow> p1 = p2 \<and> caches_rel m u1 u2
    | _ \<Rightarrow> False"
proof -
  have "caches_rel m (assoc_set t ts w1) w2" if "assoc t w1 = Some ts" for ts
    using that assms by (auto simp: caches_rel_def cached_le_def wcache_ok_def)
  moreover have "caches_rel m w1 (assoc_set t ts w2)" if "assoc t w1 = Some ts" for ts
    using that assms by (auto simp: caches_rel_def cached_le_def wcache_ok_def)
  moreover have "inherited [] t = Undefined \<and> parseTemplate t (m_tags m) = Inr ts" if "assoc t w1 = Some ts" for ts
    using that assms by (auto simp: caches_rel_def wcache_ok_def)
  moreover have "inherited [] t = Undefined \<and> parseTemplate t (m_tags m) = Inr ts" if "assoc t w2 = Some ts" for ts
    using that assms by (auto simp: caches_rel_def wcache_ok_def)
  moreover have "assoc t w1 \<noteq> None" if "assoc t w2 = Some ts" for ts
    using that assms by (auto simp: caches_rel_def cached_le_def)
  ultimately show ?thesis
    using assms caches_rel_set [OF assms, of t]
    by (auto simp: writer_parse_def Let_def split: option.split sum.split)
qed

lemma writer_parse_rel:
  assumes "caches_rel m w1 w2" and "usable m ps v"
  obtains (err) e where "writer_parse h v (m_tags m) w1 = Inl e" "writer_parse h v (m_tags m) w2 = Inl e"
  | (ok) p u1 u2 where "writer_parse h v (m_tags m) w1 = Inr (p, u1)" "writer_parse h v (m_tags m) w2 = Inr (p, u2)"
      "caches_rel m u1 u2"
  | (lax) e where "writer_parse h v (m_tags m) w2 = Inl e" "\<not> text_partials m ps"
proof (cases "is_string v")
  case True
  then obtain t where "v = Str t" by (cases v) auto
  then show thesis
    using writer_parse_Str_rel [OF assms(1), of h t] that(1,2)
    by (cases "writer_parse h (Str t) (m_tags m) w1"; cases "writer_parse h (Str t) (m_tags m) w2") auto
next
  case False
  then have v: "truthy v" "\<not> text_partials m ps" using assms(2) by (auto simp: usable_def)
  then have "\<exists>e. parseTemplate_value v (m_tags m) = Inl e"
    using False by (auto simp: parseTemplate_value_def split: jsval.split sum.split)
  then obtain e where e: "parseTemplate_value v (m_tags m) = Inl e" ..
  let ?k = "tostr h v"
  consider ts where "assoc ?k w2 = Some ts" "assoc ?k w1 = Some ts"
    | "assoc ?k w2 = None" "inherited [] ?k \<noteq> Undefined" "assoc ?k w1 = None"
    | "assoc ?k w2 = None" "inherited [] ?k = Undefined"
    using assms(1) by (cases "assoc ?k w1"; cases "assoc ?k w2") (fastforce simp: caches_rel_def cached_le_def wcache_ok_def)+
  then show thesis
    by cases (use e v(2) assms(1) that in \<open>auto simp: writer_parse_def Let_def\<close>)
qed

lemma lookup_rel:
  assumes "st_rel m (c1, w1) (c2, w2)"
  obtains v c1' c2' where "lookup (m_host m) k c1 = (v, c1')" "lookup (m_host m) k c2 = (v, c2')"
    "\<And>u1 u2. caches_rel m u1 u2 \<Longrightarrow> st_rel m (c1', u1) (c2', u2)"
    "views c1' = views c1" "c_view c1' = c_view c1" "c_view c2' = c_view c1"
proof -
  obtain v1 c1' v2 c2' where l: "lookup (m_host m) k c1 = (v1, c1')" "lookup (m_host m) k c2 = (v2, c2')"
    by fastforce
  have ok: "ctx_ok (m_host m) c1" "ctx_ok (m_host m) c2" "views c1 = views c2" using assms by auto
  have "v1 = v2" "ctx_ok (m_host m) c1'" "ctx_ok (m_host m) c2'"
    using lookup_ok [OF ok(1), of k] lookup_ok [OF ok(2), of k] ok(3) l by auto
  moreover have "views c1' = views c1" "views c2' = views c2"
    using lookup_views [of "m_host m" k c1] lookup_views [of "m_host m" k c2] l by auto
  ultimately show thesis using that [of v1 c1' c2'] l ok(3) by (auto simp: views_def)
qed

lemma push_rel: "caches_rel m w1 w2 \<Longrightarrow> views c1 = views c2 \<Longrightarrow>
   st_rel m (ctx_push c1 v, w1) (ctx_push c2 v, w2)"
  by (simp add: ctx_push_def) (simp add: views_def Context_def)

lemma render_rel:
  assumes "sections_ok m ps" and "partials_ok m ps"
  shows
  "st_rel m (c, w) (c2, w2) \<Longrightarrow>
     res_rel m ps (views c) (renderTokens m ps n orig ts c w) (renderTokens m ps n orig ts c2 w2)"
  "st_rel m (c, w) (c2, w2) \<Longrightarrow>
     res_rel m ps (views c) (renderToken m ps n orig t c w) (renderToken m ps n orig t c2 w2)"
  "st_rel m (c, w) (c2, w2) \<Longrightarrow>
     res_rel m ps (views c) (renderEach m ps n orig ch vs c w) (renderEach m ps n orig ch vs c2 w2)"
  "st_rel m (c, w) (c2, w2) \<Longrightarrow> usable m ps tm \<Longrightarrow>
     res_rel m ps (views c) (renderParsed m ps n tm c w) (renderParsed m ps n tm c2 w2)"
  using assms
proof (induction m ps n orig ts c w and m ps n orig t c w and m ps n orig ch vs c w and m ps n tm c w
    arbitrary: c2 w2 and c2 w2 and c2 w2 and c2 w2
    rule: renderTokens_renderToken_renderEach_renderParsed.induct)
  case (1 m ps n orig c w)
  then show ?case by simp
next
  case (2 m ps n orig t ts c w)
  from "2.IH"(1) [OF "2.prems"] show ?case
  proof (cases rule: res_relE)
    case (ok a c1 w1 c2' w2')
    then show ?thesis
      using "2.IH"(2) [of "(a, c1, w1)" a "(c1, w1)" c1 w1 c2' w2'] "2.prems"(2,3)
      by (auto intro!: add_string_rel)
  qed (simp_all add: res_rel_lax)
next
  case (3 m ps n orig t ch e c w)
  from "3.prems"(1) obtain v c1 c2' where l:
    "lookup (m_host m) (t_value t) c = (v, c1)" "lookup (m_host m) (t_value t) c2 = (v, c2')"
    "\<And>u1 u2. caches_rel m u1 u2 \<Longrightarrow> st_rel m (c1, u1) (c2', u2)"
    "views c1 = views c" "c_view c1 = c_view c" "c_view c2' = c_view c"
    by (rule lookup_rel [where k = "t_value t"]) blast
  have w: "caches_rel m w w2" using "3.prems" by auto
  note st = l(3) [OF w]
  have sub: "res_rel m ps (views (fst u1)) ((\<lambda>(c1, w1). renderParsed m ps k (Str tm) c1 w1) u1)
      ((\<lambda>(c1, w1). renderParsed m ps k (Str tm) c1 w1) u2)"
    if "n = Suc k" "orig = Some tp" "function_of v = Some f" "t_type t \<noteq> Inverted" "truthy v"
      "array_items v = None" "\<not> (is_object v \<or> is_string v)" "st_rel m u1 u2" for k tp f tm u1 u2
    using "3.IH"(4) [of v c1 f tp k] that l(1) "3.prems"(2,3) by (cases u1; cases u2) auto
  consider (inv) "t_type t = Inverted" | (falsy) "t_type t \<noteq> Inverted" "\<not> truthy v"
    | (arr) vs where "t_type t \<noteq> Inverted" "truthy v" "array_items v = Some vs"
    | (obj) "t_type t \<noteq> Inverted" "truthy v" "array_items v = None" "is_object v \<or> is_string v"
    | (fn) f where "t_type t \<noteq> Inverted" "truthy v" "array_items v = None" "\<not> (is_object v \<or> is_string v)"
        "function_of v = Some f"
    | (other) "t_type t \<noteq> Inverted" "truthy v" "array_items v = None" "\<not> (is_object v \<or> is_string v)"
        "function_of v = None"
    by (metis option.exhaust)
  then show ?case
  proof cases
    case inv
    then show ?thesis using "3.IH"(1) [of v c1, OF _ _ _ st "3.prems"(2,3)] l st by (auto simp del: st_rel.simps)
  next
    case falsy
    then show ?thesis using l st by (auto simp del: st_rel.simps)
  next
    case (arr vs)
    then show ?thesis using "3.IH"(5) [of v c1 vs, OF _ _ _ _ st "3.prems"(2,3)] l by (auto simp del: st_rel.simps)
  next
    case obj
    have "st_rel m (ctx_push c1 v, w) (ctx_push c2' v, w2)" using st w by (intro push_rel) auto
    from "3.IH"(2) [of v c1, OF _ _ _ _ _ this "3.prems"(2,3)] obj l(1)
    have "res_rel m ps (views (ctx_push c1 v)) (renderTokens m ps n orig ch (ctx_push c1 v) w)
       (renderTokens m ps n orig ch (ctx_push c2' v) w2)" by simp
    then show ?thesis using obj l st by (cases rule: res_relE) (auto simp: res_rel_lax)
  next
    case (fn f)
    show ?thesis
    proof (cases orig; cases n)
      fix tp k assume o: "orig = Some tp" "n = Suc k"
      have "res_rel m ps (views (fst (c1, w)))
         (m_section m f (c_view c1) (section_text tp t e) (\<lambda>tm (c1, w1). renderParsed m ps k tm c1 w1) (c1, w))
         (m_section m f (c_view c1) (section_text tp t e) (\<lambda>tm (c1, w1). renderParsed m ps k tm c1 w1) (c2', w2))"
        by (rule sections_okD [OF "3.prems"(2) _ st], rule sub [OF o(2,1) fn(5,1-4)])
      then show ?thesis using fn l o
        by (cases rule: res_relE) (auto simp: res_rel_lax simp del: st_rel.simps renderParsed.simps)
    qed (use fn l in auto)
  next
    case other
    then show ?thesis using "3.IH"(3) [of v c1, OF _ _ _ _ _ _ st "3.prems"(2,3)] l by (auto simp del: st_rel.simps)
  qed
next
  case (4 m ps n orig t c w)
  from "4.prems"(1) obtain v c1 c2' where l:
    "lookup (m_host m) (t_value t) c = (v, c1)" "lookup (m_host m) (t_value t) c2 = (v, c2')"
    "\<And>u1 u2. caches_rel m u1 u2 \<Longrightarrow> st_rel m (c1, u1) (c2', u2)"
    "views c1 = views c"
    by (rule lookup_rel [where k = "t_value t"]) blast
  have st: "st_rel m (c1, w) (c2', w2)" using "4.prems" by (intro l(3)) auto
  let ?v = "partial_value m ps (t_value t)"
  have "res_rel m ps (views c) (renderParsed m ps k ?v c w) (renderParsed m ps k ?v c2 w2)"
    if "t_type t = Partial" "\<not> nullish ?v" "n = Suc k" for k
    using "4.IH" [of ?v k, OF _ _ _ _ "4.prems"(1) partial_usable "4.prems"(2,3)] "4.prems"(3) that by simp
  then show ?case
    using "4.prems"(1) l(1,2,4) st
    by (auto simp: Let_def simp del: st_rel.simps renderParsed.simps split: toktype.split nat.split)
next
  case (5 m ps n orig ch c w)
  then show ?case by simp
next
  case (6 m ps n orig ch v vs c w)
  then have p: "st_rel m (ctx_push c v, w) (ctx_push c2 v, w2)" by (intro push_rel) auto
  from "6.IH"(1) [OF p "6.prems"(2,3)] show ?case
  proof (cases rule: res_relE)
    case (ok a c1 w1 c2' w2')
    then have "st_rel m (c, w1) (c2, w2')" using "6.prems" by auto
    with ok "6.IH"(2) [of "(a, c1, w1)" a "(c1, w1)" c1 w1 c2 w2'] "6.prems"(2,3) show ?thesis
      by (auto intro!: add_string_rel)
  qed (simp_all add: res_rel_lax)
next
  case (7 m ps n tm c w)
  have w: "caches_rel m w w2" and st: "\<And>u1 u2. caches_rel m u1 u2 \<Longrightarrow> st_rel m (c, u1) (c2, u2)"
    using "7.prems" by auto
  show ?case
  proof (rule writer_parse_rel [OF w "7.prems"(2), of "m_host m"])
    fix p u1 u2
    assume wp: "writer_parse (m_host m) tm (m_tags m) w = Inr (p, u1)"
      "writer_parse (m_host m) tm (m_tags m) w2 = Inr (p, u2)" "caches_rel m u1 u2"
    have "res_rel m ps (views c) (renderTokens m ps k (template_text tm) ts c u1)
        (renderTokens m ps k (template_text tm) ts c2 u2)" if "p = PTokens ts" "n = Suc k" for ts k
      using "7.IH" [OF wp(1) refl that(1) that(2) st [OF wp(3)] "7.prems"(3,4)] .
    then show ?thesis using wp st by (auto simp del: st_rel.simps split: parsed.split nat.split)
  qed (auto simp: res_rel_lax)
qed

text \<open>
  C3. The writer's cache of parsed templates is invisible as long as it was filled under the
  current tags, no partial is \<open>false\<close>, \<open>0\<close> or \<open>NaN\<close>, and section functions render strings and
  pass errors on: whatever text rendering from an empty cache gives, rendering from a coherent
  cache gives it too and leaves a coherent cache.  When every partial is a string or missing, the
  two agree in their errors as well.
\<close>

theorem render_cache_transparent:
  assumes "wcache_ok m w" and "sections_ok m ps" and "partials_ok m ps"
  shows "case mustache_render m ps n (Str t) v [] of
      Inr (s, _) \<Rightarrow> \<exists>w1. mustache_render m ps n (Str t) v w = Inr (s, w1) \<and> wcache_ok m w1
    | Inl e \<Rightarrow> text_partials m ps \<longrightarrow> mustache_render m ps n (Str t) v w = Inl e"
proof -
  have "st_rel m (Context v [], w) (Context v [], [])"
    using assms(1) by (simp add: wcache_ok_def caches_rel_def cached_le_def)
  from render_rel(4) [OF assms(2,3) this usable_Str, of n t] show ?thesis
    by (cases rule: res_relE) (auto simp: mustache_render_def caches_rel_def)
qed

text \<open>The usual section function renders its text: it reaches the state through \<open>subRender\<close> only.\<close>

definition wrap_section :: "fn \<Rightarrow> jsval \<Rightarrow> string \<Rightarrow> sub_render \<Rightarrow> render_state \<Rightarrow> merror + jsval \<times> render_state" where
  "wrap_section f v body sub st =
     (case sub (Str body) st of Inl e \<Rightarrow> Inl e | Inr (s, st') \<Rightarrow> Inr (Str (''<b>'' @ s @ ''</b>''), st'))"

definition demo :: mustache where
  "demo = \<lparr>m_host = \<lparr>fn_call = (\<lambda>f v. v), fn_str = (\<lambda>f. []), fn_prop = (\<lambda>f k. Undefined)\<rparr>,
     m_tags = Arr [Str ''{{'', Str ''}}''],
     m_escape = escapeHtml \<lparr>fn_call = (\<lambda>f v. v), fn_str = (\<lambda>f. []), fn_prop = (\<lambda>f k. Undefined)\<rparr>,
     m_section = wrap_section\<rparr>"

lemma demo_sections: "sections_ok demo ps"
  unfolding sections_ok_def
proof (intro allI impI)
  fix f v body and sub :: sub_render and s1 s2
  assume a: "\<forall>t u1 u2. st_rel demo u1 u2 \<longrightarrow> res_rel demo ps (views (fst u1)) (sub (Str t) u1) (sub (Str t) u2)"
    and "st_rel demo s1 s2"
  then have "res_rel demo ps (views (fst s1)) (sub (Str body) s1) (sub (Str body) s2)" by blast
  then show "res_rel demo ps (views (fst s1)) (m_section demo f v body sub s1) (m_section demo f v body sub s2)"
    by (cases rule: res_relE) (auto simp: demo_def wrap_section_def res_rel_lax)
qed

text \<open>A loader that knows one partial.\<close>

definition demo_partials :: partials where
  "demo_partials = PFun (\<lambda>name. if name = ''p'' then Str ''[{{x}}]'' else Undefined)"

lemma demo_partials_text: "text_partials demo demo_partials" "partials_ok demo demo_partials"
  by (simp_all add: text_partials_def partials_ok_def demo_partials_def partial_value_def nullish_def)

theorem render_cache_transparent_witness:
  "(\<exists>w1. mustache_render demo demo_partials 9 (Str ''{{>p}}'') (Obj [(''x'', Str ''<1>'')])
      [(''[{{x}}]'', [NTok \<lparr>t_type = Text, t_value = ''['', t_start = 0, t_end = 1\<rparr>,
         NTok \<lparr>t_type = Name, t_value = ''x'', t_start = 1, t_end = 6\<rparr>,
         NTok \<lparr>t_type = Text, t_value = '']'', t_start = 6, t_end = 7\<rparr>])] =
      Inr (''[&lt;1&gt;]'', w1) \<and> wcache_ok demo w1) \<and> text_partials demo demo_partials"
proof -
  let ?w = "[(''[{{x}}]'', [NTok \<lparr>t_type = Text, t_value = ''['', t_start = 0, t_end = 1\<rparr>,
         NTok \<lparr>t_type = Name, t_value = ''x'', t_start = 1, t_end = 6\<rparr>,
         NTok \<lparr>t_type = Text, t_value = '']'', t_start = 6, t_end = 7\<rparr>])]"
  have "parseTemplate ''[{{x}}]'' (m_tags demo) = Inr (snd (hd ?w))" by code_simp
  moreover have "inherited [] ''[{{x}}]'' = Undefined" by code_simp
  ultimately have "wcache_ok demo ?w" by (simp add: wcache_ok_def)
  moreover have "\<exists>w2. mustache_render demo demo_partials 9 (Str ''{{>p}}'') (Obj [(''x'', Str ''<1>'')]) [] =
      Inr (''[&lt;1&gt;]'', w2)"
    by (rule exI [where x = "snd (projr (mustache_render demo demo_partials 9 (Str ''{{>p}}'') (Obj [(''x'', Str ''<1>'')]) []))"]) code_simp
  ultimately show ?thesis
    using render_cache_transparent [of demo ?w demo_partials 9 "''{{>p}}''" "Obj [(''x'', Str ''<1>'')]"]
      demo_sections [of demo_partials] demo_partials_text by auto
qed

text \<open>
  What the condition on partials excludes: a partial that is \<open>false\<close> leaves an empty parse under
  the key \<open>"false"\<close>, and the template \<open>false\<close> renders to nothing from then on.  A partial that is a
  number throws from an empty cache and renders once its text has been cached as a template.
\<close>

definition partial_is :: "jsval \<Rightarrow> partials" where
  "partial_is v = PFun (\<lambda>name. v)"

theorem false_partial_poisons:
  "mustache_render demo (partial_is (Bool False)) 9 (Str ''{{>p}}'') Null [] =
     Inr ([], [(''{{>p}}'', [NTok \<lparr>t_type = Partial, t_value = ''p'', t_start = 0, t_end = 6\<rparr>]), (''false'', [])]) \<and>
   mustache_render demo NoPartials 9 (Str ''false'') Null [(''false'', [])] = Inr ([], [(''false'', [])]) \<and>
   map_sum id fst (mustache_render demo NoPartials 9 (Str ''false'') Null []) = Inr ''false''"
  by (intro conjI; code_simp)

theorem number_partial_needs_cache:
  "mustache_render demo (partial_is (Num (Fin 5))) 9 (Str ''{{>p}}'') Null [] = Inl MTypeError \<and>
   map_sum id fst (mustache_render demo (partial_is (Num (Fin 5))) 9 (Str ''{{>p}}'') Null
     [(''5'', [NTok \<lparr>t_type = Text, t_value = ''5'', t_start = 0, t_end = 1\<rparr>])]) = Inr ''5''"
  by (intro conjI; code_simp)

text \<open>
  The cache key of \<open>Writer.parse\<close> is the template text alone: a template parsed under its own
  tags is later rendered with those tags although the current ones read it as plain text.
\<close>

theorem parse_ignores_tags:
  "\<exists>w. mustache_parse demo (Str ''<x>'') (Some (Arr [Str ''<'', Str ''>''])) [] =
        Inr (PTokens [NTok \<lparr>t_type = Name, t_value = ''x'', t_start = 0, t_end = 3\<rparr>], w) \<and>
     map_sum id fst (mustache_render demo NoPartials 9 (Str ''<x>'') (Obj [(''x'', Str ''7'')]) w) = Inr ''7'' \<and>
     map_sum id fst (mustache_render demo NoPartials 9 (Str ''<x>'') (Obj [(''x'', Str ''7'')]) []) = Inr ''<x>''"
proof (intro exI conjI)
  show "mustache_parse demo (Str ''<x>'') (Some (Arr [Str ''<'', Str ''>''])) [] =
        Inr (PTokens [NTok \<lparr>t_type = Name, t_value = ''x'', t_start = 0, t_end = 3\<rparr>],
             [(''<x>'', [NTok \<lparr>t_type = Name, t_value = ''x'', t_start = 0, t_end = 3\<rparr>])])"
    by code_simp
  show "map_sum id fst (mustache_render demo NoPartials 9 (Str ''<x>'') (Obj [(''x'', Str ''7'')])
     [(''<x>'', [NTok \<lparr>t_type = Name, t_value = ''x'', t_start = 0, t_end = 3\<rparr>])]) = Inr ''7''"
    by code_simp
  show "map_sum id fst (mustache_render demo NoPartials 9 (Str ''<x>'') (Obj [(''x'', Str ''7'')]) []) = Inr ''<x>''"
    by code_simp
qed

end
