(* ===== verification/Columns.thy ===== *)
theory Columns
  imports JQ_Core Mustache_Writer
begin

text \<open>
  The table plugin \<open>jquery.columns.js\<close>: the widget's fields as a record, and each of its methods
  as a function on it. A method that throws returns an error. Rendering goes through the
  template engine with its cache of parsed templates, which is threaded through. What the page
  shows is a log of the DOM calls the widget makes.
\<close>

section \<open>State\<close>

record column =
  col_key :: string
  col_header :: jsval
  col_hide :: bool
  col_template :: "string option"
  col_condition :: "(jsval \<Rightarrow> bool) option"

datatype dom_op =
    AddClass string
  | SetHtml string
  | RemoveTable
  | AppendHtml string
  | EmptyElement

record columns =
  data :: "jsval list"
  master :: "jsval list"
  schema :: "column list option"
  searchableFields :: "string list option"
  sortableFields :: "string list option"
  sortBy :: jsval
  reverse :: bool
  query :: jsval
  page :: jsnum
  pages :: jsnum
  page_size :: jsnum
  total :: jsval
  row_range :: "(jsnum \<times> jsval) option"
  thead :: "jsval option"
  rows :: "string list"
  showRows :: "jsnum list"
  showRowsMenu :: string
  view :: jsval
  search :: bool
  table :: bool
  liveSearch :: bool
  evenRowClass :: string
  oddRowClass :: string
  template :: string
  templateFile :: "string option"
  plugins :: "string list option"
  conditioning :: bool
  paginating :: bool
  searching :: bool
  sorting :: bool
  dom :: "dom_op list"

datatype cerror =
    CTypeError
  | CSyntaxError
  | CUnsupported            \<comment> \<open>a pattern outside the modelled regular expressions\<close>
  | CRender merror
  | CError string

text \<open>
  What the widget does not define itself: the template engine with its fuel, the number
  \<open>Date.parse(new Date(s))\<close> yields, the registered plugins (their \<open>init\<close> and \<open>create\<close>
  functions) and the synchronous request for a template file.
\<close>

record col_env =
  e_mustache :: mustache
  e_fuel :: nat
  e_date :: "string \<Rightarrow> jsnum"
  e_plugin :: "string \<Rightarrow> ((columns \<Rightarrow> columns) \<times> (columns \<Rightarrow> columns)) option"
  e_fetch :: "string \<Rightarrow> string option"

abbreviation e_host :: "col_env \<Rightarrow> host" where
  "e_host env \<equiv> m_host (e_mustache env)"

section \<open>Sorting\<close>

definition date_pattern :: string where
  "date_pattern =
     ''^(Jan|January|Feb|February|Mar|March|Apr|April|May|Jun|June|Jul|July|Aug|August|Sep|September|Oct|October|Nov|November|Dec|December|(0?'' @
     backslash @ ''d{1})|(10|11|12))(-|'' @ backslash @ ''s|'' @ backslash @ ''/|'' @ backslash @ ''.)(0?[1-9]|(1|2)[0-9]|3(0|1))(-|'' @
     backslash @ ''s|'' @ backslash @ ''/|'' @ backslash @ ''.|,'' @ backslash @ ''s)(19|20)?'' @ backslash @ ''d'' @ backslash @ ''d$''"

definition is_date :: "col_env \<Rightarrow> jsval \<Rightarrow> bool" where
  "is_date env v = re_test True (re_of date_pattern) (tostr (e_host env) v)"

text \<open>The comparator: dates by time when both values are dates, else the values themselves.\<close>

definition sort_keys :: "col_env \<Rightarrow> jsval \<Rightarrow> jsval \<Rightarrow> jsval \<times> jsval" where
  "sort_keys env a b =
     (if is_date env a \<and> is_date env b
      then (Num (e_date env (tostr (e_host env) a)), Num (e_date env (tostr (e_host env) b)))
      else (a, b))"

definition objectSort :: "col_env \<Rightarrow> bool \<Rightarrow> jsval \<Rightarrow> jsval \<Rightarrow> int" where
  "objectSort env rev_dir x y =
     (let r = (if rev_dir then -1 else 1); (a, b) = sort_keys env x y
      in if js_less (e_host env) a b then r * -1
         else if js_less (e_host env) b a then r * 1
         else 0)"

text \<open>\<open>row[field]\<close>; reading a field of \<open>null\<close> throws.\<close>

definition field :: "col_env \<Rightarrow> string \<Rightarrow> jsval \<Rightarrow> jsval" where
  "field env k row = (case getprop (e_host env) row k of Some v \<Rightarrow> v | None \<Rightarrow> Undefined)"

text \<open>
  \<open>Array.prototype.sort\<close>: stable, with undefined elements last and never compared; comparing a
  \<open>null\<close> row throws.
\<close>

definition sort_rows :: "col_env \<Rightarrow> string \<Rightarrow> bool \<Rightarrow> jsval list \<Rightarrow> cerror + jsval list" where
  "sort_rows env k rev_dir rs =
     (let ds = filter (\<lambda>r. r \<noteq> Undefined) rs
      in if 2 \<le> length ds \<and> Null \<in> set ds then Inl CTypeError
         else Inr (sort_by (\<lambda>x y. objectSort env rev_dir (field env k x) (field env k y) < 0) ds @
                   filter (\<lambda>r. r = Undefined) rs))"

definition sort_data :: "col_env \<Rightarrow> columns \<Rightarrow> cerror + columns" where
  "sort_data env this =
     (if truthy (total this) \<and> truthy (sortBy this) then
        (let k = tostr (e_host env) (sortBy this)
         in case data this of
           [] \<Rightarrow> Inl CTypeError
         | r # _ \<Rightarrow>
             (case getprop (e_host env) r k of
                None \<Rightarrow> Inl CTypeError
              | Some v \<Rightarrow>
                  if v \<noteq> Undefined then
                    (case sort_rows env k (reverse this) (data this) of
                       Inl e \<Rightarrow> Inl e
                     | Inr ds \<Rightarrow> Inr (this\<lparr>data := ds\<rparr>))
                  else Inr this))
      else Inr this)"

section \<open>Filtering\<close>

text \<open>Does one value match the query: a string by the pattern, a number by loose equality.\<close>

definition value_matches :: "host \<Rightarrow> re \<Rightarrow> jsval \<Rightarrow> jsval \<Rightarrow> bool" where
  "value_matches h r q v =
     (case v of
        Str s \<Rightarrow> re_test True r s
      | Num n \<Rightarrow> num_eq n (prim_num (to_prim h q))
      | _ \<Rightarrow> False)"

definition row_matches :: "host \<Rightarrow> re \<Rightarrow> jsval \<Rightarrow> string list \<Rightarrow> jsval \<Rightarrow> bool" where
  "row_matches h r q fs row =
     list_ex (\<lambda>k. case getprop h row k of Some v \<Rightarrow> value_matches h r q v | None \<Rightarrow> False) fs"

definition filter_data :: "host \<Rightarrow> jsval \<Rightarrow> string list \<Rightarrow> jsval list \<Rightarrow> cerror + jsval list" where
  "filter_data h q fs rs =
     (if truthy q then
        (case RegExp (tostr h q) of
           Inl SyntaxError \<Rightarrow> Inl CSyntaxError
         | Inl Unsupported \<Rightarrow> Inl CUnsupported
         | Inr r \<Rightarrow>
             if fs \<noteq> [] \<and> list_ex nullish rs then Inl CTypeError
             else Inr (grep rs (\<lambda>row _. row_matches h r q fs row) False))
      else Inr rs)"

definition filter_rows :: "col_env \<Rightarrow> columns \<Rightarrow> cerror + columns" where
  "filter_rows env this =
     (case searchableFields this of
        None \<Rightarrow> Inl CTypeError
      | Some fs \<Rightarrow>
          (case filter_data (e_host env) (query this) fs (data this) of
             Inl e \<Rightarrow> Inl e
           | Inr ds \<Rightarrow> Inr (this\<lparr>data := ds, total := Num (Fin (int (length ds)))\<rparr>)))"

section \<open>Pages\<close>

definition pageExists :: "columns \<Rightarrow> jsnum \<Rightarrow> bool" where
  "pageExists this p \<longleftrightarrow> num_less (Fin 0) p \<and> num_le p (pages this)"

text \<open>\<open>total\<close> is any value (\<open>setTotal\<close>): it is compared and passed to \<open>slice\<close> as the number it converts to.\<close>

definition setRange :: "host \<Rightarrow> columns \<Rightarrow> columns" where
  "setRange h this =
     (let start = num_mul (num_sub (page this) (Fin 1)) (page_size this);
          next = num_add start (page_size this);
          below = js_less h (Num next) (total this)
      in this\<lparr>row_range := Some (num_add start (Fin 1), if below then Num next else total this)\<rparr>)"

text \<open>The arguments of \<open>slice\<close>: \<open>undefined\<close> is the end, \<open>NaN\<close> is zero.\<close>

definition slice_start :: "nat \<Rightarrow> jsnum \<Rightarrow> int" where
  "slice_start len n = (case n of Fin i \<Rightarrow> i | NaN \<Rightarrow> 0 | PosInf \<Rightarrow> int len | NegInf \<Rightarrow> - int len)"

definition slice_rows :: "host \<Rightarrow> jsval list \<Rightarrow> jsnum \<Rightarrow> jsval \<Rightarrow> jsval list" where
  "slice_rows h rs a b =
     js_slice rs (slice_start (length rs) a)
       (if b = Undefined then None else Some (slice_start (length rs) (prim_num (to_prim h b))))"

definition paginate :: "host \<Rightarrow> columns \<Rightarrow> columns" where
  "paginate h this =
     (let this1 = this\<lparr>pages := num_ceil_div (Fin (int (length (data this)))) (page_size this)\<rparr>;
          this2 = this1\<lparr>page := (if num_le (page this1) (pages this1) then page this1 else Fin 1)\<rparr>;
          this3 = setRange h this2
      in case row_range this3 of
           None \<Rightarrow> this3
         | Some (start, end') \<Rightarrow>
             this3\<lparr>data := slice_rows h (data this3) (num_sub start (Fin 1)) end'\<rparr>)"

section \<open>Conditions\<close>

text \<open>One row against the schema: the projected row, or nothing when a condition fails.\<close>

fun project_row :: "host \<Rightarrow> column list \<Rightarrow> jsval \<Rightarrow> (string \<times> jsval) list \<Rightarrow> cerror + jsval option" where
  "project_row h [] row temp = Inr (Some (Obj temp))"
| "project_row h (val # cols) row temp =
     (case getprop h row (col_key val) of
        None \<Rightarrow> Inl CTypeError
      | Some v \<Rightarrow>
          (if (case col_condition val of Some c \<Rightarrow> \<not> c v | None \<Rightarrow> False) then Inr None
           else project_row h cols row (assoc_set (col_key val) v temp)))"

fun condition_rows :: "host \<Rightarrow> column list \<Rightarrow> jsval list \<Rightarrow> cerror + jsval list" where
  "condition_rows h cols [] = Inr []"
| "condition_rows h cols (row # rs) =
     (case project_row h cols row [] of
        Inl e \<Rightarrow> Inl e
      | Inr temp \<Rightarrow>
          (case condition_rows h cols rs of
             Inl e \<Rightarrow> Inl e
           | Inr out \<Rightarrow> Inr (case temp of Some t \<Rightarrow> t # out | None \<Rightarrow> out)))"

definition condition :: "col_env \<Rightarrow> columns \<Rightarrow> cerror + columns" where
  "condition env this =
     (case schema this of
        None \<Rightarrow> Inr this
      | Some cols \<Rightarrow>
          (case condition_rows (e_host env) cols (data this) of
             Inl e \<Rightarrow> Inl e
           | Inr ds \<Rightarrow> Inr (this\<lparr>data := ds\<rparr>)))"

section \<open>Building the table\<close>

definition chevron :: "col_env \<Rightarrow> string \<Rightarrow> jsval \<Rightarrow> wcache \<Rightarrow> cerror + string \<times> wcache" where
  "chevron env tmpl v w =
     (case mustache_render (e_mustache env) NoPartials (e_fuel env) (Str tmpl) v w of
        Inl e \<Rightarrow> Inl (CRender e)
      | Inr r \<Rightarrow> Inr r)"

definition header_cell :: "columns \<Rightarrow> column \<Rightarrow> jsval" where
  "header_cell this col =
     Obj ((if inArray (col_key col) (sortableFields this) 0 = -1 then [(''notSortable'', Bool True)]
           else if sortBy this = Str (col_key col) then
             (if reverse this then [(''sortedDown'', Bool True)] else [(''sortedUp'', Bool True)])
           else [(''sortable'', Bool True)]) @
          [(''key'', Str (col_key col)), (''header'', col_header col)])"

abbreviation schema_cols :: "columns \<Rightarrow> column list" where
  "schema_cols this \<equiv> (case schema this of Some cols \<Rightarrow> cols | None \<Rightarrow> [])"

definition buildThead :: "columns \<Rightarrow> columns" where
  "buildThead this =
     this\<lparr>thead := Some (Arr (map (header_cell this) (filter (\<lambda>col. \<not> col_hide col) (schema_cols this))))\<rparr>"

fun build_cells :: "col_env \<Rightarrow> column list \<Rightarrow> jsval \<Rightarrow> wcache \<Rightarrow> cerror + string \<times> wcache" where
  "build_cells env [] row w = Inr ([], w)"
| "build_cells env (col # cols) row w =
     (if col_hide col then build_cells env cols row w
      else
        let cell =
          (case col_template col of
             Some t \<Rightarrow> chevron env t row w
           | None \<Rightarrow>
               (case getprop (e_host env) row (col_key col) of
                  None \<Rightarrow> Inl CTypeError
                | Some v \<Rightarrow> Inr (tostr (e_host env) v, w)))
        in case cell of
             Inl e \<Rightarrow> Inl e
           | Inr (s, w1) \<Rightarrow>
               (case build_cells env cols row w1 of
                  Inl e \<Rightarrow> Inl e
                | Inr (rest, w2) \<Rightarrow> Inr (''<td>'' @ s @ ''</td>'' @ rest, w2)))"

definition quoted :: "string \<Rightarrow> string" where
  "quoted s = [CHR 0x22] @ s @ [CHR 0x22]"

definition buildRows :: "col_env \<Rightarrow> columns \<Rightarrow> nat \<Rightarrow> jsval \<Rightarrow> wcache \<Rightarrow> cerror + string \<times> wcache" where
  "buildRows env this key row w =
     (case build_cells env (schema_cols this) row w of
        Inl e \<Rightarrow> Inl e
      | Inr (cells, w') \<Rightarrow>
          Inr (''<tr data-columns-row-id='' @ quoted (nat_str key) @ '' class='' @
               quoted (if key mod 2 = 0 then evenRowClass this else oddRowClass this) @ ''>'' @
               cells @ ''</tr>'', w'))"

fun build_all :: "col_env \<Rightarrow> columns \<Rightarrow> nat \<Rightarrow> jsval list \<Rightarrow> wcache \<Rightarrow> cerror + string list \<times> wcache" where
  "build_all env this key [] w = Inr ([], w)"
| "build_all env this key (row # rs) w =
     (case buildRows env this key row w of
        Inl e \<Rightarrow> Inl e
      | Inr (s, w1) \<Rightarrow>
          (case build_all env this (key + 1) rs w1 of
             Inl e \<Rightarrow> Inl e
           | Inr (ss, w2) \<Rightarrow> Inr (s # ss, w2)))"

text \<open>The head is rebuilt with the first row only, so a table without rows keeps the old head.\<close>

definition buildTable :: "col_env \<Rightarrow> columns \<Rightarrow> wcache \<Rightarrow> cerror + columns \<times> wcache" where
  "buildTable env this w =
     (if truthy (total this) then
        (let this1 = (if data this = [] then this else buildThead this)
         in case build_all env this1 0 (data this) w of
              Inl e \<Rightarrow> Inl e
            | Inr (rs, w') \<Rightarrow> Inr (this1\<lparr>rows := rs\<rparr>, w'))
      else case schema this of
        None \<Rightarrow> Inl CTypeError
      | Some cols \<Rightarrow>
          Inr (this\<lparr>rows := [''<tr class='' @ quoted (evenRowClass this) @ ''><td colspan='' @
                 quoted (nat_str (length cols)) @ ''><em>No Results</em></td>'']\<rparr>, w))"

definition buildShowRowsMenu :: "columns \<Rightarrow> columns" where
  "buildShowRowsMenu this =
     this\<lparr>showRowsMenu :=
       ''<select>'' @
       concat (map (\<lambda>v. ''<option value='' @ quoted (num_str v) @
           (if num_eq v (page_size this) then ''selected='' @ quoted ''selected'' else []) @
           ''>'' @ num_str v @ ''</option>'') (showRows this)) @
       ''</select>''\<rparr>"

section \<open>Creating the table\<close>

definition resetData :: "columns \<Rightarrow> columns" where
  "resetData this = this\<lparr>data := js_slice (master this) 0 None\<rparr>"

definition range_value :: "(jsnum \<times> jsval) option \<Rightarrow> jsval" where
  "range_value r = (case r of None \<Rightarrow> Undefined | Some (a, b) \<Rightarrow> Obj [(''start'', Num a), (''end'', b)])"

definition table_view :: "columns \<Rightarrow> jsval" where
  "table_view this =
     Obj [(''prevPage'', Num (num_sub (page this) (Fin 1))),
          (''nextPage'', Num (num_add (page this) (Fin 1))),
          (''prevPageExists'', Bool (pageExists this (num_sub (page this) (Fin 1)))),
          (''nextPageExists'', Bool (pageExists this (num_add (page this) (Fin 1)))),
          (''resultRange'', range_value (row_range this)),
          (''tableTotal'', total this),
          (''showRowsMenu'', Str (showRowsMenu this)),
          (''rows'', Arr (map Str (rows this))),
          (''headers'', case thead this of Some t \<Rightarrow> t | None \<Rightarrow> Undefined),
          (''query'', query this),
          (''search'', Bool (search this)),
          (''table'', Bool (table this))]"

definition run_plugins :: "(string \<Rightarrow> (columns \<Rightarrow> columns) option) \<Rightarrow> columns \<Rightarrow> columns" where
  "run_plugins hook this =
     (case plugins this of
        None \<Rightarrow> this
      | Some ps \<Rightarrow> fold (\<lambda>p t. case hook p of Some f \<Rightarrow> f t | None \<Rightarrow> t) ps this)"

text \<open>The first part of \<open>create\<close>: which rows are shown.\<close>

definition select_rows :: "col_env \<Rightarrow> columns \<Rightarrow> cerror + columns" where
  "select_rows env this =
     (let this0 = resetData this
      in case (if searching this0 then filter_rows env this0 else Inr this0) of
        Inl e \<Rightarrow> Inl e
      | Inr this1 \<Rightarrow>
          (case (if sorting this1 then sort_data env this1 else Inr this1) of
             Inl e \<Rightarrow> Inl e
           | Inr this2 \<Rightarrow> Inr (if paginating this2 then paginate (e_host env) this2 else this2)))"

text \<open>The last part of \<open>create\<close>: the view, the plugins and the page.\<close>

definition show_table :: "col_env \<Rightarrow> columns \<Rightarrow> wcache \<Rightarrow> cerror + columns \<times> wcache" where
  "show_table env this w =
     (let this1 = buildShowRowsMenu this;
          this2 = this1\<lparr>view := JQ_Core.extend False (view this1) [table_view this1]\<rparr>;
          this3 = run_plugins (\<lambda>p. map_option snd (e_plugin env p)) this2
      in case chevron env (template this3) (view this3) w of
           Inl e \<Rightarrow> Inl e
         | Inr (html, w') \<Rightarrow>
             Inr (if search this3
                  then this3\<lparr>dom := dom this3 @ [SetHtml html], search := False\<rparr>
                  else this3\<lparr>dom := dom this3 @ [RemoveTable, AppendHtml html]\<rparr>, w'))"

definition create :: "col_env \<Rightarrow> columns \<Rightarrow> wcache \<Rightarrow> cerror + columns \<times> wcache" where
  "create env this w =
     (case select_rows env this of
        Inl e \<Rightarrow> Inl e
      | Inr this1 \<Rightarrow>
          (case buildTable env this1 w of
             Inl e \<Rightarrow> Inl e
           | Inr (this2, w1) \<Rightarrow> show_table env this2 w1))"

section \<open>Initialisation\<close>

text \<open>The keys \<open>$.each\<close> visits in the first row; the key is a number for an array.\<close>

definition first_row_keys :: "host \<Rightarrow> columns \<Rightarrow> cerror + string list" where
  "first_row_keys h this =
     (case loop_items (case data this of r # _ \<Rightarrow> r | [] \<Rightarrow> Undefined) of
        None \<Rightarrow> Inl CTypeError
      | Some is \<Rightarrow> Inr (map (\<lambda>(k, _). tostr h k) is))"

definition buildSchema :: "host \<Rightarrow> columns \<Rightarrow> cerror + columns" where
  "buildSchema h this =
     (case first_row_keys h this of
        Inl e \<Rightarrow> Inl e
      | Inr ks \<Rightarrow> Inr (this\<lparr>schema := Some (map (\<lambda>k. \<lparr>col_key = k, col_header = Str k, col_hide = False,
            col_template = None, col_condition = None\<rparr>) ks)\<rparr>))"

definition buildSearchableFields :: "host \<Rightarrow> columns \<Rightarrow> cerror + columns" where
  "buildSearchableFields h this =
     (case first_row_keys h this of Inl e \<Rightarrow> Inl e | Inr ks \<Rightarrow> Inr (this\<lparr>searchableFields := Some ks\<rparr>))"

definition buildSortableFields :: "host \<Rightarrow> columns \<Rightarrow> cerror + columns" where
  "buildSortableFields h this =
     (case first_row_keys h this of Inl e \<Rightarrow> Inl e | Inr ks \<Rightarrow> Inr (this\<lparr>sortableFields := Some ks\<rparr>))"

definition getTemplateFile :: "col_env \<Rightarrow> string \<Rightarrow> columns \<Rightarrow> cerror + columns" where
  "getTemplateFile env url this =
     (case e_fetch env url of
        Some t \<Rightarrow> Inr (this\<lparr>template := t\<rparr>)
      | None \<Rightarrow> Inl (CError ''Template could not be found.''))"

definition bind_err :: "'e + 'a \<Rightarrow> ('a \<Rightarrow> 'e + 'b) \<Rightarrow> 'e + 'b" where
  "bind_err r f = (case r of Inl e \<Rightarrow> Inl e | Inr x \<Rightarrow> f x)"

text \<open>\<open>init\<close> up to the master copy, for data that is an array.\<close>

definition init_setup :: "col_env \<Rightarrow> jsval list \<Rightarrow> columns \<Rightarrow> cerror + columns" where
  "init_setup env ds this =
     (let h = e_host env
      in bind_err (let this1 = this\<lparr>data := ds, master := [], view := Obj [], dom := dom this @ [AddClass ''columns'']\<rparr>;
                       this2 = run_plugins (\<lambda>p. map_option fst (e_plugin env p)) this1
                   in if conditioning this2 then condition env this2 else Inr this2) (\<lambda>t3.
         bind_err (if Option.is_none (schema t3) then buildSchema h t3 else Inr t3) (\<lambda>t4.
         bind_err (if Option.is_none (searchableFields t4) then buildSearchableFields h t4 else Inr t4) (\<lambda>t5.
         bind_err (if Option.is_none (sortableFields t5) then buildSortableFields h t5 else Inr t5) (\<lambda>t6.
         case templateFile t6 of Some u \<Rightarrow> getTemplateFile env u t6 | None \<Rightarrow> Inr t6)))))"

text \<open>\<open>$.extend( $this.master, $this.data )\<close>.\<close>

definition master_copy :: "columns \<Rightarrow> jsval list option" where
  "master_copy this = (case JQ_Core.extend False (Arr (master this)) [Arr (data this)] of Arr ms \<Rightarrow> Some ms | _ \<Rightarrow> None)"

definition init :: "col_env \<Rightarrow> jsval \<Rightarrow> columns \<Rightarrow> wcache \<Rightarrow> cerror + columns \<times> wcache" where
  "init env opt_data this w =
     (case opt_data of
        Arr ds \<Rightarrow>
          bind_err (init_setup env ds this) (\<lambda>t7.
          case master_copy t7 of
            Some ms \<Rightarrow> create env (t7\<lparr>master := ms\<rparr>) w
          | None \<Rightarrow> Inl CTypeError)
      | _ \<Rightarrow> Inl (CError ''The data parameter must be an array.''))"

section \<open>Handlers and listeners\<close>

type_synonym col_result = "cerror + columns \<times> wcache"

definition pageHandler :: "col_env \<Rightarrow> columns \<Rightarrow> wcache \<Rightarrow> col_result" where
  "pageHandler env this w = create env this w"

text \<open>Without live search only the Enter key searches.\<close>

definition searchHandler :: "col_env \<Rightarrow> int \<Rightarrow> columns \<Rightarrow> wcache \<Rightarrow> col_result" where
  "searchHandler env keyCode this w =
     (if liveSearch this then create env this w
      else if keyCode = 13 then create env this w
      else Inr (this, w))"

definition sizeHandler :: "col_env \<Rightarrow> columns \<Rightarrow> wcache \<Rightarrow> col_result" where
  "sizeHandler env this w = create env this w"

definition sortHandler :: "col_env \<Rightarrow> columns \<Rightarrow> wcache \<Rightarrow> col_result" where
  "sortHandler env this w = create env (this\<lparr>page := Fin 1\<rparr>) w"

definition on_sort_click :: "col_env \<Rightarrow> jsval \<Rightarrow> columns \<Rightarrow> wcache \<Rightarrow> col_result" where
  "on_sort_click env k this w =
     (let this1 = (if sortBy this = k then this\<lparr>reverse := \<not> reverse this\<rparr> else this)
      in sortHandler env (this1\<lparr>sortBy := k\<rparr>) w)"

definition on_page_click :: "col_env \<Rightarrow> jsnum \<Rightarrow> columns \<Rightarrow> wcache \<Rightarrow> col_result" where
  "on_page_click env p this w = pageHandler env (this\<lparr>page := p\<rparr>) w"

definition on_search_keyup :: "col_env \<Rightarrow> string \<Rightarrow> int \<Rightarrow> columns \<Rightarrow> wcache \<Rightarrow> col_result" where
  "on_search_keyup env v keyCode this w = searchHandler env keyCode (this\<lparr>query := Str v\<rparr>) w"

definition on_size_change :: "col_env \<Rightarrow> string \<Rightarrow> columns \<Rightarrow> wcache \<Rightarrow> col_result" where
  "on_size_change env v this w = sizeHandler env (this\<lparr>page_size := parse_int v\<rparr>) w"

section \<open>The public interface\<close>

definition gotoPage :: "col_env \<Rightarrow> jsnum \<Rightarrow> columns \<Rightarrow> wcache \<Rightarrow> cerror + bool \<times> columns \<times> wcache" where
  "gotoPage env p this w =
     (if pageExists this p then
        (case create env (this\<lparr>page := p\<rparr>) w of Inl e \<Rightarrow> Inl e | Inr (t, w') \<Rightarrow> Inr (True, t, w'))
      else Inr (False, this, w))"

definition setPage :: "jsnum \<Rightarrow> columns \<Rightarrow> jsnum \<times> columns" where
  "setPage p this =
     (let this1 = this\<lparr>page := (if pageExists this p then p else page this)\<rparr> in (page this1, this1))"

definition setMaster :: "jsval \<Rightarrow> columns \<Rightarrow> bool \<times> columns" where
  "setMaster d this = (case d of Arr ds \<Rightarrow> (True, this\<lparr>master := ds\<rparr>) | _ \<Rightarrow> (False, this))"

definition setTotal :: "jsval \<Rightarrow> columns \<Rightarrow> bool \<times> columns" where
  "setTotal t this = (True, this\<lparr>total := t\<rparr>)"

definition destroy :: "columns \<Rightarrow> bool \<times> columns" where
  "destroy this = (True, this\<lparr>dom := dom this @ [EmptyElement]\<rparr>)"

definition getPage :: "columns \<Rightarrow> jsnum" where
  "getPage this = page this"

section \<open>The constructor and the plugin call\<close>

text \<open>The template of the prototype.\<close>

definition default_template :: string where
  \<open>default_template = concat
    [''<!-- Search Box: Only rendered while search is true --> {{#search}} <div class="ui-columns'',
     ''-search"> <input class="ui-table-search" placeholder="Search" type="text" name="query" dat'',
     ''a-columns-search="true" value="{{query}}" /> </div> {{/search}} <!-- Search Box: Only rend'',
     ''ered while search is true --> <!-- Columns Table: Only rendered while table is true --> {{'',
     ''#table}} <div class="ui-columns-table" data-columns-table="true"> <table class="ui-table">'',
     '' <!-- Columns Table Head: Headers have 4 possible states (sortable, notSortable, sortedUp,'',
     '' sortedDown) --> <thead> {{#headers}} {{#sortable}} <th class="ui-table-sortable" data-col'',
     ''umns-sortby="{{key}}">{{header}}</th> {{/sortable}} {{#notSortable}} <th class="">{{header'',
     ''}}</th> {{/notSortable}} {{#sortedUp}} <th class="ui-table-sort-up ui-table-sortable" data'',
     ''-columns-sortby="{{key}}">{{header}} <span class="ui-arrow">&#x25B2;</span></th> {{/sorted'',
     ''Up}} {{#sortedDown}} <th class="ui-table-sort-down ui-table-sortable" data-columns-sortby='',
     ''"{{key}}">{{header}} <span class="ui-arrow">&#x25BC;</span></th> {{/sortedDown}} {{/header'',
     ''s}} </thead> <!-- Columns Table Head: Headers have 4 possible states (sortable, notSortabl'',
     ''e, sortedUp, sortedDown) --> <!-- Columns Table Body: Table columns are rendered outside o'',
     ''f this template  --> <tbody> {{#rows}} {{{.}}} {{/rows}} </tbody> <!-- Columns Table Body:'',
     '' Table columns are rendered outside of this template  --> </table> <!-- Columns Controls  '',
     ''--> <div class="ui-table-footer"> <span class="ui-table-size">Show rows: {{{showRowsMenu}}'',
     ''}</span> <span class="ui-table-results">Results: <strong>{{resultRange.start}} &ndash; {{r'',
     ''esultRange.end}}</strong> of <strong>{{tableTotal}}</strong> </span> <span class="ui-table'',
     ''-controls"> {{#prevPageExists}} <span class="ui-table-control-prev" data-columns-page="{{p'',
     ''revPage}}"> <img src="images/arrow-left.png"> </span> {{/prevPageExists}} {{^prevPageExist'',
     ''s}} <span class="ui-table-control-disabled"> <img src="images/arrow-left.png"> </span> {{/'',
     ''prevPageExists}} {{#nextPageExists}} <span class="ui-table-control-next" data-columns-page'',
     ''="{{nextPage}}"> <img src="images/arrow-right.png"> </span> {{/nextPageExists}} {{^nextPag'',
     ''eExists}} <span class="ui-table-control-disabled"> <img src="images/arrow-right.png"> </sp'',
     ''an> {{/nextPageExists}} </span> </div> <!-- Columns Controls  --> </div> {{/table}} <!-- C'',
     ''olumns Table: Only rendered while table is true -->'']\<close>

text \<open>\<open>Columns.prototype\<close>: what a new instance has where the options say nothing.\<close>

definition columns_defaults :: columns where
  "columns_defaults =
     \<lparr>data = [], master = [], schema = None, searchableFields = None, sortableFields = None,
      sortBy = Null, reverse = False, query = Null, page = Fin 1, pages = Fin 1, page_size = Fin 5,
      total = Undefined, row_range = None, thead = None, rows = [],
      showRows = [Fin 5, Fin 10, Fin 25, Fin 50], showRowsMenu = [], view = Obj [], search = True,
      table = True, liveSearch = True, evenRowClass = ''ui-table-rows-even'',
      oddRowClass = ''ui-table-rows-odd'', template = default_template, templateFile = None,
      plugins = None, conditioning = True, paginating = True, searching = True, sorting = True,
      dom = []\<rparr>"

text \<open>
  \<open>$.fn.columns\<close> with a method name: the method is called on the instance of every element; an
  element without an instance or a method that is not a function is an error. What a method
  returns is collected unless it is undefined or the instance itself (\<open>None\<close>).
\<close>

type_synonym col_method = "columns \<Rightarrow> jsval option \<times> columns"

fun call_each :: "col_method option \<Rightarrow> columns option list \<Rightarrow> cerror + jsval list \<times> columns option list" where
  "call_each m [] = Inr ([], [])"
| "call_each m (i # is) =
     (case (i, m) of
        (Some inst, Some f) \<Rightarrow>
          (case f inst of
             (r, inst') \<Rightarrow>
               (case call_each m is of
                  Inl e \<Rightarrow> Inl e
                | Inr (vs, is') \<Rightarrow>
                    Inr (case r of Some v \<Rightarrow> if v = Undefined then vs else v # vs | None \<Rightarrow> vs, Some inst' # is')))
      | _ \<Rightarrow> Inl (CError ''No such method for Columns''))"

datatype col_return = Instance "columns option" | OneValue jsval | Values "jsval list"

definition fn_columns_call :: "col_method option \<Rightarrow> columns option list \<Rightarrow> cerror + col_return \<times> columns option list" where
  "fn_columns_call m is =
     (case call_each m is of
        Inl e \<Rightarrow> Inl e
      | Inr (vs, is') \<Rightarrow>
          Inr (case vs of
                 [] \<Rightarrow> Instance (case is' of i # _ \<Rightarrow> i | [] \<Rightarrow> None)
               | [v] \<Rightarrow> OneValue v
               | _ \<Rightarrow> Values vs, is'))"

text \<open>With options: an element that has no instance yet gets a new one.\<close>

fun fn_columns_new :: "col_env \<Rightarrow> jsval \<Rightarrow> columns \<Rightarrow> columns option list \<Rightarrow> wcache \<Rightarrow>
    cerror + columns option list \<times> wcache" where
  "fn_columns_new env opt_data opts [] w = Inr ([], w)"
| "fn_columns_new env opt_data opts (i # is) w =
     (case i of
        Some inst \<Rightarrow>
          (case fn_columns_new env opt_data opts is w of
             Inl e \<Rightarrow> Inl e | Inr (is', w') \<Rightarrow> Inr (i # is', w'))
      | None \<Rightarrow>
          (case init env opt_data opts w of
             Inl e \<Rightarrow> Inl e
           | Inr (inst, w1) \<Rightarrow>
               (case fn_columns_new env opt_data opts is w1 of
                  Inl e \<Rightarrow> Inl e | Inr (is', w2) \<Rightarrow> Inr (Some inst # is', w2))))"

end
