(* ===== verification/Columns_Props.thy ===== *)
theory Columns_Props
  imports Columns
begin

text \<open>
  What the table shows: the comparator is consistent on columns of one kind, so the sort is
  determined; a plain query selects the rows that contain it; the pages partition the selected
  rows; conditions project and select; and drawing the table leaves the master data as it is.
\<close>

section \<open>Sorting\<close>

text \<open>The rows whose value in a column is plain text, a number, or a date.\<close>

definition text_rows :: "col_env \<Rightarrow> string \<Rightarrow> jsval set" where
  "text_rows env k = {r. \<exists>s. field env k r = Str s \<and> \<not> is_date env (Str s)}"

definition number_rows :: "col_env \<Rightarrow> string \<Rightarrow> jsval set" where
  "number_rows env k = {r. \<exists>n. field env k r = Num n \<and> n \<noteq> NaN \<and> \<not> is_date env (Num n)}"

definition date_rows :: "col_env \<Rightarrow> string \<Rightarrow> jsval set" where
  "date_rows env k = {r. is_date env (field env k r) \<and> e_date env (tostr (e_host env) (field env k r)) \<noteq> NaN}"

abbreviation row_less :: "col_env \<Rightarrow> bool \<Rightarrow> string \<Rightarrow> jsval \<Rightarrow> jsval \<Rightarrow> bool" where
  "row_less env rd k \<equiv> (\<lambda>x y. objectSort env rd (field env k x) (field env k y) < 0)"

lemma objectSort_text:
  "x \<in> text_rows env k \<Longrightarrow> y \<in> text_rows env k \<Longrightarrow> \<exists>s t. field env k x = Str s \<and> field env k y = Str t \<and>
     (row_less env rd k x y \<longleftrightarrow> (if rd then str_less t s else str_less s t))"
  by (auto simp: text_rows_def objectSort_def sort_keys_def Let_def dest: str_less_asym)

lemma objectSort_number:
  "x \<in> number_rows env k \<Longrightarrow> y \<in> number_rows env k \<Longrightarrow> \<exists>m n. field env k x = Num m \<and> field env k y = Num n \<and>
     m \<noteq> NaN \<and> n \<noteq> NaN \<and> (row_less env rd k x y \<longleftrightarrow> (if rd then num_less n m else num_less m n))"
  by (auto simp: number_rows_def objectSort_def sort_keys_def Let_def dest: num_less_asym)

definition row_time :: "col_env \<Rightarrow> string \<Rightarrow> jsval \<Rightarrow> jsnum" where
  "row_time env k r = e_date env (tostr (e_host env) (field env k r))"

lemma objectSort_date:
  "x \<in> date_rows env k \<Longrightarrow> y \<in> date_rows env k \<Longrightarrow>
   row_less env rd k x y \<longleftrightarrow>
     (if rd then num_less (row_time env k y) (row_time env k x) else num_less (row_time env k x) (row_time env k y))"
  by (auto simp: date_rows_def objectSort_def sort_keys_def Let_def row_time_def dest: num_less_asym)

lemma str_less_neg_trans: "str_less s u \<Longrightarrow> str_less s t \<or> str_less t u"
  using str_less_linear str_less_trans by blast

lemma num_less_neg_trans: "num_less m k \<Longrightarrow> n \<noteq> NaN \<Longrightarrow> num_less m n \<or> num_less n k"
  by (cases m; cases n; cases k) auto

interpretation text_col: consistent_less "row_less env rd k" "text_rows env k" for env rd k
proof
  fix a b c assume A: "a \<in> text_rows env k" "b \<in> text_rows env k"
  show "row_less env rd k a b \<Longrightarrow> \<not> row_less env rd k b a"
    using objectSort_text [OF A, of rd] objectSort_text [OF A(2,1), of rd] str_less_asym
    by (auto split: if_splits)
  assume "c \<in> text_rows env k"
  then show "row_less env rd k a c \<Longrightarrow> row_less env rd k a b \<or> row_less env rd k b c"
    using objectSort_text [OF A, of rd] objectSort_text [OF A(1), of c rd] objectSort_text [OF A(2), of c rd]
      str_less_neg_trans by (fastforce split: if_splits)
qed

interpretation number_col: consistent_less "row_less env rd k" "number_rows env k" for env rd k
proof
  fix a b c assume A: "a \<in> number_rows env k" "b \<in> number_rows env k"
  show "row_less env rd k a b \<Longrightarrow> \<not> row_less env rd k b a"
    using objectSort_number [OF A, of rd] objectSort_number [OF A(2,1), of rd] num_less_asym
    by (auto split: if_splits)
  assume "c \<in> number_rows env k"
  then show "row_less env rd k a c \<Longrightarrow> row_less env rd k a b \<or> row_less env rd k b c"
    using objectSort_number [OF A, of rd] objectSort_number [OF A(1), of c rd] objectSort_number [OF A(2), of c rd]
      num_less_neg_trans by (fastforce split: if_splits)
qed

interpretation date_col: consistent_less "row_less env rd k" "date_rows env k" for env rd k
proof
  fix a b c assume A: "a \<in> date_rows env k" "b \<in> date_rows env k"
  show "row_less env rd k a b \<Longrightarrow> \<not> row_less env rd k b a"
    using objectSort_date [OF A, of rd] objectSort_date [OF A(2,1), of rd] num_less_asym
    by (auto split: if_splits)
  assume c: "c \<in> date_rows env k"
  have "row_time env k b \<noteq> NaN" using A by (simp add: date_rows_def row_time_def)
  then show "row_less env rd k a c \<Longrightarrow> row_less env rd k a b \<or> row_less env rd k b c"
    using objectSort_date [OF A, of rd] objectSort_date [OF A(1) c, of rd] objectSort_date [OF A(2) c, of rd]
      num_less_neg_trans by (fastforce split: if_splits)
qed

lemma undefined_not_date: "\<not> is_date env Undefined"
proof -
  have "re_test True (re_of date_pattern) ''undefined'' = False" by code_simp
  then show ?thesis by (simp add: is_date_def)
qed

text \<open>The comparator changes sign with its arguments, so a tie is symmetric.\<close>

lemma objectSort_swap: "objectSort env rd v u = - objectSort env rd u v"
  by (auto simp: objectSort_def sort_keys_def Let_def dest: js_less_asym num_less_asym)

lemma objectSort_tie:
  "objectSort env rd u v = 0 \<longleftrightarrow> \<not> objectSort env rd u v < 0 \<and> \<not> objectSort env rd v u < 0"
  using objectSort_swap [of env rd v u] by auto

text \<open>A column is of one kind when its values are all text, all numbers or all dates.\<close>

definition one_kind :: "col_env \<Rightarrow> string \<Rightarrow> jsval list \<Rightarrow> bool" where
  "one_kind env k rs \<longleftrightarrow>
     set rs \<subseteq> text_rows env k \<or> set rs \<subseteq> number_rows env k \<or> set rs \<subseteq> date_rows env k"

lemma one_kind_rows: "one_kind env k rs \<Longrightarrow> r \<in> set rs \<Longrightarrow> \<not> nullish r \<and> field env k r \<noteq> Undefined"
  using undefined_not_date [of env]
  by (auto simp: one_kind_def text_rows_def number_rows_def date_rows_def field_def nullish_def)

lemma one_kind_sort_rows:
  assumes "one_kind env k rs"
  shows "sort_rows env k rd rs = Inr (sort_by (row_less env rd k) rs)"
proof -
  have "\<not> nullish r" if "r \<in> set rs" for r using one_kind_rows [OF assms that] by simp
  then have "r \<noteq> Undefined \<and> r \<noteq> Null" if "r \<in> set rs" for r using that by (auto simp: nullish_def)
  then have "filter (\<lambda>r. r \<noteq> Undefined) rs = rs" "filter (\<lambda>r. r = Undefined) rs = []" "Null \<notin> set rs"
    by (auto simp: filter_id_conv filter_empty_conv)
  then show ?thesis by (simp add: sort_rows_def Let_def)
qed

text \<open>
  The order of the values of a column, said without the comparator: dates by their time, text
  character by character, numbers by size.  With \<open>reverse\<close> a column runs from the later values to
  the earlier ones.
\<close>

definition value_before :: "col_env \<Rightarrow> jsval \<Rightarrow> jsval \<Rightarrow> bool" where
  "value_before env u v =
     (if is_date env u \<and> is_date env v
      then num_less (e_date env (tostr (e_host env) u)) (e_date env (tostr (e_host env) v))
      else case (u, v) of
          (Str s, Str t) \<Rightarrow> str_less s t
        | (Num m, Num n) \<Rightarrow> num_less m n
        | _ \<Rightarrow> False)"

definition same_rank :: "col_env \<Rightarrow> jsval \<Rightarrow> jsval \<Rightarrow> bool" where
  "same_rank env u v \<longleftrightarrow> \<not> value_before env u v \<and> \<not> value_before env v u"

lemma one_kind_row_less:
  assumes "one_kind env k rs" and "x \<in> set rs" and "y \<in> set rs"
  shows "row_less env rd k x y \<longleftrightarrow>
    (if rd then value_before env (field env k y) (field env k x)
     else value_before env (field env k x) (field env k y))"
proof -
  consider "x \<in> text_rows env k" "y \<in> text_rows env k" | "x \<in> number_rows env k" "y \<in> number_rows env k"
    | "x \<in> date_rows env k" "y \<in> date_rows env k"
    using assms unfolding one_kind_def by blast
  then show ?thesis
  proof cases
    case 1
    then show ?thesis using objectSort_text [OF 1, of rd] by (auto simp: text_rows_def value_before_def)
  next
    case 2
    then show ?thesis using objectSort_number [OF 2, of rd] by (auto simp: number_rows_def value_before_def)
  next
    case 3
    then show ?thesis
      using objectSort_date [OF 3, of rd] by (auto simp: date_rows_def value_before_def row_time_def)
  qed
qed

text \<open>
  C1. Sorting a column of one kind (text, numbers or dates) succeeds and keeps every row.  The
  rows then run from the smallest to the largest value, and from the largest to the smallest when
  \<open>reverse\<close> is set; rows with equal values keep their old order in both directions.
\<close>

theorem sort_data_correct:
  assumes "one_kind env k (data c)" and "data c \<noteq> []" and "truthy (total c)"
    and "sortBy c = Str k" and "k \<noteq> []"
  shows "\<exists>ds. sort_data env c = Inr (c\<lparr>data := ds\<rparr>) \<and> mset ds = mset (data c) \<and>
    sorted_wrt (\<lambda>x y. if reverse c then \<not> value_before env (field env k x) (field env k y)
                     else \<not> value_before env (field env k y) (field env k x)) ds \<and>
    (\<forall>r \<in> set (data c).
       filter (\<lambda>a. same_rank env (field env k a) (field env k r)) ds =
       filter (\<lambda>a. same_rank env (field env k a) (field env k r)) (data c))"
proof -
  let ?lt = "row_less env (reverse c) k"
  let ?ds = "sort_by ?lt (data c)"
  note less = one_kind_row_less [OF assms(1), of _ _ "reverse c"]
  have "sorted_wrt (\<lambda>a b. \<not> ?lt b a) ?ds"
    using assms(1) text_col.sort_by_sorted number_col.sort_by_sorted date_col.sort_by_sorted
    unfolding one_kind_def by blast
  then have sorted: "sorted_wrt (\<lambda>x y. if reverse c then \<not> value_before env (field env k x) (field env k y)
                     else \<not> value_before env (field env k y) (field env k x)) ?ds"
    by (rule sorted_wrt_mono_rel [rotated]) (auto simp: less)
  have "filter (\<lambda>a. \<not> ?lt a r \<and> \<not> ?lt r a) ?ds = filter (\<lambda>a. \<not> ?lt a r \<and> \<not> ?lt r a) (data c)"
    if "r \<in> set (data c)" for r
    using assms(1) that text_col.sort_by_stable number_col.sort_by_stable date_col.sort_by_stable
    unfolding one_kind_def by blast
  moreover have "filter (\<lambda>a. \<not> ?lt a r \<and> \<not> ?lt r a) xs = filter (\<lambda>a. same_rank env (field env k a) (field env k r)) xs"
    if "r \<in> set (data c)" "set xs = set (data c)" for r xs
    using that by (intro filter_cong) (auto simp: less same_rank_def)
  ultimately have stable: "filter (\<lambda>a. same_rank env (field env k a) (field env k r)) ?ds =
      filter (\<lambda>a. same_rank env (field env k a) (field env k r)) (data c)" if "r \<in> set (data c)" for r
    using that by simp
  have first: "\<exists>v. getprop (e_host env) (hd (data c)) k = Some v \<and> v \<noteq> Undefined"
    using one_kind_rows [OF assms(1), of "hd (data c)"] assms(2)
    by (auto simp: field_def split: option.splits)
  have "sort_data env c = Inr (c\<lparr>data := ?ds\<rparr>)"
    using first assms one_kind_sort_rows [OF assms(1)] by (cases "data c") (auto simp: sort_data_def)
  moreover have "mset ?ds = mset (data c)" by simp
  ultimately show ?thesis using sorted stable by blast
qed

definition demo_env :: col_env where
  "demo_env = \<lparr>e_mustache = \<lparr>m_host = \<lparr>fn_call = (\<lambda>f v. v), fn_str = (\<lambda>f. []), fn_prop = (\<lambda>f k. Undefined)\<rparr>,
       m_tags = Arr [Str ''{{'', Str ''}}''], m_escape = (\<lambda>v. []), m_section = (\<lambda>f v b sub st. Inr (Undefined, st))\<rparr>,
     e_fuel = 9, e_date = (\<lambda>s. Fin 0), e_plugin = (\<lambda>p. None), e_fetch = (\<lambda>u. None)\<rparr>"

definition demo_rows :: "jsval list" where
  "demo_rows = [Obj [(''n'', Str ''b'')], Obj [(''n'', Str ''a'')], Obj [(''n'', Str ''b'')]]"

lemma demo_one_kind: "one_kind demo_env ''n'' demo_rows"
proof -
  have "is_date demo_env (Str ''a'') = False" "is_date demo_env (Str ''b'') = False" by code_simp+
  then show ?thesis by (auto simp: one_kind_def demo_rows_def text_rows_def field_def)
qed

definition demo_cols :: columns where
  "demo_cols = columns_defaults\<lparr>data := demo_rows, master := demo_rows, total := Num (Fin 3), sortBy := Str ''n''\<rparr>"

lemma demo_cols_simps [simp]:
  "data demo_cols = demo_rows" "total demo_cols = Num (Fin 3)" "sortBy demo_cols = Str ''n''"
  "reverse demo_cols = False" "demo_rows \<noteq> []"
  by (simp_all add: demo_cols_def demo_rows_def columns_defaults_def)

text \<open>The hypotheses at one table, sorted both ways.\<close>

lemma demo_order:
  "\<not> is_date demo_env (Str ''a'')" "\<not> is_date demo_env (Str ''b'')"
  "str_less ''a'' ''b''" "\<not> str_less ''b'' ''a''" "\<not> str_less ''b'' ''b''"
  by code_simp+

lemma demo_sorted:
  assumes "mset ds = mset demo_rows"
  shows "ds \<in> {[Obj [(''n'', Str ''a'')], Obj [(''n'', Str ''b'')], Obj [(''n'', Str ''b'')]],
     [Obj [(''n'', Str ''b'')], Obj [(''n'', Str ''a'')], Obj [(''n'', Str ''b'')]],
     [Obj [(''n'', Str ''b'')], Obj [(''n'', Str ''b'')], Obj [(''n'', Str ''a'')]]}"
proof -
  have "length ds = 3" using mset_eq_length [OF assms] by (simp add: demo_rows_def)
  then obtain x y z where ds: "ds = [x, y, z]" by (auto simp: numeral_eq_Suc length_Suc_conv)
  then show ?thesis using assms by (auto simp: demo_rows_def add_eq_conv_ex)
qed

theorem sort_data_correct_witness:
  "sort_data demo_env demo_cols = Inr (demo_cols\<lparr>data :=
     [Obj [(''n'', Str ''a'')], Obj [(''n'', Str ''b'')], Obj [(''n'', Str ''b'')]]\<rparr>) \<and>
   sort_data demo_env (demo_cols\<lparr>reverse := True\<rparr>) = Inr (demo_cols\<lparr>reverse := True, data :=
     [Obj [(''n'', Str ''b'')], Obj [(''n'', Str ''b'')], Obj [(''n'', Str ''a'')]]\<rparr>)"
  using sort_data_correct [of demo_env "''n''" demo_cols] sort_data_correct [of demo_env "''n''" "demo_cols\<lparr>reverse := True\<rparr>"]
    demo_one_kind demo_order
  by (auto dest!: demo_sorted simp: value_before_def field_def)

section \<open>Searching\<close>

text \<open>
  A row that a plain query finds: one of the searchable fields is a string that contains the query
  regardless of case, or a number equal to the number the query spells.
\<close>

definition contains_query :: "host \<Rightarrow> string \<Rightarrow> string list \<Rightarrow> jsval \<Rightarrow> bool" where
  "contains_query h q fs row =
     list_ex (\<lambda>k. case getprop h row k of
         Some (Str s) \<Rightarrow> sublist (to_lower q) (to_lower s)
       | Some (Num n) \<Rightarrow> num_eq n (str_to_num q)
       | _ \<Rightarrow> False) fs"

text \<open>
  C29. For a query without regular-expression syntax, \<open>filter\<close> keeps, in order, exactly the rows in
  which some searchable string field contains the query regardless of case or some searchable
  number equals the number the query spells (in decimal, hexadecimal, octal or binary), and
  \<open>total\<close> is their number.
\<close>

theorem filter_rows_plain:
  assumes "set q \<inter> set re_syntax = {}" and "q \<noteq> []" and "query c = Str q"
    and "searchableFields c = Some fs" and "\<forall>r \<in> set (data c). \<not> nullish r"
  shows "filter_rows env c =
    Inr (c\<lparr>data := filter (contains_query (e_host env) q fs) (data c),
          total := Num (Fin (int (length (filter (contains_query (e_host env) q fs) (data c)))))\<rparr>)"
proof -
  have "\<not> list_ex nullish (data c)" using assms(5) by (simp add: list_ex_iff)
  moreover have "row_matches (e_host env) (lit_re q Eps) (Str q) fs = contains_query (e_host env) q fs"
    by (intro ext) (auto simp: row_matches_def contains_query_def value_matches_def re_test_lit_ic to_prim_def
        intro!: list_ex_cong split: option.split jsval.split)
  ultimately have "filter_data (e_host env) (Str q) fs (data c) = Inr (filter (contains_query (e_host env) q fs) (data c))"
    using assms(2) by (simp add: filter_data_def RegExp_plain [OF assms(1)] grep_filter)
  with assms(3,4) show ?thesis by (simp add: filter_rows_def)
qed

definition mixed_rows :: "jsval list" where
  "mixed_rows = [Obj [(''n'', Str ''is 0X1f'')], Obj [(''n'', Num (Fin 3))], Obj [(''n'', Num (Fin 31))]]"

theorem filter_rows_plain_witness:
  "filter_rows demo_env (demo_cols\<lparr>data := mixed_rows, query := Str ''0x1F'', searchableFields := Some [''n'']\<rparr>) =
    Inr (demo_cols\<lparr>query := Str ''0x1F'', searchableFields := Some [''n''],
       data := [Obj [(''n'', Str ''is 0X1f'')], Obj [(''n'', Num (Fin 31))]], total := Num (Fin 2)\<rparr>)"
proof -
  let ?c = "demo_cols\<lparr>data := mixed_rows, query := Str ''0x1F'', searchableFields := Some [''n'']\<rparr>"
  have r: "set ''0x1F'' \<inter> set re_syntax = {}" by (simp add: re_syntax_def)
  have n: "\<forall>r \<in> set (data ?c). \<not> nullish r" by (simp add: mixed_rows_def)
  have f: "filter (contains_query (e_host demo_env) ''0x1F'' [''n'']) mixed_rows =
      [Obj [(''n'', Str ''is 0X1f'')], Obj [(''n'', Num (Fin 31))]]"
    by code_simp
  show ?thesis using filter_rows_plain [of "''0x1F''" ?c "[''n'']" demo_env, OF r _ _ _ n] f by simp
qed

text \<open>
  The query is compiled as a regular expression, so it is not the literal text its
  documentation speaks of: a single opening parenthesis makes \<open>create\<close> throw, and a dot in the
  query matches any character.
\<close>

theorem filter_query_is_pattern:
  "filter_data h (Str ''('') fs rs = Inl CSyntaxError \<and>
   filter_data h (Str ''a.c'') [''n''] [Obj [(''n'', Str ''abc'')]] = Inr [Obj [(''n'', Str ''abc'')]]"
proof -
  have s: "RegExp ''('' = Inl SyntaxError" by code_simp
  have "\<exists>r. RegExp ''a.c'' = Inr r \<and> re_test True r ''abc''"
    by (rule exI [where x = "case RegExp ''a.c'' of Inr r \<Rightarrow> r"]) code_simp
  then show ?thesis
    using s by (auto simp: filter_data_def grep_filter row_matches_def value_matches_def)
qed

section \<open>Pages\<close>

text \<open>The page \<open>paginate\<close> shows: the current one, or the first when it is past the last.\<close>

definition shown_page :: "int \<Rightarrow> int \<Rightarrow> int \<Rightarrow> int" where
  "shown_page n s p = (if p \<le> - ((- n) div s) then p else 1)"

lemma int_div_less:
  assumes "0 < (s::int)"
  shows "a div s < b \<longleftrightarrow> a < b * s"
proof -
  have a: "a = s * (a div s) + a mod s" "0 \<le> a mod s" "a mod s < s" using assms by simp_all
  have "s * (a div s) \<le> s * (b - 1)" if "a div s < b" using that assms by simp
  moreover have "s * b \<le> s * (a div s)" if "b \<le> a div s" using that assms by simp
  ultimately show ?thesis using a by (smt (verit) mult.commute right_diff_distrib' mult_cancel_left1)
qed

lemma ceil_div_le:
  assumes "0 < (s::int)"
  shows "p \<le> - ((- n) div s) \<longleftrightarrow> (p - 1) * s < n"
proof -
  have "p \<le> - ((- n) div s) \<longleftrightarrow> (- n) div s < 1 - p" by linarith
  also have "\<dots> \<longleftrightarrow> - n < (1 - p) * s" using assms by (rule int_div_less)
  also have "\<dots> \<longleftrightarrow> (p - 1) * s < n" by (simp add: algebra_simps)
  finally show ?thesis .
qed

lemma setRange_rows:
  assumes "page c = Fin q" and "page_size c = Fin s" and "total c = Num (Fin n)"
  shows "setRange h c = c\<lparr>row_range := Some (Fin ((q - 1) * s + 1), Num (Fin (min (q * s) n)))\<rparr>"
proof -
  have "(q - 1) * s + s = q * s" by (simp add: algebra_simps)
  with assms show ?thesis by (simp add: setRange_def Let_def min_def)
qed

lemma paginate_rows:
  assumes "page_size c = Fin s" and "0 < s" and "page c = Fin p" and "1 \<le> p"
    and "total c = Num (Fin (int (length (data c))))"
  defines "n \<equiv> int (length (data c))"
  defines "q \<equiv> shown_page n s p"
  shows "paginate h c = c\<lparr>pages := Fin (- ((- n) div s)), page := Fin q,
     row_range := Some (Fin ((q - 1) * s + 1), Num (Fin (min (q * s) n))),
     data := take (nat s) (drop (nat ((q - 1) * s)) (data c))\<rparr>"
proof -
  have q: "1 \<le> q" using assms(4) by (simp add: q_def shown_page_def)
  then have q0: "0 \<le> (q - 1) * s" using assms(2) by simp
  have qs: "(q - 1) * s + s = q * s" by (simp add: algebra_simps)
  have "nat (min (q * s) n) - nat ((q - 1) * s) = nat (min s (n - (q - 1) * s))"
    using q0 qs assms(2) by (auto simp: min_def nat_diff_distrib')
  moreover have "take (nat (min s (n - (q - 1) * s))) (drop (nat ((q - 1) * s)) (data c)) =
      take (nat s) (drop (nat ((q - 1) * s)) (data c))"
    using q0 by (auto simp: min_def n_def nat_diff_distrib' intro!: take_all)
  moreover have "0 \<le> min (q * s) n" using q assms(2) by (simp add: n_def)
  ultimately have sl: "slice_rows h (data c) (Fin ((q - 1) * s)) (Num (Fin (min (q * s) n))) =
      take (nat s) (drop (nat ((q - 1) * s)) (data c))"
    using q0 by (simp add: slice_rows_def slice_start_def js_slice_nonneg to_prim_def)
  have "q = p \<and> p \<le> - ((- n) div s) \<or> q = 1 \<and> \<not> p \<le> - ((- n) div s)"
    by (simp add: q_def shown_page_def)
  then show ?thesis
  proof (elim disjE conjE)
    assume e: "q = p" "p \<le> - ((- n) div s)"
    show ?thesis
      using sl assms(2) e(2) unfolding e(1)
      by (simp add: paginate_def assms(1,3,5) Let_def setRange_rows n_def [symmetric])
  next
    assume e: "q = 1" "\<not> p \<le> - ((- n) div s)"
    show ?thesis
      using sl assms(2) e(2) unfolding e(1)
      by (simp add: paginate_def assms(1,3,5) Let_def setRange_rows n_def [symmetric])
  qed
qed

text \<open>
  With a positive page size and the total of the selected rows, \<open>paginate\<close> falls back to the
  first page when the requested one does not exist, shows exactly the rows of its window, and
  reports the window's first and last position.
\<close>

theorem paginate_window:
  assumes "page_size c = Fin s" and "0 < s" and "page c = Fin p" and "1 \<le> p"
    and "total c = Num (Fin (int (length (data c))))"
  shows "\<exists>q. page (paginate h c) = Fin q \<and>
     q = (if (p - 1) * s < int (length (data c)) then p else 1) \<and>
     data (paginate h c) = take (nat s) (drop (nat ((q - 1) * s)) (data c)) \<and>
     row_range (paginate h c) =
       Some (Fin ((q - 1) * s + 1), Num (Fin (min (q * s) (int (length (data c))))))"
  by (simp add: paginate_rows [OF assms] shown_page_def ceil_div_le [OF assms(2)])

theorem paginate_window_witness:
  "\<exists>q. page (paginate (e_host demo_env) (demo_cols\<lparr>page_size := Fin 2, page := Fin 2\<rparr>)) = Fin q \<and> q = 2 \<and>
     data (paginate (e_host demo_env) (demo_cols\<lparr>page_size := Fin 2, page := Fin 2\<rparr>)) = [Obj [(''n'', Str ''b'')]]"
  using paginate_window [of "demo_cols\<lparr>page_size := Fin 2, page := Fin 2\<rparr>" 2 2]
  by (simp add: demo_rows_def)

lemma concat_windows: "concat (map (\<lambda>i. take s (drop (i * s) xs)) [0..<k]) = take (k * s) xs"
  by (induction k) (simp_all add: add.commute [of s] take_add)

text \<open>
  C15. The pages partition the selected rows: showing the pages from the first to the last, one
  after the other, shows every selected row exactly once and in order.
\<close>

theorem pages_partition:
  assumes "page_size c = Fin s" and "0 < s" and "total c = Num (Fin (int (length (data c))))"
  shows "\<exists>k. pages (paginate h (c\<lparr>page := Fin 1\<rparr>)) = Fin (int k) \<and>
     concat (map (\<lambda>i. data (paginate h (c\<lparr>page := Fin (int i + 1)\<rparr>))) [0..<k]) = data c"
proof -
  define n where "n = int (length (data c))"
  have k0: "0 \<le> - ((- n) div s)" using assms(2) by (simp add: n_def div_nonpos_pos_le0)
  define k where "k = nat (- ((- n) div s))"
  have win: "data (paginate h (c\<lparr>page := Fin (int i + 1)\<rparr>)) = take (nat s) (drop (i * nat s) (data c))"
    if "i < k" for i
  proof -
    have "int i + 1 \<le> - ((- n) div s)" using that k0 by (simp add: k_def)
    then have sp: "shown_page n s (int i + 1) = int i + 1" by (simp add: shown_page_def)
    have "nat (int i * s) = i * nat s" using assms(2) by (simp add: nat_mult_distrib)
    then show ?thesis
      using paginate_rows [of "c\<lparr>page := Fin (int i + 1)\<rparr>" s "int i + 1"] assms sp by (simp add: n_def)
  qed
  have "int (length (data c)) \<le> int k * s"
    using ceil_div_le [OF assms(2), of "int k + 1" n] k0 by (simp add: k_def n_def)
  then have "length (data c) \<le> k * nat s" using assms(2)
    by (metis nat_int nat_mono nat_mult_distrib nat_int_comparison(3) of_nat_0_le_iff)
  then have "concat (map (\<lambda>i. take (nat s) (drop (i * nat s) (data c))) [0..<k]) = data c"
    by (simp add: concat_windows)
  moreover have "map (\<lambda>i. data (paginate h (c\<lparr>page := Fin (int i + 1)\<rparr>))) [0..<k] =
      map (\<lambda>i. take (nat s) (drop (i * nat s) (data c))) [0..<k]"
    by (intro map_cong) (auto simp: win)
  ultimately have "concat (map (\<lambda>i. data (paginate h (c\<lparr>page := Fin (int i + 1)\<rparr>))) [0..<k]) = data c"
    by (simp only:)
  moreover have "pages (paginate h (c\<lparr>page := Fin 1\<rparr>)) = Fin (int k)"
    using paginate_rows [of "c\<lparr>page := Fin 1\<rparr>" s 1] assms k0 by (simp add: k_def n_def)
  ultimately show ?thesis by blast
qed

theorem pages_partition_witness:
  "\<exists>k. pages (paginate (e_host demo_env) (demo_cols\<lparr>page_size := Fin 2, page := Fin 1\<rparr>)) = Fin (int k) \<and>
     concat (map (\<lambda>i. data (paginate (e_host demo_env) (demo_cols\<lparr>page_size := Fin 2, page := Fin (int i + 1)\<rparr>))) [0..<k]) = demo_rows"
  using pages_partition [of "demo_cols\<lparr>page_size := Fin 2\<rparr>" 2] by (simp add: demo_rows_def)

section \<open>Conditions\<close>

definition passes :: "host \<Rightarrow> column list \<Rightarrow> jsval \<Rightarrow> bool" where
  "passes h cols row \<longleftrightarrow>
     list_all (\<lambda>col. case (col_condition col, getprop h row (col_key col)) of
        (Some f, Some v) \<Rightarrow> f v | _ \<Rightarrow> True) cols"

definition projected :: "host \<Rightarrow> column list \<Rightarrow> jsval \<Rightarrow> jsval" where
  "projected h cols row =
     Obj (fold (\<lambda>col t. case getprop h row (col_key col) of Some v \<Rightarrow> assoc_set (col_key col) v t | None \<Rightarrow> t) cols [])"

lemma project_row_spec:
  "\<not> nullish row \<Longrightarrow> project_row h cols row temp =
     Inr (if passes h cols row
          then Some (Obj (fold (\<lambda>col t. case getprop h row (col_key col) of
                 Some v \<Rightarrow> assoc_set (col_key col) v t | None \<Rightarrow> t) cols temp))
          else None)"
proof (induction cols arbitrary: temp)
  case (Cons col cols)
  then obtain v where "getprop h row (col_key col) = Some v"
    by (cases "getprop h row (col_key col)") auto
  with Cons show ?case by (auto simp: passes_def split: option.split)
qed (simp add: passes_def)

lemma projected_get:
  "\<not> nullish row \<Longrightarrow> k \<in> col_key ` set cols \<Longrightarrow> getprop h (projected h cols row) k = getprop h row k"
proof -
  assume n: "\<not> nullish row" and k: "k \<in> col_key ` set cols"
  have "assoc k (fold (\<lambda>col t. case getprop h row (col_key col) of
      Some v \<Rightarrow> assoc_set (col_key col) v t | None \<Rightarrow> t) cols t) =
      (if k \<in> col_key ` set cols then getprop h row k else assoc k t)" for t
  proof (induction cols arbitrary: t)
    case (Cons col cols)
    obtain v where v: "getprop h row (col_key col) = Some v"
      using n by (cases "getprop h row (col_key col)") auto
    show ?case by (auto simp: Cons.IH v)
  qed simp
  moreover obtain v where "getprop h row k = Some v" using n by (cases "getprop h row k") auto
  ultimately show ?thesis using k by (simp add: projected_def)
qed

text \<open>
  \<open>condition\<close> keeps, in order, the rows that meet every condition of the schema, and reduces
  each to the columns of the schema without changing their values.
\<close>

theorem condition_selects:
  assumes "schema c = Some cols" and "\<forall>r \<in> set (data c). \<not> nullish r"
  shows "condition env c = Inr (c\<lparr>data := map (projected (e_host env) cols) (filter (passes (e_host env) cols) (data c))\<rparr>) \<and>
    (\<forall>r \<in> set (data c). \<forall>col \<in> set cols.
       getprop (e_host env) (projected (e_host env) cols r) (col_key col) = getprop (e_host env) r (col_key col))"
proof -
  have "condition_rows h cols rs = Inr (map (projected h cols) (filter (passes h cols) rs))"
    if "\<forall>r \<in> set rs. \<not> nullish r" for h rs
    using that by (induction rs) (auto simp: project_row_spec projected_def)
  with assms show ?thesis by (auto simp: condition_def projected_get)
qed

definition demo_schema :: "column list" where
  "demo_schema = [\<lparr>col_key = ''n'', col_header = Str ''Name'', col_hide = False, col_template = None,
     col_condition = Some (\<lambda>v. v = Str ''b'')\<rparr>]"

theorem condition_selects_witness:
  "condition demo_env (demo_cols\<lparr>schema := Some demo_schema\<rparr>) =
     Inr (demo_cols\<lparr>schema := Some demo_schema, data := [Obj [(''n'', Str ''b'')], Obj [(''n'', Str ''b'')]]\<rparr>)"
proof -
  have n: "\<forall>r \<in> set (data (demo_cols\<lparr>schema := Some demo_schema\<rparr>)). \<not> nullish r" by (simp add: demo_rows_def)
  have "map (projected (e_host demo_env) demo_schema) (filter (passes (e_host demo_env) demo_schema) demo_rows) =
      [Obj [(''n'', Str ''b'')], Obj [(''n'', Str ''b'')]]"
    by (simp add: demo_schema_def demo_rows_def passes_def projected_def)
  with condition_selects [OF _ n, of demo_schema demo_env] show ?thesis by simp
qed

section \<open>What the methods leave alone\<close>

text \<open>Without plugins nothing but the widget itself writes to its fields.\<close>

definition same_master :: "columns \<Rightarrow> columns \<Rightarrow> bool" where
  "same_master c c' \<longleftrightarrow> master c' = master c \<and> plugins c' = plugins c \<and> schema c' = schema c \<and>
     searching c' = searching c \<and> paginating c' = paginating c \<and> sorting c' = sorting c"

lemma same_master_refl [simp]: "same_master c c"
  by (simp add: same_master_def)

lemma same_master_trans: "same_master a b \<Longrightarrow> same_master b c \<Longrightarrow> same_master a c"
  by (simp add: same_master_def)

lemma filter_rows_ok:
  "filter_rows env c = Inr c' \<Longrightarrow> same_master c c' \<and> set (data c') \<subseteq> set (data c) \<and>
     total c' = Num (Fin (int (length (data c'))))"
  by (auto simp: filter_rows_def filter_data_def grep_filter same_master_def
      split: option.splits sum.splits if_splits re_error.splits)

lemma sort_rows_mset: "sort_rows env k rd rs = Inr ds \<Longrightarrow> mset ds = mset rs"
proof -
  have "mset (filter (\<lambda>r. r \<noteq> Undefined) rs) + mset (filter (\<lambda>r. r = Undefined) rs) = mset rs"
    by (induction rs) auto
  then show "sort_rows env k rd rs = Inr ds \<Longrightarrow> mset ds = mset rs"
    by (auto simp: sort_rows_def Let_def split: if_splits)
qed

lemma sort_data_ok:
  "sort_data env c = Inr c' \<Longrightarrow> same_master c c' \<and> mset (data c') = mset (data c)"
  by (auto simp: sort_data_def same_master_def Let_def dest: sort_rows_mset
      split: list.splits option.splits sum.splits if_splits)

lemma paginate_ok: "same_master c (paginate h c) \<and> set (data (paginate h c)) \<subseteq> set (data c) \<and> total (paginate h c) = total c"
  using set_js_slice by (fastforce simp: paginate_def setRange_def same_master_def Let_def slice_rows_def)

lemma select_rows_ok:
  assumes "select_rows env c = Inr c'"
  shows "same_master c c' \<and> set (data c') \<subseteq> set (master c)"
proof -
  let ?c0 = "resetData c"
  have c0: "same_master c ?c0" "data ?c0 = master c" by (simp_all add: resetData_def same_master_def)
  from assms obtain c1 c2 where
    c1: "(if searching ?c0 then filter_rows env ?c0 else Inr ?c0) = Inr c1" and
    c2: "(if sorting c1 then sort_data env c1 else Inr c1) = Inr c2" and
    c3: "c' = (if paginating c2 then paginate (e_host env) c2 else c2)"
    by (auto simp: select_rows_def Let_def split: sum.splits)
  have r: "same_master x x" for x by (simp add: same_master_def)
  have "same_master ?c0 c1 \<and> set (data c1) \<subseteq> set (data ?c0)"
    using c1 filter_rows_ok r by (auto split: if_splits)
  moreover have "same_master c1 c2 \<and> set (data c2) \<subseteq> set (data c1)"
    using c2 sort_data_ok [of env c1 c2] r by (auto split: if_splits dest: mset_eq_setD)
  moreover have "same_master c2 c' \<and> set (data c') \<subseteq> set (data c2)"
    using c3 paginate_ok r by (auto split: if_splits)
  ultimately show ?thesis using c0 same_master_trans by (metis subset_trans)
qed

lemma buildTable_ok: "buildTable env c w = Inr (c', w') \<Longrightarrow> same_master c c' \<and> data c' = data c"
  by (auto simp: buildTable_def buildThead_def same_master_def Let_def split: if_splits sum.splits option.splits)

lemma show_table_ok:
  "show_table env c w = Inr (c', w') \<Longrightarrow> plugins c = None \<Longrightarrow> same_master c c' \<and> data c' = data c"
  by (auto simp: show_table_def run_plugins_def buildShowRowsMenu_def same_master_def Let_def
      split: sum.splits if_splits)

section \<open>Without searching\<close>

text \<open>
  Only \<open>filter\<close> sets \<open>total\<close>: a widget created with \<open>searching: false\<close> shows the row
  \<open>No Results\<close> whatever data it was given.
\<close>

theorem no_search_no_rows:
  "\<exists>c t. select_rows env (columns_defaults\<lparr>searching := False, master := ds, schema := Some cols\<rparr>) = Inr c \<and>
     buildTable env c w = Inr (t, w) \<and>
     rows t = [''<tr class='' @ quoted ''ui-table-rows-even'' @ ''><td colspan='' @ quoted (nat_str (length cols)) @
       ''><em>No Results</em></td>'']"
  by (auto simp: select_rows_def columns_defaults_def resetData_def sort_data_def buildTable_def
      paginate_def setRange_def Let_def)

end
