(* ===== verification/Columns_Store.thy ===== *)
theory Columns_Store
  imports Columns_Props
begin

text \<open>
  The arrays of \<open>jquery.columns.js\<close> by reference. In the code \<open>data\<close> and \<open>master\<close> are references to
  arrays: \<open>sort\<close> works in place, \<open>slice\<close> and \<open>$.grep\<close> make new arrays, \<open>setMaster\<close> and the option
  \<open>data\<close> keep the array of the caller. Here the arrays are in an explicit store; what each method
  computes is taken from \<open>Columns\<close>, where it puts the result is said here. The theorem relates the
  two: no array that existed before a widget was made is ever changed by it, and so the methods on
  references behave like those on values.
\<close>

section \<open>State\<close>

text \<open>The store, and the fields of a widget; its \<open>data\<close> and \<open>master\<close> are the arrays at two references.\<close>

record ref_columns =
  widget :: columns
  data_ref :: nat
  master_ref :: nat
  arrays :: "nat \<Rightarrow> jsval list"
  next_ref :: nat

definition as_value :: "ref_columns \<Rightarrow> columns" where
  "as_value s = (widget s)\<lparr>data := arrays s (data_ref s), master := arrays s (master_ref s)\<rparr>"

text \<open>A new array for \<open>data\<close>, a change of the array \<open>data\<close> refers to, and a new array for \<open>master\<close>.\<close>

definition new_data :: "columns \<Rightarrow> ref_columns \<Rightarrow> ref_columns" where
  "new_data t s = s\<lparr>widget := t, data_ref := next_ref s, arrays := (arrays s)(next_ref s := data t), next_ref := Suc (next_ref s)\<rparr>"

definition write_data :: "columns \<Rightarrow> ref_columns \<Rightarrow> ref_columns" where
  "write_data t s = s\<lparr>widget := t, arrays := (arrays s)(data_ref s := data t)\<rparr>"

definition new_master :: "jsval list \<Rightarrow> ref_columns \<Rightarrow> ref_columns" where
  "new_master ms s = s\<lparr>master_ref := next_ref s, arrays := (arrays s)(next_ref s := ms), next_ref := Suc (next_ref s)\<rparr>"

section \<open>The methods\<close>

text \<open>\<open>this.master.slice(0)\<close> is a new array.\<close>

definition resetData_ref :: "ref_columns \<Rightarrow> ref_columns" where
  "resetData_ref s = new_data (resetData (as_value s)) s"

text \<open>\<open>$.grep\<close> returns a new array; without a query the array stays.\<close>

definition filter_ref :: "col_env \<Rightarrow> ref_columns \<Rightarrow> cerror + ref_columns" where
  "filter_ref env s =
     bind_err (filter_rows env (as_value s)) (\<lambda>t. Inr (if truthy (query t) then new_data t s else s\<lparr>widget := t\<rparr>))"

text \<open>\<open>Array.prototype.sort\<close> works in place.\<close>

definition sort_ref :: "col_env \<Rightarrow> ref_columns \<Rightarrow> cerror + ref_columns" where
  "sort_ref env s = bind_err (sort_data env (as_value s)) (\<lambda>t. Inr (write_data t s))"

definition paginate_ref :: "col_env \<Rightarrow> ref_columns \<Rightarrow> ref_columns" where
  "paginate_ref env s = new_data (paginate (e_host env) (as_value s)) s"

definition select_ref :: "col_env \<Rightarrow> ref_columns \<Rightarrow> cerror + ref_columns" where
  "select_ref env s =
     (let s0 = resetData_ref s
      in bind_err (if searching (widget s0) then filter_ref env s0 else Inr s0) (\<lambda>s1.
         bind_err (if sorting (widget s1) then sort_ref env s1 else Inr s1) (\<lambda>s2.
         Inr (if paginating (widget s2) then paginate_ref env s2 else s2))))"

text \<open>The rest of \<open>create\<close> reads the data and does not write it (plugins apart).\<close>

definition create_ref :: "col_env \<Rightarrow> ref_columns \<Rightarrow> wcache \<Rightarrow> cerror + ref_columns \<times> wcache" where
  "create_ref env s w =
     bind_err (select_ref env s) (\<lambda>s1.
     bind_err (buildTable env (as_value s1) w) (\<lambda>(t2, w1).
     bind_err (show_table env t2 w1) (\<lambda>(t3, w2). Inr (s1\<lparr>widget := t3\<rparr>, w2))))"

text \<open>
  \<open>init\<close> on the array at reference \<open>a\<close>: \<open>condition\<close> makes a new array when there is a schema, and the
  master data is copied into a new array.
\<close>

definition init_ref :: "col_env \<Rightarrow> nat \<Rightarrow> ref_columns \<Rightarrow> wcache \<Rightarrow> cerror + ref_columns \<times> wcache" where
  "init_ref env a s w =
     bind_err (init_setup env (arrays s a) (widget s)) (\<lambda>t.
       let s1 = (if conditioning (widget s) \<and> schema (widget s) \<noteq> None then new_data t s else s\<lparr>widget := t, data_ref := a\<rparr>)
       in case master_copy t of
            Some ms \<Rightarrow> create_ref env (new_master ms s1) w
          | None \<Rightarrow> Inl CTypeError)"

section \<open>Events\<close>

text \<open>
  What the user does and what a script may call; \<open>SetMaster a\<close> passes the array at reference \<open>a\<close>.
\<close>

datatype col_event =
    SortClick jsval | PageClick jsnum | SearchKeyup string int | SizeChange string
  | GotoPage jsnum | SetPage jsnum | SetTotal jsval | SetMaster nat

text \<open>The fields an event sets, and whether the table is then drawn anew.\<close>

fun prepare :: "col_event \<Rightarrow> columns \<Rightarrow> columns \<times> bool" where
  "prepare (SortClick k) c = ((if sortBy c = k then c\<lparr>reverse := \<not> reverse c\<rparr> else c)\<lparr>sortBy := k, page := Fin 1\<rparr>, True)"
| "prepare (PageClick p) c = (c\<lparr>page := p\<rparr>, True)"
| "prepare (SearchKeyup q code) c = (c\<lparr>query := Str q\<rparr>, liveSearch c \<or> code = 13)"
| "prepare (SizeChange v) c = (c\<lparr>page_size := parse_int v\<rparr>, True)"
| "prepare (GotoPage p) c = (if pageExists c p then (c\<lparr>page := p\<rparr>, True) else (c, False))"
| "prepare (SetPage p) c = (snd (setPage p c), False)"
| "prepare (SetTotal t) c = (snd (setTotal t c), False)"
| "prepare (SetMaster a) c = (c, False)"

definition ref_step :: "col_env \<Rightarrow> col_event \<Rightarrow> cerror + ref_columns \<times> wcache \<Rightarrow> cerror + ref_columns \<times> wcache" where
  "ref_step env ev r =
     bind_err r (\<lambda>(s, w).
       let (t, draw) = prepare ev (widget s);
           s1 = (case ev of SetMaster a \<Rightarrow> s\<lparr>master_ref := a\<rparr> | _ \<Rightarrow> s\<lparr>widget := t\<rparr>)
       in if draw then create_ref env s1 w else Inr (s1, w))"

text \<open>The same events on values; \<open>st\<close> is the store the caller's arrays are in.\<close>

definition value_step :: "col_env \<Rightarrow> (nat \<Rightarrow> jsval list) \<Rightarrow> col_event \<Rightarrow> cerror + columns \<times> wcache \<Rightarrow> cerror + columns \<times> wcache" where
  "value_step env st ev r =
     bind_err r (\<lambda>(c, w).
       case ev of
         SortClick k \<Rightarrow> on_sort_click env k c w
       | PageClick p \<Rightarrow> on_page_click env p c w
       | SearchKeyup q code \<Rightarrow> on_search_keyup env q code c w
       | SizeChange v \<Rightarrow> on_size_change env v c w
       | GotoPage p \<Rightarrow> bind_err (gotoPage env p c w) (\<lambda>(_, s). Inr s)
       | SetPage p \<Rightarrow> Inr (snd (setPage p c), w)
       | SetTotal t \<Rightarrow> Inr (snd (setTotal t c), w)
       | SetMaster a \<Rightarrow> Inr (snd (setMaster (Arr (st a)) c), w))"

section \<open>Frames\<close>

text \<open>
  With \<open>n\<close> the first reference that was free before: the arrays below \<open>n\<close> are as in \<open>s\<close>, the master
  array is one of them or a copy the widget made, and \<open>data\<close> refers to another array than \<open>master\<close>.
\<close>

definition arrays_kept :: "nat \<Rightarrow> ref_columns \<Rightarrow> ref_columns \<Rightarrow> bool" where
  "arrays_kept n s s' \<longleftrightarrow> (\<forall>a < n. arrays s' a = arrays s a) \<and> next_ref s \<le> next_ref s' \<and> master_ref s' = master_ref s"

definition owns :: "nat \<Rightarrow> ref_columns \<Rightarrow> bool" where
  "owns n s \<longleftrightarrow> n \<le> data_ref s \<and> data_ref s < next_ref s \<and> master_ref s < n"

lemma arrays_kept_refl [simp]: "arrays_kept n s s"
  by (simp add: arrays_kept_def)

lemma arrays_kept_trans: "arrays_kept n s s' \<Longrightarrow> arrays_kept n s' s'' \<Longrightarrow> arrays_kept n s s''"
  by (auto simp: arrays_kept_def)

lemma arrays_kept_widget [simp]: "arrays_kept n s (s'\<lparr>widget := t\<rparr>) = arrays_kept n s s'" "owns n (s\<lparr>widget := t\<rparr>) = owns n s"
  by (simp_all add: arrays_kept_def owns_def)

lemma as_value_simps [simp]:
  "master (as_value s) = arrays s (master_ref s)" "data (as_value s) = arrays s (data_ref s)"
  "plugins (as_value s) = plugins (widget s)" "query (as_value s) = query (widget s)"
  "searching (as_value s) = searching (widget s)" "sorting (as_value s) = sorting (widget s)"
  "paginating (as_value s) = paginating (widget s)"
  by (simp_all add: as_value_def)

lemma as_value_widget: "master t = arrays s (master_ref s) \<Longrightarrow> data t = arrays s (data_ref s) \<Longrightarrow> as_value (s\<lparr>widget := t\<rparr>) = t"
  by (simp add: as_value_def)

text \<open>A new array for \<open>data\<close> keeps all others; the sort changes an array the widget made.\<close>

lemma new_data_ok:
  assumes "master_ref s < n" "n \<le> next_ref s" "master t = arrays s (master_ref s)"
  shows "as_value (new_data t s) = t \<and> arrays_kept n s (new_data t s) \<and> owns n (new_data t s)"
  using assms by (simp add: new_data_def as_value_def arrays_kept_def owns_def)

lemma write_data_ok:
  assumes "owns n s" "master t = arrays s (master_ref s)"
  shows "as_value (write_data t s) = t \<and> arrays_kept n s (write_data t s) \<and> owns n (write_data t s)"
  using assms by (auto simp: write_data_def as_value_def arrays_kept_def owns_def)

section \<open>The methods on references and on values\<close>

definition refines :: "nat \<Rightarrow> ref_columns \<Rightarrow> cerror + ref_columns \<Rightarrow> cerror + columns \<Rightarrow> bool" where
  "refines n s r v \<longleftrightarrow>
     (case r of Inl e \<Rightarrow> v = Inl e | Inr s' \<Rightarrow> v = Inr (as_value s') \<and> arrays_kept n s s' \<and> owns n s')"

lemma refines_bind:
  assumes "refines n s r v" and "\<And>s'. arrays_kept n s s' \<Longrightarrow> owns n s' \<Longrightarrow> refines n s' (f s') (g (as_value s'))"
  shows "refines n s (bind_err r f) (bind_err v g)"
proof (cases r)
  case (Inl e)
  then show ?thesis using assms(1) by (simp add: refines_def bind_err_def)
next
  case (Inr s')
  then have s': "v = Inr (as_value s')" "arrays_kept n s s'" "owns n s'" using assms(1) by (simp_all add: refines_def)
  from assms(2) [OF s'(2,3)] show ?thesis
    using arrays_kept_trans [OF s'(2)] by (cases "f s'") (simp_all add: Inr s'(1) refines_def bind_err_def)
qed

lemma refines_Inr: "owns n s \<Longrightarrow> refines n s (Inr s) (Inr (as_value s))"
  by (simp add: refines_def)

lemma reset_refines:
  assumes "master_ref s < next_ref s"
  shows "as_value (resetData_ref s) = resetData (as_value s) \<and> arrays_kept (next_ref s) s (resetData_ref s) \<and> owns (next_ref s) (resetData_ref s)"
  unfolding resetData_ref_def by (rule new_data_ok) (use assms in \<open>simp_all add: resetData_def\<close>)

lemma filter_refines:
  assumes "owns n s"
  shows "refines n s (filter_ref env s) (filter_rows env (as_value s))"
proof (cases "filter_rows env (as_value s)")
  case (Inr t)
  then have t: "master t = arrays s (master_ref s)" "query t = query (widget s)"
    "\<not> truthy (query t) \<Longrightarrow> data t = arrays s (data_ref s)"
    using filter_rows_ok [OF Inr]
    by (auto simp: same_master_def filter_rows_def filter_data_def split: option.splits sum.splits if_splits)
  show ?thesis
  proof (cases "truthy (query t)")
    case True
    then show ?thesis
      using Inr new_data_ok [of s n t] assms t by (simp add: refines_def filter_ref_def bind_err_def owns_def)
  next
    case False
    then show ?thesis using Inr assms t by (simp add: refines_def filter_ref_def bind_err_def as_value_widget)
  qed
qed (simp add: refines_def filter_ref_def bind_err_def)

lemma sort_refines:
  assumes "owns n s"
  shows "refines n s (sort_ref env s) (sort_data env (as_value s))"
  using sort_data_ok [of env "as_value s"] write_data_ok [OF assms]
  by (auto simp: refines_def sort_ref_def bind_err_def same_master_def split: sum.split)

lemma paginate_refines:
  assumes "owns n s"
  shows "refines n s (Inr (paginate_ref env s)) (Inr (paginate (e_host env) (as_value s)))"
  using paginate_ok [of "as_value s" "e_host env"] new_data_ok [of s n "paginate (e_host env) (as_value s)"] assms
  by (auto simp: refines_def paginate_ref_def same_master_def owns_def)

lemma select_rows_bind:
  "select_rows env c =
     bind_err (if searching (resetData c) then filter_rows env (resetData c) else Inr (resetData c)) (\<lambda>c1.
     bind_err (if sorting c1 then sort_data env c1 else Inr c1) (\<lambda>c2.
     Inr (if paginating c2 then paginate (e_host env) c2 else c2)))"
  by (simp add: select_rows_def bind_err_def Let_def)

lemma select_refines:
  assumes "master_ref s < next_ref s"
  shows "refines (next_ref s) s (select_ref env s) (select_rows env (as_value s))"
proof -
  let ?n = "next_ref s" and ?s = "resetData_ref s"
  note r = reset_refines [OF assms]
  have own: "owns ?n ?s" using r by simp
  have "refines ?n ?s
      (bind_err (if searching (widget ?s) then filter_ref env ?s else Inr ?s) (\<lambda>s1.
         bind_err (if sorting (widget s1) then sort_ref env s1 else Inr s1) (\<lambda>s2.
         Inr (if paginating (widget s2) then paginate_ref env s2 else s2))))
      (bind_err (if searching (as_value ?s) then filter_rows env (as_value ?s) else Inr (as_value ?s)) (\<lambda>c1.
         bind_err (if sorting c1 then sort_data env c1 else Inr c1) (\<lambda>c2.
         Inr (if paginating c2 then paginate (e_host env) c2 else c2))))"
    by (intro refines_bind) (use own in \<open>auto intro: refines_Inr filter_refines sort_refines paginate_refines\<close>)
  then show ?thesis
    using r unfolding select_rows_bind select_ref_def Let_def
    by (auto simp: refines_def split: sum.splits intro: arrays_kept_trans)
qed

lemma create_bind:
  "create env c w = bind_err (select_rows env c) (\<lambda>c1. bind_err (buildTable env c1 w) (\<lambda>(c2, w1). show_table env c2 w1))"
  by (simp add: create_def bind_err_def split: sum.split)

text \<open>Drawing the table on references and on values.\<close>

lemma create_refines:
  assumes "master_ref s < next_ref s" and "plugins (widget s) = None"
  shows "case create_ref env s w of
      Inl e \<Rightarrow> create env (as_value s) w = Inl e
    | Inr (s', w') \<Rightarrow> create env (as_value s) w = Inr (as_value s', w') \<and> arrays_kept (next_ref s) s s' \<and> plugins (widget s') = None"
proof (cases "select_ref env s")
  case (Inl e)
  then show ?thesis using select_refines [OF assms(1), of env] by (simp add: create_ref_def create_bind refines_def bind_err_def)
next
  case (Inr s1)
  then have s1: "select_rows env (as_value s) = Inr (as_value s1)" "arrays_kept (next_ref s) s s1"
    using select_refines [OF assms(1), of env] by (simp_all add: refines_def)
  then have p: "plugins (as_value s1) = None" using select_rows_ok [OF s1(1)] assms(2) by (simp add: same_master_def)
  show ?thesis
  proof (cases "buildTable env (as_value s1) w")
    case (Inr r)
    obtain t2 w1 where r: "r = (t2, w1)" by fastforce
    note b = buildTable_ok [OF Inr [unfolded r]]
    show ?thesis
    proof (cases "show_table env t2 w1")
      case (Inr r')
      obtain t3 w2 where r': "r' = (t3, w2)" by fastforce
      have "same_master t2 t3 \<and> data t3 = data t2"
        using show_table_ok [OF Inr [unfolded r']] b p by (simp add: same_master_def)
      then have "as_value (s1\<lparr>widget := t3\<rparr>) = t3" "plugins t3 = None"
        using b p by (auto simp: same_master_def intro!: as_value_widget)
      then show ?thesis
        using s1 Inr \<open>select_ref env s = Inr s1\<close> \<open>buildTable env (as_value s1) w = Inr r\<close>
        by (simp add: create_ref_def create_bind bind_err_def r r')
    qed (use s1 Inr \<open>select_ref env s = Inr s1\<close> in \<open>simp add: create_ref_def create_bind bind_err_def r\<close>)
  qed (use s1 \<open>select_ref env s = Inr s1\<close> in \<open>simp add: create_ref_def create_bind bind_err_def\<close>)
qed

section \<open>Runs\<close>

text \<open>
  The states of a widget that was made when \<open>n\<close> was the next free reference and \<open>st\<close> the store.
\<close>

definition run_inv_ref :: "nat \<Rightarrow> (nat \<Rightarrow> jsval list) \<Rightarrow> cerror + ref_columns \<times> wcache \<Rightarrow> bool" where
  "run_inv_ref n st r \<longleftrightarrow>
     (case r of
        Inl _ \<Rightarrow> True
      | Inr (s, _) \<Rightarrow> (\<forall>a < n. arrays s a = st a) \<and> n \<le> next_ref s \<and> master_ref s < next_ref s \<and> plugins (widget s) = None)"

definition run_value :: "cerror + ref_columns \<times> wcache \<Rightarrow> cerror + columns \<times> wcache" where
  "run_value r = map_sum id (map_prod as_value id) r"

definition known_array :: "nat \<Rightarrow> col_event \<Rightarrow> bool" where
  "known_array n ev \<longleftrightarrow> (\<forall>a. ev = SetMaster a \<longrightarrow> a < n)"

lemma create_run:
  assumes "(\<forall>a < n. arrays s a = st a) \<and> n \<le> next_ref s \<and> master_ref s < next_ref s \<and> plugins (widget s) = None"
  shows "run_inv_ref n st (create_ref env s w) \<and> run_value (create_ref env s w) = create env (as_value s) w"
  using create_refines [of s env w] assms
  by (auto simp: run_inv_ref_def run_value_def arrays_kept_def split: sum.splits)

lemma prepare_as_value:
  "prepare ev (as_value s) = (as_value (s\<lparr>widget := fst (prepare ev (widget s))\<rparr>), snd (prepare ev (widget s)))"
  by (cases ev) (simp_all add: as_value_def pageExists_def setPage_def setTotal_def)

lemma prepare_plugins: "plugins (fst (prepare ev c)) = plugins c"
  by (cases ev) (simp_all add: setPage_def setTotal_def)

lemma value_step_prepare:
  assumes "\<And>a. ev \<noteq> SetMaster a"
  shows "value_step env st ev (Inr (c, w)) = (if snd (prepare ev c) then create env (fst (prepare ev c)) w else Inr (fst (prepare ev c), w))"
  using assms
  by (cases ev) (auto simp: value_step_def bind_err_def on_sort_click_def sortHandler_def on_page_click_def pageHandler_def
    on_search_keyup_def searchHandler_def on_size_change_def sizeHandler_def gotoPage_def Let_def split: sum.split)

lemma ref_step_run:
  assumes "run_inv_ref n st r" and "known_array n ev"
  shows "run_inv_ref n st (ref_step env ev r) \<and> run_value (ref_step env ev r) = value_step env st ev (run_value r)"
proof (cases r)
  case (Inl e)
  then show ?thesis by (simp add: run_inv_ref_def run_value_def ref_step_def value_step_def bind_err_def)
next
  case (Inr x)
  obtain s w where x: "x = (s, w)" by fastforce
  then have inv: "(\<forall>a < n. arrays s a = st a) \<and> n \<le> next_ref s \<and> master_ref s < next_ref s \<and> plugins (widget s) = None"
    using assms(1) Inr by (simp add: run_inv_ref_def)
  show ?thesis
  proof (cases "\<exists>a. ev = SetMaster a")
    case True
    then obtain a where a: "ev = SetMaster a" "a < n" using assms(2) by (auto simp: known_array_def)
    then show ?thesis using inv
      by (simp add: Inr x run_inv_ref_def run_value_def ref_step_def value_step_def bind_err_def setMaster_def as_value_def)
  next
    case False
    let ?s = "s\<lparr>widget := fst (prepare ev (widget s))\<rparr>"
    have step: "ref_step env ev r = (if snd (prepare ev (widget s)) then create_ref env ?s w else Inr (?s, w))"
      using False by (simp add: Inr x ref_step_def bind_err_def Let_def case_prod_beta split: col_event.split)
    have "value_step env st ev (run_value r) = (if snd (prepare ev (widget s)) then create env (as_value ?s) w else Inr (as_value ?s, w))"
      using False value_step_prepare [of ev env st "as_value s" w] by (simp add: Inr x run_value_def prepare_as_value)
    moreover have "run_inv_ref n st (Inr (?s, w))" using inv by (simp add: run_inv_ref_def prepare_plugins)
    ultimately show ?thesis
      using create_run [of n ?s st env w] inv by (simp add: step run_value_def prepare_plugins)
  qed
qed

interpretation widget_runs: simulation "ref_step env" "\<lambda>ev _. known_array n ev" "run_inv_ref n st" "value_step env st" run_value
  for env n st
  by unfold_locales (use ref_step_run in blast)+

text \<open>\<open>init\<close> makes the arrays it will write to.\<close>

lemma init_setup_ok:
  assumes "init_setup env ds c = Inr t" and "plugins c = None"
  shows "plugins t = None \<and> (conditioning c \<and> schema c \<noteq> None \<or> data t = ds)"
  using assms
  by (auto simp: init_setup_def bind_err_def run_plugins_def condition_def buildSchema_def buildSearchableFields_def
      buildSortableFields_def getTemplateFile_def Let_def split: sum.splits if_splits option.splits)

lemma init_run:
  assumes "plugins (widget s) = None" and "a < next_ref s"
  shows "run_inv_ref (next_ref s) (arrays s) (init_ref env a s w) \<and>
    run_value (init_ref env a s w) = init env (Arr (arrays s a)) (widget s) w"
proof (cases "init_setup env (arrays s a) (widget s)")
  case (Inl e)
  then show ?thesis by (simp add: init_ref_def init_def bind_err_def run_inv_ref_def run_value_def)
next
  case (Inr t)
  let ?s1 = "if conditioning (widget s) \<and> schema (widget s) \<noteq> None then new_data t s else s\<lparr>widget := t, data_ref := a\<rparr>"
  note t = init_setup_ok [OF Inr assms(1)]
  show ?thesis
  proof (cases "master_copy t")
    case None
    then show ?thesis using Inr by (simp add: init_ref_def init_def bind_err_def run_inv_ref_def run_value_def Let_def)
  next
    case (Some ms)
    have "as_value (new_master ms ?s1) = t\<lparr>master := ms\<rparr>"
      using t assms(2) by (auto simp: as_value_def new_master_def new_data_def)
    moreover have "(\<forall>b < next_ref s. arrays (new_master ms ?s1) b = arrays s b) \<and> next_ref s \<le> next_ref (new_master ms ?s1) \<and>
        master_ref (new_master ms ?s1) < next_ref (new_master ms ?s1) \<and> plugins (widget (new_master ms ?s1)) = None"
      using t by (simp add: new_master_def new_data_def)
    ultimately show ?thesis
      using create_run [of "next_ref s" "new_master ms ?s1" "arrays s" env w] Inr Some
      by (simp add: init_ref_def init_def bind_err_def Let_def)
  qed
qed

text \<open>
  C28. A widget without plugins never changes an array it was given: whatever the user does and a
  script calls (sort, page, search, change the page size, replace the master data, in any order),
  the array passed as \<open>data\<close>, those passed to \<open>setMaster\<close> and every other array that existed before
  hold the rows they held, although \<open>sort\<close> works in place.  The widget therefore behaves exactly as
  if its arrays were values: it shows the same table, or fails with the same error.
\<close>

theorem arrays_untouched:
  assumes "plugins (widget s) = None" and "a < next_ref s" and "\<forall>b. SetMaster b \<in> set evs \<longrightarrow> b < next_ref s"
  shows "case fold (ref_step env) evs (init_ref env a s w) of
      Inl e \<Rightarrow> fold (value_step env (arrays s)) evs (init env (Arr (arrays s a)) (widget s) w) = Inl e
    | Inr (s', w') \<Rightarrow>
        fold (value_step env (arrays s)) evs (init env (Arr (arrays s a)) (widget s) w) = Inr (as_value s', w') \<and>
        (\<forall>b < next_ref s. arrays s' b = arrays s b)"
proof -
  let ?n = "next_ref s" and ?st = "arrays s" and ?r = "init_ref env a s w"
  have "legal (ref_step env) (\<lambda>ev _. known_array ?n ev) evs ?r"
    by (rule legal_inputs) (use assms(3) in \<open>auto simp: known_array_def\<close>)
  then have "run_inv_ref ?n ?st (fold (ref_step env) evs ?r)"
    "run_value (fold (ref_step env) evs ?r) = fold (value_step env ?st) evs (run_value ?r)"
    using widget_runs.run_inv widget_runs.run_abs init_run [OF assms(1,2), of env w] by blast+
  then show ?thesis
    using init_run [OF assms(1,2), of env w]
    by (auto simp: run_inv_ref_def run_value_def split: sum.splits)
qed

text \<open>A widget on the array at 0, sorted and searched; the array at 1 replaces the master data.\<close>

definition demo_ref :: ref_columns where
  "demo_ref = \<lparr>widget = columns_defaults\<lparr>template := ''{{tableTotal}}'', sortBy := Str ''n''\<rparr>, data_ref = 0, master_ref = 0,
     arrays = (\<lambda>a. if a = 0 then demo_rows else if a = 1 then [Obj [(''n'', Str ''d'')], Obj [(''n'', Str ''c'')]] else []), next_ref = 2\<rparr>"

definition demo_events :: "col_event list" where
  "demo_events = [SortClick (Str ''n''), SetMaster 1, SortClick (Str ''n'')]"

theorem arrays_untouched_witness:
  "case fold (ref_step demo_env) demo_events (init_ref demo_env 0 demo_ref []) of
      Inl e \<Rightarrow> False
    | Inr (s', w') \<Rightarrow> data (as_value s') = [Obj [(''n'', Str ''c'')], Obj [(''n'', Str ''d'')]] \<and>
        arrays s' 0 = demo_rows \<and> arrays s' 1 = [Obj [(''n'', Str ''d'')], Obj [(''n'', Str ''c'')]]"
proof -
  have "case fold (value_step demo_env (arrays demo_ref)) demo_events (init demo_env (Arr (arrays demo_ref 0)) (widget demo_ref) []) of
      Inl e \<Rightarrow> False | Inr (c, w) \<Rightarrow> data c = [Obj [(''n'', Str ''c'')], Obj [(''n'', Str ''d'')]]"
    by code_simp
  moreover have "plugins (widget demo_ref) = None" "0 < next_ref demo_ref" "\<forall>b. SetMaster b \<in> set demo_events \<longrightarrow> b < next_ref demo_ref"
    by (simp_all add: demo_ref_def demo_events_def columns_defaults_def)
  ultimately show ?thesis
    using arrays_untouched [of demo_ref 0 demo_events demo_env "[]"]
    by (auto simp: demo_ref_def split: sum.splits)
qed

end
