(* ===== verification/JsDate.thy ===== *)
theory JsDate
  imports Prelude
begin

text \<open>
  Calendar dates of the language: a date is the number of days since 1 January 1970, the time of
  day is midnight, and local time has no daylight-saving jumps. Day and year numbers follow the
  language definition's \<open>MakeDay\<close>, \<open>DayFromYear\<close> and \<open>YearFromTime\<close>.
\<close>

type_synonym date = int

definition day_from_year :: "int \<Rightarrow> int" where
  "day_from_year y = 365 * (y - 1970) + (y - 1969) div 4 - (y - 1901) div 100 + (y - 1601) div 400"

definition leap :: "int \<Rightarrow> bool" where
  "leap y \<longleftrightarrow> 4 dvd y \<and> (\<not> 100 dvd y \<or> 400 dvd y)"

definition days_in_year :: "int \<Rightarrow> int" where
  "days_in_year y = (if leap y then 366 else 365)"

lemma div_bounds: "0 < (k::int) \<Longrightarrow> k * (x div k) \<le> x \<and> x < k * (x div k) + k"
proof -
  assume "0 < k"
  then have "0 \<le> x mod k" "x mod k < k" by simp_all
  then show ?thesis using mult_div_mod_eq [of k x] by linarith
qed

lemma div_Suc: "0 < (k::int) \<Longrightarrow> (x + 1) div k = x div k + (if k dvd x + 1 then 1 else 0)"
proof -
  assume k: "0 < k"
  show ?thesis
  proof (cases "k dvd x + 1")
    case True
    then obtain c where c: "x + 1 = k * c" by blast
    then have "x = k * (c - 1) + (k - 1)" by (simp add: algebra_simps)
    then have "x div k = c - 1" using k by (intro int_div_pos_eq [of _ _ _ "k - 1"]) auto
    with True c k show ?thesis by simp
  next
    case False
    then have "(x + 1) mod k \<noteq> 0" by (simp add: dvd_eq_mod_eq_0)
    moreover have "0 \<le> (x + 1) mod k" "(x + 1) mod k < k" using k by simp_all
    ultimately have m: "0 \<le> (x + 1) mod k - 1" "(x + 1) mod k - 1 < k" by linarith+
    have "x = k * ((x + 1) div k) + ((x + 1) mod k - 1)" using mult_div_mod_eq [of k "x + 1"] by linarith
    then have "x div k = (x + 1) div k" using m by (rule int_div_pos_eq)
    with False show ?thesis by simp
  qed
qed

lemma dvd_shift: "(k::int) dvd c \<Longrightarrow> k dvd y - c \<longleftrightarrow> k dvd y"
  using dvd_diff dvd_add by (metis diff_add_cancel)

lemma div_step: "0 < (k::int) \<Longrightarrow> k dvd c \<Longrightarrow> c' = c + 1 \<Longrightarrow>
   (y - c) div k = (y - c') div k + (if k dvd y then 1 else 0)"
  using div_Suc [of k "y - c'"] dvd_shift [of k c y] by simp

lemma leap_sum: "(r \<Longrightarrow> q) \<Longrightarrow> (q \<Longrightarrow> p) \<Longrightarrow>
   (if p then 1 else 0) - (if q then 1 else 0) + (if r then 1 else 0) = (if p \<and> (\<not> q \<or> r) then 1 else 0 :: int)"
  by auto

lemma year_sum: "365 * (y + 1 - 1970) + (a + i) - (b + j) + (c + k) =
   (365 * (y - 1970) + a - b + c) + 365 + (i - j + k)" for y a b c i j k :: int
  by simp

lemma day_from_year_Suc: "day_from_year (y + 1) = day_from_year y + days_in_year y"
proof -
  have a: "(y - 1968) div 4 = (y - 1969) div 4 + (if 4 dvd y then 1 else 0)"
    by (rule div_step) simp_all
  have b: "(y - 1900) div 100 = (y - 1901) div 100 + (if 100 dvd y then 1 else 0)"
    by (rule div_step) simp_all
  have c: "(y - 1600) div 400 = (y - 1601) div 400 + (if 400 dvd y then 1 else 0)"
    by (rule div_step) simp_all
  have "400 dvd y \<Longrightarrow> 100 dvd y" by (rule dvd_trans [of _ 400]) simp_all
  moreover have "100 dvd y \<Longrightarrow> 4 dvd y" by (rule dvd_trans [of _ 100]) simp_all
  ultimately have l: "(if 4 dvd y then 1 else 0) - (if 100 dvd y then 1 else 0) + (if 400 dvd y then 1 else 0) =
      (if leap y then 1 else 0 :: int)"
    unfolding leap_def by (rule leap_sum)
  have "y + 1 - 1969 = y - 1968" "y + 1 - 1901 = y - 1900" "y + 1 - 1601 = y - 1600" by simp_all
  then have "day_from_year (y + 1) = 365 * (y + 1 - 1970) + (y - 1968) div 4 - (y - 1900) div 100 + (y - 1600) div 400"
    by (simp only: day_from_year_def)
  also have "\<dots> = day_from_year y + 365 +
      ((if 4 dvd y then 1 else 0) - (if 100 dvd y then 1 else 0) + (if 400 dvd y then 1 else 0))"
    unfolding a b c day_from_year_def by (rule year_sum)
  finally show ?thesis unfolding l by (simp add: days_in_year_def)
qed

lemma day_from_year_mono: "y \<le> z \<Longrightarrow> day_from_year y + 365 * (z - y) \<le> day_from_year z"
proof (induction "nat (z - y)" arbitrary: z)
  case (Suc n)
  then have "n = nat (z - 1 - y)" "y \<le> z - 1" by linarith+
  then have "day_from_year y + 365 * ((z - 1) - y) \<le> day_from_year (z - 1)" by (rule Suc.hyps(1))
  with day_from_year_Suc [of "z - 1"] show ?case by (auto simp: days_in_year_def split: if_splits)
qed simp

text \<open>The year of a day: an estimate from the mean length of a year, corrected by at most one.\<close>

definition year_estimate :: "date \<Rightarrow> int" where
  "year_estimate d = 1970 + (400 * d) div 146097"

definition getFullYear :: "date \<Rightarrow> int" where
  "getFullYear d =
     (let y = year_estimate d
      in if d < day_from_year y then y - 1
         else if day_from_year (y + 1) \<le> d then y + 1 else y)"

lemma day_from_year_bounds:
  "146097 * (y - 1970) - 800 \<le> 400 * day_from_year y"
  "400 * day_from_year y \<le> 146097 * (y - 1970) + 800"
proof -
  define a b c where "a = (y - 1969) div 4" and "b = (y - 1901) div 100" and "c = (y - 1601) div 400"
  have "4 * a \<le> y - 1969" "y - 1969 < 4 * a + 4" "100 * b \<le> y - 1901" "y - 1901 < 100 * b + 100"
    "400 * c \<le> y - 1601" "y - 1601 < 400 * c + 400"
    unfolding a_def b_def c_def using div_bounds by simp_all
  moreover have "400 * day_from_year y = 146000 * (y - 1970) + 400 * a - 400 * b + 400 * c"
    by (simp add: day_from_year_def a_def b_def c_def)
  note facts = calculation this
  show "146097 * (y - 1970) - 800 \<le> 400 * day_from_year y" using facts by (simp add: algebra_simps)
  show "400 * day_from_year y \<le> 146097 * (y - 1970) + 800" using facts by (simp add: algebra_simps)
qed

lemma year_estimate_bounds:
  "day_from_year (year_estimate d - 1) \<le> d" "d < day_from_year (year_estimate d + 2)"
proof -
  define q where "q = (400 * d) div 146097"
  have q: "146097 * q \<le> 400 * d" "400 * d < 146097 * q + 146097" unfolding q_def using div_bounds by simp_all
  have y: "year_estimate d = 1970 + q" by (simp add: year_estimate_def q_def)
  from day_from_year_bounds(2) [of "1969 + q"] q show "day_from_year (year_estimate d - 1) \<le> d"
    unfolding y by simp
  from day_from_year_bounds(1) [of "1972 + q"] q show "d < day_from_year (year_estimate d + 2)"
    unfolding y by simp
qed

lemma getFullYear_bounds: "day_from_year (getFullYear d) \<le> d" "d < day_from_year (getFullYear d + 1)"
  using year_estimate_bounds [of d] by (auto simp: getFullYear_def Let_def add.commute)

lemma getFullYear_unique: "day_from_year y \<le> d \<Longrightarrow> d < day_from_year (y + 1) \<Longrightarrow> getFullYear d = y"
proof (rule ccontr)
  assume a: "day_from_year y \<le> d" "d < day_from_year (y + 1)" "getFullYear d \<noteq> y"
  then consider "getFullYear d + 1 \<le> y" | "y + 1 \<le> getFullYear d" by linarith
  then show False
    using a getFullYear_bounds [of d] day_from_year_mono [of "getFullYear d + 1" y]
      day_from_year_mono [of "y + 1" "getFullYear d"] by cases auto
qed

section \<open>Months\<close>

definition month_start :: "bool \<Rightarrow> int \<Rightarrow> int" where
  "month_start lp m =
     [0, 31, 59, 90, 120, 151, 181, 212, 243, 273, 304, 334, 365] ! nat m + (if lp \<and> 2 \<le> m then 1 else 0)"

text \<open>\<open>MakeDay\<close>: the month may be any integer and carries into the year; so may the day.\<close>

definition make_day :: "int \<Rightarrow> int \<Rightarrow> int \<Rightarrow> date" where
  "make_day y m dt =
     (let ym = y + m div 12; mn = m mod 12
      in day_from_year ym + month_start (leap ym) mn + dt - 1)"

text \<open>\<open>new Date(y, m, d)\<close>: a year from 0 to 99 means the 20th century.\<close>

definition new_date :: "int \<Rightarrow> int \<Rightarrow> int \<Rightarrow> date" where
  "new_date y m dt = make_day (if 0 \<le> y \<and> y \<le> 99 then 1900 + y else y) m dt"

definition day_in_year :: "date \<Rightarrow> int" where
  "day_in_year d = d - day_from_year (getFullYear d)"

definition getMonth :: "date \<Rightarrow> int" where
  "getMonth d =
     (let l = leap (getFullYear d)
      in int (length (filter (\<lambda>m. month_start l m \<le> day_in_year d) [1, 2, 3, 4, 5, 6, 7, 8, 9, 10, 11])))"

definition getDate :: "date \<Rightarrow> int" where
  "getDate d = day_in_year d - month_start (leap (getFullYear d)) (getMonth d) + 1"

definition getDay :: "date \<Rightarrow> int" where
  "getDay d = (d + 4) mod 7"

definition getTime :: "date \<Rightarrow> int" where
  "getTime d = d * 86400000"

definition month_length :: "int \<Rightarrow> int \<Rightarrow> int" where
  "month_length y m = month_start (leap y) (m + 1) - month_start (leap y) m"

lemma months: "0 \<le> (m::int) \<Longrightarrow> m < 12 \<Longrightarrow> m \<in> {0, 1, 2, 3, 4, 5, 6, 7, 8, 9, 10, 11}"
proof -
  assume "0 \<le> m" "m < 12"
  then have "m \<in> set [0..11]" by simp
  then show ?thesis by (simp add: upto.simps)
qed

lemma month_start_0 [simp]: "month_start lp 0 = 0"
  by (simp add: month_start_def)

lemma month_start_12: "month_start (leap y) 12 = days_in_year y"
  by (simp add: month_start_def days_in_year_def)

lemma month_count:
  assumes "0 \<le> m" "m < 12" "month_start lp m \<le> k" "k < month_start lp (m + 1)"
  shows "int (length (filter (\<lambda>m. month_start lp m \<le> k) [1, 2, 3, 4, 5, 6, 7, 8, 9, 10, 11])) = m"
  using months [OF assms(1,2)] assms(3,4)
  by (cases lp) (auto simp: month_start_def)

lemma month_exists:
  assumes "0 \<le> k" "k < month_start lp 12"
  shows "\<exists>m. 0 \<le> m \<and> m < 12 \<and> month_start lp m \<le> k \<and> k < month_start lp (m + 1)"
proof (rule ccontr)
  assume n: "\<not> ?thesis"
  have "month_start lp (int j) \<le> k" if "j \<le> 12" for j
    using that
  proof (induction j)
    case (Suc j)
    then have "month_start lp (int j) \<le> k" "int j < 12" by auto
    with n have "\<not> k < month_start lp (int j + 1)" by auto
    then show ?case by (simp add: add.commute)
  qed (simp add: assms(1))
  from this [of 12] assms(2) show False by simp
qed

lemma month_start_bounds: "0 \<le> m \<Longrightarrow> m < 12 \<Longrightarrow> 0 \<le> month_start (leap y) m \<and> month_start (leap y) (m + 1) \<le> days_in_year y"
  using months [of m] by (auto simp: month_start_def days_in_year_def)

text \<open>A valid year, month and day are read back from the day they make.\<close>

lemma make_day_fields:
  assumes "0 \<le> m" "m < 12" "1 \<le> dt" "dt \<le> month_length y m"
  shows "getFullYear (make_day y m dt) = y" "getMonth (make_day y m dt) = m" "getDate (make_day y m dt) = dt"
proof -
  let ?d = "make_day y m dt"
  have d: "?d = day_from_year y + month_start (leap y) m + dt - 1"
    using assms(1,2) by (simp add: make_day_def)
  show y: "getFullYear ?d = y"
    using month_start_bounds [OF assms(1,2), of y] assms(3,4) day_from_year_Suc [of y]
    by (intro getFullYear_unique) (auto simp: d month_length_def)
  then have k: "day_in_year ?d = month_start (leap y) m + dt - 1" by (simp add: day_in_year_def d)
  show m: "getMonth ?d = m"
    unfolding getMonth_def Let_def y k
    using assms by (intro month_count) (auto simp: month_length_def)
  show "getDate ?d = dt" by (simp add: getDate_def y k m)
qed

lemma date_fields:
  "0 \<le> getMonth d" "getMonth d < 12" "1 \<le> getDate d" "getDate d \<le> month_length (getFullYear d) (getMonth d)"
  "make_day (getFullYear d) (getMonth d) (getDate d) = d"
proof -
  let ?y = "getFullYear d"
  have "0 \<le> day_in_year d" "day_in_year d < month_start (leap ?y) 12"
    using getFullYear_bounds [of d] day_from_year_Suc [of ?y]
    by (auto simp: day_in_year_def month_start_12)
  then obtain m where m: "0 \<le> m" "m < 12" "month_start (leap ?y) m \<le> day_in_year d"
    "day_in_year d < month_start (leap ?y) (m + 1)"
    using month_exists by blast
  then have gm: "getMonth d = m" unfolding getMonth_def Let_def by (intro month_count)
  with m show "0 \<le> getMonth d" "getMonth d < 12" "1 \<le> getDate d"
    "getDate d \<le> month_length ?y (getMonth d)" "make_day ?y (getMonth d) (getDate d) = d"
    by (auto simp: getDate_def month_length_def make_day_def day_in_year_def)
qed

lemma month_length_bounds: "0 \<le> m \<Longrightarrow> m < 12 \<Longrightarrow> 28 \<le> month_length y m \<and> month_length y m \<le> 31"
  using months [of m] by (auto simp: month_length_def month_start_def)

lemma make_day_carry: "make_day y m dt = make_day (y + m div 12) (m mod 12) dt"
  by (simp add: make_day_def)

end
