(* ===== verification/UI_Datepicker.thy ===== *)
theory UI_Datepicker
  imports JsDate JsVal
begin

text \<open>
  The date arithmetic of the jQuery UI datepicker: \<open>formatDate\<close>, \<open>parseDate\<close> and
  \<open>_possibleChars\<close> over format strings, relative dates, the restriction to the permitted range
  and the selection state of an instance. Every \<open>throw\<close> is an error value. A number field that
  became \<open>NaN\<close> is \<open>None\<close>.
\<close>

section \<open>Settings\<close>

record dp_names =
  dayNamesShort :: "string list"
  dayNames :: "string list"
  monthNamesShort :: "string list"
  monthNames :: "string list"

definition default_names :: dp_names where
  "default_names =
     \<lparr>dayNamesShort = [''Sun'', ''Mon'', ''Tue'', ''Wed'', ''Thu'', ''Fri'', ''Sat''],
      dayNames = [''Sunday'', ''Monday'', ''Tuesday'', ''Wednesday'', ''Thursday'', ''Friday'', ''Saturday''],
      monthNamesShort = [''Jan'', ''Feb'', ''Mar'', ''Apr'', ''May'', ''Jun'', ''Jul'', ''Aug'', ''Sep'', ''Oct'', ''Nov'', ''Dec''],
      monthNames = [''January'', ''February'', ''March'', ''April'', ''May'', ''June'', ''July'', ''August'',
        ''September'', ''October'', ''November'', ''December'']\<rparr>"

text \<open>\<open>"" + value\<close> of an integer, padded with zeros.\<close>

definition pad :: "nat \<Rightarrow> string \<Rightarrow> string" where
  "pad len s = replicate (len - length s) CHR ''0'' @ s"

text \<open>\<open>lookAhead\<close>: is the next format character the given one; if so it is consumed.\<close>

definition lookAhead :: "char \<Rightarrow> string \<Rightarrow> bool \<times> string" where
  "lookAhead c fmt = (case eat c fmt of Some r \<Rightarrow> (True, r) | None \<Rightarrow> (False, fmt))"

lemma lookAhead_less: "(b, r) = lookAhead c fmt \<Longrightarrow> length r < Suc (length fmt)"
  by (auto simp: lookAhead_def less_Suc_eq_le dest: eat_length split: option.splits)

section \<open>Formatting\<close>

definition ticksTo1970 :: int where
  "ticksTo1970 = ((1970 - 1) * 365 + 1970 div 4 - 1970 div 100 + 1970 div 400) * 24 * 60 * 60 * 10000000"

definition formatNumber :: "bool \<Rightarrow> int \<Rightarrow> nat \<Rightarrow> string" where
  "formatNumber doubled v len = (if doubled then pad len (int_str v) else int_str v)"

text \<open>An index out of range prints \<open>undefined\<close>.\<close>

definition formatName :: "bool \<Rightarrow> int \<Rightarrow> string list \<Rightarrow> string list \<Rightarrow> string" where
  "formatName doubled i shortNames longNames =
     (let names = (if doubled then longNames else shortNames)
      in if 0 \<le> i \<and> i < int (length names) then names ! nat i else ''undefined'')"

text \<open>What one directive prints; the flag says whether its letter is doubled.\<close>

text \<open>The operator \<open>%\<close>: the remainder has the sign of the dividend.\<close>

definition js_remainder :: "int \<Rightarrow> int \<Rightarrow> int" where
  "js_remainder a b = sgn a * (\<bar>a\<bar> mod \<bar>b\<bar>)"

lemma js_remainder_nonneg [simp]: "0 \<le> a \<Longrightarrow> 0 < b \<Longrightarrow> js_remainder a b = a mod b"
  by (cases "a = 0") (simp_all add: js_remainder_def)

definition format_directive :: "dp_names \<Rightarrow> date \<Rightarrow> char \<Rightarrow> bool \<Rightarrow> string" where
  "format_directive ns d c doubled =
     (if c = CHR ''d'' then formatNumber doubled (getDate d) 2
      else if c = CHR ''D'' then formatName doubled (getDay d) (dayNamesShort ns) (dayNames ns)
      else if c = CHR ''o'' then formatNumber doubled (d - new_date (getFullYear d) 0 0) 3
      else if c = CHR ''m'' then formatNumber doubled (getMonth d + 1) 2
      else if c = CHR ''M'' then formatName doubled (getMonth d) (monthNamesShort ns) (monthNames ns)
      else
        (if doubled then int_str (getFullYear d)
         else (if js_remainder (getFullYear d) 100 < 10 then ''0'' else []) @ int_str (js_remainder (getFullYear d) 100)))"

definition is_directive :: "char \<Rightarrow> bool" where
  "is_directive c \<longleftrightarrow> c \<in> set ''dDomMy''"

abbreviation quote :: char where
  "quote \<equiv> CHR 0x27"

function format_loop :: "dp_names \<Rightarrow> date \<Rightarrow> bool \<Rightarrow> string \<Rightarrow> string" where
  "format_loop ns d literal [] = []"
| "format_loop ns d literal (c # fmt) =
     (if c = quote then
        (case lookAhead quote fmt of
           (True, r) \<Rightarrow> quote # format_loop ns d literal r
         | (False, r) \<Rightarrow> format_loop ns d (\<not> literal) r)
      else if literal then c # format_loop ns d literal fmt
      else if is_directive c then
        (case lookAhead c fmt of
           (doubled, r) \<Rightarrow> format_directive ns d c doubled @ format_loop ns d literal r)
      else if c = CHR ''@'' then int_str (getTime d) @ format_loop ns d literal fmt
      else if c = CHR ''!'' then int_str (getTime d * 10000 + ticksTo1970) @ format_loop ns d literal fmt
      else c # format_loop ns d literal fmt)"
  by pat_completeness auto
termination
  by (relation "measure (\<lambda>(ns, d, l, fmt). length fmt)")
    (auto dest: lookAhead_less)

declare format_loop.simps(2) [simp del]

definition formatDate :: "dp_names \<Rightarrow> string \<Rightarrow> date option \<Rightarrow> string" where
  "formatDate ns fmt date = (case date of None \<Rightarrow> [] | Some d \<Rightarrow> format_loop ns d False fmt)"

section \<open>Parsing\<close>

datatype dp_error =
    InvalidArguments
  | MissingNumber nat
  | UnknownName nat
  | UnexpectedLiteral nat
  | ExtraCharacters string
  | InvalidDate
  | Diverges

record dp_fields =
  f_year :: "int option"
  f_month :: "int option"
  f_day :: "int option"
  f_doy :: int

text \<open>The input: how many characters were read, and the rest.\<close>

type_synonym dp_input = "nat \<times> string"

definition number_size :: "char \<Rightarrow> bool \<Rightarrow> nat" where
  "number_size c doubled =
     (if c = CHR ''@'' then 14 else if c = CHR ''!'' then 20
      else if c = CHR ''y'' \<and> doubled then 4 else if c = CHR ''o'' then 3 else 2)"

definition getNumber :: "char \<Rightarrow> bool \<Rightarrow> dp_input \<Rightarrow> dp_error + int \<times> dp_input" where
  "getNumber c doubled inp =
     (case inp of
        (i, v) \<Rightarrow>
          (let sz = number_size c doubled; minSize = (if c = CHR ''y'' then sz else 1);
               num = take sz (takeWhile is_digit v)
           in if length num < minSize then Inl (MissingNumber i)
              else Inr (int (digits_val num), i + length num, drop (length num) v)))"

text \<open>The names with their indices, the longest first; names of one length keep their order.\<close>

definition sorted_names :: "string list \<Rightarrow> (nat \<times> string) list" where
  "sorted_names names =
     sort_by (\<lambda>a b. length (snd b) < length (snd a)) (zip [0..<length names] names)"

definition getName :: "bool \<Rightarrow> string list \<Rightarrow> string list \<Rightarrow> dp_input \<Rightarrow> dp_error + int \<times> dp_input" where
  "getName doubled shortNames longNames inp =
     (case inp of
        (i, v) \<Rightarrow>
          (case find (\<lambda>(k, name). to_lower (take (length name) v) = to_lower name)
                  (sorted_names (if doubled then longNames else shortNames)) of
             None \<Rightarrow> Inl (UnknownName i)
           | Some (k, name) \<Rightarrow> Inr (int k + 1, i + length name, drop (length name) v)))"

definition checkLiteral :: "char \<Rightarrow> dp_input \<Rightarrow> dp_error + dp_input" where
  "checkLiteral c inp =
     (case inp of (i, v) \<Rightarrow> (case eat c v of Some r \<Rightarrow> Inr (i + 1, r) | None \<Rightarrow> Inl (UnexpectedLiteral i)))"

text \<open>The fields of \<open>new Date(ms)\<close>; a time outside the range of dates has no fields.\<close>

definition date_of_ms :: "int \<Rightarrow> date option" where
  "date_of_ms ms = (if \<bar>ms\<bar> \<le> 8640000000000000 then Some (ms div 86400000) else None)"

definition set_date :: "date option \<Rightarrow> dp_fields \<Rightarrow> dp_fields" where
  "set_date d f =
     f\<lparr>f_year := map_option getFullYear d, f_month := map_option (\<lambda>x. getMonth x + 1) d, f_day := map_option getDate d\<rparr>"

text \<open>Division that truncates toward zero.\<close>

definition trunc_div :: "int \<Rightarrow> int \<Rightarrow> int" where
  "trunc_div a b = sgn a * (\<bar>a\<bar> div b)"

definition parse_directive :: "dp_names \<Rightarrow> char \<Rightarrow> bool \<Rightarrow> dp_fields \<Rightarrow> dp_input \<Rightarrow> dp_error + dp_fields \<times> dp_input" where
  "parse_directive ns c doubled f inp =
     (if c = CHR ''D'' then
        (case getName doubled (dayNamesShort ns) (dayNames ns) inp of
           Inl e \<Rightarrow> Inl e | Inr (_, inp') \<Rightarrow> Inr (f, inp'))
      else if c = CHR ''M'' then
        (case getName doubled (monthNamesShort ns) (monthNames ns) inp of
           Inl e \<Rightarrow> Inl e | Inr (n, inp') \<Rightarrow> Inr (f\<lparr>f_month := Some n\<rparr>, inp'))
      else
        (case getNumber c doubled inp of
           Inl e \<Rightarrow> Inl e
         | Inr (n, inp') \<Rightarrow>
             Inr (if c = CHR ''d'' then f\<lparr>f_day := Some n\<rparr>
                  else if c = CHR ''o'' then f\<lparr>f_doy := n\<rparr>
                  else if c = CHR ''m'' then f\<lparr>f_month := Some n\<rparr>
                  else if c = CHR ''y'' then f\<lparr>f_year := Some n\<rparr>
                  else if c = CHR ''@'' then set_date (date_of_ms n) f
                  else set_date (date_of_ms (trunc_div (n - ticksTo1970) 10000)) f, inp')))"

definition is_parsed :: "char \<Rightarrow> bool" where
  "is_parsed c \<longleftrightarrow> c \<in> set ''dDomMy@!''"

function parseDate_loop :: "dp_names \<Rightarrow> bool \<Rightarrow> string \<Rightarrow> dp_fields \<Rightarrow> dp_input \<Rightarrow> dp_error + dp_fields \<times> dp_input" where
  "parseDate_loop ns literal [] f inp = Inr (f, inp)"
| "parseDate_loop ns literal (c # fmt) f inp =
     (if c = quote then
        (case lookAhead quote fmt of
           (True, r) \<Rightarrow>
             (case checkLiteral quote inp of Inl e \<Rightarrow> Inl e | Inr inp' \<Rightarrow> parseDate_loop ns literal r f inp')
         | (False, r) \<Rightarrow> parseDate_loop ns (\<not> literal) r f inp)
      else if \<not> literal \<and> is_parsed c then
        (case lookAhead c fmt of
           (doubled, r) \<Rightarrow>
             (case parse_directive ns c doubled f inp of
                Inl e \<Rightarrow> Inl e
              | Inr (f', inp') \<Rightarrow> parseDate_loop ns literal r f' inp'))
      else
        (case checkLiteral c inp of Inl e \<Rightarrow> Inl e | Inr inp' \<Rightarrow> parseDate_loop ns literal fmt f inp'))"
  by pat_completeness auto
termination
  by (relation "measure (\<lambda>(ns, l, fmt, f, inp). length fmt)")
    (auto dest: lookAhead_less)

declare parseDate_loop.simps(2) [simp del]

section \<open>Months\<close>

definition getDaysInMonth :: "int \<Rightarrow> int \<Rightarrow> int" where
  "getDaysInMonth year month = 32 - getDate (new_date year month 32)"

definition getFirstDayOfMonth :: "int \<Rightarrow> int \<Rightarrow> int" where
  "getFirstDayOfMonth year month = getDay (new_date year month 1)"

lemma getDate_le: "getDate d \<le> 31"
  using date_fields(1,2,4) [of d] month_length_bounds [of "getMonth d" "getFullYear d"] by linarith

lemma getDaysInMonth_pos: "1 \<le> getDaysInMonth y m"
  using getDate_le by (simp add: getDaysInMonth_def)

section \<open>The date a string denotes\<close>

text \<open>The loop that turns a day of the year into a month and a day.\<close>

function doy_loop :: "int \<Rightarrow> int \<Rightarrow> int \<Rightarrow> int \<times> int" where
  "doy_loop year month day =
     (let dim = getDaysInMonth year (month - 1)
      in if day \<le> dim then (month, day) else doy_loop year (month + 1) (day - dim))"
  by pat_completeness auto
termination
proof (relation "measure (\<lambda>(y, m, d). nat d)", goal_cases)
  case (2 y m d dim)
  then show ?case using getDaysInMonth_pos [of y "m - 1"] by auto
qed simp

declare doy_loop.simps [simp del]

text \<open>The year: the current one when none was read, and a century for a short one.\<close>

definition full_year :: "int \<Rightarrow> int option \<Rightarrow> int option \<Rightarrow> int option" where
  "full_year this_year cutoff y =
     (case y of
        None \<Rightarrow> None
      | Some n \<Rightarrow>
          Some (if n = -1 then this_year
                else if n < 100 then
                  n + this_year - js_remainder this_year 100 + (case cutoff of Some c \<Rightarrow> if n \<le> c then 0 else -100 | None \<Rightarrow> -100)
                else n))"

definition finish_date :: "int \<Rightarrow> int option \<Rightarrow> dp_fields \<Rightarrow> dp_error + date" where
  "finish_date this_year cutoff f =
     (case (full_year this_year cutoff (f_year f), f_month f, f_day f) of
        (Some year, m, dd) \<Rightarrow>
          (let (m', dd') = (if -1 < f_doy f
                            then (case doy_loop year 1 (f_doy f) of (a, b) \<Rightarrow> (Some a, Some b)) else (m, dd))
           in case (m', dd') of
                (Some month, Some day) \<Rightarrow>
                  (let d = new_date year (month - 1) day
                   in if getFullYear d \<noteq> year \<or> getMonth d + 1 \<noteq> month \<or> getDate d \<noteq> day
                      then Inl InvalidDate else Inr d)
              | _ \<Rightarrow> Inl InvalidDate)
      | (None, _, _) \<Rightarrow> if -1 < f_doy f then Inl Diverges else Inl InvalidDate)"

definition parseDate :: "dp_names \<Rightarrow> int \<Rightarrow> int option \<Rightarrow> string option \<Rightarrow> string option \<Rightarrow> dp_error + date option" where
  "parseDate ns this_year cutoff fmt v =
     (case (fmt, v) of
        (Some fm, Some value) \<Rightarrow>
          if value = [] then Inr None
          else (case parseDate_loop ns False fm \<lparr>f_year = Some (-1), f_month = Some (-1), f_day = Some (-1), f_doy = -1\<rparr>
                       (0, value) of
                  Inl e \<Rightarrow> Inl e
                | Inr (f, (i, rest)) \<Rightarrow>
                    if rest \<noteq> [] \<and> \<not> is_space (hd rest) then Inl (ExtraCharacters rest)
                    else map_sum id Some (finish_date this_year cutoff f))
      | _ \<Rightarrow> Inl InvalidArguments)"

section \<open>Other functions of a format and of a date\<close>

text \<open>\<open>None\<close> accepts anything.\<close>

function possible_loop :: "bool \<Rightarrow> string \<Rightarrow> string option" where
  "possible_loop literal [] = Some []"
| "possible_loop literal (c # fmt) =
     (if c = quote then
        (case lookAhead quote fmt of
           (True, r) \<Rightarrow> map_option ((#) quote) (possible_loop literal r)
         | (False, r) \<Rightarrow> possible_loop (\<not> literal) r)
      else if literal then map_option ((#) c) (possible_loop literal fmt)
      else if c \<in> set ''dmy@'' then map_option ((@) ''0123456789'') (possible_loop literal fmt)
      else if c \<in> set ''DM'' then None
      else map_option ((#) c) (possible_loop literal fmt))"
  by pat_completeness auto
termination
  by (relation "measure (\<lambda>(l, fmt). length fmt)") (auto dest: lookAhead_less)

declare possible_loop.simps(2) [simp del]

definition possibleChars :: "string \<Rightarrow> string option" where
  "possibleChars fmt = possible_loop False fmt"

definition noWeekends :: "date \<Rightarrow> bool \<times> string" where
  "noWeekends d = (0 < getDay d \<and> getDay d < 6, [])"

text \<open>The Thursday of the week decides its year.\<close>

definition iso8601Week :: "date \<Rightarrow> int" where
  "iso8601Week d =
     (let thursday = d + 4 - (if getDay d = 0 then 7 else getDay d);
          jan1 = make_day (getFullYear thursday) 0 1
      in (thursday - jan1) div 7 + 1)"

section \<open>An instance\<close>

text \<open>An instance attached to an input field; an inline one has no input value.\<close>

datatype dp_spec = SNone | SString string | SNumber int | SNaN | SDate date

datatype dp_period = Day | Month | Year | NoPeriod

record dp_inst =
  dateFormat :: string
  names :: dp_names
  shortYearCutoff :: "int + string"
  minDate :: dp_spec
  maxDate :: dp_spec
  defaultDate :: dp_spec
  yearRange :: "string option"
  numberOfMonths :: "int \<times> int"
  inputVal :: "string option"
  lastVal :: "string option"
  selectedDay :: int
  selectedMonth :: int
  selectedYear :: int
  drawMonth :: int
  drawYear :: int
  currentDay :: int
  currentMonth :: int
  currentYear :: int
  changes :: "(int \<times> int) list"   \<comment> \<open>the calls of \<open>onChangeMonthYear\<close>\<close>

text \<open>
  The cutoff year: a text is added to the current year; in \<open>parseDate\<close> a result that is zero or not a
  number gives way to the default, \<open>"+10"\<close>.
\<close>

definition cutoff_of :: "date \<Rightarrow> int + string \<Rightarrow> int option" where
  "cutoff_of today c =
     (let year = js_remainder (getFullYear today) 100;
          n = (case c of
                 Inl n \<Rightarrow> Some n
               | Inr s \<Rightarrow> (case parse_int s of Fin i \<Rightarrow> Some (year + i) | _ \<Rightarrow> None))
      in if n = None \<or> n = Some 0 then Some (year + 10) else n)"

definition parse_for :: "date \<Rightarrow> dp_inst \<Rightarrow> string option \<Rightarrow> dp_error + date option" where
  "parse_for today inst v =
     parseDate (names inst) (getFullYear today) (cutoff_of today (shortYearCutoff inst)) (Some (dateFormat inst)) v"

definition dp_getDate :: "dp_inst \<Rightarrow> date option" where
  "dp_getDate inst =
     (if currentYear inst = 0 \<or> inputVal inst = Some [] then None
      else Some (new_date (currentYear inst) (currentMonth inst) (currentDay inst)))"

text \<open>The matches of \<open>/([+\-]?[0-9]+)\s*(d|D|w|W|m|M|y|Y)?/g\<close>, the unit in lower case.\<close>

definition unit_at :: "string \<Rightarrow> char \<times> string" where
  "unit_at s =
     (case dropWhile is_space s of
        c # r \<Rightarrow> if char_lower c \<in> set ''dwmy'' then (char_lower c, r) else (CHR ''d'', c # r)
      | [] \<Rightarrow> (CHR ''d'', []))"

lemma unit_at_length: "(u, r) = unit_at s \<Longrightarrow> length r \<le> length s"
proof -
  have "length (dropWhile is_space s) \<le> length s" by (simp add: length_dropWhile_le)
  then show "(u, r) = unit_at s \<Longrightarrow> length r \<le> length s"
    by (auto simp: unit_at_def split: list.splits if_splits)
qed

function offsets :: "string \<Rightarrow> (int \<times> char) list" where
  "offsets [] = []"
| "offsets (c # s) =
     (let signed = (c = CHR ''+'' \<or> c = CHR ''-''); body = (if signed then s else c # s);
          ds = takeWhile is_digit body
      in if ds = [] then offsets s
         else let (u, r) = unit_at (dropWhile is_digit body)
              in (if c = CHR ''-'' then - int (digits_val ds) else int (digits_val ds), u) # offsets r)"
  by pat_completeness auto
termination
proof (relation "measure length", goal_cases)
  case (3 c s signed body ds ur u r)
  have "length (dropWhile is_digit body) < Suc (length s)"
    using 3 length_dropWhile_le [of is_digit s]
    by (auto simp: le_imp_less_Suc split: if_splits)
  moreover have "length r \<le> length (dropWhile is_digit body)" using unit_at_length 3(5,6) by simp
  ultimately show ?case by simp
qed auto

fun apply_offset :: "int \<times> char \<Rightarrow> int \<times> int \<times> int \<Rightarrow> int \<times> int \<times> int" where
  "apply_offset (n, u) (year, month, day) =
     (if u = CHR ''w'' then (year, month, day + n * 7)
      else if u = CHR ''m'' then (year, month + n, min day (getDaysInMonth year (month + n)))
      else if u = CHR ''y'' then (year + n, month, min day (getDaysInMonth (year + n) month))
      else (year, month, day + n))"

text \<open>A string that is not a date in the instance's format is a relative date.\<close>

definition offsetString :: "date \<Rightarrow> dp_inst \<Rightarrow> string \<Rightarrow> date option" where
  "offsetString today inst s =
     (case parse_for today inst (Some s) of
        Inr d \<Rightarrow> d
      | Inl _ \<Rightarrow>
          (let base = (case (if take 1 (to_lower s) = ''c'' then dp_getDate inst else None) of Some d \<Rightarrow> d | None \<Rightarrow> today);
               (y, m, dd) = fold apply_offset (offsets s) (getFullYear base, getMonth base, getDate base)
           in Some (new_date y m dd)))"

definition determineDate :: "date \<Rightarrow> dp_inst \<Rightarrow> dp_spec \<Rightarrow> date option \<Rightarrow> date option" where
  "determineDate today inst spec dflt =
     (case spec of
        SNone \<Rightarrow> dflt
      | SString s \<Rightarrow> if s = [] then dflt else offsetString today inst s
      | SNumber n \<Rightarrow> Some (today + n)
      | SNaN \<Rightarrow> dflt
      | SDate d \<Rightarrow> Some d)"

definition getMinMaxDate :: "date \<Rightarrow> dp_inst \<Rightarrow> dp_spec \<Rightarrow> date option" where
  "getMinMaxDate today inst spec = determineDate today inst spec None"

definition restrictMinMax :: "date \<Rightarrow> dp_inst \<Rightarrow> date \<Rightarrow> date" where
  "restrictMinMax today inst d =
     (let mn = getMinMaxDate today inst (minDate inst); mx = getMinMaxDate today inst (maxDate inst);
          d1 = (case mn of Some a \<Rightarrow> if d < a then a else d | None \<Rightarrow> d)
      in case mx of Some b \<Rightarrow> if b < d1 then b else d1 | None \<Rightarrow> d1)"

definition notifyChange :: "dp_inst \<Rightarrow> dp_inst" where
  "notifyChange inst = inst\<lparr>changes := changes inst @ [(selectedYear inst, selectedMonth inst + 1)]\<rparr>"

definition select_date :: "date \<Rightarrow> dp_inst \<Rightarrow> dp_inst" where
  "select_date d inst =
     inst\<lparr>selectedDay := getDate d, selectedMonth := getMonth d, drawMonth := getMonth d,
          selectedYear := getFullYear d, drawYear := getFullYear d\<rparr>"

definition adjustInstDate :: "date \<Rightarrow> int \<Rightarrow> dp_period \<Rightarrow> dp_inst \<Rightarrow> dp_inst" where
  "adjustInstDate today offset period inst =
     (let year = selectedYear inst + (if period = Year then offset else 0);
          month = selectedMonth inst + (if period = Month then offset else 0);
          day = min (selectedDay inst) (getDaysInMonth year month) + (if period = Day then offset else 0);
          inst1 = select_date (restrictMinMax today inst (new_date year month day)) inst
      in if period = Month \<or> period = Year then notifyChange inst1 else inst1)"

definition getDefaultDate :: "date \<Rightarrow> dp_inst \<Rightarrow> date" where
  "getDefaultDate today inst =
     restrictMinMax today inst
       (case determineDate today inst (defaultDate inst) (Some today) of Some d \<Rightarrow> d | None \<Rightarrow> today)"

definition setDateFromField :: "date \<Rightarrow> bool \<Rightarrow> dp_inst \<Rightarrow> dp_inst" where
  "setDateFromField today noDefault inst =
     (if inputVal inst = lastVal inst then inst
      else
        let dflt = getDefaultDate today inst;
            (d, shown) = (case parse_for today inst (inputVal inst) of
                            Inr (Some d) \<Rightarrow> (d, inputVal inst)
                          | Inr None \<Rightarrow> (dflt, inputVal inst)
                          | Inl _ \<Rightarrow> (dflt, if noDefault then Some [] else inputVal inst));
            set = (shown \<noteq> None \<and> shown \<noteq> Some []);
            inst1 = select_date d (inst\<lparr>lastVal := inputVal inst\<rparr>)
        in adjustInstDate today 0 NoPeriod
             (inst1\<lparr>currentDay := (if set then getDate d else 0),
                    currentMonth := (if set then getMonth d else 0),
                    currentYear := (if set then getFullYear d else 0)\<rparr>))"

definition dp_formatDate :: "dp_inst \<Rightarrow> string \<times> dp_inst" where
  "dp_formatDate inst =
     (let inst1 = inst\<lparr>currentDay := selectedDay inst, currentMonth := selectedMonth inst, currentYear := selectedYear inst\<rparr>;
          d = new_date (currentYear inst1) (currentMonth inst1) (currentDay inst1)
      in (formatDate (names inst1) (dateFormat inst1) (Some d), inst1))"

definition setDate :: "date \<Rightarrow> dp_spec \<Rightarrow> bool \<Rightarrow> dp_inst \<Rightarrow> dp_inst" where
  "setDate today spec noChange inst =
     (let clear = (spec = SNone \<or> spec = SString [] \<or> spec = SNumber 0 \<or> spec = SNaN);
          d = restrictMinMax today inst
                (case determineDate today inst spec (Some today) of Some d \<Rightarrow> d | None \<Rightarrow> today);
          inst1 = (select_date d inst)\<lparr>currentDay := getDate d, currentMonth := getMonth d, currentYear := getFullYear d\<rparr>;
          inst2 = (if (selectedMonth inst \<noteq> selectedMonth inst1 \<or> selectedYear inst \<noteq> selectedYear inst1) \<and> \<not> noChange
                   then notifyChange inst1 else inst1);
          inst3 = adjustInstDate today 0 NoPeriod inst2
      in case inputVal inst3 of
           None \<Rightarrow> inst3
         | Some _ \<Rightarrow>
             if clear then inst3\<lparr>inputVal := Some []\<rparr>
             else (case dp_formatDate inst3 of (s, inst4) \<Rightarrow> inst4\<lparr>inputVal := Some s\<rparr>))"

text \<open>
  One end of the year range: a number relative to the current year when it has a sign. \<open>NaN\<close> and
  zero do not restrict.
\<close>

definition year_limit :: "date \<Rightarrow> string \<Rightarrow> int option" where
  "year_limit today s =
     (case parse_int s of
        Fin i \<Rightarrow>
          (let y = i + (if CHR ''+'' \<in> set s \<or> CHR ''-'' \<in> set s then getFullYear today else 0)
           in if y = 0 then None else Some y)
      | _ \<Rightarrow> None)"

text \<open>A range without a colon throws, which is \<open>None\<close>.\<close>

definition isInRange :: "date \<Rightarrow> dp_inst \<Rightarrow> date \<Rightarrow> bool option" where
  "isInRange today inst d =
     (let mn = getMinMaxDate today inst (minDate inst); mx = getMinMaxDate today inst (maxDate inst);
          in_days = ((case mn of Some a \<Rightarrow> a \<le> d | None \<Rightarrow> True) \<and> (case mx of Some b \<Rightarrow> d \<le> b | None \<Rightarrow> True))
      in case yearRange inst of
           None \<Rightarrow> Some in_days
         | Some years \<Rightarrow>
             if years = [] then Some in_days
             else (case split_on (CHR '':'') years of
                     a # b # _ \<Rightarrow>
                       Some (in_days \<and>
                         (case year_limit today a of Some y \<Rightarrow> y \<le> getFullYear d | None \<Rightarrow> True) \<and>
                         (case year_limit today b of Some y \<Rightarrow> getFullYear d \<le> y | None \<Rightarrow> True))
                   | _ \<Rightarrow> None))"

definition canAdjustMonth :: "date \<Rightarrow> int \<Rightarrow> int \<Rightarrow> int \<Rightarrow> dp_inst \<Rightarrow> bool option" where
  "canAdjustMonth today offset curYear curMonth inst =
     (let (a, b) = numberOfMonths inst;
          d = new_date curYear (curMonth + (if offset < 0 then offset else a * b)) 1;
          d1 = (if offset < 0 then d + getDaysInMonth (getFullYear d) (getMonth d) - 1 else d)
      in isInRange today inst d1)"

end
