(* ===== verification/UI_Datepicker_Props.thy ===== *)
theory UI_Datepicker_Props
  imports UI_Datepicker
begin

text \<open>
  What the datepicker's date functions guarantee: formats of fixed width are parsed back to the
  date they print, moving by months keeps the day inside the month, dates are restricted to the
  permitted range, and week numbers follow the ISO definition.
\<close>

section \<open>Months\<close>

lemma new_date_late: "100 \<le> y \<Longrightarrow> new_date y m dt = make_day y m dt"
  by (simp add: new_date_def)

lemma make_day_32:
  assumes "0 \<le> m" "m < 12"
  shows "getDate (make_day y m 32) = 32 - month_length y m"
proof -
  let ?n = "32 - month_length y m"
  have n: "1 \<le> ?n" "?n \<le> 4" using month_length_bounds [OF assms, of y] by auto
  show ?thesis
  proof (cases "m = 11")
    case True
    have "make_day y m 32 = make_day (y + 1) 0 ?n"
      using True day_from_year_Suc [of y] month_start_12 [of y]
      by (simp add: make_day_def month_length_def)
    moreover have "?n \<le> month_length (y + 1) 0" using n month_length_bounds [of 0 "y + 1"] by simp
    ultimately show ?thesis using n make_day_fields(3) [of 0 ?n "y + 1"] by simp
  next
    case False
    then have m: "0 \<le> m + 1" "m + 1 < 12" using assms by simp_all
    have "make_day y m 32 = make_day y (m + 1) ?n"
      using assms m by (simp add: make_day_def month_length_def)
    moreover have "?n \<le> month_length y (m + 1)" using n month_length_bounds [OF m, of y] by simp
    ultimately show ?thesis using n make_day_fields(3) [OF m, of ?n y] by simp
  qed
qed

lemma getDaysInMonth_length:
  assumes "100 \<le> y"
  shows "getDaysInMonth y m = month_length (y + m div 12) (m mod 12)"
  using make_day_32 [of "m mod 12" "y + m div 12"] make_day_carry [of y m 32]
  by (simp add: getDaysInMonth_def new_date_late [OF assms])

text \<open>
  Moving the selection by months keeps the day inside the target month: with no range set, the
  new selection is in the month that the offset reaches (carrying into the year), on the old day
  or, when that month is shorter, on its last day, and the change is announced once.
\<close>

theorem adjust_months:
  fixes k :: int
  assumes "minDate inst = SNone" and "maxDate inst = SNone" and "100 \<le> selectedYear inst"
    and "1 \<le> selectedDay inst"
  defines "y \<equiv> selectedYear inst + (selectedMonth inst + k) div 12"
    and "m \<equiv> (selectedMonth inst + k) mod 12"
  shows "selectedYear (adjustInstDate today k Month inst) = y \<and>
    selectedMonth (adjustInstDate today k Month inst) = m \<and>
    selectedDay (adjustInstDate today k Month inst) = min (selectedDay inst) (month_length y m) \<and>
    changes (adjustInstDate today k Month inst) = changes inst @ [(y, m + 1)]"
proof -
  let ?d = "min (selectedDay inst) (month_length y m)"
  have m: "0 \<le> m" "m < 12" by (simp_all add: m_def)
  have d: "1 \<le> ?d" "?d \<le> month_length y m" using assms(4) month_length_bounds [OF m, of y] by auto
  have nd: "new_date (selectedYear inst) (selectedMonth inst + k) ?d = make_day y m ?d"
    using make_day_carry [of "selectedYear inst" "selectedMonth inst + k" ?d]
    by (simp add: new_date_late [OF assms(3)] y_def m_def)
  note f = make_day_fields [OF m d]
  show ?thesis
    using assms(1,2) getDaysInMonth_length [OF assms(3), of "selectedMonth inst + k"] nd f
    by (simp add: adjustInstDate_def Let_def restrictMinMax_def getMinMaxDate_def determineDate_def select_date_def
        notifyChange_def y_def [symmetric] m_def [symmetric])
qed

definition demo_inst :: dp_inst where
  "demo_inst =
     \<lparr>dateFormat = ''yy-mm-dd'', names = default_names, shortYearCutoff = Inr ''+10'', minDate = SNone,
      maxDate = SNone, defaultDate = SNone, yearRange = None, numberOfMonths = (1, 1), inputVal = None,
      lastVal = None, selectedDay = 31, selectedMonth = 0, selectedYear = 2024, drawMonth = 0, drawYear = 2024,
      currentDay = 31, currentMonth = 0, currentYear = 2024, changes = []\<rparr>"

theorem adjust_months_witness:
  "selectedDay (adjustInstDate 0 1 Month demo_inst) = 29 \<and> selectedMonth (adjustInstDate 0 1 Month demo_inst) = 1 \<and>
   selectedMonth (adjustInstDate 0 (-1) Month demo_inst) = 11 \<and> selectedYear (adjustInstDate 0 (-1) Month demo_inst) = 2023"
  using adjust_months [of demo_inst 0 1] adjust_months [of demo_inst 0 "-1"]
  by (simp add: demo_inst_def month_length_def month_start_def leap_def)

section \<open>The permitted range\<close>

text \<open>
  \<open>_restrictMinMax\<close> returns a date of the permitted range whenever that range is not empty, and
  leaves a date that is already permitted unchanged.
\<close>

theorem restrict_in_range:
  assumes "getMinMaxDate today inst (minDate inst) = Some a" and "getMinMaxDate today inst (maxDate inst) = Some b"
    and "a \<le> b"
  shows "a \<le> restrictMinMax today inst d \<and> restrictMinMax today inst d \<le> b \<and>
    (a \<le> d \<and> d \<le> b \<longrightarrow> restrictMinMax today inst d = d)"
  using assms by (auto simp: restrictMinMax_def Let_def)

theorem restrict_in_range_witness:
  "5 \<le> restrictMinMax 0 (demo_inst\<lparr>minDate := SDate 5, maxDate := SNumber 9\<rparr>) 100 \<and>
   restrictMinMax 0 (demo_inst\<lparr>minDate := SDate 5, maxDate := SNumber 9\<rparr>) 100 \<le> 9"
  using restrict_in_range [of 0 "demo_inst\<lparr>minDate := SDate 5, maxDate := SNumber 9\<rparr>" 5 9 100]
  by (simp add: getMinMaxDate_def determineDate_def)

section \<open>Weeks\<close>

lemma jan1: "make_day y 0 1 = day_from_year y"
  by (simp add: make_day_def)

text \<open>
  \<open>iso8601Week\<close> numbers the weeks of a year from 1 to at most 53, and the days from a Monday to
  the following Sunday have the same number.
\<close>

theorem iso_week:
  "1 \<le> iso8601Week d \<and> iso8601Week d \<le> 53 \<and>
   (getDay d = 1 \<longrightarrow> (\<forall>k \<in> {0..6}. iso8601Week (d + k) = iso8601Week d))"
proof -
  define t where "t = d + 4 - (if getDay d = 0 then 7 else getDay d)"
  have w: "iso8601Week d = (t - day_from_year (getFullYear t)) div 7 + 1"
    by (simp add: iso8601Week_def Let_def t_def jan1)
  have "0 \<le> t - day_from_year (getFullYear t)" "t - day_from_year (getFullYear t) \<le> 365"
    using getFullYear_bounds [of t] day_from_year_Suc [of "getFullYear t"]
    by (auto simp: days_in_year_def split: if_splits)
  then have "0 \<le> (t - day_from_year (getFullYear t)) div 7" "(t - day_from_year (getFullYear t)) div 7 \<le> 52"
    using zdiv_mono1 [of "t - day_from_year (getFullYear t)" 365 7] by auto
  moreover have "iso8601Week (d + k) = iso8601Week d" if "getDay d = 1" "k \<in> {0..6}" for k
  proof -
    have "getDay (d + k) = (1 + k) mod 7" using that(1) by (simp add: getDay_def) (metis add.commute add.left_commute mod_add_left_eq)
    moreover have "(1 + k) mod 7 = (if k = 6 then 0 else 1 + k)" using that(2) by auto
    ultimately have "d + k + 4 - (if getDay (d + k) = 0 then 7 else getDay (d + k)) = d + 3"
      using that(2) by auto
    moreover have "d + 4 - (if getDay d = 0 then 7 else getDay d) = d + 3" using that(1) by simp
    ultimately show ?thesis by (simp only: iso8601Week_def Let_def)
  qed
  ultimately show ?thesis by (simp add: w)
qed

theorem iso_week_witness:
  "1 \<le> iso8601Week 4 \<and> iso8601Week 4 \<le> 53 \<and> iso8601Week (4 + 6) = iso8601Week 4"
proof -
  have "getDay 4 = 1" by (simp add: getDay_def)
  with iso_week [of 4] have w: "1 \<le> iso8601Week 4" "iso8601Week 4 \<le> 53" "\<forall>k \<in> {0..6}. iso8601Week (4 + k) = iso8601Week 4"
    by simp_all
  from w(3) have "iso8601Week (4 + 6) = iso8601Week 4" by (rule bspec) simp
  with w show ?thesis by blast
qed

section \<open>Printing and parsing\<close>

text \<open>The fixed-width directives and literal characters.\<close>

datatype fld = FDay | FMonth | FYear | FDoy | FLit char

fun fld_fmt :: "fld \<Rightarrow> string" where
  "fld_fmt FDay = ''dd''"
| "fld_fmt FMonth = ''mm''"
| "fld_fmt FYear = ''yy''"
| "fld_fmt FDoy = ''oo''"
| "fld_fmt (FLit c) = [c]"

definition plain_char :: "char \<Rightarrow> bool" where
  "plain_char c \<longleftrightarrow> \<not> is_parsed c \<and> c \<noteq> quote"

fun fld_ok :: "fld \<Rightarrow> bool" where
  "fld_ok (FLit c) = plain_char c"
| "fld_ok _ = True"

definition fmt_of :: "fld list \<Rightarrow> string" where
  "fmt_of fs = concat (map fld_fmt fs)"

definition day_number :: "date \<Rightarrow> int" where
  "day_number d = day_in_year d + 1"

fun fld_text :: "date \<Rightarrow> fld \<Rightarrow> string" where
  "fld_text d FDay = pad 2 (int_str (getDate d))"
| "fld_text d FMonth = pad 2 (int_str (getMonth d + 1))"
| "fld_text d FYear = int_str (getFullYear d)"
| "fld_text d FDoy = pad 3 (int_str (day_number d))"
| "fld_text d (FLit c) = [c]"

lemma lookAhead_same [simp]: "lookAhead c (c # r) = (True, r)"
  by (simp add: lookAhead_def)

lemma directive_chars:
  "is_directive CHR ''d''" "is_directive CHR ''m''" "is_directive CHR ''y''" "is_directive CHR ''o''"
  "is_parsed CHR ''d''" "is_parsed CHR ''m''" "is_parsed CHR ''y''" "is_parsed CHR ''o''"
  by (simp_all add: is_directive_def is_parsed_def)

lemma plain_not_directive: "plain_char c \<Longrightarrow> \<not> is_directive c \<and> c \<noteq> quote \<and> c \<noteq> CHR ''@'' \<and> c \<noteq> CHR ''!'' \<and> \<not> is_parsed c"
  by (auto simp: plain_char_def is_directive_def is_parsed_def)

lemma doy_offset:
  assumes "100 \<le> getFullYear d"
  shows "d - new_date (getFullYear d) 0 0 = day_number d"
  using new_date_late [OF assms] by (simp add: make_day_def day_number_def day_in_year_def)

lemma format_fld:
  assumes "fld_ok f" "100 \<le> getFullYear d"
  shows "format_loop ns d False (fld_fmt f @ r) = fld_text d f @ format_loop ns d False r"
  using assms doy_offset [OF assms(2)]
  by (cases f) (simp_all add: format_loop.simps(2) directive_chars format_directive_def formatNumber_def plain_not_directive)

lemma format_fields:
  assumes "list_all fld_ok fs" "100 \<le> getFullYear d"
  shows "format_loop ns d False (fmt_of fs) = concat (map (fld_text d) fs)"
  using assms(1) by (induction fs) (simp_all add: fmt_of_def format_fld assms(2))

text \<open>Reading a padded number.\<close>

lemma digits_val_zeros: "digits_val (replicate n CHR ''0'' @ s) = digits_val s"
  by (induction n) (simp_all add: digits_val_def digit_val_def)

lemma pad_digits: "0 \<le> i \<Longrightarrow> list_all is_digit (pad n (int_str i)) \<and> digits_val (pad n (int_str i)) = nat i"
  using nat_str_digits by (auto simp: pad_def int_str_def digits_val_zeros list_all_iff is_digit_def)

lemma pad_length: "0 < n \<Longrightarrow> 0 \<le> i \<Longrightarrow> i < 10 ^ n \<Longrightarrow> length (pad n (int_str i)) = n"
proof -
  assume a: "0 < n" "0 \<le> i" "i < 10 ^ n"
  then have "nat i < 10 ^ n" by (simp add: nat_less_iff)
  with nat_str_length [OF a(1), of "nat i"] have "length (nat_str (nat i)) \<le> n" by blast
  with a show ?thesis by (simp add: pad_def int_str_def)
qed

lemma getNumber_fixed:
  assumes "list_all is_digit s" "length s = number_size c True"
  shows "getNumber c True (i, s @ r) = Inr (int (digits_val s), i + length s, r)"
proof -
  have "takeWhile is_digit (s @ r) = s @ takeWhile is_digit r"
    using assms(1) by (simp add: takeWhile_append2 list_all_iff)
  moreover have "0 < number_size c True" by (simp add: number_size_def)
  ultimately show ?thesis using assms(2) by (simp add: getNumber_def Let_def)
qed

text \<open>What reading the printed fields leaves in the parser's variables.\<close>

fun fld_set :: "date \<Rightarrow> fld \<Rightarrow> dp_fields \<Rightarrow> dp_fields" where
  "fld_set d FDay f = f\<lparr>f_day := Some (getDate d)\<rparr>"
| "fld_set d FMonth f = f\<lparr>f_month := Some (getMonth d + 1)\<rparr>"
| "fld_set d FYear f = f\<lparr>f_year := Some (getFullYear d)\<rparr>"
| "fld_set d FDoy f = f\<lparr>f_doy := day_number d\<rparr>"
| "fld_set d (FLit c) f = f"

lemma day_number_bounds: "1 \<le> day_number d" "day_number d \<le> 366"
  using getFullYear_bounds [of d] day_from_year_Suc [of "getFullYear d"]
  by (auto simp: day_number_def day_in_year_def days_in_year_def split: if_splits)

lemma year_text:
  assumes "1000 \<le> y" "y \<le> 9999"
  shows "list_all is_digit (int_str y) \<and> digits_val (int_str y) = nat y \<and> length (int_str y) = 4"
proof -
  have "nat y < 10 ^ 4" "\<not> nat y < 10 ^ 3" using assms by (simp_all add: nat_less_iff)
  then have "length (nat_str (nat y)) \<le> 4" "\<not> length (nat_str (nat y)) \<le> 3"
    using nat_str_length [of 4 "nat y"] nat_str_length [of 3 "nat y"] by simp_all
  then show ?thesis using assms nat_str_digits [of "nat y"] by (simp add: int_str_def list_all_iff)
qed

lemma parse_fld:
  assumes "fld_ok f" "1000 \<le> getFullYear d" "getFullYear d \<le> 9999"
  shows "parseDate_loop ns False (fld_fmt f @ r) fs (i, fld_text d f @ v) =
     parseDate_loop ns False r (fld_set d f fs) (i + length (fld_text d f), v)"
proof -
  have b: "0 \<le> getDate d" "getDate d < 10 ^ 2" "0 \<le> getMonth d + 1" "getMonth d + 1 < 10 ^ 2"
    "0 \<le> day_number d" "day_number d < 10 ^ 3"
    using date_fields(1-3) [of d] getDate_le [of d] day_number_bounds [of d] by simp_all
  have sz: "number_size CHR ''d'' True = 2" "number_size CHR ''m'' True = 2" "number_size CHR ''o'' True = 3"
    "number_size CHR ''y'' True = 4" by (simp_all add: number_size_def)
  show ?thesis
  proof (cases f)
    case FDay
    then show ?thesis
      using getNumber_fixed [of "pad 2 (int_str (getDate d))" "CHR ''d''" i v] pad_digits [OF b(1), of 2] pad_length [OF _ b(1,2)] sz b(1)
      by (simp add: parseDate_loop.simps(2) directive_chars parse_directive_def)
  next
    case FMonth
    then show ?thesis
      using getNumber_fixed [of "pad 2 (int_str (getMonth d + 1))" "CHR ''m''" i v] pad_digits [OF b(3), of 2] pad_length [OF _ b(3,4)] sz b(3)
      by (simp add: parseDate_loop.simps(2) directive_chars parse_directive_def)
  next
    case FYear
    then show ?thesis
      using getNumber_fixed [of "int_str (getFullYear d)" "CHR ''y''" i v] year_text [OF assms(2,3)] sz assms(2)
      by (simp add: parseDate_loop.simps(2) directive_chars parse_directive_def)
  next
    case FDoy
    then show ?thesis
      using getNumber_fixed [of "pad 3 (int_str (day_number d))" "CHR ''o''" i v] pad_digits [OF b(5), of 3] pad_length [OF _ b(5,6)] sz b(5)
      by (simp add: parseDate_loop.simps(2) directive_chars parse_directive_def)
  next
    case (FLit c)
    then show ?thesis using assms(1) by (simp add: parseDate_loop.simps(2) plain_not_directive checkLiteral_def)
  qed
qed

lemma parse_fields:
  assumes "list_all fld_ok fs" "1000 \<le> getFullYear d" "getFullYear d \<le> 9999"
  shows "\<exists>i'. parseDate_loop ns False (fmt_of fs) f (i, concat (map (fld_text d) fs)) = Inr (fold (fld_set d) fs f, (i', []))"
  using assms(1)
proof (induction fs arbitrary: f i)
  case (Cons x fs)
  then show ?case using parse_fld [OF _ assms(2,3), of x ns "fmt_of fs" f i "concat (map (fld_text d) fs)"]
    by (simp add: fmt_of_def)
qed (simp add: fmt_of_def)

lemma fold_fields:
  "f_year (fold (fld_set d) fs f) = (if FYear \<in> set fs then Some (getFullYear d) else f_year f)"
  "f_month (fold (fld_set d) fs f) = (if FMonth \<in> set fs then Some (getMonth d + 1) else f_month f)"
  "f_day (fold (fld_set d) fs f) = (if FDay \<in> set fs then Some (getDate d) else f_day f)"
  "f_doy (fold (fld_set d) fs f) = (if FDoy \<in> set fs then day_number d else f_doy f)"
proof (induction fs arbitrary: f)
  case (Cons x fs)
  { case 1 show ?case by (cases x) (simp_all add: Cons) }
  { case 2 show ?case by (cases x) (simp_all add: Cons) }
  { case 3 show ?case by (cases x) (simp_all add: Cons) }
  { case 4 show ?case by (cases x) (simp_all add: Cons) }
qed simp_all

text \<open>The day of the year leads back to the month and the day.\<close>

lemma doy_loop_steps:
  assumes "100 \<le> y" "0 \<le> k" "k \<le> m" "m < 12" "1 \<le> dt" "dt \<le> month_length y m"
  shows "doy_loop y (k + 1) (month_start (leap y) m - month_start (leap y) k + dt) = (m + 1, dt)"
  using assms(2-4)
proof (induction "nat (m - k)" arbitrary: k)
  case 0
  then have "k = m" by simp
  with 0 show ?case
    using assms(6) getDaysInMonth_length [OF assms(1), of m] by (subst doy_loop.simps) (simp add: Let_def)
next
  case (Suc n)
  then have k: "0 \<le> k + 1" "k + 1 \<le> m" "n = nat (m - (k + 1))" by auto
  have dim: "getDaysInMonth y k = month_start (leap y) (k + 1) - month_start (leap y) k"
    using getDaysInMonth_length [OF assms(1), of k] Suc.prems k by (simp add: month_length_def)
  have mono: "month_start (leap y) (k + 1) \<le> month_start (leap y) m"
    using k Suc.prems months [of m] months [of k] by (auto simp: month_start_def)
  have eq: "month_start (leap y) m - month_start (leap y) k + dt - getDaysInMonth y k =
      month_start (leap y) m - month_start (leap y) (k + 1) + dt" by (simp add: dim)
  have "\<not> month_start (leap y) m - month_start (leap y) k + dt \<le> getDaysInMonth y k"
    using mono assms(5) by (simp add: dim)
  then have "doy_loop y (k + 1) (month_start (leap y) m - month_start (leap y) k + dt) =
      doy_loop y (k + 1 + 1) (month_start (leap y) m - month_start (leap y) (k + 1) + dt)"
    by (subst doy_loop.simps) (simp add: Let_def eq)
  also have "\<dots> = (m + 1, dt)" using Suc.hyps(1) [OF k(3)] k Suc.prems by simp
  finally show ?case .
qed

lemma doy_loop_date:
  assumes "100 \<le> getFullYear d"
  shows "doy_loop (getFullYear d) 1 (day_number d) = (getMonth d + 1, getDate d)"
proof -
  have "day_number d = month_start (leap (getFullYear d)) (getMonth d) - month_start (leap (getFullYear d)) 0 + getDate d"
    by (simp add: day_number_def getDate_def)
  then show ?thesis
    using doy_loop_steps [OF assms, of 0 "getMonth d" "getDate d"] date_fields [of d] by simp
qed

text \<open>
  C22. Printing a date and parsing the text gives the date back, for every format made of fixed-width
  fields (\<open>yy\<close>, \<open>mm\<close>, \<open>dd\<close>, \<open>oo\<close>) and literal characters in any order that names a day, such
  as the standard formats ATOM, ISO 8601 and W3C, and for every date with a four-digit year.
\<close>

theorem format_parse_roundtrip:
  assumes "list_all fld_ok fs" and "FYear \<in> set fs" and "FDoy \<in> set fs \<or> FMonth \<in> set fs \<and> FDay \<in> set fs"
    and "1000 \<le> getFullYear d" and "getFullYear d \<le> 9999"
  shows "parseDate ns this_year cutoff (Some (fmt_of fs)) (Some (formatDate ns (fmt_of fs) (Some d))) = Inr (Some d)"
proof -
  let ?v = "concat (map (fld_text d) fs)"
  let ?blank = "\<lparr>f_year = Some (-1), f_month = Some (-1), f_day = Some (-1), f_doy = -1\<rparr>"
  let ?flds = "fold (fld_set d) fs ?blank"
  have printed: "formatDate ns (fmt_of fs) (Some d) = ?v"
    using assms by (simp add: formatDate_def format_fields)
  have "int_str (getFullYear d) \<noteq> []" by (simp add: int_str_def)
  then have ne: "?v \<noteq> []" using assms(2) by (auto intro!: bexI [of _ FYear])
  obtain i where p: "parseDate_loop ns False (fmt_of fs) ?blank (0, ?v) = Inr (?flds, (i, []))"
    using parse_fields [OF assms(1,4,5)] by blast
  have y: "full_year this_year cutoff (f_year ?flds) = Some (getFullYear d)"
    using assms(2,4) by (simp add: fold_fields full_year_def)
  have nd: "new_date (getFullYear d) (getMonth d) (getDate d) = d"
    using assms(4) date_fields(5) [of d] by (simp add: new_date_late)
  have "finish_date this_year cutoff ?flds = Inr d"
    using y nd assms(3,4) day_number_bounds [of d] doy_loop_date [of d]
    by (auto simp: finish_date_def fold_fields Let_def)
  with ne show ?thesis by (simp add: parseDate_def printed p)
qed

theorem format_parse_roundtrip_witness:
  "parseDate default_names 2024 None (Some ''dd/mm/yy'')
     (Some (formatDate default_names ''dd/mm/yy'' (Some 19782))) = Inr (Some 19782)"
proof -
  have y: "getFullYear 19782 = 2024" by code_simp
  have "fmt_of [FDay, FLit CHR ''/'', FMonth, FLit CHR ''/'', FYear] = ''dd/mm/yy''" by (simp add: fmt_of_def)
  then show ?thesis
    using format_parse_roundtrip [of "[FDay, FLit CHR ''/'', FMonth, FLit CHR ''/'', FYear]" 19782] y
    by (simp add: plain_char_def is_parsed_def)
qed

section \<open>The characters an input accepts\<close>

definition digit_chars :: string where
  "digit_chars = ''0123456789''"

lemma digit_in_chars: "is_digit c \<Longrightarrow> c \<in> set digit_chars"
proof -
  assume "is_digit c"
  then have "of_char c \<in> set [48..<58 :: nat]"
    unfolding is_digit_def Let_def set_upt atLeastLessThan_iff by linarith
  then have "c \<in> set (map char_of [48..<58 :: nat])" unfolding set_map by (metis char_of_char image_eqI)
  moreover have "map char_of [48..<58 :: nat] = digit_chars" by code_simp
  ultimately show ?thesis by (simp only:)
qed

lemma number_chars: "0 \<le> i \<Longrightarrow> set (pad n (int_str i)) \<subseteq> set digit_chars"
  using pad_digits [of i n] digit_in_chars by (auto simp: list_all_iff)

lemma int_str_chars: "0 \<le> i \<Longrightarrow> set (int_str i) \<subseteq> set digit_chars"
  using number_chars [of i 0] by (simp add: pad_def)

lemma possible_number:
  "c \<in> set ''dmy'' \<Longrightarrow> possible_loop False (c # c # r) = map_option ((@) (digit_chars @ digit_chars)) (possible_loop False r)"
  by (cases "possible_loop False r") (auto simp: possible_loop.simps(2) digit_chars_def)

lemma possible_fld:
  assumes "fld_ok f" "f \<noteq> FDoy" "100 \<le> getFullYear d"
  shows "\<exists>cs. possible_loop False (fld_fmt f @ r) = map_option ((@) cs) (possible_loop False r) \<and>
     set (fld_text d f) \<subseteq> set cs"
proof -
  let ?dd = "digit_chars @ digit_chars"
  have b: "0 \<le> getDate d" "0 \<le> getMonth d + 1" "0 \<le> getFullYear d" using date_fields(1-3) [of d] assms(3) by simp_all
  show ?thesis
  proof (cases f)
    case FDay
    then show ?thesis using number_chars [OF b(1), of 2] by (intro exI [of _ ?dd]) (simp add: possible_number)
  next
    case FMonth
    then show ?thesis using number_chars [OF b(2), of 2] by (intro exI [of _ ?dd]) (simp add: possible_number)
  next
    case FYear
    then show ?thesis using int_str_chars [OF b(3)] by (intro exI [of _ ?dd]) (simp add: possible_number)
  next
    case (FLit c)
    then show ?thesis
      using assms(1)
      by (intro exI [of _ "[c]"]) (cases "possible_loop False r"; auto simp: possible_loop.simps(2) plain_char_def is_parsed_def)
  qed (use assms(2) in simp)
qed

text \<open>
  Key presses are restricted to \<open>_possibleChars\<close>; for the formats of days, months, years and
  literal characters those include every character of every date printed in the format. For the
  day of the year (\<open>o\<close>) they include no digit, so such a date cannot be typed.
\<close>

theorem possible_chars:
  assumes "list_all fld_ok fs" and "FDoy \<notin> set fs" and "100 \<le> getFullYear d"
  shows "(\<exists>cs. possibleChars (fmt_of fs) = Some cs \<and> set (formatDate ns (fmt_of fs) (Some d)) \<subseteq> set cs) \<and>
     possibleChars ''oo'' = Some ''oo''"
proof -
  have "\<exists>cs. possible_loop False (fmt_of fs) = Some cs \<and> set (concat (map (fld_text d) fs)) \<subseteq> set cs"
    using assms(1,2)
  proof (induction fs)
    case (Cons f fs)
    then obtain cs where cs: "possible_loop False (fmt_of fs) = Some cs" "set (concat (map (fld_text d) fs)) \<subseteq> set cs"
      by auto
    from Cons possible_fld [of f d "fmt_of fs"] assms(3) obtain c1 where
      "possible_loop False (fmt_of (f # fs)) = Some (c1 @ cs)" "set (fld_text d f) \<subseteq> set c1"
      by (auto simp: fmt_of_def cs [unfolded fmt_of_def])
    with cs show ?case by auto
  qed (simp add: fmt_of_def)
  moreover have "possibleChars ''oo'' = Some ''oo''" by code_simp
  ultimately show ?thesis using assms(1,3) by (simp add: possibleChars_def formatDate_def format_fields)
qed

theorem possible_chars_witness:
  "\<exists>cs. possibleChars ''mm/dd'' = Some cs \<and> set (formatDate default_names ''mm/dd'' (Some 19782)) \<subseteq> set cs"
proof -
  have y: "getFullYear 19782 = 2024" by code_simp
  have "fmt_of [FMonth, FLit CHR ''/'', FDay] = ''mm/dd''" by (simp add: fmt_of_def)
  then show ?thesis
    using possible_chars [of "[FMonth, FLit CHR ''/'', FDay]" 19782 default_names] y
    by (simp add: plain_char_def is_parsed_def)
qed

end
