(* ===== verification/UI_Number.thy ===== *)
theory UI_Number
  imports Prelude Complex_Main
begin

text \<open>
  The arithmetic of the range widgets. Numbers are exact rationals in place of doubles; the
  rounding functions the widgets call (\<open>Math.round\<close>, \<open>toFixed\<close>, the remainder, the number of
  decimals a number prints with) are as the language defines them on exact values.
\<close>

section \<open>Rounding\<close>

definition math_round :: "rat \<Rightarrow> int" where
  "math_round x = floor (x + 1 / 2)"

definition is_int :: "rat \<Rightarrow> bool" where
  "is_int x \<longleftrightarrow> of_int (floor x) = x"

definition js_trunc :: "rat \<Rightarrow> int" where
  "js_trunc x = (if 0 \<le> x then floor x else - floor (- x))"

text \<open>The operator \<open>%\<close>: the remainder has the sign of the dividend.\<close>

definition js_mod :: "rat \<Rightarrow> rat \<Rightarrow> rat" where
  "js_mod x y = x - of_int (js_trunc (x / y)) * y"

text \<open>\<open>parseFloat(x.toFixed(p))\<close>: the nearest multiple of \<open>10^-p\<close>, ties away from zero.\<close>

definition to_fixed :: "nat \<Rightarrow> rat \<Rightarrow> rat" where
  "to_fixed p x = (if x < 0 then - of_int (floor (- x * 10 ^ p + 1 / 2)) else of_int (floor (x * 10 ^ p + 1 / 2))) / 10 ^ p"

lemma is_int_of_int [simp]: "is_int (of_int k)"
  by (simp add: is_int_def)

lemma is_intE: "is_int x \<Longrightarrow> \<exists>k. x = of_int k"
  unfolding is_int_def by metis

lemma is_int_iff: "is_int x \<longleftrightarrow> (\<exists>k. x = of_int k)"
  using is_intE by auto

lemma is_int_ring [simp]: "is_int x \<Longrightarrow> is_int y \<Longrightarrow> is_int (x + y)" "is_int x \<Longrightarrow> is_int y \<Longrightarrow> is_int (x * y)"
  by (auto simp: is_int_iff simp flip: of_int_add of_int_mult)

lemma floor_half: "floor (of_int k + 1 / 2 :: rat) = k"
  by (rule floor_unique) simp_all

text \<open>A number with at most \<open>p\<close> decimals is not changed.\<close>

lemma to_fixed_exact:
  assumes "is_int (x * 10 ^ p)"
  shows "to_fixed p x = x"
proof -
  obtain k where k: "x * 10 ^ p = of_int k" using is_intE [OF assms] by blast
  then have m: "- x * 10 ^ p = of_int (- k)" by simp
  have "of_int k / 10 ^ p = x" using k by (metis nonzero_mult_div_cancel_right power_not_zero zero_neq_numeral)
  then show ?thesis by (simp add: to_fixed_def k m floor_half floor_half [of 0, simplified] del: of_int_minus)
qed

section \<open>The decimals of a number\<close>

fun decimals :: "nat \<Rightarrow> rat \<Rightarrow> nat" where
  "decimals 0 x = 0"
| "decimals (Suc n) x = (if is_int x then 0 else Suc (decimals n (x * 10)))"

fun mantissa :: "nat \<Rightarrow> rat \<Rightarrow> nat \<Rightarrow> rat \<times> nat" where
  "mantissa 0 x e = (x, e)"
| "mantissa (Suc n) x e = (if 1 \<le> \<bar>x\<bar> then (x, e) else mantissa n (x * 10) (Suc e))"

text \<open>
  The characters after the decimal point of \<open>num.toString()\<close>. Below \<open>10^-6\<close> the number prints
  with an exponent, whose characters are counted too, or has no point at all.
\<close>

definition precisionOf :: "rat \<Rightarrow> nat" where
  "precisionOf num =
     (if num = 0 \<or> 1 / 10 ^ 6 \<le> \<bar>num\<bar> then decimals 20 num
      else case mantissa 400 num 0 of
        (m, e) \<Rightarrow> if is_int m then 0 else decimals 20 m + 2 + length (nat_str e))"

lemma decimals_enough: "is_int (x * 10 ^ p) \<Longrightarrow> p \<le> n \<Longrightarrow> is_int (x * 10 ^ decimals n x)"
proof (induction n arbitrary: x p)
  case (Suc n)
  show ?case
  proof (cases "is_int x")
    case False
    with Suc.prems obtain q where q: "p = Suc q" by (cases p) auto
    with Suc.prems have "is_int (x * 10 * 10 ^ q)" "q \<le> n" by (simp_all add: mult.assoc)
    from Suc.IH [OF this] False show ?thesis by (simp add: mult.assoc)
  qed simp
qed simp

lemma is_int_power: "is_int (x * 10 ^ p) \<Longrightarrow> p \<le> q \<Longrightarrow> is_int (x * 10 ^ q)"
proof -
  assume a: "is_int (x * 10 ^ p)" "p \<le> q"
  have "x * 10 ^ q = (x * 10 ^ p) * of_int (10 ^ (q - p))"
    using a(2) by (simp add: mult.assoc flip: power_add)
  with a(1) show ?thesis by (metis is_int_of_int is_int_ring(2))
qed

text \<open>A number that prints without an exponent, with at most 20 decimals.\<close>

definition plain_number :: "rat \<Rightarrow> bool" where
  "plain_number x \<longleftrightarrow> (x = 0 \<or> 1 / 10 ^ 6 \<le> \<bar>x\<bar>) \<and> is_int (x * 10 ^ 20)"

lemma precisionOf_plain: "plain_number x \<Longrightarrow> precisionOf x \<le> q \<Longrightarrow> is_int (x * 10 ^ q)"
  unfolding plain_number_def precisionOf_def
  using decimals_enough [of x 20 20] is_int_power by auto

section \<open>Grids\<close>

text \<open>
  The values a stepping widget can take: multiples of the step above a base. Both the slider and
  the spinner round to such a grid.
\<close>

locale step_grid =
  fixes base step :: rat
  assumes step_pos: "0 < step"
begin

definition on_grid :: "rat \<Rightarrow> bool" where
  "on_grid x \<longleftrightarrow> is_int ((x - base) / step)"

definition nearest :: "rat \<Rightarrow> rat" where
  "nearest x = base + of_int (math_round ((x - base) / step)) * step"

lemma on_gridI: "on_grid (base + of_int k * step)"
  using step_pos by (simp add: on_grid_def)

lemma on_gridE: "on_grid x \<Longrightarrow> \<exists>k. x = base + of_int k * step"
proof -
  assume "on_grid x"
  then obtain k where "(x - base) / step = of_int k" using is_intE by (auto simp: on_grid_def)
  then have "x = base + of_int k * step" using step_pos by (simp add: divide_eq_eq algebra_simps)
  then show ?thesis by blast
qed

lemma nearest_on_grid: "on_grid (nearest x)"
  unfolding nearest_def by (rule on_gridI)

lemma nearest_close: "2 * \<bar>nearest x - x\<bar> \<le> step"
proof -
  define t where "t = (x - base) / step"
  have x: "x = base + t * step" using step_pos by (simp add: t_def)
  have "\<bar>of_int (math_round t) - t\<bar> \<le> 1 / 2" unfolding math_round_def by linarith
  then have "\<bar>of_int (math_round t) - t\<bar> * step \<le> 1 / 2 * step" using step_pos by (intro mult_right_mono) auto
  moreover have "nearest x - x = (of_int (math_round t) - t) * step"
    by (simp add: nearest_def t_def [symmetric] x algebra_simps)
  ultimately show ?thesis using step_pos by (simp add: abs_mult)
qed

lemma nearest_id: "on_grid x \<Longrightarrow> nearest x = x"
  using on_gridE [of x] step_pos floor_half by (auto simp: nearest_def math_round_def)

lemma nearest_mono: "x \<le> y \<Longrightarrow> nearest x \<le> nearest y"
  using step_pos by (auto simp: nearest_def math_round_def intro!: mult_right_mono floor_mono divide_right_mono)

lemma nearest_below: "on_grid b \<Longrightarrow> x \<le> b \<Longrightarrow> nearest x \<le> b"
  using nearest_mono [of x b] nearest_id by simp

lemma nearest_above: "on_grid a \<Longrightarrow> a \<le> x \<Longrightarrow> a \<le> nearest x"
  using nearest_mono [of a x] nearest_id by simp

lemma on_grid_base: "on_grid base"
  using on_gridI [of 0] by simp

end

end
