(* ===== verification/UI_Slider.thy ===== *)
theory UI_Slider
  imports UI_Number
begin

text \<open>
  The jQuery UI slider: values aligned to the step, one handle or several, the range between two
  handles, and the mouse and keyboard interaction. User callbacks are arguments that say whether
  the event is allowed; the events triggered are a log.
\<close>

datatype range_opt = NoRange | RangeTrue | RangeMin | RangeMax

datatype slider_event = Start nat | Slide nat rat | Stop nat | Change nat

record slider =
  o_min :: rat
  o_max :: rat
  o_step :: rat
  o_value :: rat
  o_values :: "rat list"          \<comment> \<open>empty when the option is null or empty\<close>
  o_range :: range_opt
  o_disabled :: bool
  horizontal :: bool
  s_max :: rat                     \<comment> \<open>\<open>this.max\<close>\<close>
  keySliding :: bool
  mouseSliding :: bool
  handleIndex :: "nat option"
  lastChangedValue :: "nat option"
  clickOffset :: "rat \<times> rat"
  s_events :: "slider_event list"

definition valueMin :: "slider \<Rightarrow> rat" where
  "valueMin s = o_min s"

definition valueMax :: "slider \<Rightarrow> rat" where
  "valueMax s = s_max s"

definition step_of :: "rat \<Rightarrow> rat" where
  "step_of st = (if 0 < st then st else 1)"

definition trimAlignValue :: "slider \<Rightarrow> rat \<Rightarrow> rat" where
  "trimAlignValue s val =
     (if val \<le> valueMin s then valueMin s
      else if valueMax s \<le> val then valueMax s
      else
        let step = step_of (o_step s);
            valModStep = js_mod (val - valueMin s) step;
            alignValue = val - valModStep;
            alignValue' = (if step \<le> \<bar>valModStep\<bar> * 2 then alignValue + (if 0 < valModStep then step else - step) else alignValue)
        in to_fixed 5 alignValue')"

definition slider_precision :: "slider \<Rightarrow> nat" where
  "slider_precision s = max (precisionOf (o_step s)) (precisionOf (o_min s))"

definition calculateNewMax :: "slider \<Rightarrow> slider" where
  "calculateNewMax s =
     (let step = o_step s;
          aboveMin = of_int (math_round ((o_max s - valueMin s) / step)) * step;
          mx = aboveMin + valueMin s;
          mx' = (if o_max s < mx then mx - step else mx)
      in s\<lparr>s_max := to_fixed (slider_precision s) mx'\<rparr>)"

definition hasMultipleValues :: "slider \<Rightarrow> bool" where
  "hasMultipleValues s \<longleftrightarrow> o_values s \<noteq> []"

definition get_value :: "slider \<Rightarrow> rat" where
  "get_value s = trimAlignValue s (o_value s)"

definition get_values :: "slider \<Rightarrow> rat list" where
  "get_values s = map (trimAlignValue s) (o_values s)"

text \<open>\<open>this.values( i )\<close>: the value of one handle.\<close>

definition handle_value :: "slider \<Rightarrow> nat \<Rightarrow> rat" where
  "handle_value s i = (if hasMultipleValues s then trimAlignValue s (o_values s ! i) else get_value s)"

definition trigger :: "slider_event \<Rightarrow> slider \<Rightarrow> slider" where
  "trigger e s = s\<lparr>s_events := s_events s @ [e]\<rparr>"

definition change :: "nat \<Rightarrow> slider \<Rightarrow> slider" where
  "change index s =
     (if \<not> keySliding s \<and> \<not> mouseSliding s then trigger (Change index) (s\<lparr>lastChangedValue := Some index\<rparr>) else s)"

definition set_value :: "rat \<Rightarrow> slider \<Rightarrow> slider" where
  "set_value v s = change 0 (s\<lparr>o_value := trimAlignValue s v\<rparr>)"

definition set_values :: "nat \<Rightarrow> rat \<Rightarrow> slider \<Rightarrow> slider" where
  "set_values index v s = change index (s\<lparr>o_values := (o_values s)[index := trimAlignValue s v]\<rparr>)"

text \<open>\<open>values( array )\<close>: every handle gets its value; the array must not be shorter.\<close>

definition set_all_values :: "rat list \<Rightarrow> slider \<Rightarrow> slider option" where
  "set_all_values vs s =
     (if length (o_values s) \<le> length vs
      then Some (fold (\<lambda>i t. change i (t\<lparr>o_values := (o_values t)[i := trimAlignValue t (vs ! i)]\<rparr>)) [0..<length (o_values s)] s)
      else None)"

definition slide :: "(nat \<Rightarrow> rat \<Rightarrow> bool) \<Rightarrow> nat \<Rightarrow> rat \<Rightarrow> slider \<Rightarrow> slider" where
  "slide allowed index newVal s =
     (let otherVal = handle_value s (if index \<noteq> 0 then 0 else 1);
          currentValue = (if hasMultipleValues s then handle_value s index else get_value s);
          newVal' = (if hasMultipleValues s \<and> length (o_values s) = 2 \<and> o_range s = RangeTrue
                     then (if index = 0 then min otherVal newVal else max otherVal newVal) else newVal)
      in if newVal' = currentValue then s
         else
           let s1 = trigger (Slide index newVal') s
           in if \<not> allowed index newVal' then s1
              else if hasMultipleValues s1 then set_values index newVal' s1
              else set_value newVal' s1)"

section \<open>Mouse\<close>

text \<open>The geometry of the element: offset and size along the two axes.\<close>

record slider_box =
  b_left :: rat
  b_top :: rat
  b_width :: rat
  b_height :: rat

text \<open>
  The value under the pointer. On an element without extent the division gives an infinity, which
  is cut to an end of the range; zero divided by zero is not a number in the code, which the
  numbers here do not have: it is read as zero.
\<close>

definition normValueFromMouse :: "slider_box \<Rightarrow> rat \<times> rat \<Rightarrow> slider \<Rightarrow> rat" where
  "normValueFromMouse b position s =
     (let (pixelTotal, pixelMouse) =
        (if horizontal s then (b_width b, fst position - b_left b - fst (clickOffset s))
         else (b_height b, snd position - b_top b - snd (clickOffset s)));
          p0 = (if pixelTotal = 0 then (if 0 < pixelMouse then 1 else 0) else pixelMouse / pixelTotal);
          p1 = (if 1 < p0 then 1 else p0);
          p2 = (if p1 < 0 then 0 else p1);
          p3 = (if \<not> horizontal s then 1 - p2 else p2);
          valueTotal = valueMax s - valueMin s
      in trimAlignValue s (valueMin s + p3 * valueTotal))"

text \<open>
  The closest handle: a nearer one wins, and among equally near ones the handle that changed last
  or one at the minimum. The distance starts above every possible one.
\<close>

fun closest_from :: "slider \<Rightarrow> rat \<Rightarrow> nat list \<Rightarrow> rat \<times> nat option \<Rightarrow> rat \<times> nat option" where
  "closest_from s v [] best = best"
| "closest_from s v (i # is) (distance, index) =
     (let thisDistance = \<bar>v - handle_value s i\<bar>
      in closest_from s v is
           (if thisDistance < distance \<or>
               thisDistance = distance \<and> (lastChangedValue s = Some i \<or> handle_value s i = o_min s)
            then (thisDistance, Some i) else (distance, index)))"

definition handle_count :: "slider \<Rightarrow> nat" where
  "handle_count s = (if o_values s = [] then 1 else length (o_values s))"

definition closest_handle :: "slider \<Rightarrow> rat \<Rightarrow> nat option" where
  "closest_handle s v = snd (closest_from s v [0..<handle_count s] (valueMax s - valueMin s + 1, None))"

text \<open>
  \<open>_mouseCapture\<close>: where on the handle the mouse was pressed is a parameter, as is whether some
  handle is hovered.
\<close>

definition mouseCapture :: "(nat \<Rightarrow> rat \<Rightarrow> bool) \<Rightarrow> bool \<Rightarrow> rat \<times> rat \<Rightarrow> bool \<Rightarrow> slider_box \<Rightarrow> rat \<times> rat \<Rightarrow> slider \<Rightarrow> bool \<times> slider" where
  "mouseCapture allowed start_ok grip hover b position s =
     (if o_disabled s then (False, s)
      else
        let normValue = normValueFromMouse b position s
        in case closest_handle s normValue of
             None \<Rightarrow> (False, s)
           | Some index \<Rightarrow>
               (let s1 = trigger (Start index) s
                in if \<not> start_ok then (False, s1)
                   else
                     let s2 = s1\<lparr>mouseSliding := True, handleIndex := Some index, clickOffset := grip\<rparr>;
                         s3 = (if \<not> hover then slide allowed index normValue s2 else s2)
                     in (True, s3)))"

definition mouseDrag :: "(nat \<Rightarrow> rat \<Rightarrow> bool) \<Rightarrow> slider_box \<Rightarrow> rat \<times> rat \<Rightarrow> slider \<Rightarrow> slider" where
  "mouseDrag allowed b position s =
     (case handleIndex s of
        None \<Rightarrow> s
      | Some index \<Rightarrow> slide allowed index (normValueFromMouse b position s) s)"

definition mouseStop :: "slider \<Rightarrow> slider" where
  "mouseStop s =
     (case handleIndex s of
        None \<Rightarrow> s\<lparr>mouseSliding := False\<rparr>
      | Some index \<Rightarrow>
          (change index (trigger (Stop index) (s\<lparr>mouseSliding := False\<rparr>)))\<lparr>handleIndex := None, clickOffset := (0, 0)\<rparr>)"

section \<open>Keyboard\<close>

datatype slider_key = Home | End | PageUp | PageDown | Up | Right | Down | Left | OtherKey

definition numPages :: rat where
  "numPages = 5"

definition key_value :: "slider \<Rightarrow> slider_key \<Rightarrow> rat \<Rightarrow> rat option" where
  "key_value s key cur =
     (case key of
        Home \<Rightarrow> Some (valueMin s)
      | End \<Rightarrow> Some (valueMax s)
      | PageUp \<Rightarrow> Some (trimAlignValue s (cur + (valueMax s - valueMin s) / numPages))
      | PageDown \<Rightarrow> Some (trimAlignValue s (cur - (valueMax s - valueMin s) / numPages))
      | Up \<Rightarrow> if cur = valueMax s then None else Some (trimAlignValue s (cur + o_step s))
      | Right \<Rightarrow> if cur = valueMax s then None else Some (trimAlignValue s (cur + o_step s))
      | Down \<Rightarrow> if cur = valueMin s then None else Some (trimAlignValue s (cur - o_step s))
      | Left \<Rightarrow> if cur = valueMin s then None else Some (trimAlignValue s (cur - o_step s))
      | OtherKey \<Rightarrow> Some cur)"

definition keydown :: "(nat \<Rightarrow> rat \<Rightarrow> bool) \<Rightarrow> bool \<Rightarrow> nat \<Rightarrow> slider_key \<Rightarrow> slider \<Rightarrow> slider" where
  "keydown allowed start_ok index key s =
     (let first = (key \<noteq> OtherKey \<and> \<not> keySliding s);
          s1 = (if first then trigger (Start index) (s\<lparr>keySliding := True\<rparr>) else s)
      in if first \<and> \<not> start_ok then s1
         else case key_value s1 key (handle_value s1 index) of
                None \<Rightarrow> s1
              | Some v \<Rightarrow> slide allowed index v s1)"

definition keyup :: "nat \<Rightarrow> slider \<Rightarrow> slider" where
  "keyup index s =
     (if keySliding s then change index (trigger (Stop index) (s\<lparr>keySliding := False\<rparr>)) else s)"

section \<open>Options\<close>

definition createRange :: "slider \<Rightarrow> slider" where
  "createRange s =
     (if o_range s = RangeTrue then
        (case o_values s of
           [] \<Rightarrow> s\<lparr>o_values := [valueMin s, valueMin s]\<rparr>
         | v # vs \<Rightarrow> if length (o_values s) \<noteq> 2 then s\<lparr>o_values := [v, v]\<rparr> else s)
      else s)"

datatype slider_option = OValue rat | OValues "rat list" | OStep rat | OMin rat | OMax rat | ORange range_opt | OOrientation bool

definition setOption :: "slider_option \<Rightarrow> slider \<Rightarrow> slider" where
  "setOption opt s =
     (case opt of
        OValue v \<Rightarrow> change 0 (s\<lparr>o_value := v\<rparr>)
      | OValues vs \<Rightarrow> fold change (rev [0..<length (o_values s)]) (s\<lparr>o_values := vs\<rparr>)
      | OStep v \<Rightarrow> calculateNewMax (s\<lparr>o_step := v\<rparr>)
      | OMin v \<Rightarrow> calculateNewMax (s\<lparr>o_min := v\<rparr>)
      | OMax v \<Rightarrow> calculateNewMax (s\<lparr>o_max := v\<rparr>)
      | ORange r \<Rightarrow>
          (let s1 = (if o_range s = RangeTrue \<and> o_values s \<noteq> [] then
                       (if r = RangeMin then s\<lparr>o_value := trimAlignValue s (hd (o_values s)), o_values := []\<rparr>
                        else if r = RangeMax then s\<lparr>o_value := trimAlignValue s (last (o_values s)), o_values := []\<rparr>
                        else s)
                     else s)
           in createRange (s1\<lparr>o_range := r\<rparr>))
      | OOrientation h \<Rightarrow> s\<lparr>horizontal := h\<rparr>)"

definition create_slider :: "slider \<Rightarrow> slider" where
  "create_slider s =
     createRange (calculateNewMax (s\<lparr>keySliding := False, mouseSliding := False, handleIndex := None\<rparr>))"

text \<open>
  \<open>_refreshValue\<close>: the positions of the handles in percent. Only with a single handle the code
  guards the division; with several handles on an empty interval the position is \<open>NaN\<close>.
\<close>

definition handle_percent :: "slider \<Rightarrow> rat \<Rightarrow> rat option" where
  "handle_percent s v =
     (if valueMax s \<noteq> valueMin s then Some ((v - valueMin s) / (valueMax s - valueMin s) * 100)
      else if hasMultipleValues s then None else Some 0)"

definition handle_positions :: "slider \<Rightarrow> rat option list" where
  "handle_positions s = map (\<lambda>i. handle_percent s (handle_value s i)) [0..<handle_count s]"

section \<open>Aligned values\<close>

lemma step_of_pos [simp]: "0 < step_of st"
  by (simp add: step_of_def)

interpretation sgrid: step_grid "valueMin s" "step_of (o_step s)" for s
  by unfold_locales simp

text \<open>
  A slider is well formed when its step is positive, its interval is not empty and ends on the grid
  of steps, and minimum and step have at most five decimals.
\<close>

definition slider_ok :: "slider \<Rightarrow> bool" where
  "slider_ok s \<longleftrightarrow> 0 < o_step s \<and> o_min s \<le> s_max s \<and> sgrid.on_grid s (s_max s) \<and>
     is_int (o_min s * 10 ^ 5) \<and> is_int (o_step s * 10 ^ 5)"

lemma slider_ok_grid_fixed:
  assumes "slider_ok s" "sgrid.on_grid s x"
  shows "to_fixed 5 x = x"
proof -
  obtain k where x: "x = o_min s + of_int k * o_step s"
    using sgrid.on_gridE [OF assms(2)] assms(1) by (auto simp: valueMin_def step_of_def slider_ok_def)
  have "x * 10 ^ 5 = o_min s * 10 ^ 5 + of_int k * (o_step s * 10 ^ 5)" by (simp add: x algebra_simps)
  then have "is_int (x * 10 ^ 5)"
    using assms(1) is_int_ring is_int_of_int unfolding slider_ok_def by metis
  then show ?thesis by (rule to_fixed_exact)
qed

text \<open>Rounding by the remainder is rounding to the nearest grid point.\<close>

lemma align_nearest:
  assumes "0 < st" "b < v"
  shows "(let m = js_mod (v - b) st; a = v - m
          in if st \<le> \<bar>m\<bar> * 2 then a + (if 0 < m then st else - st) else a) =
     b + of_int (math_round ((v - b) / st)) * st"
proof -
  define t where "t = (v - b) / st"
  have v: "v = b + t * st" using assms(1) by (simp add: t_def)
  have t: "0 < t" using assms by (simp add: t_def)
  define f where "f = t - of_int (floor t)"
  have f: "0 \<le> f" "f < 1" unfolding f_def by linarith+
  have m: "js_mod (v - b) st = f * st"
    using t by (simp add: js_mod_def js_trunc_def t_def [symmetric] v f_def algebra_simps)
  have a: "v - f * st = b + of_int (floor t) * st" by (simp add: v f_def algebra_simps)
  have big: "st \<le> \<bar>f * st\<bar> * 2 \<longleftrightarrow> 1 \<le> f * 2"
  proof -
    have "\<bar>f * st\<bar> * 2 = (f * 2) * st" using f assms(1) by (simp add: abs_mult)
    then show ?thesis using assms(1) by simp
  qed
  have r: "math_round t = (if 1 \<le> f * 2 then floor t + 1 else floor t)"
    unfolding math_round_def f_def by (auto intro!: floor_unique simp: field_simps) linarith+
  show ?thesis
    using f assms(1) by (auto simp: Let_def m a big r t_def [symmetric] zero_less_mult_iff algebra_simps)
qed

lemma trimAlign_nearest:
  assumes "slider_ok s" "valueMin s < v" "v < valueMax s"
  shows "trimAlignValue s v = sgrid.nearest s v"
proof -
  have st: "step_of (o_step s) = o_step s" using assms(1) by (simp add: slider_ok_def step_of_def)
  have "trimAlignValue s v = to_fixed 5 (sgrid.nearest s v)"
    using assms align_nearest [of "step_of (o_step s)" "valueMin s" v]
    by (simp add: trimAlignValue_def Let_def sgrid.nearest_def)
  then show ?thesis using slider_ok_grid_fixed [OF assms(1) sgrid.nearest_on_grid] by simp
qed

lemma trimAlign_in_range:
  assumes "slider_ok s"
  shows "valueMin s \<le> trimAlignValue s v \<and> trimAlignValue s v \<le> valueMax s \<and> sgrid.on_grid s (trimAlignValue s v)"
proof -
  have r: "valueMin s \<le> valueMax s" "sgrid.on_grid s (valueMax s)"
    using assms by (simp_all add: slider_ok_def valueMin_def valueMax_def)
  consider "v \<le> valueMin s" | "valueMax s \<le> v" "valueMin s < v" | "valueMin s < v" "v < valueMax s" by linarith
  then show ?thesis
  proof cases
    case 3
    then show ?thesis
      using trimAlign_nearest [OF assms] sgrid.nearest_below [OF r(2)] sgrid.nearest_above [OF sgrid.on_grid_base]
        sgrid.nearest_on_grid by auto
  qed (use r sgrid.on_grid_base in \<open>auto simp: trimAlignValue_def\<close>)
qed

lemma trimAlign_id:
  assumes "slider_ok s" "valueMin s \<le> v" "v \<le> valueMax s" "sgrid.on_grid s v"
  shows "trimAlignValue s v = v"
proof (cases "valueMin s < v \<and> v < valueMax s")
  case True
  then show ?thesis using trimAlign_nearest [OF assms(1)] sgrid.nearest_id [OF assms(4)] by simp
qed (use assms in \<open>auto simp: trimAlignValue_def\<close>)

text \<open>
  The value a slider stores for any input lies between its minimum and its maximum, is a whole
  number of steps above the minimum, is at most half a step away from the input when that is
  inside the interval, and storing it again does not change it.
\<close>

theorem trim_align:
  assumes "slider_ok s"
  shows "o_min s \<le> trimAlignValue s v \<and> trimAlignValue s v \<le> s_max s \<and>
    (\<exists>k. trimAlignValue s v = o_min s + of_int k * o_step s) \<and>
    (o_min s \<le> v \<and> v \<le> s_max s \<longrightarrow> 2 * \<bar>trimAlignValue s v - v\<bar> \<le> o_step s) \<and>
    trimAlignValue s (trimAlignValue s v) = trimAlignValue s v"
proof -
  have st: "step_of (o_step s) = o_step s" using assms by (simp add: slider_ok_def step_of_def)
  note r = trimAlign_in_range [OF assms, of v]
  have "2 * \<bar>trimAlignValue s v - v\<bar> \<le> o_step s" if "o_min s \<le> v" "v \<le> s_max s"
  proof (cases "valueMin s < v \<and> v < valueMax s")
    case True
    then show ?thesis using trimAlign_nearest [OF assms] sgrid.nearest_close [of s v] st by simp
  next
    case False
    then have "trimAlignValue s v = v" using that by (auto simp: trimAlignValue_def valueMin_def valueMax_def)
    then show ?thesis using assms by (simp add: slider_ok_def)
  qed
  moreover have "\<exists>k. trimAlignValue s v = o_min s + of_int k * o_step s"
    using sgrid.on_gridE [of s "trimAlignValue s v"] r st by (auto simp: valueMin_def)
  ultimately show ?thesis using r trimAlign_id [OF assms, of "trimAlignValue s v"] by (simp add: valueMin_def valueMax_def)
qed

definition demo_slider :: slider where
  "demo_slider = \<lparr>o_min = 0, o_max = 10, o_step = 3, o_value = 0, o_values = [3, 6], o_range = RangeTrue,
     o_disabled = False, horizontal = True, s_max = 9, keySliding = False, mouseSliding = False, handleIndex = None,
     lastChangedValue = None, clickOffset = (0, 0), s_events = []\<rparr>"

lemma demo_slider_ok: "slider_ok demo_slider"
proof -
  have "is_int 3" "is_int 0" "is_int 300000" using is_int_of_int [of 3] is_int_of_int [of 0] is_int_of_int [of 300000] by simp_all
  then show ?thesis unfolding slider_ok_def sgrid.on_grid_def by (simp add: demo_slider_def valueMin_def step_of_def)
qed

theorem trim_align_witness:
  "2 * \<bar>trimAlignValue demo_slider 4 - 4\<bar> \<le> 3 \<and> trimAlignValue demo_slider 100 \<le> 9"
  using trim_align [OF demo_slider_ok, of 4] trim_align [OF demo_slider_ok, of 100] by (simp add: demo_slider_def)

text \<open>
  \<open>_calculateNewMax\<close> makes the slider well formed: the maximum it computes is the largest whole
  number of steps above the minimum that does not exceed the maximum of the options. Minimum and
  step must print without an exponent.
\<close>

theorem new_max:
  assumes "0 < o_step s" and "o_min s \<le> o_max s" and "plain_number (o_step s)" and "plain_number (o_min s)"
    and "is_int (o_min s * 10 ^ 5)" and "is_int (o_step s * 10 ^ 5)"
  shows "slider_ok (calculateNewMax s) \<and> s_max (calculateNewMax s) \<le> o_max s \<and>
    o_max s < s_max (calculateNewMax s) + o_step s"
proof -
  let ?n = "sgrid.nearest s (o_max s)"
  have st: "step_of (o_step s) = o_step s" using assms(1) by (simp add: step_of_def)
  define mx where "mx = (if o_max s < ?n then ?n - o_step s else ?n)"
  have close: "2 * \<bar>?n - o_max s\<bar> \<le> o_step s" using sgrid.nearest_close [of s "o_max s"] st by simp
  have nn: "?n = of_int (math_round ((o_max s - valueMin s) / o_step s)) * o_step s + valueMin s"
    using sgrid.nearest_def [of s "o_max s"] by (simp add: st)
  obtain k where k: "?n = o_min s + of_int k * o_step s"
    using sgrid.on_gridE [OF sgrid.nearest_on_grid [of s "o_max s"]] unfolding st by (auto simp: valueMin_def)
  have grid: "\<exists>j. mx = o_min s + of_int j * o_step s"
  proof (cases "o_max s < ?n")
    case True
    then have "mx = o_min s + of_int (k - 1) * o_step s" by (simp add: mx_def k algebra_simps)
    then show ?thesis by blast
  qed (use k in \<open>auto simp: mx_def\<close>)
  then obtain j where j: "mx = o_min s + of_int j * o_step s" by blast
  have ge: "o_min s \<le> mx"
  proof (cases "o_max s < ?n")
    case True
    then have "0 < of_int k * o_step s" using assms(2) k by simp
    then have "1 \<le> k" using assms(1) by (simp add: zero_less_mult_iff)
    then have "0 \<le> of_int (k - 1) * o_step s" using assms(1) by simp
    then show ?thesis using True by (simp add: mx_def k algebra_simps)
  next
    case False
    then show ?thesis
      using sgrid.nearest_above [OF sgrid.on_grid_base, of s "o_max s"] assms(2) by (simp add: mx_def valueMin_def)
  qed
  have "is_int (mx * 10 ^ slider_precision s)"
  proof -
    have "is_int (o_step s * 10 ^ slider_precision s)" "is_int (o_min s * 10 ^ slider_precision s)"
      using precisionOf_plain [OF assms(3)] precisionOf_plain [OF assms(4)] by (auto simp: slider_precision_def)
    moreover have "mx * 10 ^ slider_precision s =
        o_min s * 10 ^ slider_precision s + of_int j * (o_step s * 10 ^ slider_precision s)"
      by (simp add: j algebra_simps)
    ultimately show ?thesis by (metis is_int_of_int is_int_ring)
  qed
  moreover have "s_max (calculateNewMax s) = to_fixed (slider_precision s) mx"
    unfolding mx_def nn calculateNewMax_def Let_def by simp
  ultimately have m: "s_max (calculateNewMax s) = mx" by (simp add: to_fixed_exact)
  have o: "o_min (calculateNewMax s) = o_min s" "o_step (calculateNewMax s) = o_step s"
    by (simp_all add: calculateNewMax_def Let_def)
  have "sgrid.on_grid (calculateNewMax s) mx"
    using sgrid.on_gridI [of "calculateNewMax s" j] by (simp add: j o valueMin_def st)
  then show ?thesis
    using ge assms close m by (auto simp: slider_ok_def o mx_def split: if_splits)
qed

theorem new_max_witness: "s_max (calculateNewMax demo_slider) \<le> 10 \<and> 10 < s_max (calculateNewMax demo_slider) + 3"
proof -
  have "is_int 3" "is_int 0" "is_int 300000" "is_int 300000000000000000000"
    using is_int_of_int [of 3] is_int_of_int [of 0] is_int_of_int [of 300000] is_int_of_int [of 300000000000000000000] by simp_all
  then show ?thesis using new_max [of demo_slider] by (simp add: demo_slider_def plain_number_def)
qed

section \<open>The handles of a range\<close>

definition aligned :: "slider \<Rightarrow> rat \<Rightarrow> bool" where
  "aligned s v \<longleftrightarrow> valueMin s \<le> v \<and> v \<le> valueMax s \<and> sgrid.on_grid s v"

definition range_inv :: "slider \<Rightarrow> bool" where
  "range_inv s \<longleftrightarrow> slider_ok s \<and> o_range s = RangeTrue \<and>
     (\<exists>a b. o_values s = [a, b] \<and> a \<le> b \<and> aligned s a \<and> aligned s b) \<and>
     (\<forall>i. handleIndex s = Some i \<longrightarrow> i < 2)"

text \<open>What the user can do with the mouse and the keyboard on one of the two handles.\<close>

inductive slider_step :: "slider \<Rightarrow> slider \<Rightarrow> bool" where
  capture: "mouseCapture allowed ok grip hover b pos s = (r, s') \<Longrightarrow> slider_step s s'"
| drag: "slider_step s (mouseDrag allowed b pos s)"
| stop: "slider_step s (mouseStop s)"
| key_down: "i < 2 \<Longrightarrow> slider_step s (keydown allowed ok i key s)"
| key_up: "i < 2 \<Longrightarrow> slider_step s (keyup i s)"

text \<open>Changes of other fields keep the invariant.\<close>

definition same_range :: "slider \<Rightarrow> slider \<Rightarrow> bool" where
  "same_range s t \<longleftrightarrow> o_min t = o_min s \<and> s_max t = s_max s \<and> o_step t = o_step s \<and> o_range t = o_range s"

lemma aligned_same: "same_range s t \<Longrightarrow> aligned t = aligned s"
  by (rule ext) (simp add: aligned_def same_range_def valueMin_def valueMax_def sgrid.on_grid_def)

lemma slider_ok_same: "same_range s t \<Longrightarrow> slider_ok t = slider_ok s"
  by (simp add: slider_ok_def same_range_def sgrid.on_grid_def valueMin_def)

lemma range_inv_same:
  "same_range s t \<Longrightarrow> o_values t = o_values s \<Longrightarrow> \<forall>i. handleIndex t = Some i \<longrightarrow> i < 2 \<Longrightarrow> range_inv s \<Longrightarrow> range_inv t"
  using aligned_same [of s t] slider_ok_same [of s t] by (simp add: range_inv_def) (simp add: same_range_def)

lemma trimAlign_same: "same_range s t \<Longrightarrow> trimAlignValue t v = trimAlignValue s v"
  by (simp add: trimAlignValue_def same_range_def valueMin_def valueMax_def)

lemma range_inv_trigger: "range_inv s \<Longrightarrow> range_inv (trigger e s)"
  by (rule range_inv_same [of s]) (auto simp: trigger_def same_range_def range_inv_def)

lemma range_inv_change: "range_inv s \<Longrightarrow> range_inv (change i s)"
  by (rule range_inv_same [of s]) (auto simp: change_def trigger_def same_range_def range_inv_def)

lemma trim_aligned: "slider_ok s \<Longrightarrow> aligned s (trimAlignValue s v)"
  using trimAlign_in_range by (simp add: aligned_def)

lemma trim_id: "slider_ok s \<Longrightarrow> aligned s v \<Longrightarrow> trimAlignValue s v = v"
  using trimAlign_id by (simp add: aligned_def)

lemma slide_range_inv:
  assumes inv: "range_inv s" and v: "aligned s v" and i: "i < 2"
  shows "range_inv (slide allowed i v s)"
proof -
  from inv obtain a b where ab: "o_values s = [a, b]" "a \<le> b" "aligned s a" "aligned s b" and ok: "slider_ok s"
    and rt: "o_range s = RangeTrue" by (auto simp: range_inv_def)
  define nv where "nv = (if i = 0 then min b v else max a v)"
  have hv: "handle_value s 0 = a" "handle_value s (Suc 0) = b" "hasMultipleValues s"
    using ab ok by (simp_all add: handle_value_def hasMultipleValues_def trim_id)
  have nv: "aligned s nv" using v ab by (auto simp: nv_def min_def max_def)
  have upd: "range_inv (set_values i nv (trigger (Slide i nv) s))"
  proof -
    let ?t = "trigger (Slide i nv) s"
    have tr: "trimAlignValue ?t nv = nv"
      using trim_id [OF ok nv] trimAlign_same [of s ?t] by (simp add: trigger_def same_range_def)
    have "range_inv (?t\<lparr>o_values := [a, b][i := nv]\<rparr>)"
      using inv ab nv i aligned_same [of s "?t\<lparr>o_values := [a, b][i := nv]\<rparr>"]
        slider_ok_same [of s "?t\<lparr>o_values := [a, b][i := nv]\<rparr>"]
      by (cases "i = 0") (auto simp: range_inv_def trigger_def same_range_def nv_def less_2_cases_iff)
    then show ?thesis
      unfolding set_values_def tr by (intro range_inv_change) (simp add: trigger_def ab)
  qed
  have "slide allowed i v s = s \<or> slide allowed i v s = trigger (Slide i nv) s \<or>
      slide allowed i v s = set_values i nv (trigger (Slide i nv) s)"
    using i hv ab rt by (auto simp: slide_def Let_def nv_def trigger_def hasMultipleValues_def less_2_cases_iff)
  then show ?thesis using inv upd range_inv_trigger by auto
qed

lemma aligned_ends:
  "slider_ok s \<Longrightarrow> aligned s (valueMin s)" "slider_ok s \<Longrightarrow> aligned s (valueMax s)"
  using sgrid.on_grid_base [of s] by (auto simp: aligned_def slider_ok_def valueMin_def valueMax_def)

lemma normValue_aligned: "slider_ok s \<Longrightarrow> aligned s (normValueFromMouse b position s)"
  by (simp add: normValueFromMouse_def Let_def trim_aligned)

lemma key_value_aligned: "slider_ok s \<Longrightarrow> aligned s cur \<Longrightarrow> key_value s key cur = Some v \<Longrightarrow> aligned s v"
  by (auto simp: key_value_def trim_aligned aligned_ends split: slider_key.splits if_splits)

lemma handle_value_aligned: "slider_ok s \<Longrightarrow> aligned s (handle_value s i)"
  by (simp add: handle_value_def get_value_def trim_aligned)

lemma closest_from_index: "snd best = None \<or> (\<exists>j < n. snd best = Some j) \<Longrightarrow> \<forall>i \<in> set is. i < n \<Longrightarrow>
    snd (closest_from s v is best) = Some j \<Longrightarrow> j < n"
  by (induction s v "is" best rule: closest_from.induct) (auto simp: Let_def split: if_splits)

lemma closest_handle_less: "closest_handle s v = Some j \<Longrightarrow> j < handle_count s"
  unfolding closest_handle_def by (rule closest_from_index) auto

lemma range_inv_ok: "range_inv s \<Longrightarrow> slider_ok s \<and> handle_count s = 2"
  by (auto simp: range_inv_def handle_count_def)

lemma slider_step_inv:
  assumes "slider_step s s'" "range_inv s"
  shows "range_inv s'"
  using assms
proof (cases rule: slider_step.cases)
  case (capture allowed ok grip hover b pos r)
  note ok = range_inv_ok [OF assms(2)]
  let ?v = "normValueFromMouse b pos s"
  show ?thesis
  proof (cases "closest_handle s ?v")
    case (Some j)
    then have j: "j < 2" using closest_handle_less ok by metis
    let ?s2 = "(trigger (Start j) s)\<lparr>mouseSliding := True, handleIndex := Some j, clickOffset := grip\<rparr>"
    have same: "same_range s ?s2" by (simp add: same_range_def trigger_def)
    have s2: "range_inv ?s2" by (rule range_inv_same [OF same _ _ assms(2)]) (simp_all add: trigger_def j)
    have "aligned ?s2 ?v" using aligned_same [OF same] normValue_aligned ok by simp
    then show ?thesis
      using capture Some range_inv_trigger [OF assms(2), of "Start j"] assms(2) s2 slide_range_inv [OF s2 _ j]
      by (auto simp: mouseCapture_def Let_def split: if_splits)
  qed (use capture assms(2) in \<open>auto simp: mouseCapture_def Let_def split: if_splits\<close>)
next
  case (drag allowed b pos)
  have "i < 2" if "handleIndex s = Some i" for i using that assms(2) by (simp add: range_inv_def)
  then show ?thesis
    using drag assms(2) slide_range_inv normValue_aligned range_inv_ok by (auto simp: mouseDrag_def split: option.split)
next
  case stop
  show ?thesis unfolding stop
    by (rule range_inv_same [OF _ _ _ assms(2)])
       (auto simp: mouseStop_def same_range_def change_def trigger_def split: option.split)
next
  case (key_down i allowed ok key)
  define s1 where "s1 = (if key \<noteq> OtherKey \<and> \<not> keySliding s then trigger (Start i) (s\<lparr>keySliding := True\<rparr>) else s)"
  have s1: "range_inv s1"
    by (rule range_inv_same [OF _ _ _ assms(2)])
       (use assms(2) in \<open>auto simp: s1_def same_range_def trigger_def range_inv_def\<close>)
  then have "aligned s1 v" if "key_value s1 key (handle_value s1 i) = Some v" for v
    using that key_value_aligned handle_value_aligned range_inv_ok by blast
  moreover have "s' = s1 \<or> (\<exists>v. key_value s1 key (handle_value s1 i) = Some v \<and> s' = slide allowed i v s1)"
    using key_down(1) unfolding keydown_def Let_def s1_def [symmetric] by (auto split: if_splits option.splits)
  ultimately show ?thesis using s1 key_down(2) slide_range_inv [OF s1] by blast
next
  case (key_up i)
  show ?thesis unfolding key_up
    by (rule range_inv_same [OF _ _ _ assms(2)])
       (use assms(2) in \<open>auto simp: keyup_def same_range_def change_def trigger_def range_inv_def\<close>)
qed

text \<open>
  C11. Whatever sequence of mouse and key events a range slider handles, and whichever of them the
  callbacks veto, its two handles never cross and both stay on aligned values inside the interval.
\<close>

theorem handles_never_cross:
  assumes "slider_step\<^sup>*\<^sup>* s s'" and "range_inv s"
  shows "\<exists>a b. o_values s' = [a, b] \<and> o_min s' \<le> a \<and> a \<le> b \<and> b \<le> s_max s' \<and>
    trimAlignValue s' a = a \<and> trimAlignValue s' b = b"
proof -
  from assms have "range_inv s'" by (induction rule: rtranclp_induct) (auto intro: slider_step_inv)
  then obtain a b where "o_values s' = [a, b]" "a \<le> b" "aligned s' a" "aligned s' b" "slider_ok s'"
    by (auto simp: range_inv_def)
  then show ?thesis using trim_id by (auto simp: aligned_def valueMin_def valueMax_def)
qed

lemma demo_range_inv: "range_inv demo_slider"
proof -
  have "is_int 1" "is_int 2" using is_int_of_int [of 1] is_int_of_int [of 2] by simp_all
  then show ?thesis
    using demo_slider_ok unfolding range_inv_def aligned_def sgrid.on_grid_def
    by (simp add: demo_slider_def valueMin_def valueMax_def step_of_def)
qed

theorem handles_never_cross_witness:
  "\<exists>a b. o_values (keydown (\<lambda>_ _. True) True 0 End demo_slider) = [a, b] \<and> a \<le> b"
proof -
  have "slider_step\<^sup>*\<^sup>* demo_slider (keydown (\<lambda>_ _. True) True 0 End demo_slider)"
    by (intro r_into_rtranclp slider_step.key_down) simp
  from handles_never_cross [OF this demo_range_inv] show ?thesis by blast
qed

end
