(* ===== verification/UI_Spinner.thy ===== *)
theory UI_Spinner
  imports UI_Number
begin

text \<open>
  The jQuery UI spinner: a text field whose number is stepped by buttons, keys and the wheel. The
  field's text is modelled by what \<open>+val\<close> makes of it: \<open>TNum x\<close> is a text that reads as the number
  \<open>x\<close>, \<open>TOther\<close> one that is empty or reads as no number. The timer of the repeater is a pending
  (delay, steps) pair; user callbacks are arguments that say whether an event is allowed. Focus
  handling and the markup are not modelled.
\<close>

datatype spin_text = TNum rat | TOther string

datatype incremental = NotIncremental | Incremental | IncrementalFun "nat \<Rightarrow> rat"

datatype spin_event = SpinStart | SpinTo rat | SpinStop | SpinChange

record spinner =
  sp_min :: "rat option"
  sp_max :: "rat option"
  sp_step :: rat
  sp_page :: rat
  sp_incremental :: incremental
  sp_text :: spin_text
  sp_previous :: spin_text
  counter :: nat
  spinning :: bool
  timer :: "(nat \<times> rat) option"
  sp_events :: "spin_event list"

definition spin_trigger :: "spin_event \<Rightarrow> spinner \<Rightarrow> spinner" where
  "spin_trigger e s = s\<lparr>sp_events := sp_events s @ [e]\<rparr>"

definition spin_precision :: "spinner \<Rightarrow> nat" where
  "spin_precision s =
     (case sp_min s of
        None \<Rightarrow> precisionOf (sp_step s)
      | Some m \<Rightarrow> max (precisionOf (sp_step s)) (precisionOf m))"

definition spin_base :: "spinner \<Rightarrow> rat" where
  "spin_base s = (case sp_min s of Some m \<Rightarrow> m | None \<Rightarrow> 0)"

definition adjustValue :: "spinner \<Rightarrow> rat \<Rightarrow> rat" where
  "adjustValue s v =
     (let base = spin_base s;
          aboveMin = of_int (math_round ((v - base) / sp_step s)) * sp_step s;
          v' = to_fixed (spin_precision s) (base + aboveMin)
      in case sp_max s of
           Some mx \<Rightarrow>
             (if mx < v' then mx
              else case sp_min s of Some mn \<Rightarrow> if v' < mn then mn else v' | None \<Rightarrow> v')
         | None \<Rightarrow> (case sp_min s of Some mn \<Rightarrow> if v' < mn then mn else v' | None \<Rightarrow> v'))"

definition spin_parse :: "spin_text \<Rightarrow> rat option" where
  "spin_parse t = (case t of TNum x \<Rightarrow> Some x | TOther _ \<Rightarrow> None)"

definition spin_value :: "spinner \<Rightarrow> rat option" where
  "spin_value s = spin_parse (sp_text s)"

text \<open>\<open>_value\<close>: a text that is no number is stored as it is.\<close>

definition store_value :: "bool \<Rightarrow> spin_text \<Rightarrow> spinner \<Rightarrow> spinner" where
  "store_value allowAny v s =
     (case spin_parse v of
        None \<Rightarrow> s\<lparr>sp_text := v\<rparr>
      | Some x \<Rightarrow> s\<lparr>sp_text := TNum (if allowAny then x else adjustValue s x)\<rparr>)"

definition isValid :: "spinner \<Rightarrow> bool" where
  "isValid s = (case spin_value s of None \<Rightarrow> False | Some x \<Rightarrow> x = adjustValue s x)"

definition increment :: "spinner \<Rightarrow> nat \<Rightarrow> rat" where
  "increment s i =
     (case sp_incremental s of
        NotIncremental \<Rightarrow> 1
      | IncrementalFun f \<Rightarrow> f i
      | Incremental \<Rightarrow>
          (let x = rat_of_nat i
           in of_int (floor (x * x * x / 50000 - x * x / 500 + 17 * x / 200 + 1))))"

definition spin_start :: "bool \<Rightarrow> spinner \<Rightarrow> bool \<times> spinner" where
  "spin_start ok s =
     (let s1 = (if spinning s then s else spin_trigger SpinStart s)
      in if \<not> spinning s \<and> \<not> ok then (False, s1)
         else (True, s1\<lparr>counter := (if counter s = 0 then 1 else counter s), spinning := True\<rparr>))"

text \<open>\<open>_spin\<close>: the value of a field that reads as no number counts as 0.\<close>

definition spin :: "(rat \<Rightarrow> bool) \<Rightarrow> rat \<Rightarrow> spinner \<Rightarrow> spinner" where
  "spin allowed step s =
     (let old = (case spin_value s of Some x \<Rightarrow> x | None \<Rightarrow> 0);
          s1 = (if counter s = 0 then s\<lparr>counter := 1\<rparr> else s);
          v = adjustValue s1 (old + step * increment s1 (counter s1));
          s2 = (if spinning s1 then spin_trigger (SpinTo v) s1 else s1)
      in if \<not> spinning s1 \<or> allowed v
         then (store_value False (TNum v) s2)\<lparr>counter := Suc (counter s1)\<rparr> else s2)"

definition spin_repeat :: "(rat \<Rightarrow> bool) \<Rightarrow> nat option \<Rightarrow> rat \<Rightarrow> spinner \<Rightarrow> spinner" where
  "spin_repeat allowed i steps s =
     spin allowed (steps * sp_step s) (s\<lparr>timer := Some (case i of Some d \<Rightarrow> d | None \<Rightarrow> 500, steps)\<rparr>)"

definition spin_tick :: "(rat \<Rightarrow> bool) \<Rightarrow> spinner \<Rightarrow> spinner" where
  "spin_tick allowed s =
     (case timer s of
        None \<Rightarrow> s
      | Some (d, steps) \<Rightarrow> spin_repeat allowed (Some 40) steps (s\<lparr>timer := None\<rparr>))"

definition spin_stop :: "spinner \<Rightarrow> spinner" where
  "spin_stop s =
     (if \<not> spinning s then s
      else spin_trigger SpinStop (s\<lparr>timer := None, counter := 0, spinning := False\<rparr>))"

text \<open>\<open>spinnerModifer\<close>: a change of the text triggers one change event.\<close>

definition spinnerModifer :: "(spinner \<Rightarrow> spinner) \<Rightarrow> spinner \<Rightarrow> spinner" where
  "spinnerModifer f s =
     (let s1 = f s in if sp_text s \<noteq> sp_text s1 then spin_trigger SpinChange s1 else s1)"

definition or_one :: "rat \<Rightarrow> rat" where
  "or_one n = (if n = 0 then 1 else n)"

definition stepUp_inner :: "bool \<Rightarrow> (rat \<Rightarrow> bool) \<Rightarrow> rat \<Rightarrow> spinner \<Rightarrow> spinner" where
  "stepUp_inner ok allowed steps s =
     (case spin_start ok s of
        (True, s1) \<Rightarrow> spin_stop (spin allowed (or_one steps * sp_step s1) s1)
      | (False, s1) \<Rightarrow> s1)"

definition stepDown_inner :: "bool \<Rightarrow> (rat \<Rightarrow> bool) \<Rightarrow> rat \<Rightarrow> spinner \<Rightarrow> spinner" where
  "stepDown_inner ok allowed steps s =
     (case spin_start ok s of
        (True, s1) \<Rightarrow> spin_stop (spin allowed (or_one steps * - sp_step s1) s1)
      | (False, s1) \<Rightarrow> s1)"

definition stepUp :: "bool \<Rightarrow> (rat \<Rightarrow> bool) \<Rightarrow> rat \<Rightarrow> spinner \<Rightarrow> spinner" where
  "stepUp ok allowed steps = spinnerModifer (stepUp_inner ok allowed steps)"

definition stepDown :: "bool \<Rightarrow> (rat \<Rightarrow> bool) \<Rightarrow> rat \<Rightarrow> spinner \<Rightarrow> spinner" where
  "stepDown ok allowed steps = spinnerModifer (stepDown_inner ok allowed steps)"

definition pageUp :: "bool \<Rightarrow> (rat \<Rightarrow> bool) \<Rightarrow> rat \<Rightarrow> spinner \<Rightarrow> spinner" where
  "pageUp ok allowed pages s = spinnerModifer (stepUp_inner ok allowed (or_one pages * sp_page s)) s"

definition pageDown :: "bool \<Rightarrow> (rat \<Rightarrow> bool) \<Rightarrow> rat \<Rightarrow> spinner \<Rightarrow> spinner" where
  "pageDown ok allowed pages s = spinnerModifer (stepDown_inner ok allowed (or_one pages * sp_page s)) s"

definition set_spin_value :: "spin_text \<Rightarrow> spinner \<Rightarrow> spinner" where
  "set_spin_value v = spinnerModifer (store_value False v)"

section \<open>Events\<close>

datatype spin_key = SpinUp | SpinDown | SpinPageUp | SpinPageDown | SpinOther

text \<open>
  A key that is not one of the four starts a spin and leaves the rest to the browser: the characters
  it types into the field are not an input of the model.
\<close>

definition spin_keydown :: "bool \<Rightarrow> (rat \<Rightarrow> bool) \<Rightarrow> spin_key \<Rightarrow> spinner \<Rightarrow> spinner" where
  "spin_keydown ok allowed key s =
     (case spin_start ok s of
        (False, s1) \<Rightarrow> s1
      | (True, s1) \<Rightarrow>
          (case key of
             SpinUp \<Rightarrow> spin_repeat allowed None 1 s1
           | SpinDown \<Rightarrow> spin_repeat allowed None (- 1) s1
           | SpinPageUp \<Rightarrow> spin_repeat allowed None (sp_page s1) s1
           | SpinPageDown \<Rightarrow> spin_repeat allowed None (- sp_page s1) s1
           | SpinOther \<Rightarrow> s1))"

definition spin_mousedown :: "bool \<Rightarrow> (rat \<Rightarrow> bool) \<Rightarrow> bool \<Rightarrow> spinner \<Rightarrow> spinner" where
  "spin_mousedown ok allowed up s =
     (case spin_start ok s of
        (False, s1) \<Rightarrow> s1
      | (True, s1) \<Rightarrow> spin_repeat allowed None (if up then 1 else - 1) s1)"

definition spin_mousewheel :: "bool \<Rightarrow> (rat \<Rightarrow> bool) \<Rightarrow> rat \<Rightarrow> spinner \<Rightarrow> spinner" where
  "spin_mousewheel ok allowed delta s =
     (if delta = 0 then s
      else
        let (go, s1) = (if spinning s then (True, s) else spin_start ok s)
        in if \<not> go then s1 else spin allowed ((if 0 < delta then 1 else - 1) * sp_step s1) s1)"

definition spin_focus :: "spinner \<Rightarrow> spinner" where
  "spin_focus s = s\<lparr>sp_previous := sp_text s\<rparr>"

definition spin_blur :: "spinner \<Rightarrow> spinner" where
  "spin_blur s =
     (let s1 = spin_stop s in if sp_previous s1 \<noteq> sp_text s1 then spin_trigger SpinChange s1 else s1)"

section \<open>Adjusted values\<close>

interpretation spgrid: step_grid "spin_base s" "if 0 < sp_step s then sp_step s else 1" for s
  by unfold_locales simp

text \<open>
  A spinner is well formed when its step is positive, step and minimum print without an exponent
  and the interval is not empty.
\<close>

definition spinner_ok :: "spinner \<Rightarrow> bool" where
  "spinner_ok s \<longleftrightarrow> 0 < sp_step s \<and> plain_number (sp_step s) \<and> plain_number (spin_base s) \<and>
     (case (sp_min s, sp_max s) of (Some a, Some b) \<Rightarrow> a \<le> b | _ \<Rightarrow> True)"

definition in_bounds :: "spinner \<Rightarrow> rat \<Rightarrow> bool" where
  "in_bounds s v \<longleftrightarrow> (case sp_min s of Some a \<Rightarrow> a \<le> v | None \<Rightarrow> True) \<and>
     (case sp_max s of Some b \<Rightarrow> v \<le> b | None \<Rightarrow> True)"

lemma grid_fixed:
  assumes "spinner_ok s"
  shows "to_fixed (spin_precision s) (spin_base s + of_int k * sp_step s) = spin_base s + of_int k * sp_step s"
proof (rule to_fixed_exact)
  let ?p = "spin_precision s"
  have "precisionOf 0 = 0" using is_int_of_int [of 0] by (simp add: precisionOf_def numeral_eq_Suc)
  then have "precisionOf (sp_step s) \<le> ?p" "precisionOf (spin_base s) \<le> ?p"
    by (auto simp: spin_precision_def spin_base_def split: option.split)
  then have "is_int (sp_step s * 10 ^ ?p)" "is_int (spin_base s * 10 ^ ?p)"
    using assms precisionOf_plain by (auto simp: spinner_ok_def)
  moreover have "(spin_base s + of_int k * sp_step s) * 10 ^ ?p = spin_base s * 10 ^ ?p + of_int k * (sp_step s * 10 ^ ?p)"
    by (simp add: algebra_simps)
  ultimately show "is_int ((spin_base s + of_int k * sp_step s) * 10 ^ ?p)" by (metis is_int_of_int is_int_ring)
qed

lemma adjust_nearest:
  assumes "spinner_ok s"
  shows "adjustValue s v =
    (let n = spgrid.nearest s v
     in if (case sp_max s of Some mx \<Rightarrow> mx < n | None \<Rightarrow> False) then the (sp_max s)
        else if (case sp_min s of Some mn \<Rightarrow> n < mn | None \<Rightarrow> False) then the (sp_min s) else n)"
proof -
  have n: "spgrid.nearest s v = spin_base s + of_int (math_round ((v - spin_base s) / sp_step s)) * sp_step s"
    using spgrid.nearest_def [of s v] assms by (simp add: spinner_ok_def)
  show ?thesis
    unfolding n adjustValue_def Let_def grid_fixed [OF assms] by (auto split: option.split)
qed

lemma adjust_in_bounds: "spinner_ok s \<Longrightarrow> in_bounds s (adjustValue s v)"
  by (auto simp: adjust_nearest Let_def in_bounds_def spinner_ok_def split: option.splits)

text \<open>Adjusting twice reaches a fixed point, even when the maximum is not on the grid.\<close>

lemma adjust_twice:
  assumes "spinner_ok s"
  shows "adjustValue s (adjustValue s (adjustValue s v)) = adjustValue s (adjustValue s v)"
proof -
  let ?n = "spgrid.nearest s"
  have id: "?n (?n x) = ?n x" for x using spgrid.nearest_id [OF spgrid.nearest_on_grid] .
  have base: "?n (spin_base s) = spin_base s" using spgrid.nearest_id [OF spgrid.on_grid_base] .
  show ?thesis
  proof (cases "sp_max s")
    case None
    then show ?thesis using id base
      by (cases "sp_min s") (auto simp: adjust_nearest [OF assms] Let_def spin_base_def split: if_splits)
  next
    case (Some b)
    then show ?thesis
      using id base spgrid.nearest_above [OF spgrid.on_grid_base, of s b] assms
      by (cases "sp_min s") (auto simp: adjust_nearest [OF assms] Let_def spin_base_def spinner_ok_def split: if_splits)
  qed
qed

section \<open>Interaction\<close>

inductive spinner_step :: "spinner \<Rightarrow> spinner \<Rightarrow> bool" where
  mousedown: "spinner_step s (spin_mousedown ok allowed up s)"
| tick: "spinner_step s (spin_tick allowed s)"
| stop: "spinner_step s (spin_stop s)"
| key: "spinner_step s (spin_keydown ok allowed k s)"
| wheel: "spinner_step s (spin_mousewheel ok allowed delta s)"
| step_up: "spinner_step s (stepUp ok allowed n s)"
| step_down: "spinner_step s (stepDown ok allowed n s)"
| page_up: "spinner_step s (pageUp ok allowed n s)"
| page_down: "spinner_step s (pageDown ok allowed n s)"
| focus: "spinner_step s (spin_focus s)"
| blur: "spinner_step s (spin_blur s)"

inductive_cases spinner_stepE: "spinner_step s s'"

definition spinner_inv :: "spinner \<Rightarrow> bool" where
  "spinner_inv s \<longleftrightarrow> spinner_ok s \<and> isValid s \<and> (timer s \<noteq> None \<longrightarrow> spinning s)"

text \<open>The options are the only fields the validity of a value depends on.\<close>

definition same_limits :: "spinner \<Rightarrow> spinner \<Rightarrow> bool" where
  "same_limits s t \<longleftrightarrow> sp_min t = sp_min s \<and> sp_max t = sp_max s \<and> sp_step t = sp_step s"

lemma same_limits_adjust: "same_limits s t \<Longrightarrow> adjustValue t v = adjustValue s v"
  by (cases "sp_max s"; cases "sp_min s")
     (simp_all add: same_limits_def adjustValue_def spin_base_def spin_precision_def Let_def)

lemma same_limits_ok: "same_limits s t \<Longrightarrow> spinner_ok t = spinner_ok s"
  by (simp add: same_limits_def spinner_ok_def spin_base_def)

lemma inv_same:
  "spinner_inv s \<Longrightarrow> same_limits s t \<Longrightarrow> sp_text t = sp_text s \<Longrightarrow> (timer t \<noteq> None \<longrightarrow> spinning t) \<Longrightarrow> spinner_inv t"
  using same_limits_adjust [of s t] same_limits_ok [of s t]
  by (auto simp: spinner_inv_def isValid_def spin_value_def split: option.splits)

lemma inv_ok: "spinner_inv s \<Longrightarrow> timer s \<noteq> None \<longrightarrow> spinning s"
  by (simp add: spinner_inv_def)

lemma inv_start:
  assumes "spinner_inv s" "spin_start ok s = (r, s1)"
  shows "spinner_inv s1 \<and> (r \<longrightarrow> spinning s1)"
  using assms inv_ok [OF assms(1)]
  by (auto simp: spin_start_def Let_def spin_trigger_def same_limits_def intro!: inv_same [OF assms(1)] split: if_splits)

lemma spin_fields:
  "same_limits s (spin allowed st s)" "timer (spin allowed st s) = timer s" "spinning (spin allowed st s) = spinning s"
  by (auto simp: spin_def Let_def store_value_def spin_parse_def spin_trigger_def same_limits_def)

text \<open>The value \<open>_spin\<close> stores has been adjusted twice, in \<open>_spin\<close> itself and in \<open>_value\<close>.\<close>

lemma spin_text_cases:
  "sp_text (spin allowed st s) = sp_text s \<or> (\<exists>v. sp_text (spin allowed st s) = TNum (adjustValue s (adjustValue s v)))"
proof -
  have s1: "adjustValue (s\<lparr>counter := n\<rparr>) = adjustValue s" for n
    by (rule ext, rule same_limits_adjust) (simp add: same_limits_def)
  have s2: "adjustValue (spin_trigger e t) = adjustValue t" for e t
    by (rule ext, rule same_limits_adjust) (simp add: same_limits_def spin_trigger_def)
  have tx: "sp_text (spin_trigger e t) = sp_text t" for e t by (simp add: spin_trigger_def)
  show ?thesis by (auto simp: spin_def Let_def store_value_def spin_parse_def s1 s2 tx)
qed

lemma inv_spin: "spinner_inv s \<Longrightarrow> spinner_inv (spin allowed st s)"
  using spin_text_cases [of allowed st s] spin_fields [where s = s and allowed = allowed and st = st]
    same_limits_adjust [of s "spin allowed st s"] same_limits_ok [of s "spin allowed st s"] adjust_twice [of s]
  by (auto simp: spinner_inv_def isValid_def spin_value_def spin_parse_def split: option.splits)

lemma inv_repeat:
  assumes "spinner_inv s" "spinning s"
  shows "spinner_inv (spin_repeat allowed i st s)"
  unfolding spin_repeat_def
  by (intro inv_spin inv_same [OF assms(1)]) (simp_all add: same_limits_def assms(2))

lemma inv_stop: "spinner_inv s \<Longrightarrow> spinner_inv (spin_stop s)"
  by (frule inv_ok) (auto simp: spin_stop_def spin_trigger_def same_limits_def intro: inv_same)

lemma inv_trigger: "spinner_inv s \<Longrightarrow> spinner_inv (spin_trigger e s)"
  by (frule inv_ok) (auto simp: spin_trigger_def same_limits_def intro: inv_same)

lemma inv_modifer: "spinner_inv (f s) \<Longrightarrow> spinner_inv (spinnerModifer f s)"
  by (simp add: spinnerModifer_def Let_def inv_trigger)

lemma inv_inner:
  assumes "spinner_inv s"
  shows "spinner_inv (stepUp_inner ok allowed n s)" "spinner_inv (stepDown_inner ok allowed n s)"
  using inv_start [OF assms] inv_stop inv_spin
  by (auto simp: stepUp_inner_def stepDown_inner_def split: prod.split bool.split)

lemma spinner_step_inv:
  assumes "spinner_step s s'" "spinner_inv s"
  shows "spinner_inv s'"
  using assms(1)
proof (cases rule: spinner_step.cases)
  case (mousedown ok allowed up)
  then show ?thesis using inv_start [OF assms(2), of ok] inv_repeat
    by (auto simp: spin_mousedown_def split: prod.split bool.split)
next
  case (tick allowed)
  have "spinner_inv (spin_repeat allowed (Some 40) st (s\<lparr>timer := None\<rparr>))" if "timer s = Some (d, st)" for d st
    using that inv_ok [OF assms(2)] by (intro inv_repeat inv_same [OF assms(2)]) (auto simp: same_limits_def)
  then show ?thesis using tick assms(2) by (auto simp: spin_tick_def split: option.split)
next
  case (key ok allowed k)
  then show ?thesis using inv_start [OF assms(2), of ok] inv_repeat
    by (auto simp: spin_keydown_def split: prod.split bool.split spin_key.split)
next
  case (wheel ok allowed delta)
  then show ?thesis using inv_start [OF assms(2), of ok] inv_spin assms(2)
    by (auto simp: spin_mousewheel_def split: prod.split)
next
  case focus
  then show ?thesis using inv_ok [OF assms(2)]
    by (auto simp: spin_focus_def same_limits_def intro!: inv_same [OF assms(2)])
next
  case blur
  then show ?thesis using inv_trigger [OF inv_stop [OF assms(2)]] inv_stop [OF assms(2)] by (simp add: spin_blur_def Let_def)
qed (use inv_stop assms(2) inv_modifer inv_inner in \<open>auto simp: stepUp_def stepDown_def pageUp_def pageDown_def\<close>)

text \<open>
  C38. No sequence of button presses, repeats, keys, wheel turns and stepping calls, whichever of
  them the callbacks veto, takes a spinner from a valid value to one \<open>isValid\<close> rejects or outside
  its limits, even if the maximum is not a whole number of steps; and its repeater is only armed
  while it is spinning.  (The setter and text the user types are not among these: they can store an
  invalid value.)
\<close>

theorem spinner_stays_valid:
  assumes "spinner_step\<^sup>*\<^sup>* s s'" and "spinner_ok s" and "isValid s" and "timer s = None"
  shows "isValid s' \<and> (\<exists>v. spin_value s' = Some v \<and> in_bounds s' v) \<and> (timer s' \<noteq> None \<longrightarrow> spinning s')"
proof -
  have "spinner_inv s" using assms by (simp add: spinner_inv_def)
  with assms(1) have i: "spinner_inv s'" by (induction rule: rtranclp_induct) (auto intro: spinner_step_inv)
  then obtain v where v: "spin_value s' = Some v" "v = adjustValue s' v"
    by (auto simp: spinner_inv_def isValid_def split: option.splits)
  then have "in_bounds s' v" using adjust_in_bounds i unfolding spinner_inv_def by metis
  then show ?thesis using i v by (auto simp: spinner_inv_def)
qed

definition demo_spinner :: spinner where
  "demo_spinner = \<lparr>sp_min = Some 0, sp_max = Some 4, sp_step = 3, sp_page = 10, sp_incremental = Incremental,
     sp_text = TNum 3, sp_previous = TNum 3, counter = 0, spinning = False, timer = None, sp_events = []\<rparr>"

lemma demo_spinner_ok: "spinner_ok demo_spinner"
proof -
  have "is_int 0" "is_int 300000000000000000000" using is_int_of_int [of 0] is_int_of_int [of 300000000000000000000] by simp_all
  then show ?thesis by (simp add: spinner_ok_def demo_spinner_def spin_base_def plain_number_def)
qed

lemma demo_adjust: "adjustValue demo_spinner 3 = 3" "adjustValue demo_spinner 5 = 4" "adjustValue demo_spinner 4 = 3"
proof -
  have p: "spin_precision demo_spinner = 0"
    using is_int_of_int [of 0] is_int_of_int [of 3]
    by (simp add: spin_precision_def demo_spinner_def precisionOf_def numeral_eq_Suc)
  have f: "floor (3 / 2 :: rat) = 1" "floor (1 / 2 :: rat) = 0" "floor (13 / 6 :: rat) = 2" "floor (11 / 6 :: rat) = 1" "floor (7 / 2 :: rat) = 3"
    by (simp_all add: floor_eq_iff)
  show "adjustValue demo_spinner 3 = 3" "adjustValue demo_spinner 5 = 4" "adjustValue demo_spinner 4 = 3"
    unfolding adjustValue_def p by (simp_all add: f demo_spinner_def spin_base_def math_round_def to_fixed_def Let_def)
qed

theorem spinner_stays_valid_witness: "isValid (stepUp True (\<lambda>_. True) 1 demo_spinner)"
proof -
  have "isValid demo_spinner"
    by (simp add: isValid_def spin_value_def spin_parse_def demo_adjust(1) [simplified] demo_spinner_def [THEN arg_cong [where f = sp_text]])
  then show ?thesis
    using spinner_stays_valid [OF r_into_rtranclp [of spinner_step, OF spinner_step.step_up] demo_spinner_ok]
    by (simp add: demo_spinner_def [THEN arg_cong [where f = timer]])
qed

text \<open>
  The public setter adjusts only once: with minimum 0, step 3 and maximum 4 it stores 4 for
  the value 5, which \<open>isValid\<close> then rejects.
\<close>

theorem setter_can_store_invalid:
  "spin_value (set_spin_value (TNum 5) demo_spinner) = Some 4 \<and> \<not> isValid (set_spin_value (TNum 5) demo_spinner)"
proof -
  let ?s = "set_spin_value (TNum 5) demo_spinner"
  have t: "sp_text ?s = TNum 4"
    by (simp add: set_spin_value_def spinnerModifer_def Let_def store_value_def spin_parse_def demo_adjust spin_trigger_def)
  have "adjustValue ?s 4 = 3"
    using same_limits_adjust [of demo_spinner ?s 4] demo_adjust(3)
    by (simp add: set_spin_value_def spinnerModifer_def Let_def store_value_def spin_parse_def spin_trigger_def same_limits_def)
  with t show ?thesis by (simp add: isValid_def spin_value_def spin_parse_def)
qed

end
