(* ===== verification/UI_Progressbar.thy ===== *)
theory UI_Progressbar
  imports UI_Number
begin

text \<open>
  The jQuery UI progressbar. Its value is a number or \<open>false\<close> for an indeterminate bar; what a
  caller passes may also be something that is no number, which counts as 0.
\<close>

datatype pb_value = PFalse | PNum rat | PNotNumber

datatype pb_event = PChange | PComplete

record progressbar =
  pb_max :: rat
  pb_value :: pb_value
  indeterminate :: bool
  oldValue :: pb_value
  pb_events :: "pb_event list"

definition pb_min :: rat where
  "pb_min = 0"

text \<open>\<open>_constrainedValue\<close>: without an argument it constrains the current value.\<close>

definition constrainedValue :: "pb_value option \<Rightarrow> progressbar \<Rightarrow> pb_value \<times> progressbar" where
  "constrainedValue newValue b =
     (let v = (case newValue of None \<Rightarrow> pb_value b | Some v \<Rightarrow> v);
          b1 = b\<lparr>indeterminate := (v = PFalse)\<rparr>;
          x = (case v of PNum x \<Rightarrow> x | _ \<Rightarrow> 0)
      in (if indeterminate b1 then PFalse else PNum (min (pb_max b1) (max pb_min x)), b1))"

text \<open>\<open>_percentage\<close>: \<open>None\<close> is the \<open>NaN\<close> of an empty interval.\<close>

definition percentage :: "progressbar \<Rightarrow> rat option" where
  "percentage b =
     (if indeterminate b then Some 100
      else if pb_max b = pb_min then None
      else Some (100 * ((case pb_value b of PNum x \<Rightarrow> x | _ \<Rightarrow> 0) - pb_min) / (pb_max b - pb_min)))"

definition pb_trigger :: "pb_event \<Rightarrow> progressbar \<Rightarrow> progressbar" where
  "pb_trigger e b = b\<lparr>pb_events := pb_events b @ [e]\<rparr>"

text \<open>What \<open>_refreshValue\<close> shows: visibility and width of the bar, and the events it triggers.\<close>

definition bar_visible :: "progressbar \<Rightarrow> bool" where
  "bar_visible b \<longleftrightarrow> indeterminate b \<or> (case pb_value b of PNum x \<Rightarrow> pb_min < x | _ \<Rightarrow> False)"

definition refreshValue :: "progressbar \<Rightarrow> progressbar" where
  "refreshValue b =
     (let b1 = (if oldValue b \<noteq> pb_value b then pb_trigger PChange (b\<lparr>oldValue := pb_value b\<rparr>) else b)
      in if pb_value b = PNum (pb_max b) then pb_trigger PComplete b1 else b1)"

definition pb_create :: "progressbar \<Rightarrow> progressbar" where
  "pb_create b = (case constrainedValue None b of (v, b1) \<Rightarrow> refreshValue (b1\<lparr>pb_value := v, oldValue := v\<rparr>))"

definition pb_set_value :: "pb_value \<Rightarrow> progressbar \<Rightarrow> progressbar" where
  "pb_set_value newValue b = (case constrainedValue (Some newValue) b of (v, b1) \<Rightarrow> refreshValue (b1\<lparr>pb_value := v\<rparr>))"

definition pb_setOption_max :: "rat \<Rightarrow> progressbar \<Rightarrow> progressbar" where
  "pb_setOption_max v b = b\<lparr>pb_max := max pb_min v\<rparr>"

text \<open>\<open>_setOptions\<close>: the maximum is set first, then the value is constrained to it.\<close>

definition pb_setOptions :: "rat option \<Rightarrow> pb_value option \<Rightarrow> progressbar \<Rightarrow> progressbar" where
  "pb_setOptions mx newValue b =
     (let b1 = (case mx of Some m \<Rightarrow> pb_setOption_max m b | None \<Rightarrow> b)
      in case constrainedValue newValue b1 of (v, b2) \<Rightarrow> refreshValue (b2\<lparr>pb_value := v\<rparr>))"

section \<open>The bar stays inside its frame\<close>

definition pb_inv :: "progressbar \<Rightarrow> bool" where
  "pb_inv b \<longleftrightarrow> 0 \<le> pb_max b \<and> oldValue b = pb_value b \<and>
     (if indeterminate b then pb_value b = PFalse else \<exists>x. pb_value b = PNum x \<and> 0 \<le> x \<and> x \<le> pb_max b)"

inductive pb_step :: "progressbar \<Rightarrow> progressbar \<Rightarrow> bool" where
  set_value: "pb_step b (pb_set_value v b)"
| set_options: "pb_step b (pb_setOptions mx v b)"

lemma refresh_inv:
  assumes "0 \<le> pb_max b" and "if indeterminate b then pb_value b = PFalse else \<exists>x. pb_value b = PNum x \<and> 0 \<le> x \<and> x \<le> pb_max b"
  shows "pb_inv (refreshValue b)"
  using assms by (auto simp: pb_inv_def refreshValue_def pb_trigger_def Let_def)

lemma constrained_inv:
  assumes "0 \<le> pb_max b" "constrainedValue nv b = (v, b1)"
  shows "pb_inv (refreshValue (b1\<lparr>pb_value := v\<rparr>)) \<and> pb_inv (refreshValue (b1\<lparr>pb_value := v, oldValue := w\<rparr>))"
  using assms by (auto intro!: refresh_inv simp: constrainedValue_def Let_def pb_min_def)

lemma pb_step_inv: "pb_step b b' \<Longrightarrow> 0 \<le> pb_max b \<Longrightarrow> pb_inv b'"
proof (induction rule: pb_step.induct)
  case (set_value b v)
  then show ?case using constrained_inv [of b "Some v"] by (auto simp: pb_set_value_def split: prod.split)
next
  case (set_options b mx v)
  let ?b = "case mx of Some m \<Rightarrow> pb_setOption_max m b | None \<Rightarrow> b"
  have "0 \<le> pb_max ?b" using set_options by (auto simp: pb_setOption_max_def pb_min_def split: option.split)
  then show ?case using constrained_inv [of ?b v] by (auto simp: pb_setOptions_def Let_def split: prod.split)
qed

lemma pb_create_inv: "0 \<le> pb_max b \<Longrightarrow> pb_inv (pb_create b)"
  using constrained_inv [of b None] by (auto simp: pb_create_def split: prod.split)

lemma refresh_max: "pb_max (refreshValue b) = pb_max b"
  by (auto simp: refreshValue_def pb_trigger_def Let_def)

lemma set_value_max: "pb_max (pb_set_value v b) = pb_max b"
  by (auto simp: pb_set_value_def constrainedValue_def refresh_max Let_def split: prod.split)

lemma create_max: "pb_max (pb_create b) = pb_max b"
  by (auto simp: pb_create_def constrainedValue_def refresh_max Let_def split: prod.split)

text \<open>
  After any sequence of \<open>value\<close> and \<open>option\<close> calls on a created progressbar, whatever is passed
  to them, its value lies between 0 and the maximum or is \<open>false\<close>, the width of the bar is between
  0 and 100 percent unless the maximum is 0, and every change has been announced.
\<close>

theorem progress_in_frame:
  assumes "pb_step\<^sup>*\<^sup>* (pb_create b) b'" and "0 \<le> pb_max b"
  shows "(pb_value b' = PFalse \<and> indeterminate b' \<or> (\<exists>x. pb_value b' = PNum x \<and> 0 \<le> x \<and> x \<le> pb_max b')) \<and>
    (pb_max b' \<noteq> 0 \<longrightarrow> (\<exists>p. percentage b' = Some p \<and> 0 \<le> p \<and> p \<le> 100)) \<and> oldValue b' = pb_value b'"
proof -
  from assms(1) have "pb_inv b'"
  proof (induction rule: rtranclp_induct)
    case base
    then show ?case using pb_create_inv [OF assms(2)] .
  next
    case (step y z)
    then show ?case using pb_step_inv by (simp add: pb_inv_def)
  qed
  then show ?thesis by (auto simp: pb_inv_def percentage_def pb_min_def divide_le_eq split: if_splits)
qed

theorem progress_in_frame_witness:
  "\<exists>p. percentage (pb_set_value (PNum 70) (pb_create \<lparr>pb_max = 50, pb_value = PNum 7, indeterminate = False,
     oldValue = PNotNumber, pb_events = []\<rparr>)) = Some p \<and> p \<le> 100"
proof -
  let ?b = "\<lparr>pb_max = 50, pb_value = PNum 7, indeterminate = False, oldValue = PNotNumber, pb_events = []\<rparr>"
  have "pb_step\<^sup>*\<^sup>* (pb_create ?b) (pb_set_value (PNum 70) (pb_create ?b))"
    by (intro r_into_rtranclp pb_step.set_value)
  from progress_in_frame [OF this] show ?thesis by (auto simp: set_value_max create_max)
qed

end
