(* ===== verification/JQ_Words.thy ===== *)
theory JQ_Words
  imports Prelude
begin

text \<open>
  Words separated by HTML white space, \<open>value.match( rnothtmlwhite ) || []\<close>, which callback options,
  class attributes and data types share, and the search for a text inside another.
\<close>

section \<open>Words\<close>

definition html_white :: "char \<Rightarrow> bool" where
  "html_white c \<longleftrightarrow> c \<in> set [CHR '' '', CHR 0x09, CHR 0x0D, CHR 0x0A, CHR 0x0C]"

fun words_acc :: "string \<Rightarrow> string \<Rightarrow> string list" where
  "words_acc [] w = (if w = [] then [] else [w])"
| "words_acc (c # cs) w =
     (if html_white c then (if w = [] then words_acc cs [] else w # words_acc cs []) else words_acc cs (w @ [c]))"

definition match_words :: "string \<Rightarrow> string list" where
  "match_words s = words_acc s []"

definition word :: "string \<Rightarrow> bool" where
  "word w \<longleftrightarrow> w \<noteq> [] \<and> (\<forall>c \<in> set w. \<not> html_white c)"

lemma html_white_space [simp]: "html_white (CHR '' '')"
  by (simp add: html_white_def)

lemma words_acc_split: "html_white c \<Longrightarrow> words_acc (s @ c # t) w = words_acc s w @ match_words t"
  by (induction s arbitrary: w) (auto simp: match_words_def)

lemma words_acc_word: "\<forall>c \<in> set s. \<not> html_white c \<Longrightarrow> words_acc s w = (if w @ s = [] then [] else [w @ s])"
  by (induction s arbitrary: w) auto

lemma match_words_simps [simp]:
  "match_words [] = []" "html_white c \<Longrightarrow> match_words (c # s) = match_words s"
  by (simp_all add: match_words_def)

lemma match_words_split: "html_white c \<Longrightarrow> match_words (s @ c # t) = match_words s @ match_words t"
  unfolding match_words_def by (simp add: words_acc_split [unfolded match_words_def])

lemma match_words_word: "word w \<Longrightarrow> match_words w = [w]"
  by (simp add: match_words_def words_acc_word word_def)

lemma words_acc_words: "\<forall>c \<in> set w. \<not> html_white c \<Longrightarrow> \<forall>x \<in> set (words_acc s w). word x"
proof (induction s arbitrary: w)
  case (Cons c s)
  have "\<forall>x \<in> set (words_acc s []). word x" "\<not> html_white c \<Longrightarrow> \<forall>x \<in> set (words_acc s (w @ [c])). word x"
    using Cons.IH [of "[]"] Cons.IH [of "w @ [c]"] Cons.prems by auto
  then show ?case using Cons.prems by (auto simp: word_def)
qed (auto simp: word_def)

lemma match_words_words: "x \<in> set (match_words s) \<Longrightarrow> word x"
  using words_acc_words [of "[]" s] by (auto simp: match_words_def)

lemma words_acc_occurs:
  "x \<in> set (words_acc s w) \<Longrightarrow> \<exists>a b. w @ s = a @ x @ b \<and> (a = [] \<or> html_white (last a)) \<and> (b = [] \<or> html_white (hd b))"
proof (induction s arbitrary: w)
  case Nil
  then show ?case by (auto split: if_splits intro: exI [of _ "[]"])
next
  case (Cons c cs)
  show ?case
  proof (cases "html_white c")
    case True
    show ?thesis
    proof (cases "x \<in> set (words_acc cs [])")
      case in_cs: True
      obtain a b where "cs = a @ x @ b" "a = [] \<or> html_white (last a)" "b = [] \<or> html_white (hd b)"
        using Cons.IH [OF in_cs] by auto
      then show ?thesis using True by (intro exI [of _ "w @ c # a"] exI [of _ b]) auto
    next
      case False
      then have "x = w" using Cons.prems True by (auto split: if_splits)
      then show ?thesis using True by (intro exI [of _ "[]"] exI [of _ "c # cs"]) auto
    qed
  next
    case False
    then show ?thesis using Cons.IH [of "w @ [c]"] Cons.prems by simp
  qed
qed

lemma match_words_occurs:
  "x \<in> set (match_words s) \<Longrightarrow> \<exists>a b. s = a @ x @ b \<and> (a = [] \<or> html_white (last a)) \<and> (b = [] \<or> html_white (hd b))"
  using words_acc_occurs [of x s "[]"] by (simp add: match_words_def)

lemma match_words_join: "\<forall>w \<in> set ws. word w \<Longrightarrow> match_words (join '' '' ws) = ws"
proof (induction ws)
  case (Cons w ws)
  then show ?case by (cases ws) (simp_all add: match_words_word match_words_split)
qed simp

section \<open>Search for a text\<close>

fun starts :: "string \<Rightarrow> string \<Rightarrow> bool" where
  "starts [] s \<longleftrightarrow> True"
| "starts (p # ps) [] \<longleftrightarrow> False"
| "starts (p # ps) (c # cs) \<longleftrightarrow> p = c \<and> starts ps cs"

fun index_of_text :: "string \<Rightarrow> string \<Rightarrow> nat option" where
  "index_of_text p [] = (if p = [] then Some 0 else None)"
| "index_of_text p (c # cs) = (if starts p (c # cs) then Some 0 else map_option Suc (index_of_text p cs))"

text \<open>\<open>s.replace( p, r )\<close> with a text as pattern and no \<open>$\<close> in \<open>r\<close>: the first occurrence.\<close>

definition replace_first :: "string \<Rightarrow> string \<Rightarrow> string \<Rightarrow> string" where
  "replace_first p r s = (case index_of_text p s of None \<Rightarrow> s | Some i \<Rightarrow> take i s @ r @ drop (i + length p) s)"

lemma starts_iff: "starts p s \<longleftrightarrow> (\<exists>t. s = p @ t)"
  by (induction p s rule: starts.induct) auto

lemma index_of_text_Some: "index_of_text p s = Some i \<Longrightarrow> \<exists>t. s = take i s @ p @ t \<and> i + length p \<le> length s"
proof (induction s arbitrary: i)
  case (Cons c cs)
  show ?case
  proof (cases "starts p (c # cs)")
    case True
    then obtain t where t: "c # cs = p @ t" by (auto simp: starts_iff)
    have "length p \<le> length (c # cs)" unfolding t by simp
    moreover have "i = 0" using True Cons.prems by simp
    ultimately show ?thesis using t by auto
  next
    case False
    then obtain j where "i = Suc j" "index_of_text p cs = Some j" using Cons.prems by auto
    with Cons.IH show ?thesis by auto
  qed
qed (auto split: if_splits)

lemma index_of_text_occurs: "index_of_text p (a @ p @ b) \<noteq> None"
proof (induction a)
  case Nil
  have "starts p (p @ b)" by (auto simp: starts_iff)
  then show ?case by (cases "p @ b") (auto simp: starts_iff simp del: starts.simps)
next
  case (Cons c a)
  then show ?case by auto
qed

lemma index_of_text_iff: "index_of_text p s \<noteq> None \<longleftrightarrow> (\<exists>a b. s = a @ p @ b)"
  using index_of_text_Some index_of_text_occurs by (metis not_None_eq)

lemma replace_first_split:
  assumes "index_of_text p s \<noteq> None"
  shows "\<exists>a b. s = a @ p @ b \<and> replace_first p r s = a @ r @ b"
proof -
  obtain i where i: "index_of_text p s = Some i" using assms by auto
  obtain t where t: "s = take i s @ p @ t" "i + length p \<le> length s" using index_of_text_Some [OF i] by blast
  have "drop (i + length p) s = drop (i + length p) (take i s @ p @ t)" using t(1) by simp
  also have "\<dots> = t" using t(2) by simp
  finally show ?thesis using t(1) i by (auto simp: replace_first_def)
qed

end
