(* ===== verification/JQ_Callbacks.thy ===== *)
theory JQ_Callbacks
  imports JQ_Words
begin

text \<open>
  Callback lists (\<open>jQuery.Callbacks\<close>) and the wiring of \<open>jQuery.Deferred\<close>. A callback may call any
  method of any list while lists are firing, so the model is a machine with an explicit stack: one
  frame for every \<open>fire\<close> loop in progress and one for every callback that is running. What a user
  callback does is a parameter, a function from its number and its argument to the method calls it
  makes and whether it returns \<open>false\<close>. Values are the pairs of a context and arguments.
\<close>

section \<open>Data\<close>

datatype dstate = Pending | Resolved | Rejected

text \<open>
  A callback is a user function or one of the functions \<open>Deferred\<close> registers itself: setting the
  state, and the methods \<open>disable\<close>, \<open>lock\<close> and \<open>fire\<close> of another list.
\<close>

datatype callback = User nat | SetState dstate | DisableOf nat | LockOf nat | FireOf nat

datatype cb_arg = AFun callback | AList "cb_arg list" | AOther

datatype 'v cmd =
    CAdd nat "cb_arg list"
  | CRemove nat "callback list"
  | CEmpty nat
  | CDisable nat
  | CLock nat
  | CFire nat 'v

text \<open>One list: \<open>cb_list\<close> is \<open>None\<close> when the variable holds the empty string (a spent list).\<close>

record 'v cblist =
  o_once :: bool
  o_memory :: bool
  o_unique :: bool
  o_stopOnFalse :: bool
  firing :: bool
  memory :: "'v option"
  fired :: bool
  locked :: bool
  cb_list :: "callback list option"
  cb_queue :: "'v list"
  firingIndex :: int

datatype 'v frame =
    Outer nat                        \<comment> \<open>at the test of the \<open>for\<close> loop of \<open>fire\<close>\<close>
  | Inner nat                        \<comment> \<open>at the test of its \<open>while\<close> loop\<close>
  | Body nat "'v cmd list" bool      \<comment> \<open>a user callback called from that list\<close>
  | Script "'v cmd list"             \<comment> \<open>code outside every callback\<close>

record 'v world =
  lists :: "nat \<Rightarrow> 'v cblist"
  dstate_of :: dstate
  stack :: "'v frame list"
  calls :: "(nat \<times> callback \<times> 'v option) list"

type_synonym 'v behaviour = "nat \<Rightarrow> 'v option \<Rightarrow> 'v cmd list \<times> bool"

definition upd :: "nat \<Rightarrow> ('v cblist \<Rightarrow> 'v cblist) \<Rightarrow> 'v world \<Rightarrow> 'v world" where
  "upd l f w = w\<lparr>lists := (lists w)(l := f (lists w l))\<rparr>"

definition new_list :: "bool \<Rightarrow> bool \<Rightarrow> bool \<Rightarrow> bool \<Rightarrow> 'v cblist" where
  "new_list once mem uniq stop =
     \<lparr>o_once = once, o_memory = mem, o_unique = uniq, o_stopOnFalse = stop, firing = False, memory = None,
      fired = False, locked = False, cb_list = Some [], cb_queue = [], firingIndex = -1\<rparr>"

text \<open>\<open>createOptions\<close>: every word of the string is a flag that is set.\<close>

definition createOptions :: "string \<Rightarrow> string set" where
  "createOptions s = set (match_words s)"

definition Callbacks :: "string \<Rightarrow> 'v cblist" where
  "Callbacks opts =
     (let o' = createOptions opts
      in new_list (''once'' \<in> o') (''memory'' \<in> o') (''unique'' \<in> o') (''stopOnFalse'' \<in> o'))"

section \<open>Methods\<close>

text \<open>\<open>fire\<close> up to its first loop test.\<close>

definition fire_start :: "nat \<Rightarrow> 'v world \<Rightarrow> 'v world" where
  "fire_start l w =
     (upd l (\<lambda>c. c\<lparr>locked := locked c \<or> o_once c, fired := True, firing := True\<rparr>) w)\<lparr>stack := Outer l # stack w\<rparr>"

fun add_args :: "bool \<Rightarrow> cb_arg list \<Rightarrow> callback list \<Rightarrow> callback list" where
  "add_args uniq [] cs = cs"
| "add_args uniq (AFun f # args) cs = add_args uniq args (if \<not> uniq \<or> f \<notin> set cs then cs @ [f] else cs)"
| "add_args uniq (AList as # args) cs = add_args uniq args (add_args uniq as cs)"
| "add_args uniq (AOther # args) cs = add_args uniq args cs"

definition cb_add :: "nat \<Rightarrow> cb_arg list \<Rightarrow> 'v world \<Rightarrow> 'v world" where
  "cb_add l args w =
     (let c = lists w l
      in case cb_list c of
           None \<Rightarrow> w
         | Some cs \<Rightarrow>
             (let again = (if firing c then None else memory c);
                  w1 = (case again of
                          Some v \<Rightarrow> upd l (\<lambda>c. c\<lparr>firingIndex := int (length cs) - 1, cb_queue := cb_queue c @ [v]\<rparr>) w
                        | None \<Rightarrow> w);
                  w2 = upd l (\<lambda>c. c\<lparr>cb_list := Some (add_args (o_unique c) args cs)\<rparr>) w1
              in if again \<noteq> None then fire_start l w2 else w2))"

definition index_from :: "callback \<Rightarrow> nat \<Rightarrow> callback list \<Rightarrow> nat option" where
  "index_from f i cs = (case filter (\<lambda>j. cs ! j = f) [i..<length cs] of [] \<Rightarrow> None | j # _ \<Rightarrow> Some j)"

lemma index_from_less: "index_from f i cs = Some j \<Longrightarrow> i \<le> j \<and> j < length cs \<and> cs ! j = f"
proof -
  assume "index_from f i cs = Some j"
  then obtain js where "filter (\<lambda>j. cs ! j = f) [i..<length cs] = j # js"
    by (auto simp: index_from_def split: list.splits)
  then have "j \<in> set (filter (\<lambda>j. cs ! j = f) [i..<length cs])" by simp
  then show ?thesis by simp
qed

function remove_loop :: "callback \<Rightarrow> nat \<Rightarrow> callback list \<Rightarrow> int \<Rightarrow> callback list \<times> int" where
  "remove_loop f i cs idx =
     (case index_from f i cs of
        None \<Rightarrow> (cs, idx)
      | Some j \<Rightarrow> remove_loop f j (take j cs @ drop (Suc j) cs) (if int j \<le> idx then idx - 1 else idx))"
  by pat_completeness auto
termination
  by (relation "measure (\<lambda>(f, i, cs, idx). length cs)") (auto dest: index_from_less)

declare remove_loop.simps [simp del]

definition cb_remove :: "nat \<Rightarrow> callback list \<Rightarrow> 'v world \<Rightarrow> 'v world" where
  "cb_remove l fs w =
     fold (\<lambda>f. upd l (\<lambda>c. case cb_list c of
                 None \<Rightarrow> c
               | Some cs \<Rightarrow> (case remove_loop f 0 cs (firingIndex c) of (cs', idx) \<Rightarrow> c\<lparr>cb_list := Some cs', firingIndex := idx\<rparr>)))
       fs w"

definition cb_has :: "'v cblist \<Rightarrow> callback option \<Rightarrow> bool" where
  "cb_has c f =
     (let cs = (case cb_list c of Some cs \<Rightarrow> cs | None \<Rightarrow> [])
      in case f of Some f \<Rightarrow> f \<in> set cs | None \<Rightarrow> cs \<noteq> [])"

definition empty_list :: "'v cblist \<Rightarrow> 'v cblist" where
  "empty_list c = (if cb_list c \<noteq> None then c\<lparr>cb_list := Some []\<rparr> else c)"

definition disable_list :: "'v cblist \<Rightarrow> 'v cblist" where
  "disable_list c = c\<lparr>locked := True, cb_queue := [], cb_list := None, memory := None\<rparr>"

definition lock_list :: "'v cblist \<Rightarrow> 'v cblist" where
  "lock_list c =
     (let c1 = c\<lparr>locked := True, cb_queue := []\<rparr>
      in if memory c = None \<and> \<not> firing c then c1\<lparr>cb_list := None, memory := None\<rparr> else c1)"

definition cb_fireWith :: "nat \<Rightarrow> 'v \<Rightarrow> 'v world \<Rightarrow> 'v world" where
  "cb_fireWith l v w =
     (if locked (lists w l) then w
      else
        let w1 = upd l (\<lambda>c. c\<lparr>cb_queue := cb_queue c @ [v]\<rparr>) w
        in if firing (lists w l) then w1 else fire_start l w1)"

definition cb_disabled :: "'v cblist \<Rightarrow> bool" where
  "cb_disabled c \<longleftrightarrow> cb_list c = None"

fun exec_cmd :: "'v cmd \<Rightarrow> 'v world \<Rightarrow> 'v world" where
  "exec_cmd (CAdd l args) w = cb_add l args w"
| "exec_cmd (CRemove l fs) w = cb_remove l fs w"
| "exec_cmd (CEmpty l) w = upd l empty_list w"
| "exec_cmd (CDisable l) w = upd l disable_list w"
| "exec_cmd (CLock l) w = upd l lock_list w"
| "exec_cmd (CFire l v) w = cb_fireWith l v w"

section \<open>The loops of \<open>fire\<close>\<close>

text \<open>The statements of \<open>fire\<close> after its loops.\<close>

definition fire_end :: "'v cblist \<Rightarrow> 'v cblist" where
  "fire_end c =
     (let c1 = c\<lparr>memory := (if o_memory c then memory c else None), firing := False\<rparr>
      in if locked c1 then c1\<lparr>cb_list := (if memory c1 \<noteq> None then Some [] else None)\<rparr> else c1)"

text \<open>
  One callback of list \<open>l\<close>. The functions of \<open>Deferred\<close> do their work at once; a user callback gets a
  frame of its own. \<open>FireOf h\<close> passes on its own arguments.
\<close>

definition call :: "'v behaviour \<Rightarrow> nat \<Rightarrow> callback \<Rightarrow> 'v option \<Rightarrow> 'v world \<Rightarrow> 'v world" where
  "call usr l f v w =
     (case f of
        User n \<Rightarrow> (case usr n v of (cmds, r) \<Rightarrow> w\<lparr>stack := Body l cmds r # stack w\<rparr>)
      | SetState s \<Rightarrow> w\<lparr>dstate_of := s\<rparr>
      | DisableOf h \<Rightarrow> upd h disable_list w
      | LockOf h \<Rightarrow> upd h lock_list w
      | FireOf h \<Rightarrow> (case v of Some x \<Rightarrow> cb_fireWith h x w | None \<Rightarrow> w))"

text \<open>
  One step of the machine. When a callback returns \<open>false\<close> under \<open>stopOnFalse\<close>, the index jumps
  to the end of the list, so that the test of the inner loop fails and the outer loop goes on.
\<close>

fun cb_step :: "'v behaviour \<Rightarrow> 'v world \<Rightarrow> 'v world" where
  "cb_step usr w =
     (case stack w of
        [] \<Rightarrow> w
      | Outer l # st \<Rightarrow>
          (case cb_queue (lists w l) of
             v # q \<Rightarrow> (upd l (\<lambda>c. c\<lparr>memory := Some v, cb_queue := q\<rparr>) w)\<lparr>stack := Inner l # st\<rparr>
           | [] \<Rightarrow> (upd l fire_end w)\<lparr>stack := st\<rparr>)
      | Inner l # st \<Rightarrow>
          (let c = lists w l;
               cs = (case cb_list c of Some cs \<Rightarrow> cs | None \<Rightarrow> []);
               i = firingIndex c + 1
           in if i < int (length cs)
              then call usr l (cs ! nat i) (memory c)
                     ((upd l (\<lambda>c. c\<lparr>firingIndex := i\<rparr>) w)\<lparr>calls := calls w @ [(l, cs ! nat i, memory c)]\<rparr>)
              else (upd l (\<lambda>c. c\<lparr>firingIndex := -1\<rparr>) w)\<lparr>stack := Outer l # st\<rparr>)
      | Body l (cmd # cmds) r # st \<Rightarrow> exec_cmd cmd (w\<lparr>stack := Body l cmds r # st\<rparr>)
      | Body l [] r # st \<Rightarrow>
          (if r \<and> o_stopOnFalse (lists w l)
           then (upd l (\<lambda>c. c\<lparr>firingIndex := -1, memory := None\<rparr>) w)\<lparr>stack := Outer l # tl st\<rparr>
           else w\<lparr>stack := st\<rparr>)
      | Script (cmd # cmds) # st \<Rightarrow> exec_cmd cmd (w\<lparr>stack := Script cmds # st\<rparr>)
      | Script [] # st \<Rightarrow> w\<lparr>stack := st\<rparr>)"

declare cb_step.simps [simp del]

fun cb_run :: "nat \<Rightarrow> 'v behaviour \<Rightarrow> 'v world \<Rightarrow> 'v world" where
  "cb_run 0 usr w = w"
| "cb_run (Suc n) usr w = cb_run n usr (cb_step usr w)"

text \<open>A page: lists with the given options and the code that runs.\<close>

definition page :: "(nat \<Rightarrow> string) \<Rightarrow> 'v cmd list \<Rightarrow> 'v world" where
  "page opts script = \<lparr>lists = \<lambda>k. Callbacks (opts k), dstate_of = Pending, stack = [Script script], calls = []\<rparr>"

section \<open>Deferred\<close>

text \<open>
  The six lists of a deferred: for notify (0), resolve (1) and reject (2) the list \<open>tuple[2]\<close>, and
  at three more the list \<open>tuple[3]\<close> of the handlers of \<open>then\<close>.
\<close>

definition handlers_of :: "nat \<Rightarrow> nat" where
  "handlers_of k = k + 3"

definition deferred_lists :: "nat \<Rightarrow> 'v cblist" where
  "deferred_lists k = (if k mod 3 = 0 then Callbacks ''memory'' else Callbacks ''once memory'')"

definition final_state :: "nat \<Rightarrow> dstate" where
  "final_state k = (if k = 1 then Resolved else Rejected)"

text \<open>What \<open>Deferred\<close> adds to the list of a final state, and to the one of notify.\<close>

definition builtin :: "nat \<Rightarrow> callback list" where
  "builtin k =
     (if k = 0 then [FireOf (handlers_of 0)]
      else [SetState (final_state k), DisableOf (3 - k), DisableOf (handlers_of (3 - k)), LockOf 0, LockOf (handlers_of 0),
            FireOf (handlers_of k)])"

definition Deferred :: "'v cmd list \<Rightarrow> 'v world" where
  "Deferred script =
     fold (\<lambda>k. cb_add k (map AFun (builtin k))) [0, 1, 2]
       \<lparr>lists = deferred_lists, dstate_of = Pending, stack = [Script script], calls = []\<rparr>"

end
