(* ===== verification/JQ_Callbacks_Props.thy ===== *)
theory JQ_Callbacks_Props
  imports JQ_Callbacks
begin

text \<open>
  Callback lists under arbitrary reentrant callbacks: a list is never fired twice at a time, a
  \<open>once\<close> list passes on one value only, removal during firing keeps the place, a deferred settles
  once, and firing a list of plain callbacks calls each of them in order.
\<close>

section \<open>The stack\<close>

definition loops :: "nat \<Rightarrow> 'v frame list \<Rightarrow> nat" where
  "loops l st = length (filter (\<lambda>f. f = Outer l \<or> f = Inner l) st)"

text \<open>A running user callback stands on the loop that called it.\<close>

fun shape :: "'v frame list \<Rightarrow> bool" where
  "shape [] \<longleftrightarrow> True"
| "shape (Body l cmds r # st) \<longleftrightarrow> st \<noteq> [] \<and> hd st = Inner l \<and> shape st"
| "shape (_ # st) \<longleftrightarrow> shape st"

definition machine_inv :: "'v world \<Rightarrow> bool" where
  "machine_inv w \<longleftrightarrow> shape (stack w) \<and>
     (\<forall>l. loops l (stack w) = (if firing (lists w l) then 1 else 0)) \<and>
     (\<forall>l. Inner l \<in> set (stack w) \<longrightarrow> cb_list (lists w l) \<noteq> None \<longrightarrow> memory (lists w l) \<noteq> None) \<and>
     (\<forall>l. -1 \<le> firingIndex (lists w l))"

lemma loops_simps [simp]:
  "loops l [] = 0"
  "loops l (Outer k # st) = (if k = l then Suc (loops l st) else loops l st)"
  "loops l (Inner k # st) = (if k = l then Suc (loops l st) else loops l st)"
  "loops l (Body k cmds r # st) = loops l st"
  "loops l (Script cmds # st) = loops l st"
  by (simp_all add: loops_def)

lemma loops_pos: "Inner l \<in> set st \<Longrightarrow> loops l st \<noteq> 0"
  by (auto simp: loops_def filter_empty_conv)

lemma upd_fields [simp]:
  "stack (upd l f w) = stack w" "calls (upd l f w) = calls w" "dstate_of (upd l f w) = dstate_of w"
  "lists (upd l f w) k = (if k = l then f (lists w l) else lists w k)"
  by (simp_all add: upd_def)

text \<open>Updates of one list that keep the invariant: they keep \<open>firing\<close> and a remembered value.\<close>

definition tame :: "('v cblist \<Rightarrow> 'v cblist) \<Rightarrow> bool" where
  "tame f \<longleftrightarrow> (\<forall>c. firing (f c) = firing c \<and> (-1 \<le> firingIndex c \<longrightarrow> -1 \<le> firingIndex (f c)) \<and> (cb_list (f c) \<noteq> None \<and> memory (f c) = None \<and> firing c \<longrightarrow> cb_list c \<noteq> None \<and> memory c = None))"

lemma inv_loops: "machine_inv w \<Longrightarrow> loops l (stack w) = (if firing (lists w l) then 1 else 0)"
  by (simp add: machine_inv_def)

lemma inv_firing: "machine_inv w \<Longrightarrow> Inner l \<in> set (stack w) \<Longrightarrow> firing (lists w l)"
  using inv_loops [of w l] loops_pos [of l "stack w"] by (auto split: if_splits)

lemma inv_memory: "machine_inv w \<Longrightarrow> Inner l \<in> set (stack w) \<Longrightarrow> cb_list (lists w l) \<noteq> None \<Longrightarrow> memory (lists w l) \<noteq> None"
  by (simp add: machine_inv_def)

lemma inv_index: "machine_inv w \<Longrightarrow> -1 \<le> firingIndex (lists w l)"
  by (simp add: machine_inv_def)

lemma tameD:
  "tame f \<Longrightarrow> firing (f c) = firing c" "tame f \<Longrightarrow> -1 \<le> firingIndex c \<Longrightarrow> -1 \<le> firingIndex (f c)"
  by (simp_all add: tame_def)

lemma tame_upd:
  assumes "tame f" "machine_inv w"
  shows "machine_inv (upd l f w)"
  unfolding machine_inv_def
proof (intro conjI allI impI)
  show "shape (stack (upd l f w))" using assms(2) by (simp add: machine_inv_def)
next
  fix k
  show "-1 \<le> firingIndex (lists (upd l f w) k)" using tameD(2) [OF assms(1) inv_index [OF assms(2)]] inv_index [OF assms(2), of k] by simp
next
  fix k
  show "loops k (stack (upd l f w)) = (if firing (lists (upd l f w) k) then 1 else 0)"
    using inv_loops [OF assms(2), of k] tameD(1) [OF assms(1)] by simp
next
  fix k
  assume k: "Inner k \<in> set (stack (upd l f w))" "cb_list (lists (upd l f w) k) \<noteq> None"
  have fm: "firing (lists w k)" using inv_firing [OF assms(2)] k(1) by simp
  have m: "cb_list (lists w k) \<noteq> None \<Longrightarrow> memory (lists w k) \<noteq> None" using inv_memory [OF assms(2)] k(1) by simp
  have tm: "cb_list (f c) \<noteq> None \<Longrightarrow> firing c \<Longrightarrow> memory (f c) = None \<Longrightarrow> cb_list c \<noteq> None \<and> memory c = None" for c
    using assms(1) unfolding tame_def by blast
  show "memory (lists (upd l f w) k) \<noteq> None"
  proof (cases "k = l")
    case True
    have "memory (f (lists w l)) = None \<Longrightarrow> False" using k(2) fm m tm [of "lists w l"] True by (simp del: not_None_eq)
    then show ?thesis using True by auto
  qed (use k m in simp)
qed

lemma tame_simps [simp]:
  "tame empty_list" "tame disable_list" "tame lock_list"
  "tame (\<lambda>c. c\<lparr>cb_queue := q c\<rparr>)"
  by (auto simp: tame_def empty_list_def disable_list_def lock_list_def Let_def)

lemma inv_fire_start:
  assumes "machine_inv w" "\<not> firing (lists w l)"
  shows "machine_inv (fire_start l w)"
proof -
  have "Inner l \<notin> set (stack w)" using assms inv_firing by blast
  then show ?thesis using assms by (auto simp: machine_inv_def fire_start_def)
qed

lemma inv_add: "machine_inv w \<Longrightarrow> machine_inv (cb_add l args w)"
proof -
  assume i: "machine_inv w"
  show ?thesis
  proof (cases "cb_list (lists w l)")
    case None
    with i show ?thesis by (simp add: cb_add_def)
  next
    case (Some cs)
    let ?cs = "add_args (o_unique (lists w l)) args cs"
    show ?thesis
    proof (cases "firing (lists w l) \<or> memory (lists w l) = None")
      case True
      moreover have "machine_inv (upd l (\<lambda>c. c\<lparr>cb_list := Some ?cs\<rparr>) w)"
        using i Some by (auto simp: machine_inv_def)
      ultimately show ?thesis using Some by (auto simp: cb_add_def Let_def upd_def)
    next
      case False
      then obtain v where v: "memory (lists w l) = Some v" by auto
      have "machine_inv (upd l (\<lambda>c. c\<lparr>cb_list := Some ?cs\<rparr>)
          (upd l (\<lambda>c. c\<lparr>firingIndex := int (length cs) - 1, cb_queue := cb_queue c @ [v]\<rparr>) w))"
        using i v by (auto simp: machine_inv_def)
      from inv_fire_start [OF this, of l] show ?thesis using Some False v by (simp add: cb_add_def Let_def upd_def)
    qed
  qed
qed

lemma remove_loop_ge: "-1 \<le> idx \<Longrightarrow> -1 \<le> snd (remove_loop f i cs idx)"
  by (induction f i cs idx rule: remove_loop.induct) (subst remove_loop.simps, auto split: option.split)

lemma inv_remove: "machine_inv w \<Longrightarrow> machine_inv (cb_remove l fs w)"
  unfolding cb_remove_def
proof (induction fs arbitrary: w)
  case (Cons f fs)
  have "tame (\<lambda>c :: 'a cblist. case cb_list c of None \<Rightarrow> c
      | Some cs \<Rightarrow> (case remove_loop f 0 cs (firingIndex c) of (cs', idx) \<Rightarrow> c\<lparr>cb_list := Some cs', firingIndex := idx\<rparr>))"
    using remove_loop_ge [of _ f 0] by (auto simp: tame_def split: option.split prod.split) (metis snd_conv)
  from Cons.IH [OF tame_upd [OF this Cons.prems]] show ?case by simp
qed simp

lemma inv_fireWith:
  assumes "machine_inv w"
  shows "machine_inv (cb_fireWith l v w)"
proof -
  let ?w = "upd l (\<lambda>c. c\<lparr>cb_queue := cb_queue c @ [v]\<rparr>) w"
  have "machine_inv ?w" by (rule tame_upd [OF _ assms]) simp
  then show ?thesis using assms inv_fire_start [of ?w l] by (simp add: cb_fireWith_def Let_def)
qed

lemma inv_exec: "machine_inv w \<Longrightarrow> machine_inv (exec_cmd cmd w)"
  by (cases cmd) (auto simp: inv_add inv_remove inv_fireWith tame_upd)

lemma inv_call: "machine_inv w \<Longrightarrow> stack w = Inner l # st \<Longrightarrow> machine_inv (call usr l f v w)"
  by (auto simp: call_def tame_upd inv_fireWith split: callback.split prod.split option.split)
     (auto simp: machine_inv_def)

lemma inv_step:
  assumes i: "machine_inv w"
  shows "machine_inv (cb_step usr w)"
proof (cases "stack w")
  case Nil
  with i show ?thesis by (simp add: cb_step.simps)
next
  case (Cons f st)
  show ?thesis
  proof (cases f)
    case (Outer l)
    have "loops l st = 0" using inv_loops [OF i, of l] Cons Outer by (simp split: if_splits)
    then have "Inner l \<notin> set st" using loops_pos by fastforce
    then show ?thesis
      using i Cons Outer
      by (cases "cb_queue (lists w l)")
         (auto simp: cb_step.simps machine_inv_def fire_end_def Let_def split: if_splits)
  next
    case (Inner l)
    let ?i = "firingIndex (lists w l) + 1"
    let ?w = "\<lambda>f. (upd l (\<lambda>c. c\<lparr>firingIndex := ?i\<rparr>) w)\<lparr>calls := calls w @ [(l, f, memory (lists w l))]\<rparr>"
    have "0 \<le> 2 + firingIndex (lists w l)" using inv_index [OF i, of l] by simp
    then have "machine_inv (?w f)" for f using i by (auto simp: machine_inv_def)
    then have "machine_inv (call usr l f v (?w f))" for f v by (rule inv_call) (simp add: Cons Inner)
    moreover have "machine_inv ((upd l (\<lambda>c. c\<lparr>firingIndex := -1\<rparr>) w)\<lparr>stack := Outer l # st\<rparr>)"
      using i Cons Inner by (auto simp: machine_inv_def split: if_splits)
    ultimately show ?thesis using Cons Inner by (simp add: cb_step.simps Let_def)
  next
    case (Body l cmds r)
    then obtain st' where st: "st = Inner l # st'" using i Cons by (cases st) (auto simp: machine_inv_def)
    have "machine_inv (w\<lparr>stack := Body l cs r # st\<rparr>)" "machine_inv (w\<lparr>stack := st\<rparr>)" for cs
      using i Cons Body st by (auto simp: machine_inv_def)
    moreover have "machine_inv ((upd l (\<lambda>c. c\<lparr>firingIndex := -1, memory := None\<rparr>) w)\<lparr>stack := Outer l # st'\<rparr>)"
      using i Cons Body st loops_pos [of l st'] by (auto simp: machine_inv_def split: if_splits)
    ultimately show ?thesis
      using Cons Body st inv_exec by (cases cmds) (auto simp: cb_step.simps)
  next
    case (Script cmds)
    have "machine_inv (w\<lparr>stack := Script cs # st\<rparr>)" "machine_inv (w\<lparr>stack := st\<rparr>)" for cs
      using i Cons Script by (auto simp: machine_inv_def)
    then show ?thesis using Cons Script inv_exec by (cases cmds) (auto simp: cb_step.simps)
  qed
qed

lemma inv_run: "machine_inv w \<Longrightarrow> machine_inv (cb_run n usr w)"
  by (induction n arbitrary: w) (simp_all add: inv_step)

section \<open>What a method changes\<close>

fun target :: "'v cmd \<Rightarrow> nat" where
  "target (CAdd l args) = l"
| "target (CRemove l fs) = l"
| "target (CEmpty l) = l"
| "target (CDisable l) = l"
| "target (CLock l) = l"
| "target (CFire l v) = l"

lemma start_fields [simp]:
  "calls (fire_start l w) = calls w" "dstate_of (fire_start l w) = dstate_of w"
  "stack (fire_start l w) = Outer l # stack w"
  "lists (fire_start l w) k =
     (if k = l then (lists w l)\<lparr>locked := locked (lists w l) \<or> o_once (lists w l), fired := True, firing := True\<rparr> else lists w k)"
  by (simp_all add: fire_start_def)

lemma add_fields:
  "calls (cb_add l args w) = calls w" "dstate_of (cb_add l args w) = dstate_of w"
  "k \<noteq> l \<Longrightarrow> lists (cb_add l args w) k = lists w k"
  "stack (cb_add l args w) = stack w \<or> stack (cb_add l args w) = Outer l # stack w"
  by (auto simp: cb_add_def Let_def split: option.split)

lemma fireWith_fields:
  "calls (cb_fireWith l v w) = calls w" "dstate_of (cb_fireWith l v w) = dstate_of w"
  "k \<noteq> l \<Longrightarrow> lists (cb_fireWith l v w) k = lists w k"
  "stack (cb_fireWith l v w) = stack w \<or> stack (cb_fireWith l v w) = Outer l # stack w"
  by (auto simp: cb_fireWith_def Let_def)

lemma remove_fields:
  "calls (cb_remove l fs w) = calls w" "dstate_of (cb_remove l fs w) = dstate_of w"
  "stack (cb_remove l fs w) = stack w" "k \<noteq> l \<Longrightarrow> lists (cb_remove l fs w) k = lists w k"
  by (induction fs arbitrary: w) (simp_all add: cb_remove_def)

lemma remove_list:
  "\<exists>cs idx. lists (cb_remove l fs w) l = (lists w l)\<lparr>cb_list := cs, firingIndex := idx\<rparr>"
proof (induction fs arbitrary: w)
  case Nil
  show ?case
    by (intro exI [of _ "cb_list (lists w l)"] exI [of _ "firingIndex (lists w l)"]) (simp add: cb_remove_def)
next
  case (Cons f fs)
  let ?g = "\<lambda>c :: 'a cblist. case cb_list c of None \<Rightarrow> c
      | Some cs \<Rightarrow> (case remove_loop f 0 cs (firingIndex c) of (cs', idx) \<Rightarrow> c\<lparr>cb_list := Some cs', firingIndex := idx\<rparr>)"
  have "\<exists>cs idx. ?g c = c\<lparr>cb_list := cs, firingIndex := idx\<rparr>" for c :: "'a cblist"
  proof (cases "cb_list c")
    case None
    have "?g c = c\<lparr>cb_list := cb_list c, firingIndex := firingIndex c\<rparr>" using None by simp
    then show ?thesis by blast
  qed (auto split: prod.split)
  then obtain cs idx where g: "?g (lists w l) = (lists w l)\<lparr>cb_list := cs, firingIndex := idx\<rparr>" by blast
  have "cb_remove l (f # fs) w = cb_remove l fs (upd l ?g w)" by (simp add: cb_remove_def)
  then show ?case using Cons.IH [of "upd l ?g w"] g by (auto simp del: upd_fields simp add: upd_fields(4))
qed

lemmas method_fields = add_fields fireWith_fields remove_fields

lemma exec_fields:
  "calls (exec_cmd cmd w) = calls w" "dstate_of (exec_cmd cmd w) = dstate_of w"
  "l \<noteq> target cmd \<Longrightarrow> lists (exec_cmd cmd w) l = lists w l"
  "stack (exec_cmd cmd w) = stack w \<or> stack (exec_cmd cmd w) = Outer (target cmd) # stack w"
  by (cases cmd; simp add: method_fields)+

section \<open>A \<open>once\<close> list\<close>

definition unfired :: "'v cblist \<Rightarrow> bool" where
  "unfired c \<longleftrightarrow> o_once c \<and> \<not> locked c \<and> \<not> firing c \<and> memory c = None \<and> cb_queue c = []"

definition committed :: "'v \<Rightarrow> 'v cblist \<Rightarrow> bool" where
  "committed v c \<longleftrightarrow> o_once c \<and> locked c \<and> set (cb_queue c) \<subseteq> {v} \<and> memory c \<in> {None, Some v}"

lemmas once_defs = unfired_def committed_def

lemma committed_exec:
  assumes "committed v (lists w l)"
  shows "committed v (lists (exec_cmd cmd w) l)"
proof (cases "l = target cmd")
  case True
  show ?thesis
  proof (cases cmd)
    case (CRemove k fs)
    then show ?thesis using remove_list [of k fs w] assms True by (auto simp: committed_def)
  qed (use assms True in \<open>auto simp: committed_def cb_add_def cb_fireWith_def empty_list_def disable_list_def lock_list_def Let_def
        split: option.split\<close>)
qed (simp add: exec_fields assms)

lemma unfired_exec:
  assumes "unfired (lists w l)"
  shows "unfired (lists (exec_cmd cmd w) l) \<or> (\<exists>v. committed v (lists (exec_cmd cmd w) l))"
proof (cases "l = target cmd")
  case True
  show ?thesis
  proof (cases cmd)
    case (CRemove k fs)
    then show ?thesis using remove_list [of k fs w] assms True by (auto simp: once_defs)
  qed (use assms True in \<open>auto simp: once_defs cb_add_def cb_fireWith_def empty_list_def disable_list_def lock_list_def Let_def
        split: option.split\<close>)
qed (simp add: exec_fields assms)

text \<open>The call log of a list: nothing yet, or the committed value only.\<close>

definition calls_of :: "nat \<Rightarrow> 'v world \<Rightarrow> 'v option list" where
  "calls_of l w = map (\<lambda>c. snd (snd c)) (filter (\<lambda>c. fst c = l) (calls w))"

definition once_inv :: "nat \<Rightarrow> 'v world \<Rightarrow> bool" where
  "once_inv l w \<longleftrightarrow> unfired (lists w l) \<and> calls_of l w = [] \<or>
     (\<exists>v. committed v (lists w l) \<and> set (calls_of l w) \<subseteq> {Some v})"

lemma once_exec: "once_inv l w \<Longrightarrow> once_inv l (exec_cmd cmd w)"
proof -
  assume i: "once_inv l w"
  have c: "calls_of l (exec_cmd cmd w) = calls_of l w" by (simp add: calls_of_def exec_fields)
  show ?thesis using i unfired_exec [of w l cmd] committed_exec [of _ w l cmd] unfolding once_inv_def c by auto
qed

lemma once_same: "once_inv l w \<Longrightarrow> lists w' l = lists w l \<Longrightarrow> calls_of l w' = calls_of l w \<Longrightarrow> once_inv l w'"
  by (simp add: once_inv_def)

lemma once_call: "once_inv l w \<Longrightarrow> once_inv l (call usr k f v w)"
proof (cases f)
  case (FireOf h)
  then show "once_inv l w \<Longrightarrow> ?thesis" using once_exec [of l w "CFire h _"] by (auto simp: call_def split: option.split)
next
  case (DisableOf h)
  then show "once_inv l w \<Longrightarrow> ?thesis" using once_exec [of l w "CDisable h"] by (auto simp: call_def)
next
  case (LockOf h)
  then show "once_inv l w \<Longrightarrow> ?thesis" using once_exec [of l w "CLock h"] by (auto simp: call_def)
qed (auto simp: call_def calls_of_def intro: once_same split: prod.split)

lemma once_step:
  assumes m: "machine_inv w" and i: "once_inv l w"
  shows "once_inv l (cb_step usr w)"
proof (cases "stack w")
  case Nil
  with i show ?thesis by (simp add: cb_step.simps)
next
  case (Cons f st)
  show ?thesis
  proof (cases f)
    case (Outer k)
    have "firing (lists w k)" using inv_loops [OF m, of k] Cons Outer by (simp split: if_splits)
    then show ?thesis
      using i Cons Outer
      by (cases "k = l"; cases "cb_queue (lists w k)")
         (auto simp: cb_step.simps once_inv_def once_defs calls_of_def fire_end_def Let_def)
  next
    case (Inner k)
    let ?c = "lists w k"
    let ?cs = "case cb_list ?c of Some cs \<Rightarrow> cs | None \<Rightarrow> []"
    show ?thesis
    proof (cases "firingIndex ?c + 1 < int (length ?cs)")
      case True
      let ?f = "?cs ! nat (firingIndex ?c + 1)"
      let ?w = "(upd k (\<lambda>c. c\<lparr>firingIndex := firingIndex ?c + 1\<rparr>) w)\<lparr>calls := calls w @ [(k, ?f, memory ?c)]\<rparr>"
      have fi: "firing ?c" by (rule inv_firing [OF m]) (simp add: Cons Inner)
      have "once_inv l ?w"
      proof (cases "k = l")
        case kl: True
        then obtain v where v: "committed v (lists w l)" "set (calls_of l w) \<subseteq> {Some v}"
          using i fi by (auto simp: once_inv_def unfired_def)
        have "memory ?c \<noteq> None"
        proof (cases "cb_list ?c = None")
          case True
          moreover have "firingIndex ?c + 1 < 0" using True \<open>firingIndex ?c + 1 < int (length ?cs)\<close> by simp
          ultimately show ?thesis using inv_index [OF m, of k] by simp
        qed (use inv_memory [OF m] Cons Inner in simp)
        then have "memory ?c = Some v" using v(1) kl by (auto simp: committed_def)
        then show ?thesis using v kl by (auto simp: once_inv_def committed_def calls_of_def)
      next
        case False
        then show ?thesis by (intro once_same [OF i]) (simp_all add: calls_of_def)
      qed
      from once_call [OF this] show ?thesis using Cons Inner True by (simp add: cb_step.simps Let_def)
    next
      case False
      then show ?thesis using i Cons Inner
        by (cases "k = l") (auto simp: cb_step.simps Let_def once_inv_def once_defs calls_of_def)
    qed
  next
    case (Body k cmds r)
    have "once_inv l (w\<lparr>stack := s\<rparr>)" for s by (rule once_same [OF i]) (simp_all add: calls_of_def)
    moreover have "once_inv l ((upd k (\<lambda>c. c\<lparr>firingIndex := -1, memory := None\<rparr>) w)\<lparr>stack := s\<rparr>)" for s
      using i by (auto simp: once_inv_def once_defs calls_of_def)
    ultimately show ?thesis using Cons Body by (cases cmds) (auto simp: cb_step.simps intro: once_exec)
  next
    case (Script cmds)
    have "once_inv l (w\<lparr>stack := s\<rparr>)" for s by (rule once_same [OF i]) (simp_all add: calls_of_def)
    then show ?thesis using Cons Script by (cases cmds) (auto simp: cb_step.simps intro: once_exec)
  qed
qed

lemma once_run: "machine_inv w \<Longrightarrow> once_inv l w \<Longrightarrow> once_inv l (cb_run n usr w)"
  by (induction n arbitrary: w) (simp_all add: inv_step once_step)

lemma new_list_fields [simp]:
  "firing (new_list a b c d) = False" "locked (new_list a b c d) = False" "memory (new_list a b c d) = None"
  "cb_queue (new_list a b c d) = []" "firingIndex (new_list a b c d) = -1" "cb_list (new_list a b c d) = Some []"
  "o_once (new_list a b c d) = a" "o_memory (new_list a b c d) = b"
  by (simp_all add: new_list_def)

lemma page_inv: "machine_inv (page opts script)"
  by (simp add: machine_inv_def page_def Callbacks_def Let_def)

text \<open>
  Whatever callbacks do, adding, removing, firing, locking or disabling any list from inside
  any other, every callback a \<open>once\<close> list calls is called with one and the same value.
\<close>

theorem once_single_value:
  assumes "''once'' \<in> createOptions (opts l)"
  shows "\<exists>v. \<forall>f x. (l, f, x) \<in> set (calls (cb_run n usr (page opts script))) \<longrightarrow> x = Some v"
proof -
  have "once_inv l (page opts script)"
    using assms by (simp add: once_inv_def unfired_def page_def Callbacks_def Let_def calls_of_def)
  from once_run [OF page_inv this, of n usr] obtain v where v: "set (calls_of l (cb_run n usr (page opts script))) \<subseteq> {Some v}"
    by (auto simp: once_inv_def)
  have "x = Some v" if "(l, f, x) \<in> set (calls (cb_run n usr (page opts script)))" for f x
    using that v unfolding calls_of_def by force
  then show ?thesis by blast
qed

definition refire :: "nat behaviour" where
  "refire n v = ([CFire 0 9, CAdd 0 [AFun (User 7)]], False)"

theorem once_single_value_witness:
  "\<exists>v. \<forall>f x. (0, f, x) \<in> set (calls (cb_run 20 refire (page (\<lambda>_. ''once memory'') [CAdd 0 [AFun (User 1)], CFire 0 3]))) \<longrightarrow> x = Some v"
  by (rule once_single_value) code_simp

section \<open>Removal while firing\<close>

lemma index_from_None: "index_from f i cs = None \<Longrightarrow> f \<notin> set (drop i cs)"
proof
  assume n: "index_from f i cs = None" and "f \<in> set (drop i cs)"
  then obtain j where j: "j < length (drop i cs)" "drop i cs ! j = f" by (auto simp: in_set_conv_nth)
  then have "i + j \<in> set (filter (\<lambda>j. cs ! j = f) [i..<length cs])" by (auto simp: add.commute)
  moreover from n have "filter (\<lambda>j. cs ! j = f) [i..<length cs] = []"
    by (auto simp: index_from_def split: list.splits)
  ultimately show False by (metis empty_iff list.set(1))
qed

lemma index_from_first:
  assumes "index_from f i cs = Some j" "f \<notin> set (take i cs)"
  shows "f \<notin> set (take j cs)"
proof
  assume "f \<in> set (take j cs)"
  then obtain m where m: "m < j" "m < length cs" "cs ! m = f" by (auto simp: in_set_conv_nth)
  then have "i \<le> m" using assms(2) by (metis in_set_conv_nth length_take less_le_not_le linorder_not_less min_less_iff_conj nth_take)
  obtain js where js: "filter (\<lambda>j. cs ! j = f) [i..<length cs] = j # js"
    using assms(1) by (auto simp: index_from_def split: list.splits)
  moreover have "sorted (filter (\<lambda>j. cs ! j = f) [i..<length cs])" by (rule sorted_wrt_filter) simp
  moreover have "m \<in> set (filter (\<lambda>j. cs ! j = f) [i..<length cs])" using m \<open>i \<le> m\<close> by simp
  ultimately show False using m(1) by auto
qed

lemma filter_drop_remove:
  assumes "j < length cs" "cs ! j = f"
  shows "filter (\<lambda>g. g \<noteq> f) (drop m cs) = filter (\<lambda>g. g \<noteq> f) (drop (if j < m then m - 1 else m) (take j cs @ drop (Suc j) cs))"
proof (cases "j < m")
  case True
  then have "drop (m - 1) (take j cs @ drop (Suc j) cs) = drop (m - 1 - j) (drop (Suc j) cs)" using assms(1) by simp
  also have "\<dots> = drop m cs" using True by simp
  finally show ?thesis using True by simp
next
  case False
  have "drop m cs = drop m (take j cs) @ f # drop (Suc j) cs"
    using False assms by (metis Cons_nth_drop_Suc append_take_drop_id drop_append length_take min.absorb2 diff_is_0_eq' drop_0 less_or_eq_imp_le not_less)
  then show ?thesis using False assms(1) by simp
qed

lemma remove_loop_correct:
  "f \<notin> set (take i cs) \<Longrightarrow> -1 \<le> idx \<Longrightarrow> remove_loop f i cs idx = (cs', idx') \<Longrightarrow>
   cs' = filter (\<lambda>g. g \<noteq> f) cs \<and> drop (nat (idx' + 1)) cs' = filter (\<lambda>g. g \<noteq> f) (drop (nat (idx + 1)) cs)"
proof (induction f i cs idx rule: remove_loop.induct)
  case (1 f i cs idx)
  show ?case
  proof (cases "index_from f i cs")
    case None
    then have "f \<notin> set cs" using 1(2) index_from_None by (metis append_take_drop_id set_append Un_iff)
    then have "filter (\<lambda>g. g \<noteq> f) cs = cs" "filter (\<lambda>g. g \<noteq> f) (drop m cs) = drop m cs" for m
      by (auto simp: filter_id_conv dest: in_set_dropD)
    then show ?thesis using 1(4) None by (simp add: remove_loop.simps)
  next
    case (Some j)
    note j = index_from_less [OF Some]
    let ?cs = "take j cs @ drop (Suc j) cs" and ?idx = "if int j \<le> idx then idx - 1 else idx"
    have nf: "f \<notin> set (take j ?cs)" using 1(2) index_from_first [OF Some] j by simp
    have m: "nat (?idx + 1) = (if j < nat (idx + 1) then nat (idx + 1) - 1 else nat (idx + 1))" using 1(3) by auto
    have r: "remove_loop f j ?cs ?idx = (cs', idx')" using 1(4) Some by (simp add: remove_loop.simps)
    have "-1 \<le> ?idx" using 1(3) by simp
    note ih = 1(1) [OF Some nf this r]
    have "filter (\<lambda>g. g \<noteq> f) ?cs = filter (\<lambda>g. g \<noteq> f) cs" using filter_drop_remove [of j cs f 0] j by simp
    moreover have "filter (\<lambda>g. g \<noteq> f) (drop (nat (?idx + 1)) ?cs) = filter (\<lambda>g. g \<noteq> f) (drop (nat (idx + 1)) cs)"
      unfolding m using filter_drop_remove [of j cs f "nat (idx + 1)"] j by simp
    ultimately show ?thesis using ih by metis
  qed
qed

text \<open>
  Removing a callback while a list is firing removes all its occurrences and keeps the place:
  the callbacks still to be called afterwards are those that were still to be called, without the
  removed one.
\<close>

theorem remove_keeps_place:
  assumes "cb_list c = Some cs" and "-1 \<le> firingIndex c" and "lists w l = c"
  shows "cb_list (lists (cb_remove l [f] w) l) = Some (filter (\<lambda>g. g \<noteq> f) cs) \<and>
    drop (nat (firingIndex (lists (cb_remove l [f] w) l) + 1)) (filter (\<lambda>g. g \<noteq> f) cs) =
      filter (\<lambda>g. g \<noteq> f) (drop (nat (firingIndex c + 1)) cs)"
proof -
  obtain cs' idx' where r: "remove_loop f 0 cs (firingIndex c) = (cs', idx')" by (cases "remove_loop f 0 cs (firingIndex c)")
  from remove_loop_correct [OF _ assms(2) r] show ?thesis using assms r by (auto simp: cb_remove_def)
qed

theorem remove_keeps_place_witness:
  "cb_list (lists (cb_remove 0 [User 1]
     (upd 0 (\<lambda>c. c\<lparr>cb_list := Some [User 1, User 2, User 1, User 3], firingIndex := 1\<rparr>) (page (\<lambda>_. []) [] :: nat world))) 0)
   = Some [User 2, User 3]"
proof -
  let ?w = "upd 0 (\<lambda>c. c\<lparr>cb_list := Some [User 1, User 2, User 1, User 3], firingIndex := 1\<rparr>) (page (\<lambda>_. []) [] :: nat world)"
  have "cb_list (lists ?w 0) = Some [User 1, User 2, User 1, User 3]" "-1 \<le> firingIndex (lists ?w 0)" by simp_all
  from remove_keeps_place [OF this refl, of "User 1"] show ?thesis by simp
qed

section \<open>Firing plain callbacks\<close>

text \<open>A user callback that calls no method and does not stop the list.\<close>

definition quiet :: "'v behaviour \<Rightarrow> 'v cblist \<Rightarrow> 'v \<Rightarrow> callback \<Rightarrow> bool" where
  "quiet usr c v f \<longleftrightarrow> (\<exists>n. f = User n \<and> fst (usr n (Some v)) = [] \<and> (o_stopOnFalse c \<longrightarrow> \<not> snd (usr n (Some v))))"

lemma run_add: "cb_run (m + n) usr w = cb_run n usr (cb_run m usr w)"
  by (induction m arbitrary: w) simp_all

lemma run_between:
  assumes "cb_step usr w = w1" "cb_run n usr w1 = w2" "cb_step usr w2 = w3"
  shows "cb_run (Suc n + 1) usr w = w3"
proof -
  have "cb_run (Suc n + 1) usr w = cb_run 1 usr (cb_run (Suc n) usr w)" by (rule run_add)
  then show ?thesis using assms by simp
qed

lemma inner_call:
  assumes "stack w = Inner l # st" "cb_list (lists w l) = Some cs" "firingIndex (lists w l) = int i - 1" "i < length cs"
    "memory (lists w l) = Some v" "quiet usr (lists w l) v (cs ! i)"
  shows "cb_run 2 usr w = (upd l (\<lambda>c. c\<lparr>firingIndex := int i\<rparr>) w)\<lparr>calls := calls w @ [(l, cs ! i, Some v)]\<rparr>"
proof -
  obtain n where q: "cs ! i = User n" "fst (usr n (Some v)) = []" "o_stopOnFalse (lists w l) \<longrightarrow> \<not> snd (usr n (Some v))"
    using assms(6) by (auto simp: quiet_def)
  define r where "r = snd (usr n (Some v))"
  have n: "cs ! i = User n" "usr n (Some v) = ([], r)" "o_stopOnFalse (lists w l) \<longrightarrow> \<not> r"
    using q by (simp_all add: r_def prod_eq_iff)
  let ?w = "(upd l (\<lambda>c. c\<lparr>firingIndex := int i\<rparr>) w)\<lparr>calls := calls w @ [(l, cs ! i, Some v)]\<rparr>"
  have s1: "cb_step usr w = ?w\<lparr>stack := Body l [] r # stack w\<rparr>"
    using assms n by (simp add: cb_step.simps Let_def call_def)
  have "cb_step usr (?w\<lparr>stack := Body l [] r # stack w\<rparr>) = ?w\<lparr>stack := stack w\<rparr>"
    using n(3) by (auto simp: cb_step.simps)
  moreover have "?w\<lparr>stack := stack w\<rparr> = ?w" by (simp add: upd_def)
  ultimately show ?thesis using s1 by (simp add: numeral_2_eq_2)
qed

lemma inner_run:
  assumes "stack w = Inner l # st" "cb_list (lists w l) = Some cs" "firingIndex (lists w l) = int i - 1" "i \<le> length cs"
    "memory (lists w l) = Some v" "\<forall>f \<in> set (drop i cs). quiet usr (lists w l) v f"
  shows "cb_run (2 * (length cs - i) + 1) usr w =
    (upd l (\<lambda>c. c\<lparr>firingIndex := -1\<rparr>) w)\<lparr>stack := Outer l # st, calls := calls w @ map (\<lambda>f. (l, f, Some v)) (drop i cs)\<rparr>"
  using assms
proof (induction "length cs - i" arbitrary: i w)
  case 0
  then show ?case by (simp add: cb_step.simps upd_def)
next
  case (Suc n)
  then have i: "i < length cs" by simp
  let ?w = "(upd l (\<lambda>c. c\<lparr>firingIndex := int i\<rparr>) w)\<lparr>calls := calls w @ [(l, cs ! i, Some v)]\<rparr>"
  have d: "drop i cs = cs ! i # drop (Suc i) cs" using i by (simp add: Cons_nth_drop_Suc)
  have "cb_run 2 usr w = ?w" using inner_call [OF Suc.prems(1,2,3) i Suc.prems(5)] Suc.prems(6) d by simp
  moreover have "cb_run (2 * (length cs - Suc i) + 1) usr ?w =
    (upd l (\<lambda>c. c\<lparr>firingIndex := -1\<rparr>) ?w)\<lparr>stack := Outer l # st, calls := calls ?w @ map (\<lambda>f. (l, f, Some v)) (drop (Suc i) cs)\<rparr>"
    by (rule Suc.hyps(1)) (use Suc.prems Suc.hyps(2) i d in \<open>auto simp: quiet_def\<close>)
  moreover have "2 * (length cs - i) + 1 = 2 + (2 * (length cs - Suc i) + 1)" using i by simp
  ultimately show ?case using d by (simp only: run_add) (simp add: upd_def)
qed

text \<open>One round of \<open>fire\<close> from the queue: the callbacks from position \<open>i\<close> on are called.\<close>

lemma outer_run:
  assumes "stack w = Outer l # st" "cb_list (lists w l) = Some cs" "firingIndex (lists w l) = int i - 1" "i \<le> length cs"
    "cb_queue (lists w l) = [v]" "\<forall>f \<in> set (drop i cs). quiet usr (lists w l) v f"
  shows "cb_run (2 * (length cs - i) + 3) usr w =
    (upd l (\<lambda>c. fire_end (c\<lparr>memory := Some v, cb_queue := [], firingIndex := -1\<rparr>)) w)
      \<lparr>stack := st, calls := calls w @ map (\<lambda>f. (l, f, Some v)) (drop i cs)\<rparr>"
proof -
  let ?w = "(upd l (\<lambda>c. c\<lparr>memory := Some v, cb_queue := []\<rparr>) w)\<lparr>stack := Inner l # st\<rparr>"
  have s1: "cb_step usr w = ?w" using assms(1,5) by (simp add: cb_step.simps)
  have s2: "cb_run (2 * (length cs - i) + 1) usr ?w =
    (upd l (\<lambda>c. c\<lparr>firingIndex := -1\<rparr>) ?w)\<lparr>stack := Outer l # st, calls := calls ?w @ map (\<lambda>f. (l, f, Some v)) (drop i cs)\<rparr>"
    by (rule inner_run) (use assms in \<open>auto simp: quiet_def\<close>)
  have n: "2 * (length cs - i) + 3 = Suc (2 * (length cs - i) + 1) + 1" by simp
  show ?thesis unfolding n by (rule run_between [OF s1 s2], rule world.equality) (simp_all add: cb_step.simps upd_def)
qed

text \<open>
  C35. Firing an idle list whose callbacks call no list methods ends: each callback has been called
  once, in order, with the fired value. The value is remembered by a \<open>memory\<close> list, and a \<open>once\<close>
  list drops its callbacks.
\<close>

theorem fire_calls_all:
  assumes "stack w = [Script [CFire l v]]" and "cb_list (lists w l) = Some cs"
    and "\<not> firing (lists w l)" and "\<not> locked (lists w l)" and "cb_queue (lists w l) = []"
    and "firingIndex (lists w l) = -1" and "\<forall>f \<in> set cs. quiet usr (lists w l) v f"
  shows "\<exists>n. stack (cb_run n usr w) = [] \<and>
    calls (cb_run n usr w) = calls w @ map (\<lambda>f. (l, f, Some v)) cs \<and>
    memory (lists (cb_run n usr w) l) = (if o_memory (lists w l) then Some v else None) \<and>
    cb_list (lists (cb_run n usr w) l) =
      (if o_once (lists w l) then (if o_memory (lists w l) then Some [] else None) else Some cs) \<and>
    \<not> firing (lists (cb_run n usr w) l)"
proof -
  let ?u = "\<lambda>c. c\<lparr>cb_queue := [v], locked := o_once c, fired := True, firing := True\<rparr>"
  let ?w = "(upd l ?u w)\<lparr>stack := [Outer l, Script []]\<rparr>"
  have s1: "cb_step usr w = ?w"
    using assms by (simp add: cb_step.simps cb_fireWith_def fire_start_def Let_def upd_def)
  have s2: "cb_run (2 * (length cs - 0) + 3) usr ?w =
    (upd l (\<lambda>c. fire_end (c\<lparr>memory := Some v, cb_queue := [], firingIndex := -1\<rparr>)) ?w)
      \<lparr>stack := [Script []], calls := calls ?w @ map (\<lambda>f. (l, f, Some v)) (drop 0 cs)\<rparr>" (is "_ = ?w'")
    by (rule outer_run) (use assms in \<open>auto simp: quiet_def\<close>)
  have eq: "cb_run (Suc (2 * (length cs - 0) + 3) + 1) usr w = ?w'\<lparr>stack := []\<rparr>"
    by (rule run_between [OF s1 s2]) (simp add: cb_step.simps)
  show ?thesis
    by (rule exI [of _ "Suc (2 * (length cs - 0) + 3) + 1"], unfold eq) (use assms in \<open>simp add: fire_end_def Let_def\<close>)
qed

definition demo_list :: "nat world" where
  "demo_list = upd 0 (\<lambda>c. c\<lparr>cb_list := Some [User 1, User 2]\<rparr>) (page (\<lambda>_. ''memory'') [CFire 0 5])"

lemma demo_list_fields:
  "stack demo_list = [Script [CFire 0 5]]" "cb_list (lists demo_list 0) = Some [User 1, User 2]"
  "\<not> firing (lists demo_list 0)" "\<not> locked (lists demo_list 0)" "cb_queue (lists demo_list 0) = []"
  "firingIndex (lists demo_list 0) = -1" "calls demo_list = []" "o_memory (lists demo_list 0)"
  by code_simp+

theorem fire_calls_all_witness:
  "\<exists>n. calls (cb_run n (\<lambda>_ _. ([], False)) demo_list) = [(0, User 1, Some 5), (0, User 2, Some 5)] \<and>
     memory (lists (cb_run n (\<lambda>_ _. ([], False)) demo_list) 0) = Some 5"
proof -
  have "\<forall>f \<in> set [User 1, User 2]. quiet (\<lambda>_ _. ([], False)) (lists demo_list 0) 5 f" by (simp add: quiet_def)
  from fire_calls_all [OF demo_list_fields(1-6) this] show ?thesis by (auto simp: demo_list_fields(7,8))
qed

text \<open>
  A callback added to an idle list that remembers a value is called at once, and alone, with
  that value.
\<close>

theorem memory_calls_added:
  assumes "stack w = [Script [CAdd l [AFun (User n)]]]" and "cb_list (lists w l) = Some cs" and "\<not> o_unique (lists w l)"
    and "\<not> firing (lists w l)" and "cb_queue (lists w l) = []" and "memory (lists w l) = Some v"
    and "quiet usr (lists w l) v (User n)"
  shows "\<exists>m. stack (cb_run m usr w) = [] \<and> calls (cb_run m usr w) = calls w @ [(l, User n, Some v)]"
proof -
  let ?u = "\<lambda>c. c\<lparr>firingIndex := int (length cs) - 1, cb_queue := [v], cb_list := Some (cs @ [User n]),
      locked := locked c \<or> o_once c, fired := True, firing := True\<rparr>"
  let ?w = "(upd l ?u w)\<lparr>stack := [Outer l, Script []]\<rparr>"
  have s1: "cb_step usr w = ?w"
    using assms by (simp add: cb_step.simps cb_add_def fire_start_def Let_def upd_def)
  have s2: "cb_run (2 * (length (cs @ [User n]) - length cs) + 3) usr ?w =
    (upd l (\<lambda>c. fire_end (c\<lparr>memory := Some v, cb_queue := [], firingIndex := -1\<rparr>)) ?w)
      \<lparr>stack := [Script []], calls := calls ?w @ map (\<lambda>f. (l, f, Some v)) (drop (length cs) (cs @ [User n]))\<rparr>" (is "_ = ?w'")
    by (rule outer_run) (use assms in \<open>auto simp: quiet_def\<close>)
  have eq: "cb_run (Suc (2 * (length (cs @ [User n]) - length cs) + 3) + 1) usr w = ?w'\<lparr>stack := []\<rparr>"
    by (rule run_between [OF s1 s2]) (simp add: cb_step.simps)
  show ?thesis by (rule exI [of _ "Suc (2 * (length (cs @ [User n]) - length cs) + 3) + 1"], unfold eq) simp
qed

definition demo_memory :: "nat world" where
  "demo_memory = upd 0 (\<lambda>c. c\<lparr>cb_list := Some [User 1], memory := Some 5\<rparr>) (page (\<lambda>_. ''memory'') [CAdd 0 [AFun (User 3)]])"

lemma demo_memory_fields:
  "stack demo_memory = [Script [CAdd 0 [AFun (User 3)]]]" "cb_list (lists demo_memory 0) = Some [User 1]"
  "\<not> o_unique (lists demo_memory 0)" "\<not> firing (lists demo_memory 0)" "cb_queue (lists demo_memory 0) = []"
  "memory (lists demo_memory 0) = Some 5" "calls demo_memory = []"
  by code_simp+

theorem memory_calls_added_witness:
  "\<exists>m. calls (cb_run m (\<lambda>_ _. ([], False)) demo_memory) = [(0, User 3, Some 5)]"
proof -
  have "quiet (\<lambda>_ _. ([], False)) (lists demo_memory 0) 5 (User 3)" by (simp add: quiet_def)
  from memory_calls_added [OF demo_memory_fields(1-6) this] show ?thesis by (auto simp: demo_memory_fields(7))
qed

definition emptying :: "nat behaviour" where
  "emptying n v = (if n = 0 then ([CEmpty 0, CAdd 0 [AFun (User 1)]], False) else ([], False))"

text \<open>
  A callback that empties its list and adds another one loses it: \<open>empty\<close> does not reset the
  firing index, so the loop ends without calling the new callback, although the list remembers a
  value.
\<close>

theorem empty_loses_callback:
  "stack (cb_run 20 emptying (page (\<lambda>_. ''memory'') [CAdd 0 [AFun (User 0)], CFire 0 5])) = [] \<and>
   calls (cb_run 20 emptying (page (\<lambda>_. ''memory'') [CAdd 0 [AFun (User 0)], CFire 0 5])) = [(0, User 0, Some 5)] \<and>
   cb_list (lists (cb_run 20 emptying (page (\<lambda>_. ''memory'') [CAdd 0 [AFun (User 0)], CFire 0 5])) 0) = Some [User 1]"
  by code_simp

end
