(* ===== verification/JQ_Deferred_Props.thy ===== *)
theory JQ_Deferred_Props
  imports JQ_Callbacks_Props
begin

text \<open>
  A deferred settles once. What code outside can do with a deferred is to add callbacks to its six
  lists (\<open>done\<close>, \<open>fail\<close>, \<open>progress\<close> and the handlers \<open>then\<close> registers) and to fire the three lists of
  notify, resolve and reject.
\<close>

fun user_arg :: "cb_arg \<Rightarrow> bool" where
  "user_arg (AFun f) \<longleftrightarrow> (\<exists>n. f = User n)"
| "user_arg (AList args) \<longleftrightarrow> list_all user_arg args"
| "user_arg AOther \<longleftrightarrow> True"

fun public_cmd :: "'v cmd \<Rightarrow> bool" where
  "public_cmd (CAdd l args) \<longleftrightarrow> l < 6 \<and> list_all user_arg args"
| "public_cmd (CFire l v) \<longleftrightarrow> l < 3"
| "public_cmd _ \<longleftrightarrow> False"

definition public_behaviour :: "'v behaviour \<Rightarrow> bool" where
  "public_behaviour usr \<longleftrightarrow> (\<forall>n v. list_all public_cmd (fst (usr n v)))"

lemma add_args_users: "list_all user_arg args \<Longrightarrow> \<exists>us. add_args uniq args cs = cs @ us \<and> (\<forall>f \<in> set us. \<exists>n. f = User n)"
proof (induction uniq args cs rule: add_args.induct)
  case (2 uniq f args cs)
  then obtain us where "add_args uniq args (if \<not> uniq \<or> f \<notin> set cs then cs @ [f] else cs) =
      (if \<not> uniq \<or> f \<notin> set cs then cs @ [f] else cs) @ us" "\<forall>f \<in> set us. \<exists>n. f = User n" by auto
  then show ?case using 2(2) by (intro exI [of _ "if \<not> uniq \<or> f \<notin> set cs then f # us else us"]) auto
next
  case (3 uniq as args cs)
  then obtain us where us: "add_args uniq as cs = cs @ us" "\<forall>f \<in> set us. \<exists>n. f = User n" by auto
  moreover obtain us' where "add_args uniq args (cs @ us) = (cs @ us) @ us'" "\<forall>f \<in> set us'. \<exists>n. f = User n"
    using 3 us(1) by auto
  ultimately show ?case by (intro exI [of _ "us @ us'"]) auto
qed auto

section \<open>What the lists contain\<close>

text \<open>The functions of \<open>Deferred\<close> stay in the lists they were put in.\<close>

fun own_cb :: "nat \<Rightarrow> callback \<Rightarrow> bool" where
  "own_cb k (User n) \<longleftrightarrow> True"
| "own_cb k (SetState s) \<longleftrightarrow> k \<in> {1, 2} \<and> s = final_state k"
| "own_cb k (DisableOf h) \<longleftrightarrow> k \<in> {1, 2} \<and> h \<in> {3 - k, 6 - k}"
| "own_cb k (LockOf h) \<longleftrightarrow> k \<in> {1, 2} \<and> h \<in> {0, 3}"
| "own_cb k (FireOf h) \<longleftrightarrow> 3 \<le> h"

fun public_frame :: "'v frame \<Rightarrow> bool" where
  "public_frame (Body l cmds r) \<longleftrightarrow> list_all public_cmd cmds"
| "public_frame (Script cmds) \<longleftrightarrow> list_all public_cmd cmds"
| "public_frame _ \<longleftrightarrow> True"

definition content_inv :: "'v world \<Rightarrow> bool" where
  "content_inv w \<longleftrightarrow> (\<forall>k cs. cb_list (lists w k) = Some cs \<longrightarrow> (\<forall>f \<in> set cs. own_cb k f)) \<and> list_all public_frame (stack w)"

lemma content_upd:
  "content_inv w \<Longrightarrow> (\<And>cs. cb_list (f (lists w l)) = Some cs \<Longrightarrow> \<forall>g \<in> set cs. own_cb l g) \<Longrightarrow> content_inv (upd l f w)"
  by (auto simp: content_inv_def)

lemma content_start: "content_inv w \<Longrightarrow> content_inv (fire_start l w)"
  by (auto simp: content_inv_def)

lemma content_add:
  assumes "content_inv w" "list_all user_arg args"
  shows "content_inv (cb_add l args w)"
proof (cases "cb_list (lists w l)")
  case None
  then show ?thesis using assms by (simp add: cb_add_def)
next
  case (Some cs)
  obtain us where us: "add_args (o_unique (lists w l)) args cs = cs @ us" "\<forall>f \<in> set us. \<exists>n. f = User n"
    using add_args_users [OF assms(2)] by blast
  have "\<forall>f \<in> set (add_args (o_unique (lists w l)) args cs). own_cb l f"
    unfolding us(1) using assms(1) Some us(2) by (auto simp: content_inv_def)
  moreover have "\<forall>f \<in> set cs. own_cb l f" using assms(1) Some by (auto simp: content_inv_def)
  ultimately show ?thesis
    using assms(1) Some
    by (auto simp: cb_add_def Let_def intro!: content_start content_upd split: option.split)
qed

lemma content_fire: "content_inv w \<Longrightarrow> content_inv (cb_fireWith l v w)"
  by (auto simp: cb_fireWith_def Let_def content_inv_def)

lemma content_exec: "content_inv w \<Longrightarrow> public_cmd cmd \<Longrightarrow> content_inv (exec_cmd cmd w)"
  by (cases cmd) (auto simp: content_add content_fire)

lemma content_off: "content_inv w \<Longrightarrow> content_inv (upd h disable_list w)" "content_inv w \<Longrightarrow> content_inv (upd h lock_list w)"
  by (auto simp: content_inv_def disable_list_def lock_list_def Let_def split: if_splits)

lemma content_call: "content_inv w \<Longrightarrow> public_behaviour usr \<Longrightarrow> content_inv (call usr l f v w)"
  by (auto simp: call_def content_fire content_off public_behaviour_def split: callback.split prod.split option.split)
     (auto simp: content_inv_def, metis fst_conv)

lemma content_step:
  assumes c: "content_inv w" and m: "machine_inv w" and u: "public_behaviour usr"
  shows "content_inv (cb_step usr w)"
proof (cases "stack w")
  case Nil
  with c show ?thesis by (simp add: cb_step.simps)
next
  case (Cons f st)
  have st: "content_inv (w\<lparr>stack := s\<rparr>)" if "list_all public_frame s" for s using c that by (simp add: content_inv_def)
  have pf: "public_frame f" "list_all public_frame st" using c Cons by (simp_all add: content_inv_def)
  show ?thesis
  proof (cases f)
    case (Outer l)
    then show ?thesis using c Cons
      by (auto simp: cb_step.simps content_inv_def fire_end_def Let_def split: list.split)
  next
    case (Inner l)
    let ?i = "firingIndex (lists w l) + 1"
    have "content_inv ((upd l (\<lambda>c. c\<lparr>firingIndex := ?i\<rparr>) w)\<lparr>calls := x\<rparr>)" for x
      using c by (auto simp: content_inv_def)
    then have "content_inv (call usr l f v ((upd l (\<lambda>c. c\<lparr>firingIndex := ?i\<rparr>) w)\<lparr>calls := x\<rparr>))" for f v x
      by (rule content_call) (rule u)
    moreover have "content_inv ((upd l (\<lambda>c. c\<lparr>firingIndex := -1\<rparr>) w)\<lparr>stack := Outer l # st\<rparr>)"
      using c Cons Inner by (auto simp: content_inv_def)
    ultimately show ?thesis using Cons Inner by (simp add: cb_step.simps Let_def)
  next
    case (Body l cmds r)
    have "content_inv ((upd l (\<lambda>c. c\<lparr>firingIndex := -1, memory := None\<rparr>) w)\<lparr>stack := Outer l # tl st\<rparr>)"
      using c pf by (cases st) (auto simp: content_inv_def)
    then show ?thesis using Cons Body pf by (cases cmds) (auto simp: cb_step.simps intro!: content_exec st)
  next
    case (Script cmds)
    then show ?thesis using Cons pf by (cases cmds) (auto simp: cb_step.simps intro!: content_exec st)
  qed
qed

section \<open>The phases of a deferred\<close>

text \<open>A list that has not fired, with the functions of \<open>Deferred\<close> at its front, and a spent list.\<close>

definition pristine :: "nat \<Rightarrow> 'v cblist \<Rightarrow> bool" where
  "pristine k c \<longleftrightarrow> \<not> locked c \<and> \<not> firing c \<and> memory c = None \<and> cb_queue c = [] \<and> firingIndex c = -1 \<and>
     (\<exists>us. cb_list c = Some (builtin k @ us))"

definition dead :: "'v cblist \<Rightarrow> bool" where
  "dead c \<longleftrightarrow> locked c \<and> \<not> firing c \<and> memory c = None \<and> cb_queue c = [] \<and> cb_list c = None"

definition silent :: "nat \<Rightarrow> 'v world \<Rightarrow> bool" where
  "silent k w \<longleftrightarrow> (\<forall>c \<in> set (calls w). fst c \<noteq> k)"

text \<open>
  Pending; the list of \<open>x\<close> about to run its first function; that function done; the list of the
  other outcome \<open>3 - x\<close> disabled.
\<close>

definition phase0 :: "'v world \<Rightarrow> bool" where
  "phase0 w \<longleftrightarrow> dstate_of w = Pending \<and> pristine 1 (lists w 1) \<and> pristine 2 (lists w 2) \<and> silent 1 w \<and> silent 2 w"

definition phase1 :: "nat \<Rightarrow> 'v world \<Rightarrow> bool" where
  "phase1 x w \<longleftrightarrow> dstate_of w = Pending \<and> pristine (3 - x) (lists w (3 - x)) \<and> silent (3 - x) w \<and>
     firingIndex (lists w x) = -1 \<and> (\<exists>us. cb_list (lists w x) = Some (builtin x @ us)) \<and>
     (\<exists>st. stack w = Inner x # st \<or> stack w = Outer x # st \<and> cb_queue (lists w x) \<noteq> [])"

definition phase2 :: "nat \<Rightarrow> 'v world \<Rightarrow> bool" where
  "phase2 x w \<longleftrightarrow> dstate_of w = final_state x \<and> pristine (3 - x) (lists w (3 - x)) \<and> silent (3 - x) w \<and>
     firingIndex (lists w x) = 0 \<and> (\<exists>us. cb_list (lists w x) = Some (builtin x @ us)) \<and> (\<exists>st. stack w = Inner x # st)"

definition phase3 :: "nat \<Rightarrow> 'v world \<Rightarrow> bool" where
  "phase3 x w \<longleftrightarrow> dstate_of w = final_state x \<and> dead (lists w (3 - x)) \<and> silent (3 - x) w"

lemma outcomes: "x \<in> {1, 2 :: nat} \<Longrightarrow> 3 - x \<in> {1, 2} \<and> 3 - x \<noteq> x \<and> 3 - (3 - x) = x"
  by auto

lemma pristine_add:
  assumes "pristine k (lists w k)" "list_all user_arg args"
  shows "pristine k (lists (cb_add k args w) k)"
proof -
  obtain us where us: "cb_list (lists w k) = Some (builtin k @ us)" using assms(1) by (auto simp: pristine_def)
  obtain us' where "add_args (o_unique (lists w k)) args (builtin k @ us) = (builtin k @ us) @ us'"
    using add_args_users [OF assms(2)] by blast
  then show ?thesis using assms(1) us by (simp add: pristine_def cb_add_def)
qed

lemma dead_exec: "dead (lists w k) \<Longrightarrow> public_cmd cmd \<Longrightarrow> target cmd = k \<Longrightarrow> exec_cmd cmd w = w"
  by (cases cmd) (auto simp: dead_def cb_add_def cb_fireWith_def)

lemma dead_exec_list: "dead (lists w k) \<Longrightarrow> public_cmd cmd \<Longrightarrow> dead (lists (exec_cmd cmd w) k)"
  using dead_exec [of w k cmd] exec_fields(3) [of k cmd w] by (cases "target cmd = k") auto

lemma dead_disable: "dead c \<Longrightarrow> dead (disable_list c)"
  by (simp add: dead_def disable_list_def)

lemma silent_same: "silent k w \<Longrightarrow> calls w' = calls w \<Longrightarrow> silent k w'"
  by (simp add: silent_def)

lemma phase0_exec:
  assumes "phase0 w" "public_cmd cmd"
  shows "phase0 (exec_cmd cmd w) \<or> (\<exists>x \<in> {1, 2}. phase1 x (exec_cmd cmd w))"
proof (cases "target cmd \<in> {1, 2}")
  case False
  then show ?thesis using assms(1) exec_fields(1,2) [of cmd w] exec_fields(3) [of 1 cmd w] exec_fields(3) [of 2 cmd w]
    by (auto simp: phase0_def silent_def)
next
  case True
  show ?thesis
  proof (cases cmd)
    case (CAdd k args)
    then have "phase0 (exec_cmd cmd w)"
      using assms pristine_add [of 1 w args] pristine_add [of 2 w args] add_fields(1,2) [of k args w] add_fields(3) [of 1 k args w]
        add_fields(3) [of 2 k args w] True by (auto simp: phase0_def silent_def)
    then show ?thesis by blast
  next
    case (CFire k v)
    then have "phase1 k (exec_cmd cmd w)"
      using assms True by (auto simp: phase0_def phase1_def cb_fireWith_def pristine_def Let_def silent_def)
    then show ?thesis using CFire True by auto
  qed (use assms in auto)
qed

lemma builtin_front:
  assumes "x \<in> {1, 2}"
  shows "(builtin x @ us) ! 0 = SetState (final_state x)" "(builtin x @ us) ! 1 = DisableOf (3 - x)" "1 < length (builtin x @ us)"
  using assms by (auto simp: builtin_def)

lemma phase1_step:
  assumes "phase1 x w" "x \<in> {1, 2}"
  shows "phase1 x (cb_step usr w) \<or> phase2 x (cb_step usr w)"
proof -
  have x: "3 - x \<noteq> x" using assms(2) by auto
  from assms(1) obtain us st where us: "cb_list (lists w x) = Some (builtin x @ us)"
    and st: "stack w = Inner x # st \<or> stack w = Outer x # st \<and> cb_queue (lists w x) \<noteq> []" by (auto simp: phase1_def)
  from st show ?thesis
  proof
    assume "stack w = Inner x # st"
    then have "cb_step usr w = (upd x (\<lambda>c. c\<lparr>firingIndex := 0\<rparr>) w)
        \<lparr>calls := calls w @ [(x, SetState (final_state x), memory (lists w x))], dstate_of := final_state x\<rparr>"
      using assms us builtin_front [OF assms(2), of us] by (simp add: cb_step.simps Let_def call_def phase1_def)
    then have "phase2 x (cb_step usr w)" using assms(1) x us \<open>stack w = _\<close> by (auto simp: phase1_def phase2_def silent_def)
    then show ?thesis ..
  next
    assume o: "stack w = Outer x # st \<and> cb_queue (lists w x) \<noteq> []"
    then obtain v q where "cb_queue (lists w x) = v # q" by (cases "cb_queue (lists w x)") auto
    then have "phase1 x (cb_step usr w)" using assms(1) x us o by (auto simp: cb_step.simps phase1_def silent_def)
    then show ?thesis ..
  qed
qed

lemma phase2_step:
  assumes "phase2 x w" "x \<in> {1, 2}"
  shows "phase3 x (cb_step usr w)"
proof -
  have x: "3 - x \<noteq> x" using assms(2) by auto
  from assms(1) obtain us st where us: "cb_list (lists w x) = Some (builtin x @ us)" and st: "stack w = Inner x # st"
    by (auto simp: phase2_def)
  have "cb_step usr w = upd (3 - x) disable_list ((upd x (\<lambda>c. c\<lparr>firingIndex := 1\<rparr>) w)
      \<lparr>calls := calls w @ [(x, DisableOf (3 - x), memory (lists w x))]\<rparr>)"
    using assms us st builtin_front [OF assms(2), of us] by (simp add: cb_step.simps Let_def call_def phase2_def)
  then show ?thesis using assms(1) x by (auto simp: phase2_def phase3_def pristine_def dead_def disable_list_def silent_def)
qed

lemma idle_frames:
  assumes "machine_inv w" "stack w = f # st" "\<not> firing (lists w k)"
  shows "f \<noteq> Outer k" "f \<noteq> Inner k" "f \<noteq> Body k cmds r"
proof -
  have n: "loops k (f # st) = 0" using inv_loops [OF assms(1), of k] assms(2,3) by simp
  then show "f \<noteq> Outer k" "f \<noteq> Inner k" by auto
  show "f \<noteq> Body k cmds r"
  proof
    assume "f = Body k cmds r"
    then have "st \<noteq> [] \<and> hd st = Inner k" using assms(1,2) by (simp add: machine_inv_def)
    then show False using n \<open>f = _\<close> by (cases st) auto
  qed
qed

lemma called_own:
  assumes "content_inv w" "-1 \<le> firingIndex (lists w l)" and
    "firingIndex (lists w l) + 1 < int (length (case cb_list (lists w l) of Some cs \<Rightarrow> cs | None \<Rightarrow> []))"
  shows "own_cb l ((case cb_list (lists w l) of Some cs \<Rightarrow> cs | None \<Rightarrow> []) ! nat (firingIndex (lists w l) + 1))"
proof (cases "cb_list (lists w l)")
  case (Some cs)
  then have "cs ! nat (firingIndex (lists w l) + 1) \<in> set cs" using assms(2,3) by (intro nth_mem) simp
  then show ?thesis using assms(1) Some by (auto simp: content_inv_def)
qed (use assms(2,3) in simp)

lemma phase3_call:
  assumes "phase3 x w" "x \<in> {1, 2}" "l \<noteq> 3 - x" "own_cb l f"
  shows "phase3 x (call usr l f v w)"
proof (cases f)
  case (SetState s)
  then have "l = x" using assms by auto
  then show ?thesis using SetState assms by (simp add: call_def phase3_def silent_def)
next
  case (DisableOf h)
  then show ?thesis using assms(1) by (auto simp: call_def phase3_def silent_def dead_disable)
next
  case (LockOf h)
  then have "h \<noteq> 3 - x" using assms(2,4) by auto
  then show ?thesis using LockOf assms(1) by (auto simp: call_def phase3_def silent_def)
next
  case (FireOf h)
  then have "3 - x \<noteq> h" using assms(2,4) by auto
  then show ?thesis using FireOf assms(1) by (auto simp: call_def phase3_def silent_def fireWith_fields split: option.split)
qed (use assms(1) in \<open>auto simp: call_def phase3_def silent_def split: prod.split\<close>)

lemma phase3_exec: "phase3 x w \<Longrightarrow> public_cmd cmd \<Longrightarrow> phase3 x (exec_cmd cmd w)"
  using dead_exec_list [of w "3 - x" cmd] by (simp add: phase3_def silent_def exec_fields)

lemma phase3_step:
  assumes p: "phase3 x w" and x: "x \<in> {1, 2}" and m: "machine_inv w" and c: "content_inv w"
  shows "phase3 x (cb_step usr w)"
proof (cases "stack w")
  case Nil
  with p show ?thesis by (simp add: cb_step.simps)
next
  case (Cons f st)
  have idle: "\<not> firing (lists w (3 - x))" using p by (simp add: phase3_def dead_def)
  note fr = idle_frames [OF m Cons idle]
  have same: "phase3 x w'" if "dstate_of w' = dstate_of w" "lists w' (3 - x) = lists w (3 - x)" "calls w' = calls w" for w' :: "'a world"
    using p that by (simp add: phase3_def silent_def)
  have pf: "public_frame f" using c Cons by (simp add: content_inv_def)
  show ?thesis
  proof (cases f)
    case (Outer l)
    then show ?thesis using Cons fr by (intro same) (auto simp: cb_step.simps split: list.split)
  next
    case (Inner l)
    let ?c = "lists w l"
    let ?cs = "case cb_list ?c of Some cs \<Rightarrow> cs | None \<Rightarrow> []"
    have l: "l \<noteq> 3 - x" using fr Inner by auto
    show ?thesis
    proof (cases "firingIndex ?c + 1 < int (length ?cs)")
      case True
      have "phase3 x ((upd l (\<lambda>c. c\<lparr>firingIndex := firingIndex ?c + 1\<rparr>) w)\<lparr>calls := calls w @ [(l, a, b)]\<rparr>)" for a b
        using p l by (auto simp: phase3_def silent_def)
      from phase3_call [OF this x l called_own [OF c inv_index [OF m] True]]
      show ?thesis using Cons Inner True by (simp add: cb_step.simps Let_def)
    next
      case False
      then show ?thesis using Cons Inner l by (intro same) (auto simp: cb_step.simps Let_def)
    qed
  next
    case (Body l cmds r)
    then have l: "l \<noteq> 3 - x" using fr by auto
    have "phase3 x (w\<lparr>stack := s\<rparr>)" for s by (rule same) simp_all
    moreover have "phase3 x ((upd l (\<lambda>c. c\<lparr>firingIndex := -1, memory := None\<rparr>) w)\<lparr>stack := s\<rparr>)" for s
      by (rule same) (use l in auto)
    ultimately show ?thesis using Cons Body pf by (cases cmds) (auto simp: cb_step.simps intro: phase3_exec)
  next
    case (Script cmds)
    have "phase3 x (w\<lparr>stack := s\<rparr>)" for s by (rule same) simp_all
    then show ?thesis using Cons Script pf by (cases cmds) (auto simp: cb_step.simps intro: phase3_exec)
  qed
qed

lemma phase0_call:
  assumes "phase0 w" "l \<notin> {1, 2}" "own_cb l f"
  shows "phase0 (call usr l f v w)"
proof (cases f)
  case (FireOf h)
  then have "1 \<noteq> h" "2 \<noteq> h" using assms(3) by auto
  then show ?thesis using FireOf assms(1) by (auto simp: call_def phase0_def silent_def fireWith_fields split: option.split)
qed (use assms in \<open>auto simp: call_def phase0_def silent_def split: prod.split\<close>)

lemma phase0_step:
  assumes p: "phase0 w" and m: "machine_inv w" and c: "content_inv w"
  shows "phase0 (cb_step usr w) \<or> (\<exists>x \<in> {1, 2}. phase1 x (cb_step usr w))"
proof (cases "stack w")
  case Nil
  with p show ?thesis by (simp add: cb_step.simps)
next
  case (Cons f st)
  have idle: "\<not> firing (lists w 1)" "\<not> firing (lists w 2)" using p by (simp_all add: phase0_def pristine_def)
  note fr = idle_frames [OF m Cons idle(1)] idle_frames [OF m Cons idle(2)]
  have same: "phase0 w'" if "dstate_of w' = dstate_of w" "lists w' 1 = lists w 1" "lists w' 2 = lists w 2" "calls w' = calls w"
    for w' :: "'a world" using p that by (simp add: phase0_def silent_def)
  have pf: "public_frame f" using c Cons by (simp add: content_inv_def)
  have ex: "phase0 (exec_cmd cmd (w\<lparr>stack := s\<rparr>)) \<or> (\<exists>x \<in> {1, 2}. phase1 x (exec_cmd cmd (w\<lparr>stack := s\<rparr>)))"
    if "public_cmd cmd" for cmd s
    by (rule phase0_exec [OF _ that]) (rule same, simp_all)
  show ?thesis
  proof (cases f)
    case (Outer l)
    then have "phase0 (cb_step usr w)" using Cons fr by (intro same) (auto simp: cb_step.simps split: list.split)
    then show ?thesis ..
  next
    case (Inner l)
    let ?c = "lists w l"
    let ?cs = "case cb_list ?c of Some cs \<Rightarrow> cs | None \<Rightarrow> []"
    have l: "l \<notin> {1, 2}" using fr Inner by auto
    have "phase0 (cb_step usr w)"
    proof (cases "firingIndex ?c + 1 < int (length ?cs)")
      case True
      have "phase0 ((upd l (\<lambda>c. c\<lparr>firingIndex := firingIndex ?c + 1\<rparr>) w)\<lparr>calls := calls w @ [(l, a, b)]\<rparr>)" for a b
        using p l by (auto simp: phase0_def silent_def)
      from phase0_call [OF this l called_own [OF c inv_index [OF m] True]]
      show ?thesis using Cons Inner True by (simp add: cb_step.simps Let_def)
    next
      case False
      then show ?thesis using Cons Inner l by (intro same) (auto simp: cb_step.simps Let_def)
    qed
    then show ?thesis ..
  next
    case (Body l cmds r)
    then have l: "l \<notin> {1, 2}" using fr by auto
    have "phase0 (w\<lparr>stack := s\<rparr>)" "phase0 ((upd l (\<lambda>c. c\<lparr>firingIndex := -1, memory := None\<rparr>) w)\<lparr>stack := s\<rparr>)" for s
      using l by (auto intro!: same)
    then show ?thesis using Cons Body pf ex by (cases cmds) (simp_all add: cb_step.simps)
  next
    case (Script cmds)
    have "phase0 (w\<lparr>stack := s\<rparr>)" for s by (rule same) simp_all
    then show ?thesis using Cons Script pf ex by (cases cmds) (simp_all add: cb_step.simps)
  qed
qed

definition deferred_inv :: "'v world \<Rightarrow> bool" where
  "deferred_inv w \<longleftrightarrow> machine_inv w \<and> content_inv w \<and>
     (phase0 w \<or> (\<exists>x \<in> {1, 2}. phase1 x w \<or> phase2 x w \<or> phase3 x w))"

lemma deferred_step: "deferred_inv w \<Longrightarrow> public_behaviour usr \<Longrightarrow> deferred_inv (cb_step usr w)"
  unfolding deferred_inv_def
  using inv_step [of w usr] content_step [of w usr] phase0_step [of w usr] phase1_step [of _ w usr] phase2_step [of _ w usr]
    phase3_step [of _ w usr] by blast

lemma deferred_run: "deferred_inv w \<Longrightarrow> public_behaviour usr \<Longrightarrow> deferred_inv (cb_run n usr w)"
  by (induction n arbitrary: w) (simp_all add: deferred_step)

lemma add_functions:
  assumes "cb_list (lists w l) = Some []" "memory (lists w l) = None" "\<not> o_unique (lists w l)"
  shows "cb_add l (map AFun fs) w = upd l (\<lambda>c. c\<lparr>cb_list := Some fs\<rparr>) w"
proof -
  have "add_args False (map AFun fs) cs = cs @ fs" for cs by (induction fs arbitrary: cs) auto
  then show ?thesis using assms by (simp add: cb_add_def upd_def Let_def)
qed

lemma Deferred_lists:
  "lists (Deferred script) k = (if k < 3 then (deferred_lists k)\<lparr>cb_list := Some (builtin k)\<rparr> else deferred_lists k)"
  "stack (Deferred script) = [Script script]" "dstate_of (Deferred script) = Pending" "calls (Deferred script) = []"
proof -
  have u: "\<not> o_unique (deferred_lists k :: 'a cblist)" for k by (simp add: deferred_lists_def) code_simp
  have f: "cb_list (deferred_lists k :: 'a cblist) = Some []" "memory (deferred_lists k :: 'a cblist) = None" for k
    by (simp_all add: deferred_lists_def Callbacks_def Let_def)
  have k: "k < 3 \<longleftrightarrow> k = 0 \<or> k = 1 \<or> k = 2" by auto
  show "lists (Deferred script) k = (if k < 3 then (deferred_lists k)\<lparr>cb_list := Some (builtin k)\<rparr> else deferred_lists k)"
    "stack (Deferred script) = [Script script]" "dstate_of (Deferred script) = Pending" "calls (Deferred script) = []"
    by (simp_all add: Deferred_def add_functions u f k)
qed

lemma deferred_fields:
  "firing (deferred_lists k) = False" "locked (deferred_lists k) = False" "memory (deferred_lists k) = None"
  "cb_queue (deferred_lists k) = []" "firingIndex (deferred_lists k) = -1" "cb_list (deferred_lists k) = Some []"
  by (simp_all add: deferred_lists_def Callbacks_def Let_def)

lemma Deferred_inv:
  assumes "list_all public_cmd script"
  shows "deferred_inv (Deferred script)"
proof -
  have "machine_inv (Deferred script)" by (simp add: machine_inv_def Deferred_lists deferred_fields)
  moreover have "content_inv (Deferred script)"
    using assms by (auto simp: content_inv_def Deferred_lists deferred_fields builtin_def handlers_of_def split: if_splits)
  moreover have "phase0 (Deferred script)"
    by (simp add: phase0_def pristine_def silent_def Deferred_lists deferred_fields)
  ultimately show ?thesis by (simp add: deferred_inv_def)
qed

lemma settled_phase:
  assumes "deferred_inv w" "dstate_of w \<noteq> Pending"
  shows "\<exists>x \<in> {1, 2}. dstate_of w = final_state x \<and> (phase2 x w \<or> phase3 x w)"
  using assms by (auto simp: deferred_inv_def phase0_def phase1_def phase2_def phase3_def)

lemma settled_run:
  assumes "deferred_inv w" "public_behaviour usr" "x \<in> {1, 2}" "phase2 x w \<or> phase3 x w"
  shows "phase2 x (cb_run n usr w) \<or> phase3 x (cb_run n usr w)"
  using assms(1,4)
proof (induction n arbitrary: w)
  case (Suc n)
  then have "phase3 x (cb_step usr w)"
    using phase2_step [OF _ assms(3)] phase3_step [OF _ assms(3)] by (auto simp: deferred_inv_def)
  then show ?case using Suc.IH [of "cb_step usr w"] deferred_step [OF Suc.prems(1) assms(2)] by simp
qed simp

text \<open>
  C5. A deferred settles once. Whatever the callbacks do with it, calling \<open>resolve\<close>, \<open>reject\<close> and
  \<open>notify\<close> again or adding callbacks from inside callbacks, once its state is not pending any more it
  never changes, and callbacks of the other outcome are never called, before or after.
\<close>

theorem deferred_settles_once:
  assumes "list_all public_cmd script" and "public_behaviour usr" and "w = cb_run n usr (Deferred script)"
    and "dstate_of w \<noteq> Pending"
  shows "dstate_of (cb_run m usr w) = dstate_of w \<and>
    (\<forall>f x. (if dstate_of w = Resolved then 2 else 1, f, x) \<notin> set (calls (cb_run m usr w)))"
proof -
  have i: "deferred_inv w" unfolding assms(3) by (rule deferred_run [OF Deferred_inv [OF assms(1)] assms(2)])
  obtain x where x: "x \<in> {1, 2}" "dstate_of w = final_state x" "phase2 x w \<or> phase3 x w"
    using settled_phase [OF i assms(4)] by blast
  have "dstate_of (cb_run m usr w) = final_state x \<and> silent (3 - x) (cb_run m usr w)"
    using settled_run [OF i assms(2) x(1,3), of m] by (auto simp: phase2_def phase3_def)
  then show ?thesis using x(1,2) by (auto simp: silent_def final_state_def)
qed

definition contrary :: "nat behaviour" where
  "contrary n v = ([CFire 2 8, CFire 1 9, CAdd 2 [AFun (User 4)]], False)"

definition contrary_script :: "nat cmd list" where
  "contrary_script = [CAdd 1 [AFun (User 5)], CAdd 2 [AFun (User 6)], CFire 1 7, CFire 2 8]"

theorem deferred_settles_once_witness:
  "dstate_of (cb_run 40 contrary (cb_run 12 contrary (Deferred contrary_script))) = Resolved"
proof -
  have p: "list_all public_cmd contrary_script" "public_behaviour contrary"
    by (simp_all add: contrary_script_def public_behaviour_def contrary_def)
  have s: "dstate_of (cb_run 12 contrary (Deferred contrary_script)) = Resolved" by code_simp
  then have "dstate_of (cb_run 12 contrary (Deferred contrary_script)) \<noteq> Pending" by simp
  from deferred_settles_once [OF p refl this, of 40] show ?thesis using s by simp
qed

end
