(* ===== verification/JQ_Class.thy ===== *)
theory JQ_Class
  imports JQ_Words
begin

text \<open>
  The class attribute: \<open>addClass\<close>, \<open>removeClass\<close>, \<open>toggleClass\<close> and \<open>hasClass\<close>, which work on the
  attribute as a text, and their meaning on the list of class names.
\<close>

section \<open>Elements\<close>

text \<open>A node of the matched set: whether it is an element, its class attribute, and the class name
  \<open>toggleClass\<close> has stored for it.\<close>

record node =
  is_element :: bool
  class_attr :: "string option"
  saved_class :: "string option"

text \<open>The argument: a text, an array, a function of index and current class, or something else.\<close>

datatype class_value = CText string | CArray "string list" | COther

datatype class_arg = CValue class_value | CFunction "nat \<Rightarrow> string \<Rightarrow> class_value"

definition stripAndCollapse :: "string \<Rightarrow> string" where
  "stripAndCollapse s = join '' '' (match_words s)"

definition getClass :: "node \<Rightarrow> string" where
  "getClass e = (case class_attr e of Some s \<Rightarrow> s | None \<Rightarrow> [])"

definition classesToArray :: "class_value \<Rightarrow> string list" where
  "classesToArray v = (case v of CArray cs \<Rightarrow> cs | CText s \<Rightarrow> match_words s | COther \<Rightarrow> [])"

text \<open>The loops \<open>while ( ( clazz = classes[ j++ ] ) )\<close> end at an empty entry.\<close>

definition class_loop :: "string list \<Rightarrow> string list" where
  "class_loop cs = takeWhile (\<lambda>c. c \<noteq> []) cs"

definition padded :: "string \<Rightarrow> string" where
  "padded s = '' '' @ s @ '' ''"

definition has_text :: "string \<Rightarrow> string \<Rightarrow> bool" where
  "has_text c cur \<longleftrightarrow> index_of_text (padded c) cur \<noteq> None"

definition set_class :: "string \<Rightarrow> node \<Rightarrow> node" where
  "set_class cur e =
     (let finalValue = stripAndCollapse cur
      in if getClass e \<noteq> finalValue then e\<lparr>class_attr := Some finalValue\<rparr> else e)"

definition add_class :: "string \<Rightarrow> string \<Rightarrow> string" where
  "add_class c cur = (if \<not> has_text c cur then cur @ c @ '' '' else cur)"

function remove_class :: "string \<Rightarrow> string \<Rightarrow> string" where
  "remove_class c cur = (if has_text c cur then remove_class c (replace_first (padded c) '' '' cur) else cur)"
  by pat_completeness auto
termination
proof (relation "measure (\<lambda>(c, cur). length cur)")
  fix c cur :: string
  assume "has_text c cur"
  then obtain a b where "cur = a @ padded c @ b" "replace_first (padded c) '' '' cur = a @ '' '' @ b"
    using replace_first_split [of "padded c" cur "'' ''"] by (auto simp: has_text_def)
  then show "((c, replace_first (padded c) '' '' cur), (c, cur)) \<in> measure (\<lambda>(c, cur). length cur)"
    by (simp add: padded_def)
qed simp

declare remove_class.simps [simp del]

definition edit_classes :: "(string \<Rightarrow> string \<Rightarrow> string) \<Rightarrow> string list \<Rightarrow> node \<Rightarrow> node" where
  "edit_classes f cs e =
     (if cs \<noteq> [] \<and> is_element e
      then set_class (fold f (class_loop cs) (padded (stripAndCollapse (getClass e)))) e else e)"

definition each_node :: "(nat \<Rightarrow> node \<Rightarrow> node) \<Rightarrow> node list \<Rightarrow> node list" where
  "each_node f es = map (\<lambda>(i, e). f i e) (enumerate 0 es)"

definition addClass :: "class_arg \<Rightarrow> node list \<Rightarrow> node list" where
  "addClass v es =
     (case v of
        CFunction g \<Rightarrow> each_node (\<lambda>j e. edit_classes add_class (classesToArray (g j (getClass e))) e) es
      | CValue x \<Rightarrow> map (edit_classes add_class (classesToArray x)) es)"

text \<open>Without an argument \<open>removeClass\<close> empties the attribute of every element.\<close>

definition removeClass :: "class_arg option \<Rightarrow> node list \<Rightarrow> node list" where
  "removeClass v es =
     (case v of
        None \<Rightarrow> map (\<lambda>e. if is_element e then e\<lparr>class_attr := Some []\<rparr> else e) es
      | Some (CFunction g) \<Rightarrow> each_node (\<lambda>j e. edit_classes remove_class (classesToArray (g j (getClass e))) e) es
      | Some (CValue x) \<Rightarrow> map (edit_classes remove_class (classesToArray x)) es)"

definition hasClass :: "string \<Rightarrow> node list \<Rightarrow> bool" where
  "hasClass c es \<longleftrightarrow> (\<exists>e \<in> set es. is_element e \<and> has_text c (padded (stripAndCollapse (getClass e))))"

definition toggle_name :: "string \<Rightarrow> node \<Rightarrow> node" where
  "toggle_name c e =
     (if hasClass c [e] then edit_classes remove_class (match_words c) e else edit_classes add_class (match_words c) e)"

text \<open>Toggling the whole attribute; \<open>off\<close> says that the argument was \<open>false\<close>.\<close>

definition toggle_whole :: "bool \<Rightarrow> node \<Rightarrow> node" where
  "toggle_whole off e =
     (let className = getClass e;
          e1 = (if className \<noteq> [] then e\<lparr>saved_class := Some className\<rparr> else e)
      in if is_element e
         then e1\<lparr>class_attr := Some (if className \<noteq> [] \<or> off then []
                                      else case saved_class e1 of Some s \<Rightarrow> s | None \<Rightarrow> [])\<rparr>
         else e1)"

text \<open>A function is taken to return a text, an array or a value that is ignored.\<close>

datatype toggle_arg = TValue class_value | TFunction "nat \<Rightarrow> string \<Rightarrow> bool option \<Rightarrow> class_value" | TBool bool | TUndefined

definition toggle_value :: "class_value \<Rightarrow> bool option \<Rightarrow> node \<Rightarrow> node" where
  "toggle_value v state e =
     (case v of
        COther \<Rightarrow> e
      | _ \<Rightarrow> (case state of
                 Some True \<Rightarrow> edit_classes add_class (classesToArray v) e
               | Some False \<Rightarrow> edit_classes remove_class (classesToArray v) e
               | None \<Rightarrow> fold toggle_name (class_loop (classesToArray v)) e))"

definition toggleClass :: "toggle_arg \<Rightarrow> bool option \<Rightarrow> node list \<Rightarrow> node list" where
  "toggleClass v state es =
     (case v of
        TValue x \<Rightarrow> map (toggle_value x state) es
      | TFunction g \<Rightarrow> each_node (\<lambda>i e. toggle_value (g i (getClass e) state) state e) es
      | TBool b \<Rightarrow> map (toggle_whole (\<not> b)) es
      | TUndefined \<Rightarrow> map (toggle_whole False) es)"

section \<open>The attribute as a list of names\<close>

definition class_list :: "node \<Rightarrow> string list" where
  "class_list e = match_words (getClass e)"

definition add_name :: "string \<Rightarrow> string list \<Rightarrow> string list" where
  "add_name c ws = (if c \<in> set ws then ws else ws @ [c])"

definition remove_name :: "string \<Rightarrow> string list \<Rightarrow> string list" where
  "remove_name c ws = filter (\<lambda>w. w \<noteq> c) ws"

text \<open>The texts the loops work on: they begin and end with a space and have no other white space.\<close>

definition spaced :: "string \<Rightarrow> bool" where
  "spaced s \<longleftrightarrow> s \<noteq> [] \<and> hd s = CHR '' '' \<and> last s = CHR '' '' \<and> (\<forall>c \<in> set s. html_white c \<longrightarrow> c = CHR '' '')"

lemma spaced_mid: "spaced (a @ '' '' @ b) \<Longrightarrow> match_words (a @ '' '' @ b) = match_words a @ match_words b"
  by (simp add: match_words_split)

lemma word_bounds: "word c \<Longrightarrow> c \<noteq> [] \<and> \<not> html_white (hd c) \<and> \<not> html_white (last c)"
  by (auto simp: word_def)

lemma has_text_spaced:
  assumes s: "spaced s" and c: "word c"
  shows "has_text c s \<longleftrightarrow> c \<in> set (match_words s)"
proof
  assume "has_text c s"
  then obtain a b where "s = a @ padded c @ b" unfolding has_text_def index_of_text_iff by blast
  then have "match_words s = match_words a @ [c] @ match_words b"
    by (simp add: padded_def match_words_split match_words_word [OF c])
  then show "c \<in> set (match_words s)" by simp
next
  assume "c \<in> set (match_words s)"
  then obtain a b where ab: "s = a @ c @ b" "a = [] \<or> html_white (last a)" "b = [] \<or> html_white (hd b)"
    using match_words_occurs by blast
  note w = word_bounds [OF c]
  have a: "a \<noteq> []" using s w ab(1) by (auto simp: spaced_def)
  have b: "b \<noteq> []" using s w ab(1) by (auto simp: spaced_def)
  have "last a = CHR '' ''" "hd b = CHR '' ''" using s ab a b by (auto simp: spaced_def)
  then have "s = butlast a @ padded c @ tl b" using ab(1) a b
    by (metis append.assoc append_Cons append_Nil append_butlast_last_id list.collapse padded_def)
  then show "has_text c s" unfolding has_text_def index_of_text_iff by blast
qed

lemma spaced_add:
  assumes "spaced s" "word c"
  shows "spaced (s @ c @ '' '')" "match_words (s @ c @ '' '') = match_words s @ [c]"
proof -
  show "spaced (s @ c @ '' '')" using assms by (auto simp: spaced_def word_def)
  obtain s' where s': "s = s' @ '' ''" using assms(1) by (metis append_butlast_last_id spaced_def)
  have "match_words (s @ c @ '' '') = match_words s' @ match_words (c @ '' '')" by (simp add: s' match_words_split)
  moreover have "match_words s = match_words s'" using match_words_split [of "CHR '' ''" s' "[]"] by (simp add: s')
  moreover have "match_words (c @ '' '') = [c]" using match_words_split [of "CHR '' ''" c "[]"] by (simp add: match_words_word [OF assms(2)])
  ultimately show "match_words (s @ c @ '' '') = match_words s @ [c]" by simp
qed

lemma add_class_words:
  assumes "spaced s" "word c"
  shows "spaced (add_class c s) \<and> match_words (add_class c s) = add_name c (match_words s)"
  using assms spaced_add [OF assms] has_text_spaced [OF assms] by (simp add: add_class_def add_name_def)

lemma remove_class_words:
  "spaced s \<Longrightarrow> word c \<Longrightarrow> spaced (remove_class c s) \<and> match_words (remove_class c s) = remove_name c (match_words s)"
proof (induction c s rule: remove_class.induct)
  case (1 c s)
  show ?case
  proof (cases "has_text c s")
    case True
    then obtain a b where ab: "s = a @ padded c @ b" "replace_first (padded c) '' '' s = a @ '' '' @ b"
      using replace_first_split [of "padded c" s "'' ''"] by (auto simp: has_text_def)
    have sp: "spaced (a @ '' '' @ b)" using 1(2) ab(1) by (auto simp: spaced_def padded_def hd_append split: if_splits)
    have "match_words s = match_words a @ [c] @ match_words b"
      by (simp add: ab(1) padded_def match_words_split match_words_word [OF 1(3)])
    then have "remove_name c (match_words (a @ '' '' @ b)) = remove_name c (match_words s)"
      using spaced_mid [OF sp] by (simp add: remove_name_def)
    then show ?thesis using 1(1) [OF True] 1(3) sp ab(2) True by (simp add: remove_class.simps [of c s])
  next
    case False
    then have "c \<notin> set (match_words s)" using has_text_spaced [OF 1(2,3)] by simp
    then have "remove_name c (match_words s) = match_words s" by (auto simp: remove_name_def filter_id_conv)
    then show ?thesis using False 1(2) by (simp add: remove_class.simps [of c s])
  qed
qed

lemma spaced_padded: "spaced (padded (stripAndCollapse s))"
proof -
  have "\<forall>c \<in> set (join '' '' ws). html_white c \<longrightarrow> c = CHR '' ''" if "\<forall>w \<in> set ws. word w" for ws
    using that by (induction ws rule: induct_list012) (auto simp: word_def)
  then have "\<forall>c \<in> set (stripAndCollapse s). html_white c \<longrightarrow> c = CHR '' ''"
    using match_words_words unfolding stripAndCollapse_def by blast
  then show ?thesis by (auto simp: spaced_def padded_def)
qed

lemma words_padded: "match_words (padded (stripAndCollapse s)) = match_words s"
proof -
  have "match_words (stripAndCollapse s) = match_words s"
    unfolding stripAndCollapse_def using match_words_words by (intro match_words_join) blast
  then show ?thesis using match_words_split [of "CHR '' ''" "stripAndCollapse s" "[]"] by (simp add: padded_def)
qed

lemma class_loop_words: "\<forall>c \<in> set cs. word c \<Longrightarrow> class_loop cs = cs"
  unfolding class_loop_def by (induction cs) (auto simp: word_def)

lemma set_class_list: "class_list (set_class cur e) = match_words cur"
proof -
  have "match_words (stripAndCollapse cur) = match_words cur"
    unfolding stripAndCollapse_def using match_words_words by (intro match_words_join) blast
  then show ?thesis by (simp add: class_list_def set_class_def getClass_def Let_def)
qed

text \<open>An edit of the text that is an edit of the list of names; both loops have this form.\<close>

locale class_edit =
  fixes f :: "string \<Rightarrow> string \<Rightarrow> string" and g :: "string \<Rightarrow> string list \<Rightarrow> string list"
  assumes edit_spaced: "spaced s \<Longrightarrow> word c \<Longrightarrow> spaced (f c s)"
    and edit_words: "spaced s \<Longrightarrow> word c \<Longrightarrow> match_words (f c s) = g c (match_words s)"
begin

lemma fold_words:
  "spaced s \<Longrightarrow> \<forall>c \<in> set cs. word c \<Longrightarrow> spaced (fold f cs s) \<and> match_words (fold f cs s) = fold g cs (match_words s)"
  by (induction cs arbitrary: s) (auto simp: edit_spaced edit_words)

lemma edit_list:
  assumes "is_element e"
  shows "class_list (edit_classes f (match_words v) e) = fold g (match_words v) (class_list e)"
proof -
  have w: "\<forall>c \<in> set (match_words v). word c" using match_words_words by blast
  show ?thesis
    using fold_words [OF spaced_padded w, of "getClass e"] assms
    by (auto simp: edit_classes_def set_class_list [unfolded class_list_def] class_loop_words [OF w] words_padded class_list_def)
qed

end

interpretation adding: class_edit add_class add_name
  by unfold_locales (simp_all add: add_class_words)

interpretation removing: class_edit remove_class remove_name
  by unfold_locales (simp_all add: remove_class_words)

lemma edit_other: "\<not> is_element e \<Longrightarrow> edit_classes f cs e = e"
  by (simp add: edit_classes_def)

lemma edit_element [simp]: "is_element (edit_classes f cs e) = is_element e"
  by (simp add: edit_classes_def set_class_def Let_def)

lemma remove_names: "fold remove_name cs ws = filter (\<lambda>w. w \<notin> set cs) ws"
  by (induction cs arbitrary: ws) (auto simp: remove_name_def intro: filter_cong)

lemma hasClass_one: "word c \<Longrightarrow> hasClass c [e] \<longleftrightarrow> is_element e \<and> c \<in> set (class_list e)"
  using has_text_spaced [OF spaced_padded, of c] by (simp add: hasClass_def words_padded class_list_def)

text \<open>
  The text operations on the class attribute are list operations on the class names: \<open>addClass\<close>
  appends the names the element does not have yet, in order and once each, and \<open>removeClass\<close> drops
  every occurrence of the names given and no other name.
\<close>

theorem classes_as_lists:
  "map class_list (addClass (CValue (CText v)) es) =
     map (\<lambda>e. if is_element e then fold add_name (match_words v) (class_list e) else class_list e) es \<and>
   map class_list (removeClass (Some (CValue (CText v))) es) =
     map (\<lambda>e. if is_element e then filter (\<lambda>c. c \<notin> set (match_words v)) (class_list e) else class_list e) es"
  by (auto simp: addClass_def removeClass_def classesToArray_def adding.edit_list
        removing.edit_list edit_other remove_names)

lemma toggle_name_set:
  assumes "word c" "is_element e"
  shows "set (class_list (toggle_name c e)) = (if c \<in> set (class_list e) then set (class_list e) - {c} else insert c (set (class_list e)))"
  using assms adding.edit_list [OF assms(2), of c] removing.edit_list [OF assms(2), of c]
  by (auto simp: toggle_name_def hasClass_one match_words_word add_name_def remove_name_def)

lemma toggle_element [simp]: "is_element (toggle_name c e) = is_element e"
  by (simp add: toggle_name_def)

text \<open>
  Toggling a text of distinct class names exchanges exactly these: the element then has the
  names it had and that were not given, and those given it did not have. \<open>hasClass\<close> tells which.
\<close>

theorem toggle_exchanges:
  assumes "is_element e" and "distinct (match_words v)" and "word c"
  shows "set (class_list (toggle_value (CText v) None e)) =
      (set (class_list e) - set (match_words v)) \<union> (set (match_words v) - set (class_list e)) \<and>
    (hasClass c [toggle_value (CText v) None e] \<longleftrightarrow> (hasClass c [e] \<noteq> (c \<in> set (match_words v))))"
proof -
  have w: "\<forall>c \<in> set (match_words v). word c" using match_words_words by blast
  have "is_element (fold toggle_name cs e') = is_element e'" for cs e' by (induction cs arbitrary: e') simp_all
  moreover have "set (class_list (fold toggle_name cs e')) = (set (class_list e') - set cs) \<union> (set cs - set (class_list e'))"
    if "\<forall>c \<in> set cs. word c" "distinct cs" "is_element e'" for cs e'
    using that by (induction cs arbitrary: e') (auto simp: toggle_name_set)
  ultimately show ?thesis
    using assms w by (simp add: toggle_value_def classesToArray_def class_loop_words hasClass_one) blast
qed

theorem toggle_exchanges_witness:
  "hasClass ''b'' [toggle_value (CText '' a  b'') None \<lparr>is_element = True, class_attr = Some ''a c'', saved_class = None\<rparr>]"
proof -
  have "distinct (match_words '' a  b'')" "word ''b''" "''b'' \<in> set (match_words '' a  b'')" by code_simp+
  moreover have "\<not> hasClass ''b'' [\<lparr>is_element = True, class_attr = Some ''a c'', saved_class = None\<rparr>]" by code_simp
  ultimately show ?thesis
    using toggle_exchanges [of "\<lparr>is_element = True, class_attr = Some ''a c'', saved_class = None\<rparr>" "'' a  b''" "''b''"] by simp
qed

end
