(* ===== verification/JQ_Param.thy ===== *)
theory JQ_Param
  imports JQ_Core
begin

text \<open>
  \<open>jQuery.param\<close>: the query string of an object or of a list of form fields, and a reader of query
  strings that inverts it.
\<close>

section \<open>Encoding\<close>

definition hex_digit :: "nat \<Rightarrow> char" where
  "hex_digit n = ''0123456789ABCDEF'' ! (n mod 16)"

definition percent :: "nat \<Rightarrow> string" where
  "percent n = [CHR ''%'', hex_digit (n div 16), hex_digit n]"

definition unreserved :: "char \<Rightarrow> bool" where
  "unreserved c \<longleftrightarrow> is_word c \<or> c \<in> set ''-.!~*()'' \<or> c = CHR 0x27"

text \<open>\<open>encodeURIComponent\<close>: characters above 127 are two bytes in UTF-8.\<close>

definition encode_char :: "char \<Rightarrow> string" where
  "encode_char c =
     (let n = of_char c :: nat
      in if unreserved c then [c]
         else if n < 128 then percent n
         else percent (192 + n div 64) @ percent (128 + n mod 64))"

definition encodeURIComponent :: "string \<Rightarrow> string" where
  "encodeURIComponent s = concat (map encode_char s)"

section \<open>Parameters\<close>

text \<open>\<open>rbracket\<close>: the name ends with an empty index.\<close>

definition rbracket :: "string \<Rightarrow> bool" where
  "rbracket s \<longleftrightarrow> 2 \<le> length s \<and> drop (length s - 2) s = ''[]''"

text \<open>The calls of \<open>add\<close> that \<open>buildParams\<close> makes, in order.\<close>

fun buildParams :: "string \<Rightarrow> jsval \<Rightarrow> bool \<Rightarrow> (string \<times> jsval) list"
  and build_items :: "string \<Rightarrow> nat \<Rightarrow> jsval list \<Rightarrow> bool \<Rightarrow> (string \<times> jsval) list"
  and build_fields :: "string \<Rightarrow> (string \<times> jsval) list \<Rightarrow> bool \<Rightarrow> (string \<times> jsval) list" where
  "buildParams pre (Arr vs) traditional = build_items pre 0 vs traditional"
| "buildParams pre (Obj kvs) traditional =
     (if traditional then [(pre, Obj kvs)] else build_fields pre kvs traditional)"
| "buildParams pre v traditional = [(pre, v)]"
| "build_items pre i [] traditional = []"
| "build_items pre i (v # vs) traditional =
     (if traditional \<or> rbracket pre then [(pre, v)]
      else buildParams (pre @ ''['' @ (if is_object v \<and> v \<noteq> Null then nat_str i else []) @ '']'') v traditional)
     @ build_items pre (Suc i) vs traditional"
| "build_fields pre [] traditional = []"
| "build_fields pre ((name, v) # kvs) traditional =
     buildParams (pre @ ''['' @ name @ '']'') v traditional @ build_fields pre kvs traditional"

definition add_value :: "host \<Rightarrow> jsval \<Rightarrow> string" where
  "add_value h v =
     (let x = (case v of Fn f \<Rightarrow> fn_call h f Undefined | _ \<Rightarrow> v) in if nullish x then [] else tostr h x)"

definition param_add :: "host \<Rightarrow> string \<times> jsval \<Rightarrow> string" where
  "param_add h kv = encodeURIComponent (fst kv) @ ''='' @ encodeURIComponent (add_value h (snd kv))"

text \<open>The fields of an array: \<open>this.name\<close> and \<open>this.value\<close>; on \<open>null\<close> they throw.\<close>

fun form_fields :: "host \<Rightarrow> jsval list \<Rightarrow> (string \<times> jsval) list option" where
  "form_fields h [] = Some []"
| "form_fields h (v # vs) =
     (case (getprop h v ''name'', getprop h v ''value'', form_fields h vs) of
        (Some n, Some x, Some rest) \<Rightarrow> Some ((tostr h n, x) # rest)
      | _ \<Rightarrow> None)"

definition param_pairs :: "host \<Rightarrow> jsval \<Rightarrow> bool \<Rightarrow> (string \<times> jsval) list option" where
  "param_pairs h a traditional =
     (case a of
        Arr vs \<Rightarrow> form_fields h vs
      | _ \<Rightarrow> Some (concat (map (\<lambda>k. buildParams k (the (getprop h a k)) traditional) (keys_of a))))"

definition param :: "host \<Rightarrow> jsval \<Rightarrow> bool \<Rightarrow> string option" where
  "param h a traditional =
     (if nullish a then Some []
      else map_option (\<lambda>kvs. join ''&'' (map (param_add h) kvs)) (param_pairs h a traditional))"

section \<open>Reading a query string\<close>

definition hex_value :: "char \<Rightarrow> nat" where
  "hex_value c = (case index_of c ''0123456789ABCDEF'' of Some n \<Rightarrow> n | None \<Rightarrow> 0)"

text \<open>The bytes a text encodes, and the characters of bytes in UTF-8 up to two bytes.\<close>

fun query_bytes :: "string \<Rightarrow> nat list" where
  "query_bytes (c # a # b # s) =
     (if c = CHR ''%'' then (16 * hex_value a + hex_value b) # query_bytes s else of_char c # query_bytes (a # b # s))"
| "query_bytes (c # s) = of_char c # query_bytes s"
| "query_bytes [] = []"

fun utf8_chars :: "nat list \<Rightarrow> string" where
  "utf8_chars [] = []"
| "utf8_chars (m # n # ns) =
     (if m < 128 then char_of m # utf8_chars (n # ns) else char_of ((m - 192) * 64 + (n - 128)) # utf8_chars ns)"
| "utf8_chars [n] = [char_of n]"

definition decodeURIComponent :: "string \<Rightarrow> string" where
  "decodeURIComponent s = utf8_chars (query_bytes s)"

definition read_pair :: "string \<Rightarrow> string \<times> string" where
  "read_pair s = (decodeURIComponent (takeWhile (\<lambda>c. c \<noteq> CHR ''='') s),
                  decodeURIComponent (drop 1 (dropWhile (\<lambda>c. c \<noteq> CHR ''='') s)))"

definition read_query :: "string \<Rightarrow> (string \<times> string) list" where
  "read_query s = (if s = [] then [] else map read_pair (split_on (CHR ''&'') s))"

lemma hex_value_digit [simp]: "hex_value (hex_digit n) = n mod 16"
proof -
  have "\<forall>k < 16. hex_value (hex_digit k) = k" by code_simp
  moreover have "hex_digit n = hex_digit (n mod 16)" by (simp add: hex_digit_def)
  ultimately show ?thesis by (metis mod_less_divisor zero_less_numeral)
qed

lemma percent_bytes: "n < 256 \<Longrightarrow> query_bytes (percent n @ s) = n # query_bytes s"
  by (simp add: percent_def)

text \<open>The bytes a character encodes to.\<close>

definition char_bytes :: "char \<Rightarrow> nat list" where
  "char_bytes c = (let n = of_char c in if n < 128 then [n] else [192 + n div 64, 128 + n mod 64])"

lemma unreserved_char: "unreserved c \<Longrightarrow> c \<noteq> CHR ''%'' \<and> c \<noteq> CHR ''&'' \<and> c \<noteq> CHR ''='' \<and> of_char c < (128 :: nat)"
  by (auto simp: unreserved_def is_word_def Let_def)

lemma hex_digit_plain [simp]: "hex_digit n \<noteq> CHR ''&''" "hex_digit n \<noteq> CHR ''=''" "CHR ''&'' \<noteq> hex_digit n" "CHR ''='' \<noteq> hex_digit n"
proof -
  have "hex_digit n \<in> set ''0123456789ABCDEF''" unfolding hex_digit_def by (rule nth_mem) simp
  then show "hex_digit n \<noteq> CHR ''&''" "hex_digit n \<noteq> CHR ''=''" "CHR ''&'' \<noteq> hex_digit n" "CHR ''='' \<noteq> hex_digit n" by auto
qed

lemma query_bytes_plain: "c \<noteq> CHR ''%'' \<Longrightarrow> query_bytes (c # s) = of_char c # query_bytes s"
  by (cases s; cases "tl s") auto

lemma encode_char_bytes: "query_bytes (encode_char c @ s) = char_bytes c @ query_bytes s"
proof -
  have "of_char c < (256 :: nat)" by simp
  then have "192 + of_char c div 64 < (256 :: nat)" "128 + of_char c mod 64 < (256 :: nat)"
    using less_mult_imp_div_less [of "of_char c" 4 64] mod_less_divisor [of 64 "of_char c :: nat"] by linarith+
  then show ?thesis
    using unreserved_char [of c]
    by (auto simp: encode_char_def char_bytes_def Let_def query_bytes_plain percent_bytes)
qed

lemma encode_bytes: "query_bytes (encodeURIComponent s) = concat (map char_bytes s)"
  by (induction s) (simp_all add: encodeURIComponent_def encode_char_bytes)

lemma utf8_char_bytes: "utf8_chars (char_bytes c @ ns) = c # utf8_chars ns"
proof (cases "of_char c < (128 :: nat)")
  case True
  then show ?thesis by (cases ns) (simp_all add: char_bytes_def)
next
  case False
  have "(of_char c div 64) * 64 + of_char c mod 64 = (of_char c :: nat)" by simp
  then show ?thesis using False by (simp add: char_bytes_def Let_def)
qed

lemma decode_encode: "decodeURIComponent (encodeURIComponent s) = s"
  unfolding decodeURIComponent_def encode_bytes by (induction s) (simp_all add: utf8_char_bytes)

lemma encoded_plain: "CHR ''&'' \<notin> set (encodeURIComponent s)" "CHR ''='' \<notin> set (encodeURIComponent s)"
proof -
  have "CHR ''&'' \<notin> set (encode_char c) \<and> CHR ''='' \<notin> set (encode_char c)" for c
    using unreserved_char [of c] by (auto simp: encode_char_def percent_def Let_def)
  then show "CHR ''&'' \<notin> set (encodeURIComponent s)" "CHR ''='' \<notin> set (encodeURIComponent s)"
    by (auto simp: encodeURIComponent_def)
qed

lemma read_pair_add: "read_pair (param_add h kv) = (fst kv, add_value h (snd kv))"
proof -
  have "takeWhile (\<lambda>c. c \<noteq> CHR ''='') (encodeURIComponent (fst kv) @ CHR ''='' # t) = encodeURIComponent (fst kv)"
    "dropWhile (\<lambda>c. c \<noteq> CHR ''='') (encodeURIComponent (fst kv) @ CHR ''='' # t) = CHR ''='' # t" for t
    using encoded_plain(2) [of "fst kv"] by (auto simp: takeWhile_append dropWhile_append)
  then show ?thesis by (simp add: read_pair_def param_add_def decode_encode)
qed

lemma read_params: "read_query (join ''&'' (map (param_add h) kvs)) = map (\<lambda>kv. (fst kv, add_value h (snd kv))) kvs"
proof (cases kvs)
  case (Cons kv rest)
  have "\<forall>x \<in> set (map (param_add h) kvs). CHR ''&'' \<notin> set x" by (auto simp: param_add_def encoded_plain)
  then have "split_on (CHR ''&'') (join ''&'' (map (param_add h) kvs)) = map (param_add h) kvs"
    using Cons by (intro split_on_join) simp_all
  moreover have "join ''&'' (map (param_add h) kvs) \<noteq> []" using Cons by (cases rest) (simp_all add: param_add_def)
  ultimately show ?thesis by (simp add: read_query_def read_pair_add)
qed (simp add: read_query_def)

text \<open>
  Reading the query string \<open>jQuery.param\<close> writes gives back every name and value it was given,
  in order, whatever characters they contain.
\<close>

theorem param_roundtrip:
  assumes "\<not> nullish a"
  shows "map_option read_query (param h a traditional) =
    map_option (map (\<lambda>kv. (fst kv, add_value h (snd kv)))) (param_pairs h a traditional)"
  using assms by (cases "param_pairs h a traditional") (simp_all add: param_def read_params)

theorem param_roundtrip_witness:
  "map_option read_query (param \<lparr>fn_call = \<lambda>_ _. Undefined, fn_str = \<lambda>_. [], fn_prop = \<lambda>_ _. Undefined\<rparr>
     (Obj [(''a&b'', Arr [Num (Fin 1), Obj [(''c'', Str ''=x'')]])]) False) =
   Some [(''a&b[]'', ''1''), (''a&b[1][c]'', ''=x'')]"
proof -
  let ?h = "\<lparr>fn_call = \<lambda>_ _. Undefined, fn_str = \<lambda>_. [], fn_prop = \<lambda>_ _. Undefined\<rparr>"
  let ?a = "Obj [(''a&b'', Arr [Num (Fin 1), Obj [(''c'', Str ''=x'')]])]"
  have "map_option (map (\<lambda>kv. (fst kv, add_value ?h (snd kv)))) (param_pairs ?h ?a False) =
      Some [(''a&b[]'', ''1''), (''a&b[1][c]'', ''=x'')]" by code_simp
  then show ?thesis using param_roundtrip [of ?a ?h False] by simp
qed

end
