(* ===== verification/JQ_Ajax.thy ===== *)
theory JQ_Ajax
  imports JQ_Core JQ_Words
begin

text \<open>
  The data types of an Ajax request: the registries of prefilters and transports, the choice of a
  response and its conversion to the type the caller expects. Prefilters, transports, converters
  and the tests of content types are code of the page and parameters of the model.
\<close>

section \<open>Prefilters and transports\<close>

text \<open>A registry: for every data type the functions registered, here numbers.\<close>

type_synonym registry = "(string \<times> nat list) list"

definition registered :: "registry \<Rightarrow> string \<Rightarrow> nat list" where
  "registered r d = (case assoc d r of Some fs \<Rightarrow> fs | None \<Rightarrow> [])"

fun add_type :: "nat \<Rightarrow> string \<Rightarrow> registry \<Rightarrow> registry" where
  "add_type f d r =
     (case d of
        CHR ''+'' # d' \<Rightarrow> (let k = (if d' = [] then ''*'' else d') in assoc_set k (f # registered r k) r)
      | _ \<Rightarrow> assoc_set d (registered r d @ [f]) r)"

text \<open>The data types are optional; without them the function is registered for \<open>*\<close>.\<close>

definition addToPrefiltersOrTransports :: "string option \<Rightarrow> nat \<Rightarrow> registry \<Rightarrow> registry" where
  "addToPrefiltersOrTransports expr f r =
     (case expr of
        None \<Rightarrow> add_type f ''*'' r
      | Some s \<Rightarrow> fold (add_type f) (match_words (to_lower s)) r)"

text \<open>What a registered function returns: a data type, a transport, or nothing of use.\<close>

datatype found = FType string | FTransport nat | FNothing

definition found_truthy :: "found \<Rightarrow> bool" where
  "found_truthy x = (case x of FType s \<Rightarrow> s \<noteq> [] | FTransport _ \<Rightarrow> True | FNothing \<Rightarrow> False)"

text \<open>
  \<open>inspect\<close> on the functions of one data type; \<open>seen\<close> is \<open>inspected\<close>. A prefilter that names a type
  not inspected yet ends the loop: the type goes to the front of \<open>dataTypes\<close> and is inspected.
\<close>

function (sequential) inspect :: "(nat \<Rightarrow> string list \<Rightarrow> found \<times> string list) \<Rightarrow> bool \<Rightarrow> registry \<Rightarrow> string list \<Rightarrow> nat list
    \<Rightarrow> string list \<Rightarrow> found option \<times> string list \<times> string list" where
  "inspect run seeking r seen [] dataTypes = (None, seen, dataTypes)"
| "inspect run seeking r seen (f # fs) dataTypes =
     (case run f dataTypes of
        (FType d, ts) \<Rightarrow>
          (if \<not> seeking \<and> d \<notin> set seen then inspect run seeking r (d # seen) (registered r d) (d # ts)
           else if seeking \<and> d \<noteq> [] then (Some (FType d), seen, ts)
           else inspect run seeking r seen fs ts)
      | (x, ts) \<Rightarrow>
          (if seeking \<and> found_truthy x then (Some x, seen, ts) else inspect run seeking r seen fs ts))"
  by pat_completeness auto
termination
proof (relation "measures [\<lambda>(run, seeking, r, seen, fs, ts). card (set (map fst r) - set seen), \<lambda>(run, seeking, r, seen, fs, ts). length fs]")
  fix run :: "nat \<Rightarrow> string list \<Rightarrow> found \<times> string list" and seeking :: bool and r :: registry
    and seen dataTypes ts :: "string list" and d :: string and f :: nat and fs :: "nat list"
  assume "\<not> seeking \<and> d \<notin> set seen"
  then have new: "d \<notin> set seen" ..
  show "((run, seeking, r, d # seen, registered r d, d # ts), (run, seeking, r, seen, f # fs, dataTypes))
      \<in> measures [\<lambda>(run, seeking, r, seen, fs, ts). card (set (map fst r) - set seen), \<lambda>(run, seeking, r, seen, fs, ts). length fs]"
  proof (cases "d \<in> set (map fst r)")
    case True
    then have "set (map fst r) - set (d # seen) \<subset> set (map fst r) - set seen" using new by auto
    then have "card (set (map fst r) - set (d # seen)) < card (set (map fst r) - set seen)" by (intro psubset_card_mono) auto
    then show ?thesis by simp
  next
    case False
    then have "set (map fst r) - set (d # seen) = set (map fst r) - set seen" "assoc d r = None"
      by (auto simp: assoc_None)
    then have "set (map fst r) - set (d # seen) = set (map fst r) - set seen" "registered r d = []"
      by (simp_all add: registered_def)
    then show ?thesis by simp
  qed
qed auto

definition inspectPrefiltersOrTransports ::
    "(nat \<Rightarrow> string list \<Rightarrow> found \<times> string list) \<Rightarrow> bool \<Rightarrow> registry \<Rightarrow> string list \<Rightarrow> found option \<times> string list" where
  "inspectPrefiltersOrTransports run seeking r dataTypes =
     (let first = (case dataTypes of d # _ \<Rightarrow> d | [] \<Rightarrow> ''undefined'')
      in case inspect run seeking r [first] (registered r first) dataTypes of
           (Some x, seen, ts) \<Rightarrow> (Some x, ts)
         | (None, seen, ts) \<Rightarrow>
             (if ''*'' \<in> set seen then (None, ts)
              else case inspect run seeking r (''*'' # seen) (registered r ''*'') ts of (x, _, ts') \<Rightarrow> (x, ts')))"

section \<open>Options\<close>

definition ajaxExtend :: "string list \<Rightarrow> jsval \<Rightarrow> (string \<times> jsval) list \<Rightarrow> jsval" where
  "ajaxExtend flatOptions target src =
     (let defined = filter (\<lambda>kv. snd kv \<noteq> Undefined) src;
          flat = filter (\<lambda>kv. fst kv \<in> set flatOptions) defined;
          deep = filter (\<lambda>kv. fst kv \<notin> set flatOptions) defined;
          t1 = fold (\<lambda>kv t. setprop t (fst kv) (snd kv)) flat target
      in if deep = [] then t1 else JQ_Core.extend True t1 [Obj deep])"

section \<open>The response\<close>

text \<open>The tests of the content types, the responses and the converters, in the order of the objects.\<close>

datatype 'r converter = Same | Convert "'r \<Rightarrow> string + 'r" | Disabled

definition conv_get :: "(string \<times> 'r converter) list \<Rightarrow> string \<Rightarrow> 'r converter option" where
  "conv_get cs k = (case assoc k cs of Some Disabled \<Rightarrow> None | x \<Rightarrow> x)"

text \<open>Leading \<open>*\<close> entries are removed; the content type is only asked for when there was one.\<close>

definition auto_types :: "string list \<Rightarrow> string list \<times> bool" where
  "auto_types ts = (dropWhile (\<lambda>t. t = ''*'') ts, ts \<noteq> [] \<and> hd ts = ''*'')"

fun convertible :: "(string \<times> 'r converter) list \<Rightarrow> string option \<Rightarrow> (string \<times> 'r) list \<Rightarrow> string option" where
  "convertible cs want [] = None"
| "convertible cs want ((t, _) # rs) =
     (if (case want of None \<Rightarrow> True | Some d \<Rightarrow> d = [] \<or> conv_get cs (t @ '' '' @ d) \<noteq> None) then Some t
      else convertible cs want rs)"

definition ajaxHandleResponses :: "(string \<times> (string \<Rightarrow> bool) option) list \<Rightarrow> (string \<times> 'r converter) list \<Rightarrow> string option
    \<Rightarrow> (string \<times> 'r) list \<Rightarrow> string list \<Rightarrow> 'r option \<times> string list" where
  "ajaxHandleResponses contents cs contentType responses types =
     (let (ts, auto) = auto_types types;
          ct = (if auto then contentType else None);
          known = (case ct of
                     None \<Rightarrow> None
                   | Some c \<Rightarrow> if c = [] then None
                       else find (\<lambda>(t, test). case test of Some p \<Rightarrow> p c | None \<Rightarrow> False) contents);
          ts1 = (case known of Some (t, _) \<Rightarrow> t # ts | None \<Rightarrow> ts);
          want = (case ts1 of t # _ \<Rightarrow> Some t | [] \<Rightarrow> None);
          final = (if want \<noteq> None \<and> assoc (the want) responses \<noteq> None then want
                   else case convertible cs want responses of
                          Some t \<Rightarrow> Some t
                        | None \<Rightarrow> (case responses of (t, _) # _ \<Rightarrow> Some t | [] \<Rightarrow> None))
      in case final of
           None \<Rightarrow> (None, ts1)
         | Some t \<Rightarrow> (assoc t responses, if want = Some t then ts1 else t # ts1))"

section \<open>Conversion\<close>

datatype 'r conv_result = Success 'r | ParserError string | Thrown string

record 'r conv_settings =
  dataFilter :: "('r \<Rightarrow> 'r) option"     \<comment> \<open>applied when the request succeeded\<close>
  throws :: bool
  responseField :: "string \<Rightarrow> string option"

text \<open>The keys of the converters in lower case; a later key replaces an equal earlier one.\<close>

definition lower_keys :: "(string \<times> 'r converter) list \<Rightarrow> (string \<times> 'r converter) list" where
  "lower_keys cs = fold (\<lambda>(k, c) m. assoc_set (to_lower k) c m) cs []"

definition either :: "'a option \<Rightarrow> 'a option \<Rightarrow> 'a option" where
  "either a b = (case a of Some x \<Rightarrow> Some x | None \<Rightarrow> b)"

definition source_conv :: "(string \<times> 'r converter) list \<Rightarrow> string \<Rightarrow> string \<Rightarrow> 'r converter option" where
  "source_conv cs src t = either (conv_get cs (src @ '' '' @ t)) (conv_get cs (''* '' @ t))"

text \<open>
  The search for a pair of converters: the converter to apply and, when a second one has to
  follow, the type in between.
\<close>

fun seek_pair :: "(string \<times> 'r converter) list \<Rightarrow> string \<Rightarrow> string \<Rightarrow> (string \<times> 'r converter) list \<Rightarrow> 'r converter option \<times> string option" where
  "seek_pair cs src cur [] = (None, None)"
| "seek_pair cs src cur ((conv2, c2) # rest) =
     (case split_on (CHR '' '') conv2 of
        a # b # _ \<Rightarrow>
          (if b = cur then
             (case source_conv cs src a of
                Some Same \<Rightarrow> (case c2 of Disabled \<Rightarrow> None | _ \<Rightarrow> Some c2, None)
              | Some c \<Rightarrow> (Some c, case c2 of Same \<Rightarrow> None | _ \<Rightarrow> Some a)
              | None \<Rightarrow> seek_pair cs src cur rest)
           else seek_pair cs src cur rest)
      | _ \<Rightarrow> seek_pair cs src cur rest)"

definition find_conv :: "(string \<times> 'r converter) list \<Rightarrow> string \<Rightarrow> string \<Rightarrow> 'r converter option \<times> string option" where
  "find_conv cs src cur =
     (case source_conv cs src cur of
        Some c \<Rightarrow> (Some c, None)
      | None \<Rightarrow> seek_pair cs src cur cs)"

definition shift_type :: "string list \<Rightarrow> string option \<times> string list" where
  "shift_type ts = (case ts of [] \<Rightarrow> (None, []) | t # ts' \<Rightarrow> (if t = [] then None else Some t, ts'))"

text \<open>
  One conversion: the new response, or the end of the loop with an error. The message names the
  type the failed converter was to produce.
\<close>

definition apply_conv :: "'r conv_settings \<Rightarrow> string \<Rightarrow> string \<Rightarrow> 'r converter option \<Rightarrow> 'r \<Rightarrow> 'r conv_result + 'r" where
  "apply_conv s src cur c r =
     (case c of
        Some Same \<Rightarrow> Inr r
      | Some (Convert f) \<Rightarrow>
          (case f r of
             Inr r' \<Rightarrow> Inr r'
           | Inl e \<Rightarrow> Inl (if throws s then Thrown e else ParserError e))
      | _ \<Rightarrow> Inl (ParserError (''No conversion from '' @ src @ '' to '' @ cur)))"

text \<open>
  The loop, with fuel: it may run forever. The state is \<open>prev\<close>, \<open>current\<close>, the remaining types, the
  response and the fields set on the request object. A type in between that is the empty text ends
  the loop like the end of the types does.
\<close>

fun convert_loop :: "nat \<Rightarrow> 'r conv_settings \<Rightarrow> (string \<times> 'r converter) list \<Rightarrow> bool \<Rightarrow> string option \<Rightarrow> string option
    \<Rightarrow> string list \<Rightarrow> 'r \<Rightarrow> (string \<times> 'r) list \<Rightarrow> ('r conv_result \<times> (string \<times> 'r) list) option" where
  "convert_loop 0 s cs ok src current ts r xhr = None"
| "convert_loop (Suc n) s cs ok src current ts r xhr =
     (case current of
        None \<Rightarrow> Some (Success r, xhr)
      | Some cur \<Rightarrow>
          (let xhr1 = (case responseField s cur of Some f \<Rightarrow> assoc_set f r xhr | None \<Rightarrow> xhr);
               r1 = (if src = None \<and> ok then (case dataFilter s of Some g \<Rightarrow> g r | None \<Rightarrow> r) else r);
               (next, ts1) = shift_type ts
           in case next of
                None \<Rightarrow> convert_loop n s cs ok (Some cur) None ts1 r1 xhr1
              | Some nxt \<Rightarrow>
                  (if nxt = ''*'' then convert_loop n s cs ok (Some cur) (Some cur) ts1 r1 xhr1
                   else if cur \<noteq> ''*'' \<and> cur \<noteq> nxt then
                     (case find_conv cs cur nxt of
                        (c, between) \<Rightarrow>
                          (let cur' = (case between of Some a \<Rightarrow> a | None \<Rightarrow> nxt);
                               ts2 = (case between of Some a \<Rightarrow> nxt # ts1 | None \<Rightarrow> ts1)
                           in case apply_conv s cur cur' c r1 of
                                Inl e \<Rightarrow> Some (e, xhr1)
                              | Inr r2 \<Rightarrow> convert_loop n s cs ok (Some cur) (if cur' = [] then None else Some cur') ts2 r2 xhr1))
                   else convert_loop n s cs ok (Some cur) (Some nxt) ts1 r1 xhr1)))"

definition ajaxConvert :: "nat \<Rightarrow> 'r conv_settings \<Rightarrow> (string \<times> 'r converter) list \<Rightarrow> bool \<Rightarrow> string list \<Rightarrow> 'r
    \<Rightarrow> ('r conv_result \<times> (string \<times> 'r) list) option" where
  "ajaxConvert fuel s converters ok types r =
     (let cs = (if 2 \<le> length types \<and> types ! 1 \<noteq> [] then lower_keys converters else []);
          (current, ts) = shift_type types
      in convert_loop fuel s cs ok None current ts r [])"

end
