(* ===== verification/JQ_Ajax_Props.thy ===== *)
theory JQ_Ajax_Props
  imports JQ_Ajax
begin

text \<open>
  Conversion of responses: it ends when the keys of the converters are as documented and none is
  disabled, it only applies converters that fit, and it runs forever otherwise.
\<close>

section \<open>Well-formed converters\<close>

text \<open>Keys separate source and destination with a single space; every entry is a converter.\<close>

definition good_key :: "string \<Rightarrow> bool" where
  "good_key k \<longleftrightarrow> (\<exists>a b. split_on (CHR '' '') k = [a, b])"

definition good_converters :: "(string \<times> 'r converter) list \<Rightarrow> bool" where
  "good_converters cs \<longleftrightarrow> distinct (map fst cs) \<and> (\<forall>(k, c) \<in> set cs. good_key k \<and> c \<noteq> Disabled)"

text \<open>No key has the empty text for its source.\<close>

definition named_sources :: "(string \<times> 'r converter) list \<Rightarrow> bool" where
  "named_sources cs \<longleftrightarrow> (\<forall>(k, c) \<in> set cs. \<forall>b. k \<noteq> '' '' @ b)"

lemma split_key: "split_on (CHR '' '') k = [a, b] \<Longrightarrow> k = a @ '' '' @ b"
  using join_split_on [of "CHR '' ''" k] by simp

lemma good_get: "good_converters cs \<Longrightarrow> (k, c) \<in> set cs \<Longrightarrow> conv_get cs k = Some c"
  by (auto simp: good_converters_def conv_get_def assoc_map_of split: option.split converter.split)

lemma source_conv_Some: "source_conv cs src t = Some c \<Longrightarrow> \<exists>k \<in> {src, ''*''}. conv_get cs (k @ '' '' @ t) = Some c"
  by (auto simp: source_conv_def either_def split: option.splits)

text \<open>What a search for a pair finds: nothing, an equivalence followed by a converter, or a converter
  followed by an equivalence or by a second converter.\<close>

lemma seek_pair_cases:
  assumes "good_converters cs" "set rest \<subseteq> set cs" "seek_pair cs src cur rest = (c, between)"
  shows "c = None \<and> between = None \<or>
    (\<exists>a. source_conv cs src a = Some Same \<and> conv_get cs (a @ '' '' @ cur) = c \<and> c \<noteq> None \<and> between = None) \<or>
    (\<exists>a d. source_conv cs src a = c \<and> c \<noteq> None \<and> conv_get cs (a @ '' '' @ cur) = Some d \<and>
       between = (case d of Same \<Rightarrow> None | _ \<Rightarrow> Some a))"
  using assms(2,3)
proof (induction rest)
  case (Cons kc rest)
  obtain k c2 where kc: "kc = (k, c2)" by (cases kc)
  have inn: "(k, c2) \<in> set cs" using Cons.prems(1) kc by simp
  obtain a b where ab: "split_on (CHR '' '') k = [a, b]" using assms(1) inn by (auto simp: good_converters_def good_key_def)
  note get = good_get [OF assms(1) inn, unfolded split_key [OF ab]]
  have nd: "c2 \<noteq> Disabled" using assms(1) inn by (auto simp: good_converters_def)
  show ?case
  proof (cases "b = cur \<and> source_conv cs src a \<noteq> None")
    case False
    then have "seek_pair cs src cur rest = (c, between)" using Cons.prems(2) kc ab by (auto split: option.splits)
    then show ?thesis using Cons.IH Cons.prems(1) by simp
  next
    case True
    then obtain c' where c': "source_conv cs src a = Some c'" by auto
    show ?thesis
    proof (cases "c' = Same")
      case same: True
      then have "c = Some c2" "between = None" using Cons.prems(2) kc ab True c' nd by (cases c2; simp)+
      then show ?thesis using c' same get True by auto
    next
      case False
      then have "c = Some c'" "between = (case c2 of Same \<Rightarrow> None | _ \<Rightarrow> Some a)"
        using Cons.prems(2) kc ab True c' by (cases c'; simp)+
      then show ?thesis using c' get True by auto
    qed
  qed
qed simp

lemma find_between:
  assumes "good_converters cs" "find_conv cs src cur = (c, Some a)"
  shows "a \<noteq> ''*'' \<and> source_conv cs a cur \<noteq> None \<and> (named_sources cs \<longrightarrow> a \<noteq> [])"
proof -
  have n: "source_conv cs src cur = None" and p: "seek_pair cs src cur cs = (c, Some a)"
    using assms(2) by (auto simp: find_conv_def split: option.splits)
  from seek_pair_cases [OF assms(1) subset_refl p] have g: "conv_get cs (a @ '' '' @ cur) \<noteq> None"
  proof (elim disjE)
    assume "\<exists>b d. source_conv cs src b = c \<and> c \<noteq> None \<and> conv_get cs (b @ '' '' @ cur) = Some d \<and>
        Some a = (case d of Same \<Rightarrow> None | _ \<Rightarrow> Some b)"
    then obtain b d where "conv_get cs (b @ '' '' @ cur) = Some d" "Some a = (case d of Same \<Rightarrow> None | _ \<Rightarrow> Some b)" by blast
    then show ?thesis by (cases d) auto
  qed auto
  moreover have "a \<noteq> ''*''" using g n by (auto simp: source_conv_def either_def split: option.splits)
  moreover have "a \<noteq> []" if "named_sources cs"
    using g that by (auto simp: named_sources_def conv_get_def assoc_map_of split: option.splits dest!: map_of_SomeD)
  ultimately show ?thesis by (auto simp: source_conv_def either_def)
qed

section \<open>Termination\<close>

lemma convert_stop: "1 \<le> n \<Longrightarrow> convert_loop n s cs ok src None ts r xhr \<noteq> None"
  by (cases n) auto

lemma loop_ends:
  assumes good: "good_converters cs"
  shows "2 * length ts + 2 \<le> n \<Longrightarrow> convert_loop n s cs ok src current ts r xhr \<noteq> None"
proof (induction ts arbitrary: n src current r xhr)
  case Nil
  then obtain m where n: "n = Suc (Suc m)" by (cases n; cases "n - 1") auto
  then show ?case by (cases current) (simp_all add: shift_type_def Let_def)
next
  case (Cons t ts)
  then obtain m where n: "n = Suc (Suc m)" and m: "2 * length ts + 2 \<le> m" by (cases n; cases "n - 1") auto
  have ih: "convert_loop k s cs ok src' current' ts r' xhr' \<noteq> None" if "m \<le> k" for k src' current' r' xhr'
    using Cons.IH m that by simp
  show ?case
  proof (cases current)
    case (Some cur)
    show ?thesis
    proof (cases "t = [] \<or> t = ''*'' \<or> cur = ''*'' \<or> cur = t")
      case True
      then show ?thesis
        using Some ih [of "Suc m"] convert_stop [of "Suc m"] by (auto simp: n shift_type_def Let_def simp del: convert_loop.simps(2) simp: convert_loop.simps(2) [of "Suc m"])
    next
      case False
      obtain c between where fc: "find_conv cs cur t = (c, between)" by (cases "find_conv cs cur t")
      show ?thesis
      proof (cases between)
        case None
        then show ?thesis using Some False fc ih [of "Suc m"]
          by (auto simp: n shift_type_def Let_def simp del: convert_loop.simps(2) simp: convert_loop.simps(2) [of "Suc m"] split: sum.split)
      next
        case (Some a)
        note b = find_between [OF good fc [unfolded Some]]
        obtain c' where c': "find_conv cs a t = (Some c', None)" using b by (auto simp: find_conv_def)
        have "convert_loop (Suc m) s cs ok (Some cur) (if a = [] then None else Some a) (t # ts) r' x' \<noteq> None" for r' x'
          using b c' False ih [of m] by (auto simp: shift_type_def Let_def split: sum.split)
        then show ?thesis using Some \<open>current = Some cur\<close> False fc
          by (auto simp: n shift_type_def Let_def simp del: convert_loop.simps(2) simp: convert_loop.simps(2) [of "Suc m"] split: sum.split)
      qed
    qed
  qed (simp add: n)
qed

text \<open>
  C23. Converting a response ends, with a value or an error, within two rounds for every data type,
  when each converter key is a source and a destination separated by one space and no converter is
  switched off.
\<close>

theorem convert_terminates:
  assumes "good_converters (lower_keys converters)" and "2 * length types + 2 \<le> fuel"
  shows "\<exists>result xhr. ajaxConvert fuel s converters ok types r = Some (result, xhr)"
proof -
  let ?cs = "if 2 \<le> length types \<and> types ! 1 \<noteq> [] then lower_keys converters else []"
  have good: "good_converters ?cs" using assms(1) by (simp add: good_converters_def)
  obtain current ts where sh: "shift_type types = (current, ts)" by (cases "shift_type types")
  have "length ts \<le> length types" using sh by (cases types) (auto simp: shift_type_def)
  then have "convert_loop fuel s ?cs ok None current ts r [] \<noteq> None"
    using assms(2) by (intro loop_ends [OF good]) simp
  then show ?thesis using sh by (auto simp: ajaxConvert_def Let_def)
qed

definition plain_settings :: "nat conv_settings" where
  "plain_settings = \<lparr>dataFilter = None, throws = False, responseField = \<lambda>_. None\<rparr>"

definition demo_converters :: "(string \<times> nat converter) list" where
  "demo_converters = [(''* text'', Convert (\<lambda>x. Inr (x + 1))), (''text html'', Same), (''text json'', Convert (\<lambda>x. Inr (2 * x)))]"

lemma to_lower_demo: "to_lower ''* text'' = ''* text''" "to_lower ''text html'' = ''text html''" "to_lower ''text json'' = ''text json''"
  by code_simp+

lemma demo_good: "good_converters (lower_keys demo_converters)"
proof -
  have l: "lower_keys demo_converters = demo_converters" by (simp add: lower_keys_def demo_converters_def to_lower_demo)
  have "good_key ''* text''" "good_key ''text html''" "good_key ''text json''" by (simp_all add: good_key_def)
  then show ?thesis unfolding l by (auto simp: good_converters_def demo_converters_def)
qed

lemma demo_named: "named_sources (lower_keys demo_converters)"
proof -
  have "lower_keys demo_converters = demo_converters"
    unfolding lower_keys_def demo_converters_def by (simp add: to_lower_demo)
  then show ?thesis by (simp add: named_sources_def demo_converters_def)
qed

theorem convert_terminates_witness:
  "\<exists>result xhr. ajaxConvert 10 plain_settings demo_converters True [''xml'', ''json''] 4 = Some (result, xhr)"
  by (rule convert_terminates [OF demo_good]) simp

section \<open>Soundness\<close>

text \<open>A chain of converters from a response of one type to a response of another.\<close>

inductive conv_path :: "(string \<times> 'r converter) list \<Rightarrow> string \<Rightarrow> 'r \<Rightarrow> string \<Rightarrow> 'r \<Rightarrow> bool" for cs where
  here: "conv_path cs a r a r"
| same: "conv_path cs a r b r' \<Longrightarrow> k \<in> {b, ''*''} \<Longrightarrow> conv_get cs (k @ '' '' @ c) = Some Same \<Longrightarrow> conv_path cs a r c r'"
| convert: "conv_path cs a r b r' \<Longrightarrow> k \<in> {b, ''*''} \<Longrightarrow> conv_get cs (k @ '' '' @ c) = Some (Convert f) \<Longrightarrow>
    f r' = Inr r'' \<Longrightarrow> conv_path cs a r c r''"

lemma path_apply:
  assumes "conv_path cs a r b r'" "k \<in> {b, ''*''}" "conv_get cs (k @ '' '' @ c) = Some conv" "apply_conv s p q (Some conv) r' = Inr r''"
  shows "conv_path cs a r c r''"
proof (cases conv)
  case Same
  then show ?thesis using conv_path.same [OF assms(1,2)] assms(3,4) by (simp add: apply_conv_def)
next
  case (Convert f)
  then have "f r' = Inr r''" using assms(4) by (simp add: apply_conv_def split: sum.splits)
  then show ?thesis using conv_path.convert [OF assms(1,2)] assms(3) Convert by simp
next
  case Disabled
  then show ?thesis using assms(4) by (simp add: apply_conv_def)
qed

lemma source_apply:
  assumes "conv_path cs a r b r'" "source_conv cs b c = Some conv" "apply_conv s p q (Some conv) r' = Inr r''"
  shows "conv_path cs a r c r''"
proof -
  obtain k where k: "k \<in> {b, ''*''}" "conv_get cs (k @ '' '' @ c) = Some conv" using source_conv_Some [OF assms(2)] by blast
  show ?thesis by (rule path_apply [OF assms(1) k assms(3)])
qed

lemma find_apply:
  assumes good: "good_converters cs" and path: "conv_path cs a r b r'" and fc: "find_conv cs b c = (conv, between)"
    and ap: "apply_conv s p q conv r' = Inr r''"
  shows "conv_path cs a r (case between of Some m \<Rightarrow> m | None \<Rightarrow> c) r''"
proof (cases "source_conv cs b c")
  case (Some d)
  then show ?thesis using fc ap path source_apply [of cs a r b r' c d s p q r''] by (auto simp: find_conv_def)
next
  case None
  then have sp: "seek_pair cs b c cs = (conv, between)" using fc by (simp add: find_conv_def)
  from seek_pair_cases [OF good subset_refl sp] show ?thesis
  proof (elim disjE)
    assume "conv = None \<and> between = None"
    then show ?thesis using ap by (simp add: apply_conv_def)
  next
    assume "\<exists>m. source_conv cs b m = Some Same \<and> conv_get cs (m @ '' '' @ c) = conv \<and> conv \<noteq> None \<and> between = None"
    then obtain m d where m: "source_conv cs b m = Some Same" "conv_get cs (m @ '' '' @ c) = Some d" "conv = Some d" "between = None"
      by auto
    have "conv_path cs a r m r'" by (rule source_apply [OF path m(1), of s p q]) (simp add: apply_conv_def)
    from path_apply [OF this _ m(2)] show ?thesis using m ap by simp
  next
    assume "\<exists>m d. source_conv cs b m = conv \<and> conv \<noteq> None \<and> conv_get cs (m @ '' '' @ c) = Some d \<and>
       between = (case d of Same \<Rightarrow> None | _ \<Rightarrow> Some m)"
    then obtain m d x where m: "source_conv cs b m = Some x" "conv = Some x" "conv_get cs (m @ '' '' @ c) = Some d"
      "between = (case d of Same \<Rightarrow> None | _ \<Rightarrow> Some m)" by auto
    have pm: "conv_path cs a r m r''" using source_apply [OF path m(1)] ap m(2) by simp
    show ?thesis
    proof (cases d)
      case Same
      then show ?thesis using m conv_path.same [OF pm, of m c] by simp
    qed (use pm m in simp_all)
  qed
qed

definition filtered :: "'r conv_settings \<Rightarrow> bool \<Rightarrow> string option \<Rightarrow> 'r \<Rightarrow> 'r" where
  "filtered s ok src r = (if src = None \<and> ok then (case dataFilter s of Some g \<Rightarrow> g r | None \<Rightarrow> r) else r)"

lemma loop_sound:
  assumes good: "good_converters cs" and named: "named_sources cs"
  shows "convert_loop n s cs ok src (Some cur) ts r xhr = Some (Success r', xhr') \<Longrightarrow> conv_path cs a r0 cur (filtered s ok src r) \<Longrightarrow>
    ''*'' \<notin> set (cur # ts) \<Longrightarrow> [] \<notin> set ts \<Longrightarrow> conv_path cs a r0 (last (cur # ts)) r'"
proof (induction n arbitrary: src cur ts r xhr)
  case (Suc n)
  have step: "filtered s ok (Some cur) x = x" for x by (simp add: filtered_def)
  define xhr1 where "xhr1 = (case responseField s cur of Some f \<Rightarrow> assoc_set f r xhr | None \<Rightarrow> xhr)"
  note loop = Suc.prems(1) [simplified convert_loop.simps option.case Let_def, folded filtered_def xhr1_def]
  show ?case
  proof (cases ts)
    case Nil
    then have "Some (Success r', xhr') = Some (Success (filtered s ok src r), xhr1)"
      using loop by (cases n) (auto simp: shift_type_def)
    then show ?thesis using Suc.prems(2) Nil by simp
  next
    case (Cons t us)
    show ?thesis
    proof (cases "cur = t")
      case True
      then have "convert_loop n s cs ok (Some cur) (Some t) us (filtered s ok src r) xhr1 = Some (Success r', xhr')"
        using loop Cons Suc.prems(3,4) by (auto simp: shift_type_def)
      from Suc.IH [OF this] show ?thesis using Suc.prems Cons True step by auto
    next
      case False
      obtain c between where fc: "find_conv cs cur t = (c, between)" by (cases "find_conv cs cur t")
      let ?cur = "case between of Some m \<Rightarrow> m | None \<Rightarrow> t" and ?ts = "case between of Some m \<Rightarrow> t # us | None \<Rightarrow> us"
      have ne: "?cur \<noteq> []" using find_between [OF good] named fc Suc.prems(4) Cons by (cases between) auto
      obtain r2 where r2: "apply_conv s cur ?cur c (filtered s ok src r) = Inr r2"
        and l: "convert_loop n s cs ok (Some cur) (Some ?cur) ?ts r2 xhr1 = Some (Success r', xhr')"
        using loop Cons Suc.prems(3,4) False fc ne
        by (auto simp: shift_type_def apply_conv_def split: sum.splits option.splits converter.splits if_splits)
      have "conv_path cs a r0 ?cur r2" by (rule find_apply [OF good Suc.prems(2) fc r2])
      moreover have "?cur \<noteq> ''*''" using find_between [OF good] fc Suc.prems(3) Cons by (cases between) auto
      ultimately show ?thesis using Suc.IH [OF l] Suc.prems(3,4) Cons step by (cases between) auto
    qed
  qed
qed simp

text \<open>
  C27. When conversion succeeds, its value has come from the response, after the data filter, by
  a chain of registered converters, each taking the type the one before it produced or any type,
  from the first data type of the request to the last.  (The keys of the converters name a source
  and a destination, separated by one space, and no converter is switched off; with an empty name
  for a source the conversion can end before the last type.)
\<close>

theorem convert_sound:
  assumes "good_converters (lower_keys converters)" and "named_sources (lower_keys converters)" and "''*'' \<notin> set (t # ts)" and "[] \<notin> set (t # ts)"
    and "ajaxConvert fuel s converters ok (t # ts) r = Some (Success r', xhr)"
  shows "conv_path (lower_keys converters) t (filtered s ok None r) (last (t # ts)) r'"
proof (cases ts)
  case Nil
  define xhr1 where "xhr1 = (case responseField s t of Some f \<Rightarrow> assoc_set f r [] | None \<Rightarrow> [])"
  have l: "convert_loop fuel s [] ok None (Some t) [] r [] = Some (Success r', xhr)"
    using assms(4,5) Nil by (auto simp: ajaxConvert_def shift_type_def)
  have g: "good_converters ([] :: (string \<times> 'a converter) list)" by (simp add: good_converters_def)
  have "conv_path [] t (filtered s ok None r) (last [t]) r'"
    by (rule loop_sound [OF g _ l conv_path.here]) (use assms(3) in \<open>auto simp: named_sources_def\<close>)
  then have "r' = filtered s ok None r" by (cases rule: conv_path.cases) (auto simp: conv_get_def)
  then show ?thesis using Nil conv_path.here by simp
next
  case (Cons u us)
  have "convert_loop fuel s (lower_keys converters) ok None (Some t) ts r [] = Some (Success r', xhr)"
    using assms(4,5) Cons by (auto simp: ajaxConvert_def shift_type_def)
  from loop_sound [OF assms(1,2) this conv_path.here assms(3)] show ?thesis using assms(4) by auto
qed

theorem convert_sound_witness:
  "conv_path (lower_keys demo_converters) ''xml'' 4 ''json'' 10"
proof -
  have "ajaxConvert 10 plain_settings demo_converters True [''xml'', ''json''] 4 = Some (Success 10, [])"
    by code_simp
  from convert_sound [OF demo_good demo_named _ _ this] show ?thesis by (simp add: filtered_def plain_settings_def)
qed

section \<open>A converter that is switched off\<close>

definition off_converters :: "(string \<times> nat converter) list" where
  "off_converters = [(''* text'', Convert Inr), (''text json'', Disabled)]"

lemma off_loop:
  assumes "cur \<in> {''xml'', ''text''}"
  shows "convert_loop n plain_settings off_converters True src (Some cur) [''json''] r xhr = None"
  using assms
proof (induction n arbitrary: src cur r xhr)
  case (Suc n)
  have f: "find_conv off_converters cur ''json'' = (Some (Convert Inr), Some ''text'')"
    using Suc.prems by (auto simp: find_conv_def source_conv_def either_def conv_get_def off_converters_def)
  show ?case
    using Suc.IH [of "''text''"] Suc.prems f by (auto simp: shift_type_def plain_settings_def apply_conv_def Let_def)
qed simp

text \<open>
  A falsy converter makes the conversion run forever: with the standard converter to text and the
  one from text to JSON set to \<open>false\<close>, a request that expects JSON and gets XML never finishes,
  because the pair search keeps inserting the type text.
\<close>

theorem convert_diverges:
  "ajaxConvert fuel plain_settings off_converters True [''xml'', ''json''] r = None"
proof -
  have "to_lower ''* text'' = ''* text''" "to_lower ''text json'' = ''text json''" by code_simp+
  then have "lower_keys off_converters = off_converters" by (simp add: lower_keys_def off_converters_def)
  then show ?thesis using off_loop [of "''xml''"] by (simp add: ajaxConvert_def shift_type_def)
qed

end
