(* ===== verification/JQ_Data.thy ===== *)
theory JQ_Data
  imports JsVal JQ_Words
begin

text \<open>
  The data store: \<open>camelCase\<close>, the \<open>Data\<close> objects that keep values on elements and objects, the
  \<open>data-*\<close> attributes and the functions \<open>jQuery.data\<close> and \<open>jQuery.fn.data\<close>.
\<close>

section \<open>Names\<close>

definition is_lower :: "char \<Rightarrow> bool" where
  "is_lower c \<longleftrightarrow> (let n = of_char c :: nat in 97 \<le> n \<and> n \<le> 122)"

definition is_upper :: "char \<Rightarrow> bool" where
  "is_upper c \<longleftrightarrow> (let n = of_char c :: nat in 65 \<le> n \<and> n \<le> 90)"

definition rmsPrefix :: "string \<Rightarrow> string" where
  "rmsPrefix s = (if starts ''-ms-'' s then drop 1 s else s)"

text \<open>The replacement of every \<open>-([a-z])\<close> by the letter in upper case.\<close>

fun rdashAlpha :: "string \<Rightarrow> string" where
  "rdashAlpha (c # d # s) =
     (if c = CHR ''-'' \<and> is_lower d then char_upper d # rdashAlpha s else c # rdashAlpha (d # s))"
| "rdashAlpha s = s"

definition camelCase :: "string \<Rightarrow> string" where
  "camelCase s = rdashAlpha (rmsPrefix s)"

text \<open>\<open>key.replace( rmultiDash, "-$&" ).toLowerCase()\<close>\<close>

definition rmultiDash :: "string \<Rightarrow> string" where
  "rmultiDash s = to_lower (concat (map (\<lambda>c. if is_upper c then [CHR ''-'', c] else [c]) s))"

section \<open>Data objects\<close>

text \<open>
  A \<open>Data\<close> object keeps its cache in the property \<open>expando\<close> of the owner: nothing, or an object.
  The operations take what is there and return what is there afterwards; \<open>nt\<close> is \<open>owner.nodeType\<close>,
  \<open>0\<close> for an object that is no node. A cache created for an owner that accepts no data is returned
  but not kept.
\<close>

type_synonym 'v store = "(string \<times> 'v) list option"

definition acceptData :: "nat \<Rightarrow> bool" where
  "acceptData nt \<longleftrightarrow> nt = 1 \<or> nt = 9 \<or> nt = 0"

definition data_cache :: "nat \<Rightarrow> 'v store \<Rightarrow> (string \<times> 'v) list \<times> 'v store" where
  "data_cache nt st =
     (case st of
        Some c \<Rightarrow> (c, st)
      | None \<Rightarrow> ([], if acceptData nt then Some [] else None))"

text \<open>Writing to the object \<open>cache\<close> returned.\<close>

definition write_cache :: "((string \<times> 'v) list \<Rightarrow> (string \<times> 'v) list) \<Rightarrow> nat \<Rightarrow> 'v store \<Rightarrow> 'v store" where
  "write_cache f nt st = (case data_cache nt st of (c, st') \<Rightarrow> map_option (\<lambda>_. f c) st')"

definition data_set :: "nat \<Rightarrow> string \<Rightarrow> 'v \<Rightarrow> 'v store \<Rightarrow> 'v store" where
  "data_set nt key v st = write_cache (assoc_set (camelCase key) v) nt st"

definition data_set_all :: "nat \<Rightarrow> (string \<times> 'v) list \<Rightarrow> 'v store \<Rightarrow> 'v store" where
  "data_set_all nt kvs st = write_cache (fold (\<lambda>(k, v). assoc_set (camelCase k) v) kvs) nt st"

definition data_get :: "string \<Rightarrow> 'v store \<Rightarrow> 'v option" where
  "data_get key st = (case st of Some c \<Rightarrow> assoc (camelCase key) c | None \<Rightarrow> None)"

text \<open>
  The keys \<open>remove\<close> deletes: all of an array, one key that is in the cache (own or inherited), or the
  words of a text.
\<close>

datatype key_arg = KNone | KText string | KArray "string list"

definition in_cache :: "string \<Rightarrow> (string \<times> 'v) list \<Rightarrow> bool" where
  "in_cache k c \<longleftrightarrow> assoc k c \<noteq> None \<or> inherited object_proto k \<noteq> Undefined"

definition remove_keys :: "key_arg \<Rightarrow> (string \<times> 'v) list \<Rightarrow> string list" where
  "remove_keys k c =
     (case k of
        KNone \<Rightarrow> []
      | KArray ks \<Rightarrow> map camelCase ks
      | KText s \<Rightarrow> (let key = camelCase s in if in_cache key c then [key] else match_words key))"

definition data_remove :: "key_arg \<Rightarrow> 'v store \<Rightarrow> 'v store" where
  "data_remove k st =
     (case st of
        None \<Rightarrow> None
      | Some c \<Rightarrow>
          (let c' = fold assoc_del (rev (remove_keys k c)) c
           in if k = KNone \<or> c' = [] then None else Some c'))"

definition data_hasData :: "'v store \<Rightarrow> bool" where
  "data_hasData st = (case st of Some c \<Rightarrow> c \<noteq> [] | None \<Rightarrow> False)"

section \<open>User data\<close>

text \<open>Values are read from the cache as from any object: names of \<open>Object.prototype\<close> are inherited.\<close>

definition read_cache :: "(string \<times> jsval) list \<Rightarrow> string \<Rightarrow> jsval" where
  "read_cache c k = (case assoc k c of Some v \<Rightarrow> v | None \<Rightarrow> inherited object_proto k)"

definition user_get :: "string \<Rightarrow> jsval store \<Rightarrow> jsval" where
  "user_get key st = (case st of Some c \<Rightarrow> read_cache c (camelCase key) | None \<Rightarrow> Undefined)"

text \<open>\<open>access\<close> with its three kinds of \<open>key\<close>; the result and the cache afterwards.\<close>

datatype access_key = ANone | AKey string | AObject "(string \<times> jsval) list"

definition data_access :: "nat \<Rightarrow> access_key \<Rightarrow> jsval \<Rightarrow> jsval store \<Rightarrow> jsval \<times> jsval store" where
  "data_access nt key v st =
     (case key of
        ANone \<Rightarrow> (case data_cache nt st of (c, st') \<Rightarrow> (Obj c, st'))
      | AKey k \<Rightarrow>
          (if k \<noteq> [] \<and> v = Undefined then (user_get k st, st)
           else (if v \<noteq> Undefined then v else Str k, data_set nt k v st))
      | AObject kvs \<Rightarrow> (if v \<noteq> Undefined then v else Obj kvs, data_set_all nt kvs st))"

text \<open>An owner: the type of the node, its attributes, and what the two \<open>Data\<close> objects keep.\<close>

record owner =
  nodeType :: nat
  attributes :: "(string \<times> string) list"
  dataUser :: "jsval store"
  dataPriv :: "jsval store"

definition rbrace :: "string \<Rightarrow> bool" where
  "rbrace s \<longleftrightarrow> 2 \<le> length s \<and>
     (hd s = CHR ''{'' \<and> last s = CHR ''}'' \<or> hd s = CHR ''['' \<and> last s = CHR '']'')"

text \<open>
  \<open>getData\<close>, with \<open>JSON.parse\<close> as the argument \<open>json\<close>; \<open>None\<close> is an exception. Numbers that are not
  integers are outside the model of numbers and stay texts.
\<close>

definition getData :: "(string \<Rightarrow> jsval option) \<Rightarrow> string \<Rightarrow> jsval option" where
  "getData json s =
     (if s = ''true'' then Some (Bool True)
      else if s = ''false'' then Some (Bool False)
      else if s = ''null'' then Some Null
      else if s = num_str (str_to_num s) then Some (Num (str_to_num s))
      else if rbrace s then json s
      else Some (Str s))"

definition data_name :: "string \<Rightarrow> string" where
  "data_name key = ''data-'' @ rmultiDash key"

definition dataAttr :: "(string \<Rightarrow> jsval option) \<Rightarrow> string \<Rightarrow> jsval \<Rightarrow> owner \<Rightarrow> jsval \<times> owner" where
  "dataAttr json key data e =
     (if data = Undefined \<and> nodeType e = 1 then
        (case assoc (data_name key) (attributes e) of
           Some s \<Rightarrow>
             (let v = (case getData json s of Some v \<Rightarrow> v | None \<Rightarrow> Str s)
              in (v, e\<lparr>dataUser := data_set (nodeType e) key v (dataUser e)\<rparr>))
         | None \<Rightarrow> (Undefined, e))
      else (data, e))"

definition jq_hasData :: "owner \<Rightarrow> bool" where
  "jq_hasData e \<longleftrightarrow> data_hasData (dataUser e) \<or> data_hasData (dataPriv e)"

definition jq_data :: "owner \<Rightarrow> access_key \<Rightarrow> jsval \<Rightarrow> jsval \<times> owner" where
  "jq_data e name v =
     (case data_access (nodeType e) name v (dataUser e) of (r, st) \<Rightarrow> (r, e\<lparr>dataUser := st\<rparr>))"

definition jq_removeData :: "key_arg \<Rightarrow> owner \<Rightarrow> owner" where
  "jq_removeData k e = e\<lparr>dataUser := data_remove k (dataUser e)\<rparr>"

text \<open>The attributes from the last to the first; each that is data and not stored yet is stored.\<close>

definition data_attr_step :: "(string \<Rightarrow> jsval option) \<Rightarrow> string \<Rightarrow> owner \<Rightarrow> owner" where
  "data_attr_step json attr e =
     (if starts ''data-'' attr then
        (let name = camelCase (drop 5 attr);
             c = (case dataUser e of Some c \<Rightarrow> c | None \<Rightarrow> [])
         in snd (dataAttr json name (read_cache c name) e))
      else e)"

text \<open>\<open>data()\<close> on the first element: all values.\<close>

definition data_all :: "(string \<Rightarrow> jsval option) \<Rightarrow> owner \<Rightarrow> jsval \<times> owner" where
  "data_all json e =
     (case data_cache (nodeType e) (dataUser e) of
        (c, st) \<Rightarrow>
          (let e1 = e\<lparr>dataUser := st\<rparr>;
               e2 = (if nodeType e = 1 \<and> \<not> truthy (user_get ''hasDataAttrs'' (dataPriv e))
                     then (fold (data_attr_step json) (rev (map fst (attributes e))) e1)
                       \<lparr>dataPriv := data_set (nodeType e) ''hasDataAttrs'' (Bool True) (dataPriv e)\<rparr>
                     else e1)
           in (case dataUser e2 of Some c' \<Rightarrow> Obj c' | None \<Rightarrow> Obj c, e2)))"

text \<open>\<open>data( key )\<close> on the first element: the cache, then the attribute.\<close>

definition data_key :: "(string \<Rightarrow> jsval option) \<Rightarrow> string \<Rightarrow> owner \<Rightarrow> jsval \<times> owner" where
  "data_key json key e =
     (let data = user_get key (dataUser e)
      in if data \<noteq> Undefined then (data, e) else dataAttr json key Undefined e)"

text \<open>
  \<open>jQuery.fn.data\<close>: the key, the value, and whether two arguments were passed. \<open>None\<close> is the set
  itself, returned for chaining.
\<close>

definition fn_data :: "(string \<Rightarrow> jsval option) \<Rightarrow> access_key \<Rightarrow> jsval \<Rightarrow> bool \<Rightarrow> owner list \<Rightarrow> jsval option \<times> owner list" where
  "fn_data json key v two es =
     (case key of
        ANone \<Rightarrow>
          (case es of
             [] \<Rightarrow> (Some Undefined, [])
           | e # es' \<Rightarrow> (case data_all json e of (r, e') \<Rightarrow> (Some r, e' # es')))
      | AObject kvs \<Rightarrow> (None, map (\<lambda>e. e\<lparr>dataUser := data_set_all (nodeType e) kvs (dataUser e)\<rparr>) es)
      | AKey k \<Rightarrow>
          (if v \<noteq> Undefined
           then (None, map (\<lambda>e. e\<lparr>dataUser := data_set (nodeType e) k v (dataUser e)\<rparr>) es)
           else if two then (None, es)
           else (case es of
                   [] \<Rightarrow> (Some Undefined, [])
                 | e # es' \<Rightarrow> (case data_key json k e of (r, e') \<Rightarrow> (Some r, e' # es')))))"

definition fn_removeData :: "key_arg \<Rightarrow> owner list \<Rightarrow> owner list" where
  "fn_removeData k es = map (jq_removeData k) es"

section \<open>Properties of names\<close>

lemma upper_of_lower: "is_lower d \<Longrightarrow> is_upper (char_upper d) \<and> char_lower (char_upper d) = d \<and> \<not> is_lower (char_upper d)"
  by (auto simp: is_lower_def is_upper_def char_upper_def char_lower_def Let_def)

lemma rdashAlpha_Cons: "rdashAlpha (c # s) =
    (if c = CHR ''-'' \<and> s \<noteq> [] \<and> is_lower (hd s) then char_upper (hd s) # rdashAlpha (tl s) else c # rdashAlpha s)"
  by (cases s) auto

text \<open>No dash of the result is followed by a letter that would still be replaced.\<close>

lemma rdashAlpha_hd: "rdashAlpha s \<noteq> [] \<Longrightarrow> is_lower (hd (rdashAlpha s)) \<Longrightarrow> s \<noteq> [] \<and> is_lower (hd s)"
  by (cases s rule: rdashAlpha.cases) (auto simp: upper_of_lower split: if_splits)

lemma rdashAlpha_idem: "rdashAlpha (rdashAlpha s) = rdashAlpha s"
proof (induction s rule: rdashAlpha.induct)
  case (1 c d s)
  show ?case
  proof (cases "c = CHR ''-'' \<and> is_lower d")
    case True
    then have "char_upper d \<noteq> CHR ''-''" using upper_of_lower [of d] by (auto simp: is_upper_def)
    with True 1 show ?thesis by (simp add: rdashAlpha_Cons [of "char_upper d"])
  next
    case False
    then have "\<not> (c = CHR ''-'' \<and> rdashAlpha (d # s) \<noteq> [] \<and> is_lower (hd (rdashAlpha (d # s))))"
      using rdashAlpha_hd [of "d # s"] by auto
    moreover have "rdashAlpha (c # d # s) = c # rdashAlpha (d # s)" using False by auto
    ultimately show ?thesis
      using 1(2) [OF False] rdashAlpha_Cons [of c "rdashAlpha (d # s)"] by (simp only: if_False)
  qed
qed auto

lemma rdashAlpha_no_prefix: "\<not> starts ''-ms-'' (rdashAlpha s)"
proof
  assume "starts ''-ms-'' (rdashAlpha s)"
  then obtain t where t: "rdashAlpha s = CHR ''-'' # CHR ''m'' # t" by (auto simp: starts_iff)
  have "is_lower (CHR ''m'')" "char_upper (CHR ''m'') = CHR ''M''" by code_simp+
  with rdashAlpha_idem [of s] show False unfolding t by (simp add: rdashAlpha_Cons)
qed

lemma camelCase_idem [simp]: "camelCase (camelCase s) = camelCase s"
  by (simp add: camelCase_def rmsPrefix_def rdashAlpha_idem rdashAlpha_no_prefix)

text \<open>A name in lower case: no letter that \<open>toLowerCase\<close> or \<open>rmultiDash\<close> changes.\<close>

definition lower_name :: "string \<Rightarrow> bool" where
  "lower_name s \<longleftrightarrow> (\<forall>c \<in> set s. char_lower c = c) \<and> \<not> starts ''-ms-'' s"

lemma char_lower_fixed: "char_lower c = c \<Longrightarrow> \<not> is_upper c"
proof
  assume fixed: "char_lower c = c" and up: "is_upper c"
  from up have "of_char (char_lower c) = (of_char c + 32 :: nat)" by (auto simp: char_lower_def is_upper_def Let_def)
  with fixed show False by simp
qed

lemma rmultiDash_Nil [simp]: "rmultiDash [] = []"
  by (simp add: rmultiDash_def to_lower_def)

lemma rmultiDash_Cons: "rmultiDash (c # s) = (if is_upper c then [CHR ''-'', char_lower c] else [char_lower c]) @ rmultiDash s"
  by (simp add: rmultiDash_def to_lower_def char_lower_def)

lemma rmultiDash_rdashAlpha: "\<forall>c \<in> set s. char_lower c = c \<Longrightarrow> rmultiDash (rdashAlpha s) = s"
proof (induction s rule: rdashAlpha.induct)
  case (1 c d s)
  then show ?case
    using upper_of_lower [of d] char_lower_fixed [of c] by (auto simp: rmultiDash_Cons)
qed (auto simp: rmultiDash_Cons char_lower_fixed)

lemma rmultiDash_lower: "\<forall>c \<in> set s. char_lower c = c \<Longrightarrow> rmultiDash s = s"
  by (induction s) (auto simp: rmultiDash_Cons char_lower_fixed)

lemma rmultiDash_camelCase: "lower_name s \<Longrightarrow> rmultiDash (camelCase s) = s"
  by (simp add: lower_name_def camelCase_def rmsPrefix_def rmultiDash_rdashAlpha)

section \<open>The store\<close>

text \<open>
  What a store of named values promises when several spellings name the same value: a read sees the
  last write under any spelling of the name, and nothing after a removal.
\<close>

locale named_store =
  fixes get :: "'k \<Rightarrow> 's \<Rightarrow> 'v option"
    and put :: "'k \<Rightarrow> 'v \<Rightarrow> 's \<Rightarrow> 's"
    and del :: "'k \<Rightarrow> 's \<Rightarrow> 's"
    and norm :: "'k \<Rightarrow> 'n"
  assumes get_put: "get k (put k' v s) = (if norm k = norm k' then Some v else get k s)"
    and get_del: "get k (del k' s) = (if norm k = norm k' then None else get k s)"
begin

lemma get_spelling: "norm k = norm k' \<Longrightarrow> get k (put k' v s) = Some v"
  by (simp add: get_put)

lemma last_put: "norm k = norm k' \<Longrightarrow> get j (put k v (put k' w s)) = get j (put k v s)"
  by (simp add: get_put)

lemma puts_commute: "norm k \<noteq> norm k' \<Longrightarrow> get j (put k v (put k' w s)) = get j (put k' w (put k v s))"
  by (simp add: get_put)

lemma del_put: "norm k = norm k' \<Longrightarrow> get j (del k (put k' v s)) = get j (del k s)"
  by (simp add: get_put get_del)

text \<open>A read after a sequence of writes is the last write under the name, or the read before.\<close>

lemma get_puts: "get k (fold (\<lambda>(k', v). put k' v) kvs s) =
    (case find (\<lambda>(k', v). norm k = norm k') (rev kvs) of Some (_, v) \<Rightarrow> Some v | None \<Rightarrow> get k s)"
proof (induction kvs rule: rev_induct)
  case (snoc kv kvs)
  then show ?case by (cases kv) (simp add: get_put)
qed simp

end

lemma data_set_Some: "acceptData nt \<Longrightarrow> \<exists>c. data_set nt k v st = Some c"
  by (cases st) (simp_all add: data_set_def write_cache_def data_cache_def)

lemma data_get_set: "acceptData nt \<Longrightarrow> data_get k (data_set nt k' v st) = (if camelCase k = camelCase k' then Some v else data_get k st)"
  by (cases st) (simp_all add: data_get_def data_set_def write_cache_def data_cache_def)

lemma assoc_dels: "assoc k (fold assoc_del ks c) = (if k \<in> set ks then None else assoc k c)"
  by (induction ks arbitrary: c) auto

lemma data_get_remove: "data_get k (data_remove (KArray ks) st) = (if camelCase k \<in> camelCase ` set ks then None else data_get k st)"
proof (cases st)
  case (Some c)
  let ?c = "fold assoc_del (rev (map camelCase ks)) c"
  have "assoc (camelCase k) ?c = (if camelCase k \<in> camelCase ` set ks then None else assoc (camelCase k) c)"
    by (simp add: assoc_dels)
  moreover have "?c = [] \<Longrightarrow> assoc (camelCase k) ?c = None" by simp
  ultimately show ?thesis using Some by (auto simp: data_get_def data_remove_def remove_keys_def Let_def)
qed (simp add: data_get_def data_remove_def)

interpretation elem_data: named_store data_get "data_set 1" "\<lambda>k. data_remove (KArray [k])" camelCase
  by unfold_locales (simp_all add: data_get_set data_get_remove acceptData_def)

interpretation object_data: named_store data_get "data_set 0" "\<lambda>k. data_remove (KArray [k])" camelCase
  by unfold_locales (simp_all add: data_get_set data_get_remove acceptData_def)

lemma data_set_all_fold: "acceptData nt \<Longrightarrow> data_set_all nt kvs st = fold (\<lambda>(k, v). data_set nt k v) kvs (Some (fst (data_cache nt st)))"
proof -
  have "fold (\<lambda>(k, v). data_set nt k v) kvs (Some c) = Some (fold (\<lambda>(k, v). assoc_set (camelCase k) v) kvs c)" for c
    by (induction kvs arbitrary: c) (auto simp: data_set_def write_cache_def data_cache_def)
  then show "acceptData nt \<Longrightarrow> ?thesis"
    by (auto simp: data_set_all_def write_cache_def data_cache_def split: option.splits)
qed

lemma user_get_data: "data_get k st = Some v \<Longrightarrow> user_get k st = v"
  by (auto simp: user_get_def data_get_def read_cache_def split: option.splits)

lemma user_get_set: "acceptData nt \<Longrightarrow> camelCase k = camelCase k' \<Longrightarrow> user_get k (data_set nt k' v st) = v"
  by (simp add: user_get_data data_get_set)

section \<open>Properties\<close>

text \<open>
  What \<open>.data( key, value )\<close> stores on an element, a document or an object is what \<open>.data\<close> then
  reads under every spelling of the key; other keys keep their values; after \<open>removeData\<close> of any
  spelling the key is gone and every other key keeps its value.
\<close>

theorem data_roundtrip:
  assumes "acceptData (nodeType e)" "v \<noteq> Undefined"
    and "fn_data json (AKey k) v two (e # es) = (r, e' # es')"
  shows "(camelCase k' = camelCase k \<longrightarrow> fn_data json (AKey k') Undefined False (e' # es') = (Some v, e' # es'))
    \<and> (camelCase k' \<noteq> camelCase k \<longrightarrow> data_get k' (dataUser e') = data_get k' (dataUser e))
    \<and> (camelCase k'' = camelCase k \<longrightarrow> fn_removeData (KArray [k'']) (e' # es') = f # fs \<longrightarrow>
           data_get k' (dataUser f) = (if camelCase k' = camelCase k then None else data_get k' (dataUser e)))"
proof -
  have e': "e' = e\<lparr>dataUser := data_set (nodeType e) k v (dataUser e)\<rparr>" using assms by (simp add: fn_data_def)
  have "camelCase k' = camelCase k \<Longrightarrow> fn_data json (AKey k') Undefined False (e' # es') = (Some v, e' # es')"
    using assms(1,2) by (simp add: e' fn_data_def data_key_def user_get_set Let_def)
  moreover have "camelCase k' \<noteq> camelCase k \<Longrightarrow> data_get k' (dataUser e') = data_get k' (dataUser e)"
    using assms(1) by (simp add: e' data_get_set)
  moreover have "camelCase k'' = camelCase k \<Longrightarrow> fn_removeData (KArray [k'']) (e' # es') = f # fs \<Longrightarrow>
      data_get k' (dataUser f) = (if camelCase k' = camelCase k then None else data_get k' (dataUser e))"
    using assms(1) by (auto simp: e' fn_removeData_def jq_removeData_def data_get_remove data_get_set)
  ultimately show ?thesis by blast
qed

text \<open>
  An attribute \<open>data-s\<close> with a name in lower case is read under both spellings of the key, the
  dashed one and the camel-cased one, when nothing is stored; and it is read once: the converted
  value is stored and no later change of the attributes changes what \<open>.data\<close> returns.
\<close>

theorem data_attribute_once:
  assumes "lower_name s" "nodeType e = 1" "assoc (''data-'' @ s) (attributes e) = Some t"
    and "user_get s (dataUser e) = Undefined" "k = s \<or> k = camelCase s"
    and "v = (case getData json t of Some x \<Rightarrow> x | None \<Rightarrow> Str t)" "v \<noteq> Undefined"
    and "fn_data json (AKey k) Undefined False (e # es) = (r, e' # es')"
    and "camelCase k' = camelCase s"
  shows "r = Some v
    \<and> fn_data json (AKey k') Undefined False (e'\<lparr>attributes := as\<rparr> # es') = (Some v, e'\<lparr>attributes := as\<rparr> # es')"
proof -
  have "rmultiDash k = s"
    using assms(1,5) rmultiDash_camelCase [of s] rmultiDash_lower [of s] by (auto simp: lower_name_def)
  moreover have ck: "camelCase k = camelCase s" using assms(5) by auto
  moreover have "user_get k (dataUser e) = Undefined" using assms(4) unfolding user_get_def ck .
  ultimately have run: "r = Some v \<and> e' = e\<lparr>dataUser := data_set 1 k v (dataUser e)\<rparr>"
    using assms(2,3,6,8) by (auto simp: fn_data_def data_key_def dataAttr_def data_name_def Let_def)
  have "user_get k' (dataUser e') = v" using run ck assms(9) by (simp add: user_get_set acceptData_def)
  then show ?thesis
    using assms(7) run by (simp add: fn_data_def data_key_def Let_def)
qed

definition sample_elem :: owner where
  "sample_elem = \<lparr>nodeType = 1, attributes = [(''id'', ''x''), (''data-max-size'', ''12'')], dataUser = None, dataPriv = None\<rparr>"

theorem data_roundtrip_witness:
  "fn_data (\<lambda>_. None) (AKey ''maxSize'') Undefined False [sample_elem\<lparr>dataUser := Some [(''maxSize'', Num (Fin 5))]\<rparr>]
     = (Some (Num (Fin 5)), [sample_elem\<lparr>dataUser := Some [(''maxSize'', Num (Fin 5))]\<rparr>])"
proof (rule mp [OF conjunct1 [OF data_roundtrip [where k = "''max-size''" and e = sample_elem and es = "[]" and two = True and r = None]]])
  show "fn_data (\<lambda>_. None) (AKey ''max-size'') (Num (Fin 5)) True [sample_elem]
      = (None, [sample_elem\<lparr>dataUser := Some [(''maxSize'', Num (Fin 5))]\<rparr>])"
    by code_simp
qed code_simp+

theorem data_attribute_once_witness:
  "fn_data (\<lambda>_. None) (AKey ''max-size'') Undefined False
       [sample_elem\<lparr>dataUser := Some [(''maxSize'', Num (Fin 12))], attributes := []\<rparr>]
     = (Some (Num (Fin 12)), [sample_elem\<lparr>dataUser := Some [(''maxSize'', Num (Fin 12))], attributes := []\<rparr>])"
proof (rule conjunct2 [OF data_attribute_once [where s = "''max-size''" and e = sample_elem and t = "''12''" and k = "''maxSize''" and es = "[]"
      and r = "Some (Num (Fin 12))" and e' = "sample_elem\<lparr>dataUser := Some [(''maxSize'', Num (Fin 12))]\<rparr>"]])
  show "fn_data (\<lambda>_. None) (AKey ''maxSize'') Undefined False [sample_elem]
      = (Some (Num (Fin 12)), [sample_elem\<lparr>dataUser := Some [(''maxSize'', Num (Fin 12))]\<rparr>])"
    by code_simp
qed code_simp+

text \<open>
  Once an element has a data cache, the names of \<open>Object.prototype\<close> read as data that nobody
  stored: \<open>.data( "constructor" )\<close> returns the inherited function, and an attribute
  \<open>data-constructor\<close> is never looked at.
\<close>

theorem data_inherited_names:
  "k \<in> set object_proto \<Longrightarrow> camelCase k = k \<Longrightarrow> dataUser e = Some c \<Longrightarrow> assoc k c = None \<Longrightarrow>
     fn_data json (AKey k) Undefined False (e # es) = (Some (Fn (NativeFn k)), e # es)"
  by (auto simp: fn_data_def data_key_def user_get_def read_cache_def inherited_def Let_def object_proto_def)

theorem data_inherited_names_witness:
  "fn_data (\<lambda>_. None) (AKey ''constructor'') Undefined False [sample_elem\<lparr>dataUser := Some [], attributes := [(''data-constructor'', ''x'')]\<rparr>]
     = (Some (Fn (NativeFn ''constructor'')), [sample_elem\<lparr>dataUser := Some [], attributes := [(''data-constructor'', ''x'')]\<rparr>])"
  by (rule data_inherited_names [where c = "[]"]) code_simp+

end
