(* ===== verification/JQ_Queue.thy ===== *)
theory JQ_Queue
  imports JQ_Data
begin

text \<open>
  Queues of functions on elements: \<open>queue\<close>, \<open>dequeue\<close>, \<open>clearQueue\<close> and the promise for emptied queues.
  The queue and its hooks are private data of the element. What a queued function does is a
  parameter: the queue operations it performs before it returns. The hook list \<open>empty\<close> is a callback
  list with the options \<open>once memory\<close> whose first callback removes the data; the callbacks after it
  are those of promises.
\<close>

section \<open>State\<close>

datatype qentry = InProgress | Fun nat

record hooks =
  stop_hook :: "nat option"
  empty_subs :: "nat list"    \<comment> \<open>the promises that wait\<close>

datatype priv = PQueue "qentry list" | PHooks hooks

text \<open>What is observed: functions queued and called, queues replaced or removed, promises resolved.\<close>

datatype qevent = Queued nat string nat | Called nat string nat | Replaced nat string "nat list" | Resolved nat

record qworld =
  privates :: "nat \<Rightarrow> priv store"
  waiting :: "nat \<Rightarrow> int"     \<comment> \<open>the variable \<open>count\<close> of every promise\<close>
  qlog :: "qevent list"

datatype qdata = DNone | DFun nat | DArray "nat list"

definition queue_key :: "string \<Rightarrow> string" where
  "queue_key type = camelCase (type @ ''queue'')"

definition hooks_key :: "string \<Rightarrow> string" where
  "hooks_key type = camelCase (type @ ''queueHooks'')"

definition type_or_fx :: "string \<Rightarrow> string" where
  "type_or_fx type = (if type = [] then ''fx'' else type)"

definition stored_queue :: "priv store \<Rightarrow> string \<Rightarrow> qentry list option" where
  "stored_queue st type = (case data_get (type @ ''queue'') st of Some (PQueue q) \<Rightarrow> Some q | _ \<Rightarrow> None)"

definition stored_hooks :: "priv store \<Rightarrow> string \<Rightarrow> hooks option" where
  "stored_hooks st type = (case data_get (type @ ''queueHooks'') st of Some (PHooks h) \<Rightarrow> Some h | _ \<Rightarrow> None)"

definition store_queue :: "nat \<Rightarrow> string \<Rightarrow> qentry list \<Rightarrow> qworld \<Rightarrow> qworld" where
  "store_queue e type q w = w\<lparr>privates := (privates w)(e := data_set 1 (type @ ''queue'') (PQueue q) (privates w e))\<rparr>"

definition store_hooks :: "nat \<Rightarrow> string \<Rightarrow> hooks \<Rightarrow> qworld \<Rightarrow> qworld" where
  "store_hooks e type h w = w\<lparr>privates := (privates w)(e := data_set 1 (type @ ''queueHooks'') (PHooks h) (privates w e))\<rparr>"

definition observe :: "qevent list \<Rightarrow> qworld \<Rightarrow> qworld" where
  "observe evs w = w\<lparr>qlog := qlog w @ evs\<rparr>"

section \<open>Operations\<close>

text \<open>\<open>jQuery.queue\<close>: the queue, and the world after the data has been added.\<close>

definition jq_queue :: "nat \<Rightarrow> string \<Rightarrow> qdata \<Rightarrow> qworld \<Rightarrow> qentry list \<times> qworld" where
  "jq_queue e type data w =
     (let t = type_or_fx type; queue = stored_queue (privates w e) t
      in case data of
           DNone \<Rightarrow> (case queue of Some q \<Rightarrow> q | None \<Rightarrow> [], w)
         | DArray fs \<Rightarrow> (map Fun fs, observe [Replaced e (queue_key t) fs] (store_queue e t (map Fun fs) w))
         | DFun f \<Rightarrow>
             (let q = (case queue of Some q \<Rightarrow> q | None \<Rightarrow> []) @ [Fun f]
              in (q, observe [Queued e (queue_key t) f] (store_queue e t q w))))"

text \<open>\<open>jQuery._queueHooks\<close>\<close>

definition queueHooks :: "nat \<Rightarrow> string \<Rightarrow> qworld \<Rightarrow> hooks \<times> qworld" where
  "queueHooks e type w =
     (case stored_hooks (privates w e) type of
        Some h \<Rightarrow> (h, w)
      | None \<Rightarrow> (let h = \<lparr>stop_hook = None, empty_subs = []\<rparr> in (h, store_hooks e type h w)))"

text \<open>\<open>resolve\<close> of a promise.\<close>

definition resolve_one :: "nat \<Rightarrow> qworld \<Rightarrow> qworld" where
  "resolve_one p w =
     (let n = waiting w p - 1; w1 = w\<lparr>waiting := (waiting w)(p := n)\<rparr>
      in if n = 0 then observe [Resolved p] w1 else w1)"

text \<open>\<open>hooks.empty.fire()\<close>: the data of the queue is removed, then the promises are told.\<close>

definition fire_empty :: "nat \<Rightarrow> string \<Rightarrow> hooks \<Rightarrow> qworld \<Rightarrow> qworld" where
  "fire_empty e type h w =
     fold resolve_one (empty_subs h)
       (observe [Replaced e (queue_key type) []]
         (w\<lparr>privates := (privates w)(e := data_remove (KArray [type @ ''queue'', type @ ''queueHooks'']) (privates w e))\<rparr>))"

text \<open>
  \<open>jQuery.dequeue\<close> up to the call of the function, which it returns. Nothing follows the call: the
  hooks are fired only when there was no function to call. A second sentinel is never there: the
  sentinel is only ever put in front of functions (lemma \<open>qstep_inv\<close>).
\<close>

definition dequeue :: "nat \<Rightarrow> string \<Rightarrow> qworld \<Rightarrow> nat option \<times> qworld" where
  "dequeue e type w =
     (let t = type_or_fx type;
          queue = fst (jq_queue e t DNone w);
          queue1 = (case queue of InProgress # q \<Rightarrow> q | _ \<Rightarrow> queue);
          (h, w1) = queueHooks e t w
      in case queue1 of
           Fun f # q \<Rightarrow>
             (Some f,
              observe [Called e (queue_key t) f]
                (store_hooks e t (h\<lparr>stop_hook := None\<rparr>)
                  (store_queue e t (if t = ''fx'' then InProgress # q else q) w1)))
         | InProgress # q \<Rightarrow> (None, store_queue e t q w1)
         | [] \<Rightarrow> (None, fire_empty e t h (if queue \<noteq> [] then store_queue e t [] w1 else w1)))"

text \<open>The methods of a matched set, and the assignment of \<open>hooks.stop\<close> a function may do.\<close>

datatype qcmd = CQueue "nat list" string qdata | CDequeue "nat list" string | CPromise "nat list" string nat | CStop nat string nat

definition clearQueue :: "nat list \<Rightarrow> string \<Rightarrow> qcmd" where
  "clearQueue es type = CQueue es (type_or_fx type) (DArray [])"

text \<open>The promise: one resolution for every element that has hooks, and one of its own.\<close>

definition subscribe :: "string \<Rightarrow> nat \<Rightarrow> nat \<Rightarrow> qworld \<Rightarrow> qworld" where
  "subscribe type p e w =
     (case stored_hooks (privates w e) type of
        None \<Rightarrow> w
      | Some h \<Rightarrow>
          (store_hooks e type (h\<lparr>empty_subs := empty_subs h @ [p]\<rparr>) w)\<lparr>waiting := (waiting w)(p := waiting w p + 1)\<rparr>)"

definition promise :: "nat list \<Rightarrow> string \<Rightarrow> nat \<Rightarrow> qworld \<Rightarrow> qworld" where
  "promise es type p w =
     resolve_one p (fold (subscribe (type_or_fx type) p) (rev es) (w\<lparr>waiting := (waiting w)(p := 1)\<rparr>))"

text \<open>One step of a script; \<open>act e f\<close> is what function \<open>f\<close> does when it is called for element \<open>e\<close>.\<close>

fun qstep :: "(nat \<Rightarrow> nat \<Rightarrow> qcmd list) \<Rightarrow> qcmd list \<times> qworld \<Rightarrow> qcmd list \<times> qworld" where
  "qstep act ([], w) = ([], w)"
| "qstep act (CQueue [] type d # cs, w) = (cs, w)"
| "qstep act (CQueue (e # es) type d # cs, w) =
     (if d = DNone then (cs, w)
      else let (q, w1) = jq_queue e type d w;
               w2 = snd (queueHooks e type w1);
               rest = CQueue es type d # cs
           in if type = ''fx'' \<and> (q = [] \<or> hd q \<noteq> InProgress) then (CDequeue [e] type # rest, w2) else (rest, w2))"
| "qstep act (CDequeue [] type # cs, w) = (cs, w)"
| "qstep act (CDequeue (e # es) type # cs, w) =
     (case dequeue e type w of
        (None, w1) \<Rightarrow> (CDequeue es type # cs, w1)
      | (Some f, w1) \<Rightarrow> (act e f @ CDequeue es type # cs, w1))"
| "qstep act (CPromise es type p # cs, w) = (cs, promise es type p w)"
| "qstep act (CStop e type g # cs, w) =
     (cs, case stored_hooks (privates w e) type of
            Some h \<Rightarrow> store_hooks e type (h\<lparr>stop_hook := Some g\<rparr>) w
          | None \<Rightarrow> w)"

definition qrun :: "(nat \<Rightarrow> nat \<Rightarrow> qcmd list) \<Rightarrow> nat \<Rightarrow> qcmd list \<times> qworld \<Rightarrow> qcmd list \<times> qworld" where
  "qrun act n s = (qstep act ^^ n) s"

definition no_queues :: qworld where
  "no_queues = \<lparr>privates = (\<lambda>_. None), waiting = (\<lambda>_. 0), qlog = []\<rparr>"

section \<open>The queue as a first-in first-out buffer\<close>

text \<open>
  The abstract queue of one element and one key: what is waiting after the events of a log, \<open>None\<close>
  when a function was called that was not the first in the queue.
\<close>

fun fifo_step :: "nat \<Rightarrow> string \<Rightarrow> qevent \<Rightarrow> nat list option \<Rightarrow> nat list option" where
  "fifo_step e k (Queued e' k' f) q = (if e = e' \<and> k = k' then map_option (\<lambda>q. q @ [f]) q else q)"
| "fifo_step e k (Called e' k' f) q =
     (if e = e' \<and> k = k' then (case q of Some (g # q') \<Rightarrow> if f = g then Some q' else None | _ \<Rightarrow> None) else q)"
| "fifo_step e k (Replaced e' k' es) q =
     (if e = e' \<and> k = k' then map_option (\<lambda>_. es) q else q)"
| "fifo_step e k (Resolved p) q = q"

definition fifo :: "nat \<Rightarrow> string \<Rightarrow> qevent list \<Rightarrow> nat list option" where
  "fifo e k evs = fold (fifo_step e k) evs (Some [])"

text \<open>The functions of a queue, and the invariant: a sentinel can only be the first entry.\<close>

fun funs_of :: "qentry list \<Rightarrow> nat list" where
  "funs_of [] = []"
| "funs_of (Fun f # q) = f # funs_of q"
| "funs_of (InProgress # q) = funs_of q"

definition well_queued :: "qentry list \<Rightarrow> bool" where
  "well_queued q \<longleftrightarrow> (\<exists>fs. q = map Fun fs \<or> q = InProgress # map Fun fs)"

definition waiting_queue :: "qworld \<Rightarrow> nat \<Rightarrow> string \<Rightarrow> qentry list" where
  "waiting_queue w e t = (case stored_queue (privates w e) t of Some q \<Rightarrow> q | None \<Rightarrow> [])"

definition fifo_inv :: "qworld \<Rightarrow> bool" where
  "fifo_inv w \<longleftrightarrow> (\<forall>e t. well_queued (waiting_queue w e t)
     \<and> fifo e (queue_key t) (qlog w) = Some (funs_of (waiting_queue w e t)))"

lemma funs_of_append [simp]: "funs_of (p @ q) = funs_of p @ funs_of q"
  by (induction p rule: funs_of.induct) auto

lemma funs_of_map [simp]: "funs_of (map Fun fs) = fs"
  by (induction fs) auto

lemma well_queued_simps [simp]:
  "well_queued []" "well_queued (map Fun fs)" "well_queued (Fun f # q) \<longleftrightarrow> (\<exists>fs. q = map Fun fs)"
  "well_queued (InProgress # q) \<longleftrightarrow> (\<exists>fs. q = map Fun fs)"
  by (auto simp: well_queued_def Cons_eq_map_conv)

lemma well_queued_snoc: "well_queued q \<Longrightarrow> well_queued (q @ [Fun f])"
proof -
  assume "well_queued q"
  then obtain fs where "q = map Fun fs \<or> q = InProgress # map Fun fs" by (auto simp: well_queued_def)
  then have "q @ [Fun f] = map Fun (fs @ [f]) \<or> q @ [Fun f] = InProgress # map Fun (fs @ [f])" by auto
  then show ?thesis unfolding well_queued_def by blast
qed

lemma fifo_snoc: "fifo e k (evs @ [ev]) = fifo_step e k ev (fifo e k evs)"
  by (simp add: fifo_def)

text \<open>The keys of queues and of hooks never coincide: they end in different letters.\<close>

lemma rdashAlpha_snoc: "a \<noteq> CHR ''-'' \<Longrightarrow> rdashAlpha (s @ [a, b]) = rdashAlpha (s @ [a]) @ [b]"
  by (induction s rule: rdashAlpha.induct) (auto simp: rdashAlpha_Cons)

lemma camelCase_last: "a \<noteq> CHR ''-'' \<Longrightarrow> s \<noteq> [] \<Longrightarrow> last (camelCase (s @ [a, b])) = b"
proof -
  assume a: "a \<noteq> CHR ''-''" and s: "s \<noteq> []"
  have "\<exists>s'. rmsPrefix (s @ [a, b]) = s' @ [a, b]" using s by (cases s) (auto simp: rmsPrefix_def)
  then show ?thesis using a by (auto simp: camelCase_def rdashAlpha_snoc)
qed

lemma keys_differ [simp]: "camelCase (t @ ''queue'') \<noteq> camelCase (t' @ ''queueHooks'')"
proof -
  have "last (camelCase ((t @ ''que'') @ ''ue'')) = CHR ''e''" 
    by (rule camelCase_last) simp_all
  moreover have "last (camelCase ((t' @ ''queueHoo'') @ ''ks'')) = CHR ''s''" 
    by (rule camelCase_last) simp_all
  ultimately show ?thesis by auto
qed

lemmas elem_laws = elem_data.get_put [unfolded One_nat_def] elem_data.get_put

lemma waiting_store_queue [simp]: "waiting_queue (store_queue e t q w) e' t' =
    (if e = e' \<and> queue_key t = queue_key t' then q else waiting_queue w e' t')"
  by (auto simp: waiting_queue_def stored_queue_def store_queue_def queue_key_def elem_laws)

lemma waiting_store_hooks [simp]: "waiting_queue (store_hooks e t h w) e' t' = waiting_queue w e' t'"
  by (auto simp: waiting_queue_def stored_queue_def store_hooks_def elem_laws)

lemma waiting_removed: "waiting_queue (w\<lparr>privates := (privates w)(e := data_remove (KArray [t @ ''queue'', t @ ''queueHooks'']) (privates w e))\<rparr>) e' t'
    = (if e = e' \<and> queue_key t = queue_key t' then [] else waiting_queue w e' t')"
  by (auto simp: waiting_queue_def stored_queue_def queue_key_def data_get_remove)

lemma waiting_rest [simp]:
  "waiting_queue (observe evs w) e t = waiting_queue w e t" "waiting_queue (waiting_update f w) e t = waiting_queue w e t"
  by (simp_all add: waiting_queue_def observe_def)

lemma qlog_simps [simp]:
  "qlog (observe evs w) = qlog w @ evs" "qlog (store_queue e t q w) = qlog w" "qlog (store_hooks e t h w) = qlog w"
  by (simp_all add: observe_def store_queue_def store_hooks_def)

text \<open>What keeps the invariant: changes of hooks and counters, and the four ways a queue changes.\<close>

named_theorems fifo_intros \<open>operations that keep the queues in order\<close>

lemma inv_hooks [fifo_intros]: "fifo_inv w \<Longrightarrow> fifo_inv (store_hooks e t h w)"
  by (simp add: fifo_inv_def)

lemma inv_waiting [fifo_intros]: "fifo_inv w \<Longrightarrow> fifo_inv (waiting_update f w)"
  by (simp add: fifo_inv_def)

lemma inv_resolved [fifo_intros]: "fifo_inv w \<Longrightarrow> fifo_inv (observe [Resolved p] w)"
  by (simp add: fifo_inv_def fifo_snoc)

lemma inv_queued [fifo_intros]: "fifo_inv w \<Longrightarrow> fifo_inv (observe [Queued e (queue_key t) f] (store_queue e t (waiting_queue w e t @ [Fun f]) w))"
  unfolding fifo_inv_def
proof (intro allI)
  fix e' t'
  assume inv: "\<forall>e t. well_queued (waiting_queue w e t) \<and> fifo e (queue_key t) (qlog w) = Some (funs_of (waiting_queue w e t))"
  have "well_queued (waiting_queue w e t)" "fifo e (queue_key t) (qlog w) = Some (funs_of (waiting_queue w e t))"
    "well_queued (waiting_queue w e' t')" "fifo e' (queue_key t') (qlog w) = Some (funs_of (waiting_queue w e' t'))"
    using inv by blast+
  then show "well_queued (waiting_queue (observe [Queued e (queue_key t) f] (store_queue e t (waiting_queue w e t @ [Fun f]) w)) e' t')
      \<and> fifo e' (queue_key t') (qlog (observe [Queued e (queue_key t) f] (store_queue e t (waiting_queue w e t @ [Fun f]) w)))
        = Some (funs_of (waiting_queue (observe [Queued e (queue_key t) f] (store_queue e t (waiting_queue w e t @ [Fun f]) w)) e' t'))"
    by (auto simp: fifo_snoc well_queued_snoc)
qed

lemma inv_replaced [fifo_intros]: "fifo_inv w \<Longrightarrow> fifo_inv (observe [Replaced e (queue_key t) fs] (store_queue e t (map Fun fs) w))"
  by (simp add: fifo_inv_def fifo_snoc)

lemma inv_removed [fifo_intros]: "fifo_inv w \<Longrightarrow> fifo_inv (observe [Replaced e (queue_key t) []]
    (w\<lparr>privates := (privates w)(e := data_remove (KArray [t @ ''queue'', t @ ''queueHooks'']) (privates w e))\<rparr>))"
  by (simp add: fifo_inv_def fifo_snoc waiting_removed)

lemma inv_called [fifo_intros]:
  assumes "fifo_inv w" "funs_of (waiting_queue w e t) = f # funs_of q" "well_queued q"
  shows "fifo_inv (observe [Called e (queue_key t) f] (store_queue e t q w))"
  unfolding fifo_inv_def
proof (intro allI)
  fix e' t'
  have "fifo e (queue_key t) (qlog w) = Some (f # funs_of q)"
    "well_queued (waiting_queue w e' t')" "fifo e' (queue_key t') (qlog w) = Some (funs_of (waiting_queue w e' t'))"
    using assms unfolding fifo_inv_def by metis+
  then show "well_queued (waiting_queue (observe [Called e (queue_key t) f] (store_queue e t q w)) e' t')
      \<and> fifo e' (queue_key t') (qlog (observe [Called e (queue_key t) f] (store_queue e t q w)))
        = Some (funs_of (waiting_queue (observe [Called e (queue_key t) f] (store_queue e t q w)) e' t'))"
    using assms(3) by (auto simp: fifo_snoc)
qed

text \<open>A queue that loses its sentinel, or becomes empty, has the same functions.\<close>

lemma fifo_inv_same [fifo_intros]:
  "fifo_inv w \<Longrightarrow> funs_of (waiting_queue w e t) = funs_of q \<Longrightarrow> well_queued q \<Longrightarrow> fifo_inv (store_queue e t q w)"
  unfolding fifo_inv_def by (metis waiting_store_queue qlog_simps(2))

lemma inv_queueHooks: "fifo_inv w \<Longrightarrow> fifo_inv (snd (queueHooks e t w))"
  by (auto simp: queueHooks_def Let_def inv_hooks split: option.splits)

lemma waiting_queueHooks [simp]: "waiting_queue (snd (queueHooks e t w)) e' t' = waiting_queue w e' t'"
  by (auto simp: queueHooks_def Let_def split: option.splits)

lemma inv_jq_queue: "fifo_inv w \<Longrightarrow> fifo_inv (snd (jq_queue e t d w))"
  using inv_queued [of w e "type_or_fx t"] inv_replaced [of w e "type_or_fx t"]
  by (auto simp: jq_queue_def Let_def waiting_queue_def split: qdata.splits)

lemma inv_resolve_one: "fifo_inv w \<Longrightarrow> fifo_inv (resolve_one p w)"
  by (auto simp: resolve_one_def Let_def intro: fifo_intros)

lemma inv_fold: "(\<And>x w. fifo_inv w \<Longrightarrow> fifo_inv (f x w)) \<Longrightarrow> fifo_inv w \<Longrightarrow> fifo_inv (fold f xs w)"
  by (induction xs arbitrary: w) auto

lemma inv_fire_empty: "fifo_inv w \<Longrightarrow> fifo_inv (fire_empty e t h w)"
  unfolding fire_empty_def by (intro inv_fold inv_resolve_one inv_removed)

lemma inv_subscribe: "fifo_inv w \<Longrightarrow> fifo_inv (subscribe t p e w)"
  by (auto simp: subscribe_def intro: fifo_intros split: option.splits)

lemma inv_promise: "fifo_inv w \<Longrightarrow> fifo_inv (promise es t p w)"
  unfolding promise_def by (intro inv_fold inv_resolve_one inv_waiting inv_subscribe)

lemma fst_jq_queue: "fst (jq_queue e t DNone w) = waiting_queue w e (type_or_fx t)"
  by (simp add: jq_queue_def Let_def waiting_queue_def)

lemma type_or_fx_idem [simp]: "type_or_fx (type_or_fx t) = type_or_fx t" "type_or_fx ''fx'' = ''fx''"
  by (simp_all add: type_or_fx_def)

text \<open>The branches of \<open>dequeue\<close>: with a function to call, and without.\<close>

lemma dequeue_cases:
  assumes "well_queued (waiting_queue w e (type_or_fx t))"
  obtains (call) f fs h w1 where "queueHooks e (type_or_fx t) w = (h, w1)" "funs_of (waiting_queue w e (type_or_fx t)) = f # fs"
      "dequeue e t w = (Some f, observe [Called e (queue_key (type_or_fx t)) f]
         (store_hooks e (type_or_fx t) (h\<lparr>stop_hook := None\<rparr>)
           (store_queue e (type_or_fx t) (if type_or_fx t = ''fx'' then InProgress # map Fun fs else map Fun fs) w1)))"
    | (empty) h w1 where "queueHooks e (type_or_fx t) w = (h, w1)" "funs_of (waiting_queue w e (type_or_fx t)) = []"
      "dequeue e t w = (None, fire_empty e (type_or_fx t) h
         (if waiting_queue w e (type_or_fx t) \<noteq> [] then store_queue e (type_or_fx t) [] w1 else w1))"
proof -
  obtain h w1 where h: "queueHooks e (type_or_fx t) w = (h, w1)" by fastforce
  obtain fs where q: "waiting_queue w e (type_or_fx t) = map Fun fs \<or> waiting_queue w e (type_or_fx t) = InProgress # map Fun fs"
    using assms by (auto simp: well_queued_def)
  show thesis
  proof (cases fs)
    case Nil
    then show thesis using q h by (intro empty) (auto simp: dequeue_def Let_def fst_jq_queue)
  next
    case (Cons f fs')
    then show thesis using q h by (intro call) (auto simp: dequeue_def Let_def fst_jq_queue)
  qed
qed

lemma store_swap: "observe evs (store_hooks e t h (store_queue e t q w)) = store_hooks e t h (observe evs (store_queue e t q w))"
  by (simp add: observe_def store_hooks_def store_queue_def)

lemma inv_dequeue: assumes "fifo_inv w" shows "fifo_inv (snd (dequeue e t w))"
proof -
  let ?t = "type_or_fx t"
  have "well_queued (waiting_queue w e ?t)" using assms by (simp add: fifo_inv_def)
  then show ?thesis
  proof (cases rule: dequeue_cases)
    case (call f fs h w1)
    then have "fifo_inv w1" "waiting_queue w1 e ?t = waiting_queue w e ?t"
      using inv_queueHooks [OF assms, of e ?t] waiting_queueHooks [of e ?t w e ?t] by simp_all
    with call show ?thesis by (auto simp: store_swap intro!: fifo_intros)
  next
    case (empty h w1)
    then have "fifo_inv w1" "waiting_queue w1 e ?t = waiting_queue w e ?t"
      using inv_queueHooks [OF assms, of e ?t] waiting_queueHooks [of e ?t w e ?t] by simp_all
    with empty show ?thesis by (auto intro!: inv_fire_empty fifo_intros)
  qed
qed

lemma qstep_inv: "fifo_inv (snd s) \<Longrightarrow> fifo_inv (snd (qstep act s))"
proof (induction act s rule: qstep.induct)
  case (3 act e es type d cs w)
  then show ?case
    using inv_queueHooks [OF inv_jq_queue [of w e type d], of e type] by (auto simp: Let_def split: prod.splits)
next
  case (5 act e es type cs w)
  then show ?case using inv_dequeue [of w e type] by (auto split: prod.splits option.splits)
qed (auto intro: fifo_intros inv_promise split: option.splits)

lemma qrun_inv: "fifo_inv (snd s) \<Longrightarrow> fifo_inv (snd (qrun act n s))"
  unfolding qrun_def by (induction n) (simp_all add: qstep_inv)

lemma no_queues_inv: "fifo_inv no_queues"
  by (simp add: fifo_inv_def no_queues_def waiting_queue_def stored_queue_def data_get_def fifo_def)

text \<open>
  C6. However scripts and the queued functions themselves queue, dequeue and clear, every queue is a
  first-in first-out buffer: the functions called are exactly the first ones waiting at the time of
  the call, what waits is what was queued since and not called, and the sentinel \<open>inprogress\<close> is
  nowhere but in front.
\<close>

theorem queue_is_fifo:
  assumes "qrun act n (script, no_queues) = (todo, w)"
  shows "fifo e (queue_key t) (qlog w) = Some (funs_of (waiting_queue w e t)) \<and> well_queued (waiting_queue w e t)"
  using qrun_inv [of "(script, no_queues)" act n] no_queues_inv assms by (simp add: fifo_inv_def)

text \<open>A function that queues another one and goes on to it at once.\<close>

definition nested_act :: "nat \<Rightarrow> nat \<Rightarrow> qcmd list" where
  "nested_act e f = (if f = 1 then [CQueue [e] ''fx'' (DFun 3), CDequeue [e] ''fx''] else [])"

definition nested_world :: qworld where
  "nested_world = snd (qrun nested_act 12 ([CQueue [0] ''fx'' (DFun 1), CQueue [0] ''fx'' (DFun 2)], no_queues))"

theorem queue_is_fifo_witness:
  "fifo 0 (queue_key ''fx'') (qlog nested_world) = Some [2]
   \<and> qlog nested_world = [Queued 0 ''fxqueue'' 1, Called 0 ''fxqueue'' 1, Queued 0 ''fxqueue'' 3, Called 0 ''fxqueue'' 3, Queued 0 ''fxqueue'' 2]"
proof -
  have "qrun nested_act 12 ([CQueue [0] ''fx'' (DFun 1), CQueue [0] ''fx'' (DFun 2)], no_queues)
      = (fst (qrun nested_act 12 ([CQueue [0] ''fx'' (DFun 1), CQueue [0] ''fx'' (DFun 2)], no_queues)), nested_world)"
    by (simp add: nested_world_def)
  from queue_is_fifo [OF this, of 0 "''fx''"]
  have "fifo 0 (queue_key ''fx'') (qlog nested_world) = Some (funs_of (waiting_queue nested_world 0 ''fx''))" ..
  moreover have "funs_of (waiting_queue nested_world 0 ''fx'') = [2]" by code_simp
  moreover have "qlog nested_world = [Queued 0 ''fxqueue'' 1, Called 0 ''fxqueue'' 1, Queued 0 ''fxqueue'' 3, Called 0 ''fxqueue'' 3, Queued 0 ''fxqueue'' 2]"
    by code_simp
  ultimately show ?thesis by simp
qed

section \<open>Draining a queue\<close>

lemma stored_hooks_frame [simp]:
  "stored_hooks (privates (store_queue e t q w) e') t' = stored_hooks (privates w e') t'"
  "stored_hooks (privates (observe evs w) e') t' = stored_hooks (privates w e') t'"
  "stored_hooks (privates (store_hooks e t h w) e') t' =
     (if e = e' \<and> hooks_key t = hooks_key t' then Some h else stored_hooks (privates w e') t')"
  by (auto simp: stored_hooks_def store_queue_def store_hooks_def observe_def hooks_key_def elem_laws keys_differ [symmetric])

lemma waiting_frame [simp]:
  "waiting (store_queue e t q w) = waiting w" "waiting (store_hooks e t h w) = waiting w" "waiting (observe evs w) = waiting w"
  by (simp_all add: store_queue_def store_hooks_def observe_def)

text \<open>A queue that waits: its functions and the promises that wait for its end.\<close>

definition subs_of :: "qworld \<Rightarrow> nat \<Rightarrow> string \<Rightarrow> nat list" where
  "subs_of w e t = (case stored_hooks (privates w e) t of Some h \<Rightarrow> empty_subs h | None \<Rightarrow> [])"

definition queue_ready :: "nat \<Rightarrow> string \<Rightarrow> nat list \<Rightarrow> nat list \<Rightarrow> qworld \<Rightarrow> bool" where
  "queue_ready e t fs ps w \<longleftrightarrow>
     well_queued (waiting_queue w e t) \<and> funs_of (waiting_queue w e t) = fs \<and> subs_of w e t = ps"

lemma queueHooks_subs: "queueHooks e t w = (h, w1) \<Longrightarrow> empty_subs h = subs_of w e t \<and> subs_of w1 e t = subs_of w e t
    \<and> waiting w1 = waiting w \<and> qlog w1 = qlog w"
  by (auto simp: queueHooks_def subs_of_def Let_def split: option.splits)

lemma subs_of_frame [simp]:
  "subs_of (store_queue e t q w) e' t' = subs_of w e' t'" "subs_of (observe evs w) e' t' = subs_of w e' t'"
  "subs_of (store_hooks e t h w) e t = empty_subs h"
  by (simp_all add: subs_of_def)

lemma dequeue_next:
  assumes "queue_ready e t (f # fs) ps w" "t \<noteq> []"
  obtains w' where "dequeue e t w = (Some f, w')" "queue_ready e t fs ps w'" "waiting w' = waiting w"
    "qlog w' = qlog w @ [Called e (queue_key t) f]"
proof -
  have t: "type_or_fx t = t" using assms(2) by (simp add: type_or_fx_def)
  have "well_queued (waiting_queue w e (type_or_fx t))" using assms(1) by (simp add: queue_ready_def t)
  then show thesis
  proof (cases rule: dequeue_cases)
    case (call g gs h w1)
    show thesis
    proof (rule that)
      show "dequeue e t w = (Some f, observe [Called e (queue_key t) f] (store_hooks e t (h\<lparr>stop_hook := None\<rparr>)
          (store_queue e t (if t = ''fx'' then InProgress # map Fun fs else map Fun fs) w1)))"
        using call(2,3) assms(1) by (simp add: t queue_ready_def)
    qed (use call(1) assms(1) queueHooks_subs [of e t w h w1] in \<open>auto simp: t queue_ready_def\<close>)
  qed (use assms(1) in \<open>simp add: t queue_ready_def\<close>)
qed

text \<open>Telling distinct promises: those that wait for nothing else are resolved.\<close>

lemma resolve_all:
  "distinct ps \<Longrightarrow> qlog (fold resolve_one ps w) = qlog w @ map Resolved (filter (\<lambda>p. waiting w p = 1) ps)
     \<and> privates (fold resolve_one ps w) = privates w
     \<and> waiting (fold resolve_one ps w) = (\<lambda>p. if p \<in> set ps then waiting w p - 1 else waiting w p)"
proof (induction ps arbitrary: w)
  case (Cons p ps)
  have w: "qlog (resolve_one p w) = qlog w @ (if waiting w p = 1 then [Resolved p] else [])"
    "privates (resolve_one p w) = privates w" "waiting (resolve_one p w) = (waiting w)(p := waiting w p - 1)"
    by (auto simp: resolve_one_def Let_def observe_def)
  moreover have "filter (\<lambda>q. ((waiting w)(p := waiting w p - 1)) q = 1) ps = filter (\<lambda>q. waiting w q = 1) ps"
    using Cons.prems by (intro filter_cong) auto
  ultimately show ?case using Cons.IH [of "resolve_one p w"] Cons.prems by (auto simp: fun_eq_iff)
qed simp

lemma dequeue_last:
  assumes "queue_ready e t [] ps w" "t \<noteq> []" "distinct ps"
  obtains w' where "dequeue e t w = (None, w')" "stored_queue (privates w' e) t = None" "stored_hooks (privates w' e) t = None"
    "qlog w' = qlog w @ Replaced e (queue_key t) [] # map Resolved (filter (\<lambda>p. waiting w p = 1) ps)"
proof -
  have t: "type_or_fx t = t" using assms(2) by (simp add: type_or_fx_def)
  have "well_queued (waiting_queue w e (type_or_fx t))" using assms(1) by (simp add: queue_ready_def t)
  then show thesis
  proof (cases rule: dequeue_cases)
    case (empty h w1)
    define w2 where "w2 = (if waiting_queue w e t \<noteq> [] then store_queue e t [] w1 else w1)"
    have w2: "empty_subs h = ps" "waiting w2 = waiting w" "qlog w2 = qlog w"
      using assms(1) queueHooks_subs [of e t w h w1] empty(1) by (auto simp: w2_def t queue_ready_def)
    show thesis
    proof (rule that)
      show "dequeue e t w = (None, fire_empty e t h w2)" using empty(3) by (simp add: w2_def t)
    qed (use w2 resolve_all [OF assms(3)] in \<open>simp_all add: fire_empty_def observe_def stored_queue_def stored_hooks_def data_get_remove\<close>)
  qed (use assms(1) in \<open>simp add: t queue_ready_def\<close>)
qed

text \<open>Runs of any length.\<close>

definition reaches :: "(nat \<Rightarrow> nat \<Rightarrow> qcmd list) \<Rightarrow> qcmd list \<times> qworld \<Rightarrow> qcmd list \<times> qworld \<Rightarrow> bool" where
  "reaches act s s' \<longleftrightarrow> (\<exists>n. qrun act n s = s')"

lemma reaches_refl [simp]: "reaches act s s"
  unfolding reaches_def qrun_def by (rule exI [where x = 0]) simp

lemma reaches_step: "reaches act (qstep act s) s' \<Longrightarrow> reaches act s s'"
  unfolding reaches_def qrun_def by (metis funpow_swap1 funpow.simps(2) comp_apply)

lemma reaches_trans: "reaches act s s' \<Longrightarrow> reaches act s' s'' \<Longrightarrow> reaches act s s''"
  unfolding reaches_def qrun_def by (metis funpow_add comp_apply)

lemma run_stops:
  assumes "queue_ready e t fs ps w"
  obtains w' where "reaches act (map (CStop e t) gs @ cs, w) (cs, w')" "queue_ready e t fs ps w'" "waiting w' = waiting w" "qlog w' = qlog w"
proof -
  have "\<exists>w'. reaches act (map (CStop e t) gs @ cs, w) (cs, w') \<and> queue_ready e t fs ps w' \<and> waiting w' = waiting w \<and> qlog w' = qlog w"
    using assms
  proof (induction gs arbitrary: w)
    case Nil
    then show ?case by (intro exI [where x = w]) simp
  next
    case (Cons g gs)
    let ?w = "snd (qstep act (CStop e t g # map (CStop e t) gs @ cs, w))"
    have "queue_ready e t fs ps ?w" "waiting ?w = waiting w" "qlog ?w = qlog w"
      using Cons.prems by (auto simp: queue_ready_def subs_of_def split: option.splits)
    with Cons.IH [of ?w] show ?case by (auto intro!: reaches_step [of _ "(CStop e t g # map (CStop e t) gs @ cs, w)"])
  qed
  then show thesis using that by blast
qed

text \<open>Commands that dequeue one queue, among them loops that have reached their end.\<close>

lemma skip_finished:
  assumes "set cs \<subseteq> {CDequeue [e] t, CDequeue [] t}" "count_list cs (CDequeue [e] t) = Suc n"
  obtains cs' where "reaches act (cs, w) (CDequeue [e] t # cs', w)" "set cs' \<subseteq> {CDequeue [e] t, CDequeue [] t}"
    "count_list cs' (CDequeue [e] t) = n"
proof -
  have "\<exists>cs'. reaches act (cs, w) (CDequeue [e] t # cs', w) \<and> set cs' \<subseteq> {CDequeue [e] t, CDequeue [] t} \<and> count_list cs' (CDequeue [e] t) = n"
    using assms
  proof (induction cs)
    case (Cons c cs)
    show ?case
    proof (cases "c = CDequeue [e] t")
      case True
      then show ?thesis using Cons.prems by (intro exI [where x = cs]) auto
    next
      case False
      then have "c = CDequeue [] t" "count_list cs (CDequeue [e] t) = Suc n" using Cons.prems by auto
      then show ?thesis using Cons by (auto intro!: reaches_step [of _ "(CDequeue [] t # cs, w)"])
    qed
  qed simp
  then show thesis using that by blast
qed

lemma only_finished: "set cs \<subseteq> {CDequeue [] t} \<Longrightarrow> reaches act (cs, w) ([], w)"
  by (induction cs) (auto intro!: reaches_step [of _ "(CDequeue [] t # _, w)"])

lemma drain:
  assumes "queue_ready e t fs ps w" "t \<noteq> []" "distinct ps"
    and "\<And>f. f \<in> set fs \<Longrightarrow> act e f = map (CStop e t) (stops f) @ (if calls_next f then [CDequeue [e] t] else [])"
    and "set cs \<subseteq> {CDequeue [e] t, CDequeue [] t}" "count_list cs (CDequeue [e] t) = Suc (length (filter (\<lambda>f. \<not> calls_next f) fs))"
  shows "\<exists>w'. reaches act (cs, w) ([], w')
    \<and> qlog w' = qlog w @ map (Called e (queue_key t)) fs @ Replaced e (queue_key t) [] # map Resolved (filter (\<lambda>p. waiting w p = 1) ps)
    \<and> stored_queue (privates w' e) t = None \<and> stored_hooks (privates w' e) t = None"
  using assms(1,4-)
proof (induction fs arbitrary: w cs)
  case Nil
  then obtain cs' where cs': "reaches act (cs, w) (CDequeue [e] t # cs', w)" "set cs' \<subseteq> {CDequeue [e] t, CDequeue [] t}"
      "count_list cs' (CDequeue [e] t) = 0" using skip_finished [of cs e t 0 act w] by auto
  obtain w' where w': "dequeue e t w = (None, w')" "stored_queue (privates w' e) t = None" "stored_hooks (privates w' e) t = None"
      "qlog w' = qlog w @ Replaced e (queue_key t) [] # map Resolved (filter (\<lambda>p. waiting w p = 1) ps)"
    using dequeue_last [OF Nil(1) assms(2,3)] by blast
  have "set cs' \<subseteq> {CDequeue [] t}" using cs'(2,3) by (auto simp: count_list_0_iff)
  then have "reaches act (qstep act (CDequeue [e] t # cs', w)) ([], w')" using only_finished [of "CDequeue [] t # cs'" t] w'(1) by simp
  then have "reaches act (cs, w) ([], w')" using cs'(1) by (metis reaches_step reaches_trans)
  with w' show ?case by auto
next
  case (Cons f fs)
  let ?n = "length (filter (\<lambda>f. \<not> calls_next f) (f # fs))"
  obtain cs' where cs': "reaches act (cs, w) (CDequeue [e] t # cs', w)" "set cs' \<subseteq> {CDequeue [e] t, CDequeue [] t}"
      "count_list cs' (CDequeue [e] t) = ?n" using skip_finished [OF Cons.prems(3,4), of act w] by blast
  obtain w1 where w1: "dequeue e t w = (Some f, w1)" "queue_ready e t fs ps w1" "waiting w1 = waiting w" "qlog w1 = qlog w @ [Called e (queue_key t) f]"
    using dequeue_next [OF Cons.prems(1) assms(2)] by blast
  let ?cs = "(if calls_next f then [CDequeue [e] t] else []) @ CDequeue [] t # cs'"
  obtain w2 where w2: "reaches act (map (CStop e t) (stops f) @ ?cs, w1) (?cs, w2)" "queue_ready e t fs ps w2" "waiting w2 = waiting w1" "qlog w2 = qlog w1"
    by (rule run_stops [OF w1(2)])
  have "qstep act (CDequeue [e] t # cs', w) = (map (CStop e t) (stops f) @ ?cs, w1)" using w1(1) Cons.prems(2) [of f] by simp
  then have "reaches act (CDequeue [e] t # cs', w) (?cs, w2)" 
    using w2(1) reaches_step [of act "(CDequeue [e] t # cs', w)" "(?cs, w2)"] by simp
  then have run: "reaches act (cs, w) (?cs, w2)" by (rule reaches_trans [OF cs'(1)])
  have "\<exists>w'. reaches act (?cs, w2) ([], w')
    \<and> qlog w' = qlog w2 @ map (Called e (queue_key t)) fs @ Replaced e (queue_key t) [] # map Resolved (filter (\<lambda>p. waiting w2 p = 1) ps)
    \<and> stored_queue (privates w' e) t = None \<and> stored_hooks (privates w' e) t = None"
    by (rule Cons.IH [OF w2(2)]) (use Cons.prems(2) cs'(2,3) in auto)
  then obtain w' where w': "reaches act (?cs, w2) ([], w')"
      "qlog w' = qlog w2 @ map (Called e (queue_key t)) fs @ Replaced e (queue_key t) [] # map Resolved (filter (\<lambda>p. waiting w2 p = 1) ps)"
      "stored_queue (privates w' e) t = None" "stored_hooks (privates w' e) t = None" by blast
  from reaches_trans [OF run w'(1)] w'(2-4) show ?case using w1(3,4) w2(3,4) by (intro exI [where x = w']) simp
qed

text \<open>
  C39. A queue empties.  Let every waiting function call \<open>next\<close> exactly once, some of them before they
  return and the others later, and otherwise do nothing but set \<open>hooks.stop\<close> (as \<open>delay\<close> does).  Then
  one \<open>dequeue\<close>, followed by one for each function that calls \<open>next\<close> later, calls all the functions in
  the order they were queued, each once; the queue and its hooks are then removed, and only after
  that the promises waiting for it are told: those that wait for no other queue are resolved, in
  the order of subscription.  This holds for queues of any name and in any state of progress.
\<close>

theorem queue_drains:
  assumes "well_queued (waiting_queue w e t)" "funs_of (waiting_queue w e t) = fs" "t \<noteq> []"
    and "subs_of w e t = ps" "distinct ps"
    and "\<And>f. f \<in> set fs \<Longrightarrow> act e f = map (CStop e t) (stops f) @ (if calls_next f then [CDequeue [e] t] else [])"
  shows "\<exists>n w'. qrun act n (replicate (Suc (length (filter (\<lambda>f. \<not> calls_next f) fs))) (CDequeue [e] t), w) = ([], w')
    \<and> qlog w' = qlog w @ map (Called e (queue_key t)) fs @ Replaced e (queue_key t) [] # map Resolved (filter (\<lambda>p. waiting w p = 1) ps)
    \<and> stored_queue (privates w' e) t = None \<and> stored_hooks (privates w' e) t = None"
proof -
  let ?n = "Suc (length (filter (\<lambda>f. \<not> calls_next f) fs))"
  have r: "queue_ready e t fs ps w" using assms(1,2,4) by (simp add: queue_ready_def)
  have c: "count_list (replicate n c) c = n" for n and c :: qcmd by (induction n) auto
  have "\<exists>w'. reaches act (replicate ?n (CDequeue [e] t), w) ([], w')
    \<and> qlog w' = qlog w @ map (Called e (queue_key t)) fs @ Replaced e (queue_key t) [] # map Resolved (filter (\<lambda>p. waiting w p = 1) ps)
    \<and> stored_queue (privates w' e) t = None \<and> stored_hooks (privates w' e) t = None"
    by (rule drain [OF r assms(3,5)]) (use assms(6) c in auto)
  then show ?thesis unfolding reaches_def by blast
qed

text \<open>A delay that calls \<open>next\<close> later, after a function that calls it at once.\<close>

definition drain_act :: "nat \<Rightarrow> nat \<Rightarrow> qcmd list" where
  "drain_act e f = (if f = 2 then [CDequeue [e] ''fx''] else if f = 3 then [CStop e ''fx'' 9] else [])"

definition drain_world :: qworld where
  "drain_world = snd (qrun drain_act 20 ([CQueue [0] ''fx'' (DFun 1), CQueue [0] ''fx'' (DFun 2), CQueue [0] ''fx'' (DFun 3), CPromise [0] ''fx'' 7], no_queues))"

theorem queue_drains_witness:
  "\<exists>n w'. qrun drain_act n ([CDequeue [0] ''fx'', CDequeue [0] ''fx''], drain_world) = ([], w')
    \<and> qlog w' = qlog drain_world @ [Called 0 (queue_key ''fx'') 2, Called 0 (queue_key ''fx'') 3, Replaced 0 (queue_key ''fx'') [], Resolved 7]
    \<and> stored_queue (privates w' 0) ''fx'' = None \<and> stored_hooks (privates w' 0) ''fx'' = None"
proof -
  have q: "waiting_queue drain_world 0 ''fx'' = InProgress # map Fun [2, 3]"
    and s: "subs_of drain_world 0 ''fx'' = [7]" and w: "waiting drain_world 7 = 1" by code_simp+
  have "\<exists>n w'. qrun drain_act n (replicate (Suc (length (filter (\<lambda>f. \<not> f = 2) [2, 3 :: nat]))) (CDequeue [0] ''fx''), drain_world) = ([], w')
    \<and> qlog w' = qlog drain_world @ map (Called 0 (queue_key ''fx'')) [2, 3] @ Replaced 0 (queue_key ''fx'') [] #
        map Resolved (filter (\<lambda>p. waiting drain_world p = 1) [7])
    \<and> stored_queue (privates w' 0) ''fx'' = None \<and> stored_hooks (privates w' 0) ''fx'' = None"
    by (rule queue_drains [where calls_next = "\<lambda>f. f = 2" and stops = "\<lambda>f. if f = 3 then [9] else []"])
      (use s in \<open>auto simp: q drain_act_def intro: exI [where x = "[2, 3]"]\<close>)
  then show ?thesis using w by (simp add: numeral_2_eq_2)
qed

end
