(* ===== verification/JQ_Event.thy ===== *)
theory JQ_Event
  imports JQ_Words JsVal
begin

text \<open>
  Event handlers: \<open>jQuery.event.add\<close>, \<open>remove\<close>, \<open>handlers\<close> and \<open>dispatch\<close>, the methods \<open>on\<close>, \<open>one\<close> and
  \<open>off\<close>, and the path of a triggered event. The document tree and the match of selectors are a
  parameter, and so is what a handler does: its result, what it does to the event, and the calls
  of \<open>on\<close>, \<open>one\<close> and \<open>off\<close> it makes. The hooks \<open>setup\<close>, \<open>teardown\<close>, \<open>add\<close> and \<open>remove\<close> of special
  events are left out.
\<close>

section \<open>State\<close>

text \<open>A handler is a function, or the wrapper \<open>one\<close> makes around it; both have the same \<open>guid\<close>.\<close>

datatype hfun = Direct nat | Once nat

fun fun_of :: "hfun \<Rightarrow> nat" where
  "fun_of (Direct f) = f"
| "fun_of (Once f) = f"

record handle_obj =
  h_type :: string
  origType :: string
  h_data :: "nat option"
  handler :: hfun
  guid :: nat
  selector :: string          \<comment> \<open>empty when there is none\<close>
  namespace :: string         \<comment> \<open>sorted and joined with dots\<close>

text \<open>The handlers of one type: the array and its property \<open>delegateCount\<close>.\<close>

record handler_list =
  delegateCount :: nat
  hs :: "handle_obj list"

text \<open>The private data \<open>events\<close> of the elements, the listeners of the browser, and the \<open>guid\<close>s.\<close>

record ev_registry =
  events :: "nat \<Rightarrow> (string \<times> handler_list) list option"
  listening :: "(nat \<times> string) list"
  guids :: "nat \<Rightarrow> nat option"
  next_guid :: nat

record page =
  accepts :: "nat \<Rightarrow> bool"                       \<comment> \<open>\<open>acceptData\<close>\<close>
  is_elem :: "nat \<Rightarrow> bool"                       \<comment> \<open>\<open>nodeType === 1\<close>\<close>
  has_node :: "nat \<Rightarrow> bool"                      \<comment> \<open>\<open>nodeType\<close> is set\<close>
  disabled :: "nat \<Rightarrow> bool"
  up :: "nat \<Rightarrow> nat list"                        \<comment> \<open>a node and its ancestors, from the node on\<close>
  contains :: "nat \<Rightarrow> nat \<Rightarrow> bool"               \<comment> \<open>\<open>jQuery.contains\<close>\<close>
  document :: nat
  window :: nat
  selects :: "nat \<Rightarrow> string \<Rightarrow> nat \<Rightarrow> bool"     \<comment> \<open>a selector under a root matches a node\<close>

section \<open>Types and namespaces\<close>

text \<open>\<open>rtypenamespace\<close>: the type before the first dot, the namespaces after it.\<close>

definition type_part :: "string \<Rightarrow> string" where
  "type_part s = takeWhile (\<lambda>c. c \<noteq> CHR ''.'') s"

definition ns_part :: "string \<Rightarrow> string" where
  "ns_part s = drop 1 (dropWhile (\<lambda>c. c \<noteq> CHR ''.'') s)"

definition namespaces :: "string \<Rightarrow> string list" where
  "namespaces s = sort_by str_less (split_on (CHR ''.'') (ns_part s))"

text \<open>
  The test of the regular expression both \<open>remove\<close> and \<open>trigger\<close> build, on names without syntax of
  regular expressions: all names occur in the text, in its order.
\<close>

fun names_in :: "string list \<Rightarrow> string list \<Rightarrow> bool" where
  "names_in [] ms = True"
| "names_in (n # ns) [] = False"
| "names_in (n # ns) (m # ms) = (if n = m then names_in ns ms else names_in (n # ns) ms)"

definition ns_match :: "string list \<Rightarrow> string \<Rightarrow> bool" where
  "ns_match ns s \<longleftrightarrow> names_in ns (split_on (CHR ''.'') s)"

definition type_words :: "string \<Rightarrow> string list" where
  "type_words types = (case match_words types of [] \<Rightarrow> [[]] | ws \<Rightarrow> ws)"

text \<open>The types special events are bound as; the first component is for delegated handlers.\<close>

definition special_types :: "(string \<times> string option \<times> string option) list" where
  "special_types =
     [(''focus'', Some ''focusin'', None), (''blur'', Some ''focusout'', None),
      (''mouseenter'', Some ''mouseover'', Some ''mouseover''), (''mouseleave'', Some ''mouseout'', Some ''mouseout''),
      (''pointerenter'', Some ''pointerover'', Some ''pointerover''), (''pointerleave'', Some ''pointerout'', Some ''pointerout'')]"

definition bound_type :: "string \<Rightarrow> string \<Rightarrow> string" where
  "bound_type sel type =
     (case assoc type special_types of
        None \<Rightarrow> type
      | Some (d, b) \<Rightarrow> (case if sel \<noteq> [] then d else b of Some t \<Rightarrow> t | None \<Rightarrow> type))"

section \<open>Adding handlers\<close>

definition no_handlers :: handler_list where
  "no_handlers = \<lparr>delegateCount = 0, hs = []\<rparr>"

text \<open>Delegated handlers go after those already in front, the others to the end.\<close>

definition insert_handler :: "handle_obj \<Rightarrow> handler_list \<Rightarrow> handler_list" where
  "insert_handler h l =
     (if selector h \<noteq> [] then
        l\<lparr>delegateCount := Suc (delegateCount l), hs := take (delegateCount l) (hs l) @ h # drop (delegateCount l) (hs l)\<rparr>
      else l\<lparr>hs := hs l @ [h]\<rparr>)"

definition ensure_guid :: "nat \<Rightarrow> ev_registry \<Rightarrow> nat \<times> ev_registry" where
  "ensure_guid f r =
     (case guids r f of
        Some g \<Rightarrow> (g, r)
      | None \<Rightarrow> (next_guid r, r\<lparr>guids := (guids r)(f \<mapsto> next_guid r), next_guid := Suc (next_guid r)\<rparr>))"

definition events_of :: "ev_registry \<Rightarrow> nat \<Rightarrow> (string \<times> handler_list) list" where
  "events_of r e = (case events r e of Some m \<Rightarrow> m | None \<Rightarrow> [])"

definition set_events :: "nat \<Rightarrow> (string \<times> handler_list) list option \<Rightarrow> ev_registry \<Rightarrow> ev_registry" where
  "set_events e m r = r\<lparr>events := (events r)(e := m)\<rparr>"

definition add_one :: "nat \<Rightarrow> hfun \<Rightarrow> nat \<Rightarrow> nat option \<Rightarrow> string \<Rightarrow> string \<Rightarrow> ev_registry \<Rightarrow> ev_registry" where
  "add_one e f g data sel tw r =
     (if type_part tw = [] then r
      else let type = bound_type sel (type_part tw);
               h = \<lparr>h_type = type, origType = type_part tw, h_data = data, handler = f, guid = g, selector = sel,
                    namespace = join ''.'' (namespaces tw)\<rparr>;
               m = events_of r e;
               l = (case assoc type m of Some l \<Rightarrow> l | None \<Rightarrow> no_handlers);
               r1 = (if assoc type m = None then r\<lparr>listening := (e, type) # listening r\<rparr> else r)
           in set_events e (Some (assoc_set type (insert_handler h l) m)) r1)"

definition event_add :: "page \<Rightarrow> nat \<Rightarrow> string \<Rightarrow> hfun \<Rightarrow> nat option \<Rightarrow> string \<Rightarrow> ev_registry \<Rightarrow> ev_registry" where
  "event_add d e types f data sel r =
     (if \<not> accepts d e then r
      else let (g, r1) = ensure_guid (fun_of f) r;
               r2 = set_events e (Some (events_of r1 e)) r1
           in fold (add_one e f g data sel) (rev (type_words types)) r2)"

section \<open>Removing handlers\<close>

text \<open>
  The handlers a call removes: \<open>og\<close> is the \<open>guid\<close> of the function given, if one was given, \<open>None\<close>
  inside for a function that was never bound.
\<close>

definition removable :: "bool \<Rightarrow> string \<Rightarrow> nat option option \<Rightarrow> string list option \<Rightarrow> string \<Rightarrow> handle_obj \<Rightarrow> bool" where
  "removable mapped orig og ns sel h \<longleftrightarrow>
     (mapped \<or> orig = origType h) \<and>
     (case og of None \<Rightarrow> True | Some g \<Rightarrow> g = Some (guid h)) \<and>
     (case ns of None \<Rightarrow> True | Some names \<Rightarrow> ns_match names (namespace h)) \<and>
     (sel = [] \<or> sel = selector h \<or> sel = ''**'' \<and> selector h \<noteq> [])"

definition remove_handlers :: "(handle_obj \<Rightarrow> bool) \<Rightarrow> handler_list \<Rightarrow> handler_list" where
  "remove_handlers p l =
     l\<lparr>delegateCount := delegateCount l - length (filter (\<lambda>h. p h \<and> selector h \<noteq> []) (hs l)),
       hs := filter (\<lambda>h. \<not> p h) (hs l)\<rparr>"

definition remove_type :: "nat \<Rightarrow> string \<Rightarrow> (handle_obj \<Rightarrow> bool) \<Rightarrow> ev_registry \<Rightarrow> ev_registry" where
  "remove_type e type p r =
     (let m = events_of r e
      in case assoc type m of
           None \<Rightarrow> r
         | Some l \<Rightarrow>
             (let l' = remove_handlers p l
              in if hs l \<noteq> [] \<and> hs l' = []
                 then set_events e (Some (assoc_del type m)) (r\<lparr>listening := removeAll (e, type) (listening r)\<rparr>)
                 else set_events e (Some (assoc_set type l' m)) r))"

text \<open>The namespaces of a tw, when it has any.\<close>

definition ns_of :: "string \<Rightarrow> string list option" where
  "ns_of tw = (if ns_part tw = [] then None else Some (namespaces tw))"

definition remove_word :: "nat \<Rightarrow> nat option option \<Rightarrow> string \<Rightarrow> string \<Rightarrow> ev_registry \<Rightarrow> ev_registry" where
  "remove_word e og sel tw r =
     (if type_part tw = [] then
        fold (\<lambda>type r'. let w = type @ tw in
                remove_type e (bound_type sel (type_part w)) (removable True (type_part w) og (ns_of w) sel) r')
          (map fst (events_of r e)) r
      else remove_type e (bound_type sel (type_part tw)) (removable False (type_part tw) og (ns_of tw) sel) r)"

text \<open>Empty data is removed.\<close>

definition drop_events :: "nat \<Rightarrow> ev_registry \<Rightarrow> ev_registry" where
  "drop_events e r = (if events r e = Some [] then set_events e None r else r)"

definition event_remove :: "nat \<Rightarrow> string \<Rightarrow> nat option option \<Rightarrow> string \<Rightarrow> ev_registry \<Rightarrow> ev_registry" where
  "event_remove e types og sel r =
     (case events r e of
        None \<Rightarrow> r
      | Some _ \<Rightarrow> drop_events e (fold (remove_word e og sel) (rev (type_words types)) r))"

section \<open>The methods\<close>

text \<open>Arguments of \<open>on\<close> and \<open>off\<close>; \<open>null\<close> and \<open>undefined\<close> are the same here.\<close>

datatype arg = Missing | Text string | Func nat | FalseArg | Other nat

definition on_args :: "arg \<Rightarrow> arg \<Rightarrow> arg \<Rightarrow> arg \<times> arg \<times> arg" where
  "on_args sel data f =
     (if data = Missing \<and> f = Missing then (Missing, Missing, sel)
      else if f = Missing then (case sel of Text s \<Rightarrow> (sel, Missing, data) | _ \<Rightarrow> (Missing, sel, data))
      else (sel, data, f))"

text \<open>The function \<open>returnFalse\<close>.\<close>

definition returnFalse :: nat where
  "returnFalse = 0"

definition fn_arg :: "arg \<Rightarrow> nat option" where
  "fn_arg f = (case f of FalseArg \<Rightarrow> Some returnFalse | Func g \<Rightarrow> Some g | _ \<Rightarrow> None)"

definition sel_arg :: "arg \<Rightarrow> string" where
  "sel_arg a = (case a of Text s \<Rightarrow> s | _ \<Rightarrow> [])"

definition data_arg :: "arg \<Rightarrow> nat option" where
  "data_arg a = (case a of Other n \<Rightarrow> Some n | _ \<Rightarrow> None)"

definition event_on :: "page \<Rightarrow> bool \<Rightarrow> nat list \<Rightarrow> string \<Rightarrow> arg \<Rightarrow> arg \<Rightarrow> arg \<Rightarrow> ev_registry \<Rightarrow> ev_registry" where
  "event_on d one es types sel data f r =
     (case on_args sel data f of
        (s, dt, fn) \<Rightarrow>
          (case fn_arg fn of
             None \<Rightarrow> r
           | Some g \<Rightarrow>
               (let r1 = (if one then snd (ensure_guid g r) else r)
                in fold (\<lambda>e. event_add d e types (if one then Once g else Direct g) (data_arg dt) (sel_arg s)) es r1)))"

definition event_off :: "nat list \<Rightarrow> string \<Rightarrow> arg \<Rightarrow> arg \<Rightarrow> ev_registry \<Rightarrow> ev_registry" where
  "event_off es types sel f r =
     (let (s, fn) = (case sel of FalseArg \<Rightarrow> (Missing, sel) | Func _ \<Rightarrow> (Missing, sel) | _ \<Rightarrow> (sel, f));
          og = (case fn_arg fn of None \<Rightarrow> None | Some g \<Rightarrow> Some (guids r g))
      in fold (\<lambda>e. event_remove e types og (sel_arg s)) es r)"

text \<open>\<open>off( event )\<close>, which the wrapper of \<open>one\<close> calls first.\<close>

definition off_event :: "nat \<Rightarrow> handle_obj \<Rightarrow> ev_registry \<Rightarrow> ev_registry" where
  "off_event e h r =
     event_remove e (if namespace h \<noteq> [] then origType h @ ''.'' @ namespace h else origType h)
       (Some (Some (guid h))) (selector h) r"

section \<open>Dispatch\<close>

record jq_event =
  e_type :: string
  e_target :: nat
  e_button :: int
  relatedTarget :: "nat option"
  rnamespace :: "string list option"
  prevented :: bool
  stopped :: bool
  stopped_now :: bool
  e_result :: "nat option"

text \<open>What a handler does: result, calls of the event's methods, and calls of \<open>on\<close>, \<open>one\<close> and \<open>off\<close>.\<close>

datatype hresult = RUndefined | RFalse | RValue nat

datatype ecmd = EOn bool "nat list" string arg arg arg | EOff "nat list" string arg arg

record outcome =
  o_result :: hresult
  o_prevent :: bool
  o_stop :: bool
  o_stop_now :: bool
  o_cmds :: "ecmd list"

fun ecmd_run :: "page \<Rightarrow> ecmd \<Rightarrow> ev_registry \<Rightarrow> ev_registry" where
  "ecmd_run d (EOn one es types sel data f) r = event_on d one es types sel data f r"
| "ecmd_run d (EOff es types sel f) r = event_off es types sel f r"

text \<open>The delegated handlers that match at one node on the way up, and the whole queue.\<close>

definition matched_at :: "page \<Rightarrow> nat \<Rightarrow> jq_event \<Rightarrow> handler_list \<Rightarrow> nat \<Rightarrow> (nat \<times> handle_obj list) list" where
  "matched_at d this ev l cur =
     (if is_elem d cur \<and> \<not> (e_type ev = ''click'' \<and> disabled d cur) then
        (let ms = filter (\<lambda>h. selects d this (selector h) cur) (take (delegateCount l) (hs l))
         in if ms = [] then [] else [(cur, ms)])
      else [])"

definition event_handlers :: "page \<Rightarrow> nat \<Rightarrow> jq_event \<Rightarrow> handler_list \<Rightarrow> (nat \<times> handle_obj list) list" where
  "event_handlers d this ev l =
     (if delegateCount l \<noteq> 0 \<and> has_node d (e_target ev) \<and> \<not> (e_type ev = ''click'' \<and> e_button ev \<ge> 1)
      then concat (map (matched_at d this ev l) (takeWhile (\<lambda>c. c \<noteq> this) (up d (e_target ev)))) else [])
     @ (if delegateCount l < length (hs l) then [(this, drop (delegateCount l) (hs l))] else [])"

text \<open>One call: \<open>calls\<close> records the node and the handler.\<close>

definition apply_outcome :: "outcome \<Rightarrow> jq_event \<Rightarrow> jq_event" where
  "apply_outcome out ev =
     (let false = (o_result out = RFalse)
      in ev\<lparr>prevented := prevented ev \<or> o_prevent out \<or> false,
            stopped := stopped ev \<or> o_stop out \<or> o_stop_now out \<or> false,
            stopped_now := stopped_now ev \<or> o_stop_now out,
            e_result := (case o_result out of RUndefined \<Rightarrow> e_result ev | RFalse \<Rightarrow> Some 0 | RValue n \<Rightarrow> Some (Suc n))\<rparr>)"

type_synonym behaviour = "nat \<Rightarrow> nat \<Rightarrow> jq_event \<Rightarrow> outcome"

text \<open>
  The hook \<open>handle\<close> of \<open>mouseenter\<close>, \<open>mouseleave\<close> and the pointer events: the handler is called, with
  its own type, when the pointer crosses the border of the node.
\<close>

definition crosses :: "page \<Rightarrow> nat \<Rightarrow> jq_event \<Rightarrow> bool" where
  "crosses d node ev \<longleftrightarrow>
     (case relatedTarget ev of None \<Rightarrow> True | Some rel \<Rightarrow> rel \<noteq> node \<and> \<not> contains d node rel)"

definition hover_types :: "string list" where
  "hover_types = [''mouseenter'', ''mouseleave'', ''pointerenter'', ''pointerleave'']"

definition call_handler :: "behaviour \<Rightarrow> page \<Rightarrow> nat \<Rightarrow> nat \<Rightarrow> handle_obj \<Rightarrow> jq_event \<times> ev_registry \<Rightarrow> jq_event \<times> ev_registry" where
  "call_handler act d this node h s =
     (case s of
        (ev, r) \<Rightarrow>
          (let r1 = (case handler h of Once _ \<Rightarrow> off_event this h r | Direct _ \<Rightarrow> r);
               seen = (if origType h \<in> set hover_types then ev\<lparr>e_type := origType h\<rparr> else ev);
               out = act (fun_of (handler h)) node seen
           in (apply_outcome out ev, fold (ecmd_run d) (o_cmds out) r1)))"

definition invoked :: "page \<Rightarrow> nat \<Rightarrow> jq_event \<Rightarrow> handle_obj \<Rightarrow> bool" where
  "invoked d node ev h \<longleftrightarrow>
     (case rnamespace ev of None \<Rightarrow> True | Some ns \<Rightarrow> ns_match ns (namespace h))
     \<and> (origType h \<in> set hover_types \<longrightarrow> crosses d node ev)"

fun run_handlers :: "behaviour \<Rightarrow> page \<Rightarrow> nat \<Rightarrow> nat \<Rightarrow> handle_obj list \<Rightarrow> jq_event \<times> ev_registry \<Rightarrow> (jq_event \<times> ev_registry) \<times> (nat \<times> handle_obj) list" where
  "run_handlers act d this node [] s = (s, [])"
| "run_handlers act d this node (h # rest) s =
     (if stopped_now (fst s) then (s, [])
      else if invoked d node (fst s) h then
        (case run_handlers act d this node rest (call_handler act d this node h s) of (s', calls) \<Rightarrow> (s', (node, h) # calls))
      else run_handlers act d this node rest s)"

fun run_queue :: "behaviour \<Rightarrow> page \<Rightarrow> nat \<Rightarrow> (nat \<times> handle_obj list) list \<Rightarrow> jq_event \<times> ev_registry \<Rightarrow> (jq_event \<times> ev_registry) \<times> (nat \<times> handle_obj) list" where
  "run_queue act d this [] s = (s, [])"
| "run_queue act d this ((node, l) # q) s =
     (if stopped (fst s) then (s, [])
      else case run_handlers act d this node l s of
             (s', calls) \<Rightarrow> (case run_queue act d this q s' of (s'', calls') \<Rightarrow> (s'', calls @ calls')))"

definition dispatch :: "behaviour \<Rightarrow> page \<Rightarrow> nat \<Rightarrow> jq_event \<times> ev_registry \<Rightarrow> (jq_event \<times> ev_registry) \<times> (nat \<times> handle_obj) list" where
  "dispatch act d this s =
     (case s of
        (ev, r) \<Rightarrow>
          (let l = (case assoc (e_type ev) (events_of r this) of Some l \<Rightarrow> l | None \<Rightarrow> no_handlers)
           in run_queue act d this (event_handlers d this ev l) s))"

section \<open>The path of a triggered event\<close>

definition no_bubble :: "string \<Rightarrow> bool" where
  "no_bubble type \<longleftrightarrow> type = ''load''"

definition bubble_type :: "string \<Rightarrow> string" where
  "bubble_type type = bound_type ''*'' type"

definition rfocusMorph :: "string \<Rightarrow> bool" where
  "rfocusMorph s \<longleftrightarrow> s = ''focusinfocus'' \<or> s = ''focusoutblur''"

definition event_path :: "page \<Rightarrow> bool \<Rightarrow> string \<Rightarrow> nat \<Rightarrow> nat list" where
  "event_path d onlyHandlers type elem =
     elem #
     (if \<not> onlyHandlers \<and> \<not> no_bubble type \<and> elem \<noteq> window d then
        (if rfocusMorph (bubble_type type @ type) then up d elem else tl (up d elem))
        @ (if last (up d elem) = document d then [window d] else [])
      else [])"

text \<open>The handlers on the path, until propagation stops; \<open>first\<close> is the type at the first node.\<close>

fun run_path :: "behaviour \<Rightarrow> page \<Rightarrow> string \<Rightarrow> string \<Rightarrow> nat list \<Rightarrow> jq_event \<times> ev_registry \<Rightarrow> (jq_event \<times> ev_registry) \<times> (nat \<times> handle_obj) list" where
  "run_path act d first bubble [] s = (s, [])"
| "run_path act d first bubble (cur # rest) s =
     (if stopped (fst s) then (s, [])
      else case dispatch act d cur ((fst s)\<lparr>e_type := first\<rparr>, snd s) of
             (s', calls) \<Rightarrow> (case run_path act d bubble bubble rest s' of (s'', calls') \<Rightarrow> (s'', calls @ calls')))"

definition new_event :: "string \<Rightarrow> nat \<Rightarrow> string list option \<Rightarrow> jq_event" where
  "new_event type elem ns =
     \<lparr>e_type = type, e_target = elem, e_button = 0, relatedTarget = None, rnamespace = ns,
      prevented = False, stopped = False, stopped_now = False, e_result = None\<rparr>"

definition event_trigger :: "behaviour \<Rightarrow> page \<Rightarrow> string \<Rightarrow> nat \<Rightarrow> bool \<Rightarrow> ev_registry \<Rightarrow> (jq_event \<times> ev_registry) \<times> (nat \<times> handle_obj) list" where
  "event_trigger act d word' elem onlyHandlers r =
     (let type = type_part word';
          ns = (if ns_part word' = [] then None else Some (namespaces word'))
      in case run_path act d (bound_type [] type) (bubble_type type) (event_path d onlyHandlers type elem) (new_event type elem ns, r) of
           ((ev, r'), calls) \<Rightarrow> ((ev\<lparr>e_type := type\<rparr>, r'), calls))"

section \<open>Scripts\<close>

datatype estep = Cmd ecmd | Trigger string nat

fun erun :: "behaviour \<Rightarrow> page \<Rightarrow> estep list \<Rightarrow> ev_registry \<Rightarrow> ev_registry" where
  "erun act d [] r = r"
| "erun act d (Cmd c # ss) r = erun act d ss (ecmd_run d c r)"
| "erun act d (Trigger w e # ss) r = erun act d ss (snd (fst (event_trigger act d w e False r)))"

definition no_events :: ev_registry where
  "no_events = \<lparr>events = (\<lambda>_. None), listening = [], guids = (\<lambda>_. None), next_guid = 1\<rparr>"

end
