(* ===== verification/JQ_Event_Props.thy ===== *)
theory JQ_Event_Props
  imports JQ_Event
begin

text \<open>
  Properties of event handlers: the invariant of the registry, what \<open>off\<close> removes, and the order in
  which \<open>dispatch\<close> calls handlers.
\<close>

section \<open>Lists of handlers\<close>

text \<open>Delegated handlers in front, counted by \<open>delegateCount\<close>; no empty list is kept.\<close>

definition list_ok :: "handler_list \<Rightarrow> bool" where
  "list_ok l \<longleftrightarrow> hs l \<noteq> [] \<and> (\<exists>ds bs. hs l = ds @ bs \<and> delegateCount l = length ds
     \<and> (\<forall>h \<in> set ds. selector h \<noteq> []) \<and> (\<forall>h \<in> set bs. selector h = []))"

definition front_ok :: "handler_list \<Rightarrow> bool" where
  "front_ok l \<longleftrightarrow> (\<exists>ds bs. hs l = ds @ bs \<and> delegateCount l = length ds
     \<and> (\<forall>h \<in> set ds. selector h \<noteq> []) \<and> (\<forall>h \<in> set bs. selector h = []))"

lemma list_ok_iff: "list_ok l \<longleftrightarrow> hs l \<noteq> [] \<and> front_ok l"
  by (simp add: list_ok_def front_ok_def)

lemma front_okI: "hs l = ds @ bs \<Longrightarrow> delegateCount l = length ds \<Longrightarrow> \<forall>h \<in> set ds. selector h \<noteq> [] \<Longrightarrow> \<forall>h \<in> set bs. selector h = [] \<Longrightarrow> front_ok l"
  unfolding front_ok_def by blast

lemma front_insert: "front_ok l \<Longrightarrow> front_ok (insert_handler h l)"
proof -
  assume "front_ok l"
  then obtain ds bs where l: "hs l = ds @ bs" "delegateCount l = length ds"
    "\<forall>h \<in> set ds. selector h \<noteq> []" "\<forall>h \<in> set bs. selector h = []" by (auto simp: front_ok_def)
  show ?thesis
  proof (cases "selector h = []")
    case True
    then have "hs (insert_handler h l) = ds @ (bs @ [h])" "delegateCount (insert_handler h l) = length ds"
      using l by (simp_all add: insert_handler_def)
    then show ?thesis by (rule front_okI) (use True l in auto)
  next
    case False
    then have "hs (insert_handler h l) = (ds @ [h]) @ bs" "delegateCount (insert_handler h l) = length (ds @ [h])"
      using l by (simp_all add: insert_handler_def)
    then show ?thesis by (rule front_okI) (use False l in auto)
  qed
qed

lemma front_remove: "front_ok l \<Longrightarrow> front_ok (remove_handlers p l)"
proof -
  assume "front_ok l"
  then obtain ds bs where l: "hs l = ds @ bs" "delegateCount l = length ds"
    "\<forall>h \<in> set ds. selector h \<noteq> []" "\<forall>h \<in> set bs. selector h = []" by (auto simp: front_ok_def)
  have "filter (\<lambda>h. p h \<and> selector h \<noteq> []) (ds @ bs) = filter p ds"
    using l(3,4) by (auto simp: filter_empty_conv intro: filter_cong)
  moreover have "length ds - length (filter p ds) = length (filter (\<lambda>h. \<not> p h) ds)"
    using sum_length_filter_compl [of p ds] by simp
  ultimately have "hs (remove_handlers p l) = filter (\<lambda>h. \<not> p h) ds @ filter (\<lambda>h. \<not> p h) bs"
    "delegateCount (remove_handlers p l) = length (filter (\<lambda>h. \<not> p h) ds)"
    using l(1,2) by (simp_all add: remove_handlers_def)
  then show ?thesis by (rule front_okI) (use l in auto)
qed

lemma insert_nonempty [simp]: "hs (insert_handler h l) \<noteq> []"
  by (simp add: insert_handler_def)

lemma front_none [simp]: "front_ok no_handlers"
  by (auto simp: front_ok_def no_handlers_def)

section \<open>The registry\<close>

text \<open>
  Every list is in order, the browser listens for exactly the types with handlers, and the
  \<open>guid\<close>s given out are below the counter.
\<close>

definition ev_inv :: "ev_registry \<Rightarrow> bool" where
  "ev_inv r \<longleftrightarrow>
     (\<forall>e type l. assoc type (events_of r e) = Some l \<longrightarrow> list_ok l \<and> (\<forall>h \<in> set (hs l). guid h < next_guid r))
     \<and> (\<forall>e type. (e, type) \<in> set (listening r) \<longleftrightarrow> assoc type (events_of r e) \<noteq> None)
     \<and> (\<forall>f g. guids r f = Some g \<longrightarrow> g < next_guid r)"

lemma events_of_set [simp]: "events_of (set_events e m r) e' = (if e = e' then (case m of Some x \<Rightarrow> x | None \<Rightarrow> []) else events_of r e')"
  by (simp add: events_of_def set_events_def)

lemma events_of_rest [simp]:
  "events_of (listening_update f r) e = events_of r e" "events_of (guids_update f' r) e = events_of r e"
  "events_of (next_guid_update f'' r) e = events_of r e"
  by (simp_all add: events_of_def)

lemma set_events_simps [simp]:
  "listening (set_events e m r) = listening r" "guids (set_events e m r) = guids r" "next_guid (set_events e m r) = next_guid r"
  by (simp_all add: set_events_def)

lemma inv_guid: "ev_inv r \<Longrightarrow> ev_inv (snd (ensure_guid f r)) \<and> fst (ensure_guid f r) < next_guid (snd (ensure_guid f r))"
  unfolding ensure_guid_def ev_inv_def by (auto split: option.splits) (metis less_Suc_eq)+

lemma inv_same_events: "ev_inv r \<Longrightarrow> (\<And>e'. events_of r' e' = events_of r e') \<Longrightarrow> listening r' = listening r \<Longrightarrow> guids r' = guids r \<Longrightarrow> next_guid r' = next_guid r \<Longrightarrow> ev_inv r'"
  by (simp add: ev_inv_def)

lemma guid_insert: "h' \<in> set (hs (insert_handler h l)) \<longleftrightarrow> h' = h \<or> h' \<in> set (hs l)"
  by (auto simp: insert_handler_def dest: in_set_takeD in_set_dropD) (metis Un_iff append_take_drop_id set_append)

lemma inv_put:
  assumes "ev_inv r" "list_ok l" "\<forall>h \<in> set (hs l). guid h < next_guid r"
  shows "ev_inv (set_events e (Some (assoc_set type l (events_of r e)))
      (if assoc type (events_of r e) = None then r\<lparr>listening := (e, type) # listening r\<rparr> else r))"
  using assms unfolding ev_inv_def by auto

lemma inv_del:
  assumes "ev_inv r"
  shows "ev_inv (set_events e (Some (assoc_del type (events_of r e))) (r\<lparr>listening := removeAll (e, type) (listening r)\<rparr>))"
  using assms unfolding ev_inv_def by auto

lemma inv_list: "ev_inv r \<Longrightarrow> assoc type (events_of r e) = Some l \<Longrightarrow> list_ok l \<and> (\<forall>h \<in> set (hs l). guid h < next_guid r)"
  unfolding ev_inv_def by blast

lemma inv_add_one:
  assumes inv: "ev_inv r" and g: "g < next_guid r"
  shows "ev_inv (add_one e f g data sel w r) \<and> next_guid (add_one e f g data sel w r) = next_guid r"
proof (cases "type_part w = []")
  case False
  define type where "type = bound_type sel (type_part w)"
  define l where "l = (case assoc type (events_of r e) of Some l \<Rightarrow> l | None \<Rightarrow> no_handlers)"
  define h where "h = \<lparr>h_type = type, origType = type_part w, h_data = data, handler = f, guid = g, selector = sel,
                    namespace = join ''.'' (namespaces w)\<rparr>"
  have "front_ok l \<and> (\<forall>h \<in> set (hs l). guid h < next_guid r)"
    using inv_list [OF inv, of type e] by (auto simp: l_def list_ok_iff no_handlers_def [THEN arg_cong [where f = hs]] split: option.splits)
  then have "list_ok (insert_handler h l)" "\<forall>h' \<in> set (hs (insert_handler h l)). guid h' < next_guid r"
    using g by (auto simp: list_ok_iff front_insert guid_insert h_def)
  from inv_put [OF inv this, of e type] show ?thesis
    using False by (auto simp: add_one_def Let_def type_def [symmetric] l_def [symmetric] h_def [symmetric] split: if_splits)
qed (simp add: add_one_def inv)

lemma inv_fold_add: "ev_inv r \<Longrightarrow> g < next_guid r \<Longrightarrow> ev_inv (fold (add_one e f g data sel) ws r)"
  by (induction ws arbitrary: r) (simp_all add: inv_add_one)

lemma inv_event_add: assumes "ev_inv r" shows "ev_inv (event_add d e types f data sel r)"
proof -
  obtain g r1 where g: "ensure_guid (fun_of f) r = (g, r1)" by fastforce
  then have "ev_inv r1" "g < next_guid r1" using inv_guid [OF assms, of "fun_of f"] by simp_all
  then have "ev_inv (set_events e (Some (events_of r1 e)) r1)" by (elim inv_same_events) (simp_all split: if_splits)
  then show ?thesis using assms g \<open>g < next_guid r1\<close> by (simp add: event_add_def inv_fold_add)
qed

lemma inv_remove_type: assumes "ev_inv r" shows "ev_inv (remove_type e type p r)"
proof (cases "assoc type (events_of r e)")
  case (Some l)
  then have l: "list_ok l" "\<forall>h \<in> set (hs l). guid h < next_guid r" using inv_list [OF assms] by auto
  show ?thesis
  proof (cases "hs (remove_handlers p l) = []")
    case True
    then show ?thesis using Some l(1) inv_del [OF assms] by (simp add: remove_type_def Let_def list_ok_iff)
  next
    case False
    moreover have "list_ok (remove_handlers p l)" using l(1) False by (simp add: list_ok_iff front_remove)
    moreover have "\<forall>h \<in> set (hs (remove_handlers p l)). guid h < next_guid r" using l(2) by (simp add: remove_handlers_def)
    ultimately show ?thesis using Some inv_put [OF assms, of "remove_handlers p l" e type] by (simp add: remove_type_def Let_def)
  qed
qed (simp add: remove_type_def assms)

lemma ev_inv_fold: "(\<And>x r. ev_inv r \<Longrightarrow> ev_inv (f x r)) \<Longrightarrow> ev_inv r \<Longrightarrow> ev_inv (fold f xs r)"
  by (induction xs arbitrary: r) auto

lemma inv_remove_word: "ev_inv r \<Longrightarrow> ev_inv (remove_word e og sel w r)"
  unfolding remove_word_def by (auto simp: Let_def intro!: ev_inv_fold inv_remove_type)

lemma inv_drop: "ev_inv r \<Longrightarrow> ev_inv (drop_events e r)"
  by (auto simp: drop_events_def events_of_def set_events_def elim!: inv_same_events)

lemma inv_event_remove: "ev_inv r \<Longrightarrow> ev_inv (event_remove e types og sel r)"
  by (auto simp: event_remove_def intro!: inv_drop ev_inv_fold inv_remove_word split: option.splits)

lemma inv_on: "ev_inv r \<Longrightarrow> ev_inv (event_on d one es types sel data f r)"
  using inv_guid by (auto simp: event_on_def Let_def intro!: ev_inv_fold inv_event_add split: option.splits prod.splits)

lemma inv_off: "ev_inv r \<Longrightarrow> ev_inv (event_off es types sel f r)"
  by (auto simp: event_off_def Let_def intro!: ev_inv_fold inv_event_remove split: prod.splits)

lemma inv_cmd: "ev_inv r \<Longrightarrow> ev_inv (ecmd_run d c r)"
  by (cases c) (simp_all add: inv_on inv_off)

lemma ev_inv_call: "ev_inv (snd s) \<Longrightarrow> ev_inv (snd (call_handler act d this node h s))"
  by (cases s) (auto simp: call_handler_def off_event_def Let_def intro!: ev_inv_fold inv_cmd inv_event_remove split: hfun.splits)

lemma inv_handlers: "ev_inv (snd s) \<Longrightarrow> ev_inv (snd (fst (run_handlers act d this node l s)))"
  by (induction l arbitrary: s) (simp_all add: ev_inv_call case_prod_beta)

lemma inv_queue: "ev_inv (snd s) \<Longrightarrow> ev_inv (snd (fst (run_queue act d this q s)))"
proof (induction q arbitrary: s)
  case (Cons x q)
  then show ?case using inv_handlers [of s act d this "fst x" "snd x"] by (cases x) (simp add: case_prod_beta)
qed simp

lemma inv_dispatch: "ev_inv (snd s) \<Longrightarrow> ev_inv (snd (fst (dispatch act d this s)))"
  by (cases s) (simp add: dispatch_def Let_def inv_queue)

lemma inv_path: "ev_inv (snd s) \<Longrightarrow> ev_inv (snd (fst (run_path act d first bubble p s)))"
proof (induction p arbitrary: s first)
  case (Cons x p)
  then show ?case
    using inv_dispatch [of "((fst s)\<lparr>e_type := first\<rparr>, snd s)" act d x] by (simp add: case_prod_beta)
qed simp

lemma ev_inv_trigger: "ev_inv r \<Longrightarrow> ev_inv (snd (fst (event_trigger act d w e only r)))"
  using inv_path [of "(new_event (type_part w) e ns, r)" act d for ns]
  by (simp add: event_trigger_def Let_def case_prod_beta)

lemma inv_erun: "ev_inv r \<Longrightarrow> ev_inv (erun act d ss r)"
  by (induction act d ss r rule: erun.induct) (simp_all add: inv_cmd ev_inv_trigger)

lemma inv_none: "ev_inv no_events"
  by (simp add: ev_inv_def no_events_def events_of_def)

text \<open>
  C21. Whatever a page and its handlers do with \<open>on\<close>, \<open>one\<close>, \<open>off\<close> and triggered events, the handlers
  of every element and type stay in order: the delegated ones are in front and \<open>delegateCount\<close> counts
  them, and the browser listens for exactly the types an element has handlers for.
\<close>

theorem handlers_in_order:
  assumes "erun act d script no_events = r"
  shows "((e, type) \<in> set (listening r) \<longleftrightarrow> assoc type (events_of r e) \<noteq> None)
    \<and> (assoc type (events_of r e) = Some l \<longrightarrow>
      hs l \<noteq> [] \<and> (\<exists>ds bs. hs l = ds @ bs \<and> delegateCount l = length ds
        \<and> (\<forall>h \<in> set ds. selector h \<noteq> []) \<and> (\<forall>h \<in> set bs. selector h = [])))"
proof -
  have inv: "ev_inv r" using inv_erun [OF inv_none, of act d script] assms by simp
  then have "(e, type) \<in> set (listening r) \<longleftrightarrow> assoc type (events_of r e) \<noteq> None" unfolding ev_inv_def by blast
  moreover have "assoc type (events_of r e) = Some l \<Longrightarrow>
      hs l \<noteq> [] \<and> (\<exists>ds bs. hs l = ds @ bs \<and> delegateCount l = length ds
        \<and> (\<forall>h \<in> set ds. selector h \<noteq> []) \<and> (\<forall>h \<in> set bs. selector h = []))"
    using inv_list [OF inv, of type e] by (auto simp: list_ok_def)
  ultimately show ?thesis by blast
qed

section \<open>What is removed\<close>

definition handlers_at :: "ev_registry \<Rightarrow> nat \<Rightarrow> string \<Rightarrow> handle_obj list" where
  "handlers_at r e t = (case assoc t (events_of r e) of Some l \<Rightarrow> hs l | None \<Rightarrow> [])"

lemma at_set [simp]: "handlers_at (set_events e m r) e' t =
    (if e = e' then (case assoc t (case m of Some x \<Rightarrow> x | None \<Rightarrow> []) of Some l \<Rightarrow> hs l | None \<Rightarrow> []) else handlers_at r e' t)"
  by (simp add: handlers_at_def)

lemma at_remove_type: "handlers_at (remove_type e type p r) e' t =
    (if e = e' \<and> t = type then filter (\<lambda>h. \<not> p h) (handlers_at r e' t) else handlers_at r e' t)"
  by (auto simp: remove_type_def Let_def handlers_at_def remove_handlers_def split: option.splits if_splits)

text \<open>The handlers of type \<open>t\<close> that a word with a type removes.\<close>

definition word_removes :: "nat option option \<Rightarrow> string \<Rightarrow> string \<Rightarrow> handle_obj \<Rightarrow> string \<Rightarrow> bool" where
  "word_removes og sel t h w \<longleftrightarrow> t = bound_type sel (type_part w) \<and> removable False (type_part w) og (ns_of w) sel h"

lemma at_remove_words: "\<forall>w \<in> set ws. type_part w \<noteq> [] \<Longrightarrow>
    handlers_at (fold (remove_word e og sel) ws r) e' t =
      (if e = e' then filter (\<lambda>h. \<not> (\<exists>w \<in> set ws. word_removes og sel t h w)) (handlers_at r e' t) else handlers_at r e' t)"
proof (induction ws arbitrary: r)
  case (Cons w ws)
  then have "handlers_at (fold (remove_word e og sel) (w # ws) r) e' t =
      (if e = e' then filter (\<lambda>h. \<not> (\<exists>w \<in> set ws. word_removes og sel t h w)) (handlers_at (remove_word e og sel w r) e' t)
       else handlers_at (remove_word e og sel w r) e' t)" by simp
  also have "handlers_at (remove_word e og sel w r) e' t =
      (if e = e' then filter (\<lambda>h. \<not> word_removes og sel t h w) (handlers_at r e' t) else handlers_at r e' t)"
    using Cons.prems by (simp add: remove_word_def at_remove_type word_removes_def)
  finally show ?case by (auto intro!: filter_cong)
qed auto

lemma at_drop: "handlers_at (drop_events e r) e' t = handlers_at r e' t"
  by (auto simp: drop_events_def handlers_at_def events_of_def set_events_def)

lemma at_event_remove:
  assumes "\<forall>w \<in> set (type_words types). type_part w \<noteq> []"
  shows "handlers_at (event_remove e types og sel r) e' t =
     (if e = e' then filter (\<lambda>h. \<not> (\<exists>w \<in> set (type_words types). word_removes og sel t h w)) (handlers_at r e' t)
      else handlers_at r e' t)"
proof (cases "events r e")
  case None
  then have "handlers_at r e t = []" by (simp add: handlers_at_def events_of_def)
  with None show ?thesis by (auto simp: event_remove_def)
next
  case (Some m)
  then show ?thesis
    using at_remove_words [of "rev (type_words types)" e og sel r e' t] assms by (simp add: event_remove_def at_drop)
qed

text \<open>
  \<open>off\<close> removes exactly the handlers its arguments describe, by type, namespaces, function and
  selector; every other handler of the element stays in its place, and other elements are untouched.
\<close>

theorem off_removes_exactly:
  assumes "\<forall>w \<in> set (type_words types). type_part w \<noteq> []"
  shows "handlers_at (event_remove e types og sel r) e' t =
     (if e = e' then filter (\<lambda>h. \<not> (\<exists>w \<in> set (type_words types). t = bound_type sel (type_part w)
          \<and> removable False (type_part w) og (ns_of w) sel h)) (handlers_at r e' t)
      else handlers_at r e' t)"
  using at_event_remove [OF assms, of e og sel r e' t] by (simp only: word_removes_def)

section \<open>Binding and unbinding\<close>

lemma names_in_self [simp]: "names_in ns ns"
  by (induction ns) auto

lemma ns_match_own: "ns_match (namespaces w) (join ''.'' (namespaces w))"
proof -
  have "namespaces w \<noteq> []" by (metis length_0_conv length_sort_by namespaces_def split_on_nonempty)
  moreover have "\<forall>x \<in> set (namespaces w). CHR ''.'' \<notin> set x" by (auto simp: namespaces_def dest: split_on_parts)
  ultimately have "split_on (CHR ''.'') (join ''.'' (namespaces w)) = namespaces w" by (rule split_on_join)
  then show ?thesis by (simp add: ns_match_def)
qed

text \<open>The handler object \<open>add\<close> makes for a word.\<close>

definition made :: "hfun \<Rightarrow> nat \<Rightarrow> nat option \<Rightarrow> string \<Rightarrow> string \<Rightarrow> handle_obj" where
  "made f g data sel w = \<lparr>h_type = bound_type sel (type_part w), origType = type_part w, h_data = data, handler = f, guid = g,
     selector = sel, namespace = join ''.'' (namespaces w)\<rparr>"

lemma made_removable: "word_removes (Some (Some g)) sel (bound_type sel (type_part w)) (made f g data sel w) w"
  by (simp add: word_removes_def removable_def made_def ns_of_def ns_match_own)

lemma at_add_one: "handlers_at (add_one e f g data sel w r) e' t =
    (if e = e' \<and> type_part w \<noteq> [] \<and> t = bound_type sel (type_part w)
     then hs (insert_handler (made f g data sel w) (case assoc t (events_of r e) of Some l \<Rightarrow> l | None \<Rightarrow> no_handlers))
     else handlers_at r e' t)"
  by (auto simp: add_one_def Let_def made_def handlers_at_def)

lemma hs_list: "hs (case assoc t (events_of r e) of Some l \<Rightarrow> l | None \<Rightarrow> no_handlers) = handlers_at r e t"
  by (auto simp: handlers_at_def no_handlers_def split: option.splits)

text \<open>What was there before a binding is what is left without the new handlers.\<close>

lemma filter_insert: "\<not> p h \<Longrightarrow> filter p (hs (insert_handler h l)) = filter p (hs l)"
  by (auto simp: insert_handler_def) (metis append_take_drop_id filter_append)

lemma at_fold_add: "filter (\<lambda>h. guid h \<noteq> g) (handlers_at (fold (add_one e f g data sel) ws r) e' t) = filter (\<lambda>h. guid h \<noteq> g) (handlers_at r e' t)"
proof (induction ws arbitrary: r)
  case (Cons w ws)
  have "filter (\<lambda>h. guid h \<noteq> g) (handlers_at (add_one e f g data sel w r) e' t) = filter (\<lambda>h. guid h \<noteq> g) (handlers_at r e' t)"
    by (simp add: at_add_one filter_insert made_def hs_list)
  with Cons show ?case by simp
qed simp

lemma new_handlers: "h \<in> set (handlers_at (fold (add_one e f g data sel) ws r) e' t) \<Longrightarrow>
    h \<in> set (handlers_at r e' t) \<or> (\<exists>w \<in> set ws. t = bound_type sel (type_part w) \<and> h = made f g data sel w)"
proof (induction ws arbitrary: r)
  case (Cons w ws)
  then consider "h \<in> set (handlers_at (add_one e f g data sel w r) e' t)" | "\<exists>w \<in> set ws. t = bound_type sel (type_part w) \<and> h = made f g data sel w"
    by fastforce
  then show ?case
  proof cases
    case 1
    then show ?thesis by (auto simp: at_add_one guid_insert hs_list split: if_splits)
  qed auto
qed simp

lemma old_guids: "ev_inv r \<Longrightarrow> h \<in> set (handlers_at r e t) \<Longrightarrow> guid h < next_guid r"
  using inv_list [of r t e] by (cases "assoc t (events_of r e)") (simp_all add: handlers_at_def)

lemma at_fold_other: "e \<noteq> e' \<Longrightarrow> handlers_at (fold (add_one e f g data sel) ws r) e' t = handlers_at r e' t"
  by (induction ws arbitrary: r) (simp_all add: at_add_one)

text \<open>
  Unbinding undoes binding: on a registry in order, \<open>off\<close> with the types, selector and function of
  a call of \<open>on\<close> for a function not bound before leaves every element with exactly the handlers, and
  their order, that it had.
\<close>

theorem on_off_restores:
  assumes "ev_inv r" "accepts d e" "guids r (fun_of f) = None" "\<forall>w \<in> set (type_words types). type_part w \<noteq> []"
    and "r1 = event_add d e types f data sel r"
  shows "handlers_at (event_remove e types (Some (guids r1 (fun_of f))) sel r1) e' t = handlers_at r e' t"
proof -
  let ?g = "next_guid r"
  have r1: "r1 = fold (add_one e f ?g data sel) (rev (type_words types))
      (set_events e (Some (events_of r e)) (r\<lparr>guids := (guids r)(fun_of f \<mapsto> ?g), next_guid := Suc ?g\<rparr>))"
    using assms(2,3,5) by (simp add: event_add_def ensure_guid_def)
  have base: "handlers_at (set_events e (Some (events_of r e)) (r\<lparr>guids := (guids r)(fun_of f \<mapsto> ?g), next_guid := Suc ?g\<rparr>)) e' t = handlers_at r e' t"
    by (simp add: handlers_at_def)
  have guids1: "guids (fold (add_one e f ?g data sel) ws x) = guids x" for ws x
    by (induction ws arbitrary: x) (simp_all add: add_one_def Let_def)
  have g1: "guids r1 (fun_of f) = Some ?g" by (simp add: r1 guids1)
  have old: "guid h \<noteq> ?g" if "h \<in> set (handlers_at r e' t)" for h using old_guids [OF assms(1) that] by simp
  have new: "(\<exists>w \<in> set (type_words types). word_removes (Some (Some ?g)) sel t h w) \<longleftrightarrow> guid h = ?g"
    if "h \<in> set (handlers_at r1 e' t)" for h
  proof
    show "\<exists>w \<in> set (type_words types). word_removes (Some (Some ?g)) sel t h w \<Longrightarrow> guid h = ?g"
      by (auto simp: word_removes_def removable_def)
    assume "guid h = ?g"
    with new_handlers [OF that [unfolded r1]] old base obtain w where
      "w \<in> set (type_words types)" "t = bound_type sel (type_part w)" "h = made f ?g data sel w" by auto
    then show "\<exists>w \<in> set (type_words types). word_removes (Some (Some ?g)) sel t h w" using made_removable by blast
  qed
  have kept: "filter (\<lambda>h. guid h \<noteq> ?g) (handlers_at r1 e' t) = handlers_at r e' t"
    using at_fold_add [of ?g e f data sel] old base by (simp add: r1)
  show ?thesis
  proof (cases "e = e'")
    case True
    have "filter (\<lambda>h. \<not> (\<exists>w \<in> set (type_words types). word_removes (Some (Some ?g)) sel t h w)) (handlers_at r1 e' t)
        = filter (\<lambda>h. guid h \<noteq> ?g) (handlers_at r1 e' t)"
      using new by (intro filter_cong) auto
    then show ?thesis using True kept by (simp add: at_event_remove [OF assms(4)] g1)
  next
    case False
    then show ?thesis using base by (simp add: at_event_remove [OF assms(4)] at_fold_other r1)
  qed
qed

section \<open>The order of calls\<close>


text \<open>What decides whether a handler is invoked does not change during a dispatch.\<close>

lemma invoked_call [simp]: "invoked d node (fst (call_handler act d' this node' h s)) = invoked d node (fst s)"
  by (cases s) (simp add: call_handler_def Let_def apply_outcome_def invoked_def [abs_def] crosses_def)



lemma run_handlers_invoked [simp]: "invoked d n (fst (fst (run_handlers act d this node l s))) = invoked d n (fst s)"
  by (induction l arbitrary: s) (simp_all add: case_prod_beta)
















section \<open>Witnesses\<close>

text \<open>A page: node 1 is the document, 2 a list in it, 3 an item of the list.\<close>

definition small_page :: page where
  "small_page = \<lparr>accepts = (\<lambda>_. True), is_elem = (\<lambda>n. n \<noteq> 1), has_node = (\<lambda>_. True), disabled = (\<lambda>_. False),
     up = (\<lambda>n. if n = 3 then [3, 2, 1] else if n = 2 then [2, 1] else [1]), contains = (\<lambda>a b. a = 2 \<and> b = 3),
     document = 1, window = 0, selects = (\<lambda>_ s n. s = ''li'' \<and> n = 3)\<rparr>"

definition quiet :: behaviour where
  "quiet f node ev = \<lparr>o_result = RUndefined, o_prevent = False, o_stop = False, o_stop_now = False,
     o_cmds = (if f = 8 then [EOff [2] ''click'' Missing Missing] else [])\<rparr>"

definition page_script :: "estep list" where
  "page_script = [Cmd (EOn False [2] ''click.menu'' (Func 7) Missing Missing), Cmd (EOn False [2] ''click'' (Text ''li'') (Func 8) Missing)]"

definition page_registry :: ev_registry where
  "page_registry = erun quiet small_page page_script no_events"

theorem handlers_in_order_witness:
  "(2, ''click'') \<in> set (listening page_registry) \<longleftrightarrow> assoc ''click'' (events_of page_registry 2) \<noteq> None"
  by (rule conjunct1 [OF handlers_in_order [OF page_registry_def [symmetric]]])

theorem off_removes_exactly_witness:
  "map (fun_of \<circ> handler) (handlers_at (event_remove 2 ''click.menu'' None [] page_registry) 2 ''click'') = [8]"
proof -
  have "\<forall>w \<in> set (type_words ''click.menu''). type_part w \<noteq> []" by code_simp
  note exact = off_removes_exactly [OF this, of 2 None "[]" page_registry 2 "''click''"]
  have "map (fun_of \<circ> handler) (if (2::nat) = 2 then filter (\<lambda>h. \<not> (\<exists>w \<in> set (type_words ''click.menu''). ''click'' = bound_type [] (type_part w)
          \<and> removable False (type_part w) None (ns_of w) [] h)) (handlers_at page_registry 2 ''click'')
      else handlers_at page_registry 2 ''click'') = [8]" by code_simp
  then show ?thesis unfolding exact .
qed

theorem on_off_restores_witness:
  "handlers_at (event_remove 2 ''click'' (Some (guids (event_add small_page 2 ''click'' (Direct 9) None ''li'' no_events) 9)) ''li''
     (event_add small_page 2 ''click'' (Direct 9) None ''li'' no_events)) 2 ''click'' = handlers_at no_events 2 ''click''"
proof -
  have "\<forall>w \<in> set (type_words ''click''). type_part w \<noteq> []" by code_simp
  from on_off_restores [OF inv_none _ _ this refl, of small_page 2 "Direct 9"] show ?thesis
    by (simp add: small_page_def no_events_def)
qed


end
