(* ===== verification/UI_Mouse.thy ===== *)
theory UI_Mouse
  imports UI_Number
begin

text \<open>
  The mouse interaction of jQuery UI that draggable, resizable, selectable, slider and sortable build
  on: from a mouse button pressed on a widget, over moves of the pointer, to its release. Several
  widgets share the variable \<open>mouseHandled\<close>. What the widgets do in \<open>_mouseCapture\<close>, \<open>_mouseStart\<close>
  and \<open>_mouseDrag\<close> is a parameter.
\<close>

section \<open>State\<close>

record mouse_event =
  pageX :: rat
  pageY :: rat
  which :: nat
  button :: nat
  target :: nat
  modifier :: bool      \<comment> \<open>a modifier key is pressed\<close>

record mouse =
  mouseStarted :: bool
  mouseMoved :: bool
  mouseDownEvent :: mouse_event
  delayMet :: bool
  delayTimer :: bool
  delegates :: bool     \<comment> \<open>the listeners for moves and releases are bound to the document\<close>
  ignoreMissingWhich :: bool
  preventClickEvent :: "nat \<Rightarrow> bool"

text \<open>What a widget is configured with and what its hooks answer.\<close>

record mouse_widget =
  distance :: rat
  delay :: nat
  cancels :: "nat \<Rightarrow> bool"               \<comment> \<open>the target is inside an element of \<open>cancel\<close>\<close>
  capture :: "mouse_event \<Rightarrow> bool"
  start_ok :: "mouse_event \<Rightarrow> bool"      \<comment> \<open>\<open>_mouseStart\<close> does not return \<open>false\<close>\<close>
  drag_ends :: "mouse_event \<Rightarrow> bool"     \<comment> \<open>\<open>_mouseDrag\<close> calls \<open>_mouseUp\<close>\<close>

datatype mouse_hook = Start nat | Drag nat | Stop nat

record mouse_world =
  mice :: "nat \<Rightarrow> mouse"
  mouseHandled :: bool
  hooks :: "mouse_hook list"

definition upd_mouse :: "nat \<Rightarrow> (mouse \<Rightarrow> mouse) \<Rightarrow> mouse_world \<Rightarrow> mouse_world" where
  "upd_mouse i f w = w\<lparr>mice := (mice w)(i := f (mice w i))\<rparr>"

definition hook :: "mouse_hook \<Rightarrow> mouse_world \<Rightarrow> mouse_world" where
  "hook h w = w\<lparr>hooks := hooks w @ [h]\<rparr>"

section \<open>Operations\<close>

definition mouseDistanceMet :: "mouse_widget \<Rightarrow> mouse_event \<Rightarrow> mouse_event \<Rightarrow> bool" where
  "mouseDistanceMet o' down ev \<longleftrightarrow> max \<bar>pageX down - pageX ev\<bar> \<bar>pageY down - pageY ev\<bar> \<ge> distance o'"

definition mouseUp :: "nat \<Rightarrow> mouse_event \<Rightarrow> mouse_world \<Rightarrow> mouse_world" where
  "mouseUp i ev w =
     (let w1 = upd_mouse i (\<lambda>m. m\<lparr>delegates := False\<rparr>) w;
          m = mice w i;
          w2 = (if mouseStarted m then
                  hook (Stop i)
                    (upd_mouse i (\<lambda>m. m\<lparr>mouseStarted := False,
                       preventClickEvent := (if target ev = target (mouseDownEvent m)
                          then (preventClickEvent m)(target ev := True) else preventClickEvent m)\<rparr>) w1)
                else w1)
      in (upd_mouse i (\<lambda>m. m\<lparr>delayTimer := False, ignoreMissingWhich := False\<rparr>) w2)\<lparr>mouseHandled := False\<rparr>)"

definition mouseDrag :: "mouse_widget \<Rightarrow> nat \<Rightarrow> mouse_event \<Rightarrow> mouse_world \<Rightarrow> mouse_world" where
  "mouseDrag o' i ev w = (let w1 = hook (Drag i) w in if drag_ends o' ev then mouseUp i ev w1 else w1)"

text \<open>\<open>_mouseStart\<close>: the flag is what it returns, and it is only counted as a start when it is not \<open>false\<close>.\<close>

definition mouseStart :: "mouse_widget \<Rightarrow> nat \<Rightarrow> mouse_event \<Rightarrow> mouse_world \<Rightarrow> mouse_world" where
  "mouseStart o' i ev w =
     (if start_ok o' ev then hook (Start i) (upd_mouse i (\<lambda>m. m\<lparr>mouseStarted := True\<rparr>) w)
      else upd_mouse i (\<lambda>m. m\<lparr>mouseStarted := False\<rparr>) w)"

definition mouseDown :: "mouse_widget \<Rightarrow> nat \<Rightarrow> mouse_event \<Rightarrow> mouse_world \<Rightarrow> mouse_world" where
  "mouseDown o' i ev w =
     (if mouseHandled w then w
      else
        let w1 = upd_mouse i (\<lambda>m. m\<lparr>mouseMoved := False\<rparr>) w;
            w2 = (if mouseStarted (mice w1 i) then mouseUp i ev w1 else w1);
            w3 = upd_mouse i (\<lambda>m. m\<lparr>mouseDownEvent := ev\<rparr>) w2
        in if which ev \<noteq> 1 \<or> cancels o' (target ev) \<or> \<not> capture o' ev then w3
           else
             let w4 = upd_mouse i (\<lambda>m. m\<lparr>delayMet := (delay o' = 0), delayTimer := (delay o' \<noteq> 0)\<rparr>) w3;
                 now = (mouseDistanceMet o' ev ev \<and> delayMet (mice w4 i));
                 w5 = (if now then mouseStart o' i ev w4 else w4)
             in if now \<and> \<not> mouseStarted (mice w5 i) then w5
                else (upd_mouse i (\<lambda>m. m\<lparr>preventClickEvent := (preventClickEvent m)(target ev := False), delegates := True\<rparr>) w5)
                       \<lparr>mouseHandled := True\<rparr>)"

text \<open>The part of \<open>_mouseMove\<close> after the checks for a release that was missed.\<close>

definition mouseMove_rest :: "mouse_widget \<Rightarrow> nat \<Rightarrow> mouse_event \<Rightarrow> mouse_world \<Rightarrow> mouse_world" where
  "mouseMove_rest o' i ev w =
     (let w1 = (if which ev \<noteq> 0 \<or> button ev \<noteq> 0 then upd_mouse i (\<lambda>m. m\<lparr>mouseMoved := True\<rparr>) w else w);
          m = mice w1 i
      in if mouseStarted m then mouseDrag o' i ev w1
         else if mouseDistanceMet o' (mouseDownEvent m) ev \<and> delayMet m then
           (let w2 = mouseStart o' i (mouseDownEvent m) w1
            in if mouseStarted (mice w2 i) then mouseDrag o' i ev w2 else mouseUp i ev w2)
         else w1)"

definition mouseMove :: "bool \<Rightarrow> mouse_widget \<Rightarrow> nat \<Rightarrow> mouse_event \<Rightarrow> mouse_world \<Rightarrow> mouse_world" where
  "mouseMove oldIE o' i ev w =
     (if mouseMoved (mice w i) then
        (if oldIE \<and> button ev = 0 then mouseUp i ev w
         else if which ev = 0 then
           (if modifier ev then mouseMove_rest o' i ev (upd_mouse i (\<lambda>m. m\<lparr>ignoreMissingWhich := True\<rparr>) w)
            else if \<not> ignoreMissingWhich (mice w i) then mouseUp i ev w
            else mouseMove_rest o' i ev w)
         else mouseMove_rest o' i ev w)
      else mouseMove_rest o' i ev w)"

text \<open>A click is suppressed once when the drag ended on the element it began on.\<close>

definition mouseClick :: "nat \<Rightarrow> nat \<Rightarrow> mouse_world \<Rightarrow> bool \<times> mouse_world" where
  "mouseClick i t w =
     (if preventClickEvent (mice w i) t
      then (True, upd_mouse i (\<lambda>m. m\<lparr>preventClickEvent := (preventClickEvent m)(t := False)\<rparr>) w)
      else (False, w))"

section \<open>A page of widgets\<close>

text \<open>
  \<open>ws\<close> lists the widgets of the page. Moves and releases reach the widgets whose listeners are bound;
  the release reaches the listener of the module first, which resets \<open>mouseHandled\<close>. A release outside
  of the window reaches nobody and is no step.
\<close>

datatype mouse_input = Down nat mouse_event | Move mouse_event | Up mouse_event | Timer nat | Click nat nat

definition document_each :: "nat list \<Rightarrow> (nat \<Rightarrow> mouse_world \<Rightarrow> mouse_world) \<Rightarrow> mouse_world \<Rightarrow> mouse_world" where
  "document_each ws f w = fold f (filter (\<lambda>i. delegates (mice w i)) ws) w"

fun mouse_step :: "bool \<Rightarrow> (nat \<Rightarrow> mouse_widget) \<Rightarrow> nat list \<Rightarrow> mouse_input \<Rightarrow> mouse_world \<Rightarrow> mouse_world" where
  "mouse_step ie os ws (Down i ev) w = (if i \<in> set ws then mouseDown (os i) i ev w else w)"
| "mouse_step ie os ws (Move ev) w = document_each ws (\<lambda>i. mouseMove ie (os i) i ev) w"
| "mouse_step ie os ws (Up ev) w = document_each ws (\<lambda>i. mouseUp i ev) (w\<lparr>mouseHandled := False\<rparr>)"
| "mouse_step ie os ws (Timer i) w = (if delayTimer (mice w i) then upd_mouse i (\<lambda>m. m\<lparr>delayMet := True\<rparr>) w else w)"
| "mouse_step ie os ws (Click i t) w = snd (mouseClick i t w)"

definition mouse_run :: "bool \<Rightarrow> (nat \<Rightarrow> mouse_widget) \<Rightarrow> nat list \<Rightarrow> mouse_input list \<Rightarrow> mouse_world \<Rightarrow> mouse_world" where
  "mouse_run ie os ws steps w = fold (mouse_step ie os ws) steps w"

definition idle_mouse :: mouse where
  "idle_mouse = \<lparr>mouseStarted = False, mouseMoved = False,
     mouseDownEvent = \<lparr>pageX = 0, pageY = 0, which = 0, button = 0, target = 0, modifier = False\<rparr>,
     delayMet = False, delayTimer = False, delegates = False, ignoreMissingWhich = False, preventClickEvent = (\<lambda>_. False)\<rparr>"

definition mouse_init :: mouse_world where
  "mouse_init = \<lparr>mice = (\<lambda>_. idle_mouse), mouseHandled = False, hooks = []\<rparr>"

section \<open>Drags\<close>

lemma distinct_filter_one: "distinct xs \<Longrightarrow> x \<in> set xs \<Longrightarrow> \<forall>y. p y \<longleftrightarrow> y = x \<Longrightarrow> filter p xs = [x]"
proof (induction xs)
  case (Cons a xs)
  then show ?case by (cases "a = x") (auto simp: filter_empty_conv)
qed simp

text \<open>The automaton of one widget: whether it is being dragged, \<open>None\<close> for a sequence of calls out of order.\<close>

fun drag_step :: "nat \<Rightarrow> mouse_hook \<Rightarrow> bool option \<Rightarrow> bool option" where
  "drag_step i (Start j) d = (if i = j then (if d = Some False then Some True else None) else d)"
| "drag_step i (Drag j) d = (if i = j then (if d = Some True then d else None) else d)"
| "drag_step i (Stop j) d = (if i = j then (if d = Some True then Some False else None) else d)"

definition dragging :: "nat \<Rightarrow> mouse_hook list \<Rightarrow> bool option" where
  "dragging i hs = fold (drag_step i) hs (Some False)"

lemma dragging_snoc: "dragging i (hs @ [h]) = drag_step i h (dragging i hs)"
  by (simp add: dragging_def)

definition mouse_inv :: "nat list \<Rightarrow> mouse_world \<Rightarrow> bool" where
  "mouse_inv ws w \<longleftrightarrow>
     (\<forall>i. dragging i (hooks w) = Some (mouseStarted (mice w i)))
     \<and> (\<forall>i. mouseStarted (mice w i) \<longrightarrow> delegates (mice w i))
     \<and> (\<forall>i. delegates (mice w i) \<longrightarrow> mouseHandled w \<and> i \<in> set ws)
     \<and> (\<forall>i j. delegates (mice w i) \<longrightarrow> delegates (mice w j) \<longrightarrow> i = j)"

text \<open>
  While one widget is at work: every other one is idle and unbound. \<open>settled\<close> holds between the steps,
  \<open>owned\<close> also inside them.
\<close>

definition owned :: "nat \<Rightarrow> mouse_world \<Rightarrow> bool" where
  "owned i w \<longleftrightarrow> (\<forall>j. dragging j (hooks w) = Some (mouseStarted (mice w j)))
     \<and> (\<forall>j. j \<noteq> i \<longrightarrow> \<not> delegates (mice w j) \<and> \<not> mouseStarted (mice w j))"

definition settled :: "nat \<Rightarrow> mouse_world \<Rightarrow> bool" where
  "settled i w \<longleftrightarrow> owned i w \<and> (mouseStarted (mice w i) \<longrightarrow> delegates (mice w i)) \<and> (delegates (mice w i) \<longrightarrow> mouseHandled w)"

lemma upd_mouse_simps [simp]:
  "mice (upd_mouse i f w) = (mice w)(i := f (mice w i))" "hooks (upd_mouse i f w) = hooks w" "mouseHandled (upd_mouse i f w) = mouseHandled w"
  by (simp_all add: upd_mouse_def)

lemma hook_simps [simp]: "mice (hook h w) = mice w" "hooks (hook h w) = hooks w @ [h]" "mouseHandled (hook h w) = mouseHandled w"
  by (simp_all add: hook_def)

lemma owned_upd: "owned i w \<Longrightarrow> mouseStarted (f (mice w i)) = mouseStarted (mice w i) \<Longrightarrow> owned i (upd_mouse i f w)"
  by (auto simp: owned_def)

lemma owned_handled [simp]: "owned i (mouseHandled_update f w) = owned i w"
  by (simp add: owned_def)

lemma up_simps:
  "mouseStarted (mice (mouseUp i ev w) j) = (i \<noteq> j \<and> mouseStarted (mice w j))"
  "delegates (mice (mouseUp i ev w) j) = (i \<noteq> j \<and> delegates (mice w j))" "\<not> mouseHandled (mouseUp i ev w)"
  by (simp_all add: mouseUp_def Let_def)

lemma up_owned: assumes "owned i w" shows "owned i (mouseUp i ev w)"
proof -
  have "dragging j (hooks (mouseUp i ev w)) = Some (mouseStarted (mice (mouseUp i ev w) j))" for j
    using assms by (auto simp: mouseUp_def Let_def owned_def dragging_snoc)
  then show ?thesis using assms by (simp add: owned_def up_simps)
qed

lemma up_settled: "owned i w \<Longrightarrow> settled i (mouseUp i ev w)"
  by (simp add: settled_def up_owned up_simps)

lemma start_owned: "owned i w \<Longrightarrow> \<not> mouseStarted (mice w i) \<Longrightarrow> owned i (mouseStart o' i ev w)"
  by (auto simp: mouseStart_def owned_def dragging_snoc)

lemma start_simps [simp]:
  "delegates (mice (mouseStart o' i ev w) j) = delegates (mice w j)" "mouseHandled (mouseStart o' i ev w) = mouseHandled w"
  by (simp_all add: mouseStart_def)

lemma drag_settled: assumes "settled i w" "mouseStarted (mice w i)" shows "settled i (mouseDrag o' i ev w)"
proof -
  have o: "owned i (hook (Drag i) w)" using assms by (auto simp: settled_def owned_def dragging_snoc)
  show ?thesis
  proof (cases "drag_ends o' ev")
    case True
    then show ?thesis using up_settled [OF o] by (simp add: mouseDrag_def Let_def)
  next
    case False
    then show ?thesis using o assms by (simp add: mouseDrag_def Let_def settled_def)
  qed
qed

lemma settled_upd:
  "settled i w \<Longrightarrow> mouseStarted (f (mice w i)) = mouseStarted (mice w i) \<Longrightarrow> delegates (f (mice w i)) = delegates (mice w i) \<Longrightarrow>
     settled i (upd_mouse i f w)"
  by (simp add: settled_def owned_upd)

lemma move_rest_settled: assumes "settled i w" "delegates (mice w i)" shows "settled i (mouseMove_rest o' i ev w)"
proof -
  define w1 where "w1 = (if which ev \<noteq> 0 \<or> button ev \<noteq> 0 then upd_mouse i (\<lambda>m. m\<lparr>mouseMoved := True\<rparr>) w else w)"
  define w2 where "w2 = mouseStart o' i (mouseDownEvent (mice w1 i)) w1"
  have s: "settled i w1" "delegates (mice w1 i)" using assms by (simp_all add: w1_def settled_upd)
  have move: "mouseMove_rest o' i ev w =
      (if mouseStarted (mice w1 i) then mouseDrag o' i ev w1
       else if mouseDistanceMet o' (mouseDownEvent (mice w1 i)) ev \<and> delayMet (mice w1 i) then
         (if mouseStarted (mice w2 i) then mouseDrag o' i ev w2 else mouseUp i ev w2)
       else w1)"
    by (simp only: mouseMove_rest_def Let_def w1_def [symmetric] w2_def [symmetric])
  have s2: "settled i w2" if "\<not> mouseStarted (mice w1 i)"
    using s that start_owned [of i w1] by (simp add: w2_def settled_def)
  show ?thesis
    using s s2 drag_settled [of i w1] drag_settled [of i w2] up_settled [of i w2] unfolding move
    by (simp add: settled_def [of i w2])
qed

lemma move_settled: assumes "settled i w" "delegates (mice w i)" shows "settled i (mouseMove ie o' i ev w)"
proof -
  have "settled i (upd_mouse i (\<lambda>m. m\<lparr>ignoreMissingWhich := True\<rparr>) w)" using assms by (simp add: settled_upd)
  moreover have "settled i (mouseUp i ev w)" using assms up_settled by (simp add: settled_def)
  ultimately show ?thesis using assms by (simp add: mouseMove_def move_rest_settled)
qed

lemma down_settled: assumes "settled i w" "\<not> delegates (mice w i)" "\<not> mouseHandled w" shows "settled i (mouseDown o' i ev w)"
proof -
  have idle: "\<not> mouseStarted (mice w i)" using assms by (simp add: settled_def)
  define w3 where "w3 = upd_mouse i (\<lambda>m. m\<lparr>mouseDownEvent := ev\<rparr>) (upd_mouse i (\<lambda>m. m\<lparr>mouseMoved := False\<rparr>) w)"
  define w4 where "w4 = upd_mouse i (\<lambda>m. m\<lparr>delayMet := (delay o' = 0), delayTimer := (delay o' \<noteq> 0)\<rparr>) w3"
  define now where "now \<longleftrightarrow> mouseDistanceMet o' ev ev \<and> delayMet (mice w4 i)"
  define w5 where "w5 = (if now then mouseStart o' i ev w4 else w4)"
  have s3: "settled i w3" "\<not> mouseStarted (mice w3 i)" "\<not> delegates (mice w3 i)" using assms idle by (simp_all add: w3_def settled_upd)
  then have s4: "settled i w4" "\<not> mouseStarted (mice w4 i)" "\<not> delegates (mice w4 i)" by (simp_all add: w4_def settled_upd)
  then have s5: "owned i w5" "\<not> delegates (mice w5 i)" by (simp_all add: w5_def settled_def start_owned)
  have "mouseDown o' i ev w =
      (if which ev \<noteq> 1 \<or> cancels o' (target ev) \<or> \<not> capture o' ev then w3
       else if now \<and> \<not> mouseStarted (mice w5 i) then w5
       else (upd_mouse i (\<lambda>m. m\<lparr>preventClickEvent := (preventClickEvent m)(target ev := False), delegates := True\<rparr>) w5)\<lparr>mouseHandled := True\<rparr>)"
    using assms(3) idle by (simp add: mouseDown_def Let_def w3_def w4_def w5_def now_def)
  moreover have "settled i ((upd_mouse i (\<lambda>m. m\<lparr>preventClickEvent := (preventClickEvent m)(target ev := False), delegates := True\<rparr>) w5)\<lparr>mouseHandled := True\<rparr>)"
    using s5 by (simp add: settled_def owned_upd)
  moreover have "\<not> mouseStarted (mice w5 i) \<Longrightarrow> settled i w5" using s5 by (simp add: settled_def)
  ultimately show ?thesis using s3(1) by simp
qed

text \<open>The invariant says that some widget is settled, and all widgets are when nobody holds the mouse.\<close>

lemma inv_settled: "mouse_inv ws w \<Longrightarrow> delegates (mice w i) \<or> (\<forall>j. \<not> delegates (mice w j)) \<Longrightarrow> settled i w"
  unfolding mouse_inv_def settled_def owned_def by blast

lemma settled_inv: "settled i w \<Longrightarrow> i \<in> set ws \<Longrightarrow> mouse_inv ws w"
  unfolding mouse_inv_def settled_def owned_def by (metis option.inject)

text \<open>With distinct widgets a document event reaches the one that holds the mouse, or none.\<close>

lemma bound_widgets:
  assumes "mouse_inv ws w" "distinct ws"
  obtains (none) "\<forall>j. \<not> delegates (mice w j)" "filter (\<lambda>i. delegates (mice w i)) ws = []"
    | (one) i where "i \<in> set ws" "delegates (mice w i)" "filter (\<lambda>i. delegates (mice w i)) ws = [i]"
proof (cases "\<exists>i. delegates (mice w i)")
  case True
  then obtain i where i: "delegates (mice w i)" by blast
  have "\<forall>j. delegates (mice w j) \<longleftrightarrow> j = i" "i \<in> set ws" using assms(1) i unfolding mouse_inv_def by blast+
  then have "filter (\<lambda>i. delegates (mice w i)) ws = [i]"
    using assms(2) by (simp add: distinct_filter_one)
  then show thesis using i \<open>i \<in> set ws\<close> by (intro one)
qed (auto intro: none)

lemma mouse_inv_step: assumes "mouse_inv ws w" "distinct ws" shows "mouse_inv ws (mouse_step ie os ws s w)"
proof (cases s)
  case (Down i ev)
  show ?thesis
  proof (cases "i \<in> set ws \<and> \<not> mouseHandled w")
    case True
    then have "\<forall>j. \<not> delegates (mice w j)" using assms(1) by (auto simp: mouse_inv_def)
    then have "settled i (mouseDown (os i) i ev w)" using True inv_settled [OF assms(1)] by (simp add: down_settled)
    then show ?thesis using True Down settled_inv by simp
  next
    case False
    then show ?thesis using Down assms by (auto simp: mouseDown_def)
  qed
next
  case (Move ev)
  show ?thesis
    using assms
  proof (cases rule: bound_widgets)
    case (one i)
    then have "settled i (mouseMove ie (os i) i ev w)" using inv_settled [OF assms(1)] by (simp add: move_settled)
    then show ?thesis using one Move settled_inv by (simp add: document_each_def)
  qed (simp add: Move document_each_def assms)
next
  case (Up ev)
  show ?thesis
    using assms
  proof (cases rule: bound_widgets)
    case none
    then have "mouse_inv ws (w\<lparr>mouseHandled := False\<rparr>)" using assms(1) by (simp add: mouse_inv_def)
    then show ?thesis using none Up by (simp add: document_each_def)
  next
    case (one i)
    then have "owned i (w\<lparr>mouseHandled := False\<rparr>)" using inv_settled [OF assms(1)] by (simp add: settled_def)
    then show ?thesis using one Up settled_inv [OF up_settled] by (simp add: document_each_def)
  qed
next
  case (Timer i)
  then show ?thesis using assms by (auto simp: mouse_inv_def)
next
  case (Click i t)
  then show ?thesis using assms by (auto simp: mouse_inv_def mouseClick_def)
qed

interpretation mice: invariant_system "mouse_step ie os ws" "\<lambda>_ _. True" "\<lambda>w. distinct ws \<and> mouse_inv ws w" for ie os ws
  by unfold_locales (simp add: mouse_inv_step)

lemma mouse_inv_run: "mouse_inv ws w \<Longrightarrow> distinct ws \<Longrightarrow> mouse_inv ws (mouse_run ie os ws ss w)"
  using mice.run_inv [of ws w ie os ss] by (simp add: mouse_run_def)

lemma inv_init: "mouse_inv ws mouse_init"
  by (simp add: mouse_inv_def mouse_init_def idle_mouse_def dragging_def)

text \<open>
  C12. For every sequence of mouse events on a page of widgets: each widget is started, dragged and
  stopped in this order, never dragged before a start or after a stop, and whether it is in a drag
  is what \<open>_mouseStarted\<close> says; and no two widgets are ever dragged at the same time.
\<close>

theorem drags_in_order:
  assumes "distinct ws" "mouse_run ie os ws steps mouse_init = w"
  shows "dragging i (hooks w) = Some (mouseStarted (mice w i)) \<and> (mouseStarted (mice w i) \<longrightarrow> mouseStarted (mice w j) \<longrightarrow> i = j)"
proof -
  have "mouse_inv ws w" using mouse_inv_run [OF inv_init assms(1)] assms(2) by blast
  then show ?thesis unfolding mouse_inv_def by blast
qed

text \<open>
  Releasing the button ends every drag: after the release no widget is dragged, none listens for
  moves any more and the mouse is free; a drag that was going on has been stopped.
\<close>

theorem release_ends_drag:
  assumes "distinct ws" "mouse_run ie os ws (steps @ [Up ev]) mouse_init = w"
  shows "\<not> mouseStarted (mice w i) \<and> \<not> delegates (mice w i) \<and> \<not> mouseHandled w \<and> dragging i (hooks w) = Some False"
proof -
  let ?v = "mouse_run ie os ws steps mouse_init"
  have v: "mouse_inv ws ?v" using mouse_inv_run [OF inv_init assms(1)] by blast
  have w: "w = document_each ws (\<lambda>i. mouseUp i ev) (?v\<lparr>mouseHandled := False\<rparr>)" using assms(2) by (simp add: mouse_run_def)
  have idle: "\<not> delegates (mice w i) \<and> \<not> mouseHandled w"
    using v assms(1)
  proof (cases rule: bound_widgets)
    case none
    then show ?thesis by (simp add: w document_each_def)
  next
    case (one k)
    then have only: "delegates (mice ?v i) \<longrightarrow> i = k" using v unfolding mouse_inv_def by blast
    have "w = mouseUp k ev (?v\<lparr>mouseHandled := False\<rparr>)" using one(3) by (simp add: w document_each_def)
    then have "delegates (mice w i) = (k \<noteq> i \<and> delegates (mice ?v i))" "\<not> mouseHandled w" by (simp_all add: up_simps)
    with only show ?thesis by blast
  qed
  have "mouse_inv ws w" using mouse_inv_run [OF inv_init assms(1)] assms(2) by blast
  then have "\<not> mouseStarted (mice w i) \<and> dragging i (hooks w) = Some (mouseStarted (mice w i))"
    using idle unfolding mouse_inv_def by blast
  with idle show ?thesis by simp
qed

text \<open>
  A press during a drag does nothing, whatever widget it hits: the statement of \<open>_mouseDown\<close> that
  ends a drag whose release was missed is never reached, because \<open>mouseHandled\<close> is still set then.
\<close>

theorem press_during_drag_ignored:
  assumes "distinct ws" "mouse_run ie os ws steps mouse_init = w" "mouseStarted (mice w i)"
  shows "mouse_step ie os ws (Down j ev) w = w"
proof -
  have "mouse_inv ws w" using mouse_inv_run [OF inv_init assms(1)] assms(2) by blast
  then have "mouseHandled w" using assms(3) by (auto simp: mouse_inv_def)
  then show ?thesis by (simp add: mouseDown_def)
qed

definition plain_widget :: mouse_widget where
  "plain_widget = \<lparr>distance = 1, delay = 0, cancels = (\<lambda>_. False), capture = (\<lambda>_. True), start_ok = (\<lambda>_. True), drag_ends = (\<lambda>_. False)\<rparr>"

definition at_point :: "rat \<Rightarrow> mouse_event" where
  "at_point x = \<lparr>pageX = x, pageY = 0, which = 1, button = 0, target = 5, modifier = False\<rparr>"

definition two_widgets :: mouse_world where
  "two_widgets = mouse_run False (\<lambda>_. plain_widget) [1, 2] [Down 1 (at_point 0), Down 2 (at_point 0), Move (at_point 3), Move (at_point 4)] mouse_init"

theorem drags_in_order_witness: "dragging 1 (hooks two_widgets) = Some (mouseStarted (mice two_widgets 1)) \<and> hooks two_widgets = [Start 1, Drag 1, Drag 1]"
proof -
  have "distinct [1, 2 :: nat]" by simp
  from drags_in_order [OF this two_widgets_def [symmetric], of 1]
  have "dragging 1 (hooks two_widgets) = Some (mouseStarted (mice two_widgets 1))" ..
  moreover have "hooks two_widgets = [Start 1, Drag 1, Drag 1]" by code_simp
  ultimately show ?thesis by simp
qed

theorem release_ends_drag_witness:
  "\<not> mouseStarted (mice (mouse_run False (\<lambda>_. plain_widget) [1, 2] ([Down 1 (at_point 0), Move (at_point 3)] @ [Up (at_point 3)]) mouse_init) 1)"
  using release_ends_drag [OF _ refl, of "[1, 2]" False "\<lambda>_. plain_widget" "[Down 1 (at_point 0), Move (at_point 3)]" "at_point 3" 1] by simp

theorem press_during_drag_ignored_witness: "mouse_step False (\<lambda>_. plain_widget) [1, 2] (Down 1 (at_point 9)) two_widgets = two_widgets"
proof (rule press_during_drag_ignored [OF _ two_widgets_def [symmetric], of 1])
  show "mouseStarted (mice two_widgets 1)" by code_simp
qed simp

end
