(* ===== verification/UI_Position.thy ===== *)
theory UI_Position
  imports JQ_Words UI_Number
begin

text \<open>
  The position utility of jQuery UI: an element is placed beside a target and moved or flipped when
  it would leave a frame. Sizes, offsets and scroll positions are measured by the browser and
  arguments of the model; numbers are exact rationals.
\<close>

section \<open>Measured values\<close>

record point =
  pleft :: rat
  ptop :: rat

text \<open>The target: a document, a window, an event or an element.\<close>

datatype target = TDocument rat rat | TWindow rat rat point | TEvent point | TElement rat rat point

definition getDimensions :: "target \<Rightarrow> rat \<times> rat \<times> point" where
  "getDimensions t =
     (case t of
        TDocument w h \<Rightarrow> (w, h, \<lparr>pleft = 0, ptop = 0\<rparr>)
      | TWindow w h scroll \<Rightarrow> (w, h, scroll)
      | TEvent page \<Rightarrow> (0, 0, page)
      | TElement w h offset \<Rightarrow> (w, h, offset))"

text \<open>The frame, with the values the browser gives for the element, and \<open>getWithinInfo\<close>.\<close>

record container =
  isWindow :: bool
  isDocument :: bool
  w_offset :: point
  w_scroll :: point
  w_width :: rat
  w_height :: rat
  overflowX :: string
  overflowY :: string
  scrollWidth :: rat
  scrollHeight :: rat

definition getWithinInfo :: "container \<Rightarrow> container" where
  "getWithinInfo f = (if isWindow f \<or> isDocument f then f\<lparr>w_offset := \<lparr>pleft = 0, ptop = 0\<rparr>\<rparr> else f)"

definition has_overflow :: "bool \<Rightarrow> string \<Rightarrow> rat \<Rightarrow> rat \<Rightarrow> bool" where
  "has_overflow whole overflow extent scrollSize \<longleftrightarrow>
     (let o' = (if whole then [] else overflow) in o' = ''scroll'' \<or> o' = ''auto'' \<and> extent < scrollSize)"

text \<open>The room for scroll bars; \<open>bar\<close> is \<open>$.position.scrollbarWidth()\<close>, which measures one.\<close>

definition getScrollInfo :: "rat \<Rightarrow> container \<Rightarrow> rat \<times> rat" where
  "getScrollInfo bar f =
     (let whole = (isWindow f \<or> isDocument f)
      in (if has_overflow whole (overflowY f) (w_height f) (scrollHeight f) then bar else 0,
          if has_overflow whole (overflowX f) (w_width f) (scrollWidth f) then bar else 0))"

section \<open>The options \<open>my\<close> and \<open>at\<close>\<close>

definition contains_any :: "string list \<Rightarrow> string \<Rightarrow> bool" where
  "contains_any ps s \<longleftrightarrow> list_ex (\<lambda>p. index_of_text p s \<noteq> None) ps"

definition rhorizontal :: "string \<Rightarrow> bool" where
  "rhorizontal = contains_any [''left'', ''center'', ''right'']"

definition rvertical :: "string \<Rightarrow> bool" where
  "rvertical = contains_any [''top'', ''center'', ''bottom'']"

text \<open>The match of \<open>roffset\<close> at the start of a text, and the first one in it.\<close>

definition fraction :: "string \<Rightarrow> string" where
  "fraction r = (case r of
     CHR ''.'' # s \<Rightarrow> if takeWhile is_digit s = [] then [] else CHR ''.'' # takeWhile is_digit s
   | _ \<Rightarrow> [])"

definition offset_here :: "string \<Rightarrow> string option" where
  "offset_here s =
     (case s of
        [] \<Rightarrow> None
      | c # r \<Rightarrow>
          (let ds = takeWhile is_digit r; f = fraction (drop (length ds) r); rest = drop (length ds + length f) r
           in if (c = CHR ''+'' \<or> c = CHR ''-'') \<and> ds \<noteq> []
              then Some (c # ds @ f @ (if starts ''%'' rest then ''%'' else [])) else None))"

fun roffset :: "string \<Rightarrow> string option" where
  "roffset [] = None"
| "roffset (c # s) = (case offset_here (c # s) of Some m \<Rightarrow> Some m | None \<Rightarrow> roffset s)"

definition rposition :: "string \<Rightarrow> string option" where
  "rposition s = (let w = takeWhile is_word s in if w = [] then None else Some w)"

text \<open>\<open>parseFloat\<close> of an offset: sign, digits and fraction.\<close>

definition offset_number :: "string \<Rightarrow> rat" where
  "offset_number s =
     (let ds = takeWhile is_digit (drop 1 s); f = drop 1 (fraction (drop (length ds) (drop 1 s)));
          v = of_nat (digits_val ds) + of_nat (digits_val f) / 10 ^ length f
      in if starts ''-'' s then - v else v)"

definition offset_value :: "string option \<Rightarrow> rat \<Rightarrow> rat" where
  "offset_value m extent =
     (case m of
        None \<Rightarrow> 0
      | Some s \<Rightarrow> offset_number s * (if s \<noteq> [] \<and> last s = CHR ''%'' then extent / 100 else 1))"

definition getOffsets :: "string option \<times> string option \<Rightarrow> rat \<Rightarrow> rat \<Rightarrow> rat \<times> rat" where
  "getOffsets offs w h = (offset_value (fst offs) w, offset_value (snd offs) h)"

text \<open>The two words of an option; a missing or invalid one becomes \<open>center\<close>.\<close>

definition two_words :: "string \<Rightarrow> string \<times> string" where
  "two_words opt =
     (case split_on (CHR '' '') opt of
        [p] \<Rightarrow> if rhorizontal p then (p, ''center'') else if rvertical p then (''center'', p) else (''center'', ''center'')
      | p # q # _ \<Rightarrow> (p, q)
      | [] \<Rightarrow> ([], []))"

text \<open>The sides and the offsets of an option; \<open>None\<close> when \<open>rposition.exec( ... )[ 0 ]\<close> throws.\<close>

definition parse_option :: "string \<Rightarrow> ((string \<times> string) \<times> (string option \<times> string option)) option" where
  "parse_option opt =
     (let (p, q) = two_words opt;
          h = (if rhorizontal p then p else ''center'');
          v = (if rvertical q then q else ''center'')
      in case (rposition h, rposition v) of
           (Some a, Some b) \<Rightarrow> Some ((a, b), (roffset h, roffset v))
         | _ \<Rightarrow> None)"

section \<open>Collisions on one axis\<close>

text \<open>
  The functions for \<open>left\<close> and for \<open>top\<close> have the same text on the two axes. The arguments are the
  offset of the frame, its size, the margin and the size of the element with its margins.
\<close>

definition fit_axis :: "rat \<Rightarrow> rat \<Rightarrow> rat \<Rightarrow> rat \<Rightarrow> rat \<Rightarrow> rat" where
  "fit_axis withinOffset outer margin coll pos =
     (let collisionPos = pos - margin;
          overLeft = withinOffset - collisionPos;
          overRight = collisionPos + coll - outer - withinOffset
      in if coll > outer then
           (if overLeft > 0 \<and> overRight \<le> 0 then
              (let newOverRight = pos + overLeft + coll - outer - withinOffset in pos + (overLeft - newOverRight))
            else if overRight > 0 \<and> overLeft \<le> 0 then withinOffset
            else if overLeft > overRight then withinOffset + outer - coll else withinOffset)
         else if overLeft > 0 then pos + overLeft
         else if overRight > 0 then pos - overRight
         else max (pos - collisionPos) pos)"

text \<open>The displacement of a flip: \<open>myOffset + atOffset + offset\<close>.\<close>

definition flip_shift :: "string \<Rightarrow> string \<Rightarrow> string \<Rightarrow> string \<Rightarrow> rat \<Rightarrow> rat \<Rightarrow> rat \<Rightarrow> rat" where
  "flip_shift near far m a elemSize targetSize off =
     (if m = near then - elemSize else if m = far then elemSize else 0)
     + (if a = near then targetSize else if a = far then - targetSize else 0)
     + (-2) * off"

definition flip_axis :: "rat \<Rightarrow> rat \<Rightarrow> rat \<Rightarrow> rat \<Rightarrow> rat \<Rightarrow> rat \<Rightarrow> rat \<Rightarrow> rat" where
  "flip_axis withinOffset frameOffset outer margin coll shift pos =
     (let collisionPos = pos - margin;
          overLeft = collisionPos - frameOffset;
          overRight = collisionPos + coll - outer - frameOffset
      in if overLeft < 0 then
           (let newOverRight = pos + shift + coll - outer - withinOffset
            in if newOverRight < 0 \<or> newOverRight < \<bar>overLeft\<bar> then pos + shift else pos)
         else if overRight > 0 then
           (let newOverLeft = pos - margin + shift - frameOffset
            in if newOverLeft > 0 \<or> \<bar>newOverLeft\<bar> < overRight then pos + shift else pos)
         else pos)"

section \<open>Placing an element\<close>

record placed =
  elemWidth :: rat
  elemHeight :: rat
  marginLeft :: rat
  marginTop :: rat
  marginRight :: rat
  marginBottom :: rat

record collision_data =
  targetWidth :: rat
  targetHeight :: rat
  d_elem :: placed
  collisionWidth :: rat
  collisionHeight :: rat
  offset :: "rat \<times> rat"
  my_side :: "string \<times> string"
  at_side :: "string \<times> string"
  frame :: container

definition frame_left :: "container \<Rightarrow> rat" where
  "frame_left f = (if isWindow f then pleft (w_scroll f) else pleft (w_offset f))"

definition frame_top :: "container \<Rightarrow> rat" where
  "frame_top f = (if isWindow f then ptop (w_scroll f) else ptop (w_offset f))"

definition fit_left :: "collision_data \<Rightarrow> point \<Rightarrow> point" where
  "fit_left d p = p\<lparr>pleft := fit_axis (frame_left (frame d)) (w_width (frame d)) (marginLeft (d_elem d)) (collisionWidth d) (pleft p)\<rparr>"

definition fit_top :: "collision_data \<Rightarrow> point \<Rightarrow> point" where
  "fit_top d p = p\<lparr>ptop := fit_axis (frame_top (frame d)) (w_height (frame d)) (marginTop (d_elem d)) (collisionHeight d) (ptop p)\<rparr>"

definition flip_left :: "collision_data \<Rightarrow> point \<Rightarrow> point" where
  "flip_left d p =
     p\<lparr>pleft := flip_axis (pleft (w_offset (frame d)) + pleft (w_scroll (frame d))) (frame_left (frame d)) (w_width (frame d))
        (marginLeft (d_elem d)) (collisionWidth d)
        (flip_shift ''left'' ''right'' (fst (my_side d)) (fst (at_side d)) (elemWidth (d_elem d)) (targetWidth d) (fst (offset d))) (pleft p)\<rparr>"

definition flip_top :: "collision_data \<Rightarrow> point \<Rightarrow> point" where
  "flip_top d p =
     p\<lparr>ptop := flip_axis (ptop (w_offset (frame d)) + ptop (w_scroll (frame d))) (frame_top (frame d)) (w_height (frame d))
        (marginTop (d_elem d)) (collisionHeight d)
        (flip_shift ''top'' ''bottom'' (snd (my_side d)) (snd (at_side d)) (elemHeight (d_elem d)) (targetHeight d) (snd (offset d))) (ptop p)\<rparr>"

definition collide_left :: "string \<Rightarrow> collision_data \<Rightarrow> point \<Rightarrow> point" where
  "collide_left c d p =
     (if c = ''fit'' then fit_left d p
      else if c = ''flip'' then flip_left d p
      else if c = ''flipfit'' then fit_left d (flip_left d p)
      else p)"

definition collide_top :: "string \<Rightarrow> collision_data \<Rightarrow> point \<Rightarrow> point" where
  "collide_top c d p =
     (if c = ''fit'' then fit_top d p
      else if c = ''flip'' then flip_top d p
      else if c = ''flipfit'' then fit_top d (flip_top d p)
      else p)"

text \<open>The side of the target and of the element a word names, on either axis.\<close>

definition side_part :: "string \<Rightarrow> string \<Rightarrow> rat \<Rightarrow> rat" where
  "side_part far w extent = (if w = far then extent else if w = ''center'' then extent / 2 else 0)"

definition collisions :: "string \<Rightarrow> string \<times> string" where
  "collisions opt =
     (case split_on (CHR '' '') (if opt = [] then ''flip'' else opt) of
        [c] \<Rightarrow> (c, c)
      | c # c' # _ \<Rightarrow> (c, c')
      | [] \<Rightarrow> ([], []))"

record position_options =
  my_opt :: string
  at_opt :: string
  o_collision :: string

definition base_position :: "string \<times> string \<Rightarrow> rat \<Rightarrow> rat \<Rightarrow> point \<Rightarrow> rat \<times> rat \<Rightarrow> point" where
  "base_position at' tw th targetOffset atOffset =
     \<lparr>pleft = pleft targetOffset + side_part ''right'' (fst at') tw + fst atOffset,
      ptop = ptop targetOffset + side_part ''bottom'' (snd at') th + snd atOffset\<rparr>"

text \<open>One element of the set: its position before and after the collisions.\<close>

definition start_position :: "string \<times> string \<Rightarrow> placed \<Rightarrow> point \<Rightarrow> rat \<times> rat \<Rightarrow> point" where
  "start_position my' e base myOffset =
     \<lparr>pleft = pleft base - side_part ''right'' (fst my') (elemWidth e) + fst myOffset,
      ptop = ptop base - side_part ''bottom'' (snd my') (elemHeight e) + snd myOffset\<rparr>"

record feedback =
  horizontal :: string
  vertical :: string
  important :: string

definition feedback_of :: "rat \<Rightarrow> rat \<Rightarrow> point \<Rightarrow> placed \<Rightarrow> point \<Rightarrow> feedback" where
  "feedback_of tw th targetOffset e p =
     (let l = pleft targetOffset - pleft p; r = l + tw - elemWidth e;
          t = ptop targetOffset - ptop p; b = t + th - elemHeight e
      in \<lparr>horizontal = (if tw < elemWidth e \<and> \<bar>l + r\<bar> < tw then ''center''
                         else if r < 0 then ''left'' else if l > 0 then ''right'' else ''center''),
          vertical = (if th < elemHeight e \<and> \<bar>t + b\<bar> < th then ''middle''
                       else if b < 0 then ''top'' else if t > 0 then ''bottom'' else ''middle''),
          important = (if max \<bar>l\<bar> \<bar>r\<bar> > max \<bar>t\<bar> \<bar>b\<bar> then ''horizontal'' else ''vertical'')\<rparr>)"

definition collision_of :: "rat \<Rightarrow> container \<Rightarrow> rat \<Rightarrow> rat \<Rightarrow> rat \<times> rat \<Rightarrow> rat \<times> rat \<Rightarrow> string \<times> string \<Rightarrow> string \<times> string \<Rightarrow> placed \<Rightarrow> collision_data" where
  "collision_of bar f tw th atOffset myOffset my' at' e =
     \<lparr>targetWidth = tw, targetHeight = th, d_elem = e,
      collisionWidth = elemWidth e + marginLeft e + marginRight e + fst (getScrollInfo bar f),
      collisionHeight = elemHeight e + marginTop e + marginBottom e + snd (getScrollInfo bar f),
      offset = (fst atOffset + fst myOffset, snd atOffset + snd myOffset), my_side = my', at_side = at', frame = f\<rparr>"

definition position :: "rat \<Rightarrow> position_options \<Rightarrow> target \<Rightarrow> container \<Rightarrow> placed list \<Rightarrow> (point \<times> feedback) list option" where
  "position bar opts target element es =
     (let f = getWithinInfo element;
          (tw, th, targetOffset) = getDimensions target;
          at_text = (case target of TEvent _ \<Rightarrow> ''left top'' | _ \<Rightarrow> at_opt opts);
          (cx, cy) = collisions (o_collision opts)
      in case (parse_option (my_opt opts), parse_option at_text) of
           (Some (my', myOffs), Some (at', atOffs)) \<Rightarrow>
             (let atOffset = getOffsets atOffs tw th;
                  base = base_position at' tw th targetOffset atOffset
              in Some (map (\<lambda>e.
                   let myOffset = getOffsets myOffs (elemWidth e) (elemHeight e);
                       d = collision_of bar f tw th atOffset myOffset my' at' e;
                       p = collide_top cy d (collide_left cx d (start_position my' e base myOffset))
                   in (p, feedback_of tw th targetOffset e p)) es))
         | _ \<Rightarrow> None)"

section \<open>Properties of the axes\<close>

text \<open>An element with its margins lies in the frame.\<close>

definition in_frame :: "rat \<Rightarrow> rat \<Rightarrow> rat \<Rightarrow> rat \<Rightarrow> rat \<Rightarrow> bool" where
  "in_frame withinOffset outer margin coll pos \<longleftrightarrow> withinOffset \<le> pos - margin \<and> pos - margin + coll \<le> withinOffset + outer"

lemma fit_axis_in_frame: "0 \<le> wo \<Longrightarrow> coll \<le> outer \<Longrightarrow> in_frame wo outer m coll (fit_axis wo outer m coll pos)"
  by (auto simp: in_frame_def fit_axis_def Let_def)

lemma fit_axis_fixed: "0 \<le> wo \<Longrightarrow> coll \<le> outer \<Longrightarrow> in_frame wo outer m coll pos \<Longrightarrow> fit_axis wo outer m coll pos = pos"
  by (auto simp: in_frame_def fit_axis_def Let_def)

text \<open>Fitting moves the element as little as possible.\<close>

lemma fit_axis_nearest: "0 \<le> wo \<Longrightarrow> in_frame wo outer m coll q \<Longrightarrow> \<bar>fit_axis wo outer m coll pos - pos\<bar> \<le> \<bar>q - pos\<bar>"
  by (auto simp: in_frame_def fit_axis_def Let_def)

lemma fit_axis_wide: "outer < coll \<Longrightarrow> fit_axis wo outer m coll pos \<in> {wo, wo + outer - coll}"
  by (auto simp: fit_axis_def Let_def)

lemma flip_axis_cases: "flip_axis wo fo outer m coll shift pos \<in> {pos, pos + shift}"
  by (auto simp: flip_axis_def Let_def)

lemma flip_axis_stays: "in_frame fo outer m coll pos \<Longrightarrow> flip_axis wo fo outer m coll shift pos = pos"
  by (auto simp: in_frame_def flip_axis_def Let_def)

definition mirror :: "string \<Rightarrow> string \<Rightarrow> string \<Rightarrow> string" where
  "mirror near far w = (if w = near then far else if w = far then near else w)"

lemma flip_shift_mirror:
  "near \<noteq> far \<Longrightarrow> near \<noteq> ''center'' \<Longrightarrow> far \<noteq> ''center'' \<Longrightarrow> m \<in> {near, ''center'', far} \<Longrightarrow> a \<in> {near, ''center'', far} \<Longrightarrow>
     side_part far (mirror near far a) tw - side_part far (mirror near far m) ew - off
       = side_part far a tw - side_part far m ew + off + flip_shift near far m a ew tw off"
  by (auto simp: side_part_def mirror_def flip_shift_def)

section \<open>Properties\<close>

definition in_frame_left :: "collision_data \<Rightarrow> point \<Rightarrow> bool" where
  "in_frame_left d p \<longleftrightarrow> in_frame (frame_left (frame d)) (w_width (frame d)) (marginLeft (d_elem d)) (collisionWidth d) (pleft p)"

definition in_frame_top :: "collision_data \<Rightarrow> point \<Rightarrow> bool" where
  "in_frame_top d p \<longleftrightarrow> in_frame (frame_top (frame d)) (w_height (frame d)) (marginTop (d_elem d)) (collisionHeight d) (ptop p)"

text \<open>
  With the collision handling \<open>fit\<close> or \<open>flipfit\<close> on both axes, in a frame at no negative offset, an
  element that is no larger than the frame ends inside it, margins included; \<open>fit\<close> moves it no
  further than necessary, on each axis, and leaves an element alone that is inside already.
\<close>

theorem fit_in_frame:
  assumes "0 \<le> frame_left (frame d)" "0 \<le> frame_top (frame d)"
    and "collisionWidth d \<le> w_width (frame d)" "collisionHeight d \<le> w_height (frame d)"
    and "c \<in> {''fit'', ''flipfit''}" "c' \<in> {''fit'', ''flipfit''}"
  shows "(in_frame_left d (collide_top c' d (collide_left c d p)) \<and> in_frame_top d (collide_top c' d (collide_left c d p)))
    \<and> (in_frame_left d q \<longrightarrow> in_frame_top d q \<longrightarrow> collide_top c' d (collide_left c d q) = q)
    \<and> (in_frame_left d q \<longrightarrow> \<bar>pleft (fit_left d p) - pleft p\<bar> \<le> \<bar>pleft q - pleft p\<bar>)
    \<and> (in_frame_top d q \<longrightarrow> \<bar>ptop (fit_top d p) - ptop p\<bar> \<le> \<bar>ptop q - ptop p\<bar>)"
proof -
  note axes = collide_left_def collide_top_def fit_left_def fit_top_def flip_left_def flip_top_def in_frame_left_def in_frame_top_def
  have "in_frame_left d (collide_top c' d (collide_left c d p)) \<and> in_frame_top d (collide_top c' d (collide_left c d p))"
    using assms fit_axis_in_frame by (auto simp: axes)
  moreover have "in_frame_left d q \<Longrightarrow> in_frame_top d q \<Longrightarrow> collide_top c' d (collide_left c d q) = q"
    using assms by (auto simp: axes fit_axis_fixed flip_axis_stays)
  moreover have "in_frame_left d q \<Longrightarrow> \<bar>pleft (fit_left d p) - pleft p\<bar> \<le> \<bar>pleft q - pleft p\<bar>"
    using assms(1) fit_axis_nearest by (auto simp: axes)
  moreover have "in_frame_top d q \<Longrightarrow> \<bar>ptop (fit_top d p) - ptop p\<bar> \<le> \<bar>ptop q - ptop p\<bar>"
    using assms(2) fit_axis_nearest by (auto simp: axes)
  ultimately show ?thesis by blast
qed

text \<open>
  A flip mirrors the placement at the target: where \<open>flip\<close> moves an element horizontally, the new
  place is the one that \<open>my\<close> and \<open>at\<close> with left and right exchanged and the opposite offset give, and
  in a frame that holds the element nothing moves.
\<close>

theorem flip_mirrors:
  assumes "d = collision_of bar f tw th atO myO m a e" "fst m \<in> {''left'', ''center'', ''right''}" "fst a \<in> {''left'', ''center'', ''right''}"
    and "p = start_position m e (base_position a tw th to atO) myO"
  shows "pleft (flip_left d p) \<in>
      {pleft p,
       pleft (start_position (mirror ''left'' ''right'' (fst m), snd m) e
          (base_position (mirror ''left'' ''right'' (fst a), snd a) tw th to (- fst atO, snd atO)) (- fst myO, snd myO))}
    \<and> ptop (flip_left d p) = ptop p
    \<and> (in_frame_left d p \<longrightarrow> flip_left d p = p)"
proof -
  let ?s = "flip_shift ''left'' ''right'' (fst m) (fst a) (elemWidth e) tw (fst atO + fst myO)"
  have shift: "pleft (start_position (mirror ''left'' ''right'' (fst m), snd m) e
      (base_position (mirror ''left'' ''right'' (fst a), snd a) tw th to (- fst atO, snd atO)) (- fst myO, snd myO)) = pleft p + ?s"
    using flip_shift_mirror [of "''left''" "''right''" "fst m" "fst a" tw "elemWidth e" "fst atO + fst myO"] assms(2-4)
    by (simp add: start_position_def base_position_def)
  have "pleft (flip_left d p) \<in> {pleft p, pleft p + ?s}"
    unfolding flip_left_def assms(1) collision_of_def using flip_axis_cases by simp
  then have "pleft (flip_left d p) \<in>
      {pleft p,
       pleft (start_position (mirror ''left'' ''right'' (fst m), snd m) e
          (base_position (mirror ''left'' ''right'' (fst a), snd a) tw th to (- fst atO, snd atO)) (- fst myO, snd myO))}"
    using shift by simp
  moreover have "ptop (flip_left d p) = ptop p" by (simp add: flip_left_def)
  moreover have "in_frame_left d p \<Longrightarrow> flip_left d p = p" by (simp add: flip_left_def in_frame_left_def flip_axis_stays)
  ultimately show ?thesis by blast
qed

definition window_frame :: container where
  "window_frame = \<lparr>isWindow = True, isDocument = False, w_offset = \<lparr>pleft = 0, ptop = 0\<rparr>, w_scroll = \<lparr>pleft = 0, ptop = 0\<rparr>,
     w_width = 1000, w_height = 500, overflowX = [], overflowY = [], scrollWidth = 0, scrollHeight = 0\<rparr>"

definition menu_box :: placed where
  "menu_box = \<lparr>elemWidth = 200, elemHeight = 80, marginLeft = 0, marginTop = 0, marginRight = 0, marginBottom = 0\<rparr>"

definition menu_collision :: collision_data where
  "menu_collision = collision_of 0 window_frame 50 20 (0, 0) (0, 0) (''left'', ''top'') (''right'', ''top'') menu_box"

lemma menu_collision_simps:
  "frame_left (frame menu_collision) = 0" "frame_top (frame menu_collision) = 0"
  "w_width (frame menu_collision) = 1000" "w_height (frame menu_collision) = 500"
  "collisionWidth menu_collision = 200" "collisionHeight menu_collision = 80" "marginLeft (d_elem menu_collision) = 0"
  by (simp_all add: menu_collision_def collision_of_def window_frame_def menu_box_def frame_left_def frame_top_def getScrollInfo_def has_overflow_def)

theorem fit_in_frame_witness:
  "in_frame_left menu_collision (collide_top ''fit'' menu_collision (collide_left ''flipfit'' menu_collision \<lparr>pleft = 950, ptop = 490\<rparr>))
   \<and> in_frame_top menu_collision (collide_top ''fit'' menu_collision (collide_left ''flipfit'' menu_collision \<lparr>pleft = 950, ptop = 490\<rparr>))"
  by (rule conjunct1 [OF fit_in_frame]) (simp_all add: menu_collision_simps)

theorem flip_mirrors_witness:
  "pleft (flip_left menu_collision (start_position (''left'', ''top'') menu_box (base_position (''right'', ''top'') 50 20 \<lparr>pleft = 900, ptop = 10\<rparr> (0, 0)) (0, 0)))
     \<in> {950, 700}"
  using flip_mirrors [OF menu_collision_def _ _ refl, of "\<lparr>pleft = 900, ptop = 10\<rparr>"]
  by (simp add: start_position_def base_position_def side_part_def mirror_def menu_box_def)

text \<open>
  \<open>fit\<close> can push an element out of the frame it was in: in a frame that begins left of the page, as
  a partly scrolled container does, the last branch moves an element that fits to the left edge of
  the page.
\<close>

theorem fit_leaves_frame:
  "position 0 \<lparr>my_opt = ''left top'', at_opt = ''left top'', o_collision = ''fit''\<rparr> (TEvent \<lparr>pleft = -90, ptop = 10\<rparr>)
      (window_frame\<lparr>isWindow := False, w_offset := \<lparr>pleft = -100, ptop = 0\<rparr>, w_width := 200\<rparr>) [menu_box\<lparr>elemWidth := 150\<rparr>]
    = Some [(\<lparr>pleft = 0, ptop = 10\<rparr>, \<lparr>horizontal = ''left'', vertical = ''top'', important = ''horizontal''\<rparr>)]
   \<and> in_frame (-100) 200 0 150 (-90) \<and> \<not> in_frame (-100) 200 0 150 0"
  by code_simp

text \<open>
  \<open>flip\<close> can make the overflow worse: an element wider than its target, aligned with it on the
  left and ten pixels outside the window, is moved a hundred and fifty pixels further out.
\<close>

theorem flip_worsens:
  "position 0 \<lparr>my_opt = ''left top'', at_opt = ''left top'', o_collision = ''flip none''\<rparr>
     (TElement 50 20 \<lparr>pleft = -10, ptop = 100\<rparr>) window_frame [menu_box]
   = Some [(\<lparr>pleft = -160, ptop = 100\<rparr>, \<lparr>horizontal = ''right'', vertical = ''top'', important = ''horizontal''\<rparr>)]"
  by code_simp

end
