(* ===== verification/UI_Draggable.thy ===== *)
theory UI_Draggable
  imports UI_Position
begin

text \<open>
  The geometry of the draggable widget: where the helper is while the pointer moves, under the
  options \<open>containment\<close>, \<open>grid\<close> and \<open>axis\<close>, and what happens at the start and the end of a drag. What
  the browser measures (offsets, sizes, scroll positions) is an argument.
\<close>

section \<open>State\<close>

record rect =
  r_left :: rat
  r_top :: rat
  r_right :: rat
  r_bottom :: rat

record drag_offset =
  off_left :: rat
  off_top :: rat
  scroll :: "point option"     \<comment> \<open>\<open>false\<close> until it is cached\<close>
  parent :: point
  relative :: point
  click :: point

record drag_options =
  grid :: "(rat \<times> rat) option"
  axis :: string
  revert :: string             \<comment> \<open>\<open>invalid\<close>, \<open>valid\<close>, \<open>true\<close> or something else\<close>

record drag =
  d_opts :: drag_options
  cssPosition :: string
  scrollIsRootNode :: bool
  hasFixedAncestor :: bool
  margins :: rect
  helperProportions :: "rat \<times> rat"
  d_offset :: drag_offset
  originalPage :: point
  originalPosition :: point
  d_position :: point
  positionAbs :: point
  containment :: "rect option"
  relativeContainer :: bool
  helper :: bool               \<comment> \<open>a helper exists: a drag is going on\<close>

section \<open>Offsets\<close>

definition border_of :: "rat \<Rightarrow> rat" where
  "border_of px = of_int (js_trunc px)"

definition getParentOffset :: "point \<Rightarrow> bool \<Rightarrow> point \<Rightarrow> bool \<Rightarrow> point \<Rightarrow> point" where
  "getParentOffset po scrolled scrollPos isRoot borders =
     (let po1 = (if scrolled then \<lparr>pleft = pleft po + pleft scrollPos, ptop = ptop po + ptop scrollPos\<rparr> else po);
          po2 = (if isRoot then \<lparr>pleft = 0, ptop = 0\<rparr> else po1)
      in \<lparr>pleft = pleft po2 + border_of (pleft borders), ptop = ptop po2 + border_of (ptop borders)\<rparr>)"

definition getRelativeOffset :: "string \<Rightarrow> point \<Rightarrow> point \<Rightarrow> bool \<Rightarrow> point \<Rightarrow> point" where
  "getRelativeOffset css p styled rootScroll scrollPos =
     (if css \<noteq> ''relative'' then \<lparr>pleft = 0, ptop = 0\<rparr>
      else \<lparr>pleft = pleft p - border_of (pleft styled) + (if \<not> rootScroll then pleft scrollPos else 0),
            ptop = ptop p - border_of (ptop styled) + (if \<not> rootScroll then ptop scrollPos else 0)\<rparr>)"

definition refreshOffsets :: "point \<Rightarrow> point \<Rightarrow> point \<Rightarrow> drag \<Rightarrow> drag" where
  "refreshOffsets page parentOff relativeOff d =
     (let l = pleft (positionAbs d) - r_left (margins d); t = ptop (positionAbs d) - r_top (margins d)
      in d\<lparr>d_offset := \<lparr>off_left = l, off_top = t, scroll = None, parent = parentOff, relative = relativeOff,
            click = \<lparr>pleft = pleft page - l, ptop = ptop page - t\<rparr>\<rparr>\<rparr>)"

text \<open>The option \<open>cursorAt\<close>, with the sides it gives.\<close>

record cursor_at =
  at_left :: "rat option"
  at_right :: "rat option"
  at_top :: "rat option"
  at_bottom :: "rat option"

definition adjustOffsetFromHelper :: "cursor_at \<Rightarrow> drag \<Rightarrow> drag" where
  "adjustOffsetFromHelper obj d =
     (let (width, height) = helperProportions d; c = click (d_offset d);
          l1 = (case at_left obj of Some x \<Rightarrow> x + r_left (margins d) | None \<Rightarrow> pleft c);
          l2 = (case at_right obj of Some x \<Rightarrow> width - x + r_left (margins d) | None \<Rightarrow> l1);
          t1 = (case at_top obj of Some x \<Rightarrow> x + r_top (margins d) | None \<Rightarrow> ptop c);
          t2 = (case at_bottom obj of Some x \<Rightarrow> height - x + r_top (margins d) | None \<Rightarrow> t1)
      in d\<lparr>d_offset := (d_offset d)\<lparr>click := \<lparr>pleft = l2, ptop = t2\<rparr>\<rparr>\<rparr>)"

section \<open>Containment\<close>

text \<open>An element as a container: its borders and paddings, sizes, and whether the user can scroll it.\<close>

record box =
  borders :: rect
  paddings :: rect
  offsetSize :: "rat \<times> rat"
  scrollSize :: "rat \<times> rat"
  userScrollable :: bool

datatype containment_option = ContainNone | ContainWindow point "rat \<times> rat" | ContainDocument "rat \<times> rat"
  | ContainArray rect | ContainElement box | ContainMissing

definition setContainment :: "containment_option \<Rightarrow> drag \<Rightarrow> drag" where
  "setContainment c d0 =
     (let d = d0\<lparr>relativeContainer := False\<rparr>; (width, height) = helperProportions d; o' = d_offset d; m = margins d
      in case c of
           ContainNone \<Rightarrow> d\<lparr>containment := None\<rparr>
         | ContainWindow s (w, h) \<Rightarrow>
             d\<lparr>containment := Some \<lparr>r_left = pleft s - pleft (relative o') - pleft (parent o'),
                 r_top = ptop s - ptop (relative o') - ptop (parent o'),
                 r_right = pleft s + w - width - r_left m, r_bottom = ptop s + h - height - r_top m\<rparr>\<rparr>
         | ContainDocument (w, h) \<Rightarrow>
             d\<lparr>containment := Some \<lparr>r_left = 0, r_top = 0, r_right = w - width - r_left m, r_bottom = h - height - r_top m\<rparr>\<rparr>
         | ContainArray r \<Rightarrow> d\<lparr>containment := Some r\<rparr>
         | ContainMissing \<Rightarrow> d
         | ContainElement b \<Rightarrow>
             (let sx = (if userScrollable b then max (fst (scrollSize b)) (fst (offsetSize b)) else fst (offsetSize b));
                  sy = (if userScrollable b then max (snd (scrollSize b)) (snd (offsetSize b)) else snd (offsetSize b))
              in d\<lparr>containment := Some
                   \<lparr>r_left = border_of (r_left (borders b)) + border_of (r_left (paddings b)),
                    r_top = border_of (r_top (borders b)) + border_of (r_top (paddings b)),
                    r_right = sx - border_of (r_right (borders b)) - border_of (r_right (paddings b)) - width - r_left m - r_right m,
                    r_bottom = sy - border_of (r_bottom (borders b)) - border_of (r_bottom (paddings b)) - height - r_top m - r_bottom m\<rparr>,
                  relativeContainer := True\<rparr>))"

section \<open>Positions\<close>

definition scroll_part :: "drag \<Rightarrow> rat \<Rightarrow> rat" where
  "scroll_part d s = (if cssPosition d = ''fixed'' then - s else if scrollIsRootNode d then 0 else s)"

definition cached_scroll :: "drag \<Rightarrow> point" where
  "cached_scroll d = (case scroll (d_offset d) of Some p \<Rightarrow> p | None \<Rightarrow> \<lparr>pleft = 0, ptop = 0\<rparr>)"

definition convertPositionTo :: "bool \<Rightarrow> point \<Rightarrow> drag \<Rightarrow> point" where
  "convertPositionTo absolute pos d =
     (let md = (if absolute then 1 else -1); o' = d_offset d; s = cached_scroll d
      in \<lparr>pleft = pleft pos + pleft (relative o') * md + pleft (parent o') * md - scroll_part d (pleft s) * md,
          ptop = ptop pos + ptop (relative o') * md + ptop (parent o') * md - scroll_part d (ptop s) * md\<rparr>)"

text \<open>One axis: the bounds, then the grid, whose result is only corrected at the near bound.\<close>

definition contain_axis :: "rat \<Rightarrow> rat \<Rightarrow> rat \<Rightarrow> rat \<Rightarrow> rat" where
  "contain_axis lo hi clickOff page =
     (let p1 = (if page - clickOff < lo then lo + clickOff else page)
      in if page - clickOff > hi then hi + clickOff else p1)"

definition grid_snap :: "rat \<Rightarrow> rat \<Rightarrow> rat \<Rightarrow> rat" where
  "grid_snap g original page =
     (if g \<noteq> 0 then original + of_int (math_round ((page - original) / g)) * g else original)"

definition grid_axis :: "(rat \<times> rat) option \<Rightarrow> rat \<Rightarrow> rat \<Rightarrow> rat \<Rightarrow> rat \<Rightarrow> rat" where
  "grid_axis bounds g original clickOff page =
     (let p = grid_snap g original page
      in case bounds of
           None \<Rightarrow> p
         | Some (lo, hi) \<Rightarrow>
             (if p - clickOff \<ge> lo \<or> p - clickOff > hi then p
              else if p - clickOff \<ge> lo then p - g else p + g))"

text \<open>The pointer position after the constraints; \<open>co\<close> is the offset of a relative container.\<close>

definition bounds_of :: "point \<Rightarrow> drag \<Rightarrow> rect option" where
  "bounds_of co d =
     (if relativeContainer d
      then map_option (\<lambda>c. \<lparr>r_left = r_left c + pleft co, r_top = r_top c + ptop co, r_right = r_right c + pleft co, r_bottom = r_bottom c + ptop co\<rparr>) (containment d)
      else containment d)"

definition constrain :: "point \<Rightarrow> drag \<Rightarrow> point \<Rightarrow> point" where
  "constrain co d page =
     (let c = bounds_of co d; k = click (d_offset d); o' = originalPage d;
          p1 = (case c of
                  None \<Rightarrow> page
                | Some r \<Rightarrow> \<lparr>pleft = contain_axis (r_left r) (r_right r) (pleft k) (pleft page),
                             ptop = contain_axis (r_top r) (r_bottom r) (ptop k) (ptop page)\<rparr>);
          p2 = (case grid (d_opts d) of
                  None \<Rightarrow> p1
                | Some (gx, gy) \<Rightarrow>
                    \<lparr>pleft = grid_axis (map_option (\<lambda>r. (r_left r, r_right r)) c) gx (pleft o') (pleft k) (pleft p1),
                     ptop = grid_axis (map_option (\<lambda>r. (r_top r, r_bottom r)) c) gy (ptop o') (ptop k) (ptop p1)\<rparr>);
          p3 = (if axis (d_opts d) = ''y'' then p2\<lparr>pleft := pleft o'\<rparr> else p2)
      in if axis (d_opts d) = ''x'' then p3\<lparr>ptop := ptop o'\<rparr> else p3)"

definition cache_scroll :: "point \<Rightarrow> drag \<Rightarrow> drag" where
  "cache_scroll now d =
     (if \<not> scrollIsRootNode d \<or> scroll (d_offset d) = None then d\<lparr>d_offset := (d_offset d)\<lparr>scroll := Some now\<rparr>\<rparr> else d)"

definition generatePosition :: "point \<Rightarrow> point \<Rightarrow> bool \<Rightarrow> point \<Rightarrow> drag \<Rightarrow> point \<times> drag" where
  "generatePosition now co constrainPosition page d0 =
     (let d = cache_scroll now d0; p = (if constrainPosition then constrain co d page else page); o' = d_offset d; s = cached_scroll d
      in (\<lparr>pleft = pleft p - pleft (click o') - pleft (relative o') - pleft (parent o') + scroll_part d (pleft s),
           ptop = ptop p - ptop (click o') - ptop (relative o') - ptop (parent o') + scroll_part d (ptop s)\<rparr>, d))"

section \<open>The drag\<close>

text \<open>
  \<open>_mouseDrag\<close>: \<open>callback\<close> is the event \<open>drag\<close>, given the position; \<open>None\<close> is the answer \<open>false\<close>, which
  ends the drag, and otherwise its position is used. The start runs it without the event. \<open>par\<close> is the
  offset of the parent now, which is read again under an ancestor with a fixed position. The plug-ins
  (\<open>cursor\<close>, \<open>snap\<close>, \<open>scroll\<close> and others), which run first in \<open>_trigger\<close> and may move the helper before
  \<open>positionAbs\<close> is computed again, are left out.
\<close>

definition refresh_parent :: "point \<Rightarrow> drag \<Rightarrow> drag" where
  "refresh_parent par d = (if hasFixedAncestor d then d\<lparr>d_offset := (d_offset d)\<lparr>parent := par\<rparr>\<rparr> else d)"

definition drag_move :: "point \<Rightarrow> point \<Rightarrow> point \<Rightarrow> (point \<Rightarrow> point option) option \<Rightarrow> point \<Rightarrow> drag \<Rightarrow> bool \<times> drag" where
  "drag_move now co par callback page d0 =
     (let (p, d) = generatePosition now co True page (refresh_parent par d0);
          d1 = d\<lparr>d_position := p, positionAbs := convertPositionTo True p d\<rparr>
      in case callback of
           None \<Rightarrow> (True, d1)
         | Some f \<Rightarrow> (case f p of None \<Rightarrow> (False, d1) | Some p' \<Rightarrow> (True, d1\<lparr>d_position := p'\<rparr>)))"

definition clear_drag :: "drag \<Rightarrow> drag" where
  "clear_drag d = d\<lparr>helper := False\<rparr>"

text \<open>\<open>_mouseStart\<close>, with the measured values; \<open>start_ok\<close> says that the event \<open>start\<close> was not cancelled.\<close>

definition drag_start :: "point \<Rightarrow> point \<Rightarrow> point \<Rightarrow> point \<Rightarrow> point \<Rightarrow> cursor_at option \<Rightarrow> containment_option \<Rightarrow> bool \<Rightarrow> point \<Rightarrow> drag \<Rightarrow> bool \<times> drag" where
  "drag_start elemOffset parentOff relativeOff now co cursorAt contain start_ok page d0 =
     (let d1 = refreshOffsets page parentOff relativeOff (d0\<lparr>helper := True, positionAbs := elemOffset\<rparr>);
          (p, d2) = generatePosition now co False page d1;
          d3 = d2\<lparr>originalPosition := p, d_position := p, originalPage := page\<rparr>;
          d4 = (case cursorAt of Some c \<Rightarrow> adjustOffsetFromHelper c d3 | None \<Rightarrow> d3);
          d5 = setContainment contain d4;
          d6 = d5\<lparr>positionAbs := convertPositionTo True (d_position d5) d5\<rparr>
      in if start_ok then (True, snd (drag_move now co parentOff None page d6)) else (False, clear_drag d6))"

text \<open>\<open>_mouseStop\<close>: whether the helper is animated back, to where.\<close>

definition drag_revert :: "bool \<Rightarrow> (bool \<Rightarrow> bool) option \<Rightarrow> drag \<Rightarrow> point option" where
  "drag_revert dropped f d =
     (if revert (d_opts d) = ''invalid'' \<and> \<not> dropped \<or> revert (d_opts d) = ''valid'' \<and> dropped \<or> revert (d_opts d) = ''true''
         \<or> (case f of Some g \<Rightarrow> g dropped | None \<Rightarrow> False)
      then Some (originalPosition d) else None)"

definition drag_stop :: "bool \<Rightarrow> (bool \<Rightarrow> bool) option \<Rightarrow> bool \<Rightarrow> drag \<Rightarrow> drag" where
  "drag_stop dropped f stop_ok d =
     (let d1 = (case drag_revert dropped f d of Some p \<Rightarrow> d\<lparr>d_position := p\<rparr> | None \<Rightarrow> d)
      in if stop_ok then clear_drag d1 else d1)"

section \<open>Properties\<close>

lemma convert_back: "convertPositionTo False (convertPositionTo True p d) d = p"
  by (simp add: convertPositionTo_def Let_def)

lemma cached_opts [simp]:
  "d_opts (cache_scroll now d) = d_opts d" "click (d_offset (cache_scroll now d)) = click (d_offset d)"
  "originalPage (cache_scroll now d) = originalPage d" "bounds_of co (cache_scroll now d) = bounds_of co d"
  by (simp_all add: cache_scroll_def bounds_of_def)

lemma constrain_cache [simp]: "constrain co (cache_scroll now d) page = constrain co d page"
  by (simp add: constrain_def)

lemma refresh_opts [simp]:
  "d_opts (refresh_parent par d) = d_opts d" "click (d_offset (refresh_parent par d)) = click (d_offset d)"
  "originalPage (refresh_parent par d) = originalPage d" "bounds_of co (refresh_parent par d) = bounds_of co d"
  by (simp_all add: refresh_parent_def bounds_of_def)

lemma constrain_refresh [simp]: "constrain co (refresh_parent par d) page = constrain co d page"
  by (simp add: constrain_def)

text \<open>The absolute position is the constrained pointer position less the click offset, whatever the parents and scrolling.\<close>

lemma drag_move_abs:
  "positionAbs (snd (drag_move now co par cb page d)) =
     \<lparr>pleft = pleft (constrain co d page) - pleft (click (d_offset d)), ptop = ptop (constrain co d page) - ptop (click (d_offset d))\<rparr>"
proof -
  let ?d = "refresh_parent par d" and ?e = "cache_scroll now (refresh_parent par d)"
  have "positionAbs (snd (drag_move now co par cb page d)) = convertPositionTo True (fst (generatePosition now co True page ?d)) ?e"
    by (auto simp: drag_move_def Let_def generatePosition_def split: option.splits)
  then show ?thesis by (simp add: convertPositionTo_def generatePosition_def Let_def)
qed

lemma contain_axis_bounds: "lo \<le> hi \<Longrightarrow> lo \<le> contain_axis lo hi k p - k \<and> contain_axis lo hi k p - k \<le> hi"
  by (auto simp: contain_axis_def Let_def)

lemma contain_axis_inside: "lo \<le> p - k \<Longrightarrow> p - k \<le> hi \<Longrightarrow> contain_axis lo hi k p = p"
  by (auto simp: contain_axis_def Let_def)

lemma math_round_near: "\<bar>of_int (math_round x) - x\<bar> \<le> 1 / 2"
proof -
  have "of_int (math_round x) \<le> x + 1 / 2" "x + 1 / 2 < of_int (math_round x) + 1"
    unfolding math_round_def by linarith+
  then show ?thesis by linarith
qed

lemma grid_snap_near: assumes "0 < g" shows "\<bar>grid_snap g o' p - p\<bar> \<le> g / 2"
proof -
  have cancel: "(p - o') / g * g = p - o'" using assms by simp
  have "grid_snap g o' p - p = (of_int (math_round ((p - o') / g)) - (p - o') / g) * g"
    unfolding left_diff_distrib cancel using assms by (simp add: grid_snap_def)
  then have "\<bar>grid_snap g o' p - p\<bar> = \<bar>of_int (math_round ((p - o') / g)) - (p - o') / g\<bar> * g"
    using assms by (simp add: abs_mult)
  also have "\<dots> \<le> 1 / 2 * g" using math_round_near assms by (intro mult_right_mono) auto
  finally show ?thesis by simp
qed

lemma grid_snap_multiple: "\<exists>k :: int. grid_snap g o' p = o' + of_int k * g"
  unfolding grid_snap_def by (metis (no_types) add.right_neutral mult_zero_left of_int_0)

lemma grid_axis_multiple: "\<exists>k :: int. grid_axis b g o' c p = o' + of_int k * g"
proof -
  obtain k :: int where k: "grid_snap g o' p = o' + of_int k * g" using grid_snap_multiple by blast
  have "grid_snap g o' p + g = o' + of_int (k + 1) * g" "grid_snap g o' p - g = o' + of_int (k - 1) * g"
    using k by (simp_all add: algebra_simps)
  moreover have "grid_axis b g o' c p \<in> {grid_snap g o' p, grid_snap g o' p + g, grid_snap g o' p - g}"
    by (auto simp: grid_axis_def Let_def split: option.splits)
  ultimately show ?thesis using k by (metis empty_iff insert_iff)
qed

lemma grid_axis_near: assumes "0 < g" "lo \<le> p - c" "lo \<le> hi" shows "lo \<le> grid_axis (Some (lo, hi)) g o' c p - c"
  using grid_snap_near [OF assms(1), of o' p] assms by (auto simp: grid_axis_def Let_def abs_le_iff)

text \<open>
  C20. Without a grid, a drag never leaves the rectangle \<open>_setContainment\<close> has computed, as long as
  that is not empty: however far the pointer moves, and whatever the scrolling and the positioned
  parents, the absolute position is inside the bounds, and it follows the pointer exactly while the
  pointer is inside.  With the option \<open>axis\<close> this holds along that axis, and across it the helper
  stays where the drag began.
\<close>

theorem drag_in_containment:
  assumes "bounds_of co d = Some r" "r_left r \<le> r_right r" "r_top r \<le> r_bottom r" "grid (d_opts d) = None"
    and "drag_move now co par cb page d = (go, d')"
  shows "(if axis (d_opts d) = ''y'' then pleft (positionAbs d') = pleft (originalPage d) - pleft (click (d_offset d))
      else r_left r \<le> pleft (positionAbs d') \<and> pleft (positionAbs d') \<le> r_right r
        \<and> (r_left r \<le> pleft page - pleft (click (d_offset d)) \<longrightarrow> pleft page - pleft (click (d_offset d)) \<le> r_right r \<longrightarrow>
          pleft (positionAbs d') = pleft page - pleft (click (d_offset d))))
    \<and> (if axis (d_opts d) = ''x'' then ptop (positionAbs d') = ptop (originalPage d) - ptop (click (d_offset d))
      else r_top r \<le> ptop (positionAbs d') \<and> ptop (positionAbs d') \<le> r_bottom r
        \<and> (r_top r \<le> ptop page - ptop (click (d_offset d)) \<longrightarrow> ptop page - ptop (click (d_offset d)) \<le> r_bottom r \<longrightarrow>
          ptop (positionAbs d') = ptop page - ptop (click (d_offset d))))"
proof -
  let ?k = "click (d_offset d)" and ?x = "axis (d_opts d)"
  have "positionAbs d' = \<lparr>pleft = (if ?x = ''y'' then pleft (originalPage d) else contain_axis (r_left r) (r_right r) (pleft ?k) (pleft page)) - pleft ?k,
      ptop = (if ?x = ''x'' then ptop (originalPage d) else contain_axis (r_top r) (r_bottom r) (ptop ?k) (ptop page)) - ptop ?k\<rparr>"
    using drag_move_abs [of now co par cb page d] assms(1,4,5) by (simp add: constrain_def Let_def)
  then show ?thesis
    using assms(2,3) contain_axis_bounds by (simp add: contain_axis_inside)
qed

text \<open>
  On a grid the pointer moves from the point where the drag began in whole steps on both axes,
  with or without a containment, and the near bounds of the containment hold.
\<close>

theorem drag_on_grid:
  assumes "grid (d_opts d) = Some (gx, gy)" "axis (d_opts d) = []" "drag_move now co par cb page d = (go, d')"
  shows "\<exists>k :: int. pleft (positionAbs d') + pleft (click (d_offset d)) = pleft (originalPage d) + of_int k * gx"
    and "\<exists>k :: int. ptop (positionAbs d') + ptop (click (d_offset d)) = ptop (originalPage d) + of_int k * gy"
    and "bounds_of co d = Some r \<Longrightarrow> r_left r \<le> r_right r \<Longrightarrow> 0 < gx \<Longrightarrow> r_left r \<le> pleft (positionAbs d')"
proof -
  let ?c = "click (d_offset d)"
  define p1 where "p1 = (case bounds_of co d of None \<Rightarrow> page
      | Some r \<Rightarrow> \<lparr>pleft = contain_axis (r_left r) (r_right r) (pleft ?c) (pleft page), ptop = contain_axis (r_top r) (r_bottom r) (ptop ?c) (ptop page)\<rparr>)"
  have abs: "pleft (positionAbs d') + pleft ?c = grid_axis (map_option (\<lambda>r. (r_left r, r_right r)) (bounds_of co d)) gx (pleft (originalPage d)) (pleft ?c) (pleft p1)"
    "ptop (positionAbs d') + ptop ?c = grid_axis (map_option (\<lambda>r. (r_top r, r_bottom r)) (bounds_of co d)) gy (ptop (originalPage d)) (ptop ?c) (ptop p1)"
    using drag_move_abs [of now co par cb page d] assms by (simp_all add: constrain_def Let_def p1_def)
  show "\<exists>k :: int. pleft (positionAbs d') + pleft ?c = pleft (originalPage d) + of_int k * gx" unfolding abs by (rule grid_axis_multiple)
  show "\<exists>k :: int. ptop (positionAbs d') + ptop ?c = ptop (originalPage d) + of_int k * gy" unfolding abs by (rule grid_axis_multiple)
  assume r: "bounds_of co d = Some r" "r_left r \<le> r_right r" "0 < gx"
  then have "r_left r \<le> pleft p1 - pleft ?c" using contain_axis_bounds by (simp add: p1_def)
  from grid_axis_near [OF r(3) this r(2), of "pleft (originalPage d)"] abs(1) r(1)
  show "r_left r \<le> pleft (positionAbs d')" by (simp add: diff_le_eq)
qed

text \<open>A drag of a helper of 50 by 20 at the origin, picked up at (10, 5).\<close>

definition sample_drag :: drag where
  "sample_drag = \<lparr>d_opts = \<lparr>grid = None, axis = [], revert = []\<rparr>, cssPosition = ''absolute'', scrollIsRootNode = True, hasFixedAncestor = False,
     margins = \<lparr>r_left = 0, r_top = 0, r_right = 0, r_bottom = 0\<rparr>, helperProportions = (50, 20),
     d_offset = \<lparr>off_left = 0, off_top = 0, scroll = None, parent = \<lparr>pleft = 0, ptop = 0\<rparr>, relative = \<lparr>pleft = 0, ptop = 0\<rparr>,
       click = \<lparr>pleft = 10, ptop = 5\<rparr>\<rparr>,
     originalPage = \<lparr>pleft = 10, ptop = 5\<rparr>, originalPosition = \<lparr>pleft = 0, ptop = 0\<rparr>, d_position = \<lparr>pleft = 0, ptop = 0\<rparr>,
     positionAbs = \<lparr>pleft = 0, ptop = 0\<rparr>, containment = Some \<lparr>r_left = 0, r_top = 0, r_right = 95, r_bottom = 80\<rparr>,
     relativeContainer = False, helper = True\<rparr>"

definition origin :: point where
  "origin = \<lparr>pleft = 0, ptop = 0\<rparr>"

theorem drag_in_containment_witness:
  "pleft (positionAbs (snd (drag_move origin origin origin None \<lparr>pleft = 900, ptop = 45\<rparr> sample_drag))) \<le> 95 \<and>
   ptop (positionAbs (snd (drag_move origin origin origin None \<lparr>pleft = 900, ptop = 45\<rparr> sample_drag))) = 40"
  using drag_in_containment [OF _ _ _ _ surjective_pairing, of origin sample_drag "\<lparr>r_left = 0, r_top = 0, r_right = 95, r_bottom = 80\<rparr>"
    origin origin None "\<lparr>pleft = 900, ptop = 45\<rparr>"]
  by (simp add: sample_drag_def bounds_of_def)

definition grid_drag :: drag where
  "grid_drag = sample_drag\<lparr>d_opts := \<lparr>grid = Some (20, 20), axis = [], revert = []\<rparr>\<rparr>"

theorem drag_on_grid_witness:
  "\<exists>k :: int. pleft (positionAbs (snd (drag_move origin origin origin None \<lparr>pleft = 900, ptop = 0\<rparr> grid_drag))) + 10 = 10 + of_int k * 20"
  using drag_on_grid(1) [OF _ _ surjective_pairing, of grid_drag 20 20 origin origin origin None "\<lparr>pleft = 900, ptop = 0\<rparr>"]
  by (simp add: grid_drag_def sample_drag_def)

text \<open>
  With a grid a drag leaves its containment on the far side: the correction that should take the
  step back tests the same near bound again, so a helper that may go to 95 is put at 100.
\<close>

theorem grid_leaves_containment:
  "positionAbs (snd (drag_move origin origin origin None \<lparr>pleft = 900, ptop = 5\<rparr> grid_drag)) = \<lparr>pleft = 100, ptop = 0\<rparr>
   \<and> bounds_of origin grid_drag = Some \<lparr>r_left = 0, r_top = 0, r_right = 95, r_bottom = 80\<rparr>"
  by code_simp

text \<open>
  The containment \<open>window\<close> lets a helper out on the near side: the offset of its parent is taken
  off the near bounds only, although they are compared with the absolute position like the far ones.
\<close>

theorem window_containment_leaks:
  "positionAbs (snd (drag_move origin origin origin None \<lparr>pleft = -500, ptop = -500\<rparr>
      (setContainment (ContainWindow origin (800, 600))
        (sample_drag\<lparr>d_offset := (d_offset sample_drag)\<lparr>parent := \<lparr>pleft = 100, ptop = 40\<rparr>\<rparr>\<rparr>)))) = \<lparr>pleft = -100, ptop = -40\<rparr>"
  by code_simp

end
