(* ===== verification/UI_Resizable.thy ===== *)
theory UI_Resizable
  imports UI_Position
begin

text \<open>
  The geometry of the resizable widget: size and position of the element while one of its eight
  handles is dragged, under limits and with the aspect ratio kept. Sizes are exact rationals; what
  the browser measures is an argument.
\<close>

section \<open>State\<close>

record extent =
  width :: rat
  height :: rat

text \<open>Limits of the options: \<open>None\<close> is an option that is no number.\<close>

record resize_options =
  minWidth :: "rat option"
  maxWidth :: "rat option"
  minHeight :: "rat option"
  maxHeight :: "rat option"

text \<open>The virtual boundaries; \<open>None\<close> is no upper limit (\<open>Infinity\<close>).\<close>

record boundaries =
  b_minWidth :: rat
  b_maxWidth :: "rat option"
  b_minHeight :: rat
  b_maxHeight :: "rat option"

record resizable =
  r_opts :: resize_options
  r_axis :: string
  keepRatio :: bool            \<comment> \<open>the option \<open>aspectRatio\<close> is set\<close>
  aspectRatio :: rat
  r_position :: point
  r_size :: extent
  originalSize :: extent
  r_originalPosition :: point
  originalMousePosition :: point
  prevPosition :: point
  prevSize :: extent
  vBoundaries :: boundaries
  resizing :: bool

text \<open>The data of a change; a component that is missing or \<open>null\<close> is \<open>None\<close>.\<close>

record change =
  c_left :: "rat option"
  c_top :: "rat option"
  c_width :: "rat option"
  c_height :: "rat option"

section \<open>Changes\<close>

definition no_change :: change where
  "no_change = \<lparr>c_left = None, c_top = None, c_width = None, c_height = None\<rparr>"

definition change_e :: "rat \<Rightarrow> resizable \<Rightarrow> change \<Rightarrow> change" where
  "change_e dx r c = c\<lparr>c_width := Some (width (originalSize r) + dx)\<rparr>"

definition change_w :: "rat \<Rightarrow> resizable \<Rightarrow> change \<Rightarrow> change" where
  "change_w dx r c = c\<lparr>c_left := Some (pleft (r_originalPosition r) + dx), c_width := Some (width (originalSize r) - dx)\<rparr>"

definition change_n :: "rat \<Rightarrow> resizable \<Rightarrow> change \<Rightarrow> change" where
  "change_n dy r c = c\<lparr>c_top := Some (ptop (r_originalPosition r) + dy), c_height := Some (height (originalSize r) - dy)\<rparr>"

definition change_s :: "rat \<Rightarrow> resizable \<Rightarrow> change \<Rightarrow> change" where
  "change_s dy r c = c\<lparr>c_height := Some (height (originalSize r) + dy)\<rparr>"

text \<open>The table \<open>_change\<close>; a name that is not in it has no change.\<close>

definition change_of :: "string \<Rightarrow> rat \<Rightarrow> rat \<Rightarrow> resizable \<Rightarrow> change option" where
  "change_of a dx dy r =
     (if a = ''e'' then Some (change_e dx r no_change)
      else if a = ''w'' then Some (change_w dx r no_change)
      else if a = ''n'' then Some (change_n dy r no_change)
      else if a = ''s'' then Some (change_s dy r no_change)
      else if a = ''se'' then Some (change_e dx r (change_s dy r no_change))
      else if a = ''sw'' then Some (change_w dx r (change_s dy r no_change))
      else if a = ''ne'' then Some (change_e dx r (change_n dy r no_change))
      else if a = ''nw'' then Some (change_w dx r (change_n dy r no_change))
      else None)"

section \<open>Boundaries, ratio and limits\<close>

definition min_upper :: "rat \<Rightarrow> rat option \<Rightarrow> rat option \<Rightarrow> rat option" where
  "min_upper f other own = (case other of
     None \<Rightarrow> own
   | Some x \<Rightarrow> (case own of None \<Rightarrow> Some (x * f) | Some y \<Rightarrow> Some (if x * f < y then x * f else y)))"

definition updateVirtualBoundaries :: "bool \<Rightarrow> resizable \<Rightarrow> resizable" where
  "updateVirtualBoundaries force r =
     (let o' = r_opts r;
          minW = (case minWidth o' of Some x \<Rightarrow> x | None \<Rightarrow> 0);
          minH = (case minHeight o' of Some x \<Rightarrow> x | None \<Rightarrow> 0);
          b = \<lparr>b_minWidth = minW, b_maxWidth = maxWidth o', b_minHeight = minH, b_maxHeight = maxHeight o'\<rparr>;
          b' = (if keepRatio r \<or> force then
                  \<lparr>b_minWidth = (if minH * aspectRatio r > minW then minH * aspectRatio r else minW),
                   b_maxWidth = min_upper (aspectRatio r) (maxHeight o') (maxWidth o'),
                   b_minHeight = (if minW / aspectRatio r > minH then minW / aspectRatio r else minH),
                   b_maxHeight = min_upper (1 / aspectRatio r) (maxWidth o') (maxHeight o')\<rparr>
                else b)
      in r\<lparr>vBoundaries := b'\<rparr>)"

definition updateRatio :: "change \<Rightarrow> resizable \<Rightarrow> change" where
  "updateRatio c r =
     (let c1 = (case c_height c of
                  Some h \<Rightarrow> c\<lparr>c_width := Some (h * aspectRatio r)\<rparr>
                | None \<Rightarrow> (case c_width c of Some w \<Rightarrow> c\<lparr>c_height := Some (w / aspectRatio r)\<rparr> | None \<Rightarrow> c));
          l = map_option (\<lambda>w. pleft (r_position r) + (width (r_size r) - w)) (c_width c1);
          t = map_option (\<lambda>h. ptop (r_position r) + (height (r_size r) - h)) (c_height c1)
      in if r_axis r = ''sw'' then c1\<lparr>c_left := l, c_top := None\<rparr>
         else if r_axis r = ''nw'' then c1\<lparr>c_top := t, c_left := l\<rparr>
         else c1)"

definition over_max :: "rat option \<Rightarrow> rat option \<Rightarrow> bool" where
  "over_max m' v = (case (m', v) of (Some m, Some x) \<Rightarrow> m \<noteq> 0 \<and> m < x | _ \<Rightarrow> False)"

definition under_min :: "rat \<Rightarrow> rat option \<Rightarrow> bool" where
  "under_min m v = (case v of Some x \<Rightarrow> m \<noteq> 0 \<and> m > x | None \<Rightarrow> False)"

text \<open>A value that is missing or zero is falsy.\<close>

definition falsy :: "rat option \<Rightarrow> bool" where
  "falsy v \<longleftrightarrow> v = None \<or> v = Some 0"

definition fix_jump :: "change \<Rightarrow> change" where
  "fix_jump c =
     (if falsy (c_width c) \<and> falsy (c_height c) \<and> falsy (c_left c) \<and> \<not> falsy (c_top c) then c\<lparr>c_top := None\<rparr>
      else if falsy (c_width c) \<and> falsy (c_height c) \<and> falsy (c_top c) \<and> \<not> falsy (c_left c) then c\<lparr>c_left := None\<rparr>
      else c)"

definition west :: "string \<Rightarrow> bool" where
  "west a \<longleftrightarrow> CHR ''w'' \<in> set a"

definition north :: "string \<Rightarrow> bool" where
  "north a \<longleftrightarrow> CHR ''n'' \<in> set a"

text \<open>One dimension of \<open>_respectSize\<close>: the size, and the position when the handle is at the near side.\<close>

definition limit_axis :: "rat \<Rightarrow> rat option \<Rightarrow> bool \<Rightarrow> rat \<Rightarrow> rat option \<times> rat option \<Rightarrow> rat option \<times> rat option" where
  "limit_axis lo hi near far sp =
     (case sp of (s, p) \<Rightarrow>
        let ismax = over_max hi s; ismin = under_min lo s;
            s1 = (if ismin then Some lo else s); s2 = (if ismax then hi else s1);
            p1 = (if ismin \<and> near then Some (far - lo) else p);
            p2 = (if ismax \<and> near then map_option (\<lambda>h. far - h) hi else p1)
        in (s2, p2))"

definition respectSize :: "change \<Rightarrow> resizable \<Rightarrow> change" where
  "respectSize c r =
     (let b = vBoundaries r;
          dw = pleft (r_originalPosition r) + width (originalSize r);
          dh = ptop (r_originalPosition r) + height (originalSize r);
          (w, l) = limit_axis (b_minWidth b) (b_maxWidth b) (west (r_axis r)) dw (c_width c, c_left c);
          (h, t) = limit_axis (b_minHeight b) (b_maxHeight b) (north (r_axis r)) dh (c_height c, c_top c)
      in fix_jump \<lparr>c_left = l, c_top = t, c_width = w, c_height = h\<rparr>)"

definition updateCache :: "change \<Rightarrow> resizable \<Rightarrow> resizable" where
  "updateCache c r =
     r\<lparr>r_position := \<lparr>pleft = (case c_left c of Some x \<Rightarrow> x | None \<Rightarrow> pleft (r_position r)),
                      ptop = (case c_top c of Some x \<Rightarrow> x | None \<Rightarrow> ptop (r_position r))\<rparr>,
       r_size := \<lparr>width = (case c_width c of Some x \<Rightarrow> x | None \<Rightarrow> width (r_size r)),
                  height = (case c_height c of Some x \<Rightarrow> x | None \<Rightarrow> height (r_size r))\<rparr>\<rparr>"

section \<open>The interaction\<close>

definition updatePrevProperties :: "resizable \<Rightarrow> resizable" where
  "updatePrevProperties r = r\<lparr>prevPosition := r_position r, prevSize := r_size r\<rparr>"

text \<open>The properties \<open>_applyChanges\<close> sets on the helper: those that changed.\<close>

definition applyChanges :: "resizable \<Rightarrow> (string \<times> rat) list" where
  "applyChanges r =
     (if ptop (r_position r) \<noteq> ptop (prevPosition r) then [(''top'', ptop (r_position r))] else [])
     @ (if pleft (r_position r) \<noteq> pleft (prevPosition r) then [(''left'', pleft (r_position r))] else [])
     @ (if width (r_size r) \<noteq> width (prevSize r) then [(''width'', width (r_size r))] else [])
     @ (if height (r_size r) \<noteq> height (prevSize r) then [(''height'', height (r_size r))] else [])"

text \<open>\<open>_mouseStart\<close>; an element without height has no ratio and is outside the model.\<close>

definition resize_start :: "string \<Rightarrow> point \<Rightarrow> extent \<Rightarrow> rat option \<Rightarrow> point \<Rightarrow> resizable \<Rightarrow> resizable" where
  "resize_start a cur size' ratio mouse r =
     r\<lparr>resizing := True, r_axis := a, r_position := cur, r_size := size', originalSize := size', r_originalPosition := cur,
       originalMousePosition := mouse,
       aspectRatio := (case ratio of Some x \<Rightarrow> x
         | None \<Rightarrow> if width size' = 0 then 1 else width size' / height size')\<rparr>"

text \<open>\<open>_mouseDrag\<close> without plug-ins and callbacks that change the size; the second result is what is set.\<close>

definition resize_drag :: "bool \<Rightarrow> point \<Rightarrow> resizable \<Rightarrow> resizable \<times> (string \<times> rat) list" where
  "resize_drag shift page r0 =
     (let dx = pleft page - pleft (originalMousePosition r0); dy = ptop page - ptop (originalMousePosition r0);
          r = updatePrevProperties r0
      in case change_of (r_axis r) dx dy r of
           None \<Rightarrow> (r, [])
         | Some c \<Rightarrow>
             (let r1 = updateVirtualBoundaries shift r;
                  c1 = (if keepRatio r1 \<or> shift then updateRatio c r1 else c);
                  r2 = updateCache (respectSize c1 r1) r1;
                  props = applyChanges r2
              in (if props = [] then r2 else updatePrevProperties r2, props)))"

definition resize_run :: "(bool \<times> point) list \<Rightarrow> resizable \<Rightarrow> resizable" where
  "resize_run evs r = fold (\<lambda>(shift, page) r. fst (resize_drag shift page r)) evs r"

section \<open>Properties\<close>

definition good_limits :: "rat \<Rightarrow> rat option \<Rightarrow> bool" where
  "good_limits lo hi \<longleftrightarrow> 0 < lo \<and> (\<forall>m. hi = Some m \<longrightarrow> lo \<le> m)"

definition within_limits :: "rat \<Rightarrow> rat option \<Rightarrow> rat \<Rightarrow> bool" where
  "within_limits lo hi x \<longleftrightarrow> lo \<le> x \<and> (\<forall>m. hi = Some m \<longrightarrow> x \<le> m)"

definition good_boundaries :: "boundaries \<Rightarrow> bool" where
  "good_boundaries b \<longleftrightarrow> good_limits (b_minWidth b) (b_maxWidth b) \<and> good_limits (b_minHeight b) (b_maxHeight b)"

text \<open>A size and a position of one axis that keep the far edge, or leave the position alone.\<close>

definition keeps_edge :: "bool \<Rightarrow> rat \<Rightarrow> rat option \<times> rat option \<Rightarrow> bool" where
  "keeps_edge near far sp \<longleftrightarrow> (if near then \<exists>s p. sp = (Some s, Some p) \<and> p + s = far else snd sp = None)"

lemma limit_axis_None: "limit_axis lo hi near far (None, p) = (None, p)"
  by (simp add: limit_axis_def over_max_def under_min_def split: option.splits)

lemma limit_axis_Some:
  assumes "good_limits lo hi"
  obtains y where "fst (limit_axis lo hi near far (Some x, p)) = Some y" "within_limits lo hi y"
    "keeps_edge near far (Some x, p) \<Longrightarrow> keeps_edge near far (limit_axis lo hi near far (Some x, p))"
    "y = (if x < lo then lo else case hi of Some m \<Rightarrow> if m < x then m else x | None \<Rightarrow> x)"
proof (cases "x < lo")
  case True
  then have "limit_axis lo hi near far (Some x, p) = (Some lo, if near then Some (far - lo) else p)"
    using assms by (auto simp: limit_axis_def over_max_def under_min_def good_limits_def split: option.splits)
  then show thesis using assms True by (intro that [of lo]) (auto simp: within_limits_def good_limits_def keeps_edge_def)
next
  case False
  show thesis
  proof (cases "\<exists>m. hi = Some m \<and> m < x")
    case True
    then obtain m where m: "hi = Some m" "m < x" by blast
    then have "limit_axis lo hi near far (Some x, p) = (Some m, if near then Some (far - m) else p)"
      using assms False by (auto simp: limit_axis_def over_max_def under_min_def good_limits_def)
    then show thesis using assms m False by (intro that [of m]) (auto simp: within_limits_def good_limits_def keeps_edge_def)
  next
    case inside: False
    then have "limit_axis lo hi near far (Some x, p) = (Some x, p)"
      using False by (auto simp: limit_axis_def over_max_def under_min_def split: option.splits)
    then show thesis using False inside by (intro that [of x]) (auto simp: within_limits_def split: option.splits)
  qed
qed

text \<open>The far edges of the element when the interaction began.\<close>

definition far_left :: "resizable \<Rightarrow> rat" where
  "far_left r = pleft (r_originalPosition r) + width (originalSize r)"

definition far_top :: "resizable \<Rightarrow> rat" where
  "far_top r = ptop (r_originalPosition r) + height (originalSize r)"

text \<open>The edges opposite to the handle are where they were.\<close>

definition edges_fixed :: "resizable \<Rightarrow> bool" where
  "edges_fixed r \<longleftrightarrow>
     (if west (r_axis r) then pleft (r_position r) + width (r_size r) = far_left r else pleft (r_position r) = pleft (r_originalPosition r))
     \<and> (if north (r_axis r) then ptop (r_position r) + height (r_size r) = far_top r else ptop (r_position r) = ptop (r_originalPosition r))"

definition change_ok :: "change \<Rightarrow> resizable \<Rightarrow> bool" where
  "change_ok c r \<longleftrightarrow> keeps_edge (west (r_axis r)) (far_left r) (c_width c, c_left c)
     \<and> keeps_edge (north (r_axis r)) (far_top r) (c_height c, c_top c) \<and> (c_width c \<noteq> None \<or> c_height c \<noteq> None)"

lemmas changes = change_e_def change_w_def change_n_def change_s_def no_change_def

lemma change_of_ok: "change_of (r_axis r) dx dy r = Some c \<Longrightarrow> change_ok c r"
  by (auto simp: change_of_def changes change_ok_def keeps_edge_def west_def north_def far_left_def far_top_def split: if_splits)

lemma updateRatio_ok:
  assumes "change_of (r_axis r) dx dy r = Some c" "edges_fixed r" "0 < aspectRatio r"
  shows "change_ok (updateRatio c r) r \<and> (\<exists>h. c_height (updateRatio c r) = Some h \<and> c_width (updateRatio c r) = Some (h * aspectRatio r))"
  using assms
  by (auto simp: change_of_def changes updateRatio_def Let_def change_ok_def keeps_edge_def west_def north_def far_left_def far_top_def
    edges_fixed_def split: if_splits)

text \<open>The value of a dimension under limits.\<close>

definition clamp :: "rat \<Rightarrow> rat option \<Rightarrow> rat \<Rightarrow> rat" where
  "clamp lo hi x = (if x < lo then lo else case hi of Some m \<Rightarrow> if m < x then m else x | None \<Rightarrow> x)"

lemma limit_axis_ok:
  assumes "good_limits lo hi" "keeps_edge near far (s, p)"
  shows "keeps_edge near far (limit_axis lo hi near far (s, p)) \<and> fst (limit_axis lo hi near far (s, p)) = map_option (clamp lo hi) s"
proof (cases s)
  case None
  then show ?thesis using assms(2) by (simp add: limit_axis_None)
next
  case (Some x)
  obtain y where "fst (limit_axis lo hi near far (Some x, p)) = Some y" "keeps_edge near far (limit_axis lo hi near far (Some x, p))"
      "y = (if x < lo then lo else case hi of Some m \<Rightarrow> if m < x then m else x | None \<Rightarrow> x)"
    using limit_axis_Some [OF assms(1), of near far x p] assms(2) Some by blast
  then show ?thesis by (simp only: Some clamp_def option.map)
qed

lemma clamp_within: "good_limits lo hi \<Longrightarrow> within_limits lo hi (clamp lo hi x)"
  by (auto simp: good_limits_def within_limits_def clamp_def split: option.splits)

lemma clamp_pos: "good_limits lo hi \<Longrightarrow> 0 < clamp lo hi x"
  using clamp_within [of lo hi x] by (auto simp: good_limits_def within_limits_def)

lemma clamp_nonzero: "good_limits lo hi \<Longrightarrow> clamp lo hi x \<noteq> 0"
  using clamp_pos [of lo hi x] by auto

lemma respectSize_ok:
  assumes "good_boundaries (vBoundaries r)" "change_ok c r"
  shows "change_ok (respectSize c r) r"
    and "c_width (respectSize c r) = map_option (clamp (b_minWidth (vBoundaries r)) (b_maxWidth (vBoundaries r))) (c_width c)"
    and "c_height (respectSize c r) = map_option (clamp (b_minHeight (vBoundaries r)) (b_maxHeight (vBoundaries r))) (c_height c)"
proof -
  let ?b = "vBoundaries r"
  obtain w l where w: "limit_axis (b_minWidth ?b) (b_maxWidth ?b) (west (r_axis r)) (far_left r) (c_width c, c_left c) = (w, l)" by fastforce
  obtain h t where h: "limit_axis (b_minHeight ?b) (b_maxHeight ?b) (north (r_axis r)) (far_top r) (c_height c, c_top c) = (h, t)" by fastforce
  have good: "good_limits (b_minWidth ?b) (b_maxWidth ?b)" "good_limits (b_minHeight ?b) (b_maxHeight ?b)"
    using assms(1) by (simp_all add: good_boundaries_def)
  have ww: "keeps_edge (west (r_axis r)) (far_left r) (w, l)" "w = map_option (clamp (b_minWidth ?b) (b_maxWidth ?b)) (c_width c)"
    using limit_axis_ok [OF good(1), of "west (r_axis r)" "far_left r" "c_width c" "c_left c"] assms(2)
    unfolding w change_ok_def fst_conv by blast+
  have hh: "keeps_edge (north (r_axis r)) (far_top r) (h, t)" "h = map_option (clamp (b_minHeight ?b) (b_maxHeight ?b)) (c_height c)"
    using limit_axis_ok [OF good(2), of "north (r_axis r)" "far_top r" "c_height c" "c_top c"] assms(2)
    unfolding h change_ok_def fst_conv by blast+
  have "\<not> (falsy w \<and> falsy h)"
    using assms(2) ww(2) hh(2) by (auto simp: change_ok_def falsy_def clamp_nonzero [OF good(1)] clamp_nonzero [OF good(2)])
  then have "respectSize c r = \<lparr>c_left = l, c_top = t, c_width = w, c_height = h\<rparr>"
    using w h by (auto simp: respectSize_def Let_def far_left_def far_top_def fix_jump_def)
  then show "change_ok (respectSize c r) r"
    "c_width (respectSize c r) = map_option (clamp (b_minWidth ?b) (b_maxWidth ?b)) (c_width c)"
    "c_height (respectSize c r) = map_option (clamp (b_minHeight ?b) (b_maxHeight ?b)) (c_height c)"
    using ww hh assms(2) by (auto simp: change_ok_def)
qed

lemma updateCache_edges: "change_ok c r \<Longrightarrow> edges_fixed r \<Longrightarrow> edges_fixed (updateCache c r)"
  by (auto simp: change_ok_def keeps_edge_def edges_fixed_def updateCache_def far_left_def far_top_def split: if_splits)

lemma prev_edges [simp]: "edges_fixed (updatePrevProperties r) = edges_fixed r"
  by (simp add: edges_fixed_def updatePrevProperties_def far_left_def far_top_def)

text \<open>What a drag leaves alone.\<close>

definition same_setup :: "resizable \<Rightarrow> resizable \<Rightarrow> bool" where
  "same_setup r r' \<longleftrightarrow> r_opts r' = r_opts r \<and> r_axis r' = r_axis r \<and> keepRatio r' = keepRatio r \<and> aspectRatio r' = aspectRatio r
     \<and> originalSize r' = originalSize r \<and> r_originalPosition r' = r_originalPosition r \<and> originalMousePosition r' = originalMousePosition r"

lemma vb_same: "same_setup r r' \<Longrightarrow> vBoundaries (updateVirtualBoundaries s r') = vBoundaries (updateVirtualBoundaries s r)"
  by (simp add: same_setup_def updateVirtualBoundaries_def Let_def)

lemma vb_edges [simp]: "edges_fixed (updateVirtualBoundaries s r) = edges_fixed r"
  by (simp add: edges_fixed_def updateVirtualBoundaries_def Let_def far_left_def far_top_def)

lemma prev_axis: "r_axis (updatePrevProperties r) = r_axis r"
  by (simp add: updatePrevProperties_def)

text \<open>One drag: the change applied, and that it keeps the edges.\<close>

lemma resize_drag_cases:
  assumes "edges_fixed r" "0 < aspectRatio r" "good_boundaries (vBoundaries (updateVirtualBoundaries s r))"
  obtains (none) dx dy q where "fst (resize_drag s page r) = updatePrevProperties r" "change_of (r_axis r) dx dy q = None"
    | (drag) c :: change and b :: boundaries where "b = vBoundaries (updateVirtualBoundaries s r)"
        "keepRatio r \<or> s \<Longrightarrow> \<exists>h. c_height c = Some h \<and> c_width c = Some (h * aspectRatio r)"
        "width (r_size (fst (resize_drag s page r))) = (case c_width c of Some x \<Rightarrow> clamp (b_minWidth b) (b_maxWidth b) x | None \<Rightarrow> width (r_size r))"
        "height (r_size (fst (resize_drag s page r))) = (case c_height c of Some x \<Rightarrow> clamp (b_minHeight b) (b_maxHeight b) x | None \<Rightarrow> height (r_size r))"
        "edges_fixed (fst (resize_drag s page r))"
proof -
  define r1 where "r1 = updateVirtualBoundaries s (updatePrevProperties r)"
  let ?dx = "pleft page - pleft (originalMousePosition r)" and ?dy = "ptop page - ptop (originalMousePosition r)"
  have e1: "edges_fixed r1" using assms(1) by (simp add: r1_def)
  have b1: "vBoundaries r1 = vBoundaries (updateVirtualBoundaries s r)" "aspectRatio r1 = aspectRatio r" "keepRatio r1 = keepRatio r" "r_axis r1 = r_axis r"
    "r_size r1 = r_size r"
    by (simp_all add: r1_def updateVirtualBoundaries_def updatePrevProperties_def Let_def)
  have ch: "change_of (r_axis r) ?dx ?dy (updatePrevProperties r) = change_of (r_axis r1) ?dx ?dy r1"
    by (simp add: change_of_def changes r1_def updateVirtualBoundaries_def updatePrevProperties_def Let_def)
  show thesis
  proof (cases "change_of (r_axis r1) ?dx ?dy r1")
    case None
    then have "change_of (r_axis r) ?dx ?dy (updatePrevProperties r) = None" using ch by simp
    then show thesis by (intro none) (simp_all add: resize_drag_def Let_def prev_axis)
  next
    case (Some c)
    define c1 where "c1 = (if keepRatio r1 \<or> s then updateRatio c r1 else c)"
    have ok: "change_ok c1 r1" using change_of_ok [OF Some] updateRatio_ok [OF Some e1] assms(2) b1 by (simp add: c1_def)
    have ratio: "keepRatio r \<or> s \<Longrightarrow> \<exists>h. c_height c1 = Some h \<and> c_width c1 = Some (h * aspectRatio r)"
      using updateRatio_ok [OF Some e1] assms(2) b1 by (simp add: c1_def)
    define r2 where "r2 = updateCache (respectSize c1 r1) r1"
    have run: "fst (resize_drag s page r) = (if applyChanges r2 = [] then r2 else updatePrevProperties r2)"
      by (simp only: resize_drag_def Let_def prev_axis ch Some option.case r1_def [symmetric] c1_def [symmetric] r2_def [symmetric] fst_conv)
    have good: "good_boundaries (vBoundaries r1)" using assms(3) b1 by simp
    note resp = respectSize_ok [OF good ok]
    have "edges_fixed r2" unfolding r2_def using resp(1) e1 by (rule updateCache_edges)
    moreover have "width (r_size r2) = (case c_width c1 of Some x \<Rightarrow> clamp (b_minWidth (vBoundaries r1)) (b_maxWidth (vBoundaries r1)) x | None \<Rightarrow> width (r_size r))"
      "height (r_size r2) = (case c_height c1 of Some x \<Rightarrow> clamp (b_minHeight (vBoundaries r1)) (b_maxHeight (vBoundaries r1)) x | None \<Rightarrow> height (r_size r))"
      using resp b1 by (auto simp: r2_def updateCache_def split: option.splits)
    ultimately show thesis
      using ratio b1 run by (intro drag [of "vBoundaries r1" c1]) (auto simp: updatePrevProperties_def [of r2] edges_fixed_def far_left_def far_top_def)
  qed
qed

lemma drag_same: "same_setup r (fst (resize_drag s page r))"
proof -
  have prev: "same_setup q (updatePrevProperties q)" and vb: "same_setup q (updateVirtualBoundaries s q)" and cache: "same_setup q (updateCache c q)" for q c
    by (simp_all add: same_setup_def updatePrevProperties_def updateVirtualBoundaries_def updateCache_def Let_def)
  have trans: "same_setup a b \<Longrightarrow> same_setup b c \<Longrightarrow> same_setup a c" for a b c by (simp add: same_setup_def)
  show ?thesis
  proof (cases "change_of (r_axis (updatePrevProperties r)) (pleft page - pleft (originalMousePosition r)) (ptop page - ptop (originalMousePosition r)) (updatePrevProperties r)")
    case None
    then show ?thesis using prev by (simp add: resize_drag_def Let_def)
  next
    case (Some c)
    define r1 where "r1 = updateVirtualBoundaries s (updatePrevProperties r)"
    define r2 where "r2 = updateCache (respectSize (if keepRatio r1 \<or> s then updateRatio c r1 else c) r1) r1"
    have "fst (resize_drag s page r) = (if applyChanges r2 = [] then r2 else updatePrevProperties r2)"
      using Some by (simp only: resize_drag_def Let_def option.case r1_def [symmetric] r2_def [symmetric] fst_conv)
    moreover have "same_setup r r2" unfolding r2_def r1_def using trans prev vb cache by blast
    ultimately show ?thesis using trans prev by simp
  qed
qed

text \<open>A size within the limits of the options.\<close>

definition option_limits :: "rat option \<Rightarrow> rat option \<Rightarrow> rat \<Rightarrow> bool" where
  "option_limits lo hi x \<longleftrightarrow> (\<forall>m. lo = Some m \<longrightarrow> m \<le> x) \<and> (\<forall>m. hi = Some m \<longrightarrow> x \<le> m)"

lemma min_upper_le: "min_upper f a (Some m) = Some k \<Longrightarrow> k \<le> m"
  by (auto simp: min_upper_def split: option.splits if_splits)

lemma min_upper_Some: "\<exists>k. min_upper f a (Some m) = Some k"
  by (auto simp: min_upper_def split: option.splits)

lemma vb_tight:
  assumes "b = vBoundaries (updateVirtualBoundaries s r)"
  shows "within_limits (b_minWidth b) (b_maxWidth b) x \<Longrightarrow> option_limits (minWidth (r_opts r)) (maxWidth (r_opts r)) x"
    and "within_limits (b_minHeight b) (b_maxHeight b) x \<Longrightarrow> option_limits (minHeight (r_opts r)) (maxHeight (r_opts r)) x"
proof -
  have up: "\<exists>k. b_maxWidth b = Some k \<and> k \<le> m" if "maxWidth (r_opts r) = Some m" for m
    using assms that min_upper_Some [of "aspectRatio r" "maxHeight (r_opts r)" m] min_upper_le
    by (auto simp: updateVirtualBoundaries_def Let_def)
  have up': "\<exists>k. b_maxHeight b = Some k \<and> k \<le> m" if "maxHeight (r_opts r) = Some m" for m
    using assms that min_upper_Some [of "1 / aspectRatio r" "maxWidth (r_opts r)" m] min_upper_le
    by (auto simp: updateVirtualBoundaries_def Let_def)
  have lo: "minWidth (r_opts r) = Some m \<Longrightarrow> m \<le> b_minWidth b" "minHeight (r_opts r) = Some m \<Longrightarrow> m \<le> b_minHeight b" for m
    using assms by (auto simp: updateVirtualBoundaries_def Let_def split: if_splits)
  show "within_limits (b_minWidth b) (b_maxWidth b) x \<Longrightarrow> option_limits (minWidth (r_opts r)) (maxWidth (r_opts r)) x"
    unfolding within_limits_def option_limits_def using up lo(1) by (meson order_trans)
  show "within_limits (b_minHeight b) (b_maxHeight b) x \<Longrightarrow> option_limits (minHeight (r_opts r)) (maxHeight (r_opts r)) x"
    unfolding within_limits_def option_limits_def using up' lo(2) by (meson order_trans)
qed

definition size_ok :: "resizable \<Rightarrow> bool" where
  "size_ok r \<longleftrightarrow>
     (width (r_size r) = width (originalSize r) \<or> option_limits (minWidth (r_opts r)) (maxWidth (r_opts r)) (width (r_size r)))
     \<and> (height (r_size r) = height (originalSize r) \<or> option_limits (minHeight (r_opts r)) (maxHeight (r_opts r)) (height (r_size r)))"

lemma drag_keeps:
  assumes "edges_fixed r" "size_ok r" "0 < aspectRatio r" "good_boundaries (vBoundaries (updateVirtualBoundaries s r))"
  shows "edges_fixed (fst (resize_drag s page r)) \<and> size_ok (fst (resize_drag s page r))"
proof -
  have same: "same_setup r (fst (resize_drag s page r))" by (rule drag_same)
  have good: "good_limits (b_minWidth b) (b_maxWidth b)" "good_limits (b_minHeight b) (b_maxHeight b)"
    if "b = vBoundaries (updateVirtualBoundaries s r)" for b using assms(4) that by (simp_all add: good_boundaries_def)
  show ?thesis
    using assms(1,3,4)
  proof (cases rule: resize_drag_cases [where page = page])
    case none
    then show ?thesis using assms(1,2) by (simp add: size_ok_def updatePrevProperties_def [of r] edges_fixed_def far_left_def far_top_def)
  next
    case (drag c b)
    have "option_limits (minWidth (r_opts r)) (maxWidth (r_opts r)) (clamp (b_minWidth b) (b_maxWidth b) x)"
      "option_limits (minHeight (r_opts r)) (maxHeight (r_opts r)) (clamp (b_minHeight b) (b_maxHeight b) x)" for x
      using vb_tight [OF drag(1)] clamp_within good [OF drag(1)] by blast+
    then have "size_ok (fst (resize_drag s page r))"
      using assms(2) same drag(3,4) by (auto simp: size_ok_def same_setup_def split: option.splits)
    with drag(5) show ?thesis by blast
  qed
qed

lemma run_keeps:
  "edges_fixed r \<Longrightarrow> size_ok r \<Longrightarrow> 0 < aspectRatio r \<Longrightarrow> \<forall>s. good_boundaries (vBoundaries (updateVirtualBoundaries s r)) \<Longrightarrow>
     edges_fixed (resize_run evs r) \<and> size_ok (resize_run evs r) \<and> same_setup r (resize_run evs r)"
proof (induction evs arbitrary: r)
  case (Cons ev evs)
  let ?r = "fst (resize_drag (fst ev) (snd ev) r)"
  have same: "same_setup r ?r" by (rule drag_same)
  then have "0 < aspectRatio ?r" "\<forall>s. good_boundaries (vBoundaries (updateVirtualBoundaries s ?r))"
    using Cons.prems(3,4) vb_same [OF same] by (simp_all add: same_setup_def)
  moreover have "edges_fixed ?r \<and> size_ok ?r" using drag_keeps Cons.prems by blast
  ultimately have "edges_fixed (resize_run evs ?r) \<and> size_ok (resize_run evs ?r) \<and> same_setup ?r (resize_run evs ?r)" using Cons.IH by blast
  moreover have "resize_run (ev # evs) r = resize_run evs ?r" by (simp add: resize_run_def case_prod_beta)
  ultimately show ?case using same by (simp add: same_setup_def)
qed (simp add: resize_run_def same_setup_def)

text \<open>
  C13. While a handle is dragged, by any sequence of moves, with or without the aspect ratio, the
  edges opposite to the handle stay where they were, and a dimension that changes is within the
  limits of the options, when these are positive and consistent.
\<close>

theorem resize_keeps_edges:
  assumes "r = resize_start a cur sz ratio mouse r0" "0 < aspectRatio r"
    and "\<forall>s. good_boundaries (vBoundaries (updateVirtualBoundaries s r))" "resize_run evs r = r'"
  shows "(if west a then pleft (r_position r') + width (r_size r') = pleft cur + width sz else pleft (r_position r') = pleft cur)
    \<and> (if north a then ptop (r_position r') + height (r_size r') = ptop cur + height sz else ptop (r_position r') = ptop cur)
    \<and> (width (r_size r') = width sz \<or> option_limits (minWidth (r_opts r0)) (maxWidth (r_opts r0)) (width (r_size r')))
    \<and> (height (r_size r') = height sz \<or> option_limits (minHeight (r_opts r0)) (maxHeight (r_opts r0)) (height (r_size r')))"
proof -
  have "edges_fixed r" "size_ok r" by (simp_all add: assms(1) resize_start_def edges_fixed_def size_ok_def far_left_def far_top_def)
  then have "edges_fixed r'" "size_ok r'" "same_setup r r'" using run_keeps [OF _ _ assms(2,3)] assms(4) by blast+
  then have "if west a then pleft (r_position r') + width (r_size r') = pleft cur + width sz else pleft (r_position r') = pleft cur"
    "if north a then ptop (r_position r') + height (r_size r') = ptop cur + height sz else ptop (r_position r') = ptop cur"
    "width (r_size r') = width sz \<or> option_limits (minWidth (r_opts r0)) (maxWidth (r_opts r0)) (width (r_size r'))"
    "height (r_size r') = height sz \<or> option_limits (minHeight (r_opts r0)) (maxHeight (r_opts r0)) (height (r_size r'))"
    by (simp_all add: assms(1) resize_start_def edges_fixed_def size_ok_def same_setup_def far_left_def far_top_def split: if_splits)
  then show ?thesis by blast
qed

section \<open>The aspect ratio\<close>

lemma clamp_scale: "0 < f \<Longrightarrow> clamp (lo * f) (map_option (\<lambda>m. m * f) hi) (x * f) = clamp lo hi x * f"
  by (auto simp: clamp_def split: option.splits)

lemma vb_ratio:
  assumes "keepRatio r \<or> s" "0 < aspectRatio r" "b = vBoundaries (updateVirtualBoundaries s r)"
  shows "b_minWidth b = b_minHeight b * aspectRatio r \<and> b_maxWidth b = map_option (\<lambda>m. m * aspectRatio r) (b_maxHeight b)"
proof -
  have f: "x / aspectRatio r * aspectRatio r = x" "(y < x / aspectRatio r) = (y * aspectRatio r < x)" for x y
    using assms(2) by (simp_all add: pos_less_divide_eq)
  show ?thesis
    using assms by (auto simp: updateVirtualBoundaries_def Let_def min_upper_def f divide_less_eq split: option.splits)
qed

text \<open>
  With the ratio kept, every drag of one of the eight handles leaves width and height in the
  ratio, also where a limit cuts them.
\<close>

theorem resize_keeps_ratio:
  assumes "edges_fixed r" "keepRatio r \<or> s" "0 < aspectRatio r" "good_boundaries (vBoundaries (updateVirtualBoundaries s r))"
    and "r_axis r \<in> {''n'', ''s'', ''e'', ''w'', ''ne'', ''nw'', ''se'', ''sw''}" "fst (resize_drag s page r) = r'"
  shows "width (r_size r') = height (r_size r') * aspectRatio r"
proof -
  have ch: "\<exists>c. change_of (r_axis r) dx dy q = Some c" for dx dy q using assms(5) by (auto simp: change_of_def)
  show ?thesis
    using assms(1,3,4)
  proof (cases rule: resize_drag_cases [where page = page])
    case none
    then show ?thesis using ch by (metis option.distinct(1))
  next
    case (drag c b)
    then obtain h where h: "c_height c = Some h" "c_width c = Some (h * aspectRatio r)" using assms(2) by blast
    have "clamp (b_minWidth b) (b_maxWidth b) (h * aspectRatio r) = clamp (b_minHeight b) (b_maxHeight b) h * aspectRatio r"
      using vb_ratio [OF assms(2,3) drag(1)] clamp_scale [OF assms(3)] by simp
    then show ?thesis using drag(3,4) h assms(6) by simp
  qed
qed

definition plain_resizable :: resizable where
  "plain_resizable = \<lparr>r_opts = \<lparr>minWidth = Some 10, maxWidth = Some 300, minHeight = Some 10, maxHeight = None\<rparr>, r_axis = ''se'', keepRatio = False,
     aspectRatio = 1, r_position = \<lparr>pleft = 0, ptop = 0\<rparr>, r_size = \<lparr>width = 0, height = 0\<rparr>, originalSize = \<lparr>width = 0, height = 0\<rparr>,
     r_originalPosition = \<lparr>pleft = 0, ptop = 0\<rparr>, originalMousePosition = \<lparr>pleft = 0, ptop = 0\<rparr>, prevPosition = \<lparr>pleft = 0, ptop = 0\<rparr>,
     prevSize = \<lparr>width = 0, height = 0\<rparr>,
     vBoundaries = \<lparr>b_minWidth = 0, b_maxWidth = None, b_minHeight = 0, b_maxHeight = None\<rparr>, resizing = False\<rparr>"

definition west_drag :: resizable where
  "west_drag = resize_start ''nw'' \<lparr>pleft = 40, ptop = 20\<rparr> \<lparr>width = 100, height = 50\<rparr> None \<lparr>pleft = 40, ptop = 20\<rparr> plain_resizable"

lemma west_drag_good: "good_boundaries (vBoundaries (updateVirtualBoundaries s west_drag))"
  by (cases s) (simp_all add: west_drag_def resize_start_def plain_resizable_def updateVirtualBoundaries_def Let_def good_boundaries_def good_limits_def min_upper_def)

theorem resize_keeps_edges_witness:
  "pleft (r_position (resize_run [(False, \<lparr>pleft = -700, ptop = 60\<rparr>), (True, \<lparr>pleft = 30, ptop = 0\<rparr>)] west_drag))
     + width (r_size (resize_run [(False, \<lparr>pleft = -700, ptop = 60\<rparr>), (True, \<lparr>pleft = 30, ptop = 0\<rparr>)] west_drag)) = 40 + 100"
  using resize_keeps_edges [OF west_drag_def _ _ refl, of "[(False, \<lparr>pleft = -700, ptop = 60\<rparr>), (True, \<lparr>pleft = 30, ptop = 0\<rparr>)]"]
  by (simp add: west_drag_good west_def) (simp add: west_drag_def resize_start_def)

theorem resize_keeps_ratio_witness:
  "width (r_size (fst (resize_drag True \<lparr>pleft = -700, ptop = -700\<rparr> west_drag)))
     = height (r_size (fst (resize_drag True \<lparr>pleft = -700, ptop = -700\<rparr> west_drag))) * aspectRatio west_drag"
proof (rule resize_keeps_ratio [OF _ _ _ west_drag_good _ refl])
  show "edges_fixed west_drag" by (simp add: west_drag_def resize_start_def edges_fixed_def far_left_def far_top_def)
qed (simp_all add: west_drag_def resize_start_def)

text \<open>
  A minimum of zero is no minimum: the test \<open>o.minWidth && ...\<close> skips it, and dragging the right
  handle of an element of width 100 by 150 to the left gives it the width -50.
\<close>

theorem zero_minimum_ignored:
  "width (r_size (fst (resize_drag False \<lparr>pleft = -150, ptop = 0\<rparr>
     (resize_start ''e'' \<lparr>pleft = 0, ptop = 0\<rparr> \<lparr>width = 100, height = 50\<rparr> None \<lparr>pleft = 0, ptop = 0\<rparr>
       (plain_resizable\<lparr>r_opts := \<lparr>minWidth = Some 0, maxWidth = None, minHeight = Some 0, maxHeight = None\<rparr>\<rparr>))))) = -50"
  by code_simp

end
