(* ===== verification/UI_Widget.thy ===== *)
theory UI_Widget
  imports JQ_Core JQ_Class
begin

text \<open>
  The widget factory of jQuery UI: merging of options with \<open>$.widget.extend\<close>, the method \<open>option\<close> with
  its nested keys, the classes a widget puts on elements and takes off again, and the bridge from
  the plug-in to the instances. The document is a class list for every element (theory \<open>JQ_Class\<close> shows
  that the text of the attribute behaves like this list); elements are numbered in document order.
\<close>

section \<open>Options\<close>

type_synonym opts = "(string \<times> jsval) list"

text \<open>
  \<open>$.widget.extend( {}, value )\<close>: objects are copied at every depth, undefined values are left out. An
  assignment to \<open>__proto__\<close> makes no property; the prototype it sets is outside of the model.
\<close>

fun wclone :: "jsval \<Rightarrow> jsval" where
  "wclone (Obj kvs) = Obj (map (\<lambda>(k, v). (k, wclone v)) (filter (\<lambda>(k, v). v \<noteq> Undefined \<and> k \<noteq> ''__proto__'') kvs))"
| "wclone v = v"

text \<open>One input of \<open>$.widget.extend\<close>; \<open>merged\<close> is the object the new value of a key is built on.\<close>

definition merged :: "opts \<Rightarrow> string \<Rightarrow> opts" where
  "merged target k = (case assoc k target of Some (Obj ts) \<Rightarrow> own_items (wclone (Obj ts)) | _ \<Rightarrow> [])"

function wext :: "opts \<Rightarrow> opts \<Rightarrow> opts" where
  "wext target [] = target"
| "wext target ((k, v) # rest) =
     wext (if v = Undefined \<or> k = ''__proto__'' then target
           else assoc_set k (case v of Obj kvs \<Rightarrow> Obj (wext (merged target k) kvs) | _ \<Rightarrow> v) target) rest"
  by pat_completeness auto
termination
  by (relation "measure (\<lambda>(t, kvs). weights kvs)") auto

definition widget_extend :: "opts \<Rightarrow> jsval list \<Rightarrow> opts" where
  "widget_extend target inputs = fold (\<lambda>i t. wext t (own_items i)) inputs target"

text \<open>\<open>v[p]\<close> for a value that is not \<open>null\<close> or \<open>undefined\<close>.\<close>

definition read_prop :: "host \<Rightarrow> jsval \<Rightarrow> string \<Rightarrow> jsval" where
  "read_prop h v p = (case getprop h v p of Some x \<Rightarrow> x | None \<Rightarrow> Undefined)"

definition or_object :: "jsval \<Rightarrow> jsval" where
  "or_object v = (if truthy v then v else Obj [])"

text \<open>The walk along the parts of a nested key, for reading and for writing.\<close>

fun get_path :: "host \<Rightarrow> jsval \<Rightarrow> string list \<Rightarrow> jsval" where
  "get_path h cur [] = cur"
| "get_path h cur [k] = read_prop h cur k"
| "get_path h cur (p # q # ps) = get_path h (or_object (read_prop h cur p)) (q # ps)"

fun set_path :: "host \<Rightarrow> jsval \<Rightarrow> string list \<Rightarrow> jsval \<Rightarrow> jsval" where
  "set_path h cur [] v = v"
| "set_path h cur [k] v = setprop cur k v"
| "set_path h cur (p # q # ps) v = setprop cur p (set_path h (or_object (read_prop h cur p)) (q # ps) v)"

definition undefined_null :: "jsval \<Rightarrow> jsval" where
  "undefined_null v = (if v = Undefined then Null else v)"

definition copy_option :: "host \<Rightarrow> opts \<Rightarrow> string \<Rightarrow> jsval" where
  "copy_option h os k = Obj (widget_extend [] [read_prop h (Obj os) k])"

definition option_get :: "host \<Rightarrow> string \<Rightarrow> opts \<Rightarrow> jsval" where
  "option_get h key os =
     (case split_on (CHR ''.'') key of
        [] \<Rightarrow> Null
      | k # ps \<Rightarrow> undefined_null (if ps = [] then read_prop h (Obj os) k else get_path h (copy_option h os k) ps))"

text \<open>The options a call \<open>option( key, value )\<close> passes on.\<close>

definition option_entry :: "host \<Rightarrow> string \<Rightarrow> jsval \<Rightarrow> opts \<Rightarrow> opts" where
  "option_entry h key v os =
     (case split_on (CHR ''.'') key of
        [] \<Rightarrow> []
      | k # ps \<Rightarrow> [(k, if ps = [] then v else set_path h (copy_option h os k) ps v)])"

section \<open>Classes\<close>

record widget =
  w_options :: opts
  elementLookup :: "(string \<times> nat list) list"    \<comment> \<open>\<open>classesElementLookup\<close>\<close>
  class_names :: "nat \<Rightarrow> string list"              \<comment> \<open>the classes of the elements of the page\<close>
  w_element :: "nat list"
  fullName :: string
  hoverable :: "nat list"
  focusable :: "nat list"

text \<open>The classes a key stands for besides itself: the words of \<open>options.classes[ key ]\<close>.\<close>

definition theme :: "host \<Rightarrow> jsval \<Rightarrow> string \<Rightarrow> string list" where
  "theme h classes c =
     (let t = read_prop h (or_object classes) c in if truthy t then match_words (tostr h t) else [])"

definition tracked :: "string \<Rightarrow> widget \<Rightarrow> nat list" where
  "tracked c w = (case assoc c (elementLookup w) of Some es \<Rightarrow> es | None \<Rightarrow> [])"

definition track :: "bool \<Rightarrow> nat list \<Rightarrow> string \<Rightarrow> widget \<Rightarrow> widget" where
  "track add els c w =
     w\<lparr>elementLookup := assoc_set c
        (if add then sort (remdups (tracked c w @ els)) else filter (\<lambda>e. e \<notin> set els) (tracked c w)) (elementLookup w)\<rparr>"

text \<open>\<open>_classes\<close> and the call of \<open>toggleClass\<close> with its result; \<open>th\<close> gives the themes.\<close>

definition full_classes :: "(string \<Rightarrow> string list) \<Rightarrow> string list \<Rightarrow> string list \<Rightarrow> string list" where
  "full_classes th keys extra = concat (map (\<lambda>c. c # th c) keys) @ extra"

definition apply_classes :: "bool \<Rightarrow> nat list \<Rightarrow> string list \<Rightarrow> widget \<Rightarrow> widget" where
  "apply_classes add els cs w =
     w\<lparr>class_names := (\<lambda>e. if e \<in> set els then fold (if add then add_name else remove_name) cs (class_names w e) else class_names w e)\<rparr>"

definition toggle_with :: "(string \<Rightarrow> string list) \<Rightarrow> bool \<Rightarrow> nat list \<Rightarrow> string \<Rightarrow> string \<Rightarrow> widget \<Rightarrow> widget" where
  "toggle_with th add els keys extra w =
     (let ks = match_words keys; es = match_words extra
      in apply_classes add els (full_classes th ks es) (fold (track add els) (ks @ es) w))"

definition current_theme :: "host \<Rightarrow> widget \<Rightarrow> string \<Rightarrow> string list" where
  "current_theme h w = theme h (read_prop h (Obj (w_options w)) ''classes'')"

definition widget_toggleClass :: "host \<Rightarrow> nat list \<Rightarrow> string \<Rightarrow> string \<Rightarrow> bool \<Rightarrow> widget \<Rightarrow> widget" where
  "widget_toggleClass h els keys extra add w = toggle_with (current_theme h w) add els keys extra w"

text \<open>The new value of \<open>classes\<close>, key by key.\<close>

definition set_class_key :: "host \<Rightarrow> jsval \<Rightarrow> string \<times> jsval \<Rightarrow> widget \<Rightarrow> widget" where
  "set_class_key h new kv w =
     (case kv of
        (c, v) \<Rightarrow>
          (let els = tracked c w
           in if v = read_prop h (or_object (read_prop h (Obj (w_options w)) ''classes'')) c \<or> els = [] then w
              else toggle_with (theme h new) True els c [] (widget_toggleClass h els c [] False w)))"

definition setOptionClasses :: "host \<Rightarrow> jsval \<Rightarrow> widget \<Rightarrow> widget" where
  "setOptionClasses h new w = fold (set_class_key h new) (own_items new) w"

definition setOptionDisabled :: "host \<Rightarrow> jsval \<Rightarrow> widget \<Rightarrow> widget" where
  "setOptionDisabled h v w =
     (let w1 = widget_toggleClass h (w_element w) (fullName w @ ''-disabled'') [] (truthy v) w
      in if truthy v then
           widget_toggleClass h (focusable w) [] ''ui-state-focus'' False
             (widget_toggleClass h (hoverable w) [] ''ui-state-hover'' False w1)
         else w1)"

definition setOption :: "host \<Rightarrow> string \<times> jsval \<Rightarrow> widget \<Rightarrow> widget" where
  "setOption h kv w =
     (case kv of
        (k, v) \<Rightarrow>
          (let w1 = (if k = ''classes'' then setOptionClasses h v w else w);
               w2 = w1\<lparr>w_options := assoc_set k v (w_options w1)\<rparr>
           in if k = ''disabled'' then setOptionDisabled h v w2 else w2))"

definition setOptions :: "host \<Rightarrow> opts \<Rightarrow> widget \<Rightarrow> widget" where
  "setOptions h kvs w = fold (setOption h) kvs w"

definition option_set :: "host \<Rightarrow> string \<Rightarrow> jsval \<Rightarrow> widget \<Rightarrow> widget" where
  "option_set h key v w = setOptions h (option_entry h key v (w_options w)) w"

definition enable :: "host \<Rightarrow> widget \<Rightarrow> widget" where
  "enable h w = setOptions h [(''disabled'', Bool False)] w"

definition disable :: "host \<Rightarrow> widget \<Rightarrow> widget" where
  "disable h w = setOptions h [(''disabled'', Bool True)] w"

text \<open>An element that is removed from the page is no longer tracked.\<close>

definition untrackClassesElement :: "nat \<Rightarrow> widget \<Rightarrow> widget" where
  "untrackClassesElement e w = w\<lparr>elementLookup := map (\<lambda>(c, es). (c, filter (\<lambda>x. x \<noteq> e) es)) (elementLookup w)\<rparr>"

text \<open>\<open>destroy\<close>, as far as it is about classes.\<close>

definition widget_destroy :: "host \<Rightarrow> widget \<Rightarrow> widget" where
  "widget_destroy h w = fold (\<lambda>(c, es). widget_toggleClass h es c [] False) (elementLookup w) w"

section \<open>The bridge\<close>

text \<open>
  A plug-in call on the elements: with the name of a method, or with options. What methods and the
  constructor do to an instance is a parameter. The first value that is not \<open>undefined\<close> and not the
  instance ends a method call; \<open>RSet\<close> is the set itself, returned for chaining.
\<close>

datatype ('i, 'v) bridge_result = RSet | RUndef | RInstance "'i option" | RVal 'v

datatype bridge_error = NotInitialized string | NoSuchMethod string

fun bridge_method :: "(string \<Rightarrow> bool) \<Rightarrow> ('i \<Rightarrow> 'i \<times> 'v option) \<Rightarrow> string \<Rightarrow> nat list \<Rightarrow> (nat \<Rightarrow> 'i option) \<Rightarrow>
    (bridge_error + ('i, 'v) bridge_result) \<times> (nat \<Rightarrow> 'i option)" where
  "bridge_method is_method run name [] inst = (Inr RSet, inst)"
| "bridge_method is_method run name (e # es) inst =
     (if name = ''instance'' then (Inr (RInstance (inst e)), inst)
      else case inst e of
        None \<Rightarrow> (Inl (NotInitialized name), inst)
      | Some i \<Rightarrow>
          (if \<not> is_method name \<or> (name \<noteq> [] \<and> hd name = CHR ''_'') then (Inl (NoSuchMethod name), inst)
           else case run i of
             (i', Some v) \<Rightarrow> (Inr (RVal v), inst(e \<mapsto> i'))
           | (i', None) \<Rightarrow> bridge_method is_method run name es (inst(e \<mapsto> i'))))"

definition bridge_call :: "(string \<Rightarrow> bool) \<Rightarrow> ('i \<Rightarrow> 'i \<times> 'v option) \<Rightarrow> string \<Rightarrow> nat list \<Rightarrow> (nat \<Rightarrow> 'i option) \<Rightarrow>
    (bridge_error + ('i, 'v) bridge_result) \<times> (nat \<Rightarrow> 'i option)" where
  "bridge_call is_method run name es inst =
     (if es = [] \<and> name = ''instance'' then (Inr RUndef, inst) else bridge_method is_method run name es inst)"

definition bridge_init :: "(opts \<Rightarrow> 'i) \<Rightarrow> (opts \<Rightarrow> 'i \<Rightarrow> 'i) \<Rightarrow> ('i \<Rightarrow> 'i) \<Rightarrow> opts \<Rightarrow> nat list \<Rightarrow> (nat \<Rightarrow> 'i option) \<Rightarrow> (nat \<Rightarrow> 'i option)" where
  "bridge_init new set_opts init os es inst =
     fold (\<lambda>e m. m(e \<mapsto> (case m e of Some i \<Rightarrow> init (set_opts os i) | None \<Rightarrow> new os))) es inst"

section \<open>Properties of options\<close>

text \<open>Objects as JavaScript has them: no key twice, at any depth.\<close>

fun proper :: "jsval \<Rightarrow> bool" where
  "proper (Obj kvs) \<longleftrightarrow> distinct (map fst kvs) \<and> (\<forall>kv \<in> set kvs. fst kv \<noteq> ''__proto__'' \<and> proper (snd kv))"
| "proper v \<longleftrightarrow> True"

abbreviation clone_items :: "opts \<Rightarrow> opts" where
  "clone_items kvs \<equiv> own_items (wclone (Obj kvs))"

lemma clone_items_Cons [simp]: "clone_items ((k, v) # kvs) = (if v \<noteq> Undefined \<and> k \<noteq> ''__proto__'' then (k, wclone v) # clone_items kvs else clone_items kvs)"
  by simp

lemma assoc_set_new: "k \<notin> fst ` set t \<Longrightarrow> assoc_set k v t = t @ [(k, v)]"
  by (induction t) auto

text \<open>Extending an empty object is the copy, so the two definitions agree.\<close>

lemma wext_new: "proper (Obj kvs) \<Longrightarrow> fst ` set t \<inter> fst ` set kvs = {} \<Longrightarrow> wext t kvs = t @ clone_items kvs"
proof (induction t kvs rule: wext.induct)
  case (2 target k v rest)
  define nv where "nv = (case v of Obj kvs \<Rightarrow> Obj (wext (merged target k) kvs) | _ \<Rightarrow> v)"
  have fresh: "k \<notin> fst ` set target" using 2(4) by auto
  then have "assoc k target = None" by (simp add: assoc_None)
  then have m: "merged target k = []" by (simp add: merged_def)
  show ?case
  proof (cases "v = Undefined \<or> k = ''__proto__''")
    case True
    with 2(2-4) show ?thesis by auto
  next
    case False
    have nv': "nv = wclone v"
    proof (cases v)
      case (Obj kvs)
      then have "wext [] kvs = clone_items kvs" using 2(1) [OF False Obj] 2(3) m by simp
      then show ?thesis using Obj m by (simp add: nv_def)
    qed (simp_all add: nv_def)
    have "wext target ((k, v) # rest) = wext (assoc_set k nv target) rest" using False by (simp add: nv_def)
    also have "\<dots> = (target @ [(k, nv)]) @ clone_items rest"
      using 2(2-4) False fresh by (simp add: nv_def assoc_set_new)
    finally show ?thesis using False nv' by simp
  qed
qed simp

lemma wext_clone: "proper (Obj kvs) \<Longrightarrow> wext [] kvs = clone_items kvs"
  by (simp add: wext_new del: own_items.simps wclone.simps)

lemma proper_assoc: "proper (Obj kvs) \<Longrightarrow> assoc k kvs = Some v \<Longrightarrow> proper v"
  by (auto simp: assoc_map_of dest: map_of_SomeD)

lemma assoc_clone: "distinct (map fst kvs) \<Longrightarrow> k \<noteq> ''__proto__'' \<Longrightarrow>
    assoc k (clone_items kvs) = (case assoc k kvs of Some v \<Rightarrow> if v = Undefined then None else Some (wclone v) | None \<Rightarrow> None)"
proof (induction kvs)
  case (Cons kv kvs)
  obtain k' v where kv: "kv = (k', v)" by (cases kv)
  have "assoc k' kvs = None" if "k' = k" using Cons.prems kv by (auto simp: assoc_None)
  then show ?case using Cons kv by (auto split: option.splits)
qed simp

text \<open>A part of a key that no object inherits.\<close>

definition plain_part :: "string \<Rightarrow> bool" where
  "plain_part p \<longleftrightarrow> p \<noteq> ''__proto__'' \<and> p \<notin> set object_proto"

lemma read_plain: "plain_part p \<Longrightarrow> read_prop h (Obj kvs) p = (case assoc p kvs of Some v \<Rightarrow> v | None \<Rightarrow> Undefined)"
  by (auto simp: read_prop_def plain_part_def inherited_def split: option.splits)

lemma read_clone: "plain_part p \<Longrightarrow> proper (Obj kvs) \<Longrightarrow> read_prop h (wclone (Obj kvs)) p = wclone (read_prop h (Obj kvs) p)"
proof -
  assume a: "plain_part p" "proper (Obj kvs)"
  obtain cs where cs: "wclone (Obj kvs) = Obj cs" by simp
  then have "assoc p cs = (case assoc p kvs of Some v \<Rightarrow> if v = Undefined then None else Some (wclone v) | None \<Rightarrow> None)"
    using assoc_clone [of kvs p] a unfolding cs by (simp add: plain_part_def)
  then show ?thesis unfolding cs using a by (auto simp: read_plain split: option.splits)
qed

text \<open>The values on the way to the last part are objects, or nothing is there yet.\<close>

fun walkable :: "jsval \<Rightarrow> string list \<Rightarrow> bool" where
  "walkable cur [] \<longleftrightarrow> False"
| "walkable cur [k] \<longleftrightarrow> plain_part k \<and> isPlainObject cur"
| "walkable cur (p # q # ps) \<longleftrightarrow> plain_part p \<and> isPlainObject cur \<and> walkable (or_object (own_prop cur p)) (q # ps)"

lemma walkable_object: "walkable cur ps \<Longrightarrow> isPlainObject cur"
  by (induction cur ps rule: walkable.induct) auto

lemma read_own: "plain_part p \<Longrightarrow> isPlainObject cur \<Longrightarrow> read_prop h cur p = own_prop cur p"
  by (cases cur) (simp_all add: read_plain)

lemma own_set: "isPlainObject cur \<Longrightarrow> own_prop (setprop cur p v) q = (if p = q then v else own_prop cur q)"
  by (cases cur) auto

lemma set_object [simp]: "isPlainObject (setprop cur p v) \<longleftrightarrow> isPlainObject cur"
  by (cases cur) auto

lemma or_object_of [simp]: "isPlainObject v \<Longrightarrow> or_object v = v"
  by (cases v) (auto simp: or_object_def)

lemma set_path_object: "walkable cur ps \<Longrightarrow> isPlainObject (set_path h cur ps v)"
  by (induction cur ps rule: walkable.induct) auto

lemma walkable_set_path: "walkable cur ps \<Longrightarrow> walkable (set_path h cur ps v) ps"
proof (induction cur ps rule: walkable.induct)
  case (3 cur p q ps)
  then have "isPlainObject (set_path h (or_object (own_prop cur p)) (q # ps) v)" by (intro set_path_object) simp
  then show ?case using 3 by (simp add: read_own own_set)
qed auto

lemma get_set_path: "walkable cur ps \<Longrightarrow> get_path h (set_path h cur ps v) ps = v"
proof (induction cur ps rule: walkable.induct)
  case (3 cur p q ps)
  then have s: "read_prop h cur p = own_prop cur p" by (simp add: read_own)
  have "isPlainObject (set_path h (or_object (own_prop cur p)) (q # ps) v)" using 3(2) by (intro set_path_object) simp
  then show ?case using 3 by (simp add: s read_own own_set)
qed (auto simp: read_own own_set)

definition unrelated :: "string list \<Rightarrow> string list \<Rightarrow> bool" where
  "unrelated ps qs \<longleftrightarrow> (\<forall>rs. qs \<noteq> ps @ rs \<and> ps \<noteq> qs @ rs)"

lemma unrelated_Nil [simp]: "\<not> unrelated [] qs" "\<not> unrelated qs []"
  by (auto simp: unrelated_def)

lemma unrelated_Cons [simp]: "unrelated (p # ps) (q # qs) \<longleftrightarrow> p \<noteq> q \<or> unrelated ps qs"
  by (auto simp: unrelated_def)

lemma get_set_other:
  "walkable cur ps \<Longrightarrow> walkable cur qs \<Longrightarrow> unrelated ps qs \<Longrightarrow>
     get_path h (set_path h cur ps v) qs = get_path h cur qs \<and> walkable (set_path h cur ps v) qs"
proof (induction cur ps arbitrary: qs rule: walkable.induct)
  case (2 cur k)
  then show ?case by (cases qs rule: remdups_adj.cases) (auto simp: read_own own_set)
next
  case (3 cur p q ps)
  have s: "read_prop h cur p = own_prop cur p" using 3(2) by (simp add: read_own)
  let ?sub = "set_path h (or_object (own_prop cur p)) (q # ps) v"
  have sub: "isPlainObject ?sub" using 3(2) by (intro set_path_object) simp
  show ?case
  proof (cases qs rule: remdups_adj.cases)
    case (3 p' q' qs')
    note qs = this
    show ?thesis
    proof (cases "p = p'")
      case True
      have "get_path h ?sub (q' # qs') = get_path h (or_object (own_prop cur p)) (q' # qs') \<and> walkable ?sub (q' # qs')"
        using "3.IH" [of "q' # qs'"] "3.prems" qs True by auto
      then show ?thesis using "3.prems" qs True sub by (simp add: s read_own own_set)
    next
      case False
      then show ?thesis using "3.prems" qs by (simp add: s read_own own_set)
    qed
  qed (use 3 s sub in \<open>auto simp: read_own own_set\<close>)
qed simp

lemma clone_object [simp]: "isPlainObject (wclone v) \<longleftrightarrow> isPlainObject v" "truthy (wclone v) \<longleftrightarrow> truthy v"
  by (cases v; simp)+

lemma own_clone: "plain_part p \<Longrightarrow> isPlainObject cur \<Longrightarrow> proper cur \<Longrightarrow> own_prop (wclone cur) p = wclone (own_prop cur p)"
proof -
  assume a: "plain_part p" "isPlainObject cur" "proper cur"
  then obtain kvs where "cur = Obj kvs" by (cases cur) auto
  then show ?thesis using a read_clone [of p kvs] read_own [of p cur] read_own [of p "wclone cur"] by (metis clone_object(1))
qed

lemma or_object_clone: "or_object (wclone v) = wclone (or_object v)"
  by (simp add: or_object_def)

lemma proper_own: "proper cur \<Longrightarrow> isPlainObject cur \<Longrightarrow> proper (or_object (own_prop cur p))"
  by (cases cur) (auto simp: or_object_def dest: proper_assoc split: option.splits simp del: proper.simps(1), simp_all)

lemma get_clone: "walkable cur ps \<Longrightarrow> proper cur \<Longrightarrow>
    get_path h (wclone cur) ps = wclone (get_path h cur ps) \<and> walkable (wclone cur) ps"
proof (induction cur ps rule: walkable.induct)
  case (3 cur p q ps)
  then have "own_prop (wclone cur) p = wclone (own_prop cur p)" by (simp add: own_clone)
  moreover have "proper (or_object (own_prop cur p))" using 3(2,3) by (simp add: proper_own)
  ultimately show ?case using 3 by (simp add: read_own or_object_clone del: wclone.simps)
qed (auto simp: read_own own_clone simp del: wclone.simps)

lemma proper_set: "proper cur \<Longrightarrow> proper v \<Longrightarrow> k \<noteq> ''__proto__'' \<Longrightarrow> proper (setprop cur k v)"
proof (cases cur)
  case (Obj kvs)
  assume a: "proper cur" "proper v" "k \<noteq> ''__proto__''"
  have "fst kv \<noteq> ''__proto__'' \<and> proper (snd kv)" if "kv \<in> set (assoc_set k v kvs)" for kv
  proof -
    have "kv = (k, v) \<or> kv \<in> set kvs" using that set_assoc_set [of k v kvs] by blast
    then show ?thesis using a Obj by auto
  qed
  then show ?thesis using Obj a by (simp add: distinct_assoc_set)
qed auto

lemma proper_set_path: "walkable cur ps \<Longrightarrow> proper cur \<Longrightarrow> proper v \<Longrightarrow> proper (set_path h cur ps v)"
proof (induction cur ps rule: walkable.induct)
  case (3 cur p q ps)
  then have "proper (set_path h (or_object (own_prop cur p)) (q # ps) v)" by (simp add: proper_own)
  then show ?case using 3(2,3) by (simp add: read_own proper_set plain_part_def)
qed (auto simp: proper_set plain_part_def)

lemma proper_clone: "proper v \<Longrightarrow> proper (wclone v)"
proof (induction v rule: wclone.induct)
  case (1 kvs)
  have "fst \<circ> (\<lambda>(k, v). (k, wclone v)) = (fst :: string \<times> jsval \<Rightarrow> string)" by auto
  then have "distinct (map fst (map (\<lambda>(k, v). (k, wclone v)) (filter (\<lambda>(k, v). v \<noteq> Undefined \<and> k \<noteq> ''__proto__'') kvs)))"
    using 1(2) by (simp add: distinct_map_filter)
  then show ?case using 1 by (auto split: prod.splits)
qed simp_all

text \<open>
  Keys that can be set: no part is a name every object inherits, and the values on the way are
  objects or missing.
\<close>

abbreviation key_parts :: "string \<Rightarrow> string list" where
  "key_parts key \<equiv> split_on (CHR ''.'') key"

definition settable :: "host \<Rightarrow> string \<Rightarrow> opts \<Rightarrow> bool" where
  "settable h key os \<longleftrightarrow>
     (let k = hd (key_parts key); ps = tl (key_parts key); v = own_prop (Obj os) k
      in plain_part k \<and> (ps \<noteq> [] \<longrightarrow> (isPlainObject v \<or> \<not> truthy v) \<and> walkable (wclone (or_object v)) ps))"

lemma copy_option_clone:
  assumes "proper (Obj os)" "plain_part k" "isPlainObject (own_prop (Obj os) k) \<or> \<not> truthy (own_prop (Obj os) k)"
  shows "copy_option h os k = wclone (or_object (own_prop (Obj os) k))"
proof -
  have r: "read_prop h (Obj os) k = own_prop (Obj os) k" using assms(2) by (simp add: read_own)
  have p: "proper (or_object (own_prop (Obj os) k))" using assms(1) by (simp add: proper_own del: own_prop.simps)
  show ?thesis
  proof (cases "own_prop (Obj os) k")
    case (Obj kvs)
    then have "wext [] kvs = clone_items kvs" using p by (intro wext_clone) (simp add: or_object_def)
    then show ?thesis using Obj unfolding copy_option_def widget_extend_def r by (simp add: or_object_def)
  qed (use assms(3) in \<open>simp_all add: copy_option_def widget_extend_def r or_object_def del: own_prop.simps\<close>)
qed

lemma options_kept [simp]: "w_options (toggle_with th add els ks es w) = w_options w"
proof -
  have "w_options (fold (track add els) cs w') = w_options w'" for cs w'
    by (induction cs arbitrary: w') (simp_all add: track_def)
  then show ?thesis by (simp add: toggle_with_def apply_classes_def Let_def)
qed

lemma options_setClasses [simp]: "w_options (setOptionClasses h new w) = w_options w"
proof -
  have "w_options (fold (set_class_key h new) kvs w') = w_options w'" for kvs w'
    by (induction kvs arbitrary: w') (auto simp: set_class_key_def widget_toggleClass_def Let_def)
  then show ?thesis by (simp add: setOptionClasses_def)
qed

lemma options_of_setOption: "w_options (setOption h (k, v) w) = assoc_set k v (w_options w)"
  by (simp add: setOption_def setOptionDisabled_def widget_toggleClass_def Let_def)

lemma clone_idem: "wclone (wclone y) = wclone y"
proof (induction y rule: wclone.induct)
  case (1 kvs)
  have "wclone v = Undefined \<longleftrightarrow> v = Undefined" for v by (cases v) auto
  then show ?case using 1 by (auto simp: filter_map o_def split: prod.splits intro!: map_cong filter_cong)
qed simp_all

lemma option_set_options:
  assumes "key_parts key = k # ps"
  shows "w_options (option_set h key v w) =
     assoc_set k (if ps = [] then v else set_path h (copy_option h (w_options w) k) ps v) (w_options w)"
  using assms by (simp add: option_set_def setOptions_def option_entry_def options_of_setOption)

text \<open>The options after a call, read along a nested key.\<close>

lemma nested_after_set:
  assumes "proper (Obj os)" "proper v" "plain_part k" "isPlainObject x \<or> \<not> truthy x" "x = own_prop (Obj os) k"
    and "walkable (wclone (or_object x)) ps" "os' = assoc_set k (set_path h (copy_option h os k) ps v) os"
  shows "copy_option h os' k = wclone (set_path h (wclone (or_object x)) ps v)"
    and "walkable (wclone (or_object x)) qs \<Longrightarrow> unrelated ps qs \<Longrightarrow> get_path h (copy_option h os' k) qs = get_path h (copy_option h os k) qs"
proof -
  let ?c = "wclone (or_object x)"
  have c: "copy_option h os k = ?c" using assms(1,3,4) unfolding assms(5) by (rule copy_option_clone)
  have pc: "proper ?c" using assms(1,5) proper_clone proper_own [of "Obj os" k] by (simp del: own_prop.simps)
  have obj: "isPlainObject (set_path h ?c ps v)" using assms(6) by (rule set_path_object)
  have ps: "proper (set_path h ?c ps v)" using assms(2,6) pc by (intro proper_set_path)
  have k: "k \<noteq> ''__proto__''" using assms(3) by (simp add: plain_part_def)
  have "proper (setprop (Obj os) k (set_path h ?c ps v))" using assms(1) ps k by (rule proper_set)
  then have "proper (Obj os')" unfolding assms(7) c by (simp del: proper.simps)
  moreover have own: "own_prop (Obj os') k = set_path h ?c ps v" unfolding assms(7) c by simp
  ultimately show new: "copy_option h os' k = wclone (set_path h ?c ps v)"
    using copy_option_clone [of os' k h] assms(3) obj by (simp del: own_prop.simps proper.simps)
  assume q: "walkable ?c qs" "unrelated ps qs"
  have w: "get_path h (set_path h ?c ps v) qs = get_path h ?c qs" "walkable (set_path h ?c ps v) qs"
    using get_set_other [OF assms(6) q] by simp_all
  show "get_path h (copy_option h os' k) qs = get_path h (copy_option h os k) qs"
    unfolding new c using get_clone [OF w(2) ps, of h] w(1) get_clone [OF q(1) pc, of h] by (simp add: clone_idem)
qed


text \<open>
  Options read back: after \<open>option( key, value )\<close>, with a simple or a nested key, \<open>option( key )\<close> gives
  the value (\<open>null\<close> for \<open>undefined\<close>; from a nested key a copy without undefined properties), and every
  key that names neither a part nor a container of the value set reads as before.
\<close>

theorem option_roundtrip:
  assumes "proper (Obj (w_options w))" "proper v" "settable h key (w_options w)" "w' = option_set h key v w"
  shows "option_get h key (w_options w') = undefined_null (if CHR ''.'' \<in> set key then wclone v else v)
    \<and> (settable h key' (w_options w) \<longrightarrow> unrelated (key_parts key) (key_parts key') \<longrightarrow>
        option_get h key' (w_options w') = option_get h key' (w_options w))"
proof -
  obtain k ps where p: "key_parts key = k # ps" using split_on_nonempty by (metis list.exhaust)
  obtain k' ps' where p': "key_parts key' = k' # ps'" using split_on_nonempty by (metis list.exhaust)
  have dot: "CHR ''.'' \<in> set key \<longleftrightarrow> ps \<noteq> []"
    using p split_on_plain [of "CHR ''.''" key] join_split_on [of "CHR ''.''" key] split_on_parts [of k "CHR ''.''" key] by auto
  let ?os = "w_options w" and ?x = "own_prop (Obj (w_options w)) k"
  have k: "plain_part k" using assms(3) by (simp add: settable_def p Let_def)
  have os': "w_options w' = assoc_set k (if ps = [] then v else set_path h (copy_option h ?os k) ps v) ?os"
    unfolding assms(4) by (rule option_set_options [OF p])
  have nested: "isPlainObject ?x \<or> \<not> truthy ?x" "walkable (wclone (or_object ?x)) ps" if "ps \<noteq> []"
    using assms(3) that by (simp_all add: settable_def p Let_def)
  have "option_get h key (w_options w') = undefined_null (if ps \<noteq> [] then wclone v else v)"
  proof (cases "ps = []")
    case True
    then show ?thesis by (simp add: option_get_def p os' read_plain k)
  next
    case False
    let ?s = "set_path h (wclone (or_object ?x)) ps v"
    have w: "walkable ?s ps" using nested(2) [OF False] by (rule walkable_set_path)
    have "proper (wclone (or_object ?x))" using assms(1) by (intro proper_clone proper_own) simp_all
    then have s: "proper ?s" using nested(2) [OF False] assms(2) by (intro proper_set_path)
    have "copy_option h (w_options w') k = wclone ?s"
      using nested_after_set(1) [OF assms(1,2) k nested(1) refl nested(2)] os' False by simp
    then show ?thesis
      using get_clone [OF w s, of h] get_set_path [OF nested(2) [OF False], of h v] False by (simp add: option_get_def p)
  qed
  moreover have "option_get h key' (w_options w') = option_get h key' ?os"
    if q: "settable h key' ?os" "unrelated (k # ps) (k' # ps')"
  proof (cases "k = k'")
    case False
    moreover have "plain_part k'" using q(1) by (simp add: settable_def p' Let_def)
    ultimately show ?thesis by (simp add: option_get_def p' os' copy_option_def read_plain)
  next
    case True
    then have u: "unrelated ps ps'" "ps \<noteq> []" "ps' \<noteq> []" using q(2) by auto
    then have "walkable (wclone (or_object ?x)) ps'" using q(1) True by (simp add: settable_def p' Let_def)
    from nested_after_set(2) [OF assms(1,2) k nested(1) [OF u(2)] refl nested(2) [OF u(2)] refl this u(1), of h]
    show ?thesis using u True by (simp add: option_get_def p' os')
  qed
  ultimately show ?thesis by (simp add: dot p p')
qed

section \<open>Properties of classes\<close>

lemma set_add_names: "set (fold add_name cs ns) = set ns \<union> set cs"
  by (induction cs arbitrary: ns) (auto simp: add_name_def)

lemma set_remove_names: "set (fold remove_name cs ns) = set ns - set cs"
  by (induction cs arbitrary: ns) (auto simp: remove_name_def)

lemma track_fields [simp]:
  "class_names (track add els c w) = class_names w" "w_options (track add els c w) = w_options w"
  "set (tracked k (track add els c w)) =
     (if k = c then (if add then set (tracked c w) \<union> set els else set (tracked c w) - set els) else set (tracked k w))"
  by (auto simp: track_def tracked_def)

lemma fold_track:
  "class_names (fold (track add els) cs w) = class_names w"
  "set (tracked k (fold (track add els) cs w)) =
     (if k \<in> set cs then (if add then set (tracked k w) \<union> set els else set (tracked k w) - set els) else set (tracked k w))"
  by (induction cs arbitrary: w) auto

lemma toggle_tracked:
  "set (tracked k (toggle_with th add els keys extra w)) =
     (if k \<in> set (match_words keys) \<union> set (match_words extra)
      then (if add then set (tracked k w) \<union> set els else set (tracked k w) - set els) else set (tracked k w))"
proof -
  have "tracked k (apply_classes add els cs w') = tracked k w'" for cs w' by (simp add: tracked_def apply_classes_def)
  then show ?thesis by (simp add: toggle_with_def Let_def fold_track)
qed

lemma toggle_names:
  "set (class_names (toggle_with th add els keys extra w) e) =
     (let cs = set (full_classes th (match_words keys) (match_words extra))
      in if e \<in> set els then (if add then set (class_names w e) \<union> cs else set (class_names w e) - cs) else set (class_names w e))"
  by (simp add: toggle_with_def Let_def apply_classes_def fold_track set_add_names set_remove_names)

lemma toggle_cong: "(\<forall>k \<in> set (match_words keys). th k = th' k) \<Longrightarrow> toggle_with th add els keys extra w = toggle_with th' add els keys extra w"
  by (auto simp: toggle_with_def full_classes_def Let_def cong: map_cong)

text \<open>
  Every class of an element is its own, or the widget knows that it put it there: the element is
  tracked under a key that is the class or has it as theme. Keys are single words, each once.
\<close>

definition accounted :: "(nat \<Rightarrow> string list) \<Rightarrow> (string \<Rightarrow> string list) \<Rightarrow> widget \<Rightarrow> bool" where
  "accounted own th w \<longleftrightarrow>
     (\<forall>e. \<forall>n \<in> set (class_names w e). n \<in> set (own e) \<or> (\<exists>k. e \<in> set (tracked k w) \<and> (n = k \<or> n \<in> set (th k))))
     \<and> (\<forall>k. tracked k w \<noteq> [] \<longrightarrow> match_words k = [k]) \<and> distinct (map fst (elementLookup w))"

lemma toggle_keys:
  assumes "accounted own th w"
  shows "\<forall>k. tracked k (toggle_with th' add els keys extra w) \<noteq> [] \<longrightarrow> match_words k = [k]"
    and "distinct (map fst (elementLookup (toggle_with th' add els keys extra w)))"
proof -
  have "match_words k = [k]" if "k \<in> set (match_words s)" for k s
    using that match_words_words match_words_word by blast
  moreover have "tracked k w \<noteq> [] \<Longrightarrow> match_words k = [k]" for k using assms by (simp add: accounted_def)
  ultimately show "\<forall>k. tracked k (toggle_with th' add els keys extra w) \<noteq> [] \<longrightarrow> match_words k = [k]"
    using toggle_tracked [of _ th' add els keys extra w] by (metis UnE set_empty)
  have "distinct (map fst (elementLookup w')) \<Longrightarrow> distinct (map fst (elementLookup (fold (track add els) cs w')))" for cs w'
    by (induction cs arbitrary: w') (simp_all add: track_def distinct_assoc_set)
  then show "distinct (map fst (elementLookup (toggle_with th' add els keys extra w)))"
    using assms by (simp add: accounted_def toggle_with_def apply_classes_def Let_def)
qed

lemma accounted_add:
  assumes "accounted own th w"
  shows "accounted own th (toggle_with th True els keys extra w)"
proof -
  have "n \<in> set (own e) \<or> (\<exists>k. e \<in> set (tracked k (toggle_with th True els keys extra w)) \<and> (n = k \<or> n \<in> set (th k)))"
    if "n \<in> set (class_names (toggle_with th True els keys extra w) e)" for e n
  proof (cases "n \<in> set (class_names w e)")
    case True
    then have "n \<in> set (own e) \<or> (\<exists>k. e \<in> set (tracked k w) \<and> (n = k \<or> n \<in> set (th k)))" using assms by (simp add: accounted_def)
    then show ?thesis unfolding toggle_tracked by auto
  next
    case False
    then have "e \<in> set els" "n \<in> set (full_classes th (match_words keys) (match_words extra))"
      using that by (auto simp: toggle_names Let_def split: if_splits)
    then show ?thesis unfolding toggle_tracked by (auto simp: full_classes_def)
  qed
  then show ?thesis using toggle_keys [OF assms] by (simp add: accounted_def)
qed

lemma accounted_remove:
  assumes "accounted own th w" "\<forall>c \<in> set (match_words extra). th c = []"
  shows "accounted own th (toggle_with th False els keys extra w)"
proof -
  have "n \<in> set (own e) \<or> (\<exists>k. e \<in> set (tracked k (toggle_with th False els keys extra w)) \<and> (n = k \<or> n \<in> set (th k)))"
    if n: "n \<in> set (class_names (toggle_with th False els keys extra w) e)" for e n
  proof (rule disjCI)
    assume "\<nexists>k. e \<in> set (tracked k (toggle_with th False els keys extra w)) \<and> (n = k \<or> n \<in> set (th k))"
    moreover have "n \<in> set (class_names w e)" "e \<in> set els \<Longrightarrow> n \<notin> set (full_classes th (match_words keys) (match_words extra))"
      using n by (auto simp: toggle_names Let_def split: if_splits)
    moreover have "k \<notin> set (match_words keys) \<union> set (match_words extra)" if "e \<in> set els" "n = k \<or> n \<in> set (th k)" for k
      using that assms(2) calculation(3) by (auto simp: full_classes_def)
    ultimately show "n \<in> set (own e)" using assms(1) unfolding accounted_def toggle_tracked by (metis DiffI)
  qed
  then show ?thesis using toggle_keys [OF assms(1)] by (simp add: accounted_def)
qed

text \<open>The theme of a key nothing is tracked under does not matter.\<close>

lemma accounted_theme: "accounted own th w \<Longrightarrow> \<forall>k. tracked k w \<noteq> [] \<longrightarrow> set (th k) \<subseteq> set (th' k) \<Longrightarrow> accounted own th' w"
  unfolding accounted_def by (metis empty_iff empty_set subsetD)

lemma current_theme_options: "w_options w = w_options w' \<Longrightarrow> current_theme h w = current_theme h w'"
  by (simp add: current_theme_def)

lemma class_key_fields:
  "w_options (set_class_key h new cv w) = w_options w"
  "k \<noteq> fst cv \<Longrightarrow> accounted own th w \<Longrightarrow> set (tracked k (set_class_key h new cv w)) = set (tracked k w)"
proof -
  obtain c v where cv: "cv = (c, v)" by (cases cv)
  show "w_options (set_class_key h new cv w) = w_options w" by (simp add: set_class_key_def cv widget_toggleClass_def Let_def)
  assume a: "k \<noteq> fst cv" "accounted own th w"
  have "match_words c = [c]" if "tracked c w \<noteq> []" using a(2) that by (simp add: accounted_def)
  then show "set (tracked k (set_class_key h new cv w)) = set (tracked k w)"
    using a(1) by (auto simp: set_class_key_def cv Let_def toggle_tracked widget_toggleClass_def)
qed

lemma accounted_key:
  assumes "accounted own th w" "th c = current_theme h w c" "v = read_prop h (or_object new) c"
  shows "accounted own (th(c := theme h new c)) (set_class_key h new (c, v) w)"
proof -
  let ?old = "read_prop h (or_object (read_prop h (Obj (w_options w)) ''classes'')) c" and ?els = "tracked c w"
  show ?thesis
  proof (cases "v = ?old \<or> ?els = []")
    case True
    then have "set_class_key h new (c, v) w = w" by (simp add: set_class_key_def Let_def)
    moreover have "v = ?old \<Longrightarrow> theme h new c = th c" using assms(2,3) by (simp add: theme_def current_theme_def)
    ultimately show ?thesis using True assms(1) by (auto intro!: accounted_theme [OF assms(1)])
  next
    case False
    then have c: "match_words c = [c]" using assms(1) by (simp add: accounted_def)
    define w1 where "w1 = toggle_with th False ?els c [] w"
    have r: "widget_toggleClass h ?els c [] False w = w1"
      unfolding w1_def widget_toggleClass_def using assms(2) c by (intro toggle_cong) simp
    have a1: "accounted own th w1" unfolding w1_def using assms(1) by (intro accounted_remove) simp_all
    have "set (tracked c w1) = {}" by (simp add: w1_def toggle_tracked c)
    then have "accounted own (th(c := theme h new c)) w1" by (intro accounted_theme [OF a1]) auto
    then have "accounted own (th(c := theme h new c)) (toggle_with (th(c := theme h new c)) True ?els c [] w1)" by (rule accounted_add)
    moreover have "toggle_with (th(c := theme h new c)) True ?els c [] w1 = toggle_with (theme h new) True ?els c [] w1"
      using c by (intro toggle_cong) simp
    ultimately show ?thesis using False r by (simp add: set_class_key_def Let_def)
  qed
qed

lemma accounted_classes:
  assumes "accounted own th w" "\<forall>c \<in> fst ` set kvs. th c = current_theme h w c"
    and "distinct (map fst kvs)" "\<forall>(c, v) \<in> set kvs. v = read_prop h (or_object new) c"
  shows "accounted own (\<lambda>k. if k \<in> fst ` set kvs then theme h new k else th k) (fold (set_class_key h new) kvs w)
    \<and> (\<forall>k. k \<notin> fst ` set kvs \<longrightarrow> set (tracked k (fold (set_class_key h new) kvs w)) = set (tracked k w))"
  using assms
proof (induction kvs arbitrary: th w)
  case (Cons cv kvs)
  obtain c v where cv: "cv = (c, v)" by (cases cv)
  let ?th = "th(c := theme h new c)" and ?w = "set_class_key h new cv w"
  have a: "accounted own ?th ?w" using Cons.prems by (auto simp: cv intro!: accounted_key)
  have "current_theme h ?w = current_theme h w" by (rule current_theme_options) (rule class_key_fields)
  then have b: "\<forall>k \<in> fst ` set kvs. ?th k = current_theme h ?w k" using Cons.prems(2,3) by (auto simp: cv)
  have "accounted own (\<lambda>k. if k \<in> fst ` set kvs then theme h new k else ?th k) (fold (set_class_key h new) kvs ?w)
      \<and> (\<forall>k. k \<notin> fst ` set kvs \<longrightarrow> set (tracked k (fold (set_class_key h new) kvs ?w)) = set (tracked k ?w))"
    using Cons.prems(3,4) by (intro Cons.IH [OF a b]) simp_all
  moreover have "(\<lambda>k. if k \<in> fst ` set kvs then theme h new k else ?th k) =
      (\<lambda>k. if k \<in> fst ` set (cv # kvs) then theme h new k else th k)"
    by (auto simp: cv)
  ultimately show ?case using class_key_fields(2) [OF _ Cons.prems(1), of _ cv h new] by simp
qed simp

lemma destroy_clears:
  assumes "accounted own th w" "distinct (map fst kvs)" "\<forall>(c, es) \<in> set kvs. es \<noteq> [] \<longrightarrow> match_words c = [c]"
    and "\<forall>k. \<forall>e \<in> set (tracked k w). \<exists>es. (k, es) \<in> set kvs \<and> e \<in> set es" "th = current_theme h w"
    and "w' = fold (\<lambda>(c, es). widget_toggleClass h es c [] False) kvs w"
  shows "accounted own th w' \<and> (\<forall>k. tracked k w' = [])"
  using assms
proof (induction kvs arbitrary: w)
  case Nil
  then have "set (tracked k w) = {}" for k by auto
  then show ?case using Nil by simp
next
  case (Cons cv kvs)
  obtain c es where cv: "cv = (c, es)" by (cases cv)
  let ?w = "toggle_with th False es c [] w"
  have a: "accounted own th ?w" using Cons.prems(1) by (intro accounted_remove) simp_all
  have th: "th = current_theme h ?w" using Cons.prems(5) current_theme_options [of ?w w h] by simp
  have t: "\<forall>e \<in> set (tracked k ?w). \<exists>es. (k, es) \<in> set kvs \<and> e \<in> set es" for k
  proof (cases "k = c")
    case True
    then have "set (tracked c w) \<subseteq> set es" using Cons.prems(2,4) by (force simp: cv)
    then have "set (tracked c ?w) = {}" using Cons.prems(3) by (cases "es = []") (auto simp: toggle_tracked cv)
    then show ?thesis using True by simp
  next
    case False
    have "set (tracked k ?w) \<subseteq> set (tracked k w)" by (auto simp: toggle_tracked)
    then show ?thesis using Cons.prems(4) False by (auto simp: cv) (metis subsetD)
  qed
  have "widget_toggleClass h es c [] False w = ?w" using Cons.prems(5) by (simp add: widget_toggleClass_def)
  then have w': "w' = fold (\<lambda>(c, es). widget_toggleClass h es c [] False) kvs ?w" using Cons.prems(6) by (simp add: cv)
  have "distinct (map fst kvs)" "\<forall>(c, es) \<in> set kvs. es \<noteq> [] \<longrightarrow> match_words c = [c]" using Cons.prems(2,3) by simp_all
  from Cons.IH [OF a this _ th w'] t show ?case by blast
qed

text \<open>
  What a widget does with classes, and the discipline under which it can clean up: a class it removes
  as an extra has no theme, and a new value of \<open>classes\<close> has an entry for every key in use that has a theme.
\<close>

datatype class_action = AddClasses "nat list" string string | RemoveClasses "nat list" string string | SetOption string jsval

fun class_act :: "host \<Rightarrow> class_action \<Rightarrow> widget \<Rightarrow> widget" where
  "class_act h (AddClasses els keys extra) w = widget_toggleClass h els keys extra True w"
| "class_act h (RemoveClasses els keys extra) w = widget_toggleClass h els keys extra False w"
| "class_act h (SetOption k v) w = setOptions h [(k, v)] w"

fun tidy :: "host \<Rightarrow> class_action \<Rightarrow> widget \<Rightarrow> bool" where
  "tidy h (AddClasses els keys extra) w \<longleftrightarrow> True"
| "tidy h (RemoveClasses els keys extra) w \<longleftrightarrow> list_all (\<lambda>c. current_theme h w c = []) (match_words extra)"
| "tidy h (SetOption k v) w \<longleftrightarrow>
     (k = ''disabled'' \<longrightarrow> current_theme h w ''ui-state-hover'' = [] \<and> current_theme h w ''ui-state-focus'' = [])
     \<and> (k = ''classes'' \<longrightarrow> isPlainObject v \<and> distinct (map fst (own_items v))
         \<and> list_all (\<lambda>(c, es). es \<noteq> [] \<longrightarrow> current_theme h w c \<noteq> [] \<longrightarrow> c \<in> set (map fst (own_items v))) (elementLookup w))"

fun class_run :: "host \<Rightarrow> class_action list \<Rightarrow> widget \<Rightarrow> widget" where
  "class_run h [] w = w"
| "class_run h (a # as) w = class_run h as (class_act h a w)"

fun tidy_run :: "host \<Rightarrow> class_action list \<Rightarrow> widget \<Rightarrow> bool" where
  "tidy_run h [] w \<longleftrightarrow> True"
| "tidy_run h (a # as) w \<longleftrightarrow> tidy h a w \<and> tidy_run h as (class_act h a w)"

lemma tracked_in_lookup: "tracked k w \<noteq> [] \<Longrightarrow> (k, tracked k w) \<in> set (elementLookup w)"
  by (auto simp: tracked_def assoc_map_of dest: map_of_SomeD split: option.splits)

lemma accounted_options: "accounted own th (w\<lparr>w_options := os\<rparr>) = accounted own th w"
  by (simp add: accounted_def tracked_def)

lemma theme_elsewhere: "k \<noteq> ''classes'' \<Longrightarrow> current_theme h (w\<lparr>w_options := assoc_set k v (w_options w)\<rparr>) = current_theme h w"
  by (simp add: current_theme_def read_prop_def)

lemma accounted_setOptionClasses:
  assumes "accounted own (current_theme h w) w" "tidy h (SetOption ''classes'' v) w"
  shows "accounted own (theme h v) (setOptionClasses h v w)"
proof -
  let ?th = "current_theme h w"
  obtain kvs where v: "v = Obj kvs" using assms(2) by (cases v) auto
  then have d: "distinct (map fst kvs)" using assms(2) by simp
  then have "\<forall>(c, x) \<in> set kvs. x = read_prop h (or_object v) c"
    by (auto simp: v or_object_def read_prop_def assoc_map_of)
  then have new: "accounted own (\<lambda>k. if k \<in> fst ` set kvs then theme h v k else ?th k) (setOptionClasses h v w)"
      "\<And>k. k \<notin> fst ` set kvs \<Longrightarrow> set (tracked k (setOptionClasses h v w)) = set (tracked k w)"
    using accounted_classes [OF assms(1) _ d, of h v] by (simp_all add: v setOptionClasses_def)
  have "?th k = []" if "tracked k (setOptionClasses h v w) \<noteq> []" "k \<notin> fst ` set kvs" for k
  proof -
    have "tracked k w \<noteq> []" using new(2) [OF that(2)] that(1) by auto
    then show ?thesis using tracked_in_lookup [of k w] assms(2) that(2) by (auto simp: v list_all_iff)
  qed
  then show ?thesis by (intro accounted_theme [OF new(1)]) auto
qed

lemma accounted_toggle:
  assumes "accounted own (current_theme h w) w" "add \<or> list_all (\<lambda>c. current_theme h w c = []) (match_words extra)"
    and "w' = widget_toggleClass h els keys extra add w"
  shows "accounted own (current_theme h w) w' \<and> current_theme h w' = current_theme h w"
proof -
  have "current_theme h w' = current_theme h w" unfolding assms(3) widget_toggleClass_def by (intro current_theme_options) simp
  moreover have "accounted own (current_theme h w) w'"
    unfolding assms(3) widget_toggleClass_def using assms(1,2)
    by (cases add) (auto intro!: accounted_add accounted_remove simp: list_all_iff)
  ultimately show ?thesis by simp
qed

lemma accounted_disabled:
  assumes "accounted own (current_theme h w) w" "current_theme h w ''ui-state-hover'' = []" "current_theme h w ''ui-state-focus'' = []"
  shows "accounted own (current_theme h (setOptionDisabled h v w)) (setOptionDisabled h v w)"
proof -
  define w1 where "w1 = widget_toggleClass h (w_element w) (fullName w @ ''-disabled'') [] (truthy v) w"
  define w2 where "w2 = widget_toggleClass h (hoverable w) [] ''ui-state-hover'' False w1"
  have words: "match_words ''ui-state-hover'' = [''ui-state-hover'']" "match_words ''ui-state-focus'' = [''ui-state-focus'']" by code_simp+
  have 1: "accounted own (current_theme h w) w1 \<and> current_theme h w1 = current_theme h w"
    using assms(1) by (intro accounted_toggle [OF _ _ w1_def]) simp_all
  then have 2: "accounted own (current_theme h w) w2 \<and> current_theme h w2 = current_theme h w"
    using assms(2) accounted_toggle [OF _ _ w2_def, of own] by (simp add: words)
  have "accounted own (current_theme h (widget_toggleClass h (focusable w) [] ''ui-state-focus'' False w2))
      (widget_toggleClass h (focusable w) [] ''ui-state-focus'' False w2)"
    using 1 2 assms(3) accounted_toggle [OF _ _ refl, of own h w2 False "''ui-state-focus''"] by (simp add: words)
  moreover have "setOptionDisabled h v w = (if truthy v then widget_toggleClass h (focusable w) [] ''ui-state-focus'' False w2 else w1)"
    by (simp only: setOptionDisabled_def Let_def w1_def w2_def)
  ultimately show ?thesis using 1 by simp
qed

lemma accounted_act:
  assumes "accounted own (current_theme h w) w" "tidy h a w"
  shows "accounted own (current_theme h (class_act h a w)) (class_act h a w)"
proof (cases a)
  case (AddClasses els keys extra)
  then show ?thesis using accounted_toggle [OF assms(1) _ refl] by simp
next
  case (RemoveClasses els keys extra)
  then show ?thesis using accounted_toggle [OF assms(1) _ refl] assms(2) by simp
next
  case (SetOption k v)
  let ?w = "(if k = ''classes'' then setOptionClasses h v w else w)\<lparr>w_options := assoc_set k v (w_options w)\<rparr>"
  have w: "accounted own (current_theme h ?w) ?w"
  proof (cases "k = ''classes''")
    case True
    then have "current_theme h ?w = theme h v" by (simp add: current_theme_def read_prop_def)
    then show ?thesis using True accounted_setOptionClasses [OF assms(1)] assms(2) SetOption by (simp add: accounted_options)
  next
    case False
    then show ?thesis using assms(1) by (simp add: accounted_options theme_elsewhere)
  qed
  moreover have "class_act h a w = (if k = ''disabled'' then setOptionDisabled h v ?w else ?w)"
    by (simp add: SetOption setOptions_def setOption_def Let_def)
  moreover have "current_theme h ?w = current_theme h w" if "k = ''disabled''" using that by (simp add: theme_elsewhere)
  ultimately show ?thesis using accounted_disabled [OF w] assms(2) SetOption by auto
qed

lemma accounted_run: "accounted own (current_theme h w) w \<Longrightarrow> tidy_run h as w \<Longrightarrow>
    accounted own (current_theme h (class_run h as w)) (class_run h as w)"
  by (induction as arbitrary: w) (auto intro: accounted_act)

text \<open>
  C40. A widget cleans up after itself: whatever classes it put on elements, under keys with themes or
  as extras, and however the options changed meanwhile within the discipline, after \<open>destroy\<close> no element
  has a class that it did not have before the widget was created.
\<close>

theorem destroy_cleans_classes:
  assumes "elementLookup w = []" "tidy_run h as w"
  shows "set (class_names (widget_destroy h (class_run h as w)) e) \<subseteq> set (class_names w e)"
proof -
  let ?w = "class_run h as w"
  have "accounted (class_names w) (current_theme h w) w" using assms(1) by (simp add: accounted_def tracked_def)
  then have a: "accounted (class_names w) (current_theme h ?w) ?w" using assms(2) by (rule accounted_run)
  have own: "tracked c ?w = es" if "(c, es) \<in> set (elementLookup ?w)" for c es
    using a that by (simp add: accounted_def tracked_def assoc_map_of)
  have "accounted (class_names w) (current_theme h ?w) (widget_destroy h ?w) \<and> (\<forall>k. tracked k (widget_destroy h ?w) = [])"
  proof (rule destroy_clears [OF a])
    show "distinct (map fst (elementLookup ?w))" using a by (simp add: accounted_def)
    show "\<forall>(c, es) \<in> set (elementLookup ?w). es \<noteq> [] \<longrightarrow> match_words c = [c]" using a own by (auto simp: accounted_def)
    show "\<forall>k. \<forall>e \<in> set (tracked k ?w). \<exists>es. (k, es) \<in> set (elementLookup ?w) \<and> e \<in> set es"
      using tracked_in_lookup [of _ ?w] by (metis list.set_cases neq_Nil_conv)
  qed (simp_all add: widget_destroy_def)
  then show ?thesis by (auto simp: accounted_def)
qed

text \<open>A widget with a theme for its title, on a page where element 2 has a class of its own.\<close>

definition plain_host :: host where
  "plain_host = \<lparr>fn_call = (\<lambda>f v. Undefined), fn_str = (\<lambda>f. []), fn_prop = (\<lambda>f k. Undefined)\<rparr>"

definition sample_widget :: widget where
  "sample_widget =
     \<lparr>w_options = [(''classes'', Obj [(''ui-title'', Str ''red big'')]), (''position'', Obj [(''my'', Str ''left''), (''of'', Null)])],
      elementLookup = [], class_names = (\<lambda>e. if e = 2 then [''note''] else []), w_element = [1], fullName = ''ui-box'',
      hoverable = [], focusable = []\<rparr>"

theorem option_roundtrip_witness:
  "option_get plain_host ''position.at.x'' (w_options (option_set plain_host ''position.at.x'' (Num (Fin 5)) sample_widget)) = Num (Fin 5)
   \<and> option_get plain_host ''position.my'' (w_options (option_set plain_host ''position.at.x'' (Num (Fin 5)) sample_widget)) = Str ''left''"
proof -
  have "settable plain_host ''position.at.x'' (w_options sample_widget)" "settable plain_host ''position.my'' (w_options sample_widget)"
    by code_simp+
  moreover have "proper (Obj (w_options sample_widget))" by code_simp
  moreover have "unrelated (key_parts ''position.at.x'') (key_parts ''position.my'')" by (simp add: unrelated_def)
  moreover have "option_get plain_host ''position.my'' (w_options sample_widget) = Str ''left''" by code_simp
  ultimately show ?thesis
    using option_roundtrip [of sample_widget "Num (Fin 5)" plain_host "''position.at.x''" _ "''position.my''", OF _ _ _ refl]
    by (simp add: undefined_null_def)
qed

theorem destroy_cleans_classes_witness:
  "set (class_names (widget_destroy plain_host (class_run plain_host
      [AddClasses [1, 2] ''ui-title ui-corner'' ''ui-state-hover'', SetOption ''classes'' (Obj [(''ui-title'', Str ''blue'')]),
       SetOption ''disabled'' (Bool True)] sample_widget)) 2) \<subseteq> {''note''}"
proof -
  have "tidy_run plain_host [AddClasses [1, 2] ''ui-title ui-corner'' ''ui-state-hover'', SetOption ''classes'' (Obj [(''ui-title'', Str ''blue'')]),
       SetOption ''disabled'' (Bool True)] sample_widget" by code_simp
  from destroy_cleans_classes [OF _ this, of 2] show ?thesis by (simp add: sample_widget_def)
qed

text \<open>
  A new value of \<open>classes\<close> without an entry for a key in use leaves the old theme behind for good: the
  loop over the new value never sees the key, and \<open>destroy\<close> looks the theme up in the new value.
\<close>

theorem classes_leak:
  "class_names (widget_destroy plain_host (class_run plain_host
     [AddClasses [2] ''ui-title'' [], SetOption ''classes'' (Obj [])] sample_widget)) 2 = [''note'', ''red'', ''big'']"
  by code_simp

end
