(* ===== verification/UI_Menu.thy ===== *)
theory UI_Menu
  imports Mustache_Scanner UI_Number
begin

text \<open>
  The menu widget of jQuery UI, for a menu without submenus: the active item, navigation by keys and
  pages, the search by typed characters, and selection. Sets of items are lists of positions, as
  jQuery sets are; the tops of the items and the height of the menu, which the browser measures, are
  arguments.
\<close>

section \<open>State\<close>

record menu_item =
  mi_text :: string
  mi_entry :: bool        \<comment> \<open>has the class \<open>ui-menu-item\<close>; a divider has not\<close>
  mi_disabled :: bool

datatype menu_timer = NoTimer | CloseTimer | CollapseTimer

datatype menu_log = MFocus "nat list" | MBlur "nat list" | MSelect "nat list"

text \<open>\<open>None\<close> is no active item; \<open>Some []\<close> is the empty set that a focus in a menu without items leaves.\<close>

record menu =
  m_items :: "menu_item list"
  m_active :: "nat list option"
  m_timer :: menu_timer
  previousFilter :: string     \<comment> \<open>empty when it is deleted\<close>
  filterTimer :: bool
  m_log :: "menu_log list"

datatype menu_event = NoEvent | FocusEvent | KeyEvent | MouseEvent

datatype menu_key = KPageUp | KPageDown | KHome | KEnd | KUp | KDown | KLeft | KRight | KEnter | KSpace | KEscape | KChar char

section \<open>Items\<close>

text \<open>Hyphens and white space only; the longer dashes are outside of the characters modelled.\<close>

definition isDivider :: "string \<Rightarrow> bool" where
  "isDivider s \<longleftrightarrow> (\<forall>c \<in> set s. c = CHR ''-'' \<or> isWhitespace [c])"

definition refresh_items :: "menu_item list \<Rightarrow> menu_item list" where
  "refresh_items is = map (\<lambda>i. if isDivider (mi_text i) then i else i\<lparr>mi_entry := True\<rparr>) is"

definition entry :: "menu \<Rightarrow> nat \<Rightarrow> bool" where
  "entry m i \<longleftrightarrow> i < length (m_items m) \<and> mi_entry (m_items m ! i)"

definition nextAll :: "menu \<Rightarrow> nat list \<Rightarrow> nat list" where
  "nextAll m s = (case s of [] \<Rightarrow> [] | i # _ \<Rightarrow> filter (entry m) [Suc i..<length (m_items m)])"

definition prevAll :: "menu \<Rightarrow> nat list \<Rightarrow> nat list" where
  "prevAll m s = (case s of [] \<Rightarrow> [] | i # _ \<Rightarrow> filter (entry m) (rev [0..<i]))"

definition all_items :: "menu \<Rightarrow> nat list" where
  "all_items m = [0..<length (m_items m)]"

definition last_of :: "nat list \<Rightarrow> nat list" where
  "last_of s = (if s = [] then [] else [last s])"

section \<open>Focus\<close>

definition menu_blur :: "bool \<Rightarrow> menu \<Rightarrow> menu" where
  "menu_blur fromFocus m =
     (let m1 = (if fromFocus then m else m\<lparr>m_timer := NoTimer\<rparr>)
      in case m_active m1 of
           None \<Rightarrow> m1
         | Some a \<Rightarrow> m1\<lparr>m_active := None, m_log := m_log m1 @ [MBlur a]\<rparr>)"

definition menu_focus :: "menu_event \<Rightarrow> nat list \<Rightarrow> menu \<Rightarrow> menu" where
  "menu_focus ev s m =
     (let m1 = menu_blur (ev = FocusEvent) m
      in m1\<lparr>m_active := Some (take 1 s), m_timer := (if ev = KeyEvent then m_timer m1 else CloseTimer), m_log := m_log m1 @ [MFocus s]\<rparr>)"

definition isFirstItem :: "menu \<Rightarrow> bool" where
  "isFirstItem m = (case m_active m of None \<Rightarrow> False | Some a \<Rightarrow> prevAll m a = [])"

definition isLastItem :: "menu \<Rightarrow> bool" where
  "isLastItem m = (case m_active m of None \<Rightarrow> False | Some a \<Rightarrow> nextAll m a = [])"

text \<open>\<open>_move\<close>: the target from the active item, or the first or last of all children of the menu.\<close>

datatype direction = Next | Prev | First | Last

definition move_target :: "direction \<Rightarrow> menu \<Rightarrow> nat list" where
  "move_target d m =
     (case m_active m of
        None \<Rightarrow> []
      | Some a \<Rightarrow> (case d of Next \<Rightarrow> take 1 (nextAll m a) | Prev \<Rightarrow> take 1 (prevAll m a)
                    | First \<Rightarrow> last_of (prevAll m a) | Last \<Rightarrow> last_of (nextAll m a)))"

definition move_default :: "direction \<Rightarrow> menu \<Rightarrow> nat list" where
  "move_default d m = (if d = Next \<or> d = First then take 1 (all_items m) else last_of (all_items m))"

definition menu_move :: "direction \<Rightarrow> menu_event \<Rightarrow> menu \<Rightarrow> menu" where
  "menu_move d ev m = menu_focus ev (let s = move_target d m in if s = [] then move_default d m else s) m"

definition menu_next :: "menu_event \<Rightarrow> menu \<Rightarrow> menu" where
  "menu_next = menu_move Next"

definition menu_previous :: "menu_event \<Rightarrow> menu \<Rightarrow> menu" where
  "menu_previous = menu_move Prev"

text \<open>The last item visited by a loop that stops after the first one for which the test fails.\<close>

fun each_until :: "(nat \<Rightarrow> bool) \<Rightarrow> nat list \<Rightarrow> nat list" where
  "each_until p [] = []"
| "each_until p [i] = [i]"
| "each_until p (i # j # is) = (if p i then each_until p (j # is) else [i])"

definition nextPage :: "bool \<Rightarrow> (nat \<Rightarrow> rat) \<Rightarrow> rat \<Rightarrow> menu_event \<Rightarrow> menu \<Rightarrow> menu" where
  "nextPage hasScroll tops height ev m =
     (case m_active m of
        None \<Rightarrow> menu_next ev m
      | Some a \<Rightarrow>
          (if isLastItem m then m
           else if hasScroll then menu_focus ev (each_until (\<lambda>i. tops i - tops (hd a) - height < 0) (nextAll m a)) m
           else menu_focus ev (last_of (all_items m)) m))"

definition previousPage :: "bool \<Rightarrow> (nat \<Rightarrow> rat) \<Rightarrow> rat \<Rightarrow> menu_event \<Rightarrow> menu \<Rightarrow> menu" where
  "previousPage hasScroll tops height ev m =
     (case m_active m of
        None \<Rightarrow> menu_next ev m
      | Some a \<Rightarrow>
          (if isFirstItem m then m
           else if hasScroll then menu_focus ev (each_until (\<lambda>i. tops i - tops (hd a) + height > 0) (prevAll m a)) m
           else menu_focus ev (take 1 (all_items m)) m))"

section \<open>Selection and typed characters\<close>

definition collapseAll :: "menu \<Rightarrow> menu" where
  "collapseAll m = m\<lparr>m_timer := CollapseTimer\<rparr>"

definition menu_select :: "nat list \<Rightarrow> menu \<Rightarrow> menu" where
  "menu_select clicked m =
     (let a = (case m_active m of Some a \<Rightarrow> a | None \<Rightarrow> clicked)
      in (collapseAll m)\<lparr>m_active := Some a, m_log := m_log m @ [MSelect a]\<rparr>)"

definition active_disabled :: "nat list \<Rightarrow> menu \<Rightarrow> bool" where
  "active_disabled a m \<longleftrightarrow> (\<exists>i \<in> set a. i < length (m_items m) \<and> mi_disabled (m_items m ! i))"

definition menu_activate :: "menu \<Rightarrow> menu" where
  "menu_activate m = (case m_active m of None \<Rightarrow> m | Some a \<Rightarrow> if active_disabled a m then m else menu_select [] m)"

text \<open>\<open>_filterMenuItems\<close>; an escaped text always compiles (lemma \<open>filter_by_prefix\<close>).\<close>

definition filterMenuItems :: "string \<Rightarrow> menu \<Rightarrow> nat list" where
  "filterMenuItems s m =
     (case RegExp (CHR ''^'' # escapeRegExp s) of
        Inl _ \<Rightarrow> []
      | Inr r \<Rightarrow> filter (\<lambda>i. entry m i \<and> re_test True r (trim (mi_text (m_items m ! i)))) (all_items m))"

text \<open>
  The default case of \<open>_keydown\<close>. Reading \<open>this.active.next()\<close> without an active item throws, which is
  \<open>None\<close>.
\<close>

definition typeahead :: "char \<Rightarrow> menu \<Rightarrow> menu option" where
  "typeahead c m =
     (let prev = previousFilter m; skip = (prev = [c]); s = (if skip then [c] else prev @ [c]); match = filterMenuItems s m
      in if skip \<and> m_active m = None then None
         else
           let match1 = (case m_active m of
                           Some (i # _) \<Rightarrow> if skip \<and> Suc i \<in> set match then nextAll m [i] else match
                         | _ \<Rightarrow> match);
               (s2, match2) = (if match1 = [] then ([c], filterMenuItems [c] m) else (s, match1))
           in Some (if match2 \<noteq> [] then (menu_focus KeyEvent match2 m)\<lparr>previousFilter := s2, filterTimer := True\<rparr>
                    else m\<lparr>previousFilter := [], filterTimer := False\<rparr>))"

definition menu_keydown :: "bool \<Rightarrow> (nat \<Rightarrow> rat) \<Rightarrow> rat \<Rightarrow> menu_key \<Rightarrow> menu \<Rightarrow> menu option" where
  "menu_keydown hasScroll tops height k m =
     (case k of
        KPageUp \<Rightarrow> Some (previousPage hasScroll tops height KeyEvent m)
      | KPageDown \<Rightarrow> Some (nextPage hasScroll tops height KeyEvent m)
      | KHome \<Rightarrow> Some (menu_move First KeyEvent m)
      | KEnd \<Rightarrow> Some (menu_move Last KeyEvent m)
      | KUp \<Rightarrow> Some (menu_previous KeyEvent m)
      | KDown \<Rightarrow> Some (menu_next KeyEvent m)
      | KLeft \<Rightarrow> Some m
      | KRight \<Rightarrow> Some m
      | KEscape \<Rightarrow> Some m
      | KEnter \<Rightarrow> Some (menu_activate m)
      | KSpace \<Rightarrow> Some (menu_activate m)
      | KChar c \<Rightarrow> typeahead c m)"

section \<open>Events of the mouse and the timers\<close>

definition menu_mouseenter :: "nat \<Rightarrow> menu \<Rightarrow> menu" where
  "menu_mouseenter i m = (if previousFilter m \<noteq> [] then m else menu_focus MouseEvent [i] m)"

definition menu_click :: "nat \<Rightarrow> menu \<Rightarrow> menu" where
  "menu_click i m = (if active_disabled [i] m then m else menu_select [i] m)"

definition menu_timeout :: "menu \<Rightarrow> menu" where
  "menu_timeout m = (if m_timer m = CollapseTimer then menu_blur False m else m\<lparr>m_timer := NoTimer\<rparr>)"

definition filter_timeout :: "menu \<Rightarrow> menu" where
  "filter_timeout m = (if filterTimer m then m\<lparr>previousFilter := [], filterTimer := False\<rparr> else m)"

text \<open>\<open>refresh\<close>; \<open>gone\<close> says that the active item is no longer in the menu.\<close>

definition menu_refresh :: "bool \<Rightarrow> menu \<Rightarrow> menu" where
  "menu_refresh gone m =
     (let m1 = m\<lparr>m_items := refresh_items (m_items m)\<rparr> in if m_active m1 \<noteq> None \<and> gone then menu_blur False m1 else m1)"

definition new_menu :: "menu_item list \<Rightarrow> menu" where
  "new_menu is = \<lparr>m_items = refresh_items is, m_active = None, m_timer = NoTimer, previousFilter = [], filterTimer = False, m_log = []\<rparr>"

section \<open>Properties\<close>

text \<open>An escaped text after a caret compiles to the literal at the beginning.\<close>

lemma RegExp_anchored: "RegExp (CHR ''^'' # escapeRegExp s) = Inr (Seq Bol (lit_re s Eps))"
proof -
  have "re_tokens (escapeRegExp s) = Inr (map (\<lambda>c. TAtom (chr c)) s)"
    using re_tokens_escape [of re_special s "[]", OF re_special_escapes re_syntax_special] foldr_then_tokens [of s "[]"]
    by (simp add: escapeRegExp_def)
  then have "re_tokens (CHR ''^'' # escapeRegExp s) = Inr (TAtom Bol # map (\<lambda>c. TAtom (chr c)) s)"
    by (simp add: re_tokens.simps(2))
  moreover have "seq_re (xs @ [(Bol, False)]) = Seq Bol (seq_re xs)" for xs by (simp add: seq_re_def)
  ultimately show ?thesis
    using parse_re_chars [of s "[]" None "[]" "[(Bol, False)]" "[]"] seq_re_chars [of "[]" s]
    by (simp add: RegExp_def seq_re_def [of "[]"])
qed

lemma re_test_anchored: "re_test True (Seq Bol (lit_re s Eps)) t \<longleftrightarrow> prefix (to_lower s) (to_lower t)"
proof -
  have run: "re_run True (length t) (Seq Bol (lit_re s Eps)) (drop k t) =
      (if k = 0 \<or> t = [] then (if prefix (to_lower s) (to_lower t) then [drop (length s) t] else []) else [])" if "k \<le> length t" for k
    using that by (cases "k = 0") (auto simp: re_run_lit_ic)
  show ?thesis
  proof
    assume "re_test True (Seq Bol (lit_re s Eps)) t"
    then show "prefix (to_lower s) (to_lower t)" using run unfolding re_test_iff by (metis (lifting))
  next
    assume "prefix (to_lower s) (to_lower t)"
    then have "re_run True (length t) (Seq Bol (lit_re s Eps)) (drop 0 t) \<noteq> []" using run [of 0] by simp
    then show "re_test True (Seq Bol (lit_re s Eps)) t" unfolding re_test_iff by blast
  qed
qed

text \<open>The search finds the entries whose text begins with the characters typed, regardless of case.\<close>

lemma filter_by_prefix:
  "filterMenuItems s m = filter (\<lambda>i. entry m i \<and> prefix (to_lower s) (to_lower (trim (mi_text (m_items m ! i))))) (all_items m)"
  by (simp add: filterMenuItems_def RegExp_anchored re_test_anchored)

lemma blur_items [simp]: "m_items (menu_blur b m) = m_items m"
  by (simp add: menu_blur_def Let_def split: option.splits)

lemma focus_fields [simp]: "m_items (menu_focus ev s m) = m_items m" "m_active (menu_focus ev s m) = Some (take 1 s)"
  by (simp_all add: menu_focus_def Let_def)

lemma move_items [simp]: "m_items (menu_move d ev m) = m_items m"
  by (simp add: menu_move_def)

text \<open>A menu of entries only, as a menu of suggestions is.\<close>

definition all_entries :: "menu \<Rightarrow> bool" where
  "all_entries m \<longleftrightarrow> m_items m \<noteq> [] \<and> (\<forall>i \<in> set (m_items m). mi_entry i)"

lemma all_entries_entry: "all_entries m \<Longrightarrow> entry m i \<longleftrightarrow> i < length (m_items m)"
  by (auto simp: all_entries_def entry_def)

lemma all_entries_filter: "all_entries m \<Longrightarrow> set xs \<subseteq> {..<length (m_items m)} \<Longrightarrow> filter (entry m) xs = xs"
  by (auto simp: filter_id_conv all_entries_entry)

lemma next_step:
  assumes "all_entries m" "m_active m = Some [i]" "i < length (m_items m)"
  shows "m_active (menu_next ev m) = Some [Suc i mod length (m_items m)]"
proof -
  have n: "nextAll m [i] = [Suc i..<length (m_items m)]" using assms(1) by (auto simp: nextAll_def intro!: all_entries_filter)
  show ?thesis
  proof (cases "Suc i < length (m_items m)")
    case True
    then have "take 1 [Suc i..<length (m_items m)] = [Suc i]" by (simp add: upt_conv_Cons)
    then show ?thesis using True assms(2) n by (simp add: menu_next_def menu_move_def move_target_def)
  next
    case False
    then have "Suc i = length (m_items m)" using assms(3) by simp
    then show ?thesis using assms(1,2) n
      by (simp add: menu_next_def menu_move_def move_target_def move_default_def all_items_def all_entries_def upt_conv_Cons)
  qed
qed

lemma prev_step:
  assumes "all_entries m" "m_active m = Some [i]" "i < length (m_items m)"
  shows "m_active (menu_previous ev m) = Some [if i = 0 then length (m_items m) - 1 else i - 1]"
proof -
  have n: "prevAll m [i] = rev [0..<i]" using assms(1,3) by (auto simp: prevAll_def intro!: all_entries_filter)
  show ?thesis
  proof (cases i)
    case 0
    then show ?thesis using assms(1,2) n
      by (simp add: menu_previous_def menu_move_def move_target_def move_default_def all_items_def last_of_def all_entries_def)
  next
    case (Suc j)
    then show ?thesis using assms(2) n by (simp add: menu_previous_def menu_move_def move_target_def)
  qed
qed

lemma next_power:
  "all_entries m \<Longrightarrow> m_active m = Some [i] \<Longrightarrow> i < length (m_items m) \<Longrightarrow>
     m_active ((menu_next ev ^^ k) m) = Some [(i + k) mod length (m_items m)] \<and> m_items ((menu_next ev ^^ k) m) = m_items m"
proof (induction k)
  case (Suc k)
  let ?m = "(menu_next ev ^^ k) m"
  have "all_entries ?m" "m_active ?m = Some [(i + k) mod length (m_items ?m)]" "(i + k) mod length (m_items ?m) < length (m_items ?m)"
    using Suc by (auto simp: all_entries_def)
  from next_step [OF this] show ?case using Suc by (simp add: mod_Suc_eq menu_next_def)
qed simp

text \<open>
  The keys cycle through a menu: the down key goes from any item to the next and from the last to
  the first, so as many presses as there are items come back to where they began, and the up key
  undoes the down key.
\<close>

theorem menu_cycles:
  assumes "all_entries m" "m_active m = Some [i]" "i < length (m_items m)"
  shows "m_active ((menu_next KeyEvent ^^ k) m) = Some [(i + k) mod length (m_items m)]
    \<and> m_active ((menu_next KeyEvent ^^ length (m_items m)) m) = Some [i]
    \<and> m_active (menu_previous KeyEvent (menu_next KeyEvent m)) = Some [i]"
proof -
  let ?n = "length (m_items m)" and ?m = "menu_next KeyEvent m"
  have m: "all_entries ?m" "m_active ?m = Some [Suc i mod ?n]" "m_items ?m = m_items m"
    using assms next_step [OF assms] by (simp_all add: menu_next_def all_entries_def)
  have "m_active (menu_previous KeyEvent ?m) = Some [if Suc i mod ?n = 0 then ?n - 1 else Suc i mod ?n - 1]"
    using prev_step [OF m(1,2)] assms(1) m(3) by (simp add: all_entries_def)
  moreover have "(if Suc i mod ?n = 0 then ?n - 1 else Suc i mod ?n - 1) = i"
    using assms(3) by (cases "Suc i = ?n") auto
  ultimately show ?thesis using next_power [OF assms] assms(3) by simp
qed

text \<open>The entries that begin with a text, regardless of case.\<close>

definition beginning :: "string \<Rightarrow> menu \<Rightarrow> nat list" where
  "beginning s m = filter (\<lambda>i. entry m i \<and> prefix (to_lower s) (to_lower (trim (mi_text (m_items m ! i))))) [0..<length (m_items m)]"

text \<open>
  Typing a character in a menu focuses the first entry that begins with what was typed so far,
  regardless of case; when there is none, the first entry that begins with the character alone; when
  there is none either, the active item stays and the text typed is forgotten.
\<close>

theorem typeahead_focuses:
  assumes "previousFilter m \<noteq> [c]" "s = previousFilter m @ [c]"
  shows "\<exists>m'. typeahead c m = Some m' \<and> (m_active m', previousFilter m') =
    (if beginning s m \<noteq> [] then (Some [hd (beginning s m)], s)
     else if beginning [c] m \<noteq> [] then (Some [hd (beginning [c] m)], [c]) else (m_active m, []))"
proof -
  have f: "filterMenuItems x m = beginning x m" for x by (simp add: filter_by_prefix beginning_def all_items_def)
  have one: "take 1 xs = [hd xs]" if "xs \<noteq> []" for xs :: "nat list" using that by (cases xs) auto
  consider "m_active m = None" | "m_active m = Some []" | i rest where "m_active m = Some (i # rest)" by (metis not_None_eq list.exhaust)
  then show ?thesis by cases (use assms one in \<open>simp_all add: typeahead_def f Let_def\<close>)
qed

text \<open>Three suggestions, and a menu that begins with a divider.\<close>

definition menu_of :: "string list \<Rightarrow> menu" where
  "menu_of ts = new_menu (map (\<lambda>t. \<lparr>mi_text = t, mi_entry = False, mi_disabled = False\<rparr>) ts)"

theorem menu_cycles_witness:
  "m_active ((menu_next KeyEvent ^^ 5) ((menu_of [''Alpha'', ''Beta'', ''Gamma''])\<lparr>m_active := Some [0]\<rparr>)) = Some [2]"
proof -
  let ?m = "(menu_of [''Alpha'', ''Beta'', ''Gamma''])\<lparr>m_active := Some [0]\<rparr>"
  have "all_entries ?m" "length (m_items ?m) = 3" by code_simp+
  then show ?thesis using menu_cycles [of ?m 0 5] by simp
qed

theorem typeahead_focuses_witness:
  "\<exists>m'. typeahead (CHR ''M'') ((menu_of [''Gamma'', ''alpha'', ''Ample''])\<lparr>previousFilter := ''A''\<rparr>) = Some m' \<and> m_active m' = Some [2]"
proof -
  let ?m = "(menu_of [''Gamma'', ''alpha'', ''Ample''])\<lparr>previousFilter := ''A''\<rparr>"
  have "previousFilter ?m \<noteq> ''M''" "beginning ''AM'' ?m = [2]" "previousFilter ?m @ ''M'' = ''AM''" by code_simp+
  then show ?thesis using typeahead_focuses [of ?m "CHR ''M''", OF _ refl] by (simp only: if_True) auto
qed

text \<open>
  The keys wrap around onto a divider: the first or last child of the menu is taken without the test
  for an entry that every other step makes.
\<close>

theorem menu_wraps_to_divider:
  "m_active (menu_next KeyEvent ((menu_of [''-'', ''Alpha'', ''Beta''])\<lparr>m_active := Some [2]\<rparr>)) = Some [0]
   \<and> \<not> entry (menu_of [''-'', ''Alpha'', ''Beta'']) 0"
  by code_simp

text \<open>
  A character typed twice throws when the menu lost its active item in between, as it does when the
  pointer leaves it: the search reads the item after the active one.
\<close>

theorem typeahead_throws:
  "case typeahead (CHR ''A'') (menu_of [''Alpha'', ''Also'']) of
     Some m \<Rightarrow> typeahead (CHR ''A'') (menu_timeout (collapseAll m)) = None
   | None \<Rightarrow> False"
  by code_simp

end
