(* ===== verification/UI_Autocomplete.thy ===== *)
theory UI_Autocomplete
  imports UI_Menu JQ_Core
begin

text \<open>
  The autocomplete widget of jQuery UI over the menu widget: the text field, the search timer, requests
  to a source and their responses, the menu of suggestions and the keys that walk through it. The
  source, the callbacks of the page and the browser's measures are parameters; a request to a server
  is answered by a later input \<open>Respond\<close>. The text field is an input or a textarea.
\<close>

section \<open>Suggestions\<close>

text \<open>The two documented formats of a suggestion: a text, or an object with a label and a value.\<close>

datatype suggestion = SText string | SObj "(string \<times> jsval) list"

fun s_prop :: "string \<Rightarrow> suggestion \<Rightarrow> jsval" where
  "s_prop k (SText s) = Undefined"
| "s_prop k (SObj kvs) = (case assoc k kvs of Some v \<Rightarrow> v | None \<Rightarrow> Undefined)"

definition js_or :: "jsval \<Rightarrow> jsval \<Rightarrow> jsval" where
  "js_or a b = (if truthy a then a else b)"

fun normalize_item :: "suggestion \<Rightarrow> suggestion" where
  "normalize_item (SText s) = SObj [(''label'', Str s), (''value'', Str s)]"
| "normalize_item (SObj kvs) =
     SObj (own_items (extend False (Obj [])
       [Obj kvs,
        Obj [(''label'', js_or (s_prop ''label'' (SObj kvs)) (s_prop ''value'' (SObj kvs))),
             (''value'', js_or (s_prop ''value'' (SObj kvs)) (s_prop ''label'' (SObj kvs)))]]))"

definition ac_normalize :: "suggestion list \<Rightarrow> suggestion list" where
  "ac_normalize items =
     (case items of
        i # _ \<Rightarrow> if truthy (s_prop ''label'' i) \<and> truthy (s_prop ''value'' i) then items else map normalize_item items
      | [] \<Rightarrow> [])"

text \<open>\<open>$.ui.autocomplete.filter\<close>; an escaped text always compiles (lemma \<open>ac_filter_contains\<close>).\<close>

definition escapeRegex :: "string \<Rightarrow> string" where
  "escapeRegex = escape_with re_special"

definition filter_subject :: "host \<Rightarrow> suggestion \<Rightarrow> string" where
  "filter_subject h v =
     (let l = js_or (s_prop ''label'' v) (s_prop ''value'' v)
      in if truthy l then tostr h l else case v of SText s \<Rightarrow> s | SObj kvs \<Rightarrow> tostr h (Obj kvs))"

definition ac_filter :: "host \<Rightarrow> suggestion list \<Rightarrow> string \<Rightarrow> suggestion list" where
  "ac_filter h array term =
     (case RegExp (escapeRegex term) of
        Inl _ \<Rightarrow> []
      | Inr r \<Rightarrow> filter (\<lambda>v. re_test True r (filter_subject h v)) array)"

text \<open>What \<open>.val( v )\<close> and \<open>.text( v )\<close> write; values that are functions, which they call, are left out.\<close>

definition text_value :: "host \<Rightarrow> jsval \<Rightarrow> string" where
  "text_value h v = (if nullish v then [] else tostr h v)"

section \<open>State\<close>

text \<open>
  A source function either answers at once or leaves the answer to a later input. \<open>None\<close> as an answer
  is a response without content.
\<close>

datatype ac_source = NoSource | ArraySource "suggestion list" | UrlSource | FunSource "string \<Rightarrow> suggestion list option option"

datatype ac_log = LSearch | LResponse "suggestion list option" | LOpen | LClose | LFocus suggestion
  | LSelect suggestion | LChange "suggestion option" | LSay string | LThrow

record ac_config =
  ac_host :: host
  minLength :: nat
  autoFocus :: bool
  isMultiLine :: bool
  readOnly :: bool
  allow_search :: "string \<Rightarrow> bool"         \<comment> \<open>the callback does not return \<open>false\<close>\<close>
  allow_focus :: "suggestion \<Rightarrow> bool"
  allow_select :: "suggestion \<Rightarrow> bool"
  hasScroll :: bool                       \<comment> \<open>what the browser measures of the menu\<close>
  item_tops :: "nat \<Rightarrow> rat"
  menu_height :: rat

record autocomplete =
  a_value :: string
  a_term :: "string option"
  a_previous :: "string option"
  selectedItem :: "suggestion option"
  a_menu :: menu
  suggestions :: "suggestion list"        \<comment> \<open>the data of the items of the menu\<close>
  a_visible :: bool
  isNewMenu :: bool
  requestIndex :: nat
  pending :: int
  loading :: bool                         \<comment> \<open>the class \<open>ui-autocomplete-loading\<close>\<close>
  cancelSearch :: bool
  searching :: "bool option"              \<comment> \<open>the search timer, with the modifier keys of its event\<close>
  a_source :: ac_source
  a_disabled :: bool
  a_xhr :: "nat option"
  waiting :: "nat list"                   \<comment> \<open>response functions handed out and not called yet\<close>
  cancelBlur :: bool
  suppressKeyPress :: bool
  suppressKeyPressRepeat :: bool
  suppressInput :: bool
  focused :: bool
  outside :: bool                         \<comment> \<open>the listener on the document\<close>
  late :: "(string option \<times> suggestion) list"
  a_log :: "ac_log list"

definition say :: "ac_log \<Rightarrow> autocomplete \<Rightarrow> autocomplete" where
  "say l st = st\<lparr>a_log := a_log st @ [l]\<rparr>"

definition put_value :: "string \<Rightarrow> autocomplete \<Rightarrow> autocomplete" where
  "put_value v st = st\<lparr>a_value := v\<rparr>"

section \<open>The menu of suggestions\<close>

definition ac_hide :: "autocomplete \<Rightarrow> autocomplete" where
  "ac_hide st =
     (let st1 = st\<lparr>outside := False\<rparr>
      in if a_visible st1
         then say LClose (st1\<lparr>a_visible := False, a_menu := menu_blur False (a_menu st1), isNewMenu := True\<rparr>)
         else st1)"

definition ac_close :: "autocomplete \<Rightarrow> autocomplete" where
  "ac_close st = ac_hide (st\<lparr>cancelSearch := True\<rparr>)"

definition focus_field :: "autocomplete \<Rightarrow> autocomplete" where
  "focus_field st =
     (let st1 = st\<lparr>focused := True\<rparr>
      in if a_disabled st1 then st1 else st1\<lparr>selectedItem := None, a_previous := Some (a_value st1)\<rparr>)"

definition item_data :: "nat list \<Rightarrow> autocomplete \<Rightarrow> suggestion option" where
  "item_data s st = (case s of i # _ \<Rightarrow> if i < length (suggestions st) then Some (suggestions st ! i) else None | [] \<Rightarrow> None)"

definition announce :: "host \<Rightarrow> jsval \<Rightarrow> autocomplete \<Rightarrow> autocomplete" where
  "announce h label st = (if truthy label \<and> trim (tostr h label) \<noteq> [] then say (LSay (tostr h label)) st else st)"

text \<open>
  The handlers of \<open>menufocus\<close> and \<open>menuselect\<close>; reading the value of a missing item throws. A mouse that
  enters a new menu is ignored until it moves, which is another input.
\<close>

definition menufocus :: "ac_config \<Rightarrow> menu_event \<Rightarrow> nat list \<Rightarrow> autocomplete \<Rightarrow> autocomplete" where
  "menufocus env ev s st =
     (if isNewMenu st \<and> ev = MouseEvent then st\<lparr>isNewMenu := False, a_menu := menu_blur False (a_menu st)\<rparr>
      else
        let st1 = st\<lparr>isNewMenu := False\<rparr>
        in case item_data s st1 of
             None \<Rightarrow> say LThrow st1
           | Some item \<Rightarrow>
               let st2 = say (LFocus item) st1;
                   st3 = (if allow_focus env item \<and> ev = KeyEvent
                          then put_value (text_value (ac_host env) (s_prop ''value'' item)) st2 else st2)
               in announce (ac_host env) (s_prop ''value'' item) st3)"

definition menuselect :: "ac_config \<Rightarrow> nat list \<Rightarrow> autocomplete \<Rightarrow> autocomplete" where
  "menuselect env s st =
     (case item_data s st of
        None \<Rightarrow> say LThrow st
      | Some item \<Rightarrow>
          let st1 = (if focused st then st
                     else (focus_field st)\<lparr>a_previous := a_previous st, late := late st @ [(a_previous st, item)]\<rparr>);
              st2 = say (LSelect item) st1;
              st3 = (if allow_select env item then put_value (text_value (ac_host env) (s_prop ''value'' item)) st2 else st2);
              st4 = st3\<lparr>a_term := Some (a_value st3)\<rparr>
          in (ac_close st4)\<lparr>selectedItem := Some item\<rparr>)"

definition menu_handler :: "ac_config \<Rightarrow> menu_event \<Rightarrow> menu_log \<Rightarrow> autocomplete \<Rightarrow> autocomplete" where
  "menu_handler env ev l st =
     (if a_disabled st then st
      else case l of MFocus s \<Rightarrow> menufocus env ev s st | MSelect s \<Rightarrow> menuselect env s st | MBlur _ \<Rightarrow> st)"

text \<open>An operation of the menu, and the handlers of the events it triggered.\<close>

definition with_menu :: "ac_config \<Rightarrow> menu_event \<Rightarrow> (menu \<Rightarrow> menu) \<Rightarrow> autocomplete \<Rightarrow> autocomplete" where
  "with_menu env ev f st =
     (let m = f (a_menu st)
      in fold (menu_handler env ev) (drop (length (m_log (a_menu st))) (m_log m)) (st\<lparr>a_menu := m\<rparr>))"

definition renderItem :: "host \<Rightarrow> suggestion \<Rightarrow> menu_item" where
  "renderItem h item = \<lparr>mi_text = text_value h (s_prop ''label'' item), mi_entry = False, mi_disabled = False\<rparr>"

definition suggest :: "ac_config \<Rightarrow> suggestion list \<Rightarrow> autocomplete \<Rightarrow> autocomplete" where
  "suggest env items st =
     (let m = (a_menu st)\<lparr>m_items := map (renderItem (ac_host env)) items\<rparr>;
          st1 = st\<lparr>suggestions := items, isNewMenu := True, a_menu := menu_refresh True m, a_visible := True\<rparr>;
          st2 = (if autoFocus env then with_menu env NoEvent (menu_next NoEvent) st1 else st1)
      in st2\<lparr>outside := True\<rparr>)"

section \<open>Requests and responses\<close>

definition base_response :: "ac_config \<Rightarrow> suggestion list option \<Rightarrow> autocomplete \<Rightarrow> autocomplete" where
  "base_response env content st =
     (let content1 = map_option ac_normalize content; st1 = say (LResponse content1) st
      in case content1 of
           Some items \<Rightarrow> if \<not> a_disabled st1 \<and> items \<noteq> [] \<and> \<not> cancelSearch st1 then say LOpen (suggest env items st1) else ac_hide st1
         | None \<Rightarrow> ac_hide st1)"

definition results_message :: "nat \<Rightarrow> string" where
  "results_message amount = nat_str amount @ (if amount > 1 then '' results are'' else '' result is'') @
     '' available, use up and down arrow keys to navigate.''"

definition live_response :: "ac_config \<Rightarrow> suggestion list option \<Rightarrow> autocomplete \<Rightarrow> autocomplete" where
  "live_response env content st =
     (let st1 = base_response env content st
      in if a_disabled st1 \<or> cancelSearch st1 then st1
         else say (LSay (case content of Some (i # is) \<Rightarrow> results_message (length (i # is)) | _ \<Rightarrow> ''No search results.'')) st1)"

text \<open>The function that \<open>_response\<close> makes for the request \<open>index\<close>.\<close>

definition respond :: "ac_config \<Rightarrow> nat \<Rightarrow> suggestion list option \<Rightarrow> autocomplete \<Rightarrow> autocomplete" where
  "respond env index content st =
     (let st1 = (if index = requestIndex st then live_response env content st else st);
          st2 = st1\<lparr>pending := pending st1 - 1, waiting := remove1 index (waiting st1)\<rparr>
      in if pending st2 = 0 then st2\<lparr>loading := False\<rparr> else st2)"

text \<open>Aborting a request that still runs calls its error callback; aborting a finished one does nothing.\<close>

definition abort :: "ac_config \<Rightarrow> autocomplete \<Rightarrow> autocomplete" where
  "abort env st = (case a_xhr st of Some j \<Rightarrow> if j \<in> set (waiting st) then respond env j (Some []) st else st | None \<Rightarrow> st)"

definition call_source :: "ac_config \<Rightarrow> nat \<Rightarrow> string \<Rightarrow> autocomplete \<Rightarrow> autocomplete" where
  "call_source env index v st =
     (case a_source st of
        NoSource \<Rightarrow> say LThrow st
      | ArraySource array \<Rightarrow> respond env index (Some (ac_filter (ac_host env) array v)) st
      | UrlSource \<Rightarrow> (abort env st)\<lparr>a_xhr := Some index\<rparr>
      | FunSource f \<Rightarrow> (case f v of Some content \<Rightarrow> respond env index content st | None \<Rightarrow> st))"

definition start_search :: "ac_config \<Rightarrow> string \<Rightarrow> autocomplete \<Rightarrow> autocomplete" where
  "start_search env v st =
     (let index = Suc (requestIndex st)
      in call_source env index v
           (st\<lparr>pending := pending st + 1, loading := True, cancelSearch := False, requestIndex := index, waiting := waiting st @ [index]\<rparr>))"

definition ac_search :: "ac_config \<Rightarrow> string option \<Rightarrow> autocomplete \<Rightarrow> autocomplete" where
  "ac_search env arg st =
     (let v = (case arg of Some v \<Rightarrow> v | None \<Rightarrow> a_value st); st1 = st\<lparr>a_term := Some (a_value st)\<rparr>
      in if length v < minLength env then ac_close st1
         else let st2 = say LSearch st1 in if allow_search env v then start_search env v st2 else st2)"

definition searchTimeout :: "bool \<Rightarrow> autocomplete \<Rightarrow> autocomplete" where
  "searchTimeout modifierKey st = st\<lparr>searching := Some modifierKey\<rparr>"

definition search_timer :: "ac_config \<Rightarrow> autocomplete \<Rightarrow> autocomplete" where
  "search_timer env st =
     (case searching st of
        None \<Rightarrow> st
      | Some modifierKey \<Rightarrow>
          let st1 = st\<lparr>searching := None\<rparr>; equalValues = (a_term st1 = Some (a_value st1))
          in if \<not> equalValues \<or> equalValues \<and> \<not> a_visible st1 \<and> \<not> modifierKey
             then ac_search env None (st1\<lparr>selectedItem := None\<rparr>) else st1)"

section \<open>Keys\<close>

datatype ac_direction = Previous | NextItem | PreviousPage | NextPage

definition backwards :: "ac_direction \<Rightarrow> bool" where
  "backwards d \<longleftrightarrow> d = Previous \<or> d = PreviousPage"

definition menu_call :: "ac_config \<Rightarrow> ac_direction \<Rightarrow> menu \<Rightarrow> menu" where
  "menu_call env d =
     (case d of Previous \<Rightarrow> menu_previous KeyEvent | NextItem \<Rightarrow> menu_next KeyEvent
      | PreviousPage \<Rightarrow> previousPage (hasScroll env) (item_tops env) (menu_height env) KeyEvent
      | NextPage \<Rightarrow> nextPage (hasScroll env) (item_tops env) (menu_height env) KeyEvent)"

definition restore_term :: "ac_config \<Rightarrow> autocomplete \<Rightarrow> autocomplete" where
  "restore_term env st = (if isMultiLine env then st else put_value (case a_term st of Some t \<Rightarrow> t | None \<Rightarrow> []) st)"

definition ac_move :: "ac_config \<Rightarrow> ac_direction \<Rightarrow> autocomplete \<Rightarrow> autocomplete" where
  "ac_move env d st =
     (if \<not> a_visible st then ac_search env None st
      else if isFirstItem (a_menu st) \<and> backwards d \<or> isLastItem (a_menu st) \<and> \<not> backwards d
      then let st1 = restore_term env st in st1\<lparr>a_menu := menu_blur False (a_menu st1)\<rparr>
      else with_menu env KeyEvent (menu_call env d) st)"

definition keyEvent :: "ac_config \<Rightarrow> ac_direction \<Rightarrow> autocomplete \<Rightarrow> autocomplete" where
  "keyEvent env d st = (if \<not> isMultiLine env \<or> a_visible st then ac_move env d st else st)"

datatype ac_key = APageUp | APageDown | AUp | ADown | AEnter | ATab | AEscape | AOther

definition ac_keydown :: "ac_config \<Rightarrow> ac_key \<Rightarrow> bool \<Rightarrow> autocomplete \<Rightarrow> autocomplete" where
  "ac_keydown env k modifierKey st =
     (if a_disabled st then st
      else if readOnly env then st\<lparr>suppressKeyPress := True, suppressInput := True, suppressKeyPressRepeat := True\<rparr>
      else
        let st1 = st\<lparr>suppressKeyPress := False, suppressInput := False, suppressKeyPressRepeat := False\<rparr>;
            press = st1\<lparr>suppressKeyPress := True\<rparr>
        in case k of
             APageUp \<Rightarrow> ac_move env PreviousPage press
           | APageDown \<Rightarrow> ac_move env NextPage press
           | AUp \<Rightarrow> keyEvent env Previous press
           | ADown \<Rightarrow> keyEvent env NextItem press
           | AEnter \<Rightarrow> if m_active (a_menu st1) \<noteq> None then with_menu env KeyEvent (menu_select []) press else st1
           | ATab \<Rightarrow> if m_active (a_menu st1) \<noteq> None then with_menu env KeyEvent (menu_select []) st1 else st1
           | AEscape \<Rightarrow> if a_visible st1 then ac_close (restore_term env st1) else st1
           | AOther \<Rightarrow> searchTimeout modifierKey (st1\<lparr>suppressKeyPressRepeat := True\<rparr>))"

definition ac_keypress :: "ac_config \<Rightarrow> ac_key \<Rightarrow> autocomplete \<Rightarrow> autocomplete" where
  "ac_keypress env k st =
     (if a_disabled st then st
      else if suppressKeyPress st then st\<lparr>suppressKeyPress := False\<rparr>
      else if suppressKeyPressRepeat st then st
      else case k of
             APageUp \<Rightarrow> ac_move env PreviousPage st
           | APageDown \<Rightarrow> ac_move env NextPage st
           | AUp \<Rightarrow> keyEvent env Previous st
           | ADown \<Rightarrow> keyEvent env NextItem st
           | _ \<Rightarrow> st)"

section \<open>The field, the mouse and the options\<close>

definition ac_input :: "string \<Rightarrow> autocomplete \<Rightarrow> autocomplete" where
  "ac_input v st =
     (let st1 = put_value v st
      in if a_disabled st1 then st1
         else if suppressInput st1 then st1\<lparr>suppressInput := False\<rparr>
         else searchTimeout False st1)"

definition ac_change :: "autocomplete \<Rightarrow> autocomplete" where
  "ac_change st = (if a_previous st \<noteq> Some (a_value st) then say (LChange (selectedItem st)) st else st)"

definition ac_blur :: "autocomplete \<Rightarrow> autocomplete" where
  "ac_blur st =
     (let st1 = st\<lparr>focused := False\<rparr>
      in if a_disabled st1 then st1
         else if cancelBlur st1 then st1\<lparr>cancelBlur := False\<rparr>
         else ac_change (ac_close (st1\<lparr>searching := None\<rparr>)))"

definition menu_mousedown :: "autocomplete \<Rightarrow> autocomplete" where
  "menu_mousedown st = (if a_disabled st then st else st\<lparr>cancelBlur := True\<rparr>)"

definition mousedown_timer :: "autocomplete \<Rightarrow> autocomplete" where
  "mousedown_timer st = (let st1 = st\<lparr>cancelBlur := False\<rparr> in if focused st1 then st1 else focus_field st1)"

definition closeOnClickOutside :: "autocomplete \<Rightarrow> autocomplete" where
  "closeOnClickOutside st = (if outside st \<and> \<not> a_disabled st then ac_close st else st)"

definition late_timer :: "autocomplete \<Rightarrow> autocomplete" where
  "late_timer st = (case late st of (p, item) # ls \<Rightarrow> st\<lparr>a_previous := p, selectedItem := Some item, late := ls\<rparr> | [] \<Rightarrow> st)"

definition set_source :: "ac_source \<Rightarrow> autocomplete \<Rightarrow> autocomplete" where
  "set_source s st = st\<lparr>a_source := s\<rparr>"

definition set_disabled :: "ac_config \<Rightarrow> bool \<Rightarrow> autocomplete \<Rightarrow> autocomplete" where
  "set_disabled env b st = (let st1 = st\<lparr>a_disabled := b\<rparr> in if b then abort env st1 else st1)"

definition new_autocomplete :: "string \<Rightarrow> ac_source \<Rightarrow> autocomplete" where
  "new_autocomplete v s =
     \<lparr>a_value = v, a_term = None, a_previous = None, selectedItem = None, a_menu = new_menu [], suggestions = [],
      a_visible = False, isNewMenu = True, requestIndex = 0, pending = 0, loading = False, cancelSearch = False,
      searching = None, a_source = s, a_disabled = False, a_xhr = None, waiting = [], cancelBlur = False,
      suppressKeyPress = False, suppressKeyPressRepeat = False, suppressInput = False, focused = False,
      outside = False, late = [], a_log = []\<rparr>"

text \<open>The inputs of the user, the page, the timers and the source.\<close>

datatype ac_event = KeyDown ac_key bool | KeyPress ac_key | Input string | FocusField | BlurField
  | SearchTimer | Respond nat "suggestion list option" | MenuEnter nat | MenuClick nat | MenuDown
  | MenuDownTimer | MenuTimer | OutsideDown | LateTimer | CallSearch "string option" | CallClose
  | SetSource ac_source | SetDisabled bool

fun ac_step :: "ac_config \<Rightarrow> ac_event \<Rightarrow> autocomplete \<Rightarrow> autocomplete" where
  "ac_step env (KeyDown k b) = ac_keydown env k b"
| "ac_step env (KeyPress k) = ac_keypress env k"
| "ac_step env (Input v) = ac_input v"
| "ac_step env FocusField = focus_field"
| "ac_step env BlurField = ac_blur"
| "ac_step env SearchTimer = search_timer env"
| "ac_step env (Respond i c) = respond env i c"
| "ac_step env (MenuEnter i) = with_menu env MouseEvent (menu_mouseenter i)"
| "ac_step env (MenuClick i) = with_menu env MouseEvent (menu_click i)"
| "ac_step env MenuDown = menu_mousedown"
| "ac_step env MenuDownTimer = mousedown_timer"
| "ac_step env MenuTimer = with_menu env NoEvent menu_timeout"
| "ac_step env OutsideDown = closeOnClickOutside"
| "ac_step env LateTimer = late_timer"
| "ac_step env (CallSearch v) = ac_search env v"
| "ac_step env CallClose = ac_close"
| "ac_step env (SetSource s) = set_source s"
| "ac_step env (SetDisabled b) = set_disabled env b"

section \<open>The filter\<close>

lemma ac_filter_contains: "ac_filter h array q = filter (\<lambda>v. sublist (to_lower q) (to_lower (filter_subject h v))) array"
  using RegExp_escapeRegExp [of q] by (simp add: ac_filter_def escapeRegex_def escapeRegExp_def re_test_lit_ic)

section \<open>What the operations leave alone\<close>

text \<open>The bookkeeping of requests.\<close>

definition traffic :: "autocomplete \<Rightarrow> int \<times> nat list \<times> nat \<times> bool \<times> nat option \<times> ac_source \<times> bool" where
  "traffic st = (pending st, waiting st, requestIndex st, loading st, a_xhr st, a_source st, a_disabled st)"

lemma traffic_fields: "traffic st = traffic st' \<Longrightarrow> pending st = pending st' \<and> waiting st = waiting st' \<and>
    requestIndex st = requestIndex st' \<and> loading st = loading st' \<and> a_xhr st = a_xhr st' \<and> a_source st = a_source st' \<and> a_disabled st = a_disabled st'"
  by (simp add: traffic_def)

lemma traffic_basic [simp]:
  "traffic (say e st) = traffic st" "traffic (put_value v st) = traffic st" "traffic (ac_hide st) = traffic st"
  "traffic (ac_close st) = traffic st" "traffic (focus_field st) = traffic st" "traffic (announce h l st) = traffic st"
  "traffic (restore_term env st) = traffic st"
  by (simp_all add: traffic_def say_def put_value_def ac_hide_def ac_close_def focus_field_def announce_def restore_term_def Let_def)

lemma traffic_updates [simp]:
  "traffic (st\<lparr>a_menu := m\<rparr>) = traffic st" "traffic (st\<lparr>a_visible := b\<rparr>) = traffic st" "traffic (st\<lparr>isNewMenu := b\<rparr>) = traffic st"
  "traffic (st\<lparr>outside := b\<rparr>) = traffic st" "traffic (st\<lparr>suggestions := ss\<rparr>) = traffic st" "traffic (st\<lparr>a_term := t\<rparr>) = traffic st"
  "traffic (st\<lparr>selectedItem := i\<rparr>) = traffic st" "traffic (st\<lparr>a_previous := t\<rparr>) = traffic st" "traffic (st\<lparr>late := ls\<rparr>) = traffic st"
  "traffic (st\<lparr>searching := s\<rparr>) = traffic st" "traffic (st\<lparr>suppressKeyPress := b\<rparr>) = traffic st"
  "traffic (st\<lparr>suppressInput := b\<rparr>) = traffic st" "traffic (st\<lparr>suppressKeyPressRepeat := b\<rparr>) = traffic st"
  "traffic (st\<lparr>cancelBlur := b\<rparr>) = traffic st" "traffic (st\<lparr>focused := b\<rparr>) = traffic st" "traffic (st\<lparr>a_value := v\<rparr>) = traffic st"
  by (simp_all add: traffic_def)

lemma traffic_handler [simp]: "traffic (menu_handler env ev l st) = traffic st"
  by (simp add: menu_handler_def menufocus_def menuselect_def Let_def split: menu_log.split option.split)

lemma traffic_with_menu [simp]: "traffic (with_menu env ev f st) = traffic st"
proof -
  have "traffic (fold (menu_handler env ev) ls s) = traffic s" for ls s by (induction ls arbitrary: s) simp_all
  then show ?thesis by (simp add: with_menu_def Let_def)
qed

lemma traffic_suggest [simp]: "traffic (suggest env items st) = traffic st"
  by (simp add: suggest_def Let_def)

lemma traffic_response [simp]: "traffic (live_response env c st) = traffic st"
  by (simp add: live_response_def base_response_def Let_def split: option.split)

section \<open>The requests are counted\<close>

definition counted :: "autocomplete \<Rightarrow> bool" where
  "counted st \<longleftrightarrow> pending st = int (length (waiting st)) \<and> (loading st \<longleftrightarrow> waiting st \<noteq> []) \<and> distinct (waiting st) \<and>
     (\<forall>i \<in> set (waiting st). 0 < i \<and> i \<le> requestIndex st)"

lemma counted_cong: "traffic st = traffic st' \<Longrightarrow> counted st \<longleftrightarrow> counted st'"
  using traffic_fields [of st st'] by (simp add: counted_def)

lemma respond_fields:
  "waiting (respond env i c st) = remove1 i (waiting st)" "pending (respond env i c st) = pending st - 1"
  "requestIndex (respond env i c st) = requestIndex st" "loading (respond env i c st) \<longleftrightarrow> loading st \<and> pending st \<noteq> 1"
  "a_source (respond env i c st) = a_source st" "a_xhr (respond env i c st) = a_xhr st" "a_disabled (respond env i c st) = a_disabled st"
  using traffic_fields [OF traffic_response [of env c st]] by (auto simp: respond_def Let_def)

lemma counted_respond: "counted st \<Longrightarrow> i \<in> set (waiting st) \<Longrightarrow> counted (respond env i c st)"
proof -
  assume a: "counted st" "i \<in> set (waiting st)"
  then have n: "length (remove1 i (waiting st)) = length (waiting st) - 1" "0 < length (waiting st)" by (auto simp: length_remove1)
  have "remove1 i (waiting st) \<noteq> [] \<longleftrightarrow> int (length (waiting st)) \<noteq> 1"
    using n by (simp flip: length_greater_0_conv, arith)
  moreover have "pending (respond env i c st) = int (length (remove1 i (waiting st)))"
    using a n by (cases "waiting st") (simp_all add: counted_def respond_fields)
  ultimately show ?thesis using a by (auto simp: counted_def respond_fields dest: notin_set_remove1)
qed

lemma counted_search: "counted st \<Longrightarrow> counted (start_search env v st)"
proof -
  assume a: "counted st"
  let ?i = "Suc (requestIndex st)"
  let ?st = "st\<lparr>pending := pending st + 1, loading := True, cancelSearch := False, requestIndex := ?i, waiting := waiting st @ [?i]\<rparr>"
  have c: "counted ?st" using a by (fastforce simp: counted_def)
  have "counted (abort env ?st)" using counted_respond [OF c] c by (simp add: abort_def split: option.split)
  then have "counted ((abort env ?st)\<lparr>a_xhr := x\<rparr>)" for x by (simp add: counted_def)
  moreover have "counted (respond env ?i d ?st)" for d by (rule counted_respond [OF c]) simp
  moreover have "counted (say LThrow ?st)" using c counted_cong [OF traffic_basic(1)] by blast
  ultimately show ?thesis using c by (simp add: start_search_def call_source_def Let_def split: ac_source.split option.split)
qed

section \<open>The menu belongs to the suggestions\<close>

definition active_ok :: "menu \<Rightarrow> bool" where
  "active_ok m \<longleftrightarrow> (case m_active m of None \<Rightarrow> True | Some s \<Rightarrow> \<exists>i < length (m_items m). s = [i])"

definition menu_ok :: "autocomplete \<Rightarrow> bool" where
  "menu_ok st \<longleftrightarrow> length (m_items (a_menu st)) = length (suggestions st) \<and> active_ok (a_menu st) \<and>
     (a_visible st \<longrightarrow> suggestions st \<noteq> [] \<and> \<not> cancelSearch st) \<and> (\<not> a_visible st \<longrightarrow> m_active (a_menu st) = None)"

lemma blur_active [simp]: "m_active (menu_blur b m) = None"
  by (simp add: menu_blur_def Let_def split: option.split)

lemma blur_ok [simp]: "active_ok (menu_blur b m)"
  by (simp add: active_ok_def)

lemma menu_ok_updates [simp]:
  "menu_ok (st\<lparr>isNewMenu := b\<rparr>) = menu_ok st" "menu_ok (st\<lparr>outside := b\<rparr>) = menu_ok st" "menu_ok (st\<lparr>a_term := t\<rparr>) = menu_ok st"
  "menu_ok (st\<lparr>selectedItem := i\<rparr>) = menu_ok st" "menu_ok (st\<lparr>a_previous := t\<rparr>) = menu_ok st" "menu_ok (st\<lparr>late := ls\<rparr>) = menu_ok st"
  "menu_ok (st\<lparr>searching := s\<rparr>) = menu_ok st" "menu_ok (st\<lparr>suppressKeyPress := b\<rparr>) = menu_ok st"
  "menu_ok (st\<lparr>suppressInput := b\<rparr>) = menu_ok st" "menu_ok (st\<lparr>suppressKeyPressRepeat := b\<rparr>) = menu_ok st"
  "menu_ok (st\<lparr>cancelBlur := b\<rparr>) = menu_ok st" "menu_ok (st\<lparr>focused := b\<rparr>) = menu_ok st" "menu_ok (st\<lparr>a_value := v\<rparr>) = menu_ok st"
  "menu_ok (st\<lparr>pending := p\<rparr>) = menu_ok st" "menu_ok (st\<lparr>waiting := w\<rparr>) = menu_ok st" "menu_ok (st\<lparr>loading := b\<rparr>) = menu_ok st"
  "menu_ok (st\<lparr>requestIndex := n\<rparr>) = menu_ok st" "menu_ok (st\<lparr>a_xhr := x\<rparr>) = menu_ok st" "menu_ok (st\<lparr>a_source := s'\<rparr>) = menu_ok st"
  "menu_ok (st\<lparr>a_disabled := b\<rparr>) = menu_ok st" "menu_ok (st\<lparr>a_log := l\<rparr>) = menu_ok st"
  by (simp_all add: menu_ok_def)

lemma menu_ok_basic [simp]:
  "menu_ok (say e st) = menu_ok st" "menu_ok (put_value v st) = menu_ok st" "menu_ok (focus_field st) = menu_ok st"
  "menu_ok (announce h l st) = menu_ok st" "menu_ok (restore_term env st) = menu_ok st"
  by (simp_all add: say_def put_value_def focus_field_def announce_def restore_term_def Let_def)

lemma menu_ok_cancel: "menu_ok st \<Longrightarrow> menu_ok (st\<lparr>cancelSearch := False\<rparr>)"
  by (auto simp: menu_ok_def)

lemma ac_hide_ok: "menu_ok st \<Longrightarrow> menu_ok (ac_hide st)"
  by (simp add: ac_hide_def Let_def) (simp add: menu_ok_def)

lemma blur_menu_ok: "menu_ok st \<Longrightarrow> menu_ok (st\<lparr>a_menu := menu_blur False (a_menu st)\<rparr>)"
  by (simp add: menu_ok_def)

lemma hide_fields [simp]: "cancelSearch (ac_hide st) = cancelSearch st" "suggestions (ac_hide st) = suggestions st"
  "a_value (ac_hide st) = a_value st" "a_term (ac_hide st) = a_term st"
  by (simp_all add: ac_hide_def Let_def say_def)

lemma hidden_ok: "length (m_items (a_menu st)) = length (suggestions st) \<Longrightarrow> (\<not> a_visible st \<longrightarrow> m_active (a_menu st) = None) \<Longrightarrow>
    menu_ok (ac_hide st) \<and> \<not> a_visible (ac_hide st)"
  by (auto simp: ac_hide_def Let_def menu_ok_def say_def active_ok_def)

lemma ac_close_ok: "menu_ok st \<Longrightarrow> menu_ok (ac_close st) \<and> \<not> a_visible (ac_close st) \<and> cancelSearch (ac_close st)"
  using hidden_ok [of "st\<lparr>cancelSearch := True\<rparr>"] by (simp add: ac_close_def) (simp add: menu_ok_def)

lemma handler_ok: "menu_ok st \<Longrightarrow> menu_ok (menu_handler env ev l st)"
proof (cases l)
  case (MFocus s)
  assume ok: "menu_ok st"
  then have "menu_ok (st\<lparr>isNewMenu := False, a_menu := menu_blur False (a_menu st)\<rparr>)" by (simp add: menu_ok_def)
  with MFocus ok show ?thesis by (simp add: menu_handler_def menufocus_def Let_def split: option.split)
next
  case (MSelect s)
  assume "menu_ok st"
  with MSelect ac_close_ok show ?thesis by (simp add: menu_handler_def menuselect_def Let_def split: option.split)
qed (simp add: menu_handler_def)

lemma with_menu_ok:
  assumes "menu_ok st" "m_items (f (a_menu st)) = m_items (a_menu st)" "active_ok (f (a_menu st))"
    "\<not> a_visible st \<longrightarrow> m_active (f (a_menu st)) = None"
  shows "menu_ok (with_menu env ev f st)"
proof -
  have "menu_ok s \<Longrightarrow> menu_ok (fold (menu_handler env ev) ls s)" for ls s by (induction ls arbitrary: s) (simp_all add: handler_ok)
  moreover have "menu_ok (st\<lparr>a_menu := f (a_menu st)\<rparr>)" using assms by (simp add: menu_ok_def)
  ultimately show ?thesis by (simp add: with_menu_def Let_def)
qed

lemma focus_ok: "s \<noteq> [] \<Longrightarrow> set s \<subseteq> {..<length (m_items m)} \<Longrightarrow> active_ok (menu_focus ev s m)"
  by (cases s) (auto simp: active_ok_def)

lemma reach: "set (nextAll m s) \<subseteq> {..<length (m_items m)}" "set (prevAll m s) \<subseteq> {..<length (m_items m)}"
  "set (all_items m) \<subseteq> {..<length (m_items m)}" "set (last_of xs) \<subseteq> set xs"
  by (auto simp: nextAll_def prevAll_def all_items_def last_of_def entry_def split: list.split)

lemma each_until_sub: "set (each_until p xs) \<subseteq> set xs" "each_until p xs = [] \<longleftrightarrow> xs = []"
  by (induction p xs rule: each_until.induct) auto

lemma take_sub: "set (take n xs) \<subseteq> set xs"
  by (rule set_take_subset)

lemma move_ok: "m_items m \<noteq> [] \<Longrightarrow> active_ok (menu_move d ev m)"
proof -
  assume ne: "m_items m \<noteq> []"
  have "set (move_target d m) \<subseteq> {..<length (m_items m)}"
    by (cases "m_active m"; cases d)
      (simp_all add: move_target_def subset_trans [OF take_sub reach(1)] subset_trans [OF take_sub reach(2)]
        subset_trans [OF reach(4) reach(1)] subset_trans [OF reach(4) reach(2)])
  moreover have "set (move_default d m) \<subseteq> {..<length (m_items m)}" "move_default d m \<noteq> []"
    using ne by (auto simp: move_default_def last_of_def all_items_def dest!: set_mp [OF take_sub])
  ultimately show ?thesis by (simp add: menu_move_def Let_def focus_ok)
qed

lemma page_items [simp]: "m_items (nextPage b ts h ev m) = m_items m" "m_items (previousPage b ts h ev m) = m_items m"
  by (simp_all add: nextPage_def previousPage_def menu_next_def split: option.split)

lemma page_ok: "m_items m \<noteq> [] \<Longrightarrow> active_ok m \<Longrightarrow> active_ok (nextPage b ts h ev m) \<and> active_ok (previousPage b ts h ev m)"
proof -
  assume ne: "m_items m \<noteq> []" and ok: "active_ok m"
  have all: "active_ok (menu_focus ev (last_of (all_items m)) m)" "active_ok (menu_focus ev (take 1 (all_items m)) m)"
    using ne by (auto intro!: focus_ok simp: last_of_def all_items_def dest!: set_mp [OF take_sub])
  have far: "active_ok (menu_focus ev (each_until p (nextAll m s)) m)" if "nextAll m s \<noteq> []" for p s
    using that subset_trans [OF each_until_sub(1) reach(1)] by (intro focus_ok) (simp_all add: each_until_sub(2))
  have near: "active_ok (menu_focus ev (each_until p (prevAll m s)) m)" if "prevAll m s \<noteq> []" for p s
    using that subset_trans [OF each_until_sub(1) reach(2)] by (intro focus_ok) (simp_all add: each_until_sub(2))
  show ?thesis using ok move_ok [OF ne] all far near
    by (auto simp: nextPage_def previousPage_def menu_next_def isLastItem_def isFirstItem_def split: option.split)
qed

lemma call_ok: "m_items m \<noteq> [] \<Longrightarrow> active_ok m \<Longrightarrow> active_ok (menu_call env d m) \<and> m_items (menu_call env d m) = m_items m"
  by (auto simp: menu_call_def page_ok move_ok menu_next_def menu_previous_def split: ac_direction.split)

lemma suggest_ok: "items \<noteq> [] \<Longrightarrow> \<not> cancelSearch st \<Longrightarrow> menu_ok (suggest env items st)"
proof -
  assume a: "items \<noteq> []" "\<not> cancelSearch st"
  let ?m = "menu_refresh True ((a_menu st)\<lparr>m_items := map (renderItem (ac_host env)) items\<rparr>)"
  let ?st = "st\<lparr>suggestions := items, isNewMenu := True, a_menu := ?m, a_visible := True\<rparr>"
  have m: "length (m_items ?m) = length items" "m_active ?m = None"
    by (auto simp: menu_refresh_def Let_def refresh_items_def)
  with a have "menu_ok ?st" by (simp add: menu_ok_def active_ok_def)
  moreover from this m a have "menu_ok (with_menu env NoEvent (menu_next NoEvent) ?st)"
    by (intro with_menu_ok) (auto simp: menu_next_def intro!: move_ok)
  ultimately show ?thesis by (simp add: suggest_def Let_def)
qed

lemma response_ok: "menu_ok st \<Longrightarrow> menu_ok (live_response env c st)"
proof -
  assume ok: "menu_ok st"
  have "menu_ok (base_response env c st)"
    using ok by (auto simp: base_response_def Let_def ac_hide_ok intro!: suggest_ok split: option.split)
  then show ?thesis by (simp add: live_response_def Let_def)
qed

lemma respond_ok: "menu_ok st \<Longrightarrow> menu_ok (respond env i c st)"
  by (simp add: respond_def Let_def response_ok)

lemma search_ok: "menu_ok st \<Longrightarrow> menu_ok (ac_search env v st)"
proof -
  assume ok: "menu_ok st"
  have start: "menu_ok (start_search env x s)" if "menu_ok s" for x s
  proof -
    let ?s = "s\<lparr>pending := pending s + 1, loading := True, cancelSearch := False, requestIndex := Suc (requestIndex s), waiting := waiting s @ [Suc (requestIndex s)]\<rparr>"
    have s: "menu_ok ?s" using that by (auto simp: menu_ok_def)
    then have "menu_ok (abort env ?s)" by (simp add: abort_def respond_ok split: option.split del: menu_ok_updates)
    with s show ?thesis
      by (simp only: start_search_def call_source_def Let_def menu_ok_basic menu_ok_updates(18) respond_ok split: ac_source.split option.split) simp
  qed
  from ok show ?thesis by (simp add: ac_search_def Let_def ac_close_ok start split: option.split)
qed

lemma move_key_ok: "menu_ok st \<Longrightarrow> menu_ok (ac_move env d st)"
proof (cases "a_visible st")
  case True
  assume ok: "menu_ok st"
  then have "m_items (a_menu st) \<noteq> []" "active_ok (a_menu st)" using True by (auto simp: menu_ok_def)
  with ok True have "menu_ok (with_menu env KeyEvent (menu_call env d) st)" by (intro with_menu_ok) (auto simp: call_ok)
  moreover have "menu_ok (let s = restore_term env st in s\<lparr>a_menu := menu_blur False (a_menu s)\<rparr>)"
    using ok by (simp add: Let_def blur_menu_ok)
  ultimately show ?thesis using True by (simp add: ac_move_def Let_def)
qed (simp add: ac_move_def search_ok)

lemma select_ok: "menu_ok st \<Longrightarrow> m_active (a_menu st) \<noteq> None \<Longrightarrow> menu_ok (with_menu env ev (menu_select []) st)"
  by (intro with_menu_ok) (auto simp: menu_select_def collapseAll_def active_ok_def menu_ok_def Let_def)

section \<open>Every run\<close>

definition ac_inv :: "autocomplete \<Rightarrow> bool" where
  "ac_inv st \<longleftrightarrow> counted st \<and> menu_ok st"

text \<open>
  A response function is called once, as the documentation of the source asks for, and the mouse
  reaches the entries of a menu that is shown.
\<close>

fun ac_ok :: "ac_event \<Rightarrow> autocomplete \<Rightarrow> bool" where
  "ac_ok (Respond i c) st = (i \<in> set (waiting st))"
| "ac_ok (MenuEnter i) st = (a_visible st \<and> entry (a_menu st) i)"
| "ac_ok (MenuClick i) st = (a_visible st \<and> entry (a_menu st) i)"
| "ac_ok e st = True"

lemma counted_updates [simp]:
  "counted (st\<lparr>a_source := s\<rparr>) = counted st" "counted (st\<lparr>a_disabled := b\<rparr>) = counted st" "counted (st\<lparr>cancelSearch := c\<rparr>) = counted st"
  by (simp_all add: counted_def)

lemmas counted_same [simp] = traffic_basic [THEN counted_cong] traffic_updates [THEN counted_cong] traffic_with_menu [THEN counted_cong]

lemma counted_ac_search: "counted st \<Longrightarrow> counted (ac_search env v st)"
  by (simp add: ac_search_def Let_def counted_search split: option.split)

lemma counted_move: "counted st \<Longrightarrow> counted (ac_move env d st)"
  by (simp add: ac_move_def Let_def counted_ac_search)

lemma counted_key: "counted st \<Longrightarrow> counted (keyEvent env d st)"
  by (simp add: keyEvent_def counted_move)

lemma counted_keydown: "counted st \<Longrightarrow> counted (ac_keydown env k b st)"
  by (cases k) (simp_all add: ac_keydown_def Let_def searchTimeout_def counted_move counted_key)

lemma counted_keypress: "counted st \<Longrightarrow> counted (ac_keypress env k st)"
  by (cases k) (simp_all add: ac_keypress_def counted_move counted_key)

lemma counted_abort: "counted st \<Longrightarrow> counted (abort env st)"
  by (simp add: abort_def counted_respond split: option.split)

lemma counted_step: "counted st \<Longrightarrow> ac_ok e st \<Longrightarrow> counted (ac_step env e st)"
  by (cases e) (simp_all add: counted_keydown counted_keypress counted_respond counted_ac_search ac_input_def ac_blur_def
    ac_change_def searchTimeout_def Let_def menu_mousedown_def mousedown_timer_def closeOnClickOutside_def late_timer_def
    set_source_def set_disabled_def search_timer_def counted_abort split: list.split option.split)

lemma key_ok: "menu_ok st \<Longrightarrow> menu_ok (keyEvent env d st)"
  by (simp add: keyEvent_def move_key_ok)

lemma keydown_ok: "menu_ok st \<Longrightarrow> menu_ok (ac_keydown env k b st)"
  by (cases k) (simp_all add: ac_keydown_def Let_def searchTimeout_def move_key_ok key_ok select_ok ac_close_ok)

lemma keypress_ok: "menu_ok st \<Longrightarrow> menu_ok (ac_keypress env k st)"
  by (cases k) (simp_all add: ac_keypress_def move_key_ok key_ok)

lemma mouse_ok: "menu_ok st \<Longrightarrow> a_visible st \<Longrightarrow> entry (a_menu st) i \<Longrightarrow>
    menu_ok (with_menu env ev (menu_mouseenter i) st) \<and> menu_ok (with_menu env ev (menu_click i) st)"
  by (intro conjI with_menu_ok)
    (auto simp: menu_mouseenter_def menu_click_def menu_select_def collapseAll_def Let_def menu_ok_def active_ok_def entry_def split: option.split)

lemma timeout_ok: "menu_ok st \<Longrightarrow> menu_ok (with_menu env ev menu_timeout st)"
  by (intro with_menu_ok) (auto simp: menu_timeout_def menu_ok_def active_ok_def split: option.splits)

lemma menu_ok_step: "menu_ok st \<Longrightarrow> ac_ok e st \<Longrightarrow> menu_ok (ac_step env e st)"
  by (cases e) (simp_all add: keydown_ok keypress_ok respond_ok search_ok mouse_ok timeout_ok ac_close_ok ac_input_def ac_blur_def
    ac_change_def searchTimeout_def Let_def menu_mousedown_def mousedown_timer_def closeOnClickOutside_def late_timer_def
    set_source_def set_disabled_def abort_def search_timer_def split: list.split option.split)

interpretation acs: invariant_system "ac_step env" ac_ok ac_inv for env
  by unfold_locales (simp add: ac_inv_def counted_step menu_ok_step)

lemma new_inv: "ac_inv (new_autocomplete v s)"
  by (simp add: ac_inv_def counted_def menu_ok_def active_ok_def new_autocomplete_def new_menu_def refresh_items_def)

text \<open>
  C31. In every run of an autocomplete field, whatever its source, the counter of pending requests is the
  number of requests that were not answered yet, and the field is marked as loading exactly while
  there are some. The menu has an item for each suggestion, a shown menu is never empty and never
  belongs to a search that was cancelled, and the active item, if any, is one of a shown menu.
\<close>

theorem requests_accounted:
  assumes "legal (ac_step env) ac_ok es (new_autocomplete v s)" "st = fold (ac_step env) es (new_autocomplete v s)"
  shows "pending st = int (length (waiting st)) \<and> (loading st \<longleftrightarrow> waiting st \<noteq> []) \<and>
    length (m_items (a_menu st)) = length (suggestions st) \<and> (a_visible st \<longrightarrow> suggestions st \<noteq> [] \<and> \<not> cancelSearch st) \<and>
    (m_active (a_menu st) = None \<or> (a_visible st \<and> (\<exists>i < length (suggestions st). m_active (a_menu st) = Some [i])))"
proof -
  have "ac_inv st" unfolding assms(2) by (rule acs.run_inv [OF new_inv assms(1)])
  then show ?thesis by (auto simp: ac_inv_def counted_def menu_ok_def active_ok_def split: option.splits)
qed

section \<open>What is shown\<close>

definition shown :: "autocomplete \<Rightarrow> suggestion list option" where
  "shown st = (if a_visible st then Some (suggestions st) else None)"

text \<open>What a response to the last search shows.\<close>

definition shown_by :: "autocomplete \<Rightarrow> suggestion list option \<Rightarrow> suggestion list option" where
  "shown_by st content =
     (case content of
        Some items \<Rightarrow> if items \<noteq> [] \<and> \<not> a_disabled st \<and> \<not> cancelSearch st then Some (ac_normalize items) else None
      | None \<Rightarrow> None)"

definition view :: "autocomplete \<Rightarrow> bool \<times> suggestion list \<times> bool \<times> string option \<times> bool" where
  "view st = (a_visible st, suggestions st, cancelSearch st, a_term st, a_disabled st)"

text \<open>Operations of the menu that select nothing.\<close>

definition calm :: "menu \<Rightarrow> menu \<Rightarrow> bool" where
  "calm m m' \<longleftrightarrow> (\<forall>l \<in> set (drop (length (m_log m)) (m_log m')). \<forall>s. l \<noteq> MSelect s)"

lemma view_basic [simp]: "view (say l st) = view st" "view (put_value v st) = view st" "view (announce h v' st) = view st"
  "view (st\<lparr>isNewMenu := b\<rparr>) = view st" "view (st\<lparr>a_menu := m\<rparr>) = view st" "view (st\<lparr>outside := b\<rparr>) = view st"
  "view (st\<lparr>suppressKeyPress := b\<rparr>) = view st" "view (st\<lparr>suppressInput := b\<rparr>) = view st" "view (st\<lparr>suppressKeyPressRepeat := b\<rparr>) = view st"
  "view (restore_term env st) = view st"
  by (simp_all add: view_def say_def put_value_def announce_def restore_term_def)

lemma view_handler: "\<forall>s. l \<noteq> MSelect s \<Longrightarrow> view (menu_handler env ev l st) = view st"
  by (cases l) (simp_all add: menu_handler_def menufocus_def Let_def split: option.split)

lemma view_with_menu: "calm (a_menu st) (f (a_menu st)) \<Longrightarrow> view (with_menu env ev f st) = view st"
proof -
  have "\<forall>l \<in> set ls. \<forall>s. l \<noteq> MSelect s \<Longrightarrow> view (fold (menu_handler env ev) ls x) = view x" for ls x
    by (induction ls arbitrary: x) (simp_all add: view_handler)
  then show "calm (a_menu st) (f (a_menu st)) \<Longrightarrow> ?thesis" by (simp add: with_menu_def Let_def calm_def)
qed

lemma calm_refl [simp]: "calm m m"
  by (simp add: calm_def)

lemma calm_focus [simp]: "calm m (menu_focus ev s m)"
  by (auto simp: calm_def menu_focus_def menu_blur_def Let_def split: option.splits)


lemma view_suggest: "view (suggest env items st) = (True, items, cancelSearch st, a_term st, a_disabled st)"
  by (simp add: suggest_def Let_def view_with_menu menu_next_def menu_move_def) (simp add: view_def)

lemma normalize_Nil [simp]: "ac_normalize items = [] \<longleftrightarrow> items = []"
  by (cases items) (simp_all add: ac_normalize_def)

lemma response_shows: "shown (live_response env c st) = shown_by st c \<and> cancelSearch (live_response env c st) = cancelSearch st"
proof -
  have hide: "\<not> a_visible (ac_hide s)" for s by (simp add: ac_hide_def Let_def say_def)
  have "shown (base_response env c st) = shown_by st c \<and> cancelSearch (base_response env c st) = cancelSearch st"
    using hide view_suggest [of env _ "say _ st"] by (auto simp: base_response_def shown_by_def shown_def Let_def view_def say_def split: option.split)
  moreover have "shown (say l s) = shown s" "cancelSearch (say l s) = cancelSearch s" for l s by (simp_all add: shown_def say_def)
  ultimately show ?thesis by (simp add: live_response_def Let_def)
qed

lemma respond_shows: "shown (respond env i c st) = (if i = requestIndex st then shown_by st c else shown st)"
  "cancelSearch (respond env i c st) = cancelSearch st" "shown_by (respond env i c st) c' = shown_by st c'"
proof -
  let ?st = "if i = requestIndex st then live_response env c st else st"
  have "shown (respond env i c st) = shown ?st" "cancelSearch (respond env i c st) = cancelSearch ?st"
    by (simp_all add: respond_def Let_def shown_def)
  then show "shown (respond env i c st) = (if i = requestIndex st then shown_by st c else shown st)"
    and c: "cancelSearch (respond env i c st) = cancelSearch st" using response_shows by auto
  show "shown_by (respond env i c st) c' = shown_by st c'" by (cases c') (simp_all add: shown_by_def c respond_fields(7))
qed

abbreviation respond_all :: "ac_config \<Rightarrow> (nat \<times> suggestion list option) list \<Rightarrow> autocomplete \<Rightarrow> autocomplete" where
  "respond_all env rs st \<equiv> fold (\<lambda>(i, c). respond env i c) rs st"

lemma responses_shown: "distinct (map fst rs) \<Longrightarrow>
    shown (respond_all env rs st) = (case map_of rs (requestIndex st) of Some c \<Rightarrow> shown_by st c | None \<Rightarrow> shown st)"
proof (induction rs arbitrary: st)
  case (Cons r rs)
  obtain i c where r: "r = (i, c)" by fastforce
  have "i = requestIndex st \<Longrightarrow> map_of rs (requestIndex st) = None" using Cons.prems r by (simp add: map_of_eq_None_iff)
  with Cons r show ?case by (auto simp: respond_shows respond_fields split: option.split)
qed simp

lemma responses_waiting: "waiting (respond_all env rs st) = fold remove1 (map fst rs) (waiting st)"
  by (induction rs arbitrary: st) (auto simp: respond_fields)

lemma fold_remove1: "distinct xs \<Longrightarrow> set (fold remove1 is xs) = set xs - set is"
  by (induction "is" arbitrary: xs) (auto simp: distinct_remove1)

lemma responses_inv: "ac_inv st \<Longrightarrow> distinct (map fst rs) \<Longrightarrow> set (map fst rs) \<subseteq> set (waiting st) \<Longrightarrow> ac_inv (respond_all env rs st)"
proof (induction rs arbitrary: st)
  case (Cons r rs)
  obtain i c where r: "r = (i, c)" by fastforce
  have "ac_inv (respond env i c st)" using acs.inv_step [of st "Respond i c"] Cons.prems r by simp
  moreover have "set (map fst rs) \<subseteq> set (waiting (respond env i c st))"
    using Cons.prems r by (auto simp: respond_fields ac_inv_def counted_def)
  ultimately show ?case using Cons r by simp
qed simp

text \<open>
  C9. The order in which responses arrive does not matter: when requests of a field in any state are
  answered in any order, what is shown afterwards is decided by the answer to the last search alone,
  and by nothing but the state before when that one is still missing. Once all requests are answered,
  the field is no longer marked as loading.
\<close>

theorem latest_response_wins:
  assumes "legal (ac_step env) ac_ok es (new_autocomplete v s)" "st = fold (ac_step env) es (new_autocomplete v s)"
    "distinct (map fst rs)" "set (map fst rs) \<subseteq> set (waiting st)"
  shows "shown (respond_all env rs st) = (case map_of rs (requestIndex st) of Some c \<Rightarrow> shown_by st c | None \<Rightarrow> shown st) \<and>
    (loading (respond_all env rs st) \<longleftrightarrow> set (map fst rs) \<noteq> set (waiting st))"
proof -
  have inv: "ac_inv st" unfolding assms(2) by (rule acs.run_inv [OF new_inv assms(1)])
  then have "set (waiting (respond_all env rs st)) = set (waiting st) - set (map fst rs)"
    by (simp add: responses_waiting fold_remove1 ac_inv_def counted_def)
  moreover have "counted (respond_all env rs st)" using responses_inv [OF inv assms(3,4)] by (simp add: ac_inv_def)
  ultimately have "loading (respond_all env rs st) \<longleftrightarrow> set (map fst rs) \<noteq> set (waiting st)"
    using assms(4) unfolding counted_def by (metis Diff_eq_empty_iff set_empty subset_antisym subset_refl)
  then show ?thesis using responses_shown [OF assms(3)] by simp
qed

section \<open>A closed menu\<close>

text \<open>The inputs that do not ask for a search.\<close>

fun quiet :: "ac_event \<Rightarrow> bool" where
  "quiet (KeyDown k b) = (k \<in> {AOther, AEscape})"
| "quiet (KeyPress k) = (k \<in> {AOther, AEscape, AEnter, ATab})"
| "quiet SearchTimer = False"
| "quiet (CallSearch v) = False"
| "quiet (MenuEnter i) = False"
| "quiet (MenuClick i) = False"
| "quiet e = True"

definition closed :: "autocomplete \<Rightarrow> bool" where
  "closed st \<longleftrightarrow> cancelSearch st \<and> \<not> a_visible st"

lemma closed_view: "view st = view st' \<Longrightarrow> closed st = closed st'"
  by (simp add: view_def closed_def)

lemmas closed_same [simp] = view_basic [THEN closed_view]

lemma closed_updates [simp]: "closed (st\<lparr>searching := s\<rparr>) = closed st" "closed (st\<lparr>focused := b\<rparr>) = closed st"
  "closed (st\<lparr>cancelBlur := b\<rparr>) = closed st" "closed (st\<lparr>a_previous := t\<rparr>) = closed st" "closed (st\<lparr>selectedItem := i\<rparr>) = closed st"
  "closed (st\<lparr>late := ls\<rparr>) = closed st" "closed (st\<lparr>a_source := s'\<rparr>) = closed st" "closed (st\<lparr>a_disabled := b\<rparr>) = closed st"
  by (simp_all add: closed_def)

lemma closed_close [simp]: "closed (ac_close st)"
  by (simp add: closed_def ac_close_def) (simp add: ac_hide_def Let_def say_def)

lemma closed_respond: "closed st \<Longrightarrow> closed (respond env i c st)"
  using respond_shows [of env i c st] by (auto simp: closed_def shown_def shown_by_def split: if_splits option.splits)

lemma closed_step: "closed st \<Longrightarrow> quiet e \<Longrightarrow> closed (ac_step env e st)"
proof (cases e)
  case MenuTimer
  assume "closed st"
  moreover have "calm m (menu_timeout m)" for m by (simp add: calm_def menu_timeout_def menu_blur_def Let_def split: option.split)
  ultimately show ?thesis using MenuTimer view_with_menu [THEN closed_view] by simp
qed (auto simp: ac_keydown_def ac_keypress_def ac_input_def ac_blur_def ac_change_def focus_field_def searchTimeout_def Let_def
    menu_mousedown_def mousedown_timer_def closeOnClickOutside_def late_timer_def set_source_def set_disabled_def abort_def
    intro: closed_respond split: list.split option.split)

interpretation acq: invariant_system "ac_step env" "\<lambda>e _. quiet e" closed for env
  by unfold_locales (rule closed_step)

text \<open>
  A closed menu stays closed: after the menu was closed (by escape, by leaving the field, by a
  selection, a click elsewhere or a call), no late response to an earlier search and no other input
  opens it again as long as nobody asks for a search.
\<close>

theorem closed_stays_closed:
  assumes "\<forall>e \<in> set es. quiet e"
  shows "shown (fold (ac_step env) es (ac_close st)) = None"
  using acq.run_inv [OF closed_close legal_inputs [OF assms]] by (simp add: closed_def shown_def)

section \<open>Walking through the suggestions\<close>












text \<open>
  A search in a local array shows at once exactly the entries whose label, value or text contains
  the term regardless of case, in their order and with label and value completed; no request stays
  pending.
\<close>

theorem array_search_shows:
  assumes "a_source st = ArraySource array" "\<not> a_disabled st" "minLength env \<le> length v" "allow_search env v"
  shows "shown (ac_search env (Some v) st) =
      (let found = filter (\<lambda>x. sublist (to_lower v) (to_lower (filter_subject (ac_host env) x))) array
       in if found = [] then None else Some (ac_normalize found)) \<and>
    pending (ac_search env (Some v) st) = pending st"
proof -
  have "ac_search env (Some v) st = respond env (Suc (requestIndex st)) (Some (ac_filter (ac_host env) array v))
      ((say LSearch (st\<lparr>a_term := Some (a_value st)\<rparr>))\<lparr>pending := pending st + 1, loading := True, cancelSearch := False,
        requestIndex := Suc (requestIndex st), waiting := waiting st @ [Suc (requestIndex st)]\<rparr>)"
    using assms by (simp add: ac_search_def start_search_def call_source_def Let_def say_def)
  then show ?thesis using assms(2) by (simp add: respond_shows respond_fields shown_by_def ac_filter_contains Let_def say_def)
qed

section \<open>Examples\<close>

definition plain_page :: host where
  "plain_page = \<lparr>fn_call = (\<lambda>_ _. Undefined), fn_str = (\<lambda>_. []), fn_prop = (\<lambda>_ _. Undefined)\<rparr>"

definition ac_page :: ac_config where
  "ac_page = \<lparr>ac_host = plain_page, minLength = 1, autoFocus = False, isMultiLine = False, readOnly = False,
     allow_search = (\<lambda>_. True), allow_focus = (\<lambda>_. True), allow_select = (\<lambda>_. True), hasScroll = False,
     item_tops = (\<lambda>_. 0), menu_height = 0\<rparr>"

text \<open>Two searches of a server that are both still running.\<close>

definition two_searches :: "ac_event list" where
  "two_searches = [FocusField, Input ''a'', SearchTimer, Input ''ab'', SearchTimer]"

abbreviation slow_source :: ac_source where
  "slow_source \<equiv> FunSource (\<lambda>_. None)"

theorem requests_accounted_witness:
  "pending (fold (ac_step ac_page) two_searches (new_autocomplete [] slow_source)) = 2 \<and>
   loading (fold (ac_step ac_page) two_searches (new_autocomplete [] slow_source))"
proof -
  have "legal (ac_step ac_page) ac_ok two_searches (new_autocomplete [] slow_source)"
    "waiting (fold (ac_step ac_page) two_searches (new_autocomplete [] slow_source)) = [1, 2]" by code_simp+
  with requests_accounted [OF this(1) refl] show ?thesis by simp
qed

theorem latest_response_wins_witness:
  "shown (respond_all ac_page [(2, Some [SText ''abc'']), (1, Some [SText ''ant''])]
     (fold (ac_step ac_page) two_searches (new_autocomplete [] slow_source)))
   = Some [SObj [(''label'', Str ''abc''), (''value'', Str ''abc'')]]"
proof -
  let ?st = "fold (ac_step ac_page) two_searches (new_autocomplete [] slow_source)"
  let ?rs = "[(2 :: nat, Some [SText ''abc'']), (1, Some [SText ''ant''])]"
  have st: "legal (ac_step ac_page) ac_ok two_searches (new_autocomplete [] slow_source)" "waiting ?st = [1, 2]" "requestIndex ?st = 2"
    "a_disabled ?st = False" "cancelSearch ?st = False" by code_simp+
  have "distinct (map fst ?rs)" "set (map fst ?rs) \<subseteq> set (waiting ?st)" by (auto simp: st)
  from latest_response_wins [OF st(1) refl this] show ?thesis by (simp add: st shown_by_def ac_normalize_def)
qed

theorem closed_stays_closed_witness:
  "shown (fold (ac_step ac_page) [Respond 2 (Some [SText ''abc'']), MenuTimer]
     (ac_close (fold (ac_step ac_page) two_searches (new_autocomplete [] slow_source)))) = None"
  by (rule closed_stays_closed) simp

definition colours :: ac_source where
  "colours = ArraySource [SText ''Red'', SText ''Green'', SText ''Blue'']"


theorem array_search_shows_witness:
  "shown (ac_search ac_page (Some ''RE'') (new_autocomplete [] colours)) =
     Some (ac_normalize [SText ''Red'', SText ''Green''])"
proof -
  have "a_source (new_autocomplete [] colours) = ArraySource [SText ''Red'', SText ''Green'', SText ''Blue'']"
    "\<not> a_disabled (new_autocomplete [] colours)" "minLength ac_page \<le> length ''RE''" "allow_search ac_page ''RE''"
    by (simp_all add: new_autocomplete_def colours_def ac_page_def)
  note r = array_search_shows [OF this]
  have "filter (\<lambda>x. sublist (to_lower ''RE'') (to_lower (filter_subject (ac_host ac_page) x)))
      [SText ''Red'', SText ''Green'', SText ''Blue''] = [SText ''Red'', SText ''Green'']" by code_simp
  with r show ?thesis by (simp only: Let_def) simp
qed

text \<open>
  A selection does not stop the search timer. When the user types a character and chooses a suggestion
  before the delay is over, the timer finds the field unchanged and the menu closed, takes this for
  the same text typed again, and the menu opens once more.
\<close>

theorem selection_reopens:
  "let chosen = fold (ac_step ac_page) [FocusField, Input ''e'', SearchTimer, KeyDown ADown False, KeyDown AOther False, Input ''Redd'',
       KeyDown AEnter False] (new_autocomplete [] colours)
   in shown chosen = None \<and> a_value chosen = ''Red'' \<and> shown (ac_step ac_page SearchTimer chosen) \<noteq> None"
  by code_simp

end
