(* ===== verification/UI_Selectable.thy ===== *)
theory UI_Selectable
  imports UI_Number
begin

text \<open>
  The selectable widget of jQuery UI: items are selected by a click or by a lasso drawn with the
  mouse, with or without the control key. The items are numbered in document order; their boxes, which
  the browser measures, and the outermost item below the pointer are arguments. Every item has flags
  in its data and classes on its element, which the code changes separately.
\<close>

section \<open>State\<close>

record item_box =
  bx :: rat
  bY :: rat
  bw :: rat
  bh :: rat

record selectee =
  s_left :: rat
  s_top :: rat
  s_right :: rat
  s_bottom :: rat
  startselected :: bool
  selected :: bool
  selecting :: bool
  unselecting :: bool
  has_selected :: bool        \<comment> \<open>the class \<open>ui-selected\<close>\<close>
  has_selecting :: bool
  has_unselecting :: bool

datatype tolerance = Touch | Fit | OtherTolerance

datatype sel_log = SelStart | Selecting nat | Unselecting nat | Unselected nat | Selected nat | SelStop

record selectable =
  sel_autoRefresh :: bool
  sel_tolerance :: tolerance
  sel_disabled :: bool
  opos :: "rat \<times> rat"
  elementPos :: "rat \<times> rat"
  dragged :: bool
  selectees :: "selectee list"
  lasso :: "item_box option"
  sel_log :: "sel_log list"

definition each_item :: "(nat \<Rightarrow> selectee \<Rightarrow> selectee \<times> sel_log list) \<Rightarrow> selectable \<Rightarrow> selectable" where
  "each_item f st =
     (let rs = map (\<lambda>(i, s). f i s) (enumerate 0 (selectees st))
      in st\<lparr>selectees := map fst rs, sel_log := sel_log st @ concat (map snd rs)\<rparr>)"

section \<open>Operations\<close>

definition refresh_item :: "rat \<times> rat \<Rightarrow> item_box \<Rightarrow> selectee \<Rightarrow> selectee" where
  "refresh_item pos b s =
     (let l = bx b - fst pos; t = bY b - snd pos
      in s\<lparr>s_left := l, s_top := t, s_right := l + bw b, s_bottom := t + bh b, startselected := False,
           selected := has_selected s, selecting := has_selecting s, unselecting := has_unselecting s\<rparr>)"

definition sel_refresh :: "rat \<times> rat \<Rightarrow> (nat \<Rightarrow> item_box) \<Rightarrow> selectable \<Rightarrow> selectable" where
  "sel_refresh pos boxes st = each_item (\<lambda>i s. (refresh_item pos (boxes i) s, [])) (st\<lparr>elementPos := pos\<rparr>)"

definition start_item :: "bool \<Rightarrow> nat \<Rightarrow> selectee \<Rightarrow> selectee \<times> sel_log list" where
  "start_item ctrl i s =
     (if has_selected s
      then let s1 = s\<lparr>startselected := True\<rparr>
           in if ctrl then (s1, [])
              else (s1\<lparr>has_selected := False, selected := False, has_unselecting := True, unselecting := True\<rparr>, [Unselecting i])
      else (s, []))"

definition target_item :: "bool \<Rightarrow> nat \<Rightarrow> selectee \<Rightarrow> selectee \<times> sel_log list" where
  "target_item ctrl i s =
     (let doSelect = (\<not> ctrl \<or> \<not> has_selected s);
          s1 = (if doSelect then s\<lparr>has_unselecting := False, has_selecting := True\<rparr>
                else s\<lparr>has_selected := False, has_unselecting := True\<rparr>)
      in (s1\<lparr>unselecting := \<not> doSelect, selecting := doSelect, selected := doSelect\<rparr>,
          [if doSelect then Selecting i else Unselecting i]))"

definition sel_start :: "(nat \<Rightarrow> item_box) \<Rightarrow> rat \<times> rat \<Rightarrow> bool \<Rightarrow> rat \<times> rat \<Rightarrow> nat option \<Rightarrow> selectable \<Rightarrow> selectable" where
  "sel_start boxes pos ctrl p target st =
     (let st1 = st\<lparr>opos := p, elementPos := pos\<rparr>
      in if sel_disabled st1 then st1
         else
           let st2 = st1\<lparr>sel_log := sel_log st1 @ [SelStart], lasso := Some \<lparr>bx = fst p, bY = snd p, bw = 0, bh = 0\<rparr>\<rparr>;
               st3 = (if sel_autoRefresh st2 then sel_refresh pos boxes st2 else st2);
               st4 = each_item (start_item ctrl) st3
           in each_item (\<lambda>i s. if target = Some i then target_item ctrl i s else (s, [])) st4)"

definition is_hit :: "tolerance \<Rightarrow> rat \<times> rat \<Rightarrow> rat \<times> rat \<Rightarrow> rat \<times> rat \<Rightarrow> selectee \<Rightarrow> bool" where
  "is_hit tol pos c1 c2 s =
     (let l = s_left s + fst pos; r = s_right s + fst pos; t = s_top s + snd pos; b = s_bottom s + snd pos
      in case tol of
           Touch \<Rightarrow> \<not> (l > fst c2 \<or> r < fst c1 \<or> t > snd c2 \<or> b < snd c1)
         | Fit \<Rightarrow> l > fst c1 \<and> r < fst c2 \<and> t > snd c1 \<and> b < snd c2
         | OtherTolerance \<Rightarrow> False)"

definition hit_item :: "nat \<Rightarrow> selectee \<Rightarrow> selectee \<times> sel_log list" where
  "hit_item i s =
     (let s1 = (if selected s then s\<lparr>has_selected := False, selected := False\<rparr> else s);
          s2 = (if unselecting s1 then s1\<lparr>has_unselecting := False, unselecting := False\<rparr> else s1)
      in if selecting s2 then (s2, []) else (s2\<lparr>has_selecting := True, selecting := True\<rparr>, [Selecting i]))"

definition miss_item :: "bool \<Rightarrow> nat \<Rightarrow> selectee \<Rightarrow> selectee \<times> sel_log list" where
  "miss_item ctrl i s =
     (let (s1, l1) =
        (if selecting s
         then if ctrl \<and> startselected s
              then (s\<lparr>has_selecting := False, selecting := False, has_selected := True, selected := True\<rparr>, [])
              else (let s' = s\<lparr>has_selecting := False, selecting := False\<rparr>
                    in (if startselected s' then s'\<lparr>has_unselecting := True, unselecting := True\<rparr> else s', [Unselecting i]))
         else (s, []))
      in if selected s1 \<and> \<not> ctrl \<and> \<not> startselected s1
         then (s1\<lparr>has_selected := False, selected := False, has_unselecting := True, unselecting := True\<rparr>, l1 @ [Unselecting i])
         else (s1, l1))"

definition drag_item :: "bool \<Rightarrow> bool \<Rightarrow> nat \<Rightarrow> selectee \<Rightarrow> selectee \<times> sel_log list" where
  "drag_item ctrl hit i s = (if hit then hit_item i s else miss_item ctrl i s)"

definition sel_drag :: "bool \<Rightarrow> rat \<times> rat \<Rightarrow> selectable \<Rightarrow> selectable" where
  "sel_drag ctrl p st =
     (let st1 = st\<lparr>dragged := True\<rparr>
      in if sel_disabled st1 then st1
         else
           let x1 = min (fst (opos st1)) (fst p); x2 = max (fst (opos st1)) (fst p);
               y1 = min (snd (opos st1)) (snd p); y2 = max (snd (opos st1)) (snd p);
               st2 = st1\<lparr>lasso := Some \<lparr>bx = x1, bY = y1, bw = x2 - x1, bh = y2 - y1\<rparr>\<rparr>
           in each_item (\<lambda>i s. drag_item ctrl (is_hit (sel_tolerance st2) (elementPos st2) (x1, y1) (x2, y2) s) i s) st2)"

definition stop_unselecting :: "nat \<Rightarrow> selectee \<Rightarrow> selectee \<times> sel_log list" where
  "stop_unselecting i s =
     (if has_unselecting s then (s\<lparr>has_unselecting := False, unselecting := False, startselected := False\<rparr>, [Unselected i])
      else (s, []))"

definition stop_selecting :: "nat \<Rightarrow> selectee \<Rightarrow> selectee \<times> sel_log list" where
  "stop_selecting i s =
     (if has_selecting s
      then (s\<lparr>has_selecting := False, has_selected := True, selecting := False, selected := True, startselected := True\<rparr>, [Selected i])
      else (s, []))"

definition sel_stop :: "selectable \<Rightarrow> selectable" where
  "sel_stop st =
     (let st1 = each_item stop_selecting (each_item stop_unselecting (st\<lparr>dragged := False\<rparr>))
      in st1\<lparr>sel_log := sel_log st1 @ [SelStop], lasso := None\<rparr>)"

text \<open>A whole interaction: the boxes at its start, where it starts, the item there, and the moves.\<close>

record gesture =
  g_boxes :: "nat \<Rightarrow> item_box"
  g_pos :: "rat \<times> rat"
  g_ctrl :: bool
  g_start :: "rat \<times> rat"
  g_target :: "nat option"
  g_moves :: "(rat \<times> rat) list"

definition perform :: "gesture \<Rightarrow> selectable \<Rightarrow> selectable" where
  "perform g st =
     sel_stop (fold (sel_drag (g_ctrl g)) (g_moves g) (sel_start (g_boxes g) (g_pos g) (g_ctrl g) (g_start g) (g_target g) st))"

section \<open>What a gesture selects\<close>

text \<open>A box touches the lasso when they share a point, and fits when it lies inside.\<close>

definition in_span :: "rat \<times> rat \<Rightarrow> rat \<times> rat \<Rightarrow> rat \<times> rat \<Rightarrow> bool" where
  "in_span a b q \<longleftrightarrow> min (fst a) (fst b) \<le> fst q \<and> fst q \<le> max (fst a) (fst b) \<and> min (snd a) (snd b) \<le> snd q \<and> snd q \<le> max (snd a) (snd b)"

definition in_box :: "item_box \<Rightarrow> rat \<times> rat \<Rightarrow> bool" where
  "in_box b q \<longleftrightarrow> bx b \<le> fst q \<and> fst q \<le> bx b + bw b \<and> bY b \<le> snd q \<and> snd q \<le> bY b + bh b"

definition caught :: "tolerance \<Rightarrow> rat \<times> rat \<Rightarrow> rat \<times> rat \<Rightarrow> item_box \<Rightarrow> bool" where
  "caught tol a p b =
     (case tol of
        Touch \<Rightarrow> \<exists>q. in_span a p q \<and> in_box b q
      | Fit \<Rightarrow> min (fst a) (fst p) < bx b \<and> bx b + bw b < max (fst a) (fst p) \<and> min (snd a) (snd p) < bY b \<and> bY b + bh b < max (snd a) (snd p)
      | OtherTolerance \<Rightarrow> False)"

text \<open>The specification: the items selected after a gesture from those selected before.\<close>

definition gesture_selects :: "tolerance \<Rightarrow> gesture \<Rightarrow> (nat \<Rightarrow> bool) \<Rightarrow> nat \<Rightarrow> bool" where
  "gesture_selects tol g before i =
     (let hit = (\<lambda>p. caught tol (g_start g) p (g_boxes g i)); here = (g_target g = Some i)
      in if g_moves g = [] then if g_ctrl g then before i \<noteq> here else here
         else hit (last (g_moves g)) \<or> g_ctrl g \<and> before i \<and> (here \<longrightarrow> (\<exists>p \<in> set (g_moves g). hit p)))"

lemma touch_overlaps:
  assumes "bw b \<ge> 0" "bh b \<ge> 0" "s = refresh_item pos b s0"
  shows "is_hit tol pos (min (fst a) (fst p), min (snd a) (snd p)) (max (fst a) (fst p), max (snd a) (snd p)) s \<longleftrightarrow> caught tol a p b"
proof -
  let ?x1 = "min (fst a) (fst p)" and ?x2 = "max (fst a) (fst p)" and ?y1 = "min (snd a) (snd p)" and ?y2 = "max (snd a) (snd p)"
  let ?q = "(max (bx b) ?x1, max (bY b) ?y1)"
  have "\<not> (bx b > ?x2 \<or> bx b + bw b < ?x1 \<or> bY b > ?y2 \<or> bY b + bh b < ?y1) \<longleftrightarrow> (\<exists>q. in_span a p q \<and> in_box b q)"
  proof
    assume "\<not> (bx b > ?x2 \<or> bx b + bw b < ?x1 \<or> bY b > ?y2 \<or> bY b + bh b < ?y1)"
    moreover have "?x1 \<le> ?x2" "?y1 \<le> ?y2" by auto
    ultimately have "in_span a p ?q \<and> in_box b ?q" using assms(1,2) unfolding in_span_def in_box_def by auto
    then show "\<exists>q. in_span a p q \<and> in_box b q" by blast
  next
    assume "\<exists>q. in_span a p q \<and> in_box b q"
    then show "\<not> (bx b > ?x2 \<or> bx b + bw b < ?x1 \<or> bY b > ?y2 \<or> bY b + bh b < ?y1)" unfolding in_span_def in_box_def by fastforce
  qed
  then show ?thesis by (cases tol) (simp_all add: assms(3) is_hit_def refresh_item_def caught_def Let_def)
qed

section \<open>One item\<close>

text \<open>What an item is while the mouse is down: \<open>h\<close> says that it is being selected.\<close>

definition plain_phase :: "bool \<Rightarrow> selectee \<Rightarrow> bool" where
  "plain_phase h s \<longleftrightarrow> \<not> has_selected s \<and> selecting s = h \<and> has_selecting s = h \<and> unselecting s = has_unselecting s \<and> (h \<longrightarrow> \<not> has_unselecting s)"

definition ctrl_phase :: "bool \<Rightarrow> bool \<Rightarrow> bool \<Rightarrow> bool \<Rightarrow> selectee \<Rightarrow> bool" where
  "ctrl_phase b here e h s \<longleftrightarrow> startselected s = b \<and> selecting s = h \<and> has_selecting s = h \<and> unselecting s = has_unselecting s \<and>
     (h \<longrightarrow> \<not> has_unselecting s) \<and> (h \<and> b \<longrightarrow> e) \<and> (h \<and> \<not> b \<longrightarrow> \<not> has_selected s) \<and> (\<not> h \<longrightarrow> has_selected s = (b \<and> (here \<longrightarrow> e)))"

definition at_rest :: "selectee \<Rightarrow> bool" where
  "at_rest s \<longleftrightarrow> \<not> has_selecting s \<and> \<not> has_unselecting s"

definition place :: "selectee \<Rightarrow> rat \<times> rat \<times> rat \<times> rat" where
  "place s = (s_left s, s_top s, s_right s, s_bottom s)"

lemma hit_by_place: "place s = place s' \<Longrightarrow> is_hit tol pos c1 c2 s = is_hit tol pos c1 c2 s'"
  by (cases tol) (simp_all add: place_def is_hit_def Let_def)

definition begin_item :: "bool \<Rightarrow> bool \<Rightarrow> rat \<times> rat \<Rightarrow> item_box \<Rightarrow> nat \<Rightarrow> selectee \<Rightarrow> selectee" where
  "begin_item ctrl here pos b i s =
     (let s1 = fst (start_item ctrl i (refresh_item pos b s)) in if here then fst (target_item ctrl i s1) else s1)"

lemma begin_place: "place (begin_item ctrl here pos b i s) = place (refresh_item pos b s)"
  by (simp add: place_def begin_item_def start_item_def target_item_def Let_def)

lemma begin_plain: "at_rest s \<Longrightarrow> plain_phase here (begin_item False here pos b i s)"
  by (simp add: plain_phase_def at_rest_def begin_item_def start_item_def target_item_def refresh_item_def Let_def)

lemma begin_ctrl: "at_rest s \<Longrightarrow> ctrl_phase (has_selected s) here False (here \<and> \<not> has_selected s) (begin_item True here pos b i s)"
  by (simp add: ctrl_phase_def at_rest_def begin_item_def start_item_def target_item_def refresh_item_def Let_def)

lemma drag_place: "place (fst (drag_item ctrl h i s)) = place s"
  by (simp add: place_def drag_item_def hit_item_def miss_item_def Let_def)

lemma drag_plain: "plain_phase h s \<Longrightarrow> plain_phase h' (fst (drag_item False h' i s))"
  by (simp add: plain_phase_def drag_item_def hit_item_def miss_item_def Let_def)

lemma drag_ctrl: "ctrl_phase b here e h s \<Longrightarrow> ctrl_phase b here (e \<or> h') h' (fst (drag_item True h' i s))"
  by (cases h; cases h') (auto simp: ctrl_phase_def drag_item_def hit_item_def miss_item_def Let_def)

definition end_item :: "nat \<Rightarrow> selectee \<Rightarrow> selectee" where
  "end_item i s = fst (stop_selecting i (fst (stop_unselecting i s)))"

lemma end_plain: "plain_phase h s \<Longrightarrow> has_selected (end_item i s) = h \<and> at_rest (end_item i s)"
  by (simp add: plain_phase_def at_rest_def end_item_def stop_selecting_def stop_unselecting_def)

lemma end_ctrl: "ctrl_phase b here e h s \<Longrightarrow> has_selected (end_item i s) = (h \<or> b \<and> (here \<longrightarrow> e)) \<and> at_rest (end_item i s)"
  by (auto simp: ctrl_phase_def at_rest_def end_item_def stop_selecting_def stop_unselecting_def)

text \<open>The moves, as a list of hits of the item.\<close>

abbreviation drags :: "bool \<Rightarrow> nat \<Rightarrow> bool list \<Rightarrow> selectee \<Rightarrow> selectee" where
  "drags ctrl i hs s \<equiv> fold (\<lambda>h s. fst (drag_item ctrl h i s)) hs s"

lemma drags_plain: "plain_phase h s \<Longrightarrow> plain_phase (if hs = [] then h else last hs) (drags False i hs s)"
proof (induction hs arbitrary: h s)
  case (Cons a hs)
  then show ?case using drag_plain [of h s a i] by (cases hs) simp_all
qed simp

lemma drags_ctrl: "ctrl_phase b here e h s \<Longrightarrow>
    ctrl_phase b here (e \<or> True \<in> set hs) (if hs = [] then h else last hs) (drags True i hs s)"
proof (induction hs arbitrary: e h s)
  case (Cons a hs)
  then show ?case using drag_ctrl [of b here e h s a i] Cons.IH [of "e \<or> a" a] by (cases hs; cases a) (auto simp: ac_simps)
qed simp

lemma drags_place: "place (drags ctrl i hs s) = place s"
  by (induction hs arbitrary: s) (simp_all add: drag_place)

lemma item_selected:
  assumes "at_rest s" "s' = end_item i (drags ctrl i hs (begin_item ctrl here pos b i s))"
  shows "at_rest s' \<and> (has_selected s' \<longleftrightarrow>
    (if hs = [] then if ctrl then has_selected s \<noteq> here else here
     else last hs \<or> ctrl \<and> has_selected s \<and> (here \<longrightarrow> True \<in> set hs)))"
proof (cases ctrl)
  case True
  show ?thesis using end_ctrl [OF drags_ctrl [OF begin_ctrl [OF assms(1)]]] assms(2) True by auto
next
  case False
  show ?thesis using end_plain [OF drags_plain [OF begin_plain [OF assms(1)]]] assms(2) False by auto
qed

section \<open>All items\<close>

lemma each_item_nth: "length (selectees (each_item f st)) = length (selectees st)"
  "i < length (selectees st) \<Longrightarrow> selectees (each_item f st) ! i = fst (f i (selectees st ! i))"
  by (simp_all add: each_item_def Let_def nth_enumerate_eq)

lemma each_item_fields [simp]: "sel_autoRefresh (each_item f st) = sel_autoRefresh st" "sel_tolerance (each_item f st) = sel_tolerance st"
  "sel_disabled (each_item f st) = sel_disabled st" "opos (each_item f st) = opos st" "elementPos (each_item f st) = elementPos st"
  by (simp_all add: each_item_def Let_def)

definition same_frame :: "selectable \<Rightarrow> selectable \<Rightarrow> bool" where
  "same_frame st st' \<longleftrightarrow> sel_autoRefresh st' = sel_autoRefresh st \<and> sel_tolerance st' = sel_tolerance st \<and>
     sel_disabled st' = sel_disabled st \<and> length (selectees st') = length (selectees st)"

lemma start_items:
  assumes "\<not> sel_disabled st" "sel_autoRefresh st" "st' = sel_start boxes pos ctrl p target st"
  shows "same_frame st st' \<and> opos st' = p \<and> elementPos st' = pos \<and>
    (\<forall>i < length (selectees st). selectees st' ! i = begin_item ctrl (target = Some i) pos (boxes i) i (selectees st ! i))"
  using assms(1,2) unfolding assms(3)
  by (auto simp: sel_start_def sel_refresh_def same_frame_def each_item_nth begin_item_def Let_def)

text \<open>The hits of an item by the lassos of a list of moves.\<close>

definition hits :: "tolerance \<Rightarrow> rat \<times> rat \<Rightarrow> rat \<times> rat \<Rightarrow> (rat \<times> rat) list \<Rightarrow> selectee \<Rightarrow> bool list" where
  "hits tol pos a ps s = map (\<lambda>p. is_hit tol pos (min (fst a) (fst p), min (snd a) (snd p)) (max (fst a) (fst p), max (snd a) (snd p)) s) ps"

lemma hits_place: "place s = place s' \<Longrightarrow> hits tol pos a ps s = hits tol pos a ps s'"
  unfolding hits_def by (intro map_cong refl hit_by_place)

lemma drag_items: "\<not> sel_disabled st \<Longrightarrow> same_frame st (sel_drag ctrl p st) \<and> opos (sel_drag ctrl p st) = opos st \<and>
    elementPos (sel_drag ctrl p st) = elementPos st \<and>
    (\<forall>i < length (selectees st). selectees (sel_drag ctrl p st) ! i =
       drags ctrl i (hits (sel_tolerance st) (elementPos st) (opos st) [p] (selectees st ! i)) (selectees st ! i))"
  by (auto simp: sel_drag_def same_frame_def each_item_nth hits_def Let_def)

lemma moves_items:
  assumes "\<not> sel_disabled st" "i < length (selectees st)" "st' = fold (sel_drag ctrl) ps st"
  shows "same_frame st st' \<and> selectees st' ! i =
    drags ctrl i (hits (sel_tolerance st) (elementPos st) (opos st) ps (selectees st ! i)) (selectees st ! i)"
  using assms
proof (induction ps arbitrary: st st')
  case (Cons p ps)
  let ?st = "sel_drag ctrl p st"
  note d = drag_items [OF Cons.prems(1), of ctrl p]
  have "same_frame ?st st' \<and> selectees st' ! i = drags ctrl i (hits (sel_tolerance ?st) (elementPos ?st) (opos ?st) ps (selectees ?st ! i)) (selectees ?st ! i)"
    by (rule Cons.IH) (use Cons.prems d in \<open>auto simp: same_frame_def\<close>)
  moreover have "hits (sel_tolerance st) (elementPos st) (opos st) ps (selectees ?st ! i) = hits (sel_tolerance st) (elementPos st) (opos st) ps (selectees st ! i)"
    using d Cons.prems(2) by (intro hits_place) (auto simp: drags_place)
  moreover have "hits tol pos a (p # ps) s = hits tol pos a [p] s @ hits tol pos a ps s" for tol pos a s by (simp add: hits_def)
  ultimately show ?case using d Cons.prems(2) by (simp add: same_frame_def fold_append del: append_Cons append_Nil)
qed (simp add: same_frame_def hits_def)

lemma stop_items: "same_frame st (sel_stop st) \<and> (\<forall>i < length (selectees st). selectees (sel_stop st) ! i = end_item i (selectees st ! i))"
  by (auto simp: sel_stop_def same_frame_def each_item_nth end_item_def Let_def)

definition ready :: "selectable \<Rightarrow> bool" where
  "ready st \<longleftrightarrow> sel_autoRefresh st \<and> \<not> sel_disabled st \<and> (\<forall>i < length (selectees st). at_rest (selectees st ! i))"

definition is_selected :: "selectable \<Rightarrow> nat \<Rightarrow> bool" where
  "is_selected st i \<longleftrightarrow> i < length (selectees st) \<and> has_selected (selectees st ! i)"

definition measured :: "gesture \<Rightarrow> bool" where
  "measured g \<longleftrightarrow> (\<forall>i. 0 \<le> bw (g_boxes g i) \<and> 0 \<le> bh (g_boxes g i))"

lemma perform_item:
  assumes "ready st" "measured g" "i < length (selectees st)"
  shows "same_frame st (perform g st) \<and> at_rest (selectees (perform g st) ! i) \<and>
    (has_selected (selectees (perform g st) ! i) \<longleftrightarrow> gesture_selects (sel_tolerance st) g (is_selected st) i)"
proof -
  let ?s = "selectees st ! i" and ?b = "begin_item (g_ctrl g) (g_target g = Some i) (g_pos g) (g_boxes g i) i"
  define st1 where "st1 = sel_start (g_boxes g) (g_pos g) (g_ctrl g) (g_start g) (g_target g) st"
  define st2 where "st2 = fold (sel_drag (g_ctrl g)) (g_moves g) st1"
  define hs where "hs = map (\<lambda>p. caught (sel_tolerance st) (g_start g) p (g_boxes g i)) (g_moves g)"
  have s1: "same_frame st st1" "opos st1 = g_start g" "elementPos st1 = g_pos g" "selectees st1 ! i = ?b ?s"
    using start_items [OF _ _ st1_def] assms(1,3) by (auto simp: ready_def)
  have h: "hits (sel_tolerance st1) (elementPos st1) (opos st1) (g_moves g) (selectees st1 ! i) = hs"
  proof -
    have "hits (sel_tolerance st) (g_pos g) (g_start g) (g_moves g) (?b ?s) =
        hits (sel_tolerance st) (g_pos g) (g_start g) (g_moves g) (refresh_item (g_pos g) (g_boxes g i) ?s)"
      by (rule hits_place) (rule begin_place)
    also have "\<dots> = hs" using assms(2) by (simp add: hits_def hs_def measured_def touch_overlaps [OF _ _ refl])
    finally show ?thesis using s1 by (simp add: same_frame_def)
  qed
  have s2: "same_frame st1 st2" "selectees st2 ! i = drags (g_ctrl g) i hs (?b ?s)"
    using moves_items [OF _ _ st2_def, of i] s1 assms(1,3) h by (auto simp: ready_def same_frame_def)
  have "perform g st = sel_stop st2" by (simp add: perform_def st1_def st2_def)
  with s1(1) s2 stop_items [of st2] assms(3) have s3: "same_frame st (perform g st)"
    "selectees (perform g st) ! i = end_item i (drags (g_ctrl g) i hs (?b ?s))" by (auto simp: same_frame_def)
  have "at_rest ?s" using assms(1,3) by (simp add: ready_def)
  from item_selected [OF this s3(2)] s3(1) assms(3) show ?thesis
    by (auto simp: gesture_selects_def hs_def is_selected_def Let_def last_map)
qed

definition select_step :: "tolerance \<Rightarrow> nat \<Rightarrow> gesture \<Rightarrow> (nat \<Rightarrow> bool) \<Rightarrow> nat \<Rightarrow> bool" where
  "select_step tol n g before i \<longleftrightarrow> i < n \<and> gesture_selects tol g before i"

lemma perform_frame: "ready st \<Longrightarrow> measured g \<Longrightarrow> same_frame st (perform g st)"
proof -
  assume r: "ready st" and "measured g"
  let ?st = "sel_start (g_boxes g) (g_pos g) (g_ctrl g) (g_start g) (g_target g) st"
  have "same_frame st ?st" using start_items [OF _ _ refl] r by (simp add: ready_def)
  moreover have "\<not> sel_disabled x \<Longrightarrow> same_frame x (fold (sel_drag c) ps x)" for x c ps
  proof (induction ps arbitrary: x)
    case (Cons p ps)
    then show ?case using drag_items [OF Cons.prems, of c p] Cons.IH [of "sel_drag c p x"] by (auto simp: same_frame_def)
  qed (simp add: same_frame_def)
  ultimately show ?thesis using stop_items r by (fastforce simp: perform_def same_frame_def ready_def)
qed

interpretation lassos: simulation perform "\<lambda>g _. measured g" "\<lambda>st. ready st \<and> sel_tolerance st = tol \<and> length (selectees st) = n"
  "select_step tol n" is_selected for tol n
proof unfold_locales
  fix st g
  assume r: "ready st \<and> sel_tolerance st = tol \<and> length (selectees st) = n" and m: "measured g"
  let ?st = "perform g st"
  have f: "same_frame st ?st" using perform_frame r m by blast
  have p: "at_rest (selectees ?st ! i) \<and> (has_selected (selectees ?st ! i) \<longleftrightarrow> gesture_selects tol g (is_selected st) i)" if "i < n" for i
    using perform_item [of st g i] r m that by blast
  from f r have n: "length (selectees ?st) = n" "sel_tolerance ?st = tol" "sel_autoRefresh ?st" "\<not> sel_disabled ?st"
    by (simp_all add: same_frame_def ready_def)
  then show "ready ?st \<and> sel_tolerance ?st = tol \<and> length (selectees ?st) = n" using p by (simp add: ready_def)
  show "is_selected ?st = select_step tol n g (is_selected st)"
  proof
    show "is_selected ?st i = select_step tol n g (is_selected st) i" for i
      using p [of i] by (cases "i < n") (simp_all add: is_selected_def [of ?st] select_step_def n(1))
  qed
qed

text \<open>
  C18. A selectable list refines its specification, over every sequence of gestures: a click selects the
  item below it alone, a lasso selects exactly the items that it touches (or contains) when the
  button is released, whatever it touched on its way; with the control key a click toggles one item
  and a lasso adds to the selection.
\<close>

theorem gestures_select:
  assumes "ready st" "\<forall>g \<in> set gs. measured g"
  shows "is_selected (fold perform gs st) =
    fold (\<lambda>g before i. i < length (selectees st) \<and> gesture_selects (sel_tolerance st) g before i) gs (is_selected st)"
proof -
  have "is_selected (fold perform gs st) = fold (select_step (sel_tolerance st) (length (selectees st))) gs (is_selected st)"
    by (rule lassos.run_abs [OF _ legal_inputs [OF assms(2)]]) (use assms(1) in simp)
  moreover have "select_step tol n = (\<lambda>g before i. i < n \<and> gesture_selects tol g before i)" for tol n
    by (simp add: fun_eq_iff select_step_def)
  ultimately show ?thesis by simp
qed

text \<open>Three items of a column, and two gestures: a lasso over the first two, then a click with control.\<close>

definition column_box :: "nat \<Rightarrow> item_box" where
  "column_box i = \<lparr>bx = 0, bY = 20 * of_nat i, bw = 100, bh = 20\<rparr>"

definition fresh_selectee :: selectee where
  "fresh_selectee = \<lparr>s_left = 0, s_top = 0, s_right = 0, s_bottom = 0, startselected = False, selected = False, selecting = False,
     unselecting = False, has_selected = False, has_selecting = False, has_unselecting = False\<rparr>"

definition demo_column :: "tolerance \<Rightarrow> selectable" where
  "demo_column tol = \<lparr>sel_autoRefresh = True, sel_tolerance = tol, sel_disabled = False, opos = (0, 0), elementPos = (0, 0), dragged = False,
     selectees = [fresh_selectee, fresh_selectee, fresh_selectee], lasso = None, sel_log = []\<rparr>"

definition draw :: gesture where
  "draw = \<lparr>g_boxes = column_box, g_pos = (0, 0), g_ctrl = False, g_start = (5, 5), g_target = Some 0, g_moves = [(9, 50), (9, 30)]\<rparr>"

definition tick :: gesture where
  "tick = \<lparr>g_boxes = column_box, g_pos = (0, 0), g_ctrl = True, g_start = (5, 30), g_target = Some 1, g_moves = []\<rparr>"

theorem gestures_select_witness:
  "let after = fold (\<lambda>g before i. i < 3 \<and> gesture_selects Touch g before i) [draw, tick] (\<lambda>_. False) in after 0 \<and> \<not> after 1 \<and> \<not> after 2"
proof -
  have r: "ready (demo_column Touch)" by (auto simp: ready_def demo_column_def at_rest_def fresh_selectee_def less_Suc_eq)
  have m: "\<forall>g \<in> set [draw, tick]. measured g" by (simp add: measured_def draw_def tick_def column_box_def)
  have c: "is_selected (demo_column Touch) = (\<lambda>_. False)" "length (selectees (demo_column Touch)) = 3" "sel_tolerance (demo_column Touch) = Touch"
    by (auto simp: fun_eq_iff is_selected_def demo_column_def fresh_selectee_def nth_Cons' split: if_splits)
  have "is_selected (fold perform [draw, tick] (demo_column Touch)) 0" "\<not> is_selected (fold perform [draw, tick] (demo_column Touch)) 1"
    "\<not> is_selected (fold perform [draw, tick] (demo_column Touch)) 2" by code_simp+
  then show ?thesis unfolding gestures_select [OF r m] c Let_def by blast
qed

text \<open>
  With tolerance \<open>fit\<close> the callback \<open>unselecting\<close> is called twice in one move for the item the lasso
  starts on: its flag \<open>selected\<close> was set at the start although it is only being selected, and the item
  is reported as unselected at the end although it never was selected.
\<close>

theorem unselecting_twice:
  "sel_log (sel_stop (sel_drag False (30, 10) (sel_start column_box (0, 0) False (5, 5) (Some 0) (demo_column Fit)))) =
     [SelStart, Selecting 0, Unselecting 0, Unselecting 0, Unselected 0, SelStop]"
  by code_simp

end
