(* ===== verification/UI_Droppable.thy ===== *)
theory UI_Droppable
  imports UI_Number
begin

text \<open>
  Droppables of jQuery UI and the manager that tells them about drags: the intersection test, the
  registration by scope, the offsets, entering and leaving, greedy children and the drop. A droppable
  is named by its element; the tree of the elements, their places and sizes and the class of the one
  being dragged are what the browser says, and arguments.
\<close>

section \<open>State\<close>

datatype drop_tolerance = TFit | TIntersect | TPointer | TTouch | TOther

record droppable =
  dp_accept :: "nat \<Rightarrow> bool"
  dp_greedy :: bool
  dp_disabled :: bool
  dp_scope :: string
  dp_tolerance :: drop_tolerance
  isover :: bool
  isout :: bool
  dp_visible :: bool
  dp_offset :: "(rat \<times> rat) option"
  proportions :: "(rat \<times> rat) option"
  greedyChild :: bool
  hover :: bool           \<comment> \<open>the class \<open>ui-droppable-hover\<close>\<close>
  active :: bool          \<comment> \<open>the class \<open>ui-droppable-active\<close>\<close>

record dragged_item =
  dg_element :: nat
  dg_scope :: string
  positionAbs :: "rat \<times> rat"
  dg_margins :: "rat \<times> rat"
  helperProportions :: "rat \<times> rat"
  refreshPositions :: bool

record drop_page =
  pg_offset :: "nat \<Rightarrow> rat \<times> rat"
  pg_size :: "nat \<Rightarrow> rat \<times> rat"
  pg_shown :: "nat \<Rightarrow> bool"
  pg_inner :: "nat \<Rightarrow> nat list"       \<comment> \<open>the droppables inside of an element, in document order\<close>
  pg_outer :: "nat \<Rightarrow> nat list"       \<comment> \<open>the droppables around an element, the closest first\<close>
  pg_moving :: "nat \<Rightarrow> bool"           \<comment> \<open>has the class \<open>ui-draggable-dragged_item\<close>\<close>

datatype drop_log = Activate nat | Deactivate nat | Over nat | Out nat | Drop nat

record ddmanager =
  current :: "dragged_item option"
  droppables :: "string \<Rightarrow> nat list"
  drops :: "nat \<Rightarrow> droppable"
  dd_log :: "drop_log list"

definition upd_drop :: "nat \<Rightarrow> (droppable \<Rightarrow> droppable) \<Rightarrow> ddmanager \<Rightarrow> ddmanager" where
  "upd_drop d f w = w\<lparr>drops := (drops w)(d := f (drops w d))\<rparr>"

definition dd_trigger :: "drop_log \<Rightarrow> ddmanager \<Rightarrow> ddmanager" where
  "dd_trigger l w = w\<lparr>dd_log := dd_log w @ [l]\<rparr>"

section \<open>Registration\<close>

definition addToManager :: "string \<Rightarrow> nat \<Rightarrow> ddmanager \<Rightarrow> ddmanager" where
  "addToManager scope d w = w\<lparr>droppables := (droppables w)(scope := droppables w scope @ [d])\<rparr>"

text \<open>The loop goes on after the element that slides into the place of a removed one.\<close>

fun splice_from :: "nat \<Rightarrow> nat list \<Rightarrow> nat list" where
  "splice_from d [] = []"
| "splice_from d (x # xs) = (if x = d then (case xs of [] \<Rightarrow> [] | y # ys \<Rightarrow> y # splice_from d ys) else x # splice_from d xs)"

definition dd_splice :: "string \<Rightarrow> nat \<Rightarrow> ddmanager \<Rightarrow> ddmanager" where
  "dd_splice scope d w = w\<lparr>droppables := (droppables w)(scope := splice_from d (droppables w scope))\<rparr>"

definition drop_create :: "nat \<Rightarrow> droppable \<Rightarrow> ddmanager \<Rightarrow> ddmanager" where
  "drop_create d o' w =
     addToManager (dp_scope o') d
       (upd_drop d (\<lambda>_. o'\<lparr>isover := False, isout := True, dp_visible := False, dp_offset := None, proportions := None, greedyChild := False\<rparr>) w)"

definition drop_destroy :: "nat \<Rightarrow> ddmanager \<Rightarrow> ddmanager" where
  "drop_destroy d w = dd_splice (dp_scope (drops w d)) d w"

definition set_scope :: "string \<Rightarrow> nat \<Rightarrow> ddmanager \<Rightarrow> ddmanager" where
  "set_scope scope d w = upd_drop d (\<lambda>o'. o'\<lparr>dp_scope := scope\<rparr>) (addToManager scope d (dd_splice (dp_scope (drops w d)) d w))"

definition set_accept :: "(nat \<Rightarrow> bool) \<Rightarrow> nat \<Rightarrow> ddmanager \<Rightarrow> ddmanager" where
  "set_accept f d w = upd_drop d (\<lambda>o'. o'\<lparr>dp_accept := f\<rparr>) w"

section \<open>Intersection\<close>

definition isOverAxis :: "rat \<Rightarrow> rat \<Rightarrow> rat \<Rightarrow> bool" where
  "isOverAxis x reference extent \<longleftrightarrow> x \<ge> reference \<and> x < reference + extent"

text \<open>\<open>proportions()\<close> derives the size when none is stored.\<close>

definition drop_size :: "drop_page \<Rightarrow> nat \<Rightarrow> droppable \<Rightarrow> rat \<times> rat" where
  "drop_size pg d o' = (case proportions o' of Some s \<Rightarrow> s | None \<Rightarrow> pg_size pg d)"

definition intersect :: "dragged_item \<Rightarrow> (rat \<times> rat) option \<Rightarrow> rat \<times> rat \<Rightarrow> drop_tolerance \<Rightarrow> rat \<times> rat \<Rightarrow> bool" where
  "intersect dg off sz mode pointer =
     (case off of
        None \<Rightarrow> False
      | Some (l, t) \<Rightarrow>
          let x1 = fst (positionAbs dg) + fst (dg_margins dg); y1 = snd (positionAbs dg) + snd (dg_margins dg);
              w = fst (helperProportions dg); h = snd (helperProportions dg);
              x2 = x1 + w; y2 = y1 + h; r = l + fst sz; b = t + snd sz
          in case mode of
               TFit \<Rightarrow> l \<le> x1 \<and> x2 \<le> r \<and> t \<le> y1 \<and> y2 \<le> b
             | TIntersect \<Rightarrow> l < x1 + w / 2 \<and> x2 - w / 2 < r \<and> t < y1 + h / 2 \<and> y2 - h / 2 < b
             | TPointer \<Rightarrow> isOverAxis (snd pointer) t (snd sz) \<and> isOverAxis (fst pointer) l (fst sz)
             | TTouch \<Rightarrow> (y1 \<ge> t \<and> y1 \<le> b \<or> y2 \<ge> t \<and> y2 \<le> b \<or> y1 < t \<and> y2 > b) \<and>
                          (x1 \<ge> l \<and> x1 \<le> r \<or> x2 \<ge> l \<and> x2 \<le> r \<or> x1 < l \<and> x2 > r)
             | TOther \<Rightarrow> False)"

definition intersects :: "drop_page \<Rightarrow> dragged_item \<Rightarrow> rat \<times> rat \<Rightarrow> nat \<Rightarrow> droppable \<Rightarrow> bool" where
  "intersects pg dg pointer d o' = intersect dg (dp_offset o') (drop_size pg d o') (dp_tolerance o') pointer"

section \<open>What a droppable is told\<close>

definition drop_activate :: "nat \<Rightarrow> ddmanager \<Rightarrow> ddmanager" where
  "drop_activate d w =
     (let w1 = upd_drop d (\<lambda>o'. o'\<lparr>active := True\<rparr>) w in if current w1 \<noteq> None then dd_trigger (Activate d) w1 else w1)"

definition drop_deactivate :: "nat \<Rightarrow> ddmanager \<Rightarrow> ddmanager" where
  "drop_deactivate d w =
     (let w1 = upd_drop d (\<lambda>o'. o'\<lparr>active := False\<rparr>) w in if current w1 \<noteq> None then dd_trigger (Deactivate d) w1 else w1)"

definition drop_over :: "nat \<Rightarrow> ddmanager \<Rightarrow> ddmanager" where
  "drop_over d w =
     (case current w of
        None \<Rightarrow> w
      | Some dg \<Rightarrow>
          if dg_element dg = d then w
          else if dp_accept (drops w d) (dg_element dg) then dd_trigger (Over d) (upd_drop d (\<lambda>o'. o'\<lparr>hover := True\<rparr>) w)
          else w)"

definition drop_out :: "nat \<Rightarrow> ddmanager \<Rightarrow> ddmanager" where
  "drop_out d w =
     (case current w of
        None \<Rightarrow> w
      | Some dg \<Rightarrow>
          if dg_element dg = d then w
          else if dp_accept (drops w d) (dg_element dg) then dd_trigger (Out d) (upd_drop d (\<lambda>o'. o'\<lparr>hover := False\<rparr>) w)
          else w)"

text \<open>
  The search of \<open>_drop\<close> for a greedy droppable inside that takes the drop. The offset of a candidate is
  measured anew and stored, and so is its size when there is none yet.
\<close>

fun greedy_inside :: "drop_page \<Rightarrow> dragged_item \<Rightarrow> rat \<times> rat \<Rightarrow> nat list \<Rightarrow> ddmanager \<Rightarrow> bool \<times> ddmanager" where
  "greedy_inside pg dg pointer [] w = (False, w)"
| "greedy_inside pg dg pointer (d # ds) w =
     (let o' = drops w d
      in if dp_greedy o' \<and> \<not> dp_disabled o' \<and> dp_scope o' = dg_scope dg \<and> dp_accept o' (dg_element dg)
         then let w1 = upd_drop d (\<lambda>o'. o'\<lparr>dp_offset := Some (pg_offset pg d), proportions := Some (drop_size pg d o')\<rparr>) w
              in if intersects pg dg pointer d (drops w1 d) then (True, w1) else greedy_inside pg dg pointer ds w1
         else greedy_inside pg dg pointer ds w)"

definition drop_on :: "drop_page \<Rightarrow> dragged_item option \<Rightarrow> rat \<times> rat \<Rightarrow> nat \<Rightarrow> ddmanager \<Rightarrow> bool \<times> ddmanager" where
  "drop_on pg custom pointer d w =
     (case (if custom \<noteq> None then custom else current w) of
        None \<Rightarrow> (False, w)
      | Some dg \<Rightarrow>
          if dg_element dg = d then (False, w)
          else
            let (found, w1) = greedy_inside pg dg pointer (filter (\<lambda>e. \<not> pg_moving pg e) (pg_inner pg d)) w
            in if found then (False, w1)
               else if dp_accept (drops w1 d) (dg_element dg)
               then (True, dd_trigger (Drop d) (upd_drop d (\<lambda>o'. o'\<lparr>active := False, hover := False\<rparr>) w1))
               else (False, w1))"

section \<open>The manager\<close>

definition prepare_one :: "drop_page \<Rightarrow> bool \<Rightarrow> dragged_item \<Rightarrow> nat \<Rightarrow> ddmanager \<Rightarrow> ddmanager" where
  "prepare_one pg mousedown dg d w =
     (let o' = drops w d
      in if dp_disabled o' \<or> \<not> dp_accept o' (dg_element dg) then w
         else if d \<in> set (pg_inner pg (dg_element dg)) \<or> d = dg_element dg
         then upd_drop d (\<lambda>o'. o'\<lparr>proportions := Some (fst (drop_size pg d o'), 0)\<rparr>) w
         else
           let w1 = upd_drop d (\<lambda>o'. o'\<lparr>dp_visible := pg_shown pg d\<rparr>) w
           in if \<not> pg_shown pg d then w1
              else
                let w2 = (if mousedown then drop_activate d w1 else w1)
                in upd_drop d (\<lambda>o'. o'\<lparr>dp_offset := Some (pg_offset pg d), proportions := Some (pg_size pg d)\<rparr>) w2)"

definition prepareOffsets :: "drop_page \<Rightarrow> bool \<Rightarrow> dragged_item \<Rightarrow> ddmanager \<Rightarrow> ddmanager" where
  "prepareOffsets pg mousedown dg w = fold (prepare_one pg mousedown dg) (droppables w (dg_scope dg)) w"

definition drop_one :: "drop_page \<Rightarrow> dragged_item \<Rightarrow> rat \<times> rat \<Rightarrow> nat \<Rightarrow> bool \<times> ddmanager \<Rightarrow> bool \<times> ddmanager" where
  "drop_one pg dg pointer d = (\<lambda>(dropped, w).
     (let (dropped1, w1) =
        (if \<not> dp_disabled (drops w d) \<and> dp_visible (drops w d) \<and> intersects pg dg pointer d (drops w d)
         then let (r, w') = drop_on pg None pointer d w in (r \<or> dropped, w') else (dropped, w))
      in if \<not> dp_disabled (drops w1 d) \<and> dp_visible (drops w1 d) \<and> dp_accept (drops w1 d) (dg_element dg)
         then (dropped1, drop_deactivate d (upd_drop d (\<lambda>o'. o'\<lparr>isout := True, isover := False\<rparr>) w1))
         else (dropped1, w1)))"

definition dd_drop :: "drop_page \<Rightarrow> dragged_item \<Rightarrow> rat \<times> rat \<Rightarrow> ddmanager \<Rightarrow> bool \<times> ddmanager" where
  "dd_drop pg dg pointer w = fold (drop_one pg dg pointer) (droppables w (dg_scope dg)) (False, w)"

definition enter :: "nat \<Rightarrow> ddmanager \<Rightarrow> ddmanager" where
  "enter d w = drop_over d (upd_drop d (\<lambda>o'. o'\<lparr>isover := True, isout := False\<rparr>) w)"

definition leave :: "nat \<Rightarrow> ddmanager \<Rightarrow> ddmanager" where
  "leave d w = drop_out d (upd_drop d (\<lambda>o'. o'\<lparr>isover := False, isout := True\<rparr>) w)"

definition greedy_parent :: "drop_page \<Rightarrow> nat \<Rightarrow> ddmanager \<Rightarrow> nat option" where
  "greedy_parent pg d w =
     (if dp_greedy (drops w d)
      then (case filter (\<lambda>p. dp_scope (drops w p) = dp_scope (drops w d)) (pg_outer pg d) of p # _ \<Rightarrow> Some p | [] \<Rightarrow> None)
      else None)"

definition drag_one :: "drop_page \<Rightarrow> dragged_item \<Rightarrow> rat \<times> rat \<Rightarrow> nat \<Rightarrow> ddmanager \<Rightarrow> ddmanager" where
  "drag_one pg dg pointer d w =
     (let o' = drops w d
      in if dp_disabled o' \<or> greedyChild o' \<or> \<not> dp_visible o' then w
         else
           let hit = intersects pg dg pointer d o'
           in if \<not> hit \<and> isover o'
              then (case greedy_parent pg d w of
                      None \<Rightarrow> leave d w
                    | Some p \<Rightarrow> enter p (leave d (upd_drop p (\<lambda>q. q\<lparr>greedyChild := False\<rparr>) w)))
              else if hit \<and> \<not> isover o'
              then (case greedy_parent pg d w of
                      None \<Rightarrow> enter d w
                    | Some p \<Rightarrow> enter d (leave p (upd_drop p (\<lambda>q. q\<lparr>greedyChild := True\<rparr>) w)))
              else w)"

definition dd_drag :: "drop_page \<Rightarrow> dragged_item \<Rightarrow> rat \<times> rat \<Rightarrow> ddmanager \<Rightarrow> ddmanager" where
  "dd_drag pg dg pointer w =
     (let w1 = (if refreshPositions dg then prepareOffsets pg False dg w else w)
      in fold (drag_one pg dg pointer) (droppables w1 (dg_scope dg)) w1)"

definition dd_dragStop :: "drop_page \<Rightarrow> dragged_item \<Rightarrow> ddmanager \<Rightarrow> ddmanager" where
  "dd_dragStop pg dg w = (if refreshPositions dg then w else prepareOffsets pg False dg w)"

section \<open>The tests are the geometry they stand for\<close>

definition in_helper :: "dragged_item \<Rightarrow> rat \<times> rat \<Rightarrow> bool" where
  "in_helper dg q \<longleftrightarrow>
     (let x1 = fst (positionAbs dg) + fst (dg_margins dg); y1 = snd (positionAbs dg) + snd (dg_margins dg)
      in x1 \<le> fst q \<and> fst q \<le> x1 + fst (helperProportions dg) \<and> y1 \<le> snd q \<and> snd q \<le> y1 + snd (helperProportions dg))"

definition in_target :: "rat \<times> rat \<Rightarrow> rat \<times> rat \<Rightarrow> rat \<times> rat \<Rightarrow> bool" where
  "in_target off sz q \<longleftrightarrow> fst off \<le> fst q \<and> fst q \<le> fst off + fst sz \<and> snd off \<le> snd q \<and> snd q \<le> snd off + snd sz"

definition strictly_in :: "rat \<times> rat \<Rightarrow> rat \<times> rat \<Rightarrow> rat \<times> rat \<Rightarrow> bool" where
  "strictly_in off sz q \<longleftrightarrow> fst off < fst q \<and> fst q < fst off + fst sz \<and> snd off < snd q \<and> snd q < snd off + snd sz"

definition helper_centre :: "dragged_item \<Rightarrow> rat \<times> rat" where
  "helper_centre dg = (fst (positionAbs dg) + fst (dg_margins dg) + fst (helperProportions dg) / 2,
                       snd (positionAbs dg) + snd (dg_margins dg) + snd (helperProportions dg) / 2)"

lemma overlap_axis: "0 \<le> w \<Longrightarrow> 0 \<le> s \<Longrightarrow>
    (x \<ge> l \<and> x \<le> l + s \<or> x + w \<ge> l \<and> x + w \<le> l + s \<or> x < l \<and> x + w > l + s) \<longleftrightarrow> (\<exists>q. x \<le> q \<and> q \<le> x + w \<and> l \<le> q \<and> q \<le> l + s)"
  for x w l s :: rat
proof
  assume "0 \<le> w" "0 \<le> s" "x \<ge> l \<and> x \<le> l + s \<or> x + w \<ge> l \<and> x + w \<le> l + s \<or> x < l \<and> x + w > l + s"
  then have "x \<le> max x l \<and> max x l \<le> x + w \<and> l \<le> max x l \<and> max x l \<le> l + s" by auto
  then show "\<exists>q. x \<le> q \<and> q \<le> x + w \<and> l \<le> q \<and> q \<le> l + s" by blast
qed auto

lemma within_axis: "0 \<le> w \<Longrightarrow> (l \<le> x \<and> x + w \<le> r) \<longleftrightarrow> (\<forall>q. x \<le> q \<and> q \<le> x + w \<longrightarrow> l \<le> q \<and> q \<le> r)"
  for x w l r :: rat
  by (auto dest: spec [of _ x] spec [of _ "x + w"])

text \<open>
  The intersection tests decide what their names say: \<open>fit\<close> that every point of the helper lies in the
  droppable, \<open>touch\<close> that they share a point, \<open>intersect\<close> that the centre of the helper is inside, and
  \<open>pointer\<close> that the pointer is.
\<close>

theorem intersect_geometry:
  assumes "0 \<le> fst (helperProportions dg)" "0 \<le> snd (helperProportions dg)" "0 \<le> fst sz" "0 \<le> snd sz"
  shows "intersect dg (Some off) sz mode pointer \<longleftrightarrow>
    (case mode of
       TFit \<Rightarrow> \<forall>q. in_helper dg q \<longrightarrow> in_target off sz q
     | TIntersect \<Rightarrow> strictly_in off sz (helper_centre dg)
     | TPointer \<Rightarrow> fst off \<le> fst pointer \<and> fst pointer < fst off + fst sz \<and> snd off \<le> snd pointer \<and> snd pointer < snd off + snd sz
     | TTouch \<Rightarrow> \<exists>q. in_helper dg q \<and> in_target off sz q
     | TOther \<Rightarrow> False)"
proof -
  obtain l t where off: "off = (l, t)" by fastforce
  let ?x = "fst (positionAbs dg) + fst (dg_margins dg)" and ?y = "snd (positionAbs dg) + snd (dg_margins dg)"
  let ?w = "fst (helperProportions dg)" and ?h = "snd (helperProportions dg)"
  show ?thesis
  proof (cases mode)
    case TFit
    have "(\<forall>q. in_helper dg q \<longrightarrow> in_target off sz q) \<longleftrightarrow>
        (\<forall>q. ?x \<le> q \<and> q \<le> ?x + ?w \<longrightarrow> l \<le> q \<and> q \<le> l + fst sz) \<and> (\<forall>q. ?y \<le> q \<and> q \<le> ?y + ?h \<longrightarrow> t \<le> q \<and> q \<le> t + snd sz)"
      (is "_ \<longleftrightarrow> ?X \<and> ?Y")
    proof
      assume all: "\<forall>q. in_helper dg q \<longrightarrow> in_target off sz q"
      have "in_target off sz (q, ?y)" if "?x \<le> q" "q \<le> ?x + ?w" for q using all that assms(2) by (simp add: in_helper_def Let_def)
      moreover have "in_target off sz (?x, q)" if "?y \<le> q" "q \<le> ?y + ?h" for q using all that assms(1) by (simp add: in_helper_def Let_def)
      ultimately show "?X \<and> ?Y" by (simp add: in_target_def off)
    qed (auto simp: in_helper_def in_target_def off Let_def)
    then show ?thesis using TFit within_axis [OF assms(1), of l ?x "l + fst sz"] within_axis [OF assms(2), of t ?y "t + snd sz"]
      by (simp add: intersect_def off Let_def) blast
  next
    case TTouch
    have "(\<exists>q. in_helper dg q \<and> in_target off sz q) \<longleftrightarrow>
        (\<exists>q. ?x \<le> q \<and> q \<le> ?x + ?w \<and> l \<le> q \<and> q \<le> l + fst sz) \<and> (\<exists>q. ?y \<le> q \<and> q \<le> ?y + ?h \<and> t \<le> q \<and> q \<le> t + snd sz)"
      by (auto simp: in_helper_def in_target_def off Let_def)
    then show ?thesis using TTouch overlap_axis [OF assms(1,3), of l ?x] overlap_axis [OF assms(2,4), of t ?y]
      by (simp add: intersect_def off Let_def) blast
  qed (auto simp: intersect_def off strictly_in_def helper_centre_def isOverAxis_def Let_def field_simps)
qed

section \<open>Who gets the drop\<close>

text \<open>A greedy droppable that takes a drop from the droppables around it.\<close>

definition takes :: "drop_page \<Rightarrow> dragged_item \<Rightarrow> rat \<times> rat \<Rightarrow> ddmanager \<Rightarrow> nat \<Rightarrow> bool" where
  "takes pg dg pointer w e \<longleftrightarrow>
     (let o' = drops w e
      in dp_greedy o' \<and> \<not> dp_disabled o' \<and> dp_scope o' = dg_scope dg \<and> dp_accept o' (dg_element dg) \<and>
         intersect dg (Some (pg_offset pg e)) (drop_size pg e o') (dp_tolerance o') pointer)"

definition receives :: "drop_page \<Rightarrow> dragged_item \<Rightarrow> rat \<times> rat \<Rightarrow> ddmanager \<Rightarrow> nat \<Rightarrow> bool" where
  "receives pg dg pointer w d \<longleftrightarrow>
     (let o' = drops w d
      in d \<noteq> dg_element dg \<and> \<not> dp_disabled o' \<and> dp_visible o' \<and> dp_accept o' (dg_element dg) \<and>
         intersect dg (Some (pg_offset pg d)) (drop_size pg d o') (dp_tolerance o') pointer \<and>
         (\<forall>e \<in> set (pg_inner pg d). \<not> pg_moving pg e \<longrightarrow> \<not> takes pg dg pointer w e))"

fun dropped_on :: "drop_log list \<Rightarrow> nat list" where
  "dropped_on [] = []"
| "dropped_on (Drop d # ls) = d # dropped_on ls"
| "dropped_on (_ # ls) = dropped_on ls"

lemma dropped_append [simp]: "dropped_on (xs @ ys) = dropped_on xs @ dropped_on ys"
  by (induction xs rule: dropped_on.induct) auto

definition setup_of :: "drop_page \<Rightarrow> nat \<Rightarrow> droppable \<Rightarrow> (nat \<Rightarrow> bool) \<times> bool \<times> bool \<times> string \<times> drop_tolerance \<times> bool \<times> rat \<times> rat" where
  "setup_of pg d o' = (dp_accept o', dp_greedy o', dp_disabled o', dp_scope o', dp_tolerance o', dp_visible o', drop_size pg d o')"

text \<open>What the steps of a drop keep of the manager: all but states, classes and measured offsets.\<close>

definition alike :: "drop_page \<Rightarrow> ddmanager \<Rightarrow> ddmanager \<Rightarrow> bool" where
  "alike pg w w' \<longleftrightarrow> current w' = current w \<and> droppables w' = droppables w \<and>
     (\<forall>d. setup_of pg d (drops w' d) = setup_of pg d (drops w d) \<and>
          (dp_offset (drops w' d) = dp_offset (drops w d) \<or> dp_offset (drops w' d) = Some (pg_offset pg d)))"

lemma alike_refl [simp]: "alike pg w w"
  by (simp add: alike_def)

lemma alike_trans: "alike pg w w' \<Longrightarrow> alike pg w' w'' \<Longrightarrow> alike pg w w''"
  unfolding alike_def by metis

lemma alike_trigger [simp]: "alike pg w (dd_trigger l w)"
  by (simp add: alike_def dd_trigger_def)

lemma alike_upd: "setup_of pg d (f (drops w d)) = setup_of pg d (drops w d) \<Longrightarrow>
    dp_offset (f (drops w d)) = dp_offset (drops w d) \<or> dp_offset (f (drops w d)) = Some (pg_offset pg d) \<Longrightarrow> alike pg w (upd_drop d f w)"
  by (simp add: alike_def upd_drop_def)

lemma alike_takes: "alike pg w w' \<Longrightarrow> takes pg dg pointer w' e = takes pg dg pointer w e"
  by (simp add: alike_def takes_def setup_of_def Let_def)

lemma log_upd [simp]: "dd_log (upd_drop d f w) = dd_log w" "current (upd_drop d f w) = current w"
  "drops (upd_drop d f w) d = f (drops w d)" "droppables (upd_drop d f w) = droppables w"
  by (simp_all add: upd_drop_def)

lemma log_trigger [simp]: "dd_log (dd_trigger l w) = dd_log w @ [l]" "current (dd_trigger l w) = current w"
  "drops (dd_trigger l w) = drops w" "droppables (dd_trigger l w) = droppables w"
  by (simp_all add: dd_trigger_def)

lemma greedy_search:
  "greedy_inside pg dg pointer ds w = (found, w') \<Longrightarrow>
     alike pg w w' \<and> dd_log w' = dd_log w \<and> (found \<longleftrightarrow> (\<exists>e \<in> set ds. takes pg dg pointer w e))"
proof (induction ds arbitrary: w)
  case (Cons d ds)
  let ?o = "drops w d"
  let ?w = "upd_drop d (\<lambda>o'. o'\<lparr>dp_offset := Some (pg_offset pg d), proportions := Some (drop_size pg d o')\<rparr>) w"
  show ?case
  proof (cases "dp_greedy ?o \<and> \<not> dp_disabled ?o \<and> dp_scope ?o = dg_scope dg \<and> dp_accept ?o (dg_element dg)")
    case True
    have a: "alike pg w ?w" by (rule alike_upd) (simp_all add: setup_of_def drop_size_def)
    have t: "takes pg dg pointer w d \<longleftrightarrow> intersects pg dg pointer d (drops ?w d)"
      using True by (simp add: takes_def intersects_def drop_size_def Let_def)
    show ?thesis
    proof (cases "takes pg dg pointer w d")
      case False
      then have "greedy_inside pg dg pointer ds ?w = (found, w')" using Cons.prems True t by (simp add: Let_def)
      from Cons.IH [OF this] a False show ?thesis using alike_takes [OF a] alike_trans by auto
    next
      case hit: True
      have "found" "w' = ?w" using Cons.prems True hit t by (simp_all add: Let_def)
      then show ?thesis using a hit by simp
    qed
  next
    case False
    then have "\<not> takes pg dg pointer w d" by (auto simp: takes_def Let_def)
    moreover have "greedy_inside pg dg pointer ds w = (found, w')" using Cons.prems False by (simp only: greedy_inside.simps Let_def if_False)
    ultimately show ?thesis using Cons.IH by auto
  qed
qed simp

lemma drop_on_result:
  assumes "current w = Some dg" "drop_on pg None pointer d w = (r, w')"
  shows "alike pg w w' \<and> dd_log w' = dd_log w @ (if r then [Drop d] else []) \<and>
    (r \<longleftrightarrow> d \<noteq> dg_element dg \<and> dp_accept (drops w d) (dg_element dg) \<and> (\<forall>e \<in> set (pg_inner pg d). \<not> pg_moving pg e \<longrightarrow> \<not> takes pg dg pointer w e))"
proof (cases "dg_element dg = d")
  case True
  then show ?thesis using assms by (simp add: drop_on_def)
next
  case False
  obtain found w1 where g: "greedy_inside pg dg pointer (filter (\<lambda>e. \<not> pg_moving pg e) (pg_inner pg d)) w = (found, w1)" by fastforce
  note s = greedy_search [OF g]
  let ?w = "upd_drop d (\<lambda>o'. o'\<lparr>active := False, hover := False\<rparr>) w1"
  have "alike pg w1 ?w" by (rule alike_upd) (simp_all add: setup_of_def drop_size_def)
  then have a: "alike pg w (dd_trigger (Drop d) ?w)" using s alike_trans alike_trigger by blast
  have acc: "dp_accept (drops w1 d) = dp_accept (drops w d)" using s by (simp add: alike_def setup_of_def)
  show ?thesis using assms False s a acc by (auto simp: drop_on_def g split: if_splits)
qed

definition prepared :: "drop_page \<Rightarrow> nat list \<Rightarrow> ddmanager \<Rightarrow> bool" where
  "prepared pg ds w \<longleftrightarrow> (\<forall>d \<in> set ds. dp_visible (drops w d) \<longrightarrow> dp_offset (drops w d) = Some (pg_offset pg d))"

lemma prepared_alike: "alike pg w w' \<Longrightarrow> prepared pg ds w \<Longrightarrow> prepared pg ds w'"
  unfolding alike_def prepared_def setup_of_def by fastforce

lemma receives_alike: "alike pg w w' \<Longrightarrow> receives pg dg pointer w' d = receives pg dg pointer w d"
  using alike_takes [of pg w w'] by (simp add: alike_def receives_def setup_of_def Let_def)

definition informed :: "dragged_item \<Rightarrow> nat \<Rightarrow> ddmanager \<Rightarrow> bool" where
  "informed dg d w \<longleftrightarrow> \<not> dp_disabled (drops w d) \<and> dp_visible (drops w d) \<and> dp_accept (drops w d) (dg_element dg)"

lemma informed_alike: "alike pg w w' \<Longrightarrow> informed dg d w' = informed dg d w"
  by (simp add: alike_def informed_def setup_of_def)

lemma over_kept: "isover (drops (upd_drop d f w) x) = (if x = d then isover (f (drops w d)) else isover (drops w x))"
  by (simp add: upd_drop_def)

lemma greedy_isover: "isover (drops (snd (greedy_inside pg dg pointer ds w)) x) = isover (drops w x)"
  by (induction ds arbitrary: w) (simp_all add: Let_def over_kept)

lemma drop_on_isover: "isover (drops (snd (drop_on pg c pointer d w)) x) = isover (drops w x)"
proof -
  have "isover (drops w1 x) = isover (drops w x)" if "greedy_inside pg dg pointer ds w = (f, w1)" for dg ds f w1
    using greedy_isover [of pg dg pointer ds w x] that by simp
  then show ?thesis by (auto simp: drop_on_def over_kept Let_def split: option.split prod.split)
qed

lemma drop_one_result:
  assumes "current w = Some dg" "prepared pg [d] w" "drop_one pg dg pointer d (b, w) = (b', w')"
  shows "alike pg w w' \<and> (b' \<longleftrightarrow> b \<or> receives pg dg pointer w d) \<and>
    dropped_on (dd_log w') = dropped_on (dd_log w) @ (if receives pg dg pointer w d then [d] else []) \<and>
    (\<forall>x. isover (drops w' x) = (isover (drops w x) \<and> \<not> (x = d \<and> informed dg d w)))"
proof -
  define hit where "hit \<longleftrightarrow> \<not> dp_disabled (drops w d) \<and> dp_visible (drops w d) \<and> intersects pg dg pointer d (drops w d)"
  obtain r w0 where dr: "drop_on pg None pointer d w = (r, w0)" by fastforce
  note on = drop_on_result [OF assms(1) dr]
  have ov: "isover (drops w0 x) = isover (drops w x)" for x using drop_on_isover [of pg None pointer d w x] dr by simp
  define w1 where "w1 = (if hit then w0 else w)"
  have a1: "alike pg w w1" using on by (simp add: w1_def)
  have rec: "receives pg dg pointer w d \<longleftrightarrow> hit \<and> r"
    using on assms(2) by (auto simp: receives_def hit_def prepared_def intersects_def Let_def)
  let ?w = "upd_drop d (\<lambda>o'. o'\<lparr>isout := True, isover := False\<rparr>) w1"
  have w': "b' = (hit \<and> r \<or> b)" "w' = (if informed dg d w then drop_deactivate d ?w else w1)"
    using assms(3) dr informed_alike [OF a1, of dg d]
    by (auto simp: drop_one_def w1_def hit_def informed_def Let_def split: if_splits)
  have c1: "alike pg w1 ?w" by (rule alike_upd) (simp_all add: setup_of_def drop_size_def)
  have c2: "alike pg ?w (upd_drop d (\<lambda>o'. o'\<lparr>active := False\<rparr>) ?w)" by (rule alike_upd) (simp_all add: setup_of_def drop_size_def)
  have c3: "alike pg ?w (drop_deactivate d ?w)" using c2 alike_trans [OF c2 alike_trigger] by (simp add: drop_deactivate_def Let_def)
  have "alike pg w w'" using a1 alike_trans [OF a1 alike_trans [OF c1 c3]] by (simp add: w'(2))
  moreover have "dropped_on (dd_log w') = dropped_on (dd_log w1)" by (simp add: w'(2) drop_deactivate_def Let_def)
  moreover have "dropped_on (dd_log w1) = dropped_on (dd_log w) @ (if hit \<and> r then [d] else [])" using on by (simp add: w1_def)
  moreover have "isover (drops w' x) = (isover (drops w x) \<and> \<not> (x = d \<and> informed dg d w))" for x
    using ov by (simp add: w'(2) w1_def drop_deactivate_def over_kept Let_def)
  ultimately show ?thesis using rec w'(1) by auto
qed

lemma drop_all_result:
  assumes "current w = Some dg" "prepared pg ds w" "fold (drop_one pg dg pointer) ds (b, w) = (b', w')"
  shows "(b' \<longleftrightarrow> b \<or> (\<exists>d \<in> set ds. receives pg dg pointer w d)) \<and>
    dropped_on (dd_log w') = dropped_on (dd_log w) @ filter (receives pg dg pointer w) ds \<and>
    (\<forall>d \<in> set ds. informed dg d w \<longrightarrow> \<not> isover (drops w' d)) \<and> (\<forall>x. isover (drops w' x) \<longrightarrow> isover (drops w x))"
  using assms
proof (induction ds arbitrary: b w)
  case (Cons d ds)
  obtain b1 w1 where one: "drop_one pg dg pointer d (b, w) = (b1, w1)" by fastforce
  have "prepared pg [d] w" "prepared pg ds w" using Cons.prems(2) by (simp_all add: prepared_def)
  note r = drop_one_result [OF Cons.prems(1) this(1) one]
  have a: "alike pg w w1" using r by simp
  then have "current w1 = Some dg" "prepared pg ds w1" using Cons.prems(1) prepared_alike [OF a \<open>prepared pg ds w\<close>] by (simp_all add: alike_def)
  from Cons.IH [OF this, of b1] Cons.prems(3) one have
    "(b' \<longleftrightarrow> b1 \<or> (\<exists>d \<in> set ds. receives pg dg pointer w1 d)) \<and>
     dropped_on (dd_log w') = dropped_on (dd_log w1) @ filter (receives pg dg pointer w1) ds \<and>
     (\<forall>d \<in> set ds. informed dg d w1 \<longrightarrow> \<not> isover (drops w' d)) \<and> (\<forall>x. isover (drops w' x) \<longrightarrow> isover (drops w1 x))" by simp
  moreover have "receives pg dg pointer w1 = receives pg dg pointer w" "\<And>x. informed dg x w1 = informed dg x w"
    using receives_alike [OF a] informed_alike [OF a] by (simp_all add: fun_eq_iff)
  ultimately show ?case using r by auto
qed simp

text \<open>
  C19. A drop reaches exactly the right droppables: of the droppables of the scope, in the order of their
  registration, those that are enabled, visible, accept the element, are hit, and have no greedy
  droppable inside that takes the drop itself; each of them once. The answer tells whether there was
  any, and afterwards none of the droppables that were told is marked as entered.
\<close>

theorem drop_recipients:
  assumes "current w = Some dg" "prepared pg (droppables w (dg_scope dg)) w" "dd_drop pg dg pointer w = (dropped, w')"
  shows "dropped_on (dd_log w') = dropped_on (dd_log w) @ filter (receives pg dg pointer w) (droppables w (dg_scope dg)) \<and>
    (dropped \<longleftrightarrow> (\<exists>d \<in> set (droppables w (dg_scope dg)). receives pg dg pointer w d)) \<and>
    (\<forall>d \<in> set (droppables w (dg_scope dg)). informed dg d w \<longrightarrow> \<not> isover (drops w' d))"
  using drop_all_result [OF assms(1,2), of pointer False] assms(3) by (simp add: dd_drop_def)

section \<open>Entering and leaving\<close>

text \<open>Whether the callbacks say that the helper is over a droppable; \<open>None\<close> when they come out of turn.\<close>

fun visit_step :: "nat \<Rightarrow> drop_log \<Rightarrow> bool option \<Rightarrow> bool option" where
  "visit_step d (Over e) s = (if e = d then (if s = Some False then Some True else None) else s)"
| "visit_step d (Out e) s = (if e = d then (if s = Some True then Some False else None) else s)"
| "visit_step d _ s = s"

definition visiting :: "nat \<Rightarrow> drop_log list \<Rightarrow> bool option" where
  "visiting d ls = fold (visit_step d) ls (Some False)"

definition in_turn :: "nat \<Rightarrow> nat \<Rightarrow> ddmanager \<Rightarrow> bool" where
  "in_turn el d w \<longleftrightarrow> (let o' = drops w d in
     visiting d (dd_log w) = Some (hover o') \<and> (hover o' \<longleftrightarrow> isover o' \<and> dp_accept o' el \<and> d \<noteq> el) \<and> isout o' = (\<not> isover o'))"

definition fixed_part :: "droppable \<Rightarrow> droppable" where
  "fixed_part o' = o'\<lparr>isover := False, isout := False, hover := False, active := False\<rparr>"

lemma fixed_fields: "fixed_part o' = fixed_part o'' \<Longrightarrow> dp_accept o' = dp_accept o'' \<and> dp_greedy o' = dp_greedy o'' \<and> dp_disabled o' = dp_disabled o'' \<and>
    dp_visible o' = dp_visible o'' \<and> greedyChild o' = greedyChild o'' \<and> intersects pg dg pointer d o' = intersects pg dg pointer d o''"
  by (cases o'; cases o'') (simp add: fixed_part_def intersects_def drop_size_def)

definition plain_drop :: "nat \<Rightarrow> ddmanager \<Rightarrow> bool" where
  "plain_drop d w \<longleftrightarrow> \<not> dp_greedy (drops w d) \<and> \<not> greedyChild (drops w d)"

lemma drag_one_plain:
  assumes "plain_drop d w" "current w = Some c" "in_turn (dg_element c) d w" "w' = drag_one pg dg pointer d w"
  shows "in_turn (dg_element c) d w' \<and> current w' = current w \<and> droppables w' = droppables w \<and> fixed_part (drops w' d) = fixed_part (drops w d) \<and>
    isover (drops w' d) = (if dp_disabled (drops w d) \<or> \<not> dp_visible (drops w d) then isover (drops w d) else intersects pg dg pointer d (drops w d)) \<and>
    (\<forall>x. x \<noteq> d \<longrightarrow> drops w' x = drops w x \<and> visiting x (dd_log w') = visiting x (dd_log w))"
proof -
  have g: "greedy_parent pg d w = None" using assms(1) by (simp add: greedy_parent_def plain_drop_def)
  have oc: "visiting x (ls @ [l]) = visit_step x l (visiting x ls)" for x ls l by (simp add: visiting_def)
  show ?thesis using assms(1,2,3) unfolding assms(4)
    by (auto simp: drag_one_def g enter_def leave_def drop_over_def drop_out_def in_turn_def plain_drop_def fixed_part_def
      upd_drop_def dd_trigger_def oc Let_def)
qed

lemma drag_all_plain:
  assumes "\<forall>d \<in> set ds. plain_drop d w" "current w = Some c" "\<forall>d \<in> A. in_turn (dg_element c) d w" "set ds \<subseteq> A"
    "w' = fold (drag_one pg dg pointer) ds w"
  shows "(\<forall>d \<in> A. in_turn (dg_element c) d w') \<and> current w' = current w \<and> droppables w' = droppables w \<and>
    (\<forall>x. fixed_part (drops w' x) = fixed_part (drops w x)) \<and>
    (\<forall>x. isover (drops w' x) = (if x \<notin> set ds \<or> dp_disabled (drops w x) \<or> \<not> dp_visible (drops w x) then isover (drops w x)
                               else intersects pg dg pointer x (drops w x)))"
  using assms
proof (induction ds arbitrary: w)
  case (Cons d ds)
  let ?w = "drag_one pg dg pointer d w"
  have d: "plain_drop d w" "in_turn (dg_element c) d w" using Cons.prems by auto
  note one = drag_one_plain [OF d(1) Cons.prems(2) d(2) refl, of pg dg pointer]
  have fx: "fixed_part (drops ?w x) = fixed_part (drops w x)" for x using one by (cases "x = d") auto
  note ff = fixed_fields [OF fx]
  have tr: "\<forall>x \<in> A. in_turn (dg_element c) x ?w" using one Cons.prems(3) by (auto simp: in_turn_def)
  have "\<forall>x \<in> set ds. plain_drop x ?w" using Cons.prems(1) ff by (auto simp: plain_drop_def)
  moreover have "current ?w = Some c" "set ds \<subseteq> A" "w' = fold (drag_one pg dg pointer) ds ?w" using one Cons.prems by auto
  ultimately have ih: "(\<forall>d \<in> A. in_turn (dg_element c) d w') \<and> current w' = current ?w \<and> droppables w' = droppables ?w \<and>
    (\<forall>x. fixed_part (drops w' x) = fixed_part (drops ?w x)) \<and>
    (\<forall>x. isover (drops w' x) = (if x \<notin> set ds \<or> dp_disabled (drops ?w x) \<or> \<not> dp_visible (drops ?w x) then isover (drops ?w x)
                               else intersects pg dg pointer x (drops ?w x)))"
    using Cons.IH [of ?w] tr by blast
  have "isover (drops w' x) = (if x \<notin> set (d # ds) \<or> dp_disabled (drops w x) \<or> \<not> dp_visible (drops w x) then isover (drops w x)
                               else intersects pg dg pointer x (drops w x))" for x
    using ih ff [of x] one by (cases "x = d") auto
  then show ?case using ih one fx by auto
qed simp

text \<open>The droppables of a scope during the moves of a drag, none of them greedy.\<close>

definition tracking :: "ddmanager \<Rightarrow> dragged_item \<Rightarrow> string \<Rightarrow> ddmanager \<Rightarrow> bool" where
  "tracking w0 c sc w \<longleftrightarrow> current w = Some c \<and> droppables w = droppables w0 \<and> (\<forall>x. fixed_part (drops w x) = fixed_part (drops w0 x)) \<and>
     (\<forall>d \<in> set (droppables w0 sc). plain_drop d w0 \<and> in_turn (dg_element c) d w)"

definition steady :: "string \<Rightarrow> dragged_item \<times> rat \<times> rat \<Rightarrow> bool" where
  "steady sc m \<longleftrightarrow> dg_scope (fst m) = sc \<and> \<not> refreshPositions (fst m)"

lemma drag_tracking:
  assumes "tracking w0 c sc w" "steady sc m" "w' = dd_drag pg (fst m) (snd m) w"
  shows "tracking w0 c sc w' \<and> (\<forall>d \<in> set (droppables w0 sc). \<not> dp_disabled (drops w0 d) \<and> dp_visible (drops w0 d) \<longrightarrow>
    isover (drops w' d) = intersects pg (fst m) (snd m) d (drops w0 d))"
proof -
  have w: "current w = Some c" "droppables w = droppables w0" "\<forall>x. fixed_part (drops w x) = fixed_part (drops w0 x)"
    "\<forall>d \<in> set (droppables w0 sc). plain_drop d w0 \<and> in_turn (dg_element c) d w" using assms(1) by (simp_all add: tracking_def)
  note ff = fixed_fields [OF spec [OF w(3)]]
  have "\<forall>d \<in> set (droppables w0 sc). plain_drop d w" using w(4) ff by (auto simp: plain_drop_def)
  moreover have "w' = fold (drag_one pg (fst m) (snd m)) (droppables w0 sc) w" using assms(2,3) w(2) by (simp add: dd_drag_def steady_def)
  ultimately have "(\<forall>d \<in> set (droppables w0 sc). in_turn (dg_element c) d w') \<and> current w' = current w \<and> droppables w' = droppables w \<and>
    (\<forall>x. fixed_part (drops w' x) = fixed_part (drops w x)) \<and>
    (\<forall>x. isover (drops w' x) = (if x \<notin> set (droppables w0 sc) \<or> dp_disabled (drops w x) \<or> \<not> dp_visible (drops w x) then isover (drops w x)
                               else intersects pg (fst m) (snd m) x (drops w x)))"
    using w(1,4) by (intro drag_all_plain [where A = "set (droppables w0 sc)"]) auto
  then show ?thesis using w ff by (simp add: tracking_def)
qed

interpretation moves: invariant_system "\<lambda>m. dd_drag pg (fst m) (snd m)" "\<lambda>m _. steady sc m" "tracking w0 c sc" for pg sc w0 c
  by unfold_locales (use drag_tracking in blast)

text \<open>
  C33. During a drag whose draggable does not refresh positions (\<open>refreshPositions\<close> off), among
  droppables of which none is greedy, each is told exactly when the helper enters and leaves it: the
  callbacks \<open>over\<close> and \<open>out\<close> take turns, beginning with \<open>over\<close>, the hover class is set between them
  and at no other time, and after a move a droppable that is enabled and visible is marked as
  entered if and only if the helper meets it.  (Both conditions are needed: \<open>out_without_over\<close> and
  \<open>hover_leaks\<close> below.)
\<close>

theorem drags_tracked:
  assumes "current w = Some c" "\<forall>d \<in> set (droppables w sc). \<not> dp_greedy (drops w d) \<and> \<not> greedyChild (drops w d)"
    "\<forall>d \<in> set (droppables w sc). \<not> isover (drops w d) \<and> isout (drops w d) \<and> \<not> hover (drops w d)" "dd_log w = []"
    "\<forall>m \<in> set ms. dg_scope (fst m) = sc \<and> \<not> refreshPositions (fst m)"
    "w' = fold (\<lambda>m. dd_drag pg (fst m) (snd m)) ms w" "d \<in> set (droppables w sc)"
  shows "visiting d (dd_log w') = Some (hover (drops w' d)) \<and>
    (hover (drops w' d) \<longleftrightarrow> isover (drops w' d) \<and> dp_accept (drops w d) (dg_element c) \<and> d \<noteq> dg_element c) \<and>
    (ms \<noteq> [] \<and> \<not> dp_disabled (drops w d) \<and> dp_visible (drops w d) \<longrightarrow>
       isover (drops w' d) = intersects pg (fst (last ms)) (snd (last ms)) d (drops w d))"
proof -
  have start: "tracking w c sc w" using assms(1-4) by (simp add: tracking_def plain_drop_def in_turn_def visiting_def Let_def)
  have steady: "\<forall>m \<in> set ms. steady sc m" using assms(5) by (simp add: steady_def)
  have "tracking w c sc w'" unfolding assms(6) by (rule moves.run_inv [OF start legal_inputs [OF steady]])
  then have t: "in_turn (dg_element c) d w'" "fixed_part (drops w' d) = fixed_part (drops w d)" using assms(7) by (auto simp: tracking_def)
  have "isover (drops w' d) = intersects pg (fst (last ms)) (snd (last ms)) d (drops w d)"
    if "ms \<noteq> []" "\<not> dp_disabled (drops w d)" "dp_visible (drops w d)"
  proof -
    note ne = that(1)
    obtain ns m where ms: "ms = ns @ [m]" using ne by (cases ms rule: rev_cases) auto
    let ?w = "fold (\<lambda>m. dd_drag pg (fst m) (snd m)) ns w"
    have "tracking w c sc ?w" by (rule moves.run_inv [OF start legal_inputs]) (use steady ms in simp)
    moreover have "steady sc m" "w' = dd_drag pg (fst m) (snd m) ?w" using steady ms by (simp_all add: assms(6))
    ultimately have "isover (drops w' d) = intersects pg (fst m) (snd m) d (drops w d)"
      using drag_tracking assms(7) that(2,3) by blast
    then show ?thesis by (simp add: ms)
  qed
  then show ?thesis using t fixed_fields [OF t(2)] by (simp add: in_turn_def Let_def)
qed

section \<open>Examples\<close>

definition plain_droppable :: droppable where
  "plain_droppable = \<lparr>dp_accept = (\<lambda>_. True), dp_greedy = False, dp_disabled = False, dp_scope = ''default'', dp_tolerance = TTouch,
     isover = False, isout = True, dp_visible = False, dp_offset = None, proportions = None, greedyChild = False, hover = False, active = False\<rparr>"

text \<open>A box 1 of 100 by 100, a box 2 inside of it, and a box 3 below; 9 is dragged.\<close>

definition three_boxes :: drop_page where
  "three_boxes = \<lparr>pg_offset = (\<lambda>d. if d = 1 then (0, 0) else if d = 2 then (20, 20) else (0, 200)),
     pg_size = (\<lambda>d. if d = 2 then (20, 20) else (100, 100)), pg_shown = (\<lambda>_. True),
     pg_inner = (\<lambda>d. if d = 1 then [2] else []), pg_outer = (\<lambda>d. if d = 2 then [1] else []), pg_moving = (\<lambda>_. False)\<rparr>"

definition helper_at :: "rat \<Rightarrow> rat \<Rightarrow> dragged_item" where
  "helper_at x y = \<lparr>dg_element = 9, dg_scope = ''default'', positionAbs = (x, y), dg_margins = (0, 0), helperProportions = (10, 10), refreshPositions = False\<rparr>"

definition drop_world :: "nat list \<Rightarrow> dragged_item \<Rightarrow> ddmanager" where
  "drop_world greedy dg =
     prepareOffsets three_boxes False dg
       (fold (\<lambda>d. drop_create d (plain_droppable\<lparr>dp_greedy := d \<in> set greedy\<rparr>)) [1, 2, 3]
          \<lparr>current = Some dg, droppables = (\<lambda>_. []), drops = (\<lambda>_. plain_droppable), dd_log = []\<rparr>)"

theorem intersect_geometry_witness:
  "\<exists>q. in_helper (helper_at 35 5) q \<and> in_target (20, 0) (20, 10) q"
  using intersect_geometry [of "helper_at 35 5" "(20, 10)" "(20, 0)" TTouch "(0, 0)"] by (simp add: helper_at_def intersect_def Let_def)

theorem drop_recipients_witness:
  "filter (receives three_boxes (helper_at 25 25) (25, 25) (drop_world [2] (helper_at 25 25))) [1, 2, 3] = [2]"
proof -
  let ?w = "drop_world [2] (helper_at 25 25)"
  have w: "current ?w = Some (helper_at 25 25)" "droppables ?w (dg_scope (helper_at 25 25)) = [1, 2, 3]" "dd_log ?w = []"
    "list_all (\<lambda>d. dp_offset (drops ?w d) = Some (pg_offset three_boxes d)) [1, 2, 3]"
    "dropped_on (dd_log (snd (dd_drop three_boxes (helper_at 25 25) (25, 25) ?w))) = [2]" by code_simp+
  have "prepared three_boxes (droppables ?w (dg_scope (helper_at 25 25))) ?w" using w(4) by (simp only: prepared_def w(2) list_all_iff) blast
  from drop_recipients [OF w(1) this surjective_pairing, of "(25, 25)"] show ?thesis by (simp only: w(2,3,5) dropped_on.simps append_Nil)
qed

theorem drags_tracked_witness:
  "isover (drops (fold (\<lambda>m. dd_drag three_boxes (fst m) (snd m)) [(helper_at 50 50, (0, 0)), (helper_at 50 190, (0, 0))] (drop_world [] (helper_at 50 50))) 3)"
proof -
  let ?w = "drop_world [] (helper_at 50 50)" and ?ms = "[(helper_at 50 50, (0 :: rat, 0 :: rat)), (helper_at 50 190, (0, 0))]"
  have w: "current ?w = Some (helper_at 50 50)" "droppables ?w ''default'' = [1, 2, 3]" "dd_log ?w = []"
    "list_all (\<lambda>d. \<not> dp_greedy (drops ?w d) \<and> \<not> greedyChild (drops ?w d) \<and> \<not> isover (drops ?w d) \<and> isout (drops ?w d) \<and> \<not> hover (drops ?w d)) [1, 2, 3]"
    "list_all (\<lambda>m. dg_scope (fst m) = ''default'' \<and> \<not> refreshPositions (fst m)) ?ms"
    "\<not> dp_disabled (drops ?w 3)" "dp_visible (drops ?w 3)" "intersects three_boxes (helper_at 50 190) (0, 0) 3 (drops ?w 3)" by code_simp+
  have g: "\<forall>d \<in> set (droppables ?w ''default''). \<not> dp_greedy (drops ?w d) \<and> \<not> greedyChild (drops ?w d)"
    "\<forall>d \<in> set (droppables ?w ''default''). \<not> isover (drops ?w d) \<and> isout (drops ?w d) \<and> \<not> hover (drops ?w d)"
    using w(4) unfolding w(2) list_all_iff by blast+
  have m: "\<forall>m \<in> set ?ms. dg_scope (fst m) = ''default'' \<and> \<not> refreshPositions (fst m)" using w(5) unfolding list_all_iff .
  have "3 \<in> set (droppables ?w ''default'')" by (simp only: w(2)) simp
  from drags_tracked [OF w(1) g w(3) m refl this, of three_boxes] w(6-8) show ?thesis by simp
qed

text \<open>
  A droppable around a greedy one is told that the helper left it although it never entered, when the
  greedy one was registered first and the helper comes into both in one move.
\<close>

theorem out_without_over:
  "let w = prepareOffsets three_boxes False (helper_at 25 25)
      (fold (\<lambda>d. drop_create d (plain_droppable\<lparr>dp_greedy := d = 2\<rparr>)) [2, 1]
        \<lparr>current = Some (helper_at 25 25), droppables = (\<lambda>_. []), drops = (\<lambda>_. plain_droppable), dd_log = []\<rparr>)
   in dd_log (dd_drag three_boxes (helper_at 25 25) (25, 25) w) = [Out 1, Over 2] \<and>
      visiting 1 (dd_log (dd_drag three_boxes (helper_at 25 25) (25, 25) w)) = None"
  by code_simp

text \<open>
  When the helper leaves a greedy droppable and the one around it in one move, the outer one is told
  that it was entered; if the mouse is released there, the hover class stays on it.
\<close>

theorem hover_leaks:
  "let w = fold (\<lambda>p. dd_drag three_boxes (helper_at p p) (p, p)) [25, 150] (drop_world [2] (helper_at 25 25));
       w' = snd (dd_drop three_boxes (helper_at 150 150) (150, 150) (w\<lparr>current := Some (helper_at 150 150)\<rparr>))
   in hover (drops w' 1) \<and> \<not> isover (drops w' 1) \<and> \<not> intersects three_boxes (helper_at 150 150) (150, 150) 1 (drops w 1)"
  by code_simp

end
