(* ===== verification/UI_Sortable.thy ===== *)
theory UI_Sortable
  imports UI_Number
begin

text \<open>
  The sortable widget of jQuery UI, with connected lists: the item that is dragged, the placeholder that
  moves through the lists, the tests that decide where it goes, and the end of a sort. The document is
  the list of children of every container; items are not nested in each other. Positions and sizes
  that the browser measures are arguments. Callbacks that return \<open>false\<close>, the animation of \<open>revert\<close>,
  scrolling and draggables dropped into a list are not modelled.
\<close>

section \<open>The document\<close>

datatype sort_node = Item nat | Placeholder | Helper

type_synonym dom = "nat \<Rightarrow> sort_node list"

definition remove_node :: "sort_node \<Rightarrow> dom \<Rightarrow> dom" where
  "remove_node n d = (\<lambda>c. filter (\<lambda>m. m \<noteq> n) (d c))"

fun ins_before :: "sort_node \<Rightarrow> sort_node \<Rightarrow> sort_node list \<Rightarrow> sort_node list" where
  "ins_before n m [] = []"
| "ins_before n m (x # xs) = (if x = m then n # x # xs else x # ins_before n m xs)"

fun ins_after :: "sort_node \<Rightarrow> sort_node \<Rightarrow> sort_node list \<Rightarrow> sort_node list" where
  "ins_after n m [] = []"
| "ins_after n m (x # xs) = (if x = m then x # n # xs else x # ins_after n m xs)"

text \<open>Inserting a node takes it away from where it was.\<close>

definition put_before :: "sort_node \<Rightarrow> sort_node \<Rightarrow> dom \<Rightarrow> dom" where
  "put_before n m d = (\<lambda>c. ins_before n m (remove_node n d c))"

definition put_after :: "sort_node \<Rightarrow> sort_node \<Rightarrow> dom \<Rightarrow> dom" where
  "put_after n m d = (\<lambda>c. ins_after n m (remove_node n d c))"

definition append_child :: "nat \<Rightarrow> sort_node \<Rightarrow> dom \<Rightarrow> dom" where
  "append_child c n d = (remove_node n d)(c := remove_node n d c @ [n])"

definition prepend_child :: "nat \<Rightarrow> sort_node \<Rightarrow> dom \<Rightarrow> dom" where
  "prepend_child c n d = (remove_node n d)(c := n # remove_node n d c)"

fun prev_of :: "sort_node \<Rightarrow> sort_node list \<Rightarrow> sort_node option" where
  "prev_of n (x # y # xs) = (if x = n then None else if y = n then Some x else prev_of n (y # xs))"
| "prev_of n xs = None"

fun next_of :: "sort_node \<Rightarrow> sort_node list \<Rightarrow> sort_node option" where
  "next_of n (x # y # xs) = (if x = n then Some y else next_of n (y # xs))"
| "next_of n xs = None"

text \<open>The container of a node among those of a page.\<close>

definition parent_of :: "nat list \<Rightarrow> sort_node \<Rightarrow> dom \<Rightarrow> nat option" where
  "parent_of cs n d = List.find (\<lambda>c. n \<in> set (d c)) cs"

definition dom_prev :: "nat list \<Rightarrow> sort_node \<Rightarrow> dom \<Rightarrow> sort_node option" where
  "dom_prev cs n d = (case parent_of cs n d of Some c \<Rightarrow> prev_of n (d c) | None \<Rightarrow> None)"

definition dom_next :: "nat list \<Rightarrow> sort_node \<Rightarrow> dom \<Rightarrow> sort_node option" where
  "dom_next cs n d = (case parent_of cs n d of Some c \<Rightarrow> next_of n (d c) | None \<Rightarrow> None)"

section \<open>State\<close>

record sort_rect =
  r_left :: rat
  r_top :: rat
  r_width :: rat
  r_height :: rat

record sort_item =
  si_item :: nat
  si_instance :: nat
  si_rect :: sort_rect

datatype sort_axis = AxisX | AxisY | NoAxis

datatype sort_direction = GoUp | GoDown

record sort_config =
  so_self :: nat                        \<comment> \<open>the container of the widget\<close>
  so_connected :: "nat list"            \<comment> \<open>the other containers it is connected with, in the order of the query\<close>
  so_axis :: sort_axis
  pointerTolerance :: bool
  forcePointer :: bool
  semiDynamic :: bool
  dropOnEmpty :: bool
  cloneHelper :: bool
  so_disabled :: bool
  static_type :: bool
  so_grid :: "(rat \<times> rat) option"
  is_floating :: "nat \<Rightarrow> bool"          \<comment> \<open>the style of an item says that items stand side by side\<close>
  floats :: "nat \<Rightarrow> bool"               \<comment> \<open>the items of a connected container stand side by side\<close>
  inner_to :: "nat \<Rightarrow> nat \<Rightarrow> bool"       \<comment> \<open>the second container lies inside of the first\<close>

datatype sort_log = SStart | SActivate nat | SChange | SChangeAt nat | SOver nat | SOut nat | SSort | SUpdate | SRemove
  | SReceiveAt nat | SUpdateAt nat | SDeactivate nat | SBeforeStop | SStopped

record sortable =
  so_dom :: dom
  so_containers :: "nat list"
  so_items :: "sort_item list"
  currentItem :: nat
  currentContainer :: nat
  so_click :: "rat \<times> rat"
  so_origin :: "rat \<times> rat"               \<comment> \<open>the offset of the parent, the relative offset and the scroll position, added up\<close>
  so_containment :: "(rat \<times> rat \<times> rat \<times> rat) option"
  originalPage :: "(rat \<times> rat) option"
  so_position :: "rat \<times> rat"
  so_positionAbs :: "rat \<times> rat"
  lastPositionAbs :: "(rat \<times> rat) option"
  so_helperSize :: "rat \<times> rat"
  so_floating :: bool
  direction :: sort_direction
  domPosition :: "sort_node option \<times> nat option"
  so_dragging :: bool
  has_placeholder :: bool                \<comment> \<open>a placeholder was created at some time\<close>
  so_over :: "nat \<Rightarrow> bool"
  so_cache :: "nat \<Rightarrow> sort_rect"
  so_counter :: nat
  so_timers :: "(nat \<times> bool) list"
  so_log :: "sort_log list"

definition so_say :: "sort_log list \<Rightarrow> sortable \<Rightarrow> sortable" where
  "so_say ls st = st\<lparr>so_log := so_log st @ ls\<rparr>"

section \<open>Items and positions\<close>

definition item_nodes :: "sort_node list \<Rightarrow> nat list" where
  "item_nodes ns = concat (map (\<lambda>n. case n of Item i \<Rightarrow> [i] | _ \<Rightarrow> []) ns)"

definition refreshItems :: "sort_config \<Rightarrow> sortable \<Rightarrow> sortable" where
  "refreshItems cfg st =
     (let cs = so_self cfg # so_connected cfg
      in st\<lparr>so_containers := cs,
            so_items := concat (map (\<lambda>c. map (\<lambda>i. \<lparr>si_item = i, si_instance = c, si_rect = \<lparr>r_left = 0, r_top = 0, r_width = 0, r_height = 0\<rparr>\<rparr>)
                                       (item_nodes (so_dom st c))) (rev cs))\<rparr>)"

text \<open>What the browser measures: the boxes of items and of containers.\<close>

record measures =
  box_of :: "nat \<Rightarrow> sort_rect"
  area_of :: "nat \<Rightarrow> sort_rect"

definition measure_item :: "sort_config \<Rightarrow> bool \<Rightarrow> measures \<Rightarrow> sortable \<Rightarrow> sort_item \<Rightarrow> sort_item" where
  "measure_item cfg fast ms st it =
     (if si_instance it \<noteq> currentContainer st \<and> si_item it \<noteq> currentItem st then it
      else let r = box_of ms (si_item it); old = si_rect it
           in it\<lparr>si_rect := \<lparr>r_left = r_left r, r_top = r_top r,
                             r_width = (if fast then r_width old else r_width r), r_height = (if fast then r_height old else r_height r)\<rparr>\<rparr>)"

definition so_refreshPositions :: "sort_config \<Rightarrow> bool \<Rightarrow> measures \<Rightarrow> sortable \<Rightarrow> sortable" where
  "so_refreshPositions cfg fast ms st =
     (let fl = (case so_items st of [] \<Rightarrow> False | it # _ \<Rightarrow> so_axis cfg = AxisX \<or> is_floating cfg (si_item it))
      in st\<lparr>so_floating := fl, so_items := map (measure_item cfg fast ms st) (so_items st),
            so_cache := (\<lambda>c. if c \<in> set (so_containers st) then area_of ms c else so_cache st c)\<rparr>)"

definition so_contain :: "rat \<Rightarrow> rat \<Rightarrow> rat \<Rightarrow> rat \<Rightarrow> rat" where
  "so_contain lo hi click p = (let p1 = (if p - click < lo then lo + click else p) in if p - click > hi then hi + click else p1)"

definition so_gridded :: "(rat \<times> rat) option \<Rightarrow> rat \<Rightarrow> rat \<Rightarrow> rat \<Rightarrow> rat \<Rightarrow> rat" where
  "so_gridded bounds click orig g p =
     (let v = orig + of_int (math_round ((p - orig) / g)) * g
      in case bounds of
           None \<Rightarrow> v
         | Some (lo, hi) \<Rightarrow> if v - click \<ge> lo \<and> v - click \<le> hi then v else if v - click \<ge> lo then v - g else v + g)"

definition generate_axis :: "(rat \<times> rat) option \<Rightarrow> rat option \<Rightarrow> rat option \<Rightarrow> rat \<Rightarrow> rat \<Rightarrow> rat \<Rightarrow> rat" where
  "generate_axis bounds grid orig click origin page =
     (let p1 = (case orig of
                  None \<Rightarrow> page
                | Some og \<Rightarrow>
                    let p0 = (case bounds of None \<Rightarrow> page | Some (lo, hi) \<Rightarrow> so_contain lo hi click page)
                    in case grid of None \<Rightarrow> p0 | Some g \<Rightarrow> so_gridded bounds click og g p0)
      in p1 - click - origin)"

definition so_generatePosition :: "sort_config \<Rightarrow> rat \<times> rat \<Rightarrow> sortable \<Rightarrow> rat \<times> rat" where
  "so_generatePosition cfg page st =
     (generate_axis (map_option (\<lambda>(l, t, r, b). (l, r)) (so_containment st)) (map_option fst (so_grid cfg)) (map_option fst (originalPage st))
        (fst (so_click st)) (fst (so_origin st)) (fst page),
      generate_axis (map_option (\<lambda>(l, t, r, b). (t, b)) (so_containment st)) (map_option snd (so_grid cfg)) (map_option snd (originalPage st))
        (snd (so_click st)) (snd (so_origin st)) (snd page))"

definition so_convertPosition :: "sortable \<Rightarrow> rat \<times> rat" where
  "so_convertPosition st = (fst (so_position st) + fst (so_origin st), snd (so_position st) + snd (so_origin st))"

section \<open>Where the helper is\<close>

definition over_axis :: "rat \<Rightarrow> rat \<Rightarrow> rat \<Rightarrow> bool" where
  "over_axis x reference extent \<longleftrightarrow> x \<ge> reference \<and> x < reference + extent"

definition last_abs :: "sortable \<Rightarrow> rat \<times> rat" where
  "last_abs st = (case lastPositionAbs st of Some p \<Rightarrow> p | None \<Rightarrow> so_positionAbs st)"

datatype heading = Still | Back | Forth

definition verticalDirection :: "sortable \<Rightarrow> heading" where
  "verticalDirection st = (let delta = snd (so_positionAbs st) - snd (last_abs st) in if delta = 0 then Still else if delta > 0 then Forth else Back)"

definition horizontalDirection :: "sortable \<Rightarrow> heading" where
  "horizontalDirection st = (let delta = fst (so_positionAbs st) - fst (last_abs st) in if delta = 0 then Still else if delta > 0 then Forth else Back)"

definition intersectsWith :: "sort_config \<Rightarrow> sortable \<Rightarrow> sort_rect \<Rightarrow> bool" where
  "intersectsWith cfg st it =
     (let (x1, y1) = so_positionAbs st; (w, h) = so_helperSize st; x2 = x1 + w; y2 = y1 + h;
          l = r_left it; r = l + r_width it; t = r_top it; b = t + r_height it; (dx, dy) = so_click st;
          overHeight = (so_axis cfg = AxisX \<or> y1 + dy > t \<and> y1 + dy < b);
          overWidth = (so_axis cfg = AxisY \<or> x1 + dx > l \<and> x1 + dx < r)
      in if pointerTolerance cfg \<or> forcePointer cfg \<or> (if so_floating st then w > r_width it else h > r_height it)
         then overHeight \<and> overWidth
         else l < x1 + w / 2 \<and> x2 - w / 2 < r \<and> t < y1 + h / 2 \<and> y2 - h / 2 < b)"

text \<open>\<open>_intersectsWithPointer\<close>: \<open>None\<close> for \<open>false\<close>, else 1 or 2.\<close>

definition intersectsWithPointer :: "sort_config \<Rightarrow> sortable \<Rightarrow> sort_rect \<Rightarrow> nat option" where
  "intersectsWithPointer cfg st it =
     (let overHeight = (so_axis cfg = AxisX \<or> over_axis (snd (so_positionAbs st) + snd (so_click st)) (r_top it) (r_height it));
          overWidth = (so_axis cfg = AxisY \<or> over_axis (fst (so_positionAbs st) + fst (so_click st)) (r_left it) (r_width it))
      in if \<not> (overHeight \<and> overWidth) then None
         else if so_floating st then Some (if horizontalDirection st = Forth \<or> verticalDirection st = Forth then 2 else 1)
         else (case verticalDirection st of Still \<Rightarrow> None | Forth \<Rightarrow> Some 2 | Back \<Rightarrow> Some 1))"

definition intersectsWithSides :: "sortable \<Rightarrow> sort_rect \<Rightarrow> bool" where
  "intersectsWithSides st it =
     (let bottomHalf = over_axis (snd (so_positionAbs st) + snd (so_click st)) (r_top it + r_height it / 2) (r_height it);
          rightHalf = over_axis (fst (so_positionAbs st) + fst (so_click st)) (r_left it + r_width it / 2) (r_width it)
      in if so_floating st \<and> horizontalDirection st \<noteq> Still
         then horizontalDirection st = Forth \<and> rightHalf \<or> horizontalDirection st = Back \<and> \<not> rightHalf
         else verticalDirection st = Forth \<and> bottomHalf \<or> verticalDirection st = Back \<and> \<not> bottomHalf)"

section \<open>Moving the placeholder\<close>

definition rearrange :: "sort_item option \<Rightarrow> nat \<Rightarrow> bool \<Rightarrow> sortable \<Rightarrow> sortable" where
  "rearrange it c hardRefresh st =
     (let d = (case it of
                 None \<Rightarrow> append_child c Placeholder (so_dom st)
               | Some i \<Rightarrow> if direction st = GoDown then put_before Placeholder (Item (si_item i)) (so_dom st)
                            else put_after Placeholder (Item (si_item i)) (so_dom st))
      in st\<lparr>so_dom := d, so_counter := so_counter st + 1, so_timers := so_timers st @ [(so_counter st + 1, \<not> hardRefresh)]\<rparr>)"

definition sort_timer :: "sort_config \<Rightarrow> measures \<Rightarrow> sortable \<Rightarrow> sortable" where
  "sort_timer cfg ms st =
     (case so_timers st of
        [] \<Rightarrow> st
      | (n, fast) # ts \<Rightarrow> let st1 = st\<lparr>so_timers := ts\<rparr> in if n = so_counter st1 then so_refreshPositions cfg fast ms st1 else st1)"

definition movable :: "sort_config \<Rightarrow> sortable \<Rightarrow> sort_item \<Rightarrow> nat \<Rightarrow> bool" where
  "movable cfg st it k \<longleftrightarrow> si_instance it = currentContainer st \<and> si_item it \<noteq> currentItem st \<and>
     (if k = 1 then dom_next (so_containers st) Placeholder (so_dom st) else dom_prev (so_containers st) Placeholder (so_dom st)) \<noteq> Some (Item (si_item it)) \<and>
     (semiDynamic cfg \<longrightarrow> Item (si_item it) \<notin> set (so_dom st (so_self cfg)))"

text \<open>The loop over the items, from the last to the first, up to the first that the placeholder can pass.\<close>

fun find_move :: "sort_config \<Rightarrow> sortable \<Rightarrow> sort_item list \<Rightarrow> (sort_item \<times> nat) option" where
  "find_move cfg st [] = None"
| "find_move cfg st (it # its) =
     (case intersectsWithPointer cfg st (si_rect it) of
        None \<Rightarrow> find_move cfg st its
      | Some k \<Rightarrow> if movable cfg st it k then Some (it, k) else find_move cfg st its)"

definition move_holder :: "sort_config \<Rightarrow> sortable \<Rightarrow> sortable" where
  "move_holder cfg st =
     (case find_move cfg st (rev (so_items st)) of
        None \<Rightarrow> st
      | Some (it, k) \<Rightarrow>
          let st1 = st\<lparr>direction := (if k = 1 then GoDown else GoUp)\<rparr>
          in if pointerTolerance cfg \<or> intersectsWithSides st1 (si_rect it) then so_say [SChange] (rearrange (Some it) 0 False st1) else st1)"

section \<open>Connected containers\<close>

definition contact_one :: "sort_config \<Rightarrow> nat \<Rightarrow> nat option \<times> sortable \<Rightarrow> nat option \<times> sortable" where
  "contact_one cfg c = (\<lambda>(inner, st).
     (if intersectsWith cfg st (so_cache st c)
      then (case inner of
              None \<Rightarrow> (Some c, st)
            | Some k \<Rightarrow> if inner_to cfg c k then (inner, st) else (Some c, st))
      else if so_over st c then (inner, so_say [SOut c] (st\<lparr>so_over := (so_over st)(c := False)\<rparr>))
      else (inner, st)))"

text \<open>The item of a container that is closest to the pointer, and the side of it.\<close>

fun nearest_item :: "(nat \<Rightarrow> rat) \<Rightarrow> (sort_item \<Rightarrow> rat) \<Rightarrow> rat \<Rightarrow> sort_item list \<Rightarrow> rat \<times> (sort_item \<times> sort_direction) option \<Rightarrow> rat \<times> (sort_item \<times> sort_direction) option" where
  "nearest_item offs extent page [] acc = acc"
| "nearest_item offs extent page (it # its) acc =
     (let cur = offs (si_item it); nearBottom = page - cur > extent it / 2
      in nearest_item offs extent page its
           (if \<bar>page - cur\<bar> < fst acc then (\<bar>page - cur\<bar>, Some (it, if nearBottom then GoUp else GoDown)) else acc))"

definition mark_over :: "nat \<Rightarrow> sortable \<Rightarrow> sortable" where
  "mark_over c st = (if so_over st c then st else so_say [SOver c] (st\<lparr>so_over := (so_over st)(c := True)\<rparr>))"

definition closest :: "sort_config \<Rightarrow> (nat \<Rightarrow> rat \<times> rat) \<Rightarrow> rat \<times> rat \<Rightarrow> nat \<Rightarrow> sortable \<Rightarrow> (sort_item \<times> sort_direction) option" where
  "closest cfg offs page c st =
     (let fl = ((if c = so_self cfg then so_floating st else floats cfg c) \<or> is_floating cfg (currentItem st));
          coord = (if fl then fst else snd); extent = (if fl then r_width else r_height);
          its = filter (\<lambda>it. Item (si_item it) \<in> set (so_dom st c) \<and> si_item it \<noteq> currentItem st) (rev (so_items st))
      in snd (nearest_item (\<lambda>i. coord (offs i)) (\<lambda>it. extent (si_rect it)) (coord page) its (10000, None)))"

definition enter_container :: "sort_config \<Rightarrow> (nat \<Rightarrow> rat \<times> rat) \<Rightarrow> rat \<times> rat \<Rightarrow> nat \<Rightarrow> sortable \<Rightarrow> sortable" where
  "enter_container cfg offs page c st =
     (let found = closest cfg offs page c st;
          st1 = (case found of Some (_, dir) \<Rightarrow> st\<lparr>direction := dir\<rparr> | None \<Rightarrow> st)
      in if found = None \<and> \<not> dropOnEmpty cfg then st1
         else if currentContainer st1 = c then mark_over c st1
         else
           let st2 = so_say [SChange, SChangeAt c] (rearrange (map_option fst found) c True st1)
           in so_say [SOver c] (st2\<lparr>currentContainer := c, so_over := (so_over st2)(c := True)\<rparr>))"

definition contactContainers :: "sort_config \<Rightarrow> (nat \<Rightarrow> rat \<times> rat) \<Rightarrow> rat \<times> rat \<Rightarrow> sortable \<Rightarrow> sortable" where
  "contactContainers cfg offs page st =
     (let (inner, st1) = fold (contact_one cfg) (rev (so_containers st)) (None, st)
      in case inner of
           None \<Rightarrow> st1
         | Some c \<Rightarrow> if length (so_containers st1) = 1 then mark_over c st1 else enter_container cfg offs page c st1)"

section \<open>A sort from start to end\<close>

definition sort_capture :: "sort_config \<Rightarrow> nat option \<Rightarrow> bool \<Rightarrow> sortable \<Rightarrow> bool \<times> sortable" where
  "sort_capture cfg target validHandle st =
     (if so_disabled cfg \<or> static_type cfg then (False, st)
      else
        let st1 = refreshItems cfg st
        in case target of
             None \<Rightarrow> (False, st1)
           | Some i \<Rightarrow> if validHandle then (True, st1\<lparr>currentItem := i\<rparr>) else (False, st1))"

definition sort_drag :: "sort_config \<Rightarrow> (nat \<Rightarrow> rat \<times> rat) \<Rightarrow> rat \<times> rat \<Rightarrow> sortable \<Rightarrow> sortable" where
  "sort_drag cfg offs page st =
     (let st1 = st\<lparr>so_position := so_generatePosition cfg page st\<rparr>;
          st2 = st1\<lparr>so_positionAbs := so_convertPosition st1\<rparr>;
          st3 = st2\<lparr>lastPositionAbs := Some (last_abs st2)\<rparr>;
          st4 = so_say [SSort] (contactContainers cfg offs page (move_holder cfg st3))
      in st4\<lparr>lastPositionAbs := Some (so_positionAbs st4)\<rparr>)"

record sort_press =
  sp_page :: "rat \<times> rat"
  sp_offset :: "rat \<times> rat"              \<comment> \<open>the offset of the item without its margins\<close>
  sp_origin :: "rat \<times> rat"
  sp_size :: "rat \<times> rat"
  sp_containment :: "(rat \<times> rat \<times> rat \<times> rat) option"
  sp_measures :: measures
  sp_offsets :: "nat \<Rightarrow> rat \<times> rat"

definition sort_begin :: "sort_config \<Rightarrow> sort_press \<Rightarrow> sortable \<Rightarrow> sortable" where
  "sort_begin cfg sp st =
     (let cur = Item (currentItem st); cs = so_containers st;
          st1 = so_refreshPositions cfg False (sp_measures sp) (st\<lparr>currentContainer := so_self cfg\<rparr>);
          st2 = (if cloneHelper cfg
                 then (case parent_of cs cur (so_dom st1) of Some c \<Rightarrow> st1\<lparr>so_dom := append_child c Helper (so_dom st1)\<rparr> | None \<Rightarrow> st1)
                 else st1);
          st3 = st2\<lparr>so_click := (fst (sp_page sp) - fst (sp_offset sp), snd (sp_page sp) - snd (sp_offset sp)), so_origin := sp_origin sp,
                    originalPage := Some (sp_page sp), so_helperSize := sp_size sp,
                    domPosition := (dom_prev cs cur (so_dom st2), parent_of cs cur (so_dom st2))\<rparr>;
          st4 = st3\<lparr>so_dom := put_after Placeholder cur (so_dom st3), has_placeholder := True, so_containment := sp_containment sp\<rparr>
      in (so_say (SStart # map SActivate (rev cs)) st4)\<lparr>so_dragging := True\<rparr>)"

definition sort_start :: "sort_config \<Rightarrow> sort_press \<Rightarrow> sortable \<Rightarrow> sortable" where
  "sort_start cfg sp st = sort_drag cfg (sp_offsets sp) (sp_page sp) (sort_begin cfg sp st)"

definition moved :: "sortable \<Rightarrow> dom \<Rightarrow> bool" where
  "moved st d \<longleftrightarrow>
     (let cs = so_containers st; cur = Item (currentItem st); p = dom_prev cs cur d
      in fst (domPosition st) \<noteq> (if p = Some Helper then None else p) \<or> snd (domPosition st) \<noteq> parent_of cs cur d)"

definition sort_clear :: "sort_config \<Rightarrow> sortable \<Rightarrow> sortable" where
  "sort_clear cfg st =
     (let cs = so_containers st; cur = Item (currentItem st);
          d1 = (if parent_of cs cur (so_dom st) \<noteq> None then put_before cur Placeholder (so_dom st) else so_dom st);
          delayed = (if moved st d1 then [SUpdate] else []) @
            (if so_self cfg \<noteq> currentContainer st then [SRemove, SReceiveAt (currentContainer st), SUpdateAt (currentContainer st)] else []) @
            concat (map (\<lambda>c. SDeactivate c # (if so_over st c then [SOut c] else [])) (rev cs));
          st1 = st\<lparr>so_dom := remove_node Helper (remove_node Placeholder d1), so_over := (\<lambda>c. so_over st c \<and> c \<notin> set cs), so_dragging := False\<rparr>
      in so_say (SBeforeStop # delayed @ [SStopped]) st1)"

definition sort_stop :: "sort_config \<Rightarrow> sortable \<Rightarrow> sortable" where
  "sort_stop cfg st = sort_clear cfg st"

definition sort_cancel :: "sort_config \<Rightarrow> sortable \<Rightarrow> sortable" where
  "sort_cancel cfg st =
     (let cur = Item (currentItem st);
          st1 = (if so_dragging st
                 then let s = sort_clear cfg st
                      in so_say (concat (map (\<lambda>c. SDeactivate c # (if so_over s c then [SOut c] else [])) (rev (so_containers s))))
                           (s\<lparr>so_over := (\<lambda>c. so_over s c \<and> c \<notin> set (so_containers s))\<rparr>)
                 else st)
      in if has_placeholder st1
         then let d = remove_node Helper (remove_node Placeholder (so_dom st1))
              in st1\<lparr>so_dragging := False,
                     so_dom := (case domPosition st1 of
                                  (Some p, _) \<Rightarrow> put_after cur p d
                                | (None, Some c) \<Rightarrow> prepend_child c cur d
                                | (None, None) \<Rightarrow> d)\<rparr>
         else st1)"

section \<open>Reading the order\<close>

definition own_sorted :: "sort_config \<Rightarrow> sortable \<Rightarrow> nat list" where
  "own_sorted cfg st = filter (\<lambda>i. \<not> (so_dragging st \<and> \<not> cloneHelper cfg \<and> i = currentItem st)) (item_nodes (so_dom st (so_self cfg)))"

definition sort_toArray :: "sort_config \<Rightarrow> (nat \<Rightarrow> string) \<Rightarrow> sortable \<Rightarrow> string list" where
  "sort_toArray cfg ids st = map ids (own_sorted cfg st)"

text \<open>The match of an identifier with \<open>(.+)[-=_](.+)\<close>: the last separator that leaves something on both sides.\<close>

definition split_id :: "string \<Rightarrow> (string \<times> string) option" where
  "split_id s =
     (case filter (\<lambda>k. s ! k \<in> set ''-=_'') (rev [1..<length s - 1]) of
        [] \<Rightarrow> None
      | k # _ \<Rightarrow> Some (take k s, drop (Suc k) s))"

definition sort_serialize :: "sort_config \<Rightarrow> (nat \<Rightarrow> string) \<Rightarrow> sortable \<Rightarrow> string" where
  "sort_serialize cfg ids st =
     join ''&'' (concat (map (\<lambda>i. case split_id (ids i) of None \<Rightarrow> [] | Some (a, b) \<Rightarrow> [a @ ''[]='' @ b]) (own_sorted cfg st)))"

section \<open>Lists of nodes\<close>

lemma filter_ins [simp]: "filter (\<lambda>x. x \<noteq> n) (ins_before n m xs) = filter (\<lambda>x. x \<noteq> n) xs"
  "filter (\<lambda>x. x \<noteq> n) (ins_after n m xs) = filter (\<lambda>x. x \<noteq> n) xs"
  by (induction xs) auto

lemma set_ins [simp]: "set (ins_before n m xs) = set xs \<union> (if m \<in> set xs then {n} else {})"
  "set (ins_after n m xs) = set xs \<union> (if m \<in> set xs then {n} else {})"
  by (induction xs) auto

lemma distinct_ins: "distinct xs \<Longrightarrow> n \<notin> set xs \<Longrightarrow> distinct (ins_before n m xs) \<and> distinct (ins_after n m xs)"
  by (induction xs) auto

lemma prev_in: "prev_of a xs = Some p \<Longrightarrow> p \<in> set xs"
  by (induction a xs rule: prev_of.induct) (auto split: if_splits)

lemma prev_restores: "distinct xs \<Longrightarrow> prev_of a xs = Some p \<Longrightarrow> ins_after a p (filter (\<lambda>x. x \<noteq> a) xs) = xs"
proof (induction a xs rule: prev_of.induct)
  case (1 n x y xs)
  have "filter (\<lambda>z. z \<noteq> n) xs = xs" if "n \<notin> set xs" using that by (induction xs) auto
  with 1 show ?case by (auto split: if_splits dest: prev_in)
qed auto

lemma prev_None: "a \<in> set xs \<Longrightarrow> distinct xs \<Longrightarrow> prev_of a xs = None \<Longrightarrow> a # filter (\<lambda>x. x \<noteq> a) xs = xs"
proof (induction a xs rule: prev_of.induct)
  case (1 n x y xs)
  have "filter (\<lambda>z. z \<noteq> n) ys = ys" if "n \<notin> set ys" for ys using that by (induction ys) auto
  with 1 show ?case by (auto split: if_splits)
qed auto

lemma prev_filter: "distinct xs \<Longrightarrow> a \<noteq> b \<Longrightarrow> prev_of a xs \<noteq> Some b \<Longrightarrow> prev_of a (filter (\<lambda>x. x \<noteq> b) xs) = prev_of a xs"
proof (induction a xs rule: prev_of.induct)
  case (1 n x y xs)
  have "filter (\<lambda>x. x \<noteq> b) xs = xs" if "b \<notin> set xs" using that by (induction xs) auto
  with 1 show ?case by (cases "filter (\<lambda>x. x \<noteq> b) xs"; cases "y = b") (auto split: if_splits)
qed auto

section \<open>Documents\<close>

definition wf_dom :: "nat list \<Rightarrow> dom \<Rightarrow> bool" where
  "wf_dom cs d \<longleftrightarrow> (\<forall>c. distinct (d c)) \<and> (\<forall>c c'. c \<noteq> c' \<longrightarrow> set (d c) \<inter> set (d c') = {}) \<and> (\<forall>c. c \<notin> set cs \<longrightarrow> d c = [])"

definition has_node :: "sort_node \<Rightarrow> dom \<Rightarrow> bool" where
  "has_node n d \<longleftrightarrow> (\<exists>c. n \<in> set (d c))"

lemma remove_put [simp]: "remove_node n (put_before n m d) = remove_node n d" "remove_node n (put_after n m d) = remove_node n d"
  "remove_node n (append_child c n d) = remove_node n d" "remove_node n (prepend_child c n d) = remove_node n d"
  by (auto simp: fun_eq_iff remove_node_def put_before_def put_after_def append_child_def prepend_child_def)

lemma remove_comm: "remove_node n (remove_node m d) = remove_node m (remove_node n d)"
  by (simp add: remove_node_def conj_commute)

lemma remove_id: "\<not> has_node n d \<Longrightarrow> remove_node n d = d"
  by (rule ext) (auto simp: remove_node_def has_node_def intro!: filter_True)

lemma has_remove [simp]: "has_node m (remove_node n d) \<longleftrightarrow> m \<noteq> n \<and> has_node m d"
  by (auto simp: has_node_def remove_node_def)

lemma wf_remove: "wf_dom cs d \<Longrightarrow> wf_dom cs (remove_node n d)"
  unfolding wf_dom_def remove_node_def by fastforce

lemma has_put: "m \<noteq> n \<Longrightarrow> has_node m d \<Longrightarrow> has_node n (put_before n m d) \<and> has_node n (put_after n m d)"
  by (auto simp: has_node_def put_before_def put_after_def remove_node_def)

lemma has_child [simp]: "has_node n (append_child c n d)" "has_node n (prepend_child c n d)"
  by (auto simp: has_node_def append_child_def prepend_child_def)

lemma wf_insert:
  assumes "wf_dom cs d" "\<And>c. n \<notin> set (d c)" "\<And>c. distinct (d' c)" "\<And>c. set (d' c) = set (d c) \<union> (if c \<in> C then {n} else {})"
    "\<And>c c'. c \<in> C \<Longrightarrow> c' \<in> C \<Longrightarrow> c = c'" "C \<subseteq> set cs"
  shows "wf_dom cs d'"
  unfolding wf_dom_def
proof (intro conjI allI impI)
  show "distinct (d' c)" for c by (rule assms(3))
  show "set (d' c) \<inter> set (d' c') = {}" if "c \<noteq> c'" for c c'
  proof -
    have "set (d c) \<inter> set (d c') = {}" using assms(1) that by (simp add: wf_dom_def)
    moreover have "\<not> (c \<in> C \<and> c' \<in> C)" using assms(5) that by blast
    ultimately show ?thesis using assms(2) [of c] assms(2) [of c'] by (auto simp: assms(4) disjoint_iff)
  qed
  show "d' c = []" if "c \<notin> set cs" for c
  proof -
    have "d c = []" "c \<notin> C" using assms(1,6) that by (auto simp: wf_dom_def)
    then have "set (d' c) = {}" by (simp add: assms(4))
    then show ?thesis by simp
  qed
qed

lemma wf_put: assumes "wf_dom cs d" "m \<noteq> n" shows "wf_dom cs (put_before n m d)" "wf_dom cs (put_after n m d)"
proof -
  let ?d = "remove_node n d" and ?C = "{c. m \<in> set (remove_node n d c)}"
  have w: "wf_dom cs ?d" by (rule wf_remove [OF assms(1)])
  have n: "n \<notin> set (?d c)" for c by (simp add: remove_node_def)
  have dist: "distinct (?d c)" for c using w by (simp add: wf_dom_def)
  have one: "c = c'" if "c \<in> ?C" "c' \<in> ?C" for c c' using w that unfolding wf_dom_def by blast
  have sub: "?C \<subseteq> set cs"
  proof
    fix c assume "c \<in> ?C"
    then show "c \<in> set cs" using w by (cases "c \<in> set cs") (auto simp: wf_dom_def)
  qed
  have "distinct (put_before n m d c)" "distinct (put_after n m d c)" for c
    using distinct_ins [OF dist n] by (simp_all add: put_before_def put_after_def)
  moreover have "set (put_before n m d c) = set (?d c) \<union> (if c \<in> ?C then {n} else {})"
    "set (put_after n m d c) = set (?d c) \<union> (if c \<in> ?C then {n} else {})" for c by (simp_all add: put_before_def put_after_def)
  ultimately show "wf_dom cs (put_before n m d)" "wf_dom cs (put_after n m d)"
    using wf_insert [OF w n _ _ one sub] by blast+
qed

lemma wf_child: assumes "wf_dom cs d" "c \<in> set cs" shows "wf_dom cs (append_child c n d)" "wf_dom cs (prepend_child c n d)"
proof -
  let ?d = "remove_node n d"
  have w: "wf_dom cs ?d" by (rule wf_remove [OF assms(1)])
  have n: "n \<notin> set (?d x)" for x by (simp add: remove_node_def)
  have dist: "distinct (?d x)" for x using w by (simp add: wf_dom_def)
  have "distinct (append_child c n d x)" "distinct (prepend_child c n d x)" for x
    using dist n by (simp_all add: append_child_def prepend_child_def)
  moreover have "set (append_child c n d x) = set (?d x) \<union> (if x \<in> {c} then {n} else {})"
    "set (prepend_child c n d x) = set (?d x) \<union> (if x \<in> {c} then {n} else {})" for x by (simp_all add: append_child_def prepend_child_def)
  ultimately show "wf_dom cs (append_child c n d)" "wf_dom cs (prepend_child c n d)"
    using wf_insert [OF w n, of _ "{c}"] assms(2) by auto
qed

lemma parent_iff: "wf_dom cs d \<Longrightarrow> parent_of cs n d = Some c \<longleftrightarrow> n \<in> set (d c)"
proof
  show "n \<in> set (d c)" if "parent_of cs n d = Some c" using that by (auto simp: parent_of_def find_Some_iff)
  assume w: "wf_dom cs d" and n: "n \<in> set (d c)"
  have "List.find (\<lambda>c. n \<in> set (d c)) xs = (if c \<in> set xs then Some c else None)" for xs
    using n w by (induction xs) (auto simp: wf_dom_def)
  moreover have "c \<in> set cs" using n w by (cases "c \<in> set cs") (auto simp: wf_dom_def)
  ultimately show "parent_of cs n d = Some c" by (simp add: parent_of_def)
qed

lemma parent_some: "wf_dom cs d \<Longrightarrow> has_node n d \<Longrightarrow> \<exists>c. parent_of cs n d = Some c"
  using parent_iff by (simp add: has_node_def)

text \<open>A node is back in its place when it stands behind its old neighbour or first in its old container.\<close>

definition put_back :: "sort_node \<Rightarrow> sort_node option \<times> nat option \<Rightarrow> dom \<Rightarrow> dom" where
  "put_back n pos d = (case pos of (Some p, _) \<Rightarrow> put_after n p d | (None, Some c) \<Rightarrow> prepend_child c n d | (None, None) \<Rightarrow> d)"

lemma put_back_restores:
  assumes "wf_dom cs d0" "has_node n d0" "remove_node n d = remove_node n d0"
  shows "put_back n (dom_prev cs n d0, parent_of cs n d0) d = d0"
proof -
  obtain c where c: "parent_of cs n d0 = Some c" using parent_some [OF assms(1,2)] by blast
  then have nc: "n \<in> set (d0 c)" using parent_iff [OF assms(1)] by simp
  have other: "n \<notin> set (d0 x)" if "x \<noteq> c" for x using assms(1) nc that by (auto simp: wf_dom_def)
  have dist: "distinct (d0 c)" using assms(1) by (simp add: wf_dom_def)
  have rest: "remove_node n d x = d0 x" if "x \<noteq> c" for x using other [OF that] by (simp add: assms(3)) (auto simp: remove_node_def intro!: filter_True)
  have r: "remove_node n d c = filter (\<lambda>x. x \<noteq> n) (d0 c)" by (simp add: assms(3)) (simp add: remove_node_def)
  show ?thesis
  proof (cases "prev_of n (d0 c)")
    case None
    then have "n # remove_node n d c = d0 c" using prev_None [OF nc dist] r by simp
    then show ?thesis using None rest c by (auto simp: put_back_def dom_prev_def prepend_child_def fun_eq_iff)
  next
    case (Some p)
    have p: "p \<in> set (d0 c)" by (rule prev_in [OF Some])
    then have "p \<notin> set (d0 x)" if "x \<noteq> c" for x using assms(1) that by (auto simp: wf_dom_def)
    moreover have "ins_after n p xs = xs" if "p \<notin> set xs" for xs using that by (induction xs) auto
    ultimately have "put_after n p d x = d0 x" if "x \<noteq> c" for x using rest [OF that] that by (simp add: put_after_def)
    moreover have "put_after n p d c = d0 c" using prev_restores [OF dist Some] r by (simp add: put_after_def)
    ultimately have "put_after n p d = d0" by (intro ext) metis
    then show ?thesis using Some c by (simp add: put_back_def dom_prev_def)
  qed
qed

section \<open>A sort only moves the placeholder\<close>

definition sorting :: "nat list \<Rightarrow> nat \<Rightarrow> dom \<Rightarrow> sort_node option \<times> nat option \<Rightarrow> sortable \<Rightarrow> bool" where
  "sorting cs i d0 pos st \<longleftrightarrow> so_containers st = cs \<and> currentItem st = i \<and> domPosition st = pos \<and> so_dragging st \<and> has_placeholder st \<and>
     wf_dom cs (so_dom st) \<and> has_node Placeholder (so_dom st) \<and> remove_node Placeholder (so_dom st) = d0 \<and>
     (\<forall>it \<in> set (so_items st). has_node (Item (si_item it)) d0)"

lemma sorting_updates [simp]:
  "sorting cs i d0 pos (so_say ls st) = sorting cs i d0 pos st" "sorting cs i d0 pos (st\<lparr>direction := dr\<rparr>) = sorting cs i d0 pos st"
  "sorting cs i d0 pos (st\<lparr>so_over := ov\<rparr>) = sorting cs i d0 pos st" "sorting cs i d0 pos (st\<lparr>currentContainer := c\<rparr>) = sorting cs i d0 pos st"
  "sorting cs i d0 pos (st\<lparr>so_position := p\<rparr>) = sorting cs i d0 pos st" "sorting cs i d0 pos (st\<lparr>so_positionAbs := p\<rparr>) = sorting cs i d0 pos st"
  "sorting cs i d0 pos (st\<lparr>lastPositionAbs := q\<rparr>) = sorting cs i d0 pos st" "sorting cs i d0 pos (st\<lparr>so_timers := ts\<rparr>) = sorting cs i d0 pos st"
  by (simp_all add: sorting_def so_say_def)

lemma sorting_mark [simp]: "sorting cs i d0 pos (mark_over c st) = sorting cs i d0 pos st"
  by (simp add: mark_over_def)

lemma rearrange_ok:
  assumes "sorting cs i d0 pos st" "\<And>x. it = Some x \<Longrightarrow> x \<in> set (so_items st)" "it = None \<Longrightarrow> c \<in> set cs"
  shows "sorting cs i d0 pos (rearrange it c h st)"
proof (cases it)
  case None
  then show ?thesis using assms(1,3) wf_child by (simp add: sorting_def rearrange_def Let_def)
next
  case (Some x)
  have "has_node (Item (si_item x)) d0" using assms(1,2) Some by (simp add: sorting_def)
  then have "has_node (Item (si_item x)) (so_dom st)" using assms(1) by (auto simp: sorting_def)
  then show ?thesis using assms(1) Some wf_put [of cs "so_dom st"] has_put [of _ Placeholder "so_dom st"] by (auto simp: sorting_def rearrange_def Let_def)
qed

lemma refresh_sorting: "sorting cs i d0 pos st \<Longrightarrow> sorting cs i d0 pos (so_refreshPositions cfg fast ms st)"
  by (auto simp: sorting_def so_refreshPositions_def measure_item_def Let_def)

lemma timer_sorting: "sorting cs i d0 pos st \<Longrightarrow> sorting cs i d0 pos (sort_timer cfg ms st)"
  by (auto simp: sort_timer_def Let_def intro: refresh_sorting split: list.split)

lemma find_move_in: "find_move cfg st its = Some (it, k) \<Longrightarrow> it \<in> set its"
  by (induction its) (auto split: option.splits if_splits)

lemma move_holder_sorting: "sorting cs i d0 pos st \<Longrightarrow> sorting cs i d0 pos (move_holder cfg st)"
  by (auto simp: move_holder_def Let_def intro!: rearrange_ok dest: find_move_in split: option.split)

lemma contact_inner:
  assumes "sorting cs i d0 pos st" "set xs \<subseteq> set cs" "\<And>k. inner = Some k \<Longrightarrow> k \<in> set cs" "fold (contact_one cfg) xs (inner, st) = (inner', st')"
  shows "sorting cs i d0 pos st' \<and> (\<forall>k. inner' = Some k \<longrightarrow> k \<in> set cs)"
  using assms
proof (induction xs arbitrary: inner st)
  case (Cons x xs)
  obtain i1 s1 where one: "contact_one cfg x (inner, st) = (i1, s1)" by fastforce
  have "sorting cs i d0 pos s1" "\<And>k. i1 = Some k \<Longrightarrow> k \<in> set cs"
    using one Cons.prems(1-3) by (auto simp: contact_one_def split: if_splits option.splits)
  then show ?case using Cons.IH [of s1 i1] Cons.prems(2,4) one by simp
qed simp

lemma nearest_in: "snd (nearest_item offs e p its acc) = Some (it, dr) \<Longrightarrow> it \<in> set its \<or> snd acc = Some (it, dr)"
  by (induction offs e p its acc rule: nearest_item.induct) (auto simp: Let_def split: if_splits)

lemma closest_in: "closest cfg offs page c st = Some (it, dr) \<Longrightarrow> it \<in> set (so_items st)"
  unfolding closest_def Let_def by (drule nearest_in) auto

lemma enter_sorting:
  assumes "sorting cs i d0 pos st" "c \<in> set cs"
  shows "sorting cs i d0 pos (enter_container cfg offs page c st)"
proof (cases "closest cfg offs page c st")
  case None
  have "sorting cs i d0 pos (rearrange None c True st)" by (rule rearrange_ok) (use assms in simp_all)
  then show ?thesis using assms(1) None by (simp add: enter_container_def Let_def)
next
  case (Some f)
  obtain it dr where f: "f = (it, dr)" by fastforce
  have "sorting cs i d0 pos (rearrange (Some it) c True (st\<lparr>direction := dr\<rparr>))"
    by (rule rearrange_ok) (use assms closest_in Some f in simp_all)
  then show ?thesis using assms(1) Some f by (simp add: enter_container_def Let_def)
qed

lemma contact_sorting: "sorting cs i d0 pos st \<Longrightarrow> sorting cs i d0 pos (contactContainers cfg offs page st)"
proof -
  assume s: "sorting cs i d0 pos st"
  obtain inner st' where f: "fold (contact_one cfg) (rev (so_containers st)) (None, st) = (inner, st')" by fastforce
  have "sorting cs i d0 pos st' \<and> (\<forall>k. inner = Some k \<longrightarrow> k \<in> set cs)"
    by (rule contact_inner [OF s _ _ f]) (use s in \<open>simp_all add: sorting_def\<close>)
  then show ?thesis using f by (auto simp: contactContainers_def intro: enter_sorting split: option.split)
qed

lemma drag_sorting: "sorting cs i d0 pos st \<Longrightarrow> sorting cs i d0 pos (sort_drag cfg offs page st)"
  by (simp add: sort_drag_def Let_def contact_sorting move_holder_sorting)

text \<open>What happens between the press and the release: moves of the mouse and the timers of refreshes.\<close>

datatype sort_input = Move "nat \<Rightarrow> rat \<times> rat" "rat \<times> rat" | Refreshed measures

fun sort_step :: "sort_config \<Rightarrow> sort_input \<Rightarrow> sortable \<Rightarrow> sortable" where
  "sort_step cfg (Move offs page) = sort_drag cfg offs page"
| "sort_step cfg (Refreshed ms) = sort_timer cfg ms"

interpretation sorts: invariant_system "sort_step cfg" "\<lambda>_ _. True" "sorting cs i d0 pos" for cfg cs i d0 pos
proof
  show "sorting cs i d0 pos s \<Longrightarrow> True \<Longrightarrow> sorting cs i d0 pos (sort_step cfg e s)" for s e
    by (cases e) (simp_all add: drag_sorting timer_sorting)
qed

section \<open>The end of a sort\<close>

definition clear_dom :: "nat list \<Rightarrow> nat \<Rightarrow> dom \<Rightarrow> dom" where
  "clear_dom cs i d = remove_node Helper (remove_node Placeholder (put_before (Item i) Placeholder d))"

lemma clear_fields:
  assumes "sorting cs i d0 pos st" "has_node (Item i) d0"
  shows "so_dom (sort_clear cfg st) = clear_dom cs i (so_dom st)" "domPosition (sort_clear cfg st) = pos" "has_placeholder (sort_clear cfg st)"
    "currentItem (sort_clear cfg st) = i" "\<not> so_dragging (sort_clear cfg st)"
proof -
  have "has_node (Item i) (so_dom st)" using assms by (auto simp: sorting_def)
  then have "parent_of cs (Item i) (so_dom st) \<noteq> None" using parent_some assms(1) by (auto simp: sorting_def)
  then show "so_dom (sort_clear cfg st) = clear_dom cs i (so_dom st)" "domPosition (sort_clear cfg st) = pos" "has_placeholder (sort_clear cfg st)"
    "currentItem (sort_clear cfg st) = i" "\<not> so_dragging (sort_clear cfg st)"
    using assms(1) by (simp_all add: sort_clear_def so_say_def clear_dom_def sorting_def Let_def)
qed

lemma clear_dom_result:
  assumes "sorting cs i d0 pos st" "has_node (Item i) d0"
  shows "remove_node (Item i) (clear_dom cs i (so_dom st)) = remove_node (Item i) (remove_node Helper d0)"
    "wf_dom cs (clear_dom cs i (so_dom st))" "has_node (Item i) (clear_dom cs i (so_dom st))"
    "\<not> has_node Placeholder (clear_dom cs i (so_dom st))" "\<not> has_node Helper (clear_dom cs i (so_dom st))"
proof -
  let ?p = "put_before (Item i) Placeholder (so_dom st)"
  have st: "wf_dom cs (so_dom st)" "has_node Placeholder (so_dom st)" "remove_node Placeholder (so_dom st) = d0"
    using assms(1) by (simp_all add: sorting_def)
  have "remove_node (Item i) (clear_dom cs i (so_dom st)) = remove_node Helper (remove_node Placeholder (remove_node (Item i) ?p))"
    by (simp add: clear_dom_def remove_comm)
  also have "\<dots> = remove_node Helper (remove_node (Item i) d0)" using st(3) by (simp add: remove_comm [of Placeholder])
  finally show "remove_node (Item i) (clear_dom cs i (so_dom st)) = remove_node (Item i) (remove_node Helper d0)" by (simp add: remove_comm)
  show "wf_dom cs (clear_dom cs i (so_dom st))" unfolding clear_dom_def by (intro wf_remove wf_put st(1)) simp
  have "has_node (Item i) ?p" using has_put [of Placeholder "Item i"] st(2) by simp
  then show "has_node (Item i) (clear_dom cs i (so_dom st))" "\<not> has_node Placeholder (clear_dom cs i (so_dom st))"
    "\<not> has_node Helper (clear_dom cs i (so_dom st))" by (simp_all add: clear_dom_def)
qed

lemma cancel_dom:
  assumes "sorting cs i d0 pos st" "has_node (Item i) d0"
  shows "so_dom (sort_cancel cfg st) = put_back (Item i) pos (clear_dom cs i (so_dom st))"
    "so_dom (sort_cancel cfg (sort_stop cfg st)) = put_back (Item i) pos (clear_dom cs i (so_dom st))"
proof -
  let ?d = "clear_dom cs i (so_dom st)"
  have id: "remove_node Helper (remove_node Placeholder ?d) = ?d" using clear_dom_result(4,5) [OF assms] by (simp add: remove_id)
  note f = clear_fields [OF assms, of cfg]
  have "so_dragging st" "currentItem st = i" using assms(1) by (simp_all add: sorting_def)
  then show "so_dom (sort_cancel cfg st) = put_back (Item i) pos ?d"
    using f id by (simp add: sort_cancel_def put_back_def so_say_def Let_def)
  show "so_dom (sort_cancel cfg (sort_stop cfg st)) = put_back (Item i) pos ?d"
    using f id by (simp add: sort_cancel_def sort_stop_def put_back_def Let_def)
qed

text \<open>The document at the start, and the press.\<close>

definition ready_page :: "sort_config \<Rightarrow> sortable \<Rightarrow> bool" where
  "ready_page cfg st \<longleftrightarrow> wf_dom (so_self cfg # so_connected cfg) (so_dom st) \<and> \<not> has_node Placeholder (so_dom st) \<and> \<not> has_node Helper (so_dom st)"

definition start_dom :: "sort_config \<Rightarrow> nat \<Rightarrow> dom \<Rightarrow> dom" where
  "start_dom cfg i d =
     (if cloneHelper cfg then (case parent_of (so_self cfg # so_connected cfg) (Item i) d of Some c \<Rightarrow> append_child c Helper d | None \<Rightarrow> d) else d)"

abbreviation old_place :: "sort_config \<Rightarrow> nat \<Rightarrow> dom \<Rightarrow> sort_node option \<times> nat option" where
  "old_place cfg i d \<equiv> (dom_prev (so_self cfg # so_connected cfg) (Item i) d, parent_of (so_self cfg # so_connected cfg) (Item i) d)"

lemma prev_append: "a \<in> set xs \<Longrightarrow> prev_of a (xs @ [b]) = prev_of a xs"
  by (induction a xs rule: prev_of.induct) (auto simp: neq_Nil_conv split: list.split)

lemma start_dom_same:
  assumes "wf_dom (so_self cfg # so_connected cfg) d" "\<not> has_node Helper d" "has_node (Item i) d"
  shows "wf_dom (so_self cfg # so_connected cfg) (start_dom cfg i d)" "remove_node Helper (start_dom cfg i d) = d"
    "old_place cfg i (start_dom cfg i d) = old_place cfg i d" "\<And>k. has_node (Item k) (start_dom cfg i d) = has_node (Item k) d"
proof -
  let ?cs = "so_self cfg # so_connected cfg"
  obtain c where c: "parent_of ?cs (Item i) d = Some c" using parent_some [OF assms(1,3)] by blast
  have ic: "Item i \<in> set (d c)" using c parent_iff [OF assms(1)] by simp
  then have cc: "c \<in> set ?cs" using assms(1) by (cases "c \<in> set ?cs") (auto simp: wf_dom_def)
  have s: "start_dom cfg i d = (if cloneHelper cfg then append_child c Helper d else d)" using c by (simp add: start_dom_def)
  show w: "wf_dom ?cs (start_dom cfg i d)" using wf_child(1) [OF assms(1) cc] assms(1) by (simp only: s split: if_split) simp
  show r: "remove_node Helper (start_dom cfg i d) = d" using remove_id [OF assms(2)] by (simp add: s)
  show "has_node (Item k) (start_dom cfg i d) = has_node (Item k) d" for k using has_remove [of "Item k" Helper "start_dom cfg i d"] r by simp
  have d: "start_dom cfg i d c = (if cloneHelper cfg then d c @ [Helper] else d c)" using remove_id [OF assms(2)] by (simp add: s append_child_def)
  have p: "parent_of ?cs (Item i) (start_dom cfg i d) = Some c" using parent_iff [OF w] d ic by auto
  have "prev_of (Item i) (start_dom cfg i d c) = prev_of (Item i) (d c)" using d prev_append [OF ic] by simp
  then show "old_place cfg i (start_dom cfg i d) = old_place cfg i d" using p c by (simp add: dom_prev_def)
qed

lemma items_in: "k \<in> set (item_nodes ns) \<longleftrightarrow> Item k \<in> set ns"
  by (induction ns) (auto simp: item_nodes_def split: sort_node.split)

lemma start_sorting:
  assumes "ready_page cfg st" "has_node (Item i) (so_dom st)" "sort_capture cfg (Some i) True st = (True, st1)"
  shows "sorting (so_self cfg # so_connected cfg) i (start_dom cfg i (so_dom st)) (old_place cfg i (so_dom st)) (sort_start cfg sp st1)"
proof -
  let ?cs = "so_self cfg # so_connected cfg" and ?d = "so_dom st"
  have p: "wf_dom ?cs ?d" "\<not> has_node Placeholder ?d" "\<not> has_node Helper ?d" using assms(1) by (simp_all add: ready_page_def)
  note s = start_dom_same [OF p(1,3) assms(2)]
  have st1: "st1 = (refreshItems cfg st)\<lparr>currentItem := i\<rparr>" using assms(3) by (simp add: sort_capture_def Let_def split: if_splits)
  have c: "so_containers st1 = ?cs" "currentItem st1 = i" "so_dom st1 = ?d" by (simp_all add: st1 refreshItems_def Let_def)
  have items: "has_node (Item (si_item it)) ?d" if "it \<in> set (so_items st1)" for it
    using that by (auto simp: st1 refreshItems_def Let_def items_in has_node_def)
  have hp: "\<not> has_node Placeholder (start_dom cfg i ?d)" using p(2) has_remove [of Placeholder Helper "start_dom cfg i ?d"] s(2) by simp
  let ?b = "sort_begin cfg sp st1"
  have b: "so_containers ?b = ?cs" "currentItem ?b = i" "so_dragging ?b" "has_placeholder ?b"
    "so_dom ?b = put_after Placeholder (Item i) (start_dom cfg i ?d)" "domPosition ?b = old_place cfg i (start_dom cfg i ?d)"
    "map si_item (so_items ?b) = map si_item (so_items st1)"
    using c by (auto simp: sort_begin_def so_refreshPositions_def so_say_def start_dom_def measure_item_def Let_def split: option.split)
  have "sorting ?cs i (start_dom cfg i ?d) (old_place cfg i ?d) ?b"
  proof -
    have "\<forall>k \<in> set (map si_item (so_items ?b)). has_node (Item k) (start_dom cfg i ?d)" using items s(4) by (auto simp: b(7))
    then have "\<forall>it \<in> set (so_items ?b). has_node (Item (si_item it)) (start_dom cfg i ?d)" by simp
    moreover have "remove_node Placeholder (so_dom ?b) = start_dom cfg i ?d" using remove_id [OF hp] by (simp add: b(5))
    moreover have "wf_dom ?cs (so_dom ?b)" "has_node Placeholder (so_dom ?b)"
      unfolding b(5) using wf_put(2) [OF s(1), of "Item i" Placeholder] has_put [of "Item i" Placeholder] assms(2) s(4) by auto
    ultimately show ?thesis using b s(3) by (simp add: sorting_def)
  qed
  then show ?thesis unfolding sort_start_def by (rule drag_sorting)
qed

lemma sort_run:
  assumes "ready_page cfg st" "has_node (Item i) (so_dom st)" "sort_capture cfg (Some i) True st = (True, st1)"
    "st2 = fold (sort_step cfg) es (sort_start cfg sp st1)"
  shows "sorting (so_self cfg # so_connected cfg) i (start_dom cfg i (so_dom st)) (old_place cfg i (so_dom st)) st2"
    "has_node (Item i) (start_dom cfg i (so_dom st))"
    "remove_node (Item i) (clear_dom (so_self cfg # so_connected cfg) i (so_dom st2)) = remove_node (Item i) (so_dom st)"
proof -
  show s: "sorting (so_self cfg # so_connected cfg) i (start_dom cfg i (so_dom st)) (old_place cfg i (so_dom st)) st2"
    unfolding assms(4) by (rule sorts.run_inv [OF start_sorting [OF assms(1-3)] legal_True])
  have p: "wf_dom (so_self cfg # so_connected cfg) (so_dom st)" "\<not> has_node Helper (so_dom st)" using assms(1) by (simp_all add: ready_page_def)
  show h: "has_node (Item i) (start_dom cfg i (so_dom st))" using start_dom_same(4) [OF p assms(2)] assms(2) by simp
  show "remove_node (Item i) (clear_dom (so_self cfg # so_connected cfg) i (so_dom st2)) = remove_node (Item i) (so_dom st)"
    using clear_dom_result(1) [OF s h] start_dom_same(2) [OF p assms(2)] by simp
qed

text \<open>
  C10. A sort moves one item and nothing else: whatever the mouse does between the press and the release,
  over any number of connected lists, every list keeps its other items in their order, the item
  dragged is in exactly one list, once, and neither placeholder nor helper is left behind.
\<close>

theorem sort_moves_one:
  assumes "ready_page cfg st" "has_node (Item i) (so_dom st)" "sort_capture cfg (Some i) True st = (True, st1)"
    "d = so_dom (sort_stop cfg (fold (sort_step cfg) es (sort_start cfg sp st1)))"
  shows "(\<forall>c. filter (\<lambda>n. n \<noteq> Item i) (d c) = filter (\<lambda>n. n \<noteq> Item i) (so_dom st c)) \<and> (\<exists>!c. Item i \<in> set (d c)) \<and>
    (\<forall>c. distinct (d c)) \<and> (\<forall>c. Placeholder \<notin> set (d c) \<and> Helper \<notin> set (d c))"
proof -
  note r = sort_run [OF assms(1-3), where es = es and sp = sp, OF refl]
  note c = clear_dom_result [OF r(1,2)]
  have d: "d = clear_dom (so_self cfg # so_connected cfg) i (so_dom (fold (sort_step cfg) es (sort_start cfg sp st1)))"
    unfolding assms(4) sort_stop_def by (rule clear_fields(1) [OF r(1,2)])
  have "filter (\<lambda>n. n \<noteq> Item i) (d c) = filter (\<lambda>n. n \<noteq> Item i) (so_dom st c)" for c
    using fun_cong [OF r(3), of c] by (simp add: d remove_node_def)
  moreover have "\<exists>!c. Item i \<in> set (d c)" using c(2,3) unfolding d [symmetric] has_node_def wf_dom_def by blast
  moreover have "distinct (d c)" for c using c(2) by (simp add: d wf_dom_def)
  moreover have "Placeholder \<notin> set (d c)" "Helper \<notin> set (d c)" for c using c(4,5) by (auto simp: d has_node_def)
  ultimately show ?thesis by blast
qed

text \<open>
  Cancelling a sort, while it goes on or after it has ended, restores the lists exactly as they were
  before the press.
\<close>

theorem cancel_restores:
  assumes "ready_page cfg st" "has_node (Item i) (so_dom st)" "sort_capture cfg (Some i) True st = (True, st1)"
    "st2 = fold (sort_step cfg) es (sort_start cfg sp st1)"
  shows "so_dom (sort_cancel cfg st2) = so_dom st \<and> so_dom (sort_cancel cfg (sort_stop cfg st2)) = so_dom st"
proof -
  note r = sort_run [OF assms]
  have "wf_dom (so_self cfg # so_connected cfg) (so_dom st)" using assms(1) by (simp add: ready_page_def)
  from put_back_restores [OF this assms(2) r(3)] show ?thesis by (simp add: cancel_dom [OF r(1,2)])
qed

text \<open>Taking the placeholder away does not change what stands in front of the item put before it.\<close>

lemma place_cleared:
  assumes "wf_dom cs d" "has_node Placeholder d"
  shows "(dom_prev cs (Item i) (put_before (Item i) Placeholder d), parent_of cs (Item i) (put_before (Item i) Placeholder d)) =
    (dom_prev cs (Item i) (remove_node Placeholder (put_before (Item i) Placeholder d)), parent_of cs (Item i) (remove_node Placeholder (put_before (Item i) Placeholder d)))"
proof -
  let ?p = "put_before (Item i) Placeholder d"
  have wp: "wf_dom cs ?p" by (rule wf_put(1) [OF assms(1)]) simp
  have "has_node (Item i) ?p" using has_put [of Placeholder "Item i"] assms(2) by simp
  then obtain k where k: "parent_of cs (Item i) ?p = Some k" using parent_some [OF wp] by blast
  then have "Item i \<in> set (?p k)" using parent_iff [OF wp] by simp
  then have "parent_of cs (Item i) (remove_node Placeholder ?p) = Some k" using parent_iff [OF wf_remove [OF wp]] by (simp add: remove_node_def)
  moreover have "prev_of (Item i) (ins_before (Item i) Placeholder xs) \<noteq> Some Placeholder" if "distinct xs" "Item i \<notin> set xs" for xs
    using that by (induction xs rule: induct_list012) (auto simp: neq_Nil_conv split: if_splits dest: prev_in)
  then have "prev_of (Item i) (?p k) \<noteq> Some Placeholder"
    using wf_remove [OF assms(1), of "Item i"] by (simp add: put_before_def wf_dom_def) (simp add: remove_node_def)
  then have "prev_of (Item i) (remove_node Placeholder ?p k) = prev_of (Item i) (?p k)"
    using prev_filter [of "?p k" "Item i" Placeholder] wp by (simp add: remove_node_def wf_dom_def)
  ultimately show ?thesis using k by (simp add: dom_prev_def)
qed

text \<open>
  Without a cloned helper the callback \<open>update\<close> is called at the end of a sort if and only if the lists
  have changed.
\<close>

theorem update_iff_changed:
  assumes "ready_page cfg st" "has_node (Item i) (so_dom st)" "sort_capture cfg (Some i) True st = (True, st1)"
    "st2 = fold (sort_step cfg) es (sort_start cfg sp st1)" "\<not> cloneHelper cfg"
  shows "SUpdate \<in> set (drop (length (so_log st2)) (so_log (sort_stop cfg st2))) \<longleftrightarrow> so_dom (sort_stop cfg st2) \<noteq> so_dom st"
proof -
  let ?cs = "so_self cfg # so_connected cfg" and ?p = "put_before (Item i) Placeholder (so_dom st2)"
  note r = sort_run [OF assms(1-4)] and wf0 = assms(1) [unfolded ready_page_def, THEN conjunct1]
  note c = clear_dom_result [OF r(1,2)]
  have s: "wf_dom ?cs (so_dom st2)" "has_node Placeholder (so_dom st2)" "remove_node Placeholder (so_dom st2) = so_dom st"
    "so_containers st2 = ?cs" "currentItem st2 = i" "domPosition st2 = old_place cfg i (so_dom st)"
    using r(1) assms(5) by (simp_all add: sorting_def start_dom_def)
  have wp: "wf_dom ?cs ?p" by (rule wf_put(1) [OF s(1)]) simp
  have hp: "\<not> has_node Helper ?p"
  proof -
    have "has_node Helper ?p \<longleftrightarrow> has_node Helper (so_dom st2)" using has_remove [of Helper "Item i" ?p] by simp
    also have "\<dots> \<longleftrightarrow> has_node Helper (so_dom st)" using s(3) has_remove [of Helper Placeholder "so_dom st2"] by simp
    finally show ?thesis using assms(1) by (simp add: ready_page_def)
  qed
  have cd: "clear_dom ?cs i (so_dom st2) = remove_node Placeholder ?p" using hp by (simp add: clear_dom_def remove_id)
  have place: "old_place cfg i ?p = old_place cfg i (clear_dom ?cs i (so_dom st2))"
    unfolding cd by (rule place_cleared [OF s(1,2)])
  have nh: "dom_prev ?cs (Item i) ?p \<noteq> Some Helper"
    using hp by (auto simp: dom_prev_def has_node_def dest: prev_in split: option.splits)
  have "moved st2 ?p \<longleftrightarrow> old_place cfg i (so_dom st) \<noteq> old_place cfg i (clear_dom ?cs i (so_dom st2))"
    using nh place by (auto simp: moved_def s(4-6) Let_def)
  also have "\<dots> \<longleftrightarrow> clear_dom ?cs i (so_dom st2) \<noteq> so_dom st"
    using put_back_restores [OF wf0 assms(2) r(3)] put_back_restores [OF c(2,3) refl] by metis
  finally have m: "moved st2 ?p \<longleftrightarrow> so_dom (sort_stop cfg st2) \<noteq> so_dom st" using clear_fields(1) [OF r(1,2)] by (simp add: sort_stop_def)
  have "has_node (Item i) (so_dom st2)" using has_remove [of "Item i" Placeholder "so_dom st2"] s(3) assms(2) by simp
  then have "parent_of ?cs (Item i) (so_dom st2) \<noteq> None" using parent_some [OF s(1)] by auto
  then have "SUpdate \<in> set (drop (length (so_log st2)) (so_log (sort_stop cfg st2))) \<longleftrightarrow> moved st2 ?p"
    by (auto simp: sort_stop_def sort_clear_def so_say_def Let_def s(4,5) split: if_splits)
  then show ?thesis using m by simp
qed

section \<open>Serialised lists\<close>

lemma split_id_last:
  assumes "a \<noteq> []" "b \<noteq> []" "c \<in> set ''-=_''" "\<forall>x \<in> set b. x \<notin> set ''-=_''"
  shows "split_id (a @ c # b) = Some (a, b)"
proof -
  let ?s = "a @ c # b" and ?k = "length a"
  have k: "1 \<le> ?k" "?k < length ?s - 1" using assms(1,2) by (simp_all add: Suc_leI)
  have "[1..<length ?s - 1] = [1..<?k] @ [?k..<length ?s - 1]" using upt_add_eq_append [OF k(1), of "length ?s - 1 - ?k"] k(2) by simp
  then have "[1..<length ?s - 1] = [1..<?k] @ ?k # [Suc ?k..<length ?s - 1]" using upt_conv_Cons [OF k(2)] by simp
  then have "rev [1..<length ?s - 1] = rev [Suc ?k..<length ?s - 1] @ ?k # rev [1..<?k]" by simp
  moreover have "filter (\<lambda>j. ?s ! j \<in> set ''-=_'') (rev [Suc ?k..<length ?s - 1]) = []"
  proof -
    have "?s ! j \<in> set b" if "Suc ?k \<le> j" "j < length ?s - 1" for j
      using that by (auto simp: nth_append nth_Cons' intro!: nth_mem)
    then show ?thesis using assms(4) by (auto simp: filter_empty_conv)
  qed
  ultimately show ?thesis using assms(3) by (simp add: split_id_def nth_append)
qed

text \<open>
  A list whose items are named by a common word and a key is sent to a server as an array of the keys in
  the order of the list.
\<close>

theorem serialize_keys:
  assumes "name \<noteq> []" "\<forall>i \<in> set (own_sorted cfg st). key i \<noteq> [] \<and> (\<forall>x \<in> set (key i). x \<notin> set ''-=_'')" "ids = (\<lambda>i. name @ ''_'' @ key i)"
  shows "sort_serialize cfg ids st = join ''&'' (map (\<lambda>i. name @ ''[]='' @ key i) (own_sorted cfg st))"
proof -
  have "split_id (ids i) = Some (name, key i)" if "i \<in> set (own_sorted cfg st)" for i
    using split_id_last [OF assms(1), of "key i" "CHR ''_''"] assms(2,3) that by simp
  then have "map (\<lambda>i. case split_id (ids i) of None \<Rightarrow> [] | Some (a, b) \<Rightarrow> [a @ ''[]='' @ b]) (own_sorted cfg st) =
      map (\<lambda>i. [name @ ''[]='' @ key i]) (own_sorted cfg st)" by simp
  then show ?thesis unfolding sort_serialize_def by (simp only: concat_map_singleton)
qed

section \<open>Examples\<close>

definition row_box :: "nat \<Rightarrow> sort_rect" where
  "row_box k = \<lparr>r_left = 0, r_top = 20 * (of_nat k - 1), r_width = 100, r_height = 20\<rparr>"

definition lists_page :: "bool \<Rightarrow> sort_config" where
  "lists_page clone = \<lparr>so_self = 0, so_connected = [1], so_axis = NoAxis, pointerTolerance = False, forcePointer = False, semiDynamic = False,
     dropOnEmpty = True, cloneHelper = clone, so_disabled = False, static_type = False, so_grid = None, is_floating = (\<lambda>_. False),
     floats = (\<lambda>_. False), inner_to = (\<lambda>_ _. False)\<rparr>"

definition lists_state :: sortable where
  "lists_state = \<lparr>so_dom = (\<lambda>c. if c = 0 then [Item 1, Item 2, Item 3] else if c = 1 then [Item 4] else []), so_containers = [], so_items = [],
     currentItem = 0, currentContainer = 0, so_click = (0, 0), so_origin = (0, 0), so_containment = None, originalPage = None,
     so_position = (0, 0), so_positionAbs = (0, 0), lastPositionAbs = None, so_helperSize = (0, 0), so_floating = False, direction = GoDown,
     domPosition = (None, None), so_dragging = False, has_placeholder = False, so_over = (\<lambda>_. False), so_cache = (\<lambda>_. row_box 0),
     so_counter = 0, so_timers = [], so_log = []\<rparr>"

definition lists_measures :: measures where
  "lists_measures = \<lparr>box_of = row_box, area_of = (\<lambda>c. \<lparr>r_left = 0, r_top = 60 * of_nat c, r_width = 100, r_height = 60\<rparr>)\<rparr>"

definition press_first :: sort_press where
  "press_first = \<lparr>sp_page = (5, 5), sp_offset = (0, 0), sp_origin = (0, 0), sp_size = (100, 20), sp_containment = None, sp_measures = lists_measures,
     sp_offsets = (\<lambda>k. (0, r_top (row_box k)))\<rparr>"

definition moves_down :: "sort_input list" where
  "moves_down = [Move (\<lambda>k. (0, r_top (row_box k))) (5, 36)]"

abbreviation captured :: "bool \<Rightarrow> sortable" where
  "captured clone \<equiv> snd (sort_capture (lists_page clone) (Some 1) True lists_state)"

lemma lists_ready: "ready_page (lists_page clone) lists_state" "has_node (Item 1) (so_dom lists_state)"
  "sort_capture (lists_page clone) (Some 1) True lists_state = (True, captured clone)"
  by (auto simp: ready_page_def wf_dom_def has_node_def lists_page_def lists_state_def sort_capture_def Let_def split: if_splits)

theorem sort_moves_one_witness:
  "let d = so_dom (sort_stop (lists_page True) (fold (sort_step (lists_page True)) moves_down (sort_start (lists_page True) press_first (captured True))))
   in d 0 = [Item 2, Item 1, Item 3] \<and> d 1 = [Item 4] \<and> filter (\<lambda>n. n \<noteq> Item 1) (d 0) = [Item 2, Item 3]"
proof -
  let ?d = "so_dom (sort_stop (lists_page True) (fold (sort_step (lists_page True)) moves_down (sort_start (lists_page True) press_first (captured True))))"
  have "?d 0 = [Item 2, Item 1, Item 3]" "?d 1 = [Item 4]" by code_simp+
  moreover have "filter (\<lambda>n. n \<noteq> Item 1) (?d 0) = filter (\<lambda>n. n \<noteq> Item 1) (so_dom lists_state 0)"
    using sort_moves_one [OF lists_ready refl] by blast
  ultimately show ?thesis by (simp add: Let_def)
qed

theorem cancel_restores_witness:
  "so_dom (sort_cancel (lists_page False) (fold (sort_step (lists_page False)) moves_down (sort_start (lists_page False) press_first (captured False)))) = so_dom lists_state"
  using cancel_restores [OF lists_ready refl] by blast

theorem update_iff_changed_witness:
  "SUpdate \<in> set (so_log (sort_stop (lists_page False) (fold (sort_step (lists_page False)) moves_down (sort_start (lists_page False) press_first (captured False)))))"
proof -
  let ?st = "fold (sort_step (lists_page False)) moves_down (sort_start (lists_page False) press_first (captured False))"
  have "so_dom (sort_stop (lists_page False) ?st) 0 = [Item 2, Item 1, Item 3]" "so_dom lists_state 0 = [Item 1, Item 2, Item 3]" by code_simp+
  then have "so_dom (sort_stop (lists_page False) ?st) \<noteq> so_dom lists_state" by auto
  moreover have "\<not> cloneHelper (lists_page False)" by (simp add: lists_page_def)
  ultimately show ?thesis using update_iff_changed [OF lists_ready refl] by (metis in_set_dropD)
qed

end
