(* ===== verification/UI_Tabs.thy ===== *)
theory UI_Tabs
  imports JsVal
begin

text \<open>
  The tabs of jQuery UI: a list of tabs, each with a panel, of which at most one is active. The model
  keeps what the widget writes to the page (classes and attributes of tabs and panels), the option
  \<open>disabled\<close> in its two forms, the animations between two panels, the delayed activation of the keyboard
  and the requests of remote tabs. Tabs are numbered elements, panels are found by their id. What the
  handlers of \<open>beforeActivate\<close> and \<open>beforeLoad\<close> answer comes with the input; handlers that call the widget
  back are not covered. The search for the next enabled tab may run forever, so it is a partial function.
\<close>

section \<open>State\<close>

datatype disabled_tabs = Flag bool | Listed "int list"

record tab =
  anchor_id :: "string option"
  local_hash :: "string option"        \<comment> \<open>the fragment of a local anchor; \<open>None\<close> for a remote one\<close>
  aria_controls :: "string option"
  own_controls :: "string option"      \<comment> \<open>the data \<open>ui-tabs-aria-controls\<close>\<close>
  t_disabled :: bool                   \<comment> \<open>\<open>ui-state-disabled\<close> and \<open>aria-disabled\<close>\<close>
  t_active :: bool                     \<comment> \<open>\<open>ui-tabs-active\<close>\<close>
  t_loading :: bool                    \<comment> \<open>\<open>ui-tabs-loading\<close>\<close>
  t_selected :: bool
  t_expanded :: bool
  t_index :: string                    \<comment> \<open>the attribute \<open>tabIndex\<close>\<close>

record panel =
  p_shown :: bool
  p_hidden :: bool                     \<comment> \<open>\<open>aria-hidden\<close>\<close>
  p_busy :: bool
  p_html :: string
  p_made :: bool                       \<comment> \<open>the data \<open>ui-tabs-destroy\<close>\<close>

text \<open>The data of an activation and the animation that is under way with it.\<close>

record event_data =
  oldTab :: "nat option"
  newTab :: "nat option"
  oldPanel :: "string option"
  newPanel :: "string option"

datatype animation = Idle | Hiding event_data | Showing event_data

datatype response = Waiting | Arrived string | Failed bool  \<comment> \<open>aborted or not\<close>

record request =
  r_tab :: nat
  r_panel :: "string option"
  r_state :: response

datatype tabs_event = Activated "nat option" "nat option" | Loaded nat | Thrown string

record tabs =
  dom_tabs :: "nat list"               \<comment> \<open>the tabs in the list of the page\<close>
  all_tabs :: "nat list"               \<comment> \<open>\<open>this.tabs\<close>\<close>
  tab_at :: "nat \<Rightarrow> tab"
  panel_at :: "string \<Rightarrow> panel option"
  uuid :: nat
  o_active :: "int option"             \<comment> \<open>\<open>options.active\<close>, \<open>None\<close> for \<open>false\<close>\<close>
  o_disabled :: disabled_tabs
  o_collapsible :: bool
  o_show :: bool
  o_hide :: bool
  active_tab :: "nat option"           \<comment> \<open>\<open>this.active\<close>\<close>
  running :: animation
  activating :: "int option"
  focused :: "nat option"
  xhr :: "nat option"
  requests :: "(nat \<times> request) list"
  sent :: nat
  tabs_log :: "tabs_event list"

definition upd_tabs :: "nat set \<Rightarrow> (tab \<Rightarrow> tab) \<Rightarrow> tabs \<Rightarrow> tabs" where
  "upd_tabs ls f s = s\<lparr>tab_at := (\<lambda>l. (if l \<in> ls then f else (\<lambda>t. t)) (tab_at s l))\<rparr>"

definition upd_panels :: "string set \<Rightarrow> (panel \<Rightarrow> panel) \<Rightarrow> tabs \<Rightarrow> tabs" where
  "upd_panels ps f s = s\<lparr>panel_at := (\<lambda>p. map_option (if p \<in> ps then f else (\<lambda>q. q)) (panel_at s p))\<rparr>"

definition log_tabs :: "tabs_event \<Rightarrow> tabs \<Rightarrow> tabs" where
  "log_tabs e s = s\<lparr>tabs_log := tabs_log s @ [e]\<rparr>"

text \<open>\<open>tabs.eq( i )\<close> counts from the end for negative numbers; \<open>tabs.index( tab )\<close> is \<open>-1\<close> for a strange tab.\<close>

definition eq_tab :: "int \<Rightarrow> tabs \<Rightarrow> nat option" where
  "eq_tab i s =
     (let n = int (length (all_tabs s)); j = (if i < 0 then i + n else i)
      in if 0 \<le> j \<and> j < n then Some (all_tabs s ! nat j) else None)"

definition tab_position :: "nat option \<Rightarrow> tabs \<Rightarrow> int" where
  "tab_position t s = (case t of None \<Rightarrow> -1 | Some l \<Rightarrow> (case index_of l (all_tabs s) of None \<Rightarrow> -1 | Some i \<Rightarrow> int i))"

definition controls_id :: "nat option \<Rightarrow> tabs \<Rightarrow> string" where
  "controls_id t s = (case Option.bind t (\<lambda>l. aria_controls (tab_at s l)) of None \<Rightarrow> ''undefined'' | Some p \<Rightarrow> p)"

definition getPanelForTab :: "nat option \<Rightarrow> tabs \<Rightarrow> string option" where
  "getPanelForTab t s = (let p = controls_id t s in if panel_at s p = None then None else Some p)"

definition all_panels :: "tabs \<Rightarrow> string list" where
  "all_panels s = List.map_filter (\<lambda>l. getPanelForTab (Some l) s) (all_tabs s)"

section \<open>Disabled tabs\<close>

definition in_disabled :: "int \<Rightarrow> disabled_tabs \<Rightarrow> bool" where
  "in_disabled i d = (case d of Flag b \<Rightarrow> False | Listed is \<Rightarrow> i \<in> set is)"

definition tidy_disabled :: "nat \<Rightarrow> disabled_tabs \<Rightarrow> disabled_tabs" where
  "tidy_disabled n d =
     (case d of Flag b \<Rightarrow> Flag b
      | Listed is \<Rightarrow> if is = [] then Flag False else if length is = n then Flag True else Listed is)"

definition tab_off :: "disabled_tabs \<Rightarrow> nat \<Rightarrow> tabs \<Rightarrow> bool" where
  "tab_off d l s \<longleftrightarrow> d = Flag True \<or> in_disabled (tab_position (Some l) s) d"

definition tabs_setOptionDisabled :: "disabled_tabs \<Rightarrow> tabs \<Rightarrow> tabs" where
  "tabs_setOptionDisabled d s =
     (let d' = tidy_disabled (length (all_tabs s)) d
      in s\<lparr>o_disabled := d',
           tab_at := (\<lambda>l. (if l \<in> set (all_tabs s) then t_disabled_update (\<lambda>_. tab_off d' l s) else (\<lambda>t. t)) (tab_at s l))\<rparr>)"

text \<open>\<open>sort()\<close> compares numbers as texts; \<open>None\<close> stands for a missing index.\<close>

definition enable_tab :: "int option \<Rightarrow> tabs \<Rightarrow> tabs" where
  "enable_tab i s =
     (if o_disabled s = Flag False then s
      else tabs_setOptionDisabled
             (case i of None \<Rightarrow> Flag False
              | Some k \<Rightarrow> Listed (filter (\<lambda>n. n \<noteq> k)
                  (case o_disabled s of Listed is \<Rightarrow> is | Flag b \<Rightarrow> map int [0..<length (all_tabs s)]))) s)"

definition text_less :: "int \<Rightarrow> int \<Rightarrow> bool" where
  "text_less a b = str_less (int_str a) (int_str b)"

definition disable_tab :: "int option \<Rightarrow> tabs \<Rightarrow> tabs" where
  "disable_tab i s =
     (if o_disabled s = Flag True then s
      else case i of None \<Rightarrow> tabs_setOptionDisabled (Flag True) s
      | Some k \<Rightarrow>
          if in_disabled k (o_disabled s) then s
          else tabs_setOptionDisabled
                 (Listed (case o_disabled s of Listed is \<Rightarrow> sort_by text_less (k # is) | Flag b \<Rightarrow> [k])) s)"

text \<open>\<open>_findNextTab\<close>: the loop ends at the first tab, in the given direction, that is not listed as disabled.\<close>

definition constrain_index :: "int \<Rightarrow> int \<Rightarrow> int" where
  "constrain_index last_index i = (let j = (if i > last_index then 0 else i) in if j < 0 then last_index else j)"

partial_function (option) next_tab_loop :: "int \<Rightarrow> disabled_tabs \<Rightarrow> bool \<Rightarrow> int \<Rightarrow> int option" where
  "next_tab_loop last_index d forward i =
     (let j = constrain_index last_index i
      in if in_disabled j d then next_tab_loop last_index d forward (if forward then j + 1 else j - 1) else Some j)"

definition findNextTab :: "int \<Rightarrow> bool \<Rightarrow> tabs \<Rightarrow> int option" where
  "findNextTab i forward s = next_tab_loop (int (length (all_tabs s)) - 1) (o_disabled s) forward i"

definition focusNextTab :: "int \<Rightarrow> bool \<Rightarrow> tabs \<Rightarrow> (int \<times> tabs) option" where
  "focusNextTab i forward s =
     map_option (\<lambda>j. (j, case eq_tab j s of None \<Rightarrow> s | Some l \<Rightarrow> s\<lparr>focused := Some l\<rparr>)) (findNextTab i forward s)"

section \<open>Remote tabs\<close>

text \<open>
  \<open>load\<close>: the request of a remote tab, unless \<open>beforeLoad\<close> cancels it; \<open>xhr\<close> is the last request in both cases.
  Reading the anchor of a tab that does not exist throws.
\<close>

definition load_tab :: "bool \<Rightarrow> int \<Rightarrow> tabs \<Rightarrow> tabs" where
  "load_tab canceled i s =
     (case eq_tab i s of
        None \<Rightarrow> log_tabs (Thrown ''TypeError'') s
      | Some l \<Rightarrow>
          if local_hash (tab_at s l) \<noteq> None then s
          else let r = sent s; s1 = s\<lparr>xhr := Some r, sent := Suc r\<rparr>; p = getPanelForTab (Some l) s
               in if canceled then s1
                  else upd_tabs {l} (\<lambda>t. t\<lparr>t_loading := True\<rparr>)
                         (upd_panels (set_option p) (\<lambda>q. q\<lparr>p_busy := True\<rparr>)
                            (s1\<lparr>requests := requests s @ [(r, \<lparr>r_tab = l, r_panel = p, r_state = Waiting\<rparr>)]\<rparr>)))"

text \<open>A request that has been answered is no longer changed, by a late answer or by \<open>abort\<close>.\<close>

definition settle :: "nat \<Rightarrow> response \<Rightarrow> tabs \<Rightarrow> tabs" where
  "settle r a s =
     s\<lparr>requests := map (\<lambda>(k, q). (k, if k = r \<and> r_state q = Waiting then q\<lparr>r_state := a\<rparr> else q)) (requests s)\<rparr>"

definition abort_xhr :: "tabs \<Rightarrow> tabs" where
  "abort_xhr s = (case xhr s of None \<Rightarrow> s | Some r \<Rightarrow> settle r (Failed True) s)"

section \<open>Activation\<close>

text \<open>\<open>complete\<close> and \<open>show\<close> of \<open>_toggle\<close>, and what follows the end of an animation.\<close>

definition toggle_complete :: "event_data \<Rightarrow> tabs \<Rightarrow> tabs" where
  "toggle_complete ed s = log_tabs (Activated (oldTab ed) (newTab ed)) (s\<lparr>running := Idle\<rparr>)"

definition shown_now :: "event_data \<Rightarrow> tabs \<Rightarrow> tabs" where
  "shown_now ed s = toggle_complete ed (upd_panels (set_option (newPanel ed)) (\<lambda>p. p\<lparr>p_shown := True\<rparr>) s)"

definition toggle_show :: "event_data \<Rightarrow> tabs \<Rightarrow> tabs" where
  "toggle_show ed s =
     (let s1 = upd_tabs (set_option (newTab ed)) (\<lambda>t. t\<lparr>t_active := True\<rparr>) s
      in if newPanel ed \<noteq> None \<and> o_show s then s1\<lparr>running := Showing ed\<rparr> else shown_now ed s1)"

definition hidden_now :: "event_data \<Rightarrow> tabs \<Rightarrow> tabs" where
  "hidden_now ed s =
     toggle_show ed
       (upd_panels (set_option (oldPanel ed)) (\<lambda>p. p\<lparr>p_shown := False\<rparr>)
          (upd_tabs (set_option (oldTab ed)) (\<lambda>t. t\<lparr>t_active := False\<rparr>) s))"

definition animation_end :: "tabs \<Rightarrow> tabs" where
  "animation_end s = (case running s of Idle \<Rightarrow> s | Hiding ed \<Rightarrow> hidden_now ed s | Showing ed \<Rightarrow> shown_now ed s)"

text \<open>
  The attributes that \<open>_toggle\<close> sets at the end. The middle case wants the tabs that are in the tab order, but
  it compares the attribute, a text, with a number.
\<close>

definition tab_order :: "event_data \<Rightarrow> tabs \<Rightarrow> nat set" where
  "tab_order ed s =
     (if newPanel ed \<noteq> None \<and> oldPanel ed \<noteq> None then set_option (oldTab ed)
      else if newPanel ed \<noteq> None then {l \<in> set (all_tabs s). Str (t_index (tab_at s l)) = Num (Fin 0)}
      else {})"

definition toggle_attrs :: "event_data \<Rightarrow> tabs \<Rightarrow> tabs" where
  "toggle_attrs ed s =
     (let s1 = upd_panels (set_option (oldPanel ed)) (\<lambda>p. p\<lparr>p_hidden := True\<rparr>) s;
          s2 = upd_tabs (set_option (oldTab ed)) (\<lambda>t. t\<lparr>t_selected := False, t_expanded := False\<rparr>) s1;
          s3 = upd_tabs (tab_order ed s2) (\<lambda>t. t\<lparr>t_index := ''-1''\<rparr>) s2;
          s4 = upd_panels (set_option (newPanel ed)) (\<lambda>p. p\<lparr>p_hidden := False\<rparr>) s3
      in upd_tabs (set_option (newTab ed)) (\<lambda>t. t\<lparr>t_selected := True, t_expanded := True, t_index := ''0''\<rparr>) s4)"

definition tabs_toggle :: "event_data \<Rightarrow> tabs \<Rightarrow> tabs" where
  "tabs_toggle ed s =
     toggle_attrs ed (if oldPanel ed \<noteq> None \<and> o_hide s then s\<lparr>running := Hiding ed\<rparr> else hidden_now ed s)"

text \<open>What the handlers of the page answer to one input: \<open>false\<close> to \<open>beforeActivate\<close>, to \<open>beforeLoad\<close>.\<close>

record answers =
  no_activate :: bool
  no_load :: bool

definition activation :: "nat \<Rightarrow> tabs \<Rightarrow> event_data" where
  "activation l s =
     (let collapsing = (active_tab s = Some l \<and> o_collapsible s)
      in \<lparr>oldTab = active_tab s, newTab = (if collapsing then None else Some l),
          oldPanel = (if active_tab s = None then None else getPanelForTab (active_tab s) s),
          newPanel = (if collapsing then None else getPanelForTab (Some l) s)\<rparr>)"

definition refuses :: "answers \<Rightarrow> nat \<Rightarrow> tabs \<Rightarrow> bool" where
  "refuses a l s \<longleftrightarrow> t_disabled (tab_at s l) \<or> t_loading (tab_at s l) \<or> running s \<noteq> Idle
     \<or> active_tab s = Some l \<and> \<not> o_collapsible s \<or> no_activate a"

definition eventHandler :: "answers \<Rightarrow> nat \<Rightarrow> tabs \<Rightarrow> tabs" where
  "eventHandler a l s =
     (if refuses a l s then s
      else let ed = activation l s; i = tab_position (Some l) s; clicked = (active_tab s = Some l);
               s1 = abort_xhr (s\<lparr>o_active := (if clicked \<and> o_collapsible s then None else Some i),
                                 active_tab := (if clicked then None else Some l)\<rparr>)
           in if oldPanel ed = None \<and> newPanel ed = None then log_tabs (Thrown ''Mismatching fragment identifier.'') s1
              else if newPanel ed = None then tabs_toggle ed s1
              else if eq_tab i s = None then load_tab (no_load a) i s1
              else tabs_toggle ed (load_tab (no_load a) i s1))"

definition findActive :: "int option \<Rightarrow> tabs \<Rightarrow> nat option" where
  "findActive i s = Option.bind i (\<lambda>k. eq_tab k s)"

text \<open>Collapsing simulates a click on the active tab.\<close>

definition activate :: "answers \<Rightarrow> int option \<Rightarrow> tabs \<Rightarrow> tabs" where
  "activate a i s =
     (let t = findActive i s
      in if t = active_tab s then s
         else case (if t = None then active_tab s else t) of None \<Rightarrow> s | Some l \<Rightarrow> eventHandler a l s)"

section \<open>Keyboard\<close>

datatype tab_key = TabRight | TabDown | TabUp | TabLeft | TabEnd | TabHome | TabSpace | TabEnter | TabPageUp | TabPageDown | TabOther

record modifiers =
  altKey :: bool
  ctrlKey :: bool
  metaKey :: bool

definition active_number :: "tabs \<Rightarrow> int" where
  "active_number s = (case o_active s of None \<Rightarrow> 0 | Some i \<Rightarrow> i)"

text \<open>\<open>_handlePageNav\<close>: the direction when the keys are its own.\<close>

definition page_nav :: "tab_key \<Rightarrow> modifiers \<Rightarrow> bool option" where
  "page_nav k m =
     (if altKey m \<and> k = TabPageUp then Some False else if altKey m \<and> k = TabPageDown then Some True else None)"

definition handlePageNav :: "answers \<Rightarrow> bool \<Rightarrow> tabs \<Rightarrow> tabs option" where
  "handlePageNav a forward s =
     map_option (\<lambda>(j, s1). activate a (Some j) s1)
       (focusNextTab (if forward then active_number s + 1 else active_number s - 1) forward s)"

text \<open>The keys that move: where the search starts and its direction.\<close>

definition key_target :: "tab_key \<Rightarrow> int \<Rightarrow> tabs \<Rightarrow> (int \<times> bool) option" where
  "key_target k i s =
     (if k \<in> {TabRight, TabDown} then Some (i + 1, True)
      else if k \<in> {TabUp, TabLeft} then Some (i - 1, False)
      else if k = TabEnd then Some (int (length (all_tabs s)) - 1, True)
      else if k = TabHome then Some (0, True)
      else None)"

definition move_focus :: "modifiers \<Rightarrow> int \<times> bool \<Rightarrow> tabs \<Rightarrow> tabs option" where
  "move_focus m target s =
     map_option (\<lambda>(j, s1).
         if ctrlKey m \<or> metaKey m then s1
         else upd_tabs (set_option (eq_tab j s)) (\<lambda>t. t\<lparr>t_selected := True\<rparr>)
                (upd_tabs (set_option (focused s)) (\<lambda>t. t\<lparr>t_selected := False\<rparr>) (s1\<lparr>activating := Some j\<rparr>)))
       (focusNextTab (fst target) (snd target) (s\<lparr>activating := None\<rparr>))"

definition tabKeydown :: "answers \<Rightarrow> tab_key \<Rightarrow> modifiers \<Rightarrow> tabs \<Rightarrow> tabs option" where
  "tabKeydown a k m s =
     (let i = tab_position (focused s) s
      in case page_nav k m of
           Some forward \<Rightarrow> handlePageNav a forward s
         | None \<Rightarrow>
             (case key_target k i s of
                Some target \<Rightarrow> move_focus m target s
              | None \<Rightarrow>
                  Some (if k = TabSpace then activate a (Some i) (s\<lparr>activating := None\<rparr>)
                        else if k = TabEnter
                        then activate a (if o_active s = Some i then None else Some i) (s\<lparr>activating := None\<rparr>)
                        else s)))"

definition panelKeydown :: "answers \<Rightarrow> tab_key \<Rightarrow> modifiers \<Rightarrow> tabs \<Rightarrow> tabs option" where
  "panelKeydown a k m s =
     (case page_nav k m of
        Some forward \<Rightarrow> handlePageNav a forward s
      | None \<Rightarrow> Some (if ctrlKey m \<and> k = TabUp \<and> active_tab s \<noteq> None then s\<lparr>focused := active_tab s\<rparr> else s))"

section \<open>The page\<close>

text \<open>
  \<open>_processTabs\<close> takes the tabs from the list of the page. A remote tab without a panel gets one, under
  the id of its \<open>aria-controls\<close> or under a new one.
\<close>

definition unique_id :: "nat \<Rightarrow> string" where
  "unique_id n = ''ui-id-'' @ nat_str n"

definition new_panel :: panel where
  "new_panel = \<lparr>p_shown = True, p_hidden = False, p_busy = False, p_html = [], p_made = True\<rparr>"

definition given_id :: "tab \<Rightarrow> bool" where
  "given_id t \<longleftrightarrow> aria_controls t \<noteq> None \<and> aria_controls t \<noteq> Some []"

definition keep_controls :: "string \<Rightarrow> tab \<Rightarrow> tab" where
  "keep_controls p t =
     t\<lparr>own_controls := (if given_id t then aria_controls t else own_controls t), aria_controls := Some p\<rparr>"

definition remote_panel :: "tab \<Rightarrow> nat \<Rightarrow> string \<times> nat" where
  "remote_panel t u = (if given_id t then (the (aria_controls t), u) else (unique_id (Suc u), Suc u))"

definition anchor_unique :: "nat \<Rightarrow> tabs \<Rightarrow> tabs" where
  "anchor_unique l s =
     (if anchor_id (tab_at s l) \<noteq> None \<and> anchor_id (tab_at s l) \<noteq> Some [] then s
      else upd_tabs {l} (\<lambda>t. t\<lparr>anchor_id := Some (unique_id (Suc (uuid s)))\<rparr>) (s\<lparr>uuid := Suc (uuid s)\<rparr>))"

definition process_tab :: "nat \<Rightarrow> tabs \<Rightarrow> tabs" where
  "process_tab l s =
     (let s1 = anchor_unique l s; t = tab_at s1 l
      in case local_hash t of
           Some p \<Rightarrow> upd_tabs {l} (keep_controls p) s1
         | None \<Rightarrow>
             let (p, u) = remote_panel t (uuid s1);
                 made = (if panel_at s1 p = None then (panel_at s1)(p \<mapsto> new_panel) else panel_at s1)
             in upd_tabs {l} (keep_controls p) (s1\<lparr>uuid := u, panel_at := made\<rparr>))"

definition processTabs :: "tabs \<Rightarrow> tabs" where
  "processTabs s =
     (let s1 = upd_tabs (set (dom_tabs s)) (\<lambda>t. t\<lparr>t_index := ''-1''\<rparr>) (s\<lparr>all_tabs := dom_tabs s\<rparr>)
      in fold process_tab (dom_tabs s) s1)"

text \<open>\<open>_refresh\<close> writes the state of the widget to the page.\<close>

definition refresh_page :: "tabs \<Rightarrow> tabs" where
  "refresh_page s =
     (let s1 = tabs_setOptionDisabled (o_disabled s) s;
          act = set_option (active_tab s);
          p = set_option (getPanelForTab (active_tab s) s);
          s2 = upd_tabs (set (all_tabs s) - act) (\<lambda>t. t\<lparr>t_selected := False, t_expanded := False, t_index := ''-1''\<rparr>) s1;
          s3 = upd_panels (set (all_panels s) - p) (\<lambda>q. q\<lparr>p_shown := False, p_hidden := True\<rparr>) s2
      in if active_tab s = None then upd_tabs (set_option (eq_tab 0 s)) (\<lambda>t. t\<lparr>t_index := ''0''\<rparr>) s3
         else upd_panels p (\<lambda>q. q\<lparr>p_shown := True, p_hidden := False\<rparr>)
                (upd_tabs act (\<lambda>t. t\<lparr>t_selected := True, t_expanded := True, t_index := ''0'', t_active := True\<rparr>) s3))"

text \<open>\<open>refresh\<close> after changes of the list of tabs: the active tab may be gone.\<close>

definition marked_disabled :: "nat list \<Rightarrow> tabs \<Rightarrow> int list" where
  "marked_disabled ls s = map (\<lambda>(i, l). int i) (filter (\<lambda>(i, l). t_disabled (tab_at s l)) (enumerate 0 ls))"

definition refresh_active :: "answers \<Rightarrow> tabs \<Rightarrow> tabs option" where
  "refresh_active a s =
     (if o_active s = None \<or> all_tabs s = [] then Some (s\<lparr>o_active := None, active_tab := None\<rparr>)
      else case active_tab s of
             None \<Rightarrow> Some (s\<lparr>o_active := Some (-1)\<rparr>)
           | Some l \<Rightarrow>
               if l \<in> set (dom_tabs s) then Some (s\<lparr>o_active := Some (tab_position (Some l) s)\<rparr>)
               else if (case o_disabled s of Listed is \<Rightarrow> length is = length (all_tabs s) | Flag b \<Rightarrow> False)
               then Some (s\<lparr>o_active := None, active_tab := None\<rparr>)
               else map_option (\<lambda>j. activate a (Some j) s) (findNextTab (max 0 (active_number s - 1)) False s))"

definition refresh_tabs :: "answers \<Rightarrow> tabs \<Rightarrow> tabs option" where
  "refresh_tabs a s =
     map_option refresh_page
       (refresh_active a (processTabs (s\<lparr>o_disabled := Listed (marked_disabled (dom_tabs s) s)\<rparr>)))"

section \<open>Life of the widget\<close>

text \<open>
  \<open>_initialActive\<close>: \<open>fragment\<close> is the fragment of the address of the page without its sign; a missing
  \<open>active\<close> is the option \<open>null\<close>.
\<close>

datatype active_option = NullActive | NoActive | ActiveAt int

definition first_tab :: "(tab \<Rightarrow> bool) \<Rightarrow> tabs \<Rightarrow> int" where
  "first_tab P s = (case filter (\<lambda>(i, l). P (tab_at s l)) (enumerate 0 (all_tabs s)) of [] \<Rightarrow> -1 | (i, l) # _ \<Rightarrow> int i)"

definition null_active :: "string \<Rightarrow> tabs \<Rightarrow> int option" where
  "null_active fragment s =
     (let i = (if fragment = [] then -1 else first_tab (\<lambda>t. aria_controls t = Some fragment) s);
          j = (if i = -1 then first_tab t_active s else i)
      in if j \<noteq> -1 then Some j else if all_tabs s \<noteq> [] then Some 0 else None)"

definition initialActive :: "string \<Rightarrow> active_option \<Rightarrow> tabs \<Rightarrow> int option" where
  "initialActive fragment opt s =
     (let a1 = (case opt of NullActive \<Rightarrow> null_active fragment s | NoActive \<Rightarrow> None | ActiveAt i \<Rightarrow> Some i);
          a2 = (case a1 of None \<Rightarrow> None
                | Some i \<Rightarrow> (case eq_tab i s of
                     None \<Rightarrow> if o_collapsible s then None else Some 0
                   | Some l \<Rightarrow> Some (tab_position (Some l) s)))
      in if \<not> o_collapsible s \<and> a2 = None \<and> all_tabs s \<noteq> [] then Some 0 else a2)"

text \<open>
  \<open>_create\<close>. A list of disabled tabs is joined with the tabs that the page marks; \<open>uniq\<close> stands for
  \<open>$.unique\<close>, which is made for elements: on numbers its result depends on the comparisons that the
  engine's sort happens to make.
\<close>

definition tabs_create :: "(int list \<Rightarrow> int list) \<Rightarrow> bool \<Rightarrow> string \<Rightarrow> active_option \<Rightarrow> tabs \<Rightarrow> tabs" where
  "tabs_create uniq canceled fragment opt s =
     (let s1 = processTabs (s\<lparr>running := Idle\<rparr>);
          act = initialActive fragment opt s1;
          d = (case o_disabled s1 of Flag b \<Rightarrow> Flag b
               | Listed is \<Rightarrow> Listed (sort_by text_less (uniq (is @ marked_disabled (all_tabs s1) s1))));
          s2 = s1\<lparr>o_active := act, o_disabled := d,
                  active_tab := (if act \<noteq> None \<and> all_tabs s1 \<noteq> [] then findActive act s1 else None)\<rparr>;
          s3 = refresh_page s2
      in if active_tab s3 = None then s3 else load_tab canceled (active_number s3) s3)"

text \<open>
  \<open>_destroy\<close>: the panels that the widget made are removed, the others shown, the ids of anchors taken away
  and \<open>aria-controls\<close> restored. The classes are taken away by the widget factory.
\<close>

definition restore_controls :: "tab \<Rightarrow> tab" where
  "restore_controls t =
     (if given_id (t\<lparr>aria_controls := own_controls t\<rparr>)
      then t\<lparr>aria_controls := own_controls t, own_controls := None\<rparr> else t\<lparr>aria_controls := None\<rparr>)"

definition strip_panel :: "panel option \<Rightarrow> panel option" where
  "strip_panel q =
     (case q of None \<Rightarrow> None
      | Some p \<Rightarrow> if p_made p then None else Some (p\<lparr>p_shown := True, p_hidden := False, p_busy := False\<rparr>))"

definition removeUniqueId :: "string option \<Rightarrow> string option" where
  "removeUniqueId i =
     (case i of None \<Rightarrow> None
      | Some n \<Rightarrow> if take 6 n = ''ui-id-'' \<and> drop 6 n \<noteq> [] \<and> list_all is_digit (drop 6 n) then None else Some n)"

definition tabs_destroy :: "tabs \<Rightarrow> tabs" where
  "tabs_destroy s =
     (let s1 = abort_xhr s; ps = set (all_panels s)
      in upd_tabs (set (all_tabs s)) (\<lambda>t. restore_controls
             (t\<lparr>anchor_id := removeUniqueId (anchor_id t), t_selected := False, t_expanded := False, t_index := []\<rparr>))
           (s1\<lparr>panel_at := (\<lambda>p. if p \<in> ps then strip_panel (panel_at s1 p) else panel_at s1 p)\<rparr>))"

text \<open>\<open>_setOption\<close> on the options that the model has.\<close>

datatype tabs_option = OptActive "int option" | OptCollapsible bool | OptDisabled disabled_tabs | OptShow bool | OptHide bool

definition tabs_setOption :: "answers \<Rightarrow> tabs_option \<Rightarrow> tabs \<Rightarrow> tabs" where
  "tabs_setOption a opt s =
     (case opt of
        OptActive i \<Rightarrow> activate a i s
      | OptCollapsible b \<Rightarrow>
          (let s1 = s\<lparr>o_collapsible := b\<rparr> in if \<not> b \<and> o_active s = None then activate a (Some 0) s1 else s1)
      | OptDisabled d \<Rightarrow> tabs_setOptionDisabled d s
      | OptShow b \<Rightarrow> s\<lparr>o_show := b\<rparr>
      | OptHide b \<Rightarrow> s\<lparr>o_hide := b\<rparr>)"

text \<open>
  The end of a request, a moment after its answer. After an abort the animations of the panels are
  brought to their end, panel by panel in the order of the page; \<open>later\<close> says that the panel to show comes
  after the panel to hide.
\<close>

definition stop_animations :: "bool \<Rightarrow> tabs \<Rightarrow> tabs" where
  "stop_animations later s =
     (let reached = (\<lambda>p. \<exists>q \<in> set (all_panels s). p = Some q)
      in case running s of
           Idle \<Rightarrow> s
         | Showing ed \<Rightarrow> if reached (newPanel ed) then animation_end s else s
         | Hiding ed \<Rightarrow>
             if \<not> reached (oldPanel ed) then s
             else let s1 = animation_end s in if later \<and> reached (newPanel ed) then animation_end s1 else s1)"

definition request_done :: "nat \<Rightarrow> request \<Rightarrow> tabs \<Rightarrow> tabs" where
  "request_done r q s =
     upd_tabs {r_tab q} (\<lambda>t. t\<lparr>t_loading := False\<rparr>)
       (upd_panels (set_option (r_panel q)) (\<lambda>p. p\<lparr>p_busy := False\<rparr>)
          (s\<lparr>xhr := (if xhr s = Some r then None else xhr s), requests := filter (\<lambda>(k, _). k \<noteq> r) (requests s)\<rparr>))"

definition request_complete :: "bool \<Rightarrow> nat \<Rightarrow> tabs \<Rightarrow> tabs" where
  "request_complete later r s =
     (case assoc r (requests s) of
        None \<Rightarrow> s
      | Some q \<Rightarrow>
          (case r_state q of
             Waiting \<Rightarrow> s
           | Arrived html \<Rightarrow>
               request_done r q
                 (log_tabs (Loaded (r_tab q)) (upd_panels (set_option (r_panel q)) (\<lambda>p. p\<lparr>p_html := html\<rparr>) s))
           | Failed aborted \<Rightarrow> request_done r q (if aborted then stop_animations later s else s)))"

section \<open>Inputs\<close>

text \<open>
  The inputs of the widget and of its surroundings. Handlers bound with \<open>_on\<close> do not run on a disabled
  widget, nor on an element that is marked as disabled. \<open>Relist\<close> is a new list of tabs on the page, followed by
  \<open>refresh\<close>. The state is \<open>None\<close> once an input did not return.
\<close>

datatype tab_input =
    TabClick nat answers
  | TabKey nat tab_key modifiers answers
  | PanelKey tab_key modifiers answers
  | FocusTab "nat option"
  | ActivateTimer answers
  | SetTabsOption tabs_option answers
  | EnableTab "int option"
  | DisableTab "int option"
  | LoadTab int bool
  | Answer nat response
  | CompleteRequest nat bool
  | AnimationEnd
  | Relist "nat list" answers

fun tabs_input :: "tab_input \<Rightarrow> tabs \<Rightarrow> tabs option" where
  "tabs_input (TabClick l a) s = Some (if o_disabled s = Flag True then s else eventHandler a l s)"
| "tabs_input (TabKey l k m a) s =
     (let s1 = s\<lparr>focused := Some l\<rparr>
      in if o_disabled s = Flag True \<or> t_disabled (tab_at s l) then Some s1 else tabKeydown a k m s1)"
| "tabs_input (PanelKey k m a) s = (if o_disabled s = Flag True then Some s else panelKeydown a k m s)"
| "tabs_input (FocusTab t) s = Some (s\<lparr>focused := t\<rparr>)"
| "tabs_input (ActivateTimer a) s =
     Some (case activating s of None \<Rightarrow> s | Some i \<Rightarrow> tabs_setOption a (OptActive (Some i)) (s\<lparr>activating := None\<rparr>))"
| "tabs_input (SetTabsOption opt a) s = Some (tabs_setOption a opt s)"
| "tabs_input (EnableTab i) s = Some (enable_tab i s)"
| "tabs_input (DisableTab i) s = Some (disable_tab i s)"
| "tabs_input (LoadTab i canceled) s = Some (load_tab canceled i s)"
| "tabs_input (Answer r a) s = Some (settle r a s)"
| "tabs_input (CompleteRequest r later) s = Some (request_complete later r s)"
| "tabs_input AnimationEnd s = Some (animation_end s)"
| "tabs_input (Relist ls a) s = refresh_tabs a (s\<lparr>dom_tabs := ls\<rparr>)"

definition tabs_step :: "tab_input \<Rightarrow> tabs option \<Rightarrow> tabs option" where
  "tabs_step e s = Option.bind s (tabs_input e)"

section \<open>The search for the next tab\<close>

text \<open>The k-th tab after (before) a tab, around the ends of the list.\<close>

definition around :: "int \<Rightarrow> bool \<Rightarrow> int \<Rightarrow> nat \<Rightarrow> int" where
  "around n forward i k = (if forward then i + int k else i - int k) mod n"

lemma constrain_id [simp]: "0 \<le> i \<Longrightarrow> i \<le> m \<Longrightarrow> constrain_index m i = i"
  by (simp add: constrain_index_def)

lemma constrain_range: "0 \<le> m \<Longrightarrow> 0 \<le> constrain_index m i \<and> constrain_index m i \<le> m"
  by (simp add: constrain_index_def Let_def)

lemma constrain_twice [simp]: "0 \<le> m \<Longrightarrow> constrain_index m (constrain_index m i) = constrain_index m i"
  using constrain_range by simp

lemma constrain_next:
  assumes "0 \<le> i" "i < n"
  shows "constrain_index (n - 1) (if forward then i + 1 else i - 1) = around n forward i (Suc 0)"
proof -
  have "(i - 1) mod n = (if i = 0 then n - 1 else i - 1)"
    using assms by (simp add: zmod_minus1)
  moreover have "(i + 1) mod n = (if i = n - 1 then 0 else i + 1)"
    using assms by simp
  ultimately show ?thesis
    using assms by (cases forward) (simp_all add: constrain_index_def around_def)
qed

lemma around_Suc:
  assumes "0 < n"
  shows "around n forward (around n forward i (Suc 0)) k = around n forward i (Suc k)"
  by (simp add: around_def mod_simps algebra_simps)

lemma around_range: "0 < n \<Longrightarrow> 0 \<le> around n forward i k \<and> around n forward i k < n"
  by (simp add: around_def)

lemma around_0 [simp]: "0 \<le> i \<Longrightarrow> i < n \<Longrightarrow> around n forward i 0 = i"
  by (simp add: around_def)

lemma next_tab_loop_at:
  assumes "0 \<le> i" "i < n" "\<forall>m < k. in_disabled (around n forward i m) d" "\<not> in_disabled (around n forward i k) d"
  shows "next_tab_loop (n - 1) d forward i = Some (around n forward i k)"
  using assms
proof (induction k arbitrary: i)
  case 0
  then show ?case
    by (subst next_tab_loop.simps) simp
next
  case (Suc k)
  let ?j = "if forward then i + 1 else i - 1"
  have "in_disabled i d"
    using Suc.prems by (metis around_0 zero_less_Suc)
  then have step: "next_tab_loop (n - 1) d forward i = next_tab_loop (n - 1) d forward ?j"
    using Suc.prems(1,2) by (subst next_tab_loop.simps) simp
  have same: "next_tab_loop (n - 1) d forward ?j = next_tab_loop (n - 1) d forward (constrain_index (n - 1) ?j)"
    using Suc.prems(1,2) by (subst (1 2) next_tab_loop.simps) simp
  have n: "0 < n"
    using Suc.prems(1,2) by simp
  have "next_tab_loop (n - 1) d forward (around n forward i (Suc 0)) = Some (around n forward (around n forward i (Suc 0)) k)"
    using Suc.prems(3,4) by (intro Suc.IH) (auto simp: around_range [OF n] around_Suc [OF n])
  then show ?case
    unfolding step same constrain_next [OF Suc.prems(1,2)] around_Suc [OF n] .
qed

lemma next_tab_loop_constrain:
  "0 < n \<Longrightarrow> next_tab_loop (n - 1) d forward i = next_tab_loop (n - 1) d forward (constrain_index (n - 1) i)"
  by (subst (1 2) next_tab_loop.simps) simp

lemma next_tab_loop_enabled:
  assumes "next_tab_loop m d forward i = Some j"
  shows "\<not> in_disabled j d \<and> (\<exists>i'. j = constrain_index m i')"
proof (rule next_tab_loop.raw_induct [where P = "\<lambda>m d f i j. \<not> in_disabled j d \<and> (\<exists>i'. j = constrain_index m i')", OF _ assms])
  fix loop :: "int \<Rightarrow> disabled_tabs \<Rightarrow> bool \<Rightarrow> int \<Rightarrow> int option" and m d f i j
  assume IH: "\<And>m d f i j. loop m d f i = Some j \<Longrightarrow> \<not> in_disabled j d \<and> (\<exists>i'. j = constrain_index m i')"
    and eq: "(let j = constrain_index m i in if in_disabled j d then loop m d f (if f then j + 1 else j - 1) else Some j) = Some j"
  then show "\<not> in_disabled j d \<and> (\<exists>i'. j = constrain_index m i')"
    by (auto simp: Let_def split: if_splits dest: IH)
qed

lemma around_hits:
  assumes "0 \<le> e" "e < n" "0 \<le> i" "i < n"
  shows "\<exists>k < nat n. around n forward i k = e"
proof -
  let ?k = "nat ((if forward then e - i else i - e) mod n)"
  have k: "int ?k = (if forward then e - i else i - e) mod n"
    using assms by simp
  have "?k < nat n"
    using assms by (simp add: nat_less_iff)
  moreover have "around n forward i ?k = e"
    unfolding around_def k using assms by (simp add: mod_simps)
  ultimately show ?thesis
    by blast
qed

text \<open>
  The search for the next tab returns exactly if some tab is not listed as disabled, and then with the
  first such tab in the given direction, around the ends of the list.
\<close>

lemma next_tab_first:
  assumes n: "0 < n" and e: "0 \<le> e" "e < n" "\<not> in_disabled e d"
  shows "\<exists>k < nat n. next_tab_loop (n - 1) d forward i = Some (around n forward (constrain_index (n - 1) i) k)
           \<and> \<not> in_disabled (around n forward (constrain_index (n - 1) i) k) d
           \<and> (\<forall>m < k. in_disabled (around n forward (constrain_index (n - 1) i) m) d)"
proof -
  let ?c = "constrain_index (n - 1) i"
  let ?P = "\<lambda>k. \<not> in_disabled (around n forward ?c k) d"
  have c: "0 \<le> ?c" "?c < n"
    using constrain_range [of "n - 1" i] n by auto
  obtain k0 where k0: "k0 < nat n" "?P k0"
    using around_hits [OF e(1,2) c] e(3) by metis
  have found: "?P (Least ?P)" and first: "\<forall>m < Least ?P. in_disabled (around n forward ?c m) d"
    using LeastI [of ?P, OF k0(2)] not_less_Least [of _ ?P] by blast+
  have "Least ?P < nat n"
    using Least_le [of ?P, OF k0(2)] k0(1) by linarith
  then show ?thesis
    using next_tab_loop_at [OF c first found] found first next_tab_loop_constrain [OF n, of d forward i] by metis
qed

lemma next_tab_none:
  assumes n: "0 < n" and all: "\<forall>e. 0 \<le> e \<and> e < n \<longrightarrow> in_disabled e d"
  shows "next_tab_loop (n - 1) d forward i = None"
proof (rule ccontr)
  assume "next_tab_loop (n - 1) d forward i \<noteq> None"
  then obtain j where "next_tab_loop (n - 1) d forward i = Some j"
    by blast
  then obtain i' where "\<not> in_disabled j d" "j = constrain_index (n - 1) i'"
    using next_tab_loop_enabled by blast
  then show False
    using all constrain_range [of "n - 1" i'] n by auto
qed

section \<open>Invariant\<close>

text \<open>
  The structure of the widget: every tab has a panel, and \<open>options.active\<close> is the position of the active
  tab. The option \<open>disabled\<close> agrees with the marks of the tabs and leaves some tab enabled when it is a list.
\<close>

definition tab_ready :: "tabs \<Rightarrow> nat \<Rightarrow> bool" where
  "tab_ready s l \<longleftrightarrow> given_id (tab_at s l) \<and> getPanelForTab (Some l) s \<noteq> None
     \<and> local_hash (tab_at s l) \<in> {None, aria_controls (tab_at s l)}"

definition tabs_wf :: "tabs \<Rightarrow> bool" where
  "tabs_wf s \<longleftrightarrow> distinct (all_tabs s) \<and> panel_at s ''undefined'' = None \<and> (\<forall>l \<in> set (all_tabs s). tab_ready s l)
     \<and> o_active s = map_option (\<lambda>l. tab_position (Some l) s) (active_tab s) \<and> set_option (active_tab s) \<subseteq> set (all_tabs s)"

definition sound_list :: "nat \<Rightarrow> disabled_tabs \<Rightarrow> bool" where
  "sound_list n d = (case d of Flag b \<Rightarrow> True | Listed is \<Rightarrow> distinct is \<and> (\<forall>i \<in> set is. 0 \<le> i \<and> i < int n))"

definition disabled_wf :: "tabs \<Rightarrow> bool" where
  "disabled_wf s \<longleftrightarrow> (\<forall>l \<in> set (all_tabs s). t_disabled (tab_at s l) = tab_off (o_disabled s) l s)
     \<and> sound_list (length (all_tabs s)) (o_disabled s) \<and> tidy_disabled (length (all_tabs s)) (o_disabled s) = o_disabled s"

text \<open>What the page shows: attributes at once, the display of panels and the class of the active tab after the animation.\<close>

definition active_panel :: "tabs \<Rightarrow> string option" where
  "active_panel s = getPanelForTab (active_tab s) s"

definition shown_in :: "tabs \<Rightarrow> string \<Rightarrow> bool" where
  "shown_in s p \<longleftrightarrow> (\<exists>q. panel_at s p = Some q \<and> p_shown q)"

definition hidden_in :: "tabs \<Rightarrow> string \<Rightarrow> bool" where
  "hidden_in s p \<longleftrightarrow> (\<exists>q. panel_at s p = Some q \<and> p_hidden q)"

definition attrs_ok :: "tabs \<Rightarrow> bool" where
  "attrs_ok s \<longleftrightarrow> (\<forall>l \<in> set (all_tabs s). t_expanded (tab_at s l) = (active_tab s = Some l))
     \<and> (\<forall>p \<in> set (all_panels s). hidden_in s p = (active_panel s \<noteq> Some p))"

definition fits :: "event_data \<Rightarrow> tabs \<Rightarrow> bool" where
  "fits ed s \<longleftrightarrow> newTab ed = active_tab s \<and> newPanel ed = active_panel s"

definition display_ok :: "tabs \<Rightarrow> bool" where
  "display_ok s =
     (case running s of
        Idle \<Rightarrow> (\<forall>l \<in> set (all_tabs s). t_active (tab_at s l) = (active_tab s = Some l))
              \<and> (\<forall>p \<in> set (all_panels s). shown_in s p = (active_panel s = Some p))
      | Showing ed \<Rightarrow> fits ed s \<and> (\<forall>l \<in> set (all_tabs s). t_active (tab_at s l) = (active_tab s = Some l))
              \<and> (\<forall>p \<in> set (all_panels s). shown_in s p \<longrightarrow> active_panel s = Some p)
      | Hiding ed \<Rightarrow> fits ed s \<and> (\<forall>l \<in> set (all_tabs s). t_active (tab_at s l) \<longrightarrow> oldTab ed = Some l \<or> active_tab s = Some l)
              \<and> (\<forall>p \<in> set (all_panels s). shown_in s p \<longrightarrow> oldPanel ed = Some p \<or> active_panel s = Some p))"

definition tabs_inv :: "tabs \<Rightarrow> bool" where
  "tabs_inv s \<longleftrightarrow> tabs_wf s \<and> disabled_wf s \<and> attrs_ok s \<and> display_ok s"

text \<open>The part of the state the invariant depends on.\<close>

definition tabs_view :: "tabs \<Rightarrow> nat list \<times> int option \<times> nat option \<times> disabled_tabs \<times> animation
    \<times> (nat \<Rightarrow> string option \<times> string option \<times> bool \<times> bool \<times> bool) \<times> (string \<Rightarrow> (bool \<times> bool) option)" where
  "tabs_view s =
     (all_tabs s, o_active s, active_tab s, o_disabled s, running s,
      (\<lambda>l. let t = tab_at s l in (local_hash t, aria_controls t, t_disabled t, t_active t, t_expanded t)),
      (\<lambda>p. map_option (\<lambda>q. (p_shown q, p_hidden q)) (panel_at s p)))"

lemma tabs_viewD:
  assumes "tabs_view s = tabs_view s'"
  shows "all_tabs s = all_tabs s'" "o_active s = o_active s'" "active_tab s = active_tab s'"
    "o_disabled s = o_disabled s'" "running s = running s'" "local_hash (tab_at s l) = local_hash (tab_at s' l)"
    "aria_controls (tab_at s l) = aria_controls (tab_at s' l)" "t_disabled (tab_at s l) = t_disabled (tab_at s' l)"
    "t_active (tab_at s l) = t_active (tab_at s' l)" "t_expanded (tab_at s l) = t_expanded (tab_at s' l)"
    "(panel_at s p = None) = (panel_at s' p = None)" "shown_in s p = shown_in s' p" "hidden_in s p = hidden_in s' p"
proof -
  from assms have t: "(\<lambda>t. (local_hash t, aria_controls t, t_disabled t, t_active t, t_expanded t)) (tab_at s l)
      = (\<lambda>t. (local_hash t, aria_controls t, t_disabled t, t_active t, t_expanded t)) (tab_at s' l)"
    by (auto simp: tabs_view_def Let_def dest: fun_cong [of _ _ l])
  then show "local_hash (tab_at s l) = local_hash (tab_at s' l)"
    "aria_controls (tab_at s l) = aria_controls (tab_at s' l)" "t_disabled (tab_at s l) = t_disabled (tab_at s' l)"
    "t_active (tab_at s l) = t_active (tab_at s' l)" "t_expanded (tab_at s l) = t_expanded (tab_at s' l)"
    by simp_all
  have "map_option (\<lambda>q. (p_shown q, p_hidden q)) (panel_at s p) = map_option (\<lambda>q. (p_shown q, p_hidden q)) (panel_at s' p)"
    using assms by (auto simp: tabs_view_def dest: fun_cong [of _ _ p])
  then show "(panel_at s p = None) = (panel_at s' p = None)" "shown_in s p = shown_in s' p" "hidden_in s p = hidden_in s' p"
    by (auto simp: shown_in_def hidden_in_def map_option_case split: option.splits)
qed (use assms in \<open>auto simp: tabs_view_def\<close>)

lemma view_derived:
  assumes "tabs_view s = tabs_view s'"
  shows "tab_position t s = tab_position t s'" "getPanelForTab t s = getPanelForTab t s'" "active_panel s = active_panel s'"
    "all_panels s = all_panels s'" "tab_off d l s = tab_off d l s'" "tab_ready s l = tab_ready s' l" "fits ed s = fits ed s'"
proof -
  note v = tabs_viewD [OF assms]
  show pos: "tab_position t s = tab_position t s'" for t
    by (cases t) (simp_all add: tab_position_def v(1))
  have "controls_id t s = controls_id t s'" for t
    by (cases t) (simp_all add: controls_id_def v(7))
  then show panel: "getPanelForTab t s = getPanelForTab t s'" for t
    by (simp add: getPanelForTab_def v(11) Let_def)
  then show "active_panel s = active_panel s'" "all_panels s = all_panels s'"
    by (simp_all add: active_panel_def all_panels_def v(1,3))
  then show "fits ed s = fits ed s'"
    by (simp add: fits_def v(3))
  show "tab_off d l s = tab_off d l s'" "tab_ready s l = tab_ready s' l"
    by (simp_all add: tab_off_def tab_ready_def given_id_def pos panel v(6,7))
qed

lemma tabs_inv_view:
  assumes "tabs_view s = tabs_view s'"
  shows "tabs_inv s = tabs_inv s'"
  unfolding tabs_inv_def tabs_wf_def disabled_wf_def attrs_ok_def display_ok_def
  unfolding tabs_viewD [OF assms] view_derived [OF assms] ..

lemma upd_tabs_fields [simp]:
  "all_tabs (upd_tabs ls f s) = all_tabs s" "dom_tabs (upd_tabs ls f s) = dom_tabs s" "o_active (upd_tabs ls f s) = o_active s"
  "active_tab (upd_tabs ls f s) = active_tab s" "o_disabled (upd_tabs ls f s) = o_disabled s" "running (upd_tabs ls f s) = running s"
  "panel_at (upd_tabs ls f s) = panel_at s" "o_show (upd_tabs ls f s) = o_show s" "uuid (upd_tabs ls f s) = uuid s"
  "tab_at (upd_tabs ls f s) l = (if l \<in> ls then f (tab_at s l) else tab_at s l)"
  "xhr (upd_tabs ls f s) = xhr s" "requests (upd_tabs ls f s) = requests s"
  by (simp_all add: upd_tabs_def)

lemma upd_panels_fields [simp]:
  "all_tabs (upd_panels ps f s) = all_tabs s" "dom_tabs (upd_panels ps f s) = dom_tabs s" "o_active (upd_panels ps f s) = o_active s"
  "active_tab (upd_panels ps f s) = active_tab s" "o_disabled (upd_panels ps f s) = o_disabled s" "running (upd_panels ps f s) = running s"
  "tab_at (upd_panels ps f s) = tab_at s" "o_show (upd_panels ps f s) = o_show s" "uuid (upd_panels ps f s) = uuid s"
  "panel_at (upd_panels ps f s) p = (if p \<in> ps then map_option f (panel_at s p) else panel_at s p)"
  "xhr (upd_panels ps f s) = xhr s" "requests (upd_panels ps f s) = requests s"
  by (simp_all add: upd_panels_def option.map_ident)

lemma log_tabs_fields [simp]:
  "all_tabs (log_tabs e s) = all_tabs s" "dom_tabs (log_tabs e s) = dom_tabs s" "o_active (log_tabs e s) = o_active s"
  "active_tab (log_tabs e s) = active_tab s" "o_disabled (log_tabs e s) = o_disabled s" "running (log_tabs e s) = running s"
  "tab_at (log_tabs e s) = tab_at s" "panel_at (log_tabs e s) = panel_at s" "requests (log_tabs e s) = requests s" "xhr (log_tabs e s) = xhr s"
  by (simp_all add: log_tabs_def)

text \<open>Which panel belongs to a tab depends on \<open>aria-controls\<close> and on the existence of panels only.\<close>

lemma panel_cong:
  assumes "\<And>l. aria_controls (tab_at s' l) = aria_controls (tab_at s l)" "\<And>p. (panel_at s' p = None) = (panel_at s p = None)"
  shows "getPanelForTab t s' = getPanelForTab t s"
  using assms by (cases t) (simp_all add: getPanelForTab_def controls_id_def Let_def)

lemma panels_cong:
  assumes "\<And>l. aria_controls (tab_at s' l) = aria_controls (tab_at s l)" "\<And>p. (panel_at s' p = None) = (panel_at s p = None)"
    "all_tabs s' = all_tabs s"
  shows "all_panels s' = all_panels s"
  using assms by (simp add: all_panels_def panel_cong [of s' s])

lemma panel_of_tab: "getPanelForTab t s = Some p \<Longrightarrow> panel_at s p \<noteq> None"
  by (auto simp: getPanelForTab_def Let_def split: if_splits)

lemma panels_exist: "p \<in> set (all_panels s) \<Longrightarrow> panel_at s p \<noteq> None"
  by (auto simp: all_panels_def List.map_filter_def dest: panel_of_tab)

lemma panel_known: "l \<in> set (all_tabs s) \<Longrightarrow> getPanelForTab (Some l) s = Some p \<Longrightarrow> p \<in> set (all_panels s)"
  by (force simp: all_panels_def List.map_filter_def)

text \<open>Operations that leave the view alone.\<close>

lemma view_upd_tabs:
  assumes "\<And>t. local_hash (f t) = local_hash t \<and> aria_controls (f t) = aria_controls t \<and> t_disabled (f t) = t_disabled t
     \<and> t_active (f t) = t_active t \<and> t_expanded (f t) = t_expanded t"
  shows "tabs_view (upd_tabs ls f s) = tabs_view s"
  using assms by (simp add: tabs_view_def Let_def fun_eq_iff)

lemma view_upd_panels:
  assumes "\<And>q. p_shown (f q) = p_shown q \<and> p_hidden (f q) = p_hidden q"
  shows "tabs_view (upd_panels ps f s) = tabs_view s"
  using assms by (simp add: tabs_view_def Let_def fun_eq_iff map_option_case split: option.split)

lemma view_other [simp]:
  "tabs_view (s\<lparr>xhr := x\<rparr>) = tabs_view s" "tabs_view (s\<lparr>sent := n\<rparr>) = tabs_view s" "tabs_view (s\<lparr>requests := q\<rparr>) = tabs_view s"
  "tabs_view (s\<lparr>focused := t\<rparr>) = tabs_view s" "tabs_view (s\<lparr>activating := i\<rparr>) = tabs_view s" "tabs_view (log_tabs e s) = tabs_view s"
  "tabs_view (s\<lparr>o_show := b\<rparr>) = tabs_view s" "tabs_view (s\<lparr>o_hide := b\<rparr>) = tabs_view s" "tabs_view (s\<lparr>o_collapsible := b\<rparr>) = tabs_view s"
  by (simp_all add: tabs_view_def log_tabs_def)

lemma view_settle [simp]: "tabs_view (settle r a s) = tabs_view s" "tabs_view (abort_xhr s) = tabs_view s"
  by (simp_all add: settle_def abort_xhr_def split: option.split)

lemma view_load [simp]: "tabs_view (load_tab c i s) = tabs_view s"
  by (simp add: load_tab_def Let_def view_upd_tabs view_upd_panels split: option.split)

lemma view_done [simp]: "tabs_view (request_done r q s) = tabs_view s"
  by (simp add: request_done_def view_upd_tabs view_upd_panels)

section \<open>Animations and attributes\<close>

definition settling :: "event_data \<Rightarrow> tabs \<Rightarrow> bool" where
  "settling ed s \<longleftrightarrow> fits ed s
     \<and> (\<forall>l \<in> set (all_tabs s). t_active (tab_at s l) \<longrightarrow> oldTab ed = Some l \<or> active_tab s = Some l)
     \<and> (\<forall>p \<in> set (all_panels s). shown_in s p \<longrightarrow> oldPanel ed = Some p \<or> active_panel s = Some p)"

text \<open>The operations of \<open>_toggle\<close> keep the structure.\<close>

definition same_structure :: "tabs \<Rightarrow> tabs \<Rightarrow> bool" where
  "same_structure s s' \<longleftrightarrow> all_tabs s' = all_tabs s \<and> o_active s' = o_active s \<and> active_tab s' = active_tab s \<and> o_disabled s' = o_disabled s
     \<and> (\<forall>l. aria_controls (tab_at s' l) = aria_controls (tab_at s l) \<and> local_hash (tab_at s' l) = local_hash (tab_at s l)
          \<and> t_disabled (tab_at s' l) = t_disabled (tab_at s l))
     \<and> (\<forall>p. (panel_at s' p = None) = (panel_at s p = None))"

lemma structure_derived:
  assumes "same_structure s s'"
  shows "getPanelForTab t s' = getPanelForTab t s" "all_panels s' = all_panels s" "active_panel s' = active_panel s"
    "fits ed s' = fits ed s" "tab_position t s' = tab_position t s"
  using assms panel_cong [of s' s] panels_cong [of s' s]
  by (auto simp: same_structure_def active_panel_def fits_def tab_position_def split: option.split)

lemma structure_wf:
  assumes "same_structure s s'"
  shows "tabs_wf s' = tabs_wf s" "disabled_wf s' = disabled_wf s"
proof -
  have "tab_ready s' l = tab_ready s l" for l
    using assms by (simp add: tab_ready_def structure_derived [OF assms] given_id_def same_structure_def)
  then show "tabs_wf s' = tabs_wf s"
    using assms by (simp add: tabs_wf_def structure_derived [OF assms] same_structure_def)
  show "disabled_wf s' = disabled_wf s"
    using assms by (simp add: disabled_wf_def tab_off_def structure_derived [OF assms] same_structure_def)
qed

lemma structure_trans: "same_structure s s' \<Longrightarrow> same_structure s' s'' \<Longrightarrow> same_structure s s''"
  by (simp add: same_structure_def)

lemma structure_shown_now: "same_structure s (shown_now ed s)"
  by (simp add: same_structure_def shown_now_def toggle_complete_def)

lemma structure_toggle_show: "same_structure s (toggle_show ed s)"
  by (simp add: same_structure_def toggle_show_def shown_now_def toggle_complete_def Let_def)

lemma structure_hidden_now: "same_structure s (hidden_now ed s)"
  using structure_toggle_show [of "upd_panels (set_option (oldPanel ed)) (\<lambda>p. p\<lparr>p_shown := False\<rparr>)
          (upd_tabs (set_option (oldTab ed)) (\<lambda>t. t\<lparr>t_active := False\<rparr>) s)" ed]
  by (simp add: hidden_now_def same_structure_def)

lemma structure_end: "same_structure s (animation_end s)"
  by (auto simp: animation_end_def structure_shown_now structure_hidden_now split: animation.split) (simp add: same_structure_def)

lemma structure_attrs: "same_structure s (toggle_attrs ed s)"
  by (simp add: same_structure_def toggle_attrs_def Let_def)

lemma display_shown_now:
  assumes "fits ed s" "\<forall>l \<in> set (all_tabs s). t_active (tab_at s l) = (active_tab s = Some l)"
    "\<forall>p \<in> set (all_panels s). shown_in s p \<longrightarrow> active_panel s = Some p"
  shows "display_ok (shown_now ed s)"
proof -
  have "shown_in (shown_now ed s) p = (active_panel s = Some p)" if p: "p \<in> set (all_panels s)" for p
    using assms(1,3) p panels_exist [OF p]
    by (auto simp: shown_in_def shown_now_def toggle_complete_def fits_def)
  moreover have "tab_at (shown_now ed s) = tab_at s" "running (shown_now ed s) = Idle"
    by (simp_all add: shown_now_def toggle_complete_def)
  ultimately show ?thesis
    using assms(2) structure_shown_now [of s ed]
    by (simp add: display_ok_def structure_derived [OF structure_shown_now] same_structure_def)
qed

lemma display_toggle_show:
  assumes "fits ed s" "\<forall>l \<in> set (all_tabs s). t_active (tab_at s l) \<longrightarrow> active_tab s = Some l"
    "\<forall>p \<in> set (all_panels s). shown_in s p \<longrightarrow> active_panel s = Some p"
  shows "display_ok (toggle_show ed s)"
proof -
  let ?s = "upd_tabs (set_option (newTab ed)) (\<lambda>t. t\<lparr>t_active := True\<rparr>) s"
  have st: "same_structure s ?s" "same_structure s (?s\<lparr>running := Showing ed\<rparr>)"
    by (simp_all add: same_structure_def)
  have shown: "shown_in ?s p = shown_in s p" "shown_in (?s\<lparr>running := Showing ed\<rparr>) p = shown_in s p" for p
    by (simp_all add: shown_in_def)
  have act: "\<forall>l \<in> set (all_tabs s). t_active (tab_at ?s l) = (active_tab s = Some l)"
    using assms(1,2) by (auto simp: fits_def)
  have "display_ok (?s\<lparr>running := Showing ed\<rparr>)"
    using assms(1,3) act by (simp add: display_ok_def structure_derived [OF st(2)] shown)
  moreover have "display_ok (shown_now ed ?s)"
    using assms(1,3) act by (intro display_shown_now) (simp_all add: structure_derived [OF st(1)] shown)
  ultimately show ?thesis
    by (simp add: toggle_show_def Let_def)
qed

lemma display_hidden_now:
  assumes "settling ed s"
  shows "display_ok (hidden_now ed s)"
proof -
  let ?s = "upd_panels (set_option (oldPanel ed)) (\<lambda>p. p\<lparr>p_shown := False\<rparr>)
          (upd_tabs (set_option (oldTab ed)) (\<lambda>t. t\<lparr>t_active := False\<rparr>) s)"
  have st: "same_structure s ?s"
    by (simp add: same_structure_def)
  have "display_ok (toggle_show ed ?s)"
    using assms by (intro display_toggle_show) (auto simp: structure_derived [OF st] settling_def shown_in_def)
  then show ?thesis
    by (simp add: hidden_now_def)
qed

lemma display_end: "display_ok s \<Longrightarrow> display_ok (animation_end s)"
  by (cases "running s")
    (auto simp: animation_end_def display_ok_def [of s] settling_def intro!: display_hidden_now display_shown_now)

lemma attrs_same:
  assumes "same_structure s s'" "\<And>l. t_expanded (tab_at s' l) = t_expanded (tab_at s l)" "\<And>p. hidden_in s' p = hidden_in s p"
  shows "attrs_ok s' = attrs_ok s"
  using assms structure_derived [OF assms(1)] by (simp add: attrs_ok_def same_structure_def)

lemma display_same:
  assumes "same_structure s s'" "\<And>l. t_active (tab_at s' l) = t_active (tab_at s l)" "\<And>p. shown_in s' p = shown_in s p"
    "running s' = running s"
  shows "display_ok s' = display_ok s"
  using assms structure_derived [OF assms(1)] by (cases "running s") (simp_all add: display_ok_def same_structure_def)

lemma attrs_untouched:
  "t_expanded (tab_at (shown_now ed s) l) = t_expanded (tab_at s l)" "hidden_in (shown_now ed s) p = hidden_in s p"
  "t_expanded (tab_at (toggle_show ed s) l) = t_expanded (tab_at s l)" "hidden_in (toggle_show ed s) p = hidden_in s p"
  "t_expanded (tab_at (hidden_now ed s) l) = t_expanded (tab_at s l)" "hidden_in (hidden_now ed s) p = hidden_in s p"
  by (auto simp: shown_now_def toggle_show_def hidden_now_def toggle_complete_def hidden_in_def Let_def)

lemma inv_end:
  assumes "tabs_inv s"
  shows "tabs_inv (animation_end s)"
proof -
  have "attrs_ok (animation_end s) = attrs_ok s"
    by (rule attrs_same [OF structure_end])
      (auto simp: animation_end_def attrs_untouched split: animation.split)
  then show ?thesis
    using assms by (simp add: tabs_inv_def structure_wf [OF structure_end] display_end)
qed

text \<open>What holds between the change of the active tab and the end of \<open>_toggle\<close>.\<close>

definition switching :: "event_data \<Rightarrow> tabs \<Rightarrow> bool" where
  "switching ed s \<longleftrightarrow> tabs_wf s \<and> disabled_wf s \<and> settling ed s
     \<and> (\<forall>l \<in> set (all_tabs s). t_expanded (tab_at s l) \<longrightarrow> oldTab ed = Some l)
     \<and> (\<forall>p \<in> set (all_panels s). hidden_in s p = (oldPanel ed \<noteq> Some p))"

lemma attrs_toggle:
  assumes "fits ed s" "\<forall>l \<in> set (all_tabs s). t_expanded (tab_at s l) \<longrightarrow> oldTab ed = Some l"
    "\<forall>p \<in> set (all_panels s). hidden_in s p = (oldPanel ed \<noteq> Some p)"
  shows "attrs_ok (toggle_attrs ed s)"
proof -
  have "t_expanded (tab_at (toggle_attrs ed s) l) = (active_tab s = Some l)" if "l \<in> set (all_tabs s)" for l
    using assms(1,2) that by (auto simp: toggle_attrs_def Let_def fits_def)
  moreover have "hidden_in (toggle_attrs ed s) p = (active_panel s \<noteq> Some p)" if p: "p \<in> set (all_panels s)" for p
    using assms(1,3) p panels_exist [OF p] by (auto simp: toggle_attrs_def Let_def fits_def hidden_in_def)
  ultimately show ?thesis
    using structure_attrs [of s ed] by (simp add: attrs_ok_def structure_derived [OF structure_attrs] same_structure_def)
qed

lemma display_attrs: "display_ok (toggle_attrs ed s) = display_ok s"
  by (rule display_same [OF structure_attrs]) (auto simp: toggle_attrs_def Let_def shown_in_def)

lemma inv_toggle:
  assumes "switching ed s"
  shows "tabs_inv (tabs_toggle ed s)"
proof -
  let ?a = "s\<lparr>running := Hiding ed\<rparr>" and ?b = "hidden_now ed s"
  have sa: "same_structure s ?a"
    by (simp add: same_structure_def)
  have ha: "hidden_in ?a p = hidden_in s p" for p
    by (simp add: hidden_in_def)
  have "attrs_ok (toggle_attrs ed ?a)" "attrs_ok (toggle_attrs ed ?b)"
    using assms structure_hidden_now [of s ed]
    by (auto intro!: attrs_toggle simp: switching_def settling_def structure_derived [OF sa] structure_derived [OF structure_hidden_now]
        attrs_untouched same_structure_def ha)
  moreover have "display_ok ?a"
    using assms by (auto simp: switching_def display_ok_def settling_def structure_derived [OF sa] shown_in_def)
  moreover have "display_ok ?b"
    using assms by (simp add: switching_def display_hidden_now)
  ultimately show ?thesis
    using assms
    by (simp add: tabs_inv_def tabs_toggle_def display_attrs structure_wf [OF structure_attrs] structure_wf [OF sa]
        structure_wf [OF structure_hidden_now] switching_def)
qed

section \<open>Activation keeps the invariant\<close>

lemma eq_tab_member: "eq_tab i s = Some l \<Longrightarrow> l \<in> set (all_tabs s)"
  by (auto simp: eq_tab_def Let_def split: if_splits)

lemma position_index: "distinct (all_tabs s) \<Longrightarrow> l \<in> set (all_tabs s) \<Longrightarrow> eq_tab (tab_position (Some l) s) s = Some l"
  using index_of_Some_ex [of l "all_tabs s"] by (auto simp: tab_position_def eq_tab_def dest: index_of_Some)

lemma no_active_panel: "tabs_wf s \<Longrightarrow> getPanelForTab None s = None"
  by (simp add: tabs_wf_def getPanelForTab_def controls_id_def)

lemma switching_view:
  assumes "tabs_view s = tabs_view s'"
  shows "switching ed s = switching ed s'"
  unfolding switching_def settling_def tabs_wf_def disabled_wf_def
  unfolding tabs_viewD [OF assms] view_derived [OF assms] ..

definition set_active :: "int option \<Rightarrow> nat option \<Rightarrow> tabs \<Rightarrow> tabs" where
  "set_active i t s = s\<lparr>o_active := i, active_tab := t\<rparr>"

lemma set_active_fields [simp]:
  "o_active (set_active i t s) = i" "active_tab (set_active i t s) = t" "all_tabs (set_active i t s) = all_tabs s"
  "tab_at (set_active i t s) = tab_at s" "panel_at (set_active i t s) = panel_at s" "o_disabled (set_active i t s) = o_disabled s"
  "running (set_active i t s) = running s" "dom_tabs (set_active i t s) = dom_tabs s"
  by (simp_all add: set_active_def)

lemma set_active_derived [simp]:
  "getPanelForTab u (set_active i t s) = getPanelForTab u s" "all_panels (set_active i t s) = all_panels s"
  "tab_position u (set_active i t s) = tab_position u s" "tab_off d k (set_active i t s) = tab_off d k s"
  "tab_ready (set_active i t s) k = tab_ready s k" "shown_in (set_active i t s) p = shown_in s p"
  "hidden_in (set_active i t s) p = hidden_in s p"
proof -
  show panel: "getPanelForTab u (set_active i t s) = getPanelForTab u s" for u
    by (rule panel_cong) simp_all
  show "all_panels (set_active i t s) = all_panels s"
    by (rule panels_cong) simp_all
  show pos: "tab_position u (set_active i t s) = tab_position u s" for u
    by (cases u) (simp_all add: tab_position_def)
  show "tab_off d k (set_active i t s) = tab_off d k s" "tab_ready (set_active i t s) k = tab_ready s k"
    "shown_in (set_active i t s) p = shown_in s p" "hidden_in (set_active i t s) p = hidden_in s p"
    by (simp_all add: tab_off_def tab_ready_def shown_in_def hidden_in_def panel pos)
qed

lemma switching_start:
  assumes "tabs_inv s" "running s = Idle" "tabs_wf (set_active i t s)"
    and "newTab ed = t" "newPanel ed = getPanelForTab t s" "oldTab ed = active_tab s" "oldPanel ed = active_panel s"
  shows "switching ed (set_active i t s)"
proof -
  have "disabled_wf (set_active i t s)"
    using assms(1) by (simp add: tabs_inv_def disabled_wf_def)
  then show ?thesis
    using assms by (simp add: switching_def settling_def fits_def active_panel_def tabs_inv_def attrs_ok_def display_ok_def)
qed

lemma inv_eventHandler:
  assumes inv: "tabs_inv s" and l: "l \<in> set (all_tabs s)"
  shows "tabs_inv (eventHandler a l s)"
proof (cases "refuses a l s")
  case True
  then show ?thesis
    using inv by (simp add: eventHandler_def)
next
  case False
  let ?collapsing = "active_tab s = Some l"
  let ?s = "set_active (if ?collapsing then None else Some (tab_position (Some l) s)) (if ?collapsing then None else Some l) s"
  let ?ed = "activation l s"
  have idle: "running s = Idle" and coll: "?collapsing \<Longrightarrow> o_collapsible s"
    using False by (auto simp: refuses_def)
  have wf: "tabs_wf s"
    using inv by (simp add: tabs_inv_def)
  have "switching ?ed ?s"
  proof (rule switching_start [OF inv idle])
    show "tabs_wf ?s"
      using wf l by (auto simp: tabs_wf_def)
  qed (use no_active_panel [OF wf] coll in \<open>auto simp: activation_def Let_def active_panel_def\<close>)
  then have toggled: "tabs_inv (tabs_toggle ?ed s')" if "tabs_view s' = tabs_view ?s" for s'
    using switching_view [OF that] by (simp add: inv_toggle)
  have "\<exists>p. newPanel ?ed = Some p \<or> oldPanel ?ed = Some p"
    using wf l coll by (auto simp: activation_def tabs_wf_def tab_ready_def Let_def)
  moreover have "eq_tab (tab_position (Some l) s) s = Some l"
    using wf l position_index by (auto simp: tabs_wf_def)
  ultimately show ?thesis
    using False coll by (auto simp: eventHandler_def Let_def set_active_def intro!: toggled)
qed

lemma inv_activate:
  assumes "tabs_inv s"
  shows "tabs_inv (activate a i s)"
proof -
  have "l \<in> set (all_tabs s)" if "findActive i s = Some l \<or> active_tab s = Some l" for l
    using that assms by (cases i) (auto simp: findActive_def tabs_inv_def tabs_wf_def dest: eq_tab_member)
  then show ?thesis
    using assms by (auto simp: activate_def Let_def intro!: inv_eventHandler split: option.split)
qed

section \<open>Disabling keeps the invariant\<close>

lemma tidy_twice [simp]: "tidy_disabled n (tidy_disabled n d) = tidy_disabled n d"
  by (auto simp: tidy_disabled_def split: disabled_tabs.split)

lemma tidy_sound: "sound_list n d \<Longrightarrow> sound_list n (tidy_disabled n d)"
  by (auto simp: tidy_disabled_def sound_list_def split: disabled_tabs.split)

lemma setDisabled_fields [simp]:
  "all_tabs (tabs_setOptionDisabled d s) = all_tabs s" "o_active (tabs_setOptionDisabled d s) = o_active s"
  "active_tab (tabs_setOptionDisabled d s) = active_tab s" "running (tabs_setOptionDisabled d s) = running s"
  "panel_at (tabs_setOptionDisabled d s) = panel_at s" "dom_tabs (tabs_setOptionDisabled d s) = dom_tabs s"
  "o_disabled (tabs_setOptionDisabled d s) = tidy_disabled (length (all_tabs s)) d"
  "t_active (tab_at (tabs_setOptionDisabled d s) l) = t_active (tab_at s l)"
  "t_expanded (tab_at (tabs_setOptionDisabled d s) l) = t_expanded (tab_at s l)"
  "aria_controls (tab_at (tabs_setOptionDisabled d s) l) = aria_controls (tab_at s l)"
  "local_hash (tab_at (tabs_setOptionDisabled d s) l) = local_hash (tab_at s l)"
  by (simp_all add: tabs_setOptionDisabled_def Let_def)

lemma setDisabled_derived [simp]:
  "getPanelForTab t (tabs_setOptionDisabled d s) = getPanelForTab t s" "all_panels (tabs_setOptionDisabled d s) = all_panels s"
  "tab_position t (tabs_setOptionDisabled d s) = tab_position t s" "active_panel (tabs_setOptionDisabled d s) = active_panel s"
  "tab_off d' l (tabs_setOptionDisabled d s) = tab_off d' l s" "tab_ready (tabs_setOptionDisabled d s) l = tab_ready s l"
  "shown_in (tabs_setOptionDisabled d s) p = shown_in s p" "hidden_in (tabs_setOptionDisabled d s) p = hidden_in s p"
  "fits ed (tabs_setOptionDisabled d s) = fits ed s"
proof -
  show panel: "getPanelForTab t (tabs_setOptionDisabled d s) = getPanelForTab t s" for t
    by (rule panel_cong) simp_all
  show "all_panels (tabs_setOptionDisabled d s) = all_panels s"
    by (rule panels_cong) simp_all
  show pos: "tab_position t (tabs_setOptionDisabled d s) = tab_position t s" for t
    by (cases t) (simp_all add: tab_position_def)
  show act: "active_panel (tabs_setOptionDisabled d s) = active_panel s"
    by (simp add: active_panel_def panel)
  show "tab_off d' l (tabs_setOptionDisabled d s) = tab_off d' l s" "tab_ready (tabs_setOptionDisabled d s) l = tab_ready s l"
    "shown_in (tabs_setOptionDisabled d s) p = shown_in s p" "hidden_in (tabs_setOptionDisabled d s) p = hidden_in s p"
    "fits ed (tabs_setOptionDisabled d s) = fits ed s"
    by (simp_all add: tab_off_def tab_ready_def shown_in_def hidden_in_def fits_def given_id_def panel pos act)
qed

lemma setDisabled_wf: "sound_list (length (all_tabs s)) d \<Longrightarrow> disabled_wf (tabs_setOptionDisabled d s)"
  by (simp add: disabled_wf_def tidy_sound) (simp add: tabs_setOptionDisabled_def Let_def)

lemma inv_setDisabled:
  assumes "tabs_inv s" "sound_list (length (all_tabs s)) d"
  shows "tabs_inv (tabs_setOptionDisabled d s)"
proof -
  have "display_ok (tabs_setOptionDisabled d s) = display_ok s"
    by (cases "running s") (simp_all add: display_ok_def)
  then show ?thesis
    using assms by (simp add: tabs_inv_def setDisabled_wf tabs_wf_def attrs_ok_def)
qed

lemma distinct_sort_by: "distinct (sort_by lt xs) = distinct xs"
  by (rule mset_eq_imp_distinct_iff) simp

lemma inv_enable:
  assumes "tabs_inv s"
  shows "tabs_inv (enable_tab i s)"
proof -
  have "sound_list (length (all_tabs s)) (o_disabled s)"
    using assms by (simp add: tabs_inv_def disabled_wf_def)
  then have "sound_list (length (all_tabs s)) (Listed (filter (\<lambda>n. n \<noteq> k)
      (case o_disabled s of Listed is \<Rightarrow> is | Flag b \<Rightarrow> map int [0..<length (all_tabs s)])))" for k
    by (auto simp: sound_list_def distinct_map split: disabled_tabs.splits)
  moreover have "sound_list (length (all_tabs s)) (Flag False)"
    by (simp add: sound_list_def)
  ultimately show ?thesis
    using assms by (simp add: enable_tab_def inv_setDisabled split: option.split)
qed

lemma inv_disable:
  assumes "tabs_inv s" "\<forall>k. i = Some k \<longrightarrow> 0 \<le> k \<and> k < int (length (all_tabs s))"
  shows "tabs_inv (disable_tab i s)"
proof -
  have "sound_list (length (all_tabs s)) (o_disabled s)"
    using assms by (simp add: tabs_inv_def disabled_wf_def)
  then have "sound_list (length (all_tabs s)) (Listed (case o_disabled s of Listed is \<Rightarrow> sort_by text_less (k # is) | Flag b \<Rightarrow> [k]))"
    if "i = Some k" "\<not> in_disabled k (o_disabled s)" for k
    using that assms(2) set_sort_by [of text_less "k # _"] distinct_sort_by [of text_less "k # _"]
    by (auto simp: sound_list_def in_disabled_def simp del: sort_by_Cons split: disabled_tabs.splits)
  moreover have "sound_list (length (all_tabs s)) (Flag True)"
    by (simp add: sound_list_def)
  ultimately show ?thesis
    using assms by (simp add: disable_tab_def inv_setDisabled split: option.split)
qed

section \<open>Keys, requests and timers\<close>

lemma findNextTab_returns:
  assumes "disabled_wf s"
  shows "\<exists>j. findNextTab i forward s = Some j"
proof (cases "o_disabled s")
  case (Flag b)
  then have "findNextTab i forward s = Some (constrain_index (int (length (all_tabs s)) - 1) i)"
    unfolding findNextTab_def by (subst next_tab_loop.simps) (simp add: in_disabled_def)
  then show ?thesis
    by blast
next
  case (Listed js)
  let ?n = "length (all_tabs s)"
  have js: "distinct js" "\<forall>i \<in> set js. 0 \<le> i \<and> i < int ?n" "js \<noteq> []" "length js \<noteq> ?n"
    using assms Listed by (auto simp: disabled_wf_def sound_list_def tidy_disabled_def split: if_splits)
  have "\<exists>e. 0 \<le> e \<and> e < int ?n \<and> e \<notin> set js"
  proof (rule ccontr)
    assume "\<not> ?thesis"
    then have "set js = {0..<int ?n}"
      using js(2) by auto
    then have "length js = ?n"
      using distinct_card [OF js(1)] by simp
    then show False
      using js(4) by simp
  qed
  then obtain e where "0 \<le> e" "e < int ?n" "\<not> in_disabled e (o_disabled s)"
    by (auto simp: in_disabled_def Listed)
  moreover from this have "0 < int ?n"
    by linarith
  ultimately show ?thesis
    unfolding findNextTab_def using next_tab_first [of "int ?n" e "o_disabled s" forward i] by blast
qed

lemma focusNextTab_view:
  assumes "disabled_wf s"
  shows "\<exists>j s'. focusNextTab i forward s = Some (j, s') \<and> tabs_view s' = tabs_view s"
  using findNextTab_returns [OF assms, of i forward] by (auto simp: focusNextTab_def split: option.split)

lemma inv_wf: "tabs_inv s \<Longrightarrow> disabled_wf s" "tabs_inv s \<Longrightarrow> tabs_wf s"
  by (simp_all add: tabs_inv_def)

lemma inv_handlePageNav:
  assumes "tabs_inv s"
  shows "\<exists>s'. handlePageNav a forward s = Some s' \<and> tabs_inv s'"
proof -
  obtain j s1 where "focusNextTab (if forward then active_number s + 1 else active_number s - 1) forward s = Some (j, s1)"
    and "tabs_view s1 = tabs_view s"
    using focusNextTab_view [OF inv_wf(1) [OF assms]] by blast
  then show ?thesis
    using assms tabs_inv_view [of s1 s] by (simp add: handlePageNav_def inv_activate)
qed

lemma inv_move_focus:
  assumes "tabs_inv s"
  shows "\<exists>s'. move_focus m target s = Some s' \<and> tabs_inv s'"
proof -
  have inv: "tabs_inv (s\<lparr>activating := None\<rparr>)"
    using assms tabs_inv_view [of "s\<lparr>activating := None\<rparr>" s] by simp
  obtain j s1 where focus: "focusNextTab (fst target) (snd target) (s\<lparr>activating := None\<rparr>) = Some (j, s1)"
    and view: "tabs_view s1 = tabs_view (s\<lparr>activating := None\<rparr>)"
    using focusNextTab_view [OF inv_wf(1) [OF inv]] by blast
  let ?s = "upd_tabs (set_option (eq_tab j s)) (\<lambda>t. t\<lparr>t_selected := True\<rparr>)
                (upd_tabs (set_option (focused s)) (\<lambda>t. t\<lparr>t_selected := False\<rparr>) (s1\<lparr>activating := Some j\<rparr>))"
  have "tabs_view ?s = tabs_view s1"
    by (simp add: view_upd_tabs)
  then have "tabs_inv ?s" "tabs_inv s1"
    using inv tabs_inv_view [OF view] tabs_inv_view [of ?s s1] by simp_all
  then show ?thesis
    by (simp add: move_focus_def focus)
qed

lemma inv_tabKeydown:
  assumes "tabs_inv s"
  shows "\<exists>s'. tabKeydown a k m s = Some s' \<and> tabs_inv s'"
proof -
  have "tabs_inv (s\<lparr>activating := None\<rparr>)"
    using assms tabs_inv_view [of "s\<lparr>activating := None\<rparr>" s] by simp
  then show ?thesis
    using assms inv_handlePageNav [OF assms] inv_move_focus [OF assms]
    by (simp add: tabKeydown_def Let_def inv_activate split: option.split)
qed

lemma inv_panelKeydown:
  assumes "tabs_inv s"
  shows "\<exists>s'. panelKeydown a k m s = Some s' \<and> tabs_inv s'"
  using assms inv_handlePageNav [OF assms] tabs_inv_view [of "s\<lparr>focused := active_tab s\<rparr>" s]
  by (simp add: panelKeydown_def split: option.split)

lemma inv_stopped: "tabs_inv s \<Longrightarrow> tabs_inv (stop_animations later s)"
  by (simp add: stop_animations_def inv_end Let_def split: animation.split)

lemma inv_request_done: "tabs_inv (request_done r q s) = tabs_inv s"
  by (rule tabs_inv_view) simp

lemma inv_complete: "tabs_inv s \<Longrightarrow> tabs_inv (request_complete later r s)"
proof -
  assume inv: "tabs_inv s"
  have "tabs_view (log_tabs (Loaded t) (upd_panels ps (\<lambda>p. p\<lparr>p_html := h\<rparr>) s)) = tabs_view s" for t ps h
    by (simp add: view_upd_panels)
  then have "tabs_inv (log_tabs (Loaded t) (upd_panels ps (\<lambda>p. p\<lparr>p_html := h\<rparr>) s))" for t ps h
    using inv tabs_inv_view by blast
  then show ?thesis
    using inv by (simp add: request_complete_def inv_request_done inv_stopped split: option.split response.split)
qed

section \<open>A new list of tabs\<close>

text \<open>
  \<open>_processTabs\<close> gives every tab a panel: a local tab must have one on the page, a remote tab keeps or gets
  one. Tabs that had a panel keep it.
\<close>

definition startable :: "tabs \<Rightarrow> nat \<Rightarrow> bool" where
  "startable s l =
     (case local_hash (tab_at s l) of Some p \<Rightarrow> p \<noteq> [] \<and> panel_at s p \<noteq> None
      | None \<Rightarrow> aria_controls (tab_at s l) \<noteq> Some ''undefined'')"

definition grows :: "tabs \<Rightarrow> tabs \<Rightarrow> bool" where
  "grows s s' \<longleftrightarrow> all_tabs s' = all_tabs s \<and> dom_tabs s' = dom_tabs s \<and> o_active s' = o_active s \<and> active_tab s' = active_tab s
     \<and> o_disabled s' = o_disabled s \<and> running s' = running s \<and> o_collapsible s' = o_collapsible s
     \<and> (\<forall>l. local_hash (tab_at s' l) = local_hash (tab_at s l) \<and> t_disabled (tab_at s' l) = t_disabled (tab_at s l)
          \<and> t_active (tab_at s' l) = t_active (tab_at s l) \<and> t_loading (tab_at s' l) = t_loading (tab_at s l)
          \<and> (tab_ready s l \<longrightarrow> aria_controls (tab_at s' l) = aria_controls (tab_at s l)))
     \<and> (\<forall>p. panel_at s p \<noteq> None \<longrightarrow> panel_at s' p = panel_at s p)"

lemma grows_ready: "grows s s' \<Longrightarrow> tab_ready s l \<Longrightarrow> tab_ready s' l \<and> getPanelForTab (Some l) s' = getPanelForTab (Some l) s"
  by (auto simp: grows_def tab_ready_def given_id_def getPanelForTab_def controls_id_def Let_def split: if_splits)

lemma grows_refl: "grows s s"
  by (simp add: grows_def)

lemma grows_trans:
  assumes "grows s s'" "grows s' s''"
  shows "grows s s''"
proof -
  have "aria_controls (tab_at s'' l) = aria_controls (tab_at s l)" if "tab_ready s l" for l
    using assms that grows_ready [OF assms(1) that] by (simp add: grows_def)
  then show ?thesis
    using assms by (simp add: grows_def)
qed

lemma unique_id_other [simp]: "unique_id n \<noteq> ''undefined''" "unique_id n \<noteq> []"
  by (simp_all add: unique_id_def)

lemma ready_controls:
  "tab_ready s l \<longleftrightarrow> (\<exists>p. aria_controls (tab_at s l) = Some p \<and> p \<noteq> [] \<and> panel_at s p \<noteq> None \<and> local_hash (tab_at s l) \<in> {None, Some p})"
  by (auto simp: tab_ready_def given_id_def getPanelForTab_def controls_id_def Let_def split: if_splits)

lemma process_tab_grows:
  assumes "startable s l" "panel_at s ''undefined'' = None"
  shows "grows s (process_tab l s)" "tab_ready (process_tab l s) l" "panel_at (process_tab l s) ''undefined'' = None"
    "startable s k \<Longrightarrow> startable (process_tab l s) k"
proof -
  let ?a = "anchor_unique l s"
  obtain p u where pu: "remote_panel (tab_at ?a l) (uuid ?a) = (p, u)"
    by fastforce
  have parts: "panel_at ?a = panel_at s" "local_hash (tab_at ?a l) = local_hash (tab_at s l)"
    "aria_controls (tab_at ?a k) = aria_controls (tab_at s k)" for k
    by (simp_all add: anchor_unique_def)
  have p: "p \<noteq> ''undefined''" "p \<noteq> []" if "local_hash (tab_at s l) = None"
    using that pu assms(1) parts(3) [of l]
    by (auto simp: remote_panel_def startable_def given_id_def split: if_splits simp del: unique_id_other)
      (metis unique_id_other)+
  have ident: "p = q" if "tab_ready s l" "aria_controls (tab_at s l) = Some q" for q
    using that pu parts(3) [of l] by (auto simp: remote_panel_def ready_controls given_id_def split: if_splits)
  have same: "all_tabs (process_tab l s) = all_tabs s" "dom_tabs (process_tab l s) = dom_tabs s" "o_active (process_tab l s) = o_active s"
    "active_tab (process_tab l s) = active_tab s" "o_disabled (process_tab l s) = o_disabled s" "running (process_tab l s) = running s"
    "o_collapsible (process_tab l s) = o_collapsible s"
    "local_hash (tab_at (process_tab l s) k) = local_hash (tab_at s k)"
    "t_disabled (tab_at (process_tab l s) k) = t_disabled (tab_at s k)"
    "t_active (tab_at (process_tab l s) k) = t_active (tab_at s k)"
    "t_loading (tab_at (process_tab l s) k) = t_loading (tab_at s k)" for k
    by (simp_all add: process_tab_def anchor_unique_def keep_controls_def upd_tabs_def Let_def split: option.split prod.split)
  have own: "aria_controls (tab_at (process_tab l s) k) =
      (if k \<noteq> l then aria_controls (tab_at s k) else if local_hash (tab_at s l) = None then Some p else local_hash (tab_at s l))" for k
    by (simp add: process_tab_def parts pu keep_controls_def Let_def split: option.split)
  have pan: "panel_at (process_tab l s) q =
      (if q = p \<and> local_hash (tab_at s l) = None \<and> panel_at s p = None then Some new_panel else panel_at s q)" for q
    by (simp add: process_tab_def parts pu Let_def split: option.split)
  show undef: "panel_at (process_tab l s) ''undefined'' = None"
    using p(1) assms(2) by (auto simp: pan)
  show ready: "tab_ready (process_tab l s) l"
    using assms(1) p(2) by (auto simp: ready_controls same own pan startable_def split: option.splits)
  have "aria_controls (tab_at (process_tab l s) k) = aria_controls (tab_at s k)" if "tab_ready s k" for k
    using that ident by (auto simp: own ready_controls)
  then show "grows s (process_tab l s)"
    by (simp add: grows_def same pan)
  show "startable (process_tab l s) k" if "startable s k"
    using that p(1) by (auto simp: startable_def same own pan split: option.splits)
qed

lemma process_all:
  assumes "\<forall>l \<in> set ls. startable s l" "panel_at s ''undefined'' = None"
  shows "grows s (fold process_tab ls s) \<and> panel_at (fold process_tab ls s) ''undefined'' = None
     \<and> (\<forall>l \<in> set ls. tab_ready (fold process_tab ls s) l)"
  using assms
proof (induction ls arbitrary: s)
  case Nil
  then show ?case
    by (simp add: grows_refl)
next
  case (Cons l ls)
  let ?s = "process_tab l s"
  have l: "startable s l" "panel_at s ''undefined'' = None"
    using Cons.prems by simp_all
  note step = process_tab_grows [OF l]
  have rest: "grows ?s (fold process_tab ls ?s)" "panel_at (fold process_tab ls ?s) ''undefined'' = None"
    "\<forall>k \<in> set ls. tab_ready (fold process_tab ls ?s) k"
    using Cons.IH [of ?s] Cons.prems step(3,4) by auto
  then show ?case
    using grows_trans [OF step(1) rest(1)] grows_ready [OF rest(1) step(2)] by simp
qed

text \<open>The class of the active tab before the page is written anew.\<close>

definition classes_ok :: "tabs \<Rightarrow> bool" where
  "classes_ok s =
     (case running s of
        Idle \<Rightarrow> (\<forall>l \<in> set (all_tabs s). t_active (tab_at s l) \<longrightarrow> active_tab s = Some l)
      | Showing ed \<Rightarrow> fits ed s \<and> (\<forall>l \<in> set (all_tabs s). t_active (tab_at s l) \<longrightarrow> active_tab s = Some l)
      | Hiding ed \<Rightarrow> fits ed s \<and> (\<forall>l \<in> set (all_tabs s). t_active (tab_at s l) \<longrightarrow> oldTab ed = Some l \<or> active_tab s = Some l))"

lemma classes_toggle:
  assumes "fits ed s" "\<forall>l \<in> set (all_tabs s). t_active (tab_at s l) \<longrightarrow> oldTab ed = Some l \<or> active_tab s = Some l"
  shows "classes_ok (tabs_toggle ed s)" "same_structure s (tabs_toggle ed s)"
proof -
  let ?t = "tabs_toggle ed s"
  have sa: "same_structure s (s\<lparr>running := Hiding ed\<rparr>)"
    by (simp add: same_structure_def)
  show st: "same_structure s ?t"
    unfolding tabs_toggle_def
    by (rule structure_trans [OF _ structure_attrs]) (simp add: sa structure_hidden_now)
  have run: "running ?t = (if oldPanel ed \<noteq> None \<and> o_hide s then Hiding ed
      else if newPanel ed \<noteq> None \<and> o_show s then Showing ed else Idle)"
    by (simp add: tabs_toggle_def toggle_attrs_def hidden_now_def toggle_show_def shown_now_def toggle_complete_def Let_def)
  have cls: "t_active (tab_at ?t l) = (if oldPanel ed \<noteq> None \<and> o_hide s then t_active (tab_at s l)
      else newTab ed = Some l \<or> oldTab ed \<noteq> Some l \<and> t_active (tab_at s l))" for l
    by (auto simp: tabs_toggle_def toggle_attrs_def hidden_now_def toggle_show_def shown_now_def toggle_complete_def Let_def)
  show "classes_ok ?t"
    using assms st by (auto simp: classes_ok_def run cls structure_derived [OF st] fits_def same_structure_def)
qed

lemma refresh_page_inv:
  assumes wf: "tabs_wf s" and sound: "sound_list (length (all_tabs s)) (o_disabled s)" and cls: "classes_ok s"
  shows "tabs_inv (refresh_page s)"
proof -
  let ?d = "tabs_setOptionDisabled (o_disabled s) s" and ?r = "refresh_page s"
  have fields: "all_tabs ?r = all_tabs s" "o_active ?r = o_active s" "active_tab ?r = active_tab s" "running ?r = running s"
    "o_disabled ?r = o_disabled ?d" "aria_controls (tab_at ?r l) = aria_controls (tab_at s l)"
    "local_hash (tab_at ?r l) = local_hash (tab_at s l)" "t_disabled (tab_at ?r l) = t_disabled (tab_at ?d l)"
    "(panel_at ?r p = None) = (panel_at s p = None)" for l p
    by (simp_all add: refresh_page_def Let_def)
  have st: "same_structure ?d ?r"
    by (simp add: same_structure_def fields)
  have wf': "tabs_wf ?r" "disabled_wf ?r"
    using wf sound by (simp_all add: structure_wf [OF st] setDisabled_wf) (simp add: tabs_wf_def)
  have panels: "all_panels ?r = all_panels s" "active_panel ?r = active_panel s" "fits ed ?r = fits ed s" for ed
    by (simp_all add: structure_derived [OF st])
  have none: "active_tab s = None \<Longrightarrow> active_panel s = None"
    using no_active_panel [OF wf] by (simp add: active_panel_def)
  have tab: "t_expanded (tab_at ?r l) = (active_tab s = Some l)"
    "t_active (tab_at ?r l) = (active_tab s = Some l \<or> t_active (tab_at s l))" if "l \<in> set (all_tabs s)" for l
    using that by (auto simp: refresh_page_def Let_def)
  have pan: "shown_in ?r p = (active_panel s = Some p)" "hidden_in ?r p = (active_panel s \<noteq> Some p)"
    if p: "p \<in> set (all_panels s)" for p
    using panels_exist [OF p] p none by (auto simp: refresh_page_def Let_def shown_in_def hidden_in_def active_panel_def)
  have "display_ok ?r"
    using cls by (cases "running s") (auto simp: display_ok_def classes_ok_def fields panels tab pan)
  then show ?thesis
    by (simp add: tabs_inv_def wf' attrs_ok_def fields panels tab pan)
qed

text \<open>
  A new list of tabs: new tabs are not marked as active, local ones have their panel. The active tab may
  only go away while no animation runs, no tab is loading and the page does not refuse the next tab.
\<close>

definition relist_ok :: "nat list \<Rightarrow> answers \<Rightarrow> tabs \<Rightarrow> bool" where
  "relist_ok ls a s \<longleftrightarrow> distinct ls \<and> (\<forall>l \<in> set ls. startable s l)
     \<and> (\<forall>l \<in> set ls - set (all_tabs s). \<not> t_active (tab_at s l))
     \<and> (set_option (active_tab s) \<subseteq> set ls
        \<or> running s = Idle \<and> \<not> no_activate a \<and> (\<forall>l \<in> set ls. \<not> t_loading (tab_at s l)))"

lemma marked_sound:
  "sound_list (length ls) (Listed (marked_disabled ls s))"
  by (auto simp: sound_list_def marked_disabled_def distinct_map inj_on_def in_set_enumerate_eq
      intro!: distinct_filter distinct_enumerate)

lemma marked_member: "int i \<in> set (marked_disabled ls s) \<longleftrightarrow> i < length ls \<and> t_disabled (tab_at s (ls ! i))"
  by (force simp: marked_disabled_def in_set_enumerate_eq)

lemma marked_returns:
  assumes "o_disabled s = Listed (marked_disabled (all_tabs s) s')" "length (marked_disabled (all_tabs s) s') \<noteq> length (all_tabs s)"
    "all_tabs s \<noteq> []"
  shows "\<exists>j. findNextTab i forward s = Some (int j) \<and> j < length (all_tabs s) \<and> \<not> t_disabled (tab_at s' (all_tabs s ! j))"
proof -
  let ?n = "length (all_tabs s)" and ?m = "marked_disabled (all_tabs s) s'"
  have "\<not> {0..<int ?n} \<subseteq> set ?m"
  proof
    assume sub: "{0..<int ?n} \<subseteq> set ?m"
    have sound: "distinct ?m" "set ?m \<subseteq> {0..<int ?n}"
      using marked_sound [of "all_tabs s" s'] by (auto simp: sound_list_def)
    have "set ?m = {0..<int ?n}"
      using sub sound(2) by blast
    then show False
      using distinct_card [OF sound(1)] assms(2) by simp
  qed
  then obtain e where "e \<in> {0..<int ?n}" "e \<notin> set ?m"
    by blast
  then have e: "0 \<le> e" "e < int ?n" "\<not> in_disabled e (o_disabled s)"
    using assms(1) by (simp_all add: in_disabled_def)
  have n: "0 < int ?n"
    using assms(3) by simp
  obtain k where k: "findNextTab i forward s = Some (around (int ?n) forward (constrain_index (int ?n - 1) i) k)"
    "\<not> in_disabled (around (int ?n) forward (constrain_index (int ?n - 1) i) k) (o_disabled s)"
    unfolding findNextTab_def using next_tab_first [OF n e, of forward i] by blast
  obtain j where j: "around (int ?n) forward (constrain_index (int ?n - 1) i) k = int j" "j < ?n"
    using around_range [OF n, of forward "constrain_index (int ?n - 1) i" k] by (metis nonneg_int_cases of_nat_less_iff)
  then show ?thesis
    using k assms(1) marked_member [of j "all_tabs s" s'] by (auto simp: in_disabled_def)
qed

lemma inv_classes: "tabs_inv s \<Longrightarrow> classes_ok s"
  by (cases "running s") (auto simp: tabs_inv_def display_ok_def classes_ok_def)

lemma eq_tab_nth: "j < length (all_tabs s) \<Longrightarrow> eq_tab (int j) s = Some (all_tabs s ! j)"
  by (simp add: eq_tab_def)

text \<open>The next tab is activated when the active one is gone.\<close>

lemma activate_gone:
  assumes gone: "active_tab s = Some l" "l \<notin> set (all_tabs s)" and idle: "running s = Idle"
    and tab: "j < length (all_tabs s)" "\<not> t_disabled (tab_at s (all_tabs s ! j))" "\<not> t_loading (tab_at s (all_tabs s ! j))"
    and a: "\<not> no_activate a" and ready: "\<forall>k \<in> set (all_tabs s). tab_ready s k"
    and none: "\<forall>k \<in> set (all_tabs s). \<not> t_active (tab_at s k)"
    and ok: "distinct (all_tabs s)" "panel_at s ''undefined'' = None"
  shows "tabs_wf (activate a (Some (int j)) s) \<and> classes_ok (activate a (Some (int j)) s)
     \<and> all_tabs (activate a (Some (int j)) s) = all_tabs s \<and> o_disabled (activate a (Some (int j)) s) = o_disabled s"
proof -
  let ?k = "all_tabs s ! j"
  let ?s = "set_active (Some (tab_position (Some ?k) s)) (Some ?k) s" and ?ed = "activation ?k s"
  have k: "?k \<in> set (all_tabs s)" "?k \<noteq> l"
    using tab(1) gone(2) by auto
  have pos: "eq_tab (tab_position (Some ?k) s) s = Some ?k"
    using ok(1) k(1) by (rule position_index)
  obtain q where panel: "newPanel ?ed = Some q"
    using ready k gone(1) by (auto simp: activation_def Let_def tab_ready_def)
  define s2 where "s2 = load_tab (no_load a) (tab_position (Some ?k) s) (abort_xhr ?s)"
  have act: "activate a (Some (int j)) s = tabs_toggle ?ed s2"
    using gone k tab a idle pos panel
    by (simp add: activate_def findActive_def eq_tab_nth eventHandler_def refuses_def Let_def s2_def set_active_def)
  have view: "tabs_view s2 = tabs_view ?s"
    by (simp add: s2_def)
  have wf: "tabs_wf ?s"
    using k(1) ok ready by (simp add: tabs_wf_def)
  have "tabs_wf s2"
    using wf unfolding tabs_wf_def tabs_viewD [OF view] view_derived [OF view] .
  have "fits ?ed ?s"
    using gone k by (simp add: fits_def activation_def active_panel_def)
  then have "fits ?ed s2" "\<forall>l \<in> set (all_tabs s2). \<not> t_active (tab_at s2 l)"
    unfolding tabs_viewD [OF view] view_derived [OF view] using none by simp_all
  then show ?thesis
    using classes_toggle [of ?ed s2] structure_wf [of s2 "tabs_toggle ?ed s2"] \<open>tabs_wf s2\<close> tabs_viewD(1,4) [OF view]
    by (simp add: act same_structure_def)
qed

lemma refresh_active_ok:
  assumes len: "all_tabs s = ls" "dom_tabs s = ls" and ok: "distinct ls" "panel_at s ''undefined'' = None" "\<forall>l \<in> set ls. tab_ready s l"
    and act: "o_active s = None \<longleftrightarrow> active_tab s = None" and cls: "classes_ok s"
    and dis: "o_disabled s = Listed (marked_disabled ls s)"
    and gone: "set_option (active_tab s) \<subseteq> set ls
      \<or> running s = Idle \<and> \<not> no_activate a \<and> (\<forall>l \<in> set ls. \<not> t_loading (tab_at s l))"
  shows "\<exists>s'. refresh_active a s = Some s' \<and> tabs_wf s' \<and> classes_ok s' \<and> all_tabs s' = ls \<and> o_disabled s' = o_disabled s"
proof (cases "active_tab s")
  case None
  have "classes_ok (set_active None None s)"
    using cls None by (cases "running s") (auto simp: classes_ok_def fits_def active_panel_def)
  then show ?thesis
    using None act ok len by (auto simp: refresh_active_def set_active_def [symmetric] tabs_wf_def)
next
  case (Some l)
  have up: "tabs_wf (set_active None None s)" "l \<in> set ls \<Longrightarrow> tabs_wf (set_active (Some (tab_position (Some l) s)) (Some l) s)"
    using ok len by (simp_all add: tabs_wf_def)
  have eq: "s\<lparr>o_active := Some (tab_position (Some l) s)\<rparr> = set_active (Some (tab_position (Some l) s)) (Some l) s"
    using Some by (simp add: set_active_def)
  show ?thesis
  proof (cases "l \<in> set ls")
    case True
    then have "classes_ok (set_active (Some (tab_position (Some l) s)) (Some l) s)"
      using cls Some by (cases "running s") (auto simp: classes_ok_def fits_def active_panel_def)
    then show ?thesis
      using True Some act up len by (auto simp: refresh_active_def eq)
  next
    case False
    then have idle: "running s = Idle" and free: "\<not> no_activate a" "\<forall>k \<in> set ls. \<not> t_loading (tab_at s k)"
      and none: "\<forall>k \<in> set ls. \<not> t_active (tab_at s k)"
      using gone cls Some len by (auto simp: classes_ok_def)
    have off: "classes_ok (set_active None None s)"
      using idle none len by (simp add: classes_ok_def)
    show ?thesis
    proof (cases "ls = [] \<or> length (marked_disabled ls s) = length ls")
      case True
      then show ?thesis
        using False Some act up off len dis by (auto simp: refresh_active_def set_active_def [symmetric])
    next
      case some: False
      obtain j where j: "findNextTab (max 0 (active_number s - 1)) False s = Some (int j)" "j < length ls"
        "\<not> t_disabled (tab_at s (ls ! j))"
        using marked_returns [of s s] some dis len by auto
      have "\<not> t_loading (tab_at s (ls ! j))"
        using free(2) j(2) by simp
      then show ?thesis
        using activate_gone [of s l j a] Some False idle j free(1) ok none len act some dis
        by (auto simp: refresh_active_def)
    qed
  qed
qed

lemma inv_relist:
  assumes inv: "tabs_inv s" and ok: "relist_ok ls a s"
  shows "\<exists>s'. refresh_tabs a (s\<lparr>dom_tabs := ls\<rparr>) = Some s' \<and> tabs_inv s'"
proof -
  let ?s = "upd_tabs (set ls) (\<lambda>t. t\<lparr>t_index := ''-1''\<rparr>) (s\<lparr>dom_tabs := ls, o_disabled := Listed (marked_disabled ls s), all_tabs := ls\<rparr>)"
  let ?p = "fold process_tab ls ?s"
  have wf: "tabs_wf s"
    using inv by (rule inv_wf)
  have start: "\<forall>l \<in> set ls. startable ?s l" "panel_at ?s ''undefined'' = None"
    using ok wf by (simp_all add: relist_ok_def startable_def tabs_wf_def cong: option.case_cong)
  have marked: "marked_disabled ls (s\<lparr>dom_tabs := ls\<rparr>) = marked_disabled ls s"
    by (simp add: marked_disabled_def)
  have p: "processTabs (s\<lparr>dom_tabs := ls, o_disabled := Listed (marked_disabled ls (s\<lparr>dom_tabs := ls\<rparr>))\<rparr>) = ?p"
    by (simp add: processTabs_def marked Let_def)
  have grow: "grows ?s ?p" and undef: "panel_at ?p ''undefined'' = None" and ready: "\<forall>l \<in> set ls. tab_ready ?p l"
    using process_all [OF start] by auto
  have kept: "getPanelForTab (Some l) ?p = getPanelForTab (Some l) s" if "l \<in> set (all_tabs s)" for l
  proof -
    have "getPanelForTab (Some l) ?s = getPanelForTab (Some l) s"
      by (rule panel_cong) simp_all
    moreover from this have "tab_ready ?s l"
      using wf that by (simp add: tabs_wf_def tab_ready_def given_id_def)
    ultimately show ?thesis
      using grows_ready [OF grow] by simp
  qed
  have none: "getPanelForTab None ?p = None" "getPanelForTab None s = None"
    using undef no_active_panel [OF wf] by (simp_all add: getPanelForTab_def controls_id_def)
  have panel: "active_panel ?p = active_panel s"
    using kept none grow wf by (cases "active_tab s") (auto simp: active_panel_def grows_def tabs_wf_def)
  have "classes_ok ?p"
    using inv_classes [OF inv] grow ok panel
    by (cases "running s") (auto simp: classes_ok_def fits_def grows_def relist_ok_def)
  moreover have "marked_disabled ls ?p = marked_disabled ls s"
    using grow by (simp add: marked_disabled_def grows_def)
  ultimately obtain s' where s': "refresh_active a ?p = Some s'" "tabs_wf s'" "classes_ok s'" "all_tabs s' = ls" "o_disabled s' = o_disabled ?p"
    using refresh_active_ok [of ?p ls a] grow undef ready ok wf by (auto simp: grows_def relist_ok_def tabs_wf_def)
  have "sound_list (length ls) (o_disabled s')"
    using grow s'(5) marked_sound by (simp add: grows_def)
  then show ?thesis
    using s' refresh_page_inv [of s'] p by (simp add: refresh_tabs_def)
qed

section \<open>Runs\<close>

text \<open>Which inputs the surroundings may send: known tabs, lists of disabled tabs that name tabs, lists of tabs as above.\<close>

fun tabs_ok :: "tab_input \<Rightarrow> tabs option \<Rightarrow> bool" where
  "tabs_ok e None = False"
| "tabs_ok (TabClick l a) (Some s) = (l \<in> set (all_tabs s))"
| "tabs_ok (SetTabsOption (OptDisabled d) a) (Some s) = sound_list (length (all_tabs s)) d"
| "tabs_ok (DisableTab i) (Some s) = (\<forall>k \<in> set_option i. 0 \<le> k \<and> k < int (length (all_tabs s)))"
| "tabs_ok (Relist ls a) (Some s) = relist_ok ls a s"
| "tabs_ok e (Some s) = True"

lemma inv_setOption:
  assumes "tabs_inv s" "\<And>d. opt = OptDisabled d \<Longrightarrow> sound_list (length (all_tabs s)) d"
  shows "tabs_inv (tabs_setOption a opt s)"
proof (cases opt)
  case (OptCollapsible b)
  have "tabs_inv (s\<lparr>o_collapsible := c\<rparr>)" for c
    using assms(1) tabs_inv_view [of "s\<lparr>o_collapsible := c\<rparr>" s] by simp
  then show ?thesis
    by (simp add: OptCollapsible tabs_setOption_def inv_activate Let_def)
next
  case (OptShow b)
  then show ?thesis
    using assms(1) tabs_inv_view [of "s\<lparr>o_show := b\<rparr>" s] by (simp add: tabs_setOption_def)
next
  case (OptHide b)
  then show ?thesis
    using assms(1) tabs_inv_view [of "s\<lparr>o_hide := b\<rparr>" s] by (simp add: tabs_setOption_def)
qed (use assms in \<open>simp_all add: tabs_setOption_def inv_activate inv_setDisabled\<close>)

lemma tabs_input_inv:
  assumes inv: "tabs_inv s" and ok: "tabs_ok e (Some s)"
  shows "\<exists>s'. tabs_input e s = Some s' \<and> tabs_inv s'"
proof -
  have same: "tabs_inv s'" if "tabs_view s' = tabs_view s" for s'
    using inv tabs_inv_view [OF that] by simp
  show ?thesis
  proof (cases e)
    case (TabKey l k m a)
    then show ?thesis
      using inv_tabKeydown [of "s\<lparr>focused := Some l\<rparr>" a k m] same [of "s\<lparr>focused := Some l\<rparr>"] by (simp add: Let_def)
  next
    case (ActivateTimer a)
    then show ?thesis
      using inv same [of "s\<lparr>activating := None\<rparr>"] by (auto intro!: inv_setOption split: option.split)
  next
    case (SetTabsOption opt a)
    then show ?thesis
      using inv ok by (auto intro!: inv_setOption)
  next
    case (Answer r a)
    then show ?thesis
      using same [of "settle r a s"] by simp
  next
    case (LoadTab i c)
    then show ?thesis
      using same [of "load_tab c i s"] by simp
  next
    case (FocusTab t)
    then show ?thesis
      using same [of "s\<lparr>focused := t\<rparr>"] by simp
  next
    case (DisableTab i)
    then show ?thesis
      using ok inv_disable [OF inv, of i] by auto
  next
    case (PanelKey k m a)
    then show ?thesis
      using inv inv_panelKeydown [OF inv] by simp
  next
    case (Relist ls a)
    then show ?thesis
      using ok inv_relist [OF inv, of ls a] by simp
  qed (use inv ok in \<open>simp_all add: inv_eventHandler inv_enable inv_complete inv_end\<close>)
qed

definition tabs_live :: "tabs option \<Rightarrow> bool" where
  "tabs_live s \<longleftrightarrow> (\<exists>t. s = Some t \<and> tabs_inv t)"

interpretation tabbed: invariant_system tabs_step tabs_ok tabs_live
proof
  fix s :: "tabs option" and e :: tab_input
  assume "tabs_live s" "tabs_ok e s"
  then show "tabs_live (tabs_step e s)"
    using tabs_input_inv by (auto simp: tabs_live_def tabs_step_def)
qed

text \<open>A page before the widget: some tabs, none of them marked as active, and no list of disabled tabs.\<close>

definition fresh_page :: "tabs \<Rightarrow> bool" where
  "fresh_page s \<longleftrightarrow> dom_tabs s \<noteq> [] \<and> distinct (dom_tabs s) \<and> panel_at s ''undefined'' = None
     \<and> (\<forall>l \<in> set (dom_tabs s). startable s l \<and> \<not> t_active (tab_at s l)) \<and> o_disabled s \<in> {Flag True, Flag False}"

lemma position_first: "all_tabs s \<noteq> [] \<Longrightarrow> eq_tab 0 s = Some (hd (all_tabs s)) \<and> tab_position (Some (hd (all_tabs s))) s = 0"
  by (cases "all_tabs s") (simp_all add: eq_tab_def tab_position_def)

lemma initialActive_found:
  assumes "all_tabs s \<noteq> []" "distinct (all_tabs s)" "initialActive f opt s = Some i"
  shows "\<exists>l \<in> set (all_tabs s). eq_tab i s = Some l \<and> tab_position (Some l) s = i"
proof -
  have "i = 0 \<or> (\<exists>k l. eq_tab k s = Some l \<and> i = tab_position (Some l) s)"
    using assms(3) by (auto simp: initialActive_def Let_def split: option.splits if_splits)
  then show ?thesis
    using position_first [OF assms(1)] position_index [OF assms(2)] eq_tab_member assms(1) by (metis hd_in_set)
qed

lemma create_inv:
  assumes "fresh_page s"
  shows "tabs_inv (tabs_create uniq c f opt s)"
proof -
  let ?ls = "dom_tabs s"
  let ?s = "upd_tabs (set ?ls) (\<lambda>t. t\<lparr>t_index := ''-1''\<rparr>) (s\<lparr>running := Idle, all_tabs := ?ls\<rparr>)"
  let ?p = "fold process_tab ?ls ?s"
  have p: "processTabs (s\<lparr>running := Idle\<rparr>) = ?p"
    by (simp add: processTabs_def Let_def)
  have "\<forall>l \<in> set ?ls. startable ?s l" "panel_at ?s ''undefined'' = None"
    using assms by (simp_all add: fresh_page_def startable_def cong: option.case_cong)
  from process_all [OF this] have grow: "grows ?s ?p" and undef: "panel_at ?p ''undefined'' = None"
    and ready: "\<forall>l \<in> set ?ls. tab_ready ?p l"
    by auto
  let ?i = "initialActive f opt ?p"
  let ?a = "set_active ?i (if ?i \<noteq> None \<and> all_tabs ?p \<noteq> [] then findActive ?i ?p else None) ?p"
  have tabs: "all_tabs ?p = ?ls" "distinct ?ls" "?ls \<noteq> []"
    using assms grow by (simp_all add: grows_def fresh_page_def)
  have wf: "tabs_wf ?a"
    using initialActive_found [of ?p f opt] tabs undef ready
    by (cases ?i) (auto simp: tabs_wf_def findActive_def)
  have "classes_ok ?a"
    using assms grow by (simp add: classes_ok_def grows_def fresh_page_def)
  moreover have flag: "\<exists>b. o_disabled ?p = Flag b"
    using assms grow by (auto simp: grows_def fresh_page_def)
  ultimately have inv: "tabs_inv (refresh_page ?a)"
    using wf by (intro refresh_page_inv) (auto simp: sound_list_def)
  obtain b where b: "o_disabled ?p = Flag b"
    using flag by blast
  have "?p\<lparr>o_active := ?i, o_disabled := Flag b, active_tab := (if ?i \<noteq> None \<and> all_tabs ?p \<noteq> [] then findActive ?i ?p else None)\<rparr> = ?a"
    using b by (simp add: set_active_def)
  then have "tabs_create uniq c f opt s = (let s3 = refresh_page ?a in
      if active_tab s3 = None then s3 else load_tab c (active_number s3) s3)"
    by (simp add: tabs_create_def p b Let_def)
  then show ?thesis
    using inv tabs_inv_view [OF view_load, of c "active_number (refresh_page ?a)" "refresh_page ?a"] by (simp add: Let_def)
qed

section \<open>The set of disabled tabs\<close>

text \<open>The option \<open>disabled\<close> in its two forms, as the set of the positions that are disabled.\<close>

definition off_set :: "nat \<Rightarrow> disabled_tabs \<Rightarrow> int set" where
  "off_set n d = (case d of Flag b \<Rightarrow> if b then {0..<int n} else {} | Listed is \<Rightarrow> set is)"

lemma off_set_simps [simp]: "off_set n (Flag b) = (if b then {0..<int n} else {})" "off_set n (Listed js) = set js"
  by (simp_all add: off_set_def)

lemma sound_full: "sound_list n (Listed is) \<Longrightarrow> length is = n \<Longrightarrow> set is = {0..<int n}"
  by (rule card_subset_eq) (auto simp: sound_list_def distinct_card)

lemma off_tidy: "sound_list n d \<Longrightarrow> off_set n (tidy_disabled n d) = off_set n d"
  using sound_full by (auto simp: off_set_def tidy_disabled_def split: disabled_tabs.split)

lemma position_range: "l \<in> set (all_tabs s) \<Longrightarrow> 0 \<le> tab_position (Some l) s \<and> tab_position (Some l) s < int (length (all_tabs s))"
  using index_of_Some_ex [of l "all_tabs s"] by (auto simp: tab_position_def dest: index_of_Some)

lemma off_position: "l \<in> set (all_tabs s) \<Longrightarrow> tab_off d l s \<longleftrightarrow> tab_position (Some l) s \<in> off_set (length (all_tabs s)) d"
  using position_range [of l s] by (auto simp: tab_off_def off_set_def in_disabled_def split: disabled_tabs.split)

lemma off_of_set:
  "sound_list (length (all_tabs s)) d \<Longrightarrow> off_set (length (all_tabs s)) (o_disabled (tabs_setOptionDisabled d s)) = off_set (length (all_tabs s)) d"
  by (simp add: off_tidy)

lemma off_disable:
  assumes "tabs_inv s" "0 \<le> k" "k < int (length (all_tabs s))"
  shows "off_set (length (all_tabs s)) (o_disabled (disable_tab (Some k) s)) = insert k (off_set (length (all_tabs s)) (o_disabled s))"
proof -
  let ?n = "length (all_tabs s)"
  have sound: "sound_list ?n (o_disabled s)"
    using inv_wf(1) [OF assms(1)] by (simp add: disabled_wf_def)
  show ?thesis
  proof (cases "o_disabled s")
    case (Flag b)
    have "sound_list ?n (Listed [k])"
      using assms(2,3) by (simp add: sound_list_def)
    then show ?thesis
      using Flag assms(2,3) by (auto simp: disable_tab_def off_tidy in_disabled_def)
  next
    case (Listed js)
    have set: "set (sort_by text_less (k # js)) = insert k (set js)" "distinct (sort_by text_less (k # js)) = distinct (k # js)"
      by (simp_all only: set_sort_by distinct_sort_by list.set(2))
    have "sound_list ?n (Listed (sort_by text_less (k # js)))" if "k \<notin> set js"
      using sound Listed that assms(2,3) by (simp only: sound_list_def disabled_tabs.case set) auto
    then show ?thesis
      using Listed set(1) by (auto simp: disable_tab_def off_tidy in_disabled_def simp del: sort_by_Cons)
  qed
qed

lemma off_enable:
  assumes "tabs_inv s"
  shows "off_set (length (all_tabs s)) (o_disabled (enable_tab (Some k) s)) = off_set (length (all_tabs s)) (o_disabled s) - {k}"
proof -
  let ?n = "length (all_tabs s)"
  have sound: "sound_list ?n (o_disabled s)"
    using inv_wf(1) [OF assms] by (simp add: disabled_wf_def)
  let ?d = "Listed (filter (\<lambda>n. n \<noteq> k) (case o_disabled s of Listed is \<Rightarrow> is | Flag b \<Rightarrow> map int [0..<?n]))"
  have "sound_list ?n ?d"
    using sound by (auto simp: sound_list_def distinct_map split: disabled_tabs.splits)
  moreover have "off_set ?n ?d = off_set ?n (o_disabled s) - {k}" if "o_disabled s \<noteq> Flag False"
    using that by (auto simp: off_set_def image_iff split: disabled_tabs.split)
      (metis atLeastLessThan_iff nonneg_int_cases of_nat_less_iff zero_le)+
  ultimately show ?thesis
    by (auto simp: enable_tab_def off_tidy)
qed

section \<open>Properties\<close>

text \<open>
  C16. Tabs agree with their panels. After any inputs that \<open>tabs_ok\<close> allows (clicks on known tabs, lists of
  disabled tabs that name tabs once each, new lists of tabs as \<open>relist_ok\<close> says), the widget has not hung; the position in \<open>options.active\<close>
  is that of the active tab; exactly the active tab is expanded and exactly its panel is not marked as
  hidden; and when no animation runs, exactly this panel is displayed.
\<close>

theorem tabs_consistent:
  assumes "fresh_page s" "legal tabs_step tabs_ok es (Some (tabs_create uniq c f opt s))"
  shows "\<exists>t. fold tabs_step es (Some (tabs_create uniq c f opt s)) = Some t
     \<and> o_active t = map_option (\<lambda>l. tab_position (Some l) t) (active_tab t)
     \<and> (\<forall>l \<in> set (all_tabs t). t_expanded (tab_at t l) = (active_tab t = Some l))
     \<and> (\<forall>p \<in> set (all_panels t). hidden_in t p = (active_panel t \<noteq> Some p))
     \<and> (running t = Idle \<longrightarrow> (\<forall>p \<in> set (all_panels t). shown_in t p = (active_panel t = Some p)))"
proof -
  have "tabs_live (Some (tabs_create uniq c f opt s))"
    using create_inv [OF assms(1)] by (simp add: tabs_live_def)
  then obtain t where "fold tabs_step es (Some (tabs_create uniq c f opt s)) = Some t" "tabs_inv t"
    using tabbed.run_inv [OF _ assms(2)] by (auto simp: tabs_live_def)
  then show ?thesis
    by (auto simp: tabs_inv_def tabs_wf_def attrs_ok_def display_ok_def)
qed

text \<open>
  C26. The search for the next tab. It fails to return only if every tab is listed as disabled; otherwise it
  returns the first tab that is not, in the direction of the search and around the ends of the list.
\<close>

theorem next_tab_search:
  assumes "n = int (length (all_tabs s))" "0 < n" "c = constrain_index (n - 1) i"
  shows "case findNextTab i forward s of
      None \<Rightarrow> \<forall>e. 0 \<le> e \<and> e < n \<longrightarrow> in_disabled e (o_disabled s)
    | Some j \<Rightarrow> \<exists>k < nat n. j = around n forward c k \<and> \<not> in_disabled j (o_disabled s)
        \<and> (\<forall>m < k. in_disabled (around n forward c m) (o_disabled s))"
proof (cases "\<exists>e. 0 \<le> e \<and> e < n \<and> \<not> in_disabled e (o_disabled s)")
  case True
  then obtain k where "k < nat n" "findNextTab i forward s = Some (around n forward c k)"
    "\<not> in_disabled (around n forward c k) (o_disabled s)" "\<forall>m < k. in_disabled (around n forward c m) (o_disabled s)"
    unfolding findNextTab_def using next_tab_first [OF assms(2), of _ "o_disabled s" forward i] assms(1,3) by auto
  then show ?thesis
    by auto
next
  case False
  then have "findNextTab i forward s = None"
    unfolding findNextTab_def using next_tab_none [OF assms(2), of "o_disabled s" forward i] assms(1) by simp
  then show ?thesis
    using False by auto
qed

text \<open>
  The option \<open>disabled\<close> is a set of positions: a tab is marked exactly if its position is in the set, \<open>disable\<close>
  inserts a position and \<open>enable\<close> removes one, whether the option is a list or a flag before and after.
\<close>

theorem disabled_as_set:
  assumes "tabs_inv s" "n = length (all_tabs s)" "0 \<le> k" "k < int n" "l \<in> set (all_tabs s)"
  shows "t_disabled (tab_at s l) = (tab_position (Some l) s \<in> off_set n (o_disabled s))
     \<and> off_set n (o_disabled (disable_tab (Some k) s)) = insert k (off_set n (o_disabled s))
     \<and> off_set n (o_disabled (enable_tab (Some k) s)) = off_set n (o_disabled s) - {k}
     \<and> tabs_inv (disable_tab (Some k) s) \<and> tabs_inv (enable_tab (Some k) s)"
  using assms off_disable [OF assms(1)] off_enable [OF assms(1)] inv_wf(1) [OF assms(1)] inv_enable inv_disable
  by (simp add: disabled_wf_def off_position)

section \<open>Examples\<close>

text \<open>A page with two local tabs and a remote one, of which the widget makes the panel.\<close>

definition plain_tab :: "string option \<Rightarrow> tab" where
  "plain_tab h = \<lparr>anchor_id = None, local_hash = h, aria_controls = None, own_controls = None, t_disabled = False, t_active = False,
     t_loading = False, t_selected = False, t_expanded = False, t_index = []\<rparr>"

definition demo_tabs :: "bool \<Rightarrow> tabs" where
  "demo_tabs collapsible =
     \<lparr>dom_tabs = [10, 11, 12], all_tabs = [],
      tab_at = (\<lambda>l. plain_tab (if l = 10 then Some ''mail'' else if l = 11 then Some ''keys'' else None)),
      panel_at = (\<lambda>p. if p \<in> {''mail'', ''keys''} then Some (new_panel\<lparr>p_made := False\<rparr>) else None),
      uuid = 0, o_active = None, o_disabled = Flag False, o_collapsible = collapsible, o_show = False, o_hide = True,
      active_tab = None, running = Idle, activating = None, focused = None, xhr = None, requests = [], sent = 0, tabs_log = []\<rparr>"

definition yes :: answers where
  "yes = \<lparr>no_activate = False, no_load = False\<rparr>"

definition no_keys :: modifiers where
  "no_keys = \<lparr>altKey = False, ctrlKey = False, metaKey = False\<rparr>"

definition demo_created :: "bool \<Rightarrow> tabs" where
  "demo_created collapsible = tabs_create (\<lambda>is. is) False [] NullActive (demo_tabs collapsible)"

declare next_tab_loop.simps [code]

lemma demo_fresh: "fresh_page (demo_tabs b)"
  by (simp add: fresh_page_def demo_tabs_def startable_def plain_tab_def)

definition demo_inputs :: "tab_input list" where
  "demo_inputs =
     [DisableTab (Some 1), TabKey 10 TabRight no_keys yes, ActivateTimer yes, AnimationEnd, Answer 0 (Arrived ''rows''),
      CompleteRequest 0 False, EnableTab None, TabClick 11 yes, AnimationEnd, Relist [12, 10] yes]"

theorem tabs_consistent_witness:
  "fresh_page (demo_tabs False) \<and> legal tabs_step tabs_ok demo_inputs (Some (demo_created False))
     \<and> (\<exists>t. fold tabs_step demo_inputs (Some (demo_created False)) = Some t
          \<and> o_active t = map_option (\<lambda>l. tab_position (Some l) t) (active_tab t))"
proof -
  have "legal tabs_step tabs_ok demo_inputs (Some (demo_created False))"
    by code_simp
  then show ?thesis
    using tabs_consistent [OF demo_fresh, of demo_inputs "\<lambda>is. is" False "[]" NullActive False] demo_fresh
    by (auto simp: demo_created_def)
qed

theorem next_tab_search_witness:
  "(3::int) = int (length (all_tabs (demo_created False))) \<and> constrain_index 2 3 = 0 \<and> findNextTab 3 True (demo_created False) = Some 0
     \<and> (\<exists>k < nat 3. (0::int) = around 3 True 0 k \<and> \<not> in_disabled 0 (o_disabled (demo_created False))
          \<and> (\<forall>m < k. in_disabled (around 3 True 0 m) (o_disabled (demo_created False))))"
proof -
  have "(3::int) = int (length (all_tabs (demo_created False)))" "(0::int) = constrain_index (3 - 1) 3"
    "findNextTab 3 True (demo_created False) = Some 0"
    by code_simp+
  then show ?thesis
    using next_tab_search [of 3 "demo_created False" 0 3 True] by simp
qed

theorem disabled_as_set_witness:
  "tabs_inv (demo_created False) \<and> 11 \<in> set (all_tabs (demo_created False)) \<and> tab_position (Some 11) (demo_created False) = 1
     \<and> off_set 3 (o_disabled (disable_tab (Some 1) (demo_created False))) = {1}"
proof -
  have inv: "tabs_inv (demo_created False)"
    unfolding demo_created_def by (rule create_inv) (rule demo_fresh)
  have "(3::nat) = length (all_tabs (demo_created False))" "11 \<in> set (all_tabs (demo_created False))"
    "tab_position (Some 11) (demo_created False) = 1" "o_disabled (demo_created False) = Flag False"
    by code_simp+
  then show ?thesis
    using inv disabled_as_set [of "demo_created False" 3 1 11] by simp
qed

section \<open>Defects\<close>

text \<open>
  The comment in \<open>_toggle\<close> says that opening from the collapsed state takes the previous tab out of the tab
  order. The attribute is compared with a number, so this never happens: after closing the first tab and
  opening the second one, both are in the tab order.
\<close>

theorem stale_tab_stop:
  "map_option (\<lambda>s. (active_tab s, map (\<lambda>l. t_index (tab_at s l)) (all_tabs s)))
     (fold tabs_step [TabClick 10 yes, AnimationEnd, TabClick 11 yes, AnimationEnd] (Some (demo_created True)))
   = Some (Some 11, [''0'', ''0'', ''-1''])"
  by code_simp

text \<open>A key that moves the focus activates its tab later, even if another tab has been clicked in the meantime.\<close>

theorem key_overrides_click:
  "map_option active_tab
     (fold tabs_step [TabKey 10 TabRight no_keys yes, TabClick 12 yes, AnimationEnd, ActivateTimer yes] (Some (demo_created False)))
   = Some (Some 11)"
  by code_simp

text \<open>
  The widget keeps the value of \<open>aria-controls\<close> it finds, to restore it at the end. On a refresh it finds its
  own value, and \<open>destroy\<close> leaves it on the page.
\<close>

theorem refresh_keeps_controls:
  "aria_controls (tab_at (demo_tabs False) 10) = None
   \<and> aria_controls (tab_at (tabs_destroy (demo_created False)) 10) = None
   \<and> map_option (\<lambda>s. aria_controls (tab_at (tabs_destroy s) 10)) (tabs_step (Relist [10, 11, 12] yes) (Some (demo_created False)))
     = Some (Some ''mail'')"
  by code_simp

text \<open>Indices are counted, not checked: three indices that name no tab disable all three tabs.\<close>

theorem strange_indices_disable:
  "map_option (\<lambda>s. map (\<lambda>l. t_disabled (tab_at s l)) (all_tabs s))
     (fold tabs_step [DisableTab (Some 5), DisableTab (Some 6), DisableTab (Some 7)] (Some (demo_created False)))
   = Some [True, True, True]"
  by code_simp

text \<open>A list that names every tab, and one of them twice, is not recognised as all tabs: the search for the next tab never ends.\<close>

definition twice_listed :: tabs where
  "twice_listed = tabs_setOptionDisabled (Listed [0, 1, 2, 2]) (demo_created False)"

theorem repeated_index_hangs:
  "tabs_step (PanelKey TabPageDown (no_keys\<lparr>altKey := True\<rparr>) yes) (Some twice_listed) = None"
proof -
  have tabs: "int (length (all_tabs twice_listed)) = 3" "o_disabled twice_listed = Listed [0, 1, 2, 2]"
    by code_simp+
  have "\<forall>e. 0 \<le> e \<and> e < (3::int) \<longrightarrow> in_disabled e (Listed [0, 1, 2, 2])"
    by (auto simp: in_disabled_def)
  then have "findNextTab i forward twice_listed = None" for i forward
    using next_tab_none [of 3 "Listed [0, 1, 2, 2]" forward i] by (simp add: findNextTab_def tabs)
  then show ?thesis
    using tabs by (simp add: tabs_step_def panelKeydown_def page_nav_def no_keys_def handlePageNav_def focusNextTab_def)
qed

end
