(* ===== verification/UI_Accordion.thy ===== *)
theory UI_Accordion
  imports Prelude
begin

text \<open>
  The accordion of jQuery UI: headers, each followed by its panel, of which at most one is open. The model
  keeps what the widget writes to the page for every header and its panel, the animation between two
  panels, which a new activation brings to its end, and the icons of the headers. Headers are numbered
  elements; the panel of a header is \<open>header.next()\<close>. What the handler of \<open>beforeActivate\<close> answers comes
  with the input.
\<close>

section \<open>State\<close>

record header =
  h_active :: bool                 \<comment> \<open>\<open>ui-accordion-header-active\<close>\<close>
  h_collapsed :: bool              \<comment> \<open>\<open>ui-accordion-header-collapsed\<close>\<close>
  h_selected :: bool
  h_expanded :: bool
  h_index :: int                   \<comment> \<open>the attribute \<open>tabIndex\<close>\<close>
  h_icon :: "bool option"          \<comment> \<open>the icon, \<open>True\<close> for that of an active header\<close>
  h_marks :: nat                   \<comment> \<open>elements inside of the header with the class \<open>ui-state-disabled\<close>\<close>
  c_active :: bool                 \<comment> \<open>\<open>ui-accordion-content-active\<close> of the panel\<close>
  c_shown :: bool
  c_hidden :: bool                 \<comment> \<open>\<open>aria-hidden\<close> of the panel\<close>

record activation_data =
  oldHeader :: "nat option"
  newHeader :: "nat option"

text \<open>An animation: the panels it shows and hides, and the data for its end.\<close>

record folding =
  to_show :: "nat option"
  to_hide :: "nat option"
  fold_data :: activation_data

datatype accordion_event = Activate "nat option" "nat option"

record accordion =
  dom_headers :: "nat list"
  headers :: "nat list"
  header_at :: "nat \<Rightarrow> header"
  acc_active :: "int option"       \<comment> \<open>\<open>options.active\<close>, \<open>None\<close> for \<open>false\<close>\<close>
  acc_collapsible :: bool
  acc_animate :: bool
  acc_icons :: bool
  acc_disabled :: bool
  active_header :: "nat option"    \<comment> \<open>\<open>this.active\<close>\<close>
  prevShow :: "nat option"
  prevHide :: "nat option"
  folding_now :: "folding option"
  focus_header :: "nat option"
  acc_log :: "accordion_event list"

definition upd_headers :: "nat set \<Rightarrow> (header \<Rightarrow> header) \<Rightarrow> accordion \<Rightarrow> accordion" where
  "upd_headers hs f s = s\<lparr>header_at := (\<lambda>h. (if h \<in> hs then f else (\<lambda>x. x)) (header_at s h))\<rparr>"

definition eq_header :: "int \<Rightarrow> accordion \<Rightarrow> nat option" where
  "eq_header i s =
     (let n = int (length (headers s)); j = (if i < 0 then i + n else i)
      in if 0 \<le> j \<and> j < n then Some (headers s ! nat j) else None)"

definition header_position :: "nat option \<Rightarrow> accordion \<Rightarrow> int" where
  "header_position t s = (case t of None \<Rightarrow> -1 | Some h \<Rightarrow> (case index_of h (headers s) of None \<Rightarrow> -1 | Some i \<Rightarrow> int i))"

definition acc_findActive :: "int option \<Rightarrow> accordion \<Rightarrow> nat option" where
  "acc_findActive i s = Option.bind i (\<lambda>k. eq_header k s)"

section \<open>Icons\<close>

definition createIcons :: "accordion \<Rightarrow> accordion" where
  "createIcons s =
     (if acc_icons s
      then upd_headers (set_option (active_header s)) (\<lambda>x. x\<lparr>h_icon := Some True\<rparr>)
             (upd_headers (set (headers s)) (\<lambda>x. x\<lparr>h_icon := Some False\<rparr>) s)
      else s)"

definition destroyIcons :: "accordion \<Rightarrow> accordion" where
  "destroyIcons s = upd_headers (set (headers s)) (\<lambda>x. x\<lparr>h_icon := None\<rparr>) s"

section \<open>Activation\<close>

text \<open>\<open>_toggleComplete\<close>, and the end of an animation, which \<open>stop( true, true )\<close> brings about as well.\<close>

definition toggleComplete :: "activation_data \<Rightarrow> accordion \<Rightarrow> accordion" where
  "toggleComplete d s =
     (let s1 = upd_headers (set_option (oldHeader d)) (\<lambda>x. x\<lparr>c_active := False, h_active := False, h_collapsed := True\<rparr>) s
      in s1\<lparr>acc_log := acc_log s @ [Activate (oldHeader d) (newHeader d)]\<rparr>)"

definition swap_panels :: "nat option \<Rightarrow> nat option \<Rightarrow> accordion \<Rightarrow> accordion" where
  "swap_panels hide show s =
     upd_headers (set_option show) (\<lambda>x. x\<lparr>c_shown := True\<rparr>) (upd_headers (set_option hide) (\<lambda>x. x\<lparr>c_shown := False\<rparr>) s)"

definition folding_end :: "accordion \<Rightarrow> accordion" where
  "folding_end s =
     (case folding_now s of None \<Rightarrow> s
      | Some f \<Rightarrow> toggleComplete (fold_data f) (swap_panels (to_hide f) (to_show f) (s\<lparr>folding_now := None\<rparr>)))"

definition acc_attrs :: "nat option \<Rightarrow> nat option \<Rightarrow> accordion \<Rightarrow> accordion" where
  "acc_attrs hide show s =
     (let s1 = upd_headers (set_option hide) (\<lambda>x. x\<lparr>c_hidden := True, h_selected := False, h_expanded := False\<rparr>) s;
          out = (if show \<noteq> None \<and> hide \<noteq> None then set_option hide
                 else if show \<noteq> None then {h \<in> set (headers s1). h_index (header_at s1 h) = 0} else {});
          s2 = upd_headers out (\<lambda>x. x\<lparr>h_index := -1\<rparr>) s1
      in upd_headers (set_option show) (\<lambda>x. x\<lparr>c_hidden := False, h_selected := True, h_expanded := True, h_index := 0\<rparr>) s2)"

definition acc_toggle :: "activation_data \<Rightarrow> accordion \<Rightarrow> accordion" where
  "acc_toggle d s =
     (let show = newHeader d; hide = (if prevShow s = None then oldHeader d else prevShow s);
          s1 = (folding_end s)\<lparr>prevShow := show, prevHide := hide\<rparr>
      in acc_attrs hide show
           (if acc_animate s then s1\<lparr>folding_now := Some \<lparr>to_show = show, to_hide = hide, fold_data = d\<rparr>\<rparr>
            else toggleComplete d (swap_panels hide show s1)))"

text \<open>The classes and icons of the old and the new header.\<close>

definition switch_classes :: "nat option \<Rightarrow> nat option \<Rightarrow> accordion \<Rightarrow> accordion" where
  "switch_classes old new s =
     (let icon = (\<lambda>b x. if acc_icons s then x\<lparr>h_icon := map_option (\<lambda>_. b) (h_icon x)\<rparr> else x);
          s1 = upd_headers (set_option old) (\<lambda>x. icon False (x\<lparr>h_active := False\<rparr>)) s
      in upd_headers (set_option new) (\<lambda>x. icon True (x\<lparr>h_collapsed := False, h_active := True, c_active := True\<rparr>)) s1)"

definition acc_eventHandler :: "bool \<Rightarrow> nat \<Rightarrow> accordion \<Rightarrow> accordion" where
  "acc_eventHandler refused h s =
     (let clicked = (active_header s = Some h); collapsing = (clicked \<and> acc_collapsible s);
          d = \<lparr>oldHeader = active_header s, newHeader = (if collapsing then None else Some h)\<rparr>
      in if clicked \<and> \<not> acc_collapsible s \<or> refused then s
         else switch_classes (active_header s) (if clicked then None else Some h)
                (acc_toggle d (s\<lparr>acc_active := (if collapsing then None else Some (header_position (Some h) s)),
                                active_header := (if clicked then None else Some h)\<rparr>)))"

definition acc_activate :: "bool \<Rightarrow> int option \<Rightarrow> accordion \<Rightarrow> accordion" where
  "acc_activate refused i s =
     (let t = acc_findActive i s
      in if t = active_header s then s
         else case (if t = None then active_header s else t) of None \<Rightarrow> s | Some h \<Rightarrow> acc_eventHandler refused h s)"

section \<open>Keyboard\<close>

datatype acc_key = AccRight | AccDown | AccLeft | AccUp | AccSpace | AccEnter | AccHome | AccEnd | AccOther

definition key_focus :: "acc_key \<Rightarrow> nat \<Rightarrow> accordion \<Rightarrow> nat option" where
  "key_focus k h s =
     (let n = int (length (headers s)); i = header_position (Some h) s
      in if n = 0 then None
         else if k \<in> {AccRight, AccDown} then Some (headers s ! nat ((i + 1) mod n))
         else if k \<in> {AccLeft, AccUp} then Some (headers s ! nat ((i - 1 + n) mod n))
         else if k = AccHome then Some (headers s ! 0)
         else if k = AccEnd then Some (headers s ! nat (n - 1))
         else None)"

definition acc_keydown :: "bool \<Rightarrow> acc_key \<Rightarrow> nat \<Rightarrow> accordion \<Rightarrow> accordion" where
  "acc_keydown refused k h s =
     (let s1 = (if k \<in> {AccSpace, AccEnter} then acc_eventHandler refused h s else s)
      in case key_focus k h s of
           None \<Rightarrow> s1
         | Some g \<Rightarrow> (upd_headers {g} (\<lambda>x. x\<lparr>h_index := 0\<rparr>) (upd_headers {h} (\<lambda>x. x\<lparr>h_index := -1\<rparr>) s1))\<lparr>focus_header := Some g\<rparr>)"

section \<open>The page\<close>

definition processPanels :: "accordion \<Rightarrow> accordion" where
  "processPanels s =
     upd_headers (set (dom_headers s)) (\<lambda>x. x\<lparr>h_collapsed := True, c_shown := c_active x \<and> c_shown x\<rparr>)
       (s\<lparr>headers := dom_headers s\<rparr>)"

definition acc_refresh_page :: "accordion \<Rightarrow> accordion" where
  "acc_refresh_page s =
     (let t = acc_findActive (acc_active s) s; act = set_option t;
          s1 = upd_headers act (\<lambda>x. x\<lparr>h_active := True, h_collapsed := False, c_active := True, c_shown := True\<rparr>) (s\<lparr>active_header := t\<rparr>);
          s2 = upd_headers (set (headers s) - act)
                 (\<lambda>x. x\<lparr>h_selected := False, h_expanded := False, h_index := -1, c_hidden := True, c_shown := False\<rparr>) s1;
          s3 = (if t = None then upd_headers (set_option (eq_header 0 s)) (\<lambda>x. x\<lparr>h_index := 0\<rparr>) s2
                else upd_headers act (\<lambda>x. x\<lparr>h_selected := True, h_expanded := True, h_index := 0, c_hidden := False\<rparr>) s2)
      in createIcons s3)"

text \<open>\<open>_create\<close>: an active header that is not given is the first one, negative numbers count from the end.\<close>

definition acc_create :: "accordion \<Rightarrow> accordion" where
  "acc_create s =
     (let s1 = processPanels (s\<lparr>prevShow := None, prevHide := None\<rparr>);
          a = (if \<not> acc_collapsible s \<and> acc_active s = None then Some 0 else acc_active s)
      in acc_refresh_page
           (s1\<lparr>acc_active := map_option (\<lambda>i. if i < 0 then i + int (length (headers s1)) else i) a\<rparr>))"

text \<open>
  \<open>refresh\<close>. The test whether all headers are disabled looks for marks inside of the headers.
\<close>

definition acc_refresh_active :: "bool \<Rightarrow> accordion \<Rightarrow> accordion" where
  "acc_refresh_active refused s =
     (if acc_active s = None \<and> acc_collapsible s \<or> headers s = [] then s\<lparr>acc_active := None, active_header := None\<rparr>
      else case acc_active s of
             None \<Rightarrow> acc_activate refused (Some 0) s
           | Some i \<Rightarrow>
               (case active_header s of
                  Some h \<Rightarrow>
                    if h \<notin> set (dom_headers s)
                    then if length (headers s) = sum_list (map (\<lambda>g. h_marks (header_at s g)) (headers s))
                         then s\<lparr>acc_active := None, active_header := None\<rparr>
                         else acc_activate refused (Some (max 0 (i - 1))) s
                    else s\<lparr>acc_active := Some (header_position (Some h) s)\<rparr>
                | None \<Rightarrow> s\<lparr>acc_active := Some (-1)\<rparr>))"

definition acc_refresh :: "bool \<Rightarrow> accordion \<Rightarrow> accordion" where
  "acc_refresh refused s = acc_refresh_page (destroyIcons (acc_refresh_active refused (processPanels s)))"

datatype acc_option = AccActive "int option" | AccCollapsible bool | AccAnimate bool | AccIcons bool | AccDisabled bool

definition acc_setOption :: "bool \<Rightarrow> acc_option \<Rightarrow> accordion \<Rightarrow> accordion" where
  "acc_setOption refused opt s =
     (case opt of
        AccActive i \<Rightarrow> acc_activate refused i s
      | AccCollapsible b \<Rightarrow>
          (let s1 = s\<lparr>acc_collapsible := b\<rparr> in if \<not> b \<and> acc_active s = None then acc_activate refused (Some 0) s1 else s1)
      | AccAnimate b \<Rightarrow> s\<lparr>acc_animate := b\<rparr>
      | AccIcons b \<Rightarrow> (let s1 = destroyIcons (s\<lparr>acc_icons := b\<rparr>) in if b then createIcons s1 else s1)
      | AccDisabled b \<Rightarrow> s\<lparr>acc_disabled := b\<rparr>)"

text \<open>\<open>_destroy\<close> of the attributes; the classes are taken away by the widget factory.\<close>

definition acc_destroy :: "accordion \<Rightarrow> accordion" where
  "acc_destroy s =
     upd_headers (set (headers s)) (\<lambda>x. x\<lparr>h_selected := False, h_expanded := False, c_hidden := False, c_shown := True\<rparr>) (destroyIcons s)"

section \<open>Inputs\<close>

text \<open>Handlers do not run on a disabled accordion. \<open>NewHeaders\<close> is a change of the page, followed by \<open>refresh\<close>.\<close>

datatype acc_input =
    HeaderClick nat bool
  | HeaderKey nat acc_key bool
  | PanelUp nat
  | SetAccOption acc_option bool
  | FoldingEnd
  | NewHeaders "nat list" bool

fun acc_step :: "acc_input \<Rightarrow> accordion \<Rightarrow> accordion" where
  "acc_step (HeaderClick h r) s = (if acc_disabled s then s else acc_eventHandler r h s)"
| "acc_step (HeaderKey h k r) s = (if acc_disabled s then s else acc_keydown r k h s)"
| "acc_step (PanelUp h) s = (if acc_disabled s then s else s\<lparr>focus_header := Some h\<rparr>)"
| "acc_step (SetAccOption opt r) s = acc_setOption r opt s"
| "acc_step FoldingEnd s = folding_end s"
| "acc_step (NewHeaders hs r) s = acc_refresh r (s\<lparr>dom_headers := hs\<rparr>)"

section \<open>Invariant\<close>

text \<open>
  Two optional headers agree when they are the same among the headers of the accordion: the widget may
  still refer to headers that are no longer on the page.
\<close>

definition agree :: "accordion \<Rightarrow> nat option \<Rightarrow> nat option \<Rightarrow> bool" where
  "agree s a b \<longleftrightarrow> (\<forall>h \<in> set (headers s). (a = Some h) = (b = Some h))"

definition is_active :: "accordion \<Rightarrow> nat \<Rightarrow> bool" where
  "is_active s h \<longleftrightarrow> active_header s = Some h"

text \<open>The header that a running animation closes.\<close>

definition closing :: "accordion \<Rightarrow> nat \<Rightarrow> bool" where
  "closing s h \<longleftrightarrow> (\<exists>f. folding_now s = Some f \<and> oldHeader (fold_data f) = Some h)"

definition fold_ok :: "accordion \<Rightarrow> bool" where
  "fold_ok s \<longleftrightarrow> (\<forall>f. folding_now s = Some f \<longrightarrow> agree s (to_show f) (active_header s) \<and> agree s (to_hide f) (oldHeader (fold_data f)))
     \<and> (\<forall>h \<in> set (headers s). (closing s h \<longrightarrow> \<not> is_active s h) \<and> (h_active (header_at s h) \<longrightarrow> is_active s h)
          \<and> (c_active (header_at s h) \<longrightarrow> is_active s h \<or> closing s h)
          \<and> (\<not> h_collapsed (header_at s h) \<longrightarrow> is_active s h \<or> closing s h))"

definition weak_ok :: "accordion \<Rightarrow> bool" where
  "weak_ok s \<longleftrightarrow> distinct (headers s) \<and> (prevShow s = None \<or> agree s (prevShow s) (active_header s)) \<and> fold_ok s"

definition active_matches :: "accordion \<Rightarrow> bool" where
  "active_matches s \<longleftrightarrow> set_option (active_header s) \<subseteq> set (headers s)
     \<and> acc_active s = map_option (\<lambda>h. header_position (Some h) s) (active_header s)"

text \<open>What the page shows.\<close>

definition header_shown :: "accordion \<Rightarrow> nat \<Rightarrow> bool" where
  "header_shown s h \<longleftrightarrow> (let x = header_at s h; b = is_active s h in
     h_expanded x = b \<and> c_hidden x = (\<not> b) \<and> h_active x = b \<and> (b \<longrightarrow> c_active x \<and> \<not> h_collapsed x)
     \<and> (acc_icons s \<longrightarrow> h_icon x = Some b)
     \<and> (if folding_now s = None then c_shown x = b else c_shown x \<longrightarrow> b \<or> closing s h))"

definition tab_stop :: "accordion \<Rightarrow> bool" where
  "tab_stop s \<longleftrightarrow> headers s = [] \<or> (\<exists>h \<in> set (headers s). h_index (header_at s h) = 0)"

definition acc_inv :: "accordion \<Rightarrow> bool" where
  "acc_inv s \<longleftrightarrow> weak_ok s \<and> active_matches s \<and> (\<forall>h \<in> set (headers s). header_shown s h) \<and> tab_stop s"

lemma upd_headers_fields [simp]:
  "headers (upd_headers hs f s) = headers s" "dom_headers (upd_headers hs f s) = dom_headers s"
  "acc_active (upd_headers hs f s) = acc_active s" "acc_collapsible (upd_headers hs f s) = acc_collapsible s"
  "acc_animate (upd_headers hs f s) = acc_animate s" "acc_icons (upd_headers hs f s) = acc_icons s"
  "active_header (upd_headers hs f s) = active_header s" "prevShow (upd_headers hs f s) = prevShow s"
  "folding_now (upd_headers hs f s) = folding_now s" "acc_log (upd_headers hs f s) = acc_log s"
  "header_at (upd_headers hs f s) h = (if h \<in> hs then f (header_at s h) else header_at s h)"
  "closing (upd_headers hs f s) h = closing s h" "is_active (upd_headers hs f s) h = is_active s h"
  by (simp_all add: upd_headers_def closing_def is_active_def)

lemma position_cong: "headers s' = headers s \<Longrightarrow> header_position t s' = header_position t s"
  by (cases t) (simp_all add: header_position_def)

lemma position_header: "distinct (headers s) \<Longrightarrow> h \<in> set (headers s) \<Longrightarrow> eq_header (header_position (Some h) s) s = Some h"
  using index_of_Some_ex [of h "headers s"] by (auto simp: header_position_def eq_header_def dest: index_of_Some)

lemma eq_header_member: "eq_header i s = Some h \<Longrightarrow> h \<in> set (headers s)"
  by (auto simp: eq_header_def Let_def split: if_splits)

section \<open>The end of an animation\<close>

lemma folding_end_fields [simp]:
  "headers (folding_end s) = headers s" "active_header (folding_end s) = active_header s" "acc_active (folding_end s) = acc_active s"
  "folding_now (folding_end s) = None" "prevShow (folding_end s) = prevShow s" "acc_icons (folding_end s) = acc_icons s"
  "acc_animate (folding_end s) = acc_animate s" "dom_headers (folding_end s) = dom_headers s"
  "h_index (header_at (folding_end s) h) = h_index (header_at s h)" "h_icon (header_at (folding_end s) h) = h_icon (header_at s h)"
  "h_expanded (header_at (folding_end s) h) = h_expanded (header_at s h)" "c_hidden (header_at (folding_end s) h) = c_hidden (header_at s h)"
  by (auto simp: folding_end_def toggleComplete_def swap_panels_def Let_def split: option.split)

lemma folding_end_header:
  assumes "fold_ok s" "h \<in> set (headers s)"
  shows "h_active (header_at (folding_end s) h) = h_active (header_at s h)"
    "c_active (header_at (folding_end s) h) = (c_active (header_at s h) \<and> \<not> closing s h)"
    "h_collapsed (header_at (folding_end s) h) = (h_collapsed (header_at s h) \<or> closing s h)"
    "c_shown (header_at (folding_end s) h) =
       (if folding_now s = None then c_shown (header_at s h) else is_active s h \<or> \<not> closing s h \<and> c_shown (header_at s h))"
  using assms
  by (auto simp: folding_end_def toggleComplete_def swap_panels_def Let_def fold_ok_def closing_def is_active_def agree_def
      split: option.split)

lemma closing_end [simp]: "\<not> closing (folding_end s) h" "is_active (folding_end s) h = is_active s h"
  by (simp_all add: closing_def is_active_def)

lemma agree_cong: "headers s' = headers s \<Longrightarrow> agree s' a b = agree s a b"
  by (simp add: agree_def)

lemma weak_end:
  assumes "weak_ok s"
  shows "weak_ok (folding_end s)"
  using assms folding_end_header [of s] by (auto simp: weak_ok_def fold_ok_def agree_cong [of "folding_end s" s])

lemma inv_folding_end:
  assumes "acc_inv s"
  shows "acc_inv (folding_end s)"
proof -
  have fold: "fold_ok s"
    using assms by (simp add: acc_inv_def weak_ok_def)
  have "header_shown (folding_end s) h" if h: "h \<in> set (headers s)" for h
  proof -
    have "header_shown s h" "closing s h \<longrightarrow> \<not> is_active s h"
      using assms h by (simp_all add: acc_inv_def weak_ok_def fold_ok_def)
    then show ?thesis
      by (auto simp: header_shown_def Let_def folding_end_header [OF fold h] closing_def)
  qed
  then show ?thesis
    using assms weak_end [of s] position_cong [of "folding_end s" s]
    by (simp add: acc_inv_def active_matches_def tab_stop_def)
qed

section \<open>Activation\<close>

text \<open>The state after an activation that is not refused: \<open>new\<close> takes the place of the active header.\<close>

definition moved_to :: "int option \<Rightarrow> nat option \<Rightarrow> accordion \<Rightarrow> accordion" where
  "moved_to i new s =
     switch_classes (active_header s) new
       (acc_toggle \<lparr>oldHeader = active_header s, newHeader = new\<rparr> (s\<lparr>acc_active := i, active_header := new\<rparr>))"

lemma handler_moves:
  "acc_eventHandler r h s =
     (if active_header s = Some h \<and> \<not> acc_collapsible s \<or> r then s
      else if active_header s = Some h then moved_to None None s
      else moved_to (Some (header_position (Some h) s)) (Some h) s)"
  by (simp add: acc_eventHandler_def moved_to_def Let_def)

lemma folding_end_active:
  "folding_end (s\<lparr>acc_active := i, active_header := t\<rparr>) = (folding_end s)\<lparr>acc_active := i, active_header := t\<rparr>"
  by (simp add: folding_end_def toggleComplete_def swap_panels_def upd_headers_def Let_def split: option.split)

lemma moved_fields [simp]:
  "headers (moved_to i new s) = headers s" "active_header (moved_to i new s) = new" "acc_active (moved_to i new s) = i"
  "prevShow (moved_to i new s) = new" "acc_icons (moved_to i new s) = acc_icons s" "dom_headers (moved_to i new s) = dom_headers s"
  "folding_now (moved_to i new s) =
     (if acc_animate s then Some \<lparr>to_show = new, to_hide = (if prevShow s = None then active_header s else prevShow s),
          fold_data = \<lparr>oldHeader = active_header s, newHeader = new\<rparr>\<rparr> else None)"
  by (simp_all add: moved_to_def acc_toggle_def switch_classes_def acc_attrs_def toggleComplete_def swap_panels_def folding_end_active Let_def)

lemma moved_header:
  fixes i :: "int option"
  assumes ok: "weak_ok s" and h: "h \<in> set (headers s)" and new: "new \<noteq> None \<longrightarrow> new \<noteq> active_header s"
  defines "e \<equiv> header_at (folding_end s) h" and "x \<equiv> header_at (moved_to i new s) h"
  shows "h_active x = (new = Some h)"
    "h_expanded x = (new = Some h \<or> \<not> is_active s h \<and> h_expanded e)"
    "c_hidden x = (new \<noteq> Some h \<and> (is_active s h \<or> c_hidden e))"
    "c_active x = (new = Some h \<or> (acc_animate s \<and> is_active s h \<and> c_active e))"
    "h_collapsed x = (new \<noteq> Some h \<and> (h_collapsed e \<or> is_active s h \<and> \<not> acc_animate s))"
    "c_shown x = (if acc_animate s then c_shown e else new = Some h \<or> \<not> is_active s h \<and> c_shown e)"
    "h_icon x = (if acc_icons s \<and> (new = Some h \<or> is_active s h) then map_option (\<lambda>_. new = Some h) (h_icon e) else h_icon e)"
    "(new = Some h \<longrightarrow> h_index x = 0) \<and> (new = None \<longrightarrow> h_index x = h_index e)"
proof -
  let ?hide = "if prevShow s = None then active_header s else prevShow s"
  have hide: "(?hide = Some h) = is_active s h"
    using ok h by (auto simp: weak_ok_def agree_def is_active_def)
  have e: "h_active e \<longrightarrow> is_active s h" "c_active e \<longrightarrow> is_active s h"
    using weak_end [OF ok] h by (auto simp: weak_ok_def fold_ok_def e_def)
  show "h_active x = (new = Some h)"
    "h_expanded x = (new = Some h \<or> \<not> is_active s h \<and> h_expanded e)"
    "c_hidden x = (new \<noteq> Some h \<and> (is_active s h \<or> c_hidden e))"
    "c_active x = (new = Some h \<or> (acc_animate s \<and> is_active s h \<and> c_active e))"
    "h_collapsed x = (new \<noteq> Some h \<and> (h_collapsed e \<or> is_active s h \<and> \<not> acc_animate s))"
    "c_shown x = (if acc_animate s then c_shown e else new = Some h \<or> \<not> is_active s h \<and> c_shown e)"
    "h_icon x = (if acc_icons s \<and> (new = Some h \<or> is_active s h) then map_option (\<lambda>_. new = Some h) (h_icon e) else h_icon e)"
    "(new = Some h \<longrightarrow> h_index x = 0) \<and> (new = None \<longrightarrow> h_index x = h_index e)"
    using hide new e
    by (auto simp: x_def e_def moved_to_def acc_toggle_def switch_classes_def acc_attrs_def toggleComplete_def swap_panels_def
        folding_end_active is_active_def Let_def option.map_comp o_def)
qed

lemma closing_moved: "closing (moved_to i new s) h \<longleftrightarrow> acc_animate s \<and> is_active s h"
  by (simp add: closing_def is_active_def)

lemma active_moved: "is_active (moved_to i new s) h \<longleftrightarrow> new = Some h"
  by (simp add: is_active_def)

lemma weak_moved:
  assumes ok: "weak_ok s" and new: "new \<noteq> None \<longrightarrow> new \<noteq> active_header s"
  shows "weak_ok (moved_to i new s)"
proof -
  have e: "\<not> h_collapsed (header_at (folding_end s) h) \<longrightarrow> is_active s h" if "h \<in> set (headers s)" for h
    using weak_end [OF ok] that by (simp add: weak_ok_def fold_ok_def)
  have "agree s (if prevShow s = None then active_header s else prevShow s) (active_header s)"
    using ok by (auto simp: weak_ok_def agree_def)
  then have "\<forall>f. folding_now (moved_to i new s) = Some f \<longrightarrow>
      agree s (to_show f) new \<and> agree s (to_hide f) (oldHeader (fold_data f))"
    by (simp add: agree_def)
  moreover have "(closing (moved_to i new s) h \<longrightarrow> new \<noteq> Some h)
      \<and> (c_active (header_at (moved_to i new s) h) \<longrightarrow> new = Some h \<or> closing (moved_to i new s) h)
      \<and> (\<not> h_collapsed (header_at (moved_to i new s) h) \<longrightarrow> new = Some h \<or> closing (moved_to i new s) h)"
    if h: "h \<in> set (headers s)" for h
    using e [OF h] new by (auto simp: closing_moved moved_header(4,5) [OF ok h new] is_active_def)
  ultimately show ?thesis
    using ok moved_header(1) [OF ok _ new]
    by (simp add: weak_ok_def fold_ok_def active_moved agree_cong [of "moved_to i new s" s]) (simp add: agree_def)
qed

lemma inv_moved:
  assumes inv: "acc_inv s" and new: "new \<noteq> None \<longrightarrow> new \<noteq> active_header s" "set_option new \<subseteq> set (headers s)"
  shows "acc_inv (moved_to (map_option (\<lambda>h. header_position (Some h) s) new) new s)"
proof -
  let ?m = "moved_to (map_option (\<lambda>h. header_position (Some h) s) new) new s" and ?e = "folding_end s"
  have ok: "weak_ok s"
    using inv by (simp add: acc_inv_def)
  have e: "header_shown ?e h" if "h \<in> set (headers s)" for h
    using inv_folding_end [OF inv] that by (simp add: acc_inv_def)
  have shown: "header_shown ?m h" if h: "h \<in> set (headers s)" for h
    using e [OF h] new(1)
    by (auto simp: header_shown_def Let_def moved_header(1-7) [OF ok h] closing_moved active_moved is_active_def)
  have "tab_stop ?m"
  proof (cases new)
    case None
    then show ?thesis
      using inv moved_header(8) [OF ok _ new(1)] by (auto simp: acc_inv_def tab_stop_def)
  next
    case (Some h)
    then have "h_index (header_at ?m h) = 0"
      using moved_header(8) [OF ok _ new(1), of h] new(2) by simp
    then show ?thesis
      using Some new(2) by (auto simp: tab_stop_def)
  qed
  then show ?thesis
    using weak_moved [OF ok new(1)] shown new(2)
    by (simp add: acc_inv_def active_matches_def position_cong [of ?m s])
qed

lemma inv_acc_handler:
  assumes "acc_inv s" "h \<in> set (headers s)"
  shows "acc_inv (acc_eventHandler r h s)"
  using assms inv_moved [of s None] inv_moved [of s "Some h"] by (auto simp: handler_moves)

lemma inv_acc_activate:
  assumes "acc_inv s"
  shows "acc_inv (acc_activate r i s)"
proof -
  have "h \<in> set (headers s)" if "acc_findActive i s = Some h \<or> active_header s = Some h" for h
    using that assms by (cases i) (auto simp: acc_findActive_def acc_inv_def active_matches_def dest: eq_header_member)
  then show ?thesis
    using assms by (auto simp: acc_activate_def Let_def intro!: inv_acc_handler split: option.split)
qed

section \<open>Keys and options\<close>

text \<open>Changes that only move the focus, the tab order or options keep the invariant.\<close>

definition acc_same :: "accordion \<Rightarrow> accordion \<Rightarrow> bool" where
  "acc_same s s' \<longleftrightarrow> headers s' = headers s \<and> active_header s' = active_header s \<and> acc_active s' = acc_active s \<and> prevShow s' = prevShow s
     \<and> folding_now s' = folding_now s
     \<and> (\<forall>h. h_active (header_at s' h) = h_active (header_at s h) \<and> h_collapsed (header_at s' h) = h_collapsed (header_at s h)
          \<and> h_expanded (header_at s' h) = h_expanded (header_at s h) \<and> c_active (header_at s' h) = c_active (header_at s h)
          \<and> c_shown (header_at s' h) = c_shown (header_at s h) \<and> c_hidden (header_at s' h) = c_hidden (header_at s h))"

lemma inv_acc_same:
  assumes "acc_inv s" "acc_same s s'" "acc_icons s' \<longrightarrow> (\<forall>h \<in> set (headers s). h_icon (header_at s' h) = Some (is_active s h))" "tab_stop s'"
  shows "acc_inv s'"
proof -
  have same: "is_active s' = is_active s" "closing s' = closing s" "agree s' a b = agree s a b" for a b
    using assms(2) by (auto simp: acc_same_def is_active_def closing_def agree_def fun_eq_iff)
  then have "weak_ok s'" "active_matches s'"
    using assms(1,2) position_cong [of s' s]
    by (auto simp: acc_inv_def weak_ok_def fold_ok_def active_matches_def acc_same_def)
  moreover have "header_shown s' h" if "h \<in> set (headers s)" for h
    using assms(1,2,3) that same by (auto simp: acc_inv_def header_shown_def acc_same_def Let_def)
  ultimately show ?thesis
    using assms(2,4) by (simp add: acc_inv_def acc_same_def)
qed

lemma inv_icons: "acc_inv s \<Longrightarrow> acc_icons s \<Longrightarrow> h \<in> set (headers s) \<Longrightarrow> h_icon (header_at s h) = Some (is_active s h)"
  by (simp add: acc_inv_def header_shown_def Let_def)

lemma inv_stop_at: "acc_inv s \<Longrightarrow> tab_stop s"
  by (simp add: acc_inv_def)

lemma inv_fields:
  assumes "acc_inv s"
  shows "acc_inv (s\<lparr>focus_header := t\<rparr>)" "acc_inv (s\<lparr>acc_collapsible := b\<rparr>)" "acc_inv (s\<lparr>acc_animate := b\<rparr>)" "acc_inv (s\<lparr>acc_disabled := b\<rparr>)"
  using inv_stop_at [OF assms] inv_icons [OF assms]
  by (auto intro!: inv_acc_same [OF assms] simp: acc_same_def tab_stop_def)

lemma key_focus_member: "key_focus k h s = Some g \<Longrightarrow> g \<in> set (headers s)"
  by (auto simp: key_focus_def Let_def split: if_splits intro!: nth_mem) (simp_all add: nat_less_iff)

lemma inv_keydown:
  assumes inv: "acc_inv s" and h: "h \<in> set (headers s)"
  shows "acc_inv (acc_keydown r k h s)"
proof -
  let ?s1 = "if k \<in> {AccSpace, AccEnter} then acc_eventHandler r h s else s"
  have s1: "acc_inv ?s1" "headers ?s1 = headers s"
    using inv h by (simp_all add: inv_acc_handler) (simp add: handler_moves)
  have "acc_inv ((upd_headers {g} (\<lambda>x. x\<lparr>h_index := 0\<rparr>) (upd_headers {h} (\<lambda>x. x\<lparr>h_index := -1\<rparr>) ?s1))\<lparr>focus_header := Some g\<rparr>)"
    if "key_focus k h s = Some g" for g
    using key_focus_member [OF that] inv_icons [OF s1(1)] s1(2)
    by (intro inv_acc_same [OF s1(1)]) (auto simp: acc_same_def tab_stop_def)
  then show ?thesis
    using s1(1) unfolding acc_keydown_def Let_def by (cases "key_focus k h s") (simp_all only: option.case)
qed

lemma inv_acc_option:
  assumes inv: "acc_inv s"
  shows "acc_inv (acc_setOption r opt s)"
proof (cases opt)
  case (AccIcons b)
  let ?s = "destroyIcons (s\<lparr>acc_icons := b\<rparr>)"
  have "acc_inv (if b then createIcons ?s else ?s)"
    using inv_stop_at [OF inv] by (intro inv_acc_same [OF inv])
      (auto simp: acc_same_def destroyIcons_def createIcons_def is_active_def tab_stop_def)
  then show ?thesis
    by (simp add: AccIcons acc_setOption_def Let_def)
qed (use inv_fields [OF inv] inv in \<open>simp_all add: acc_setOption_def inv_acc_activate Let_def\<close>)

section \<open>A new list of headers\<close>

lemma acc_page_inv:
  assumes ok: "weak_ok s" "active_matches s"
  shows "acc_inv (acc_refresh_page s)"
proof -
  let ?r = "acc_refresh_page s"
  have act: "acc_findActive (acc_active s) s = active_header s"
    using ok position_header by (cases "active_header s") (auto simp: acc_findActive_def active_matches_def weak_ok_def)
  have fields: "headers ?r = headers s" "active_header ?r = active_header s" "acc_active ?r = acc_active s" "prevShow ?r = prevShow s"
    "folding_now ?r = folding_now s" "acc_icons ?r = acc_icons s" "closing ?r h = closing s h" "is_active ?r h = is_active s h" for h
    by (simp_all add: acc_refresh_page_def createIcons_def act closing_def is_active_def Let_def)
  have h: "h_active (header_at ?r h) = (is_active s h \<or> h_active (header_at s h))"
    "h_collapsed (header_at ?r h) = (\<not> is_active s h \<and> h_collapsed (header_at s h))"
    "c_active (header_at ?r h) = (is_active s h \<or> c_active (header_at s h))"
    "c_shown (header_at ?r h) = is_active s h" "h_expanded (header_at ?r h) = is_active s h"
    "c_hidden (header_at ?r h) = (\<not> is_active s h)"
    "acc_icons s \<longrightarrow> h_icon (header_at ?r h) = Some (is_active s h)"
    if "h \<in> set (headers s)" for h
    using that by (auto simp: acc_refresh_page_def createIcons_def act is_active_def Let_def)
  have "weak_ok ?r"
    using ok(1) agree_cong [of ?r s] by (auto simp: weak_ok_def fold_ok_def fields h)
  moreover have "active_matches ?r"
    using ok(2) position_cong [of ?r s] by (simp add: active_matches_def fields)
  moreover have "header_shown ?r h" if "h \<in> set (headers s)" for h
    using that ok(1) h [OF that] by (auto simp: header_shown_def Let_def fields weak_ok_def fold_ok_def)
  moreover have "tab_stop ?r"
  proof (cases "active_header s")
    case None
    then show ?thesis
      by (cases "headers s") (auto simp: tab_stop_def fields acc_refresh_page_def createIcons_def act eq_header_def Let_def)
  next
    case (Some h)
    then have "h \<in> set (headers s)"
      using ok(2) by (simp add: active_matches_def)
    moreover have "h_index (header_at ?r h) = 0"
      using Some by (simp add: acc_refresh_page_def createIcons_def act Let_def)
    ultimately show ?thesis
      by (auto simp: tab_stop_def fields)
  qed
  ultimately show ?thesis
    by (simp add: acc_inv_def fields)
qed

text \<open>The headers the widget refers to besides the active one.\<close>

definition mentioned :: "accordion \<Rightarrow> nat set" where
  "mentioned s = set_option (prevShow s) \<union>
     (case folding_now s of None \<Rightarrow> {} | Some f \<Rightarrow> set_option (to_show f) \<union> set_option (to_hide f) \<union> set_option (oldHeader (fold_data f)))"

text \<open>
  A new list of headers: new ones are not marked as active and not known to the widget. When the active
  header goes away, the page does not refuse the one before it, and it is still there.
\<close>

definition headers_ok :: "nat list \<Rightarrow> bool \<Rightarrow> accordion \<Rightarrow> bool" where
  "headers_ok hs r s \<longleftrightarrow> distinct hs
     \<and> (\<forall>h \<in> set hs - set (headers s). \<not> h_active (header_at s h) \<and> \<not> c_active (header_at s h) \<and> h \<notin> mentioned s)
     \<and> (set_option (active_header s) \<subseteq> set hs \<or> hs = []
        \<or> \<not> r \<and> (\<forall>i \<in> set_option (acc_active s). max 0 (i - 1) < int (length hs)))"

lemma process_weak:
  assumes "acc_inv s" "headers_ok hs r s"
  shows "weak_ok (processPanels (s\<lparr>dom_headers := hs\<rparr>))"
proof -
  let ?p = "processPanels (s\<lparr>dom_headers := hs\<rparr>)"
  have fields: "headers ?p = hs" "active_header ?p = active_header s" "prevShow ?p = prevShow s" "folding_now ?p = folding_now s"
    "closing ?p h = closing s h" "is_active ?p h = is_active s h"
    "h_active (header_at ?p h) = h_active (header_at s h)" "c_active (header_at ?p h) = c_active (header_at s h)" for h
    by (simp_all add: processPanels_def closing_def is_active_def)
  have col: "h_collapsed (header_at ?p h)" if "h \<in> set hs" for h
    using that by (simp add: processPanels_def)
  have ok: "distinct hs" "weak_ok s" "active_matches s"
    using assms by (simp_all add: headers_ok_def acc_inv_def)
  have strange: "\<not> h_active (header_at s h)" "\<not> c_active (header_at s h)" "h \<notin> mentioned s" "active_header s \<noteq> Some h"
    if "h \<in> set hs" "h \<notin> set (headers s)" for h
    using assms(2) that ok(3) by (auto simp: headers_ok_def active_matches_def)
  have unknown: "\<not> closing s h" "prevShow s \<noteq> Some h" "folding_now s = Some f \<longrightarrow> to_show f \<noteq> Some h \<and> to_hide f \<noteq> Some h \<and> oldHeader (fold_data f) \<noteq> Some h"
    if "h \<in> set hs" "h \<notin> set (headers s)" for h f
    using strange(3) [OF that] by (auto simp: mentioned_def closing_def split: option.splits)
  have agr: "agree ?p a b" if "agree s a b" "\<And>h. h \<in> set hs \<Longrightarrow> h \<notin> set (headers s) \<Longrightarrow> a \<noteq> Some h \<and> b \<noteq> Some h" for a b
    using that by (auto simp: agree_def fields)
  have "prevShow s = None \<or> agree ?p (prevShow s) (active_header s)"
    using ok(2) agr strange(4) unknown(2) by (auto simp: weak_ok_def)
  moreover have "\<forall>f. folding_now s = Some f \<longrightarrow> agree ?p (to_show f) (active_header s) \<and> agree ?p (to_hide f) (oldHeader (fold_data f))"
    using ok(2) agr strange(4) unknown(3) by (auto simp: weak_ok_def fold_ok_def)
  moreover have "(closing s h \<longrightarrow> \<not> is_active s h) \<and> (h_active (header_at s h) \<longrightarrow> is_active s h)
      \<and> (c_active (header_at s h) \<longrightarrow> is_active s h \<or> closing s h)" if "h \<in> set hs" for h
    using ok(2) strange(1,2) [OF that] unknown(1) [OF that] by (cases "h \<in> set (headers s)") (auto simp: weak_ok_def fold_ok_def)
  ultimately show ?thesis
    using ok(1) col by (simp add: weak_ok_def fold_ok_def fields)
qed

lemma weak_set:
  assumes "weak_ok s" "agree s t (active_header s)"
  shows "weak_ok (s\<lparr>acc_active := i, active_header := t\<rparr>)"
  using assms by (auto simp: weak_ok_def fold_ok_def agree_def closing_def is_active_def)

lemma icons_gone: "weak_ok s \<Longrightarrow> weak_ok (destroyIcons s)" "active_matches s \<Longrightarrow> active_matches (destroyIcons s)"
  using position_cong [of "destroyIcons s" s]
  by (auto simp: destroyIcons_def weak_ok_def fold_ok_def agree_def active_matches_def)

lemma moved_ok:
  assumes "weak_ok s" "h \<in> set (headers s)" "active_header s \<noteq> Some h"
  shows "weak_ok (moved_to (Some (header_position (Some h) s)) (Some h) s)" "active_matches (moved_to (Some (header_position (Some h) s)) (Some h) s)"
  using assms weak_moved [of s "Some h"] by (auto simp: active_matches_def position_cong [of "moved_to _ _ s" s])

lemma acc_refresh_ok:
  assumes ok: "weak_ok s" and dom: "dom_headers s = headers s"
    and act: "acc_active s = None \<longleftrightarrow> active_header s = None"
    and gone: "set_option (active_header s) \<subseteq> set (headers s) \<or> headers s = []
      \<or> \<not> r \<and> (\<forall>i. acc_active s = Some i \<longrightarrow> max 0 (i - 1) < int (length (headers s)))"
  shows "weak_ok (acc_refresh_active r s) \<and> active_matches (acc_refresh_active r s)"
proof -
  have off: "weak_ok (s\<lparr>acc_active := None, active_header := None\<rparr>)" if "set_option (active_header s) \<inter> set (headers s) = {}"
    using that by (intro weak_set [OF ok]) (auto simp: agree_def)
  have off': "active_matches (s\<lparr>acc_active := None, active_header := None\<rparr>)"
    by (simp add: active_matches_def)
  show ?thesis
  proof (cases "active_header s")
    case None
    have "weak_ok (acc_activate r (Some 0) s) \<and> active_matches (acc_activate r (Some 0) s)" if "headers s \<noteq> []"
    proof -
      have hd: "eq_header 0 s = Some (hd (headers s))"
        using that by (cases "headers s") (simp_all add: eq_header_def)
      have "active_matches s"
        using None act by (simp add: active_matches_def)
      then show ?thesis
        using None ok hd moved_ok [OF ok eq_header_member [OF hd]]
        by (simp add: acc_activate_def acc_findActive_def handler_moves Let_def)
    qed
    then show ?thesis
      using None act off off' by (auto simp: acc_refresh_active_def)
  next
    case (Some h)
    then obtain i where i: "acc_active s = Some i"
      using act by auto
    show ?thesis
    proof (cases "h \<in> set (headers s)")
      case True
      have "acc_refresh_active r s = s\<lparr>acc_active := Some (header_position (Some h) s)\<rparr>"
        using True Some i dom by (auto simp: acc_refresh_active_def)
      also have "\<dots> = s\<lparr>acc_active := Some (header_position (Some h) s), active_header := Some h\<rparr>"
        using Some by simp
      finally have "acc_refresh_active r s = s\<lparr>acc_active := Some (header_position (Some h) s), active_header := Some h\<rparr>" .
      moreover have "weak_ok (s\<lparr>acc_active := Some (header_position (Some h) s), active_header := Some h\<rparr>)"
        using Some by (intro weak_set [OF ok]) (simp add: agree_def)
      moreover have "active_matches (s\<lparr>acc_active := Some (header_position (Some h) s), active_header := Some h\<rparr>)"
        using True position_cong [of "s\<lparr>acc_active := Some (header_position (Some h) s), active_header := Some h\<rparr>" s]
        by (simp add: active_matches_def)
      ultimately show ?thesis
        by simp
    next
      case False
      have "weak_ok (acc_activate r (Some (max 0 (i - 1))) s) \<and> active_matches (acc_activate r (Some (max 0 (i - 1))) s)" if "headers s \<noteq> []"
      proof -
        have free: "\<not> r" "max 0 (i - 1) < int (length (headers s))"
          using gone that Some False i by auto
        then obtain g where g: "eq_header (max 0 (i - 1)) s = Some g"
          by (simp add: eq_header_def)
        then have "g \<in> set (headers s)" "g \<noteq> h"
          using eq_header_member False by auto
        then show ?thesis
          using Some free(1) g moved_ok [OF ok, of g] by (simp add: acc_activate_def acc_findActive_def handler_moves Let_def)
      qed
      then show ?thesis
        using False Some i dom off off' by (auto simp: acc_refresh_active_def)
    qed
  qed
qed

lemma inv_new_headers:
  assumes inv: "acc_inv s" and ok: "headers_ok hs r s"
  shows "acc_inv (acc_refresh r (s\<lparr>dom_headers := hs\<rparr>))"
proof -
  let ?p = "processPanels (s\<lparr>dom_headers := hs\<rparr>)"
  have fields: "headers ?p = hs" "dom_headers ?p = hs" "active_header ?p = active_header s" "acc_active ?p = acc_active s"
    by (simp_all add: processPanels_def)
  have "acc_active s = None \<longleftrightarrow> active_header s = None"
    using inv by (auto simp: acc_inv_def active_matches_def)
  then have "weak_ok (acc_refresh_active r ?p) \<and> active_matches (acc_refresh_active r ?p)"
    using ok by (intro acc_refresh_ok [OF process_weak [OF inv ok]]) (auto simp: fields headers_ok_def)
  then show ?thesis
    by (simp add: acc_refresh_def acc_page_inv icons_gone)
qed

section \<open>Runs\<close>

fun acc_legal :: "acc_input \<Rightarrow> accordion \<Rightarrow> bool" where
  "acc_legal (HeaderClick h r) s = (h \<in> set (headers s))"
| "acc_legal (HeaderKey h k r) s = (h \<in> set (headers s))"
| "acc_legal (NewHeaders hs r) s = headers_ok hs r s"
| "acc_legal _ s = True"

interpretation folds: invariant_system acc_step acc_legal acc_inv
proof
  fix s :: accordion and e :: acc_input
  assume "acc_inv s" "acc_legal e s"
  then show "acc_inv (acc_step e s)"
    by (cases e) (simp_all add: inv_acc_handler inv_keydown inv_fields inv_acc_option inv_folding_end inv_new_headers)
qed

text \<open>A page before the widget: some headers, none of them marked, and an option \<open>active\<close> that names one of them.\<close>

definition acc_fresh :: "accordion \<Rightarrow> bool" where
  "acc_fresh s \<longleftrightarrow> dom_headers s \<noteq> [] \<and> distinct (dom_headers s) \<and> folding_now s = None
     \<and> (\<forall>h \<in> set (dom_headers s). \<not> h_active (header_at s h) \<and> \<not> c_active (header_at s h))
     \<and> (\<forall>i. acc_active s = Some i \<longrightarrow> - int (length (dom_headers s)) \<le> i \<and> i < int (length (dom_headers s)))"

lemma eq_header_position: "distinct (headers s) \<Longrightarrow> eq_header i s = Some h \<Longrightarrow> 0 \<le> i \<Longrightarrow> header_position (Some h) s = i"
proof -
  assume d: "distinct (headers s)" and eq: "eq_header i s = Some h" "0 \<le> i"
  then have h: "i < int (length (headers s))" "h = headers s ! nat i"
    by (auto simp: eq_header_def Let_def split: if_splits)
  obtain j where j: "index_of h (headers s) = Some j"
    using eq_header_member [OF eq(1)] index_of_Some_ex by fast
  then have "j < length (headers s)" "headers s ! j = h"
    using index_of_Some [OF j] by simp_all
  then have "j = nat i"
    using d h eq(2) by (simp add: nth_eq_iff_index_eq nat_less_iff)
  then show ?thesis
    using j eq(2) by (simp add: header_position_def)
qed

lemma page_active: "acc_refresh_page (s\<lparr>active_header := t\<rparr>) = acc_refresh_page s"
proof -
  have eq: "eq_header i (s\<lparr>active_header := t\<rparr>) = eq_header i s" for i
    by (simp add: eq_header_def Let_def)
  have "acc_findActive i (s\<lparr>active_header := t\<rparr>) = acc_findActive i s" for i
    by (cases i) (simp_all add: acc_findActive_def eq)
  then show ?thesis
    by (simp add: acc_refresh_page_def eq Let_def)
qed

lemma acc_create_inv:
  assumes "acc_fresh s"
  shows "acc_inv (acc_create s)"
proof -
  let ?p = "processPanels (s\<lparr>prevShow := None, prevHide := None\<rparr>)"
  let ?a = "if \<not> acc_collapsible s \<and> acc_active s = None then Some 0 else acc_active s"
  define a where "a = map_option (\<lambda>i. if i < 0 then i + int (length (headers ?p)) else i) ?a"
  let ?s = "?p\<lparr>acc_active := a, active_header := acc_findActive a ?p\<rparr>"
  have fields: "headers ?p = dom_headers s" "prevShow ?p = None" "folding_now ?p = None"
    using assms by (simp_all add: processPanels_def acc_fresh_def)
  have h: "h_collapsed (header_at ?p h) \<and> \<not> h_active (header_at ?p h) \<and> \<not> c_active (header_at ?p h)" if "h \<in> set (dom_headers s)" for h
    using assms that by (simp add: processPanels_def acc_fresh_def)
  have "weak_ok ?s"
    using assms h by (simp add: weak_ok_def fold_ok_def fields closing_def acc_fresh_def)
  moreover have "active_matches ?s"
  proof (cases a)
    case (Some i)
    then have i: "0 \<le> i" "i < int (length (headers ?p))"
      using assms by (auto simp: a_def acc_fresh_def fields split: if_splits)
    then obtain g where g: "eq_header i ?p = Some g"
      by (simp add: eq_header_def)
    then show ?thesis
      using Some i(1) eq_header_member [OF g] eq_header_position [OF _ g i(1)] assms position_cong [of ?s ?p]
      by (simp add: active_matches_def acc_findActive_def fields acc_fresh_def)
  qed (simp add: active_matches_def acc_findActive_def)
  ultimately have "acc_inv (acc_refresh_page ?s)"
    by (rule acc_page_inv)
  moreover have "acc_refresh_page ?s = acc_refresh_page (?p\<lparr>acc_active := a\<rparr>)"
    using page_active [where s = "?p\<lparr>acc_active := a\<rparr>"] by simp
  ultimately show ?thesis
    by (simp add: acc_create_def a_def Let_def)
qed

section \<open>Properties\<close>

text \<open>
  C17. An accordion agrees with its panels. After any clicks and keys on its headers, options, animations and
  new lists of headers as \<open>headers_ok\<close> allows them (when the active header goes away, the one before it is still
  there and the page lets it be activated), \<open>options.active\<close> is the position of the active header; exactly this header is expanded and has
  the class and the icon of an active one; when no animation runs, exactly its panel is displayed; and
  some header is in the tab order.
\<close>

theorem accordion_consistent:
  assumes "acc_fresh s" "legal acc_step acc_legal es (acc_create s)"
  shows "let t = fold acc_step es (acc_create s) in
     acc_active t = map_option (\<lambda>h. header_position (Some h) t) (active_header t)
     \<and> (\<forall>h \<in> set (headers t). let x = header_at t h; b = (active_header t = Some h) in
          h_expanded x = b \<and> c_hidden x = (\<not> b) \<and> h_active x = b \<and> (acc_icons t \<longrightarrow> h_icon x = Some b)
          \<and> (folding_now t = None \<longrightarrow> c_shown x = b))
     \<and> (headers t \<noteq> [] \<longrightarrow> (\<exists>h \<in> set (headers t). h_index (header_at t h) = 0))"
proof -
  have "acc_inv (fold acc_step es (acc_create s))"
    by (rule folds.run_inv [OF acc_create_inv [OF assms(1)] assms(2)])
  then show ?thesis
    by (auto simp: acc_inv_def active_matches_def header_shown_def tab_stop_def is_active_def Let_def)
qed

text \<open>
  C34. An animation does not lose an activation: a header that is clicked, while panels are still moving or
  not, is the open one after the animation, and the panel of the header before it is closed.
\<close>

theorem last_click_wins:
  assumes "acc_inv s" "h \<in> set (headers s)" "active_header s \<noteq> Some h" "\<not> acc_disabled s" "k \<in> set (headers s)"
  shows "c_shown (header_at (acc_step FoldingEnd (acc_step (HeaderClick h False) s)) k) = (k = h)
     \<and> h_collapsed (header_at (acc_step FoldingEnd (acc_step (HeaderClick h False) s)) k) = (k \<noteq> h)"
proof -
  let ?m = "moved_to (Some (header_position (Some h) s)) (Some h) s"
  have m: "acc_step FoldingEnd (acc_step (HeaderClick h False) s) = folding_end ?m"
    using assms(3,4) by (simp add: handler_moves)
  have inv: "acc_inv (folding_end ?m)"
    using inv_folding_end [OF inv_moved [OF assms(1), of "Some h"]] assms(2,3) by simp
  then have "header_shown (folding_end ?m) k" "fold_ok (folding_end ?m)"
    using assms(5) by (simp_all add: acc_inv_def weak_ok_def)
  then show ?thesis
    using assms(5) unfolding m by (auto simp: header_shown_def fold_ok_def is_active_def Let_def)
qed

section \<open>Examples\<close>

definition plain_header :: header where
  "plain_header = \<lparr>h_active = False, h_collapsed = False, h_selected = False, h_expanded = False, h_index = 0, h_icon = None,
     h_marks = 0, c_active = False, c_shown = True, c_hidden = False\<rparr>"

definition demo_accordion :: "int \<Rightarrow> nat list \<Rightarrow> accordion" where
  "demo_accordion i hs =
     \<lparr>dom_headers = hs, headers = [], header_at = (\<lambda>h. plain_header\<lparr>h_marks := (if h = 9 then 1 else 0)\<rparr>), acc_active = Some i,
      acc_collapsible = False, acc_animate = True, acc_icons = True, acc_disabled = False, active_header = None, prevShow = None,
      prevHide = None, folding_now = None, focus_header = None, acc_log = []\<rparr>"

definition acc_inputs :: "acc_input list" where
  "acc_inputs =
     [HeaderClick 2 False, HeaderClick 3 False, FoldingEnd, SetAccOption (AccCollapsible True) False, HeaderKey 3 AccEnter False,
      HeaderClick 1 False, NewHeaders [3, 4, 2] False, FoldingEnd]"

lemma demo_acc_fresh: "acc_fresh (demo_accordion 0 [1, 2, 3])"
  by (simp add: acc_fresh_def demo_accordion_def plain_header_def)

theorem accordion_consistent_witness:
  "acc_fresh (demo_accordion 0 [1, 2, 3]) \<and> legal acc_step acc_legal acc_inputs (acc_create (demo_accordion 0 [1, 2, 3]))
     \<and> (let t = fold acc_step acc_inputs (acc_create (demo_accordion 0 [1, 2, 3])) in
          acc_active t = map_option (\<lambda>h. header_position (Some h) t) (active_header t))"
proof -
  have "legal acc_step acc_legal acc_inputs (acc_create (demo_accordion 0 [1, 2, 3]))"
    by code_simp
  then show ?thesis
    using accordion_consistent [OF demo_acc_fresh] demo_acc_fresh by (simp add: Let_def)
qed

theorem last_click_wins_witness:
  "acc_inv (acc_step (HeaderClick 2 False) (acc_create (demo_accordion 0 [1, 2, 3])))
     \<and> c_shown (header_at (acc_step FoldingEnd (acc_step (HeaderClick 3 False)
          (acc_step (HeaderClick 2 False) (acc_create (demo_accordion 0 [1, 2, 3]))))) 3)"
proof -
  let ?s = "acc_step (HeaderClick 2 False) (acc_create (demo_accordion 0 [1, 2, 3]))"
  have "acc_legal (HeaderClick 2 False) (acc_create (demo_accordion 0 [1, 2, 3]))"
    by code_simp
  then have inv: "acc_inv ?s"
    by (rule folds.inv_step [OF acc_create_inv [OF demo_acc_fresh]])
  have "3 \<in> set (headers ?s)" "active_header ?s \<noteq> Some 3" "\<not> acc_disabled ?s"
    by code_simp+
  then show ?thesis
    using inv last_click_wins [OF inv, of 3 3] by simp
qed

section \<open>Defects\<close>

text \<open>
  An option \<open>active\<close> that names no header opens nothing, although the accordion is not collapsible, and stays;
  \<open>refresh\<close> then takes the position of the missing header, \<open>-1\<close>, for the last one and opens it.
\<close>

theorem refresh_opens_last:
  "active_header (acc_create (demo_accordion 7 [1, 2, 3])) = None
   \<and> active_header (acc_refresh False (acc_create (demo_accordion 7 [1, 2, 3]))) = Some 3"
  by code_simp

text \<open>
  When the active header and the one before it are removed, \<open>refresh\<close> looks for a header that does not exist.
  Nothing is open then, and \<open>options.active\<close> keeps its old value.
\<close>

theorem removal_leaves_nothing:
  "let s = acc_step (NewHeaders [1, 2] False) (acc_create (demo_accordion 4 [1, 2, 3, 4, 5]))
   in active_header s = None \<and> acc_active s = Some 4 \<and> \<not> acc_collapsible s"
  by code_simp

text \<open>The test whether all headers are disabled counts disabled elements inside of headers: a single one leaves nothing open.\<close>

theorem marks_inside_count:
  "let s = acc_step (NewHeaders [9] False) (acc_create (demo_accordion 0 [1, 9]))
   in active_header s = None \<and> \<not> acc_collapsible s"
  by code_simp

text \<open>A click after a key leaves two headers in the tab order.\<close>

theorem two_tab_stops:
  "let s = fold acc_step [HeaderKey 1 AccRight False, HeaderClick 3 False, FoldingEnd] (acc_create (demo_accordion 0 [1, 2, 3]))
   in map (\<lambda>h. h_index (header_at s h)) (headers s) = [-1, 0, 0]"
  by code_simp

end
