(* ===== verification/JQ_Sizzle.thy ===== *)
theory JQ_Sizzle
  imports JQ_Words JsRegExp
begin

text \<open>
  The selector engine of jQuery (Sizzle), from tokens to matching elements: the filters of simple
  selectors, the combinators with their cache of results on the nodes, the matcher that is compiled
  from the tokens of a selector, and the loop over candidate elements. A document is a tree; a node of
  it is referred to by its position in its parent, followed by the reference of the parent, so the
  properties \<open>parentNode\<close> and \<open>previousSibling\<close> are read off the reference. Pseudo-classes other than the child
  filters are a table of predicates, as in the source, where users may extend it.
\<close>

section \<open>Documents\<close>

datatype dom_node = Node (nodeType: nat) (nodeName: string) (attributes: "(string \<times> string) list") (nodeValue: string) (childNodes: "dom_node list")

type_synonym ref = "nat list"

fun node_at :: "dom_node \<Rightarrow> ref \<Rightarrow> dom_node option" where
  "node_at d [] = Some d"
| "node_at d (i # p) =
     (case node_at d p of None \<Rightarrow> None
      | Some n \<Rightarrow> if i < length (childNodes n) then Some (childNodes n ! i) else None)"

definition is_element :: "dom_node \<Rightarrow> ref \<Rightarrow> bool" where
  "is_element d r = (case node_at d r of None \<Rightarrow> False | Some n \<Rightarrow> nodeType n = 1)"

definition node_name :: "dom_node \<Rightarrow> ref \<Rightarrow> string" where
  "node_name d r = (case node_at d r of None \<Rightarrow> [] | Some n \<Rightarrow> to_lower (nodeName n))"

definition getAttribute :: "dom_node \<Rightarrow> string \<Rightarrow> ref \<Rightarrow> string option" where
  "getAttribute d name r = Option.bind (node_at d r) (\<lambda>n. assoc (to_lower name) (attributes n))"

text \<open>The nodes that the loops \<open>while ( ( elem = elem[ dir ] ) )\<close> visit.\<close>

fun ancestors :: "ref \<Rightarrow> ref list" where
  "ancestors [] = []"
| "ancestors (i # p) = p # ancestors p"

fun preceding :: "ref \<Rightarrow> ref list" where
  "preceding [] = []"
| "preceding (0 # p) = []"
| "preceding (Suc i # p) = (i # p) # preceding (i # p)"

definition siblings_of :: "dom_node \<Rightarrow> ref \<Rightarrow> ref list" where
  "siblings_of d p = (case node_at d p of None \<Rightarrow> [] | Some n \<Rightarrow> map (\<lambda>i. i # p) [0..<length (childNodes n)])"

definition following :: "dom_node \<Rightarrow> ref \<Rightarrow> ref list" where
  "following d r = (case r of [] \<Rightarrow> [] | i # p \<Rightarrow> drop (Suc i) (siblings_of d p))"

section \<open>Escapes\<close>

text \<open>\<open>replace( runescape, funescape )\<close>; characters above 255 are outside of the model of texts.\<close>

definition css_hex :: "char \<Rightarrow> nat option" where
  "css_hex c = (let n = of_char c :: nat in
     if 48 \<le> n \<and> n \<le> 57 then Some (n - 48) else if 97 \<le> n \<and> n \<le> 102 then Some (n - 87)
     else if 65 \<le> n \<and> n \<le> 70 then Some (n - 55) else None)"

fun hex_prefix :: "nat \<Rightarrow> nat \<Rightarrow> string \<Rightarrow> nat \<times> string" where
  "hex_prefix 0 v s = (v, s)"
| "hex_prefix (Suc k) v [] = (v, [])"
| "hex_prefix (Suc k) v (c # s) = (case css_hex c of None \<Rightarrow> (v, c # s) | Some h \<Rightarrow> hex_prefix k (16 * v + h) s)"

definition skip_white :: "string \<Rightarrow> string" where
  "skip_white s = (case s of [] \<Rightarrow> [] | c # t \<Rightarrow> if html_white c then t else s)"

lemma hex_prefix_length: "length (snd (hex_prefix k v s)) \<le> length s"
  by (induction k v s rule: hex_prefix.induct) (auto split: option.split)

lemma skip_white_length: "length (skip_white s) \<le> length s"
  by (auto simp: skip_white_def split: list.split)

definition css_backslash :: char where
  "css_backslash = CHR 0x5C"

text \<open>
  \<open>funescape\<close>.  The characters of the model are those with codes below 256: an escape of a higher code
  point, for which the code produces a character or a surrogate pair outside this range, is outside
  the model (it is read modulo 256 here).
\<close>

function css_unescape :: "string \<Rightarrow> string" where
  "css_unescape [] = []"
| "css_unescape (c # s) =
     (if c \<noteq> css_backslash then c # css_unescape s
      else case s of
             [] \<Rightarrow> [c]
           | x # t \<Rightarrow>
               if css_hex x \<noteq> None
               then char_of (fst (hex_prefix 5 (the (css_hex x)) t)) # css_unescape (skip_white (snd (hex_prefix 5 (the (css_hex x)) t)))
               else if x \<in> {CHR 0x0D, CHR 0x0A, CHR 0x0C} then c # css_unescape s
               else x # css_unescape t)"
  by pat_completeness auto
termination
  by (relation "measure length")
    (auto simp: less_Suc_eq_le intro!: le_SucI [OF le_trans [OF skip_white_length hex_prefix_length]])

text \<open>
  \<open>Sizzle.escape\<close>: \<open>replace( rcssescape, fcssescape )\<close>. The replacement character that stands for the null character
  is not among the characters of the model and an argument.
\<close>

definition hex_char :: "nat \<Rightarrow> char" where
  "hex_char d = (if d < 10 then char_of (48 + d) else char_of (87 + d))"

definition code_escape :: "char \<Rightarrow> string" where
  "code_escape c = (let n = of_char c :: nat in
     css_backslash # (if n < 16 then [hex_char n] else [hex_char (n div 16), hex_char (n mod 16)]) @ '' '')"

definition is_control :: "char \<Rightarrow> bool" where
  "is_control c \<longleftrightarrow> (of_char c :: nat) < 32 \<or> c = CHR 0x7F"

definition css_special :: "char \<Rightarrow> bool" where
  "css_special c \<longleftrightarrow> 32 \<le> (of_char c :: nat) \<and> (of_char c :: nat) < 127 \<and> \<not> is_word c \<and> c \<noteq> CHR ''-''"

definition escape_char :: "char \<Rightarrow> char \<Rightarrow> string" where
  "escape_char repl c = (if c = CHR 0x00 then [repl] else if is_control c then code_escape c else if css_special c then [css_backslash, c] else [c])"

fun css_escape :: "char \<Rightarrow> string \<Rightarrow> string" where
  "css_escape repl [] = []"
| "css_escape repl [c] = (if is_digit c then code_escape c else if c = CHR ''-'' then [css_backslash, c] else escape_char repl c)"
| "css_escape repl (c # x # s) =
     (if is_digit c then code_escape c @ concat (map (escape_char repl) (x # s))
      else if c = CHR ''-'' \<and> is_digit x then c # code_escape x @ concat (map (escape_char repl) s)
      else escape_char repl c @ concat (map (escape_char repl) (x # s)))"

section \<open>Filters\<close>

datatype attr_op = Exists | Equal | NotEqual | Prefix | Contains | Suffix | Word | Dash

datatype child_type = First | Last | Only | Nth | NthLast

datatype sfilter =
    TAG string
  | CLASS string
  | ATTR string attr_op string
  | CHILD child_type bool int int      \<comment> \<open>\<open>of-type\<close>, then the numbers of \<open>an+b\<close>\<close>
  | PSEUDO string string
  | ID string

definition tag_filter :: "dom_node \<Rightarrow> string \<Rightarrow> ref \<Rightarrow> bool" where
  "tag_filter d name r \<longleftrightarrow> name = ''*'' \<or> node_name d r = to_lower (css_unescape name)"

text \<open>The pattern of a class is built with the name as it is written.\<close>

definition white_re :: re where
  "white_re = Cls False (map (\<lambda>c. (c, c)) [CHR '' '', CHR 0x09, CHR 0x0D, CHR 0x0A, CHR 0x0C])"

definition class_filter :: "dom_node \<Rightarrow> string \<Rightarrow> ref \<Rightarrow> bool" where
  "class_filter d name r =
     (case RegExp name of Inl _ \<Rightarrow> False
      | Inr p \<Rightarrow> re_test False (Seq (Alt Bol white_re) (Seq p (Alt white_re Eol)))
                  (case getAttribute d ''class'' r of None \<Rightarrow> [] | Some c \<Rightarrow> c))"

fun squeeze_acc :: "bool \<Rightarrow> string \<Rightarrow> string" where
  "squeeze_acc w [] = []"
| "squeeze_acc w (c # s) =
     (if \<not> html_white c then c # squeeze_acc False s else if w then squeeze_acc True s else CHR '' '' # squeeze_acc True s)"

definition squeeze_white :: "string \<Rightarrow> string" where
  "squeeze_white = squeeze_acc False"

text \<open>
  \<open>Sizzle.attr\<close> in an HTML document: the handles jQuery installs for the boolean attributes answer
  with the name of the attribute when it is there, whatever its value.  (In an XML document there
  are no handles and names are case sensitive; attributes are read as in HTML here.)
\<close>

definition booleans :: "string list" where
  "booleans = [''checked'', ''selected'', ''async'', ''autofocus'', ''autoplay'', ''controls'', ''defer'', ''disabled'',
     ''hidden'', ''ismap'', ''loop'', ''multiple'', ''open'', ''readonly'', ''required'', ''scoped'']"

definition Sizzle_attr :: "dom_node \<Rightarrow> string \<Rightarrow> ref \<Rightarrow> string option" where
  "Sizzle_attr d name r =
     (if to_lower name \<in> set booleans then map_option (\<lambda>_. to_lower name) (getAttribute d name r)
      else getAttribute d name r)"

definition attr_test :: "attr_op \<Rightarrow> string \<Rightarrow> string option \<Rightarrow> bool" where
  "attr_test op check res =
     (case res of None \<Rightarrow> op = NotEqual
      | Some v \<Rightarrow>
          (case op of
             Exists \<Rightarrow> True
           | Equal \<Rightarrow> v = check
           | NotEqual \<Rightarrow> v \<noteq> check
           | Prefix \<Rightarrow> check \<noteq> [] \<and> index_of_text check v = Some 0
           | Contains \<Rightarrow> check \<noteq> [] \<and> index_of_text check v \<noteq> None
           | Suffix \<Rightarrow> check \<noteq> [] \<and> drop (length v - length check) v = check
           | Word \<Rightarrow> index_of_text check ('' '' @ squeeze_white v @ '' '') \<noteq> None
           | Dash \<Rightarrow> v = check \<or> take (length check + 1) v = check @ ''-''))"

definition js_rem :: "int \<Rightarrow> int \<Rightarrow> int option" where
  "js_rem a b = (if b = 0 then None else Some (sgn a * (\<bar>a\<bar> mod \<bar>b\<bar>)))"

text \<open>The test of \<open>an+b\<close> with the remainder of JavaScript, which is not a number for the divisor zero.\<close>

definition cycle_test :: "int \<Rightarrow> int \<Rightarrow> int \<Rightarrow> bool" where
  "cycle_test a b index =
     (let diff = index - b
      in diff = a \<or> js_rem diff a = Some 0 \<and> (diff = 0 \<or> sgn diff = sgn a))"

definition counts :: "dom_node \<Rightarrow> bool \<Rightarrow> ref \<Rightarrow> ref \<Rightarrow> bool" where
  "counts d oftype r x = (if oftype then node_name d x = node_name d r else is_element d x)"

definition id_filter :: "dom_node \<Rightarrow> string \<Rightarrow> ref \<Rightarrow> bool" where
  "id_filter d name r \<longleftrightarrow> getAttribute d ''id'' r = Some (css_unescape name)"

section \<open>Preparation of tokens\<close>

text \<open>\<open>preFilter.ATTR\<close>: the name and the value are read with their escapes, words are looked for between blanks.\<close>

definition preFilter_ATTR :: "string \<Rightarrow> attr_op \<Rightarrow> string \<Rightarrow> sfilter" where
  "preFilter_ATTR name op v =
     (let w = css_unescape v in ATTR (css_unescape name) op (if op = Word then '' '' @ w @ '' '' else w))"

text \<open>
  \<open>preFilter.CHILD\<close> on the captures of its pattern: the argument, the sign and the digits of \<open>xn\<close>, and the sign and the
  digits of \<open>y\<close>. The error has the text of the selector.
\<close>

definition signed_number :: "string \<Rightarrow> string \<Rightarrow> int" where
  "signed_number sign ds = (if sign = ''-'' then - int (digits_val ds) else int (digits_val ds))"

definition child_numbers :: "string \<Rightarrow> (string \<times> string) option \<Rightarrow> (string \<times> string) option \<Rightarrow> int \<times> int" where
  "child_numbers arg xn y =
     ((case xn of Some (sign, ds) \<Rightarrow> signed_number sign (if ds = [] then ''1'' else ds) | None \<Rightarrow> if arg = ''even'' \<or> arg = ''odd'' then 2 else 0),
      (case y of Some (sign, ds) \<Rightarrow> signed_number sign ds | None \<Rightarrow> if arg = ''odd'' then 1 else 0))"

definition preFilter_CHILD ::
  "string \<Rightarrow> child_type \<Rightarrow> string \<Rightarrow> string \<Rightarrow> (string \<times> string) option \<Rightarrow> (string \<times> string) option \<Rightarrow> string + sfilter" where
  "preFilter_CHILD text ty what arg xn y =
     (if ty = Nth \<or> ty = NthLast
      then (if arg = [] then Inl (''Syntax error, unrecognized expression: '' @ text)
            else case child_numbers arg xn y of (a, b) \<Rightarrow> Inr (CHILD ty (what = ''of-type'') a b))
      else if arg \<noteq> [] then Inl (''Syntax error, unrecognized expression: '' @ text)
      else Inr (CHILD ty (what = ''of-type'') 0 0))"

section \<open>Positional filters\<close>

text \<open>The indices that a positional pseudo-class chooses, in the order of the source, and their transfer from the seed to the matches.\<close>

datatype seed_position = PFirst | PLast | PEq int | PEven | POdd | PLt int | PGt int

definition positions :: "seed_position \<Rightarrow> int \<Rightarrow> int list" where
  "positions p n =
     (case p of
        PFirst \<Rightarrow> [0]
      | PLast \<Rightarrow> [n - 1]
      | PEq a \<Rightarrow> [if a < 0 then a + n else a]
      | PEven \<Rightarrow> filter (\<lambda>i. i mod 2 = 0) [0..n - 1]
      | POdd \<Rightarrow> filter (\<lambda>i. i mod 2 = 1) [0..n - 1]
      | PLt a \<Rightarrow> rev [0..(if a < 0 then a + n else if a > n then n else a) - 1]
      | PGt a \<Rightarrow> [(if a < 0 then a + n else a) + 1..n - 1])"

definition take_position :: "int \<Rightarrow> ref option list \<times> ref option list \<Rightarrow> ref option list \<times> ref option list" where
  "take_position j sm =
     (case sm of (seed, matches) \<Rightarrow>
        if 0 \<le> j \<and> j < int (length seed) \<and> seed ! nat j \<noteq> None
        then (seed[nat j := None], matches[nat j := seed ! nat j])
        else (seed, matches))"

definition createPositionalPseudo :: "seed_position \<Rightarrow> ref option list \<Rightarrow> ref option list \<times> ref option list" where
  "createPositionalPseudo p seed = foldr take_position (positions p (int (length seed))) (seed, replicate (length seed) None)"

section \<open>Combinators\<close>

text \<open>
  Results of combinators are kept on the nodes: a node has one slot for each direction, and a slot refers
  to an array \<open>[ dirruns, doneName, result ]\<close>. The array is shared by all nodes that one search has
  visited, so a late result reaches all of them; the model has the arrays as cells with addresses.
\<close>

datatype comb_direction = Up | Back

record cell =
  cell_run :: nat
  cell_name :: nat
  cell_value :: bool

record sizzle =
  slot :: "ref \<times> comb_direction \<Rightarrow> nat option"
  cells :: "nat \<Rightarrow> cell"
  next_cell :: nat
  dirruns :: nat
  nth_at :: "ref \<Rightarrow> (nat \<times> nat \<times> nat) option"      \<comment> \<open>on a parent: run, index of a child, number of elements up to it\<close>
  last_at :: "ref \<Rightarrow> (nat \<times> nat) option"      \<comment> \<open>on a child: run, number of elements from it to the end\<close>

definition no_results :: sizzle where
  "no_results = \<lparr>slot = (\<lambda>_. None), cells = (\<lambda>_. \<lparr>cell_run = 0, cell_name = 0, cell_value = False\<rparr>), next_cell = 0, dirruns = 0,
     nth_at = (\<lambda>_. None), last_at = (\<lambda>_. None)\<rparr>"

datatype combinator = Child | Descendant | Adjacent | Sibling

fun comb_dir :: "combinator \<Rightarrow> comb_direction" where
  "comb_dir Child = Up" | "comb_dir Descendant = Up" | "comb_dir Adjacent = Back" | "comb_dir Sibling = Back"

definition comb_first :: "combinator \<Rightarrow> bool" where
  "comb_first c \<longleftrightarrow> c \<in> {Child, Adjacent}"

fun walk_along :: "comb_direction \<Rightarrow> ref \<Rightarrow> ref list" where
  "walk_along Up r = ancestors r"
| "walk_along Back r = preceding r"

type_synonym matcher = "ref \<Rightarrow> sizzle \<Rightarrow> bool \<times> sizzle"

definition pure_matcher :: "(ref \<Rightarrow> bool) \<Rightarrow> matcher" where
  "pure_matcher P r s = (P r, s)"

text \<open>
  The child filters. \<open>seek\<close> looks for the element in a list of nodes and counts; \<open>:nth-child\<close> continues at the
  child that was found last under the same parent, \<open>:nth-last-child\<close> writes the number on every element it passes.
\<close>

fun seek :: "(ref \<Rightarrow> bool) \<Rightarrow> ref \<Rightarrow> ref list \<Rightarrow> nat \<Rightarrow> nat \<Rightarrow> (nat \<times> nat) option" where
  "seek P r [] i n = None"
| "seek P r (x # xs) i n =
     (if P x then (if x = r then Some (i, Suc n) else seek P r xs (Suc i) (Suc n)) else seek P r xs (Suc i) n)"

definition resume_seek :: "dom_node \<Rightarrow> ref \<Rightarrow> ref \<Rightarrow> sizzle \<Rightarrow> (nat \<times> nat) option" where
  "resume_seek d p r s =
     (case nth_at s p of None \<Rightarrow> None
      | Some (run, i, n) \<Rightarrow>
          if run = dirruns s \<and> i \<noteq> 0 then seek (is_element d) r (drop (Suc i) (siblings_of d p)) (Suc i) n else None)"

definition nth_index :: "dom_node \<Rightarrow> ref \<Rightarrow> ref \<Rightarrow> sizzle \<Rightarrow> nat \<times> sizzle" where
  "nth_index d p r s =
     (case (case resume_seek d p r s of None \<Rightarrow> seek (is_element d) r (siblings_of d p) 0 0 | Some f \<Rightarrow> Some f) of
        None \<Rightarrow> (0, s)
      | Some (i, n) \<Rightarrow> (n, s\<lparr>nth_at := (nth_at s)(p \<mapsto> (dirruns s, i, n))\<rparr>))"

fun count_back :: "dom_node \<Rightarrow> ref \<Rightarrow> ref list \<Rightarrow> nat \<Rightarrow> sizzle \<Rightarrow> nat \<times> sizzle" where
  "count_back d r [] n s = (0, s)"
| "count_back d r (x # xs) n s =
     (if is_element d x
      then let s1 = s\<lparr>last_at := (last_at s)(x \<mapsto> (dirruns s, Suc n))\<rparr>
           in if x = r then (Suc n, s1) else count_back d r xs (Suc n) s1
      else count_back d r xs n s)"

definition last_index :: "dom_node \<Rightarrow> ref \<Rightarrow> ref \<Rightarrow> sizzle \<Rightarrow> nat \<times> sizzle" where
  "last_index d p r s =
     (case last_at s r of
        Some (run, n) \<Rightarrow> if run = dirruns s then (n, s) else count_back d r (rev (siblings_of d p)) 0 s
      | None \<Rightarrow> count_back d r (rev (siblings_of d p)) 0 s)"

definition found_count :: "(nat \<times> nat) option \<Rightarrow> nat" where
  "found_count f = (case f of None \<Rightarrow> 0 | Some (i, n) \<Rightarrow> n)"

definition child_index :: "bool \<Rightarrow> dom_node \<Rightarrow> bool \<Rightarrow> bool \<Rightarrow> ref \<Rightarrow> ref \<Rightarrow> sizzle \<Rightarrow> nat \<times> sizzle" where
  "child_index xml d forward oftype p r s =
     (if xml \<or> oftype
      then (found_count (seek (counts d oftype r) r ((if forward then siblings_of d p else rev (siblings_of d p))) 0 0), s)
      else if forward then nth_index d p r s
      else last_index d p r s)"

definition nth_filter :: "bool \<Rightarrow> dom_node \<Rightarrow> bool \<Rightarrow> bool \<Rightarrow> int \<Rightarrow> int \<Rightarrow> ref \<Rightarrow> ref \<Rightarrow> sizzle \<Rightarrow> bool \<times> sizzle" where
  "nth_filter xml d forward oftype a b p r s =
     (if a = 1 \<and> b = 0 then (True, s)
      else case child_index xml d forward oftype p r s of (n, s1) \<Rightarrow> (cycle_test a b (int n), s1))"

definition child_filter :: "bool \<Rightarrow> dom_node \<Rightarrow> child_type \<Rightarrow> bool \<Rightarrow> int \<Rightarrow> int \<Rightarrow> matcher" where
  "child_filter xml d ty oftype a b r s =
     (case r of [] \<Rightarrow> (False, s)
      | i # p \<Rightarrow>
          (case ty of
             First \<Rightarrow> (\<not> list_ex (counts d oftype r) (preceding r), s)
           | Last \<Rightarrow> (\<not> list_ex (counts d oftype r) (following d r), s)
           | Only \<Rightarrow> (\<not> list_ex (counts d oftype r) (preceding r) \<and> \<not> list_ex (counts d oftype r) (following d r), s)
           | Nth \<Rightarrow> nth_filter xml d True oftype a b p r s
           | NthLast \<Rightarrow> nth_filter xml d False oftype a b p r s))"

type_synonym pseudo_table = "string \<Rightarrow> string \<Rightarrow> ref \<Rightarrow> bool"

fun filter_matcher :: "pseudo_table \<Rightarrow> bool \<Rightarrow> dom_node \<Rightarrow> sfilter \<Rightarrow> matcher" where
  "filter_matcher ps xml d (TAG n) = pure_matcher (tag_filter d n)"
| "filter_matcher ps xml d (CLASS n) = pure_matcher (class_filter d n)"
| "filter_matcher ps xml d (ATTR n op v) = pure_matcher (\<lambda>r. attr_test op v (Sizzle_attr d n r))"
| "filter_matcher ps xml d (CHILD ty t a b) = child_filter xml d ty t a b"
| "filter_matcher ps xml d (PSEUDO n v) = pure_matcher (ps n v)"
| "filter_matcher ps xml d (ID n) = pure_matcher (id_filter d n)"

text \<open>\<open>addCombinator\<close> in its three forms: the closest node, and all nodes with and without the cache. \<open>ok\<close> says which nodes count.\<close>

fun closest_match :: "(ref \<Rightarrow> bool) \<Rightarrow> matcher \<Rightarrow> ref list \<Rightarrow> sizzle \<Rightarrow> bool \<times> sizzle" where
  "closest_match ok m [] s = (False, s)"
| "closest_match ok m (x # xs) s = (if ok x then m x s else closest_match ok m xs s)"

fun any_match :: "(ref \<Rightarrow> bool) \<Rightarrow> matcher \<Rightarrow> ref list \<Rightarrow> sizzle \<Rightarrow> bool \<times> sizzle" where
  "any_match ok m [] s = (False, s)"
| "any_match ok m (x # xs) s =
     (if ok x then (case m x s of (b, s1) \<Rightarrow> if b then (True, s1) else any_match ok m xs s1) else any_match ok m xs s)"

definition set_cell :: "nat \<Rightarrow> bool \<Rightarrow> sizzle \<Rightarrow> sizzle" where
  "set_cell a b s = s\<lparr>cells := (cells s)(a := (cells s a)\<lparr>cell_value := b\<rparr>)\<rparr>"

definition known :: "comb_direction \<Rightarrow> nat \<Rightarrow> ref \<Rightarrow> sizzle \<Rightarrow> bool option" where
  "known dir name x s =
     (case slot s (x, dir) of None \<Rightarrow> None
      | Some a \<Rightarrow> if cell_run (cells s a) = dirruns s \<and> cell_name (cells s a) = name then Some (cell_value (cells s a)) else None)"

fun cached_match :: "(ref \<Rightarrow> bool) \<Rightarrow> matcher \<Rightarrow> comb_direction \<Rightarrow> nat \<Rightarrow> nat \<Rightarrow> ref list \<Rightarrow> sizzle \<Rightarrow> bool \<times> sizzle" where
  "cached_match ok m dir name a [] s = (False, s)"
| "cached_match ok m dir name a (x # xs) s =
     (if \<not> ok x then cached_match ok m dir name a xs s
      else case known dir name x s of
             Some b \<Rightarrow> (b, set_cell a b s)
           | None \<Rightarrow>
               (case m x (s\<lparr>slot := (slot s)((x, dir) \<mapsto> a)\<rparr>) of
                  (b, s1) \<Rightarrow> if b then (True, set_cell a b s1) else cached_match ok m dir name a xs (set_cell a b s1)))"

definition new_cell :: "nat \<Rightarrow> sizzle \<Rightarrow> sizzle" where
  "new_cell name s =
     s\<lparr>cells := (cells s)(next_cell s := \<lparr>cell_run = dirruns s, cell_name = name, cell_value = False\<rparr>), next_cell := Suc (next_cell s)\<rparr>"

definition addCombinator :: "bool \<Rightarrow> dom_node \<Rightarrow> matcher \<Rightarrow> combinator \<Rightarrow> bool \<Rightarrow> nat \<Rightarrow> matcher" where
  "addCombinator xml d m c base name r s =
     (let dir = comb_dir c; ok = (\<lambda>x. is_element d x \<or> base \<and> dir = Up)
      in if comb_first c then closest_match ok m (walk_along dir r) s
         else if xml then any_match ok m (walk_along dir r) s
         else cached_match ok m dir name (next_cell s) (walk_along dir r) (new_cell name s))"

section \<open>Compiled selectors\<close>

datatype sel_token = Rel combinator | Filter sfilter

text \<open>\<open>elementMatcher\<close> asks the matchers from the last to the first.\<close>

fun ask :: "matcher list \<Rightarrow> matcher" where
  "ask [] r s = (True, s)"
| "ask (m # ms) r s = (case m r s of (b, s1) \<Rightarrow> if b then ask ms r s1 else (False, s1))"

definition elementMatcher :: "matcher list \<Rightarrow> matcher" where
  "elementMatcher ms = (if length ms > 1 then ask (rev ms) else hd ms)"

record run =
  r_pseudos :: pseudo_table
  r_doc :: dom_node
  r_xml :: bool
  r_context :: ref

text \<open>The variable \<open>outermostContext\<close> during an outermost search: a document is no context to be reached.\<close>

definition outermostContext :: "run \<Rightarrow> ref option" where
  "outermostContext e =
     (case node_at (r_doc e) (r_context e) of
        Some n \<Rightarrow> if nodeType n = 9 then None else Some (r_context e)
      | None \<Rightarrow> Some (r_context e))"

definition leading :: "sel_token list \<Rightarrow> combinator option" where
  "leading ts = (case ts of Rel c # _ \<Rightarrow> Some c | _ \<Rightarrow> None)"

text \<open>The foundational matcher: elements must be reachable from the context.\<close>

definition context_matcher :: "run \<Rightarrow> combinator option \<Rightarrow> nat \<Rightarrow> matcher" where
  "context_matcher e lead name r s =
     (if lead = None \<and> (r_xml e \<or> outermostContext e \<noteq> Some (r_context e)) then (True, s)
      else addCombinator (r_xml e) (r_doc e) (pure_matcher (\<lambda>x. x = r_context e))
             (case lead of None \<Rightarrow> Descendant | Some c \<Rightarrow> c) True name r s)"

fun add_token :: "run \<Rightarrow> sel_token \<Rightarrow> matcher list \<times> nat \<Rightarrow> matcher list \<times> nat" where
  "add_token e (Rel c) (ms, n) = ([addCombinator (r_xml e) (r_doc e) (elementMatcher ms) c False n], Suc n)"
| "add_token e (Filter f) (ms, n) = (ms @ [filter_matcher (r_pseudos e) (r_xml e) (r_doc e) f], n)"

text \<open>\<open>matcherFromTokens\<close> for selectors without positional filters; \<open>n\<close> is the counter \<open>done\<close>.\<close>

definition matcherFromTokens :: "run \<Rightarrow> sel_token list \<Rightarrow> nat \<Rightarrow> matcher \<times> nat" where
  "matcherFromTokens e ts n =
     (case fold (add_token e) (if leading ts = None then ts else tl ts) ([context_matcher e (leading ts) n], n + 2) of
        (ms, k) \<Rightarrow> (elementMatcher ms, k))"

text \<open>\<open>compile\<close>: the groups from the last to the first.\<close>

fun compile_groups :: "run \<Rightarrow> sel_token list list \<Rightarrow> nat \<Rightarrow> matcher list \<times> nat" where
  "compile_groups e [] n = ([], n)"
| "compile_groups e (g # gs) n =
     (case matcherFromTokens e g n of (m, k) \<Rightarrow> case compile_groups e gs k of (ms, j) \<Rightarrow> (m # ms, j))"

fun any_group :: "matcher list \<Rightarrow> matcher" where
  "any_group [] r s = (False, s)"
| "any_group (m # ms) r s = (case m r s of (b, s1) \<Rightarrow> if b then (True, s1) else any_group ms r s1)"

fun match_elements :: "matcher list \<Rightarrow> ref list \<Rightarrow> sizzle \<Rightarrow> ref list \<times> sizzle" where
  "match_elements ms [] s = ([], s)"
| "match_elements ms (x # xs) s =
     (case any_group ms x s of (b, s1) \<Rightarrow> case match_elements ms xs s1 of (rs, s2) \<Rightarrow> (if b then x # rs else rs, s2))"

text \<open>\<open>getElementsByTagName( "*" )\<close>: the elements below a node, in the order of the document.\<close>

fun below :: "ref \<Rightarrow> nat \<Rightarrow> dom_node list \<Rightarrow> ref list"
and below_node :: "ref \<Rightarrow> dom_node \<Rightarrow> ref list" where
  "below p i [] = []"
| "below p i (n # ns) = below_node (i # p) n @ below p (Suc i) ns"
| "below_node r (Node ty nm ats v kids) = (if ty = 1 then [r] else []) @ below r 0 kids"

definition elements_below :: "dom_node \<Rightarrow> ref \<Rightarrow> ref list" where
  "elements_below d r = (case node_at d r of None \<Rightarrow> [] | Some n \<Rightarrow> below r 0 (childNodes n))"

text \<open>
  \<open>superMatcher\<close> of an outermost search for selectors without positional filters: every run has a number of its own.
  The search goes over the seed or over all elements below the node \<open>outermost\<close>.
\<close>

definition superMatcher :: "run \<Rightarrow> sel_token list list \<Rightarrow> nat \<Rightarrow> ref list option \<Rightarrow> ref \<Rightarrow> sizzle \<Rightarrow> ref list \<times> sizzle" where
  "superMatcher e groups n seed outermost s =
     match_elements (fst (compile_groups e (rev groups) n))
       (case seed of None \<Rightarrow> elements_below (r_doc e) outermost | Some xs \<Rightarrow> xs) (s\<lparr>dirruns := Suc (dirruns s)\<rparr>)"

section \<open>Selecting\<close>

text \<open>
  \<open>select\<close> for the tokens of a selector. The finders \<open>Expr.find\<close> are methods of the document and a parameter;
  \<open>None\<close> stands for a missing finder or an undefined result. \<open>txt\<close> has the text of each token.
\<close>

type_synonym finder = "sfilter \<Rightarrow> ref \<Rightarrow> ref list option"

definition rsibling :: "(sel_token \<Rightarrow> string) \<Rightarrow> sel_token list list \<Rightarrow> bool" where
  "rsibling txt groups = list_ex (list_ex (\<lambda>t. list_ex (\<lambda>c. c = CHR ''+'' \<or> c = CHR ''~'') (txt t))) groups"

definition positional_names :: "string list" where
  "positional_names = [''even'', ''odd'', ''eq'', ''gt'', ''lt'', ''nth'', ''first'', ''last'']"

definition needsContext :: "sel_token list \<Rightarrow> bool" where
  "needsContext ts \<longleftrightarrow> (case leading ts of None \<Rightarrow> False | Some c \<Rightarrow> c \<noteq> Descendant) \<or>
     list_ex (\<lambda>t. case t of Filter (PSEUDO n v) \<Rightarrow> to_lower n \<in> set positional_names | _ \<Rightarrow> False) ts"

definition is_document :: "run \<Rightarrow> bool" where
  "is_document e = (case node_at (r_doc e) (r_context e) of None \<Rightarrow> False | Some n \<Rightarrow> nodeType n = 9)"

definition search_root :: "run \<Rightarrow> bool \<Rightarrow> ref" where
  "search_root e sibling = (case r_context e of i # p \<Rightarrow> if sibling then p else i # p | [] \<Rightarrow> [])"

text \<open>The context is reduced to the element of a leading id.\<close>

datatype reduction = Keep | Reduce ref | Nothing

definition reduce_context :: "finder \<Rightarrow> run \<Rightarrow> sel_token list \<Rightarrow> reduction" where
  "reduce_context finds e ts =
     (case ts of
        Filter (ID n) # Rel c # t # _ \<Rightarrow>
          if is_document e \<and> \<not> r_xml e
          then (case finds (ID n) (r_context e) of Some (x # _) \<Rightarrow> Reduce x | _ \<Rightarrow> Nothing)
          else Keep
      | _ \<Rightarrow> Keep)"

text \<open>The loop from the last token to the last combinator; what it has passed is kept.\<close>

fun fetch_seed :: "(sfilter \<Rightarrow> ref list option) \<Rightarrow> sel_token list \<Rightarrow> sel_token list \<Rightarrow> (ref list \<times> sel_token list) option" where
  "fetch_seed finds [] passed = None"
| "fetch_seed finds (Rel c # rts) passed = None"
| "fetch_seed finds (Filter f # rts) passed =
     (case finds f of None \<Rightarrow> fetch_seed finds rts (Filter f # passed) | Some xs \<Rightarrow> Some (xs, rev rts @ passed))"

definition select_one :: "finder \<Rightarrow> (sel_token \<Rightarrow> string) \<Rightarrow> run \<Rightarrow> sel_token list \<Rightarrow> nat \<Rightarrow> sizzle \<Rightarrow> ref list \<times> sizzle" where
  "select_one finds txt e ts n s =
     (case (if needsContext ts then None
            else fetch_seed (\<lambda>f. finds f (search_root e (leading ts = Some Adjacent \<or> leading ts = Some Sibling))) (rev ts) []) of
        None \<Rightarrow> superMatcher e [ts] n None (search_root e (rsibling txt [ts])) s
      | Some (seed, rest) \<Rightarrow>
          if seed = [] \<or> rest = [] then (seed, s)
          else superMatcher e [rest] n (Some seed) (search_root e (rsibling txt [rest])) s)"

definition select :: "finder \<Rightarrow> (sel_token \<Rightarrow> string) \<Rightarrow> run \<Rightarrow> sel_token list list \<Rightarrow> nat \<Rightarrow> sizzle \<Rightarrow> ref list \<times> sizzle" where
  "select finds txt e groups n s =
     (case groups of
        [ts] \<Rightarrow>
          (case reduce_context finds e ts of
             Keep \<Rightarrow> select_one finds txt e ts n s
           | Reduce x \<Rightarrow> select_one finds txt (e\<lparr>r_context := x\<rparr>) (tl ts) n s
           | Nothing \<Rightarrow> ([], s))
      | _ \<Rightarrow> superMatcher e groups n None (search_root e (rsibling txt groups)) s)"

section \<open>Document order\<close>

text \<open>\<open>siblingCheck\<close> without \<open>sourceIndex\<close>; an undefined node is \<open>None\<close>.\<close>

definition siblingCheck :: "dom_node \<Rightarrow> ref option \<Rightarrow> ref option \<Rightarrow> int" where
  "siblingCheck d a b =
     (case (a, b) of
        (Some x, Some y) \<Rightarrow> if y \<in> set (following d x) then -1 else 1
      | (Some x, None) \<Rightarrow> 1
      | (None, _) \<Rightarrow> -1)"

fun discrepancy :: "ref list \<Rightarrow> ref list \<Rightarrow> ref option \<times> ref option" where
  "discrepancy (a # as) (b # bs) = (if a = b then discrepancy as bs else (Some a, Some b))"
| "discrepancy [] [] = (None, None)"
| "discrepancy (a # as) [] = (Some a, None)"
| "discrepancy [] (b # bs) = (None, Some b)"

text \<open>
  The second \<open>sortOrder\<close>, which is installed in browsers without \<open>compareDocumentPosition\<close> (the first one
  asks the browser), for nodes of one document, whose node is the root.
\<close>

definition sortOrder :: "dom_node \<Rightarrow> ref \<Rightarrow> ref \<Rightarrow> int" where
  "sortOrder d a b =
     (if a = b then 0
      else case (a, b) of
             ([], _) \<Rightarrow> -1
           | (_, []) \<Rightarrow> 1
           | (i # p, j # q) \<Rightarrow>
               if p = q then siblingCheck d (Some a) (Some b)
               else case discrepancy (rev (a # ancestors a)) (rev (b # ancestors b)) of (x, y) \<Rightarrow> siblingCheck d x y)"

text \<open>The indices of elements that are followed by themselves, and the removal at these indices from the end.\<close>

fun duplicate_indices :: "nat \<Rightarrow> ref list \<Rightarrow> nat list" where
  "duplicate_indices i (x # y # xs) = (if x = y then [Suc i] else []) @ duplicate_indices (Suc i) (y # xs)"
| "duplicate_indices i xs = []"

definition splice_one :: "nat \<Rightarrow> ref list \<Rightarrow> ref list" where
  "splice_one j xs = take j xs @ drop (Suc j) xs"

text \<open>Sorting compares equal neighbours, so \<open>hasDuplicate\<close> is set when there are any, unless they are assumed.\<close>

definition uniqueSort :: "bool \<Rightarrow> dom_node \<Rightarrow> ref list \<Rightarrow> ref list" where
  "uniqueSort detectDuplicates d results =
     (let sorted = sort_by (\<lambda>a b. sortOrder d a b < 0) results
      in if \<not> detectDuplicates \<or> \<not> distinct results then foldr splice_one (duplicate_indices 0 sorted) sorted else sorted)"

section \<open>Caches of limited size\<close>

record 'a cache =
  cache_keys :: "string list"
  cache_entries :: "(string \<times> 'a) list"

definition createCache :: "'a cache" where
  "createCache = \<lparr>cache_keys = [], cache_entries = []\<rparr>"

definition cache_store :: "nat \<Rightarrow> string \<Rightarrow> 'a \<Rightarrow> 'a cache \<Rightarrow> 'a cache" where
  "cache_store cacheLength key v c =
     (let keys = cache_keys c @ [key @ '' ''];
          c1 = (if length keys > cacheLength
                then c\<lparr>cache_keys := tl keys, cache_entries := filter (\<lambda>(k, _). k \<noteq> hd keys) (cache_entries c)\<rparr>
                else c\<lparr>cache_keys := keys\<rparr>)
      in c1\<lparr>cache_entries := (key @ '' '', v) # filter (\<lambda>(k, _). k \<noteq> key @ '' '') (cache_entries c1)\<rparr>)"

definition cache_lookup :: "string \<Rightarrow> 'a cache \<Rightarrow> 'a option" where
  "cache_lookup key c = map_of (cache_entries c) (key @ '' '')"

end
