(* ===== verification/JQ_Sizzle_Props.thy ===== *)
theory JQ_Sizzle_Props
  imports JQ_Sizzle
begin

text \<open>
  The compiled matchers against a reference semantics of selectors: the caches that searches leave on the
  nodes and on their parents never change an answer.
\<close>

section \<open>Reference semantics\<close>

definition in_progression :: "int \<Rightarrow> int \<Rightarrow> int \<Rightarrow> bool" where
  "in_progression a b n \<longleftrightarrow> (\<exists>k::nat. n = a * int k + b)"

fun child_spec :: "dom_node \<Rightarrow> child_type \<Rightarrow> bool \<Rightarrow> int \<Rightarrow> int \<Rightarrow> ref \<Rightarrow> bool" where
  "child_spec d First t a b r = (r \<noteq> [] \<and> filter (counts d t r) (preceding r) = [])"
| "child_spec d Last t a b r = (r \<noteq> [] \<and> filter (counts d t r) (following d r) = [])"
| "child_spec d Only t a b r = (r \<noteq> [] \<and> filter (counts d t r) (preceding r @ following d r) = [])"
| "child_spec d Nth t a b r = (r \<noteq> [] \<and> in_progression a b (1 + int (length (filter (counts d t r) (preceding r)))))"
| "child_spec d NthLast t a b r = (r \<noteq> [] \<and> in_progression a b (1 + int (length (filter (counts d t r) (following d r)))))"

fun filter_spec :: "pseudo_table \<Rightarrow> dom_node \<Rightarrow> sfilter \<Rightarrow> ref \<Rightarrow> bool" where
  "filter_spec ps d (TAG n) r = tag_filter d n r"
| "filter_spec ps d (CLASS n) r = class_filter d n r"
| "filter_spec ps d (ATTR n op v) r = attr_test op v (Sizzle_attr d n r)"
| "filter_spec ps d (CHILD ty t a b) r = child_spec d ty t a b r"
| "filter_spec ps d (PSEUDO n v) r = ps n v r"
| "filter_spec ps d (ID n) r = id_filter d n r"

text \<open>The nodes a combinator leads to: the closest one that counts, or all of them.\<close>

definition related :: "(ref \<Rightarrow> bool) \<Rightarrow> combinator \<Rightarrow> ref \<Rightarrow> ref list" where
  "related ok c r = (let xs = filter ok (walk_along (comb_dir c) r) in if comb_first c then take 1 xs else xs)"

definition from_context :: "run \<Rightarrow> combinator option \<Rightarrow> ref \<Rightarrow> bool" where
  "from_context e lead r =
     (case lead of
        None \<Rightarrow> r_xml e \<or> outermostContext e = None \<or> r_context e \<in> set (walk_along Up r)
      | Some c \<Rightarrow> r_context e \<in> set (related (\<lambda>x. is_element (r_doc e) x \<or> comb_dir c = Up) c r))"

text \<open>A compound selector read from its end.\<close>

fun selects :: "run \<Rightarrow> combinator option \<Rightarrow> sel_token list \<Rightarrow> ref \<Rightarrow> bool" where
  "selects e lead [] r = from_context e lead r"
| "selects e lead (Filter f # ts) r = (filter_spec (r_pseudos e) (r_doc e) f r \<and> selects e lead ts r)"
| "selects e lead (Rel c # ts) r = list_ex (selects e lead ts) (related (is_element (r_doc e)) c r)"

definition matches_group :: "run \<Rightarrow> sel_token list \<Rightarrow> ref \<Rightarrow> bool" where
  "matches_group e ts = selects e (leading ts) (rev (if leading ts = None then ts else tl ts))"

section \<open>Steps through the tree\<close>

definition path_weight :: "ref \<Rightarrow> nat" where
  "path_weight r = sum_list (map Suc r)"

locale walking =
  fixes steps :: "ref \<Rightarrow> ref list"
  assumes steps_tail: "steps r = x # xs \<Longrightarrow> steps x = xs"
    and steps_down: "steps r = x # xs \<Longrightarrow> path_weight x < path_weight r"
begin

lemma all_down: "x \<in> set (steps r) \<Longrightarrow> path_weight x < path_weight r"
proof (induction "steps r" arbitrary: r)
  case Nil
  then show ?case by simp
next
  case (Cons y ys)
  then show ?case
    using steps_tail [of r y ys] steps_down [of r y ys] by (metis less_trans set_ConsD)
qed

end

lemma walking_ancestors: "walking ancestors"
  by unfold_locales (auto simp: path_weight_def elim: ancestors.elims)

lemma walking_preceding: "walking preceding"
proof
  show "preceding x = xs" if "preceding r = x # xs" for r x xs
    using that by (cases r rule: preceding.cases) auto
  show "path_weight x < path_weight r" if "preceding r = x # xs" for r x xs
    using that by (cases r rule: preceding.cases) (auto simp: path_weight_def)
qed

interpretation wk: walking "walk_along dir" for dir
proof (cases dir)
  case Up
  then have "walk_along dir = ancestors" by (simp add: fun_eq_iff)
  then show "walking (walk_along dir)" by (simp add: walking_ancestors)
next
  case Back
  then have "walk_along dir = preceding" by (simp add: fun_eq_iff)
  then show "walking (walk_along dir)" by (simp add: walking_preceding)
qed

section \<open>Valid caches\<close>

text \<open>The element's number among its siblings, from the front and from the back.\<close>

definition front_number :: "dom_node \<Rightarrow> ref \<Rightarrow> nat \<Rightarrow> nat" where
  "front_number d p i = length (filter (is_element d) (take (Suc i) (siblings_of d p)))"

definition back_number :: "dom_node \<Rightarrow> ref \<Rightarrow> nat \<Rightarrow> nat" where
  "back_number d p i = length (filter (is_element d) (drop i (siblings_of d p)))"

definition numbers_past :: "sizzle \<Rightarrow> bool" where
  "numbers_past s \<longleftrightarrow>
     (\<forall>p run i n. nth_at s p = Some (run, i, n) \<longrightarrow> run \<le> dirruns s) \<and> (\<forall>r run n. last_at s r = Some (run, n) \<longrightarrow> run \<le> dirruns s)"

definition numbers_valid :: "dom_node \<Rightarrow> sizzle \<Rightarrow> bool" where
  "numbers_valid d s \<longleftrightarrow> numbers_past s \<and>
     (\<forall>p i n. nth_at s p = Some (dirruns s, i, n) \<longrightarrow> i < length (siblings_of d p) \<and> n = front_number d p i) \<and>
     (\<forall>p i n. last_at s (i # p) = Some (dirruns s, n) \<longrightarrow> n = back_number d p i)"

text \<open>The table \<open>T\<close> has the answer for each combinator, by its name; the entries of names below \<open>n\<close> agree with it.\<close>

definition cells_valid :: "(nat \<Rightarrow> comb_direction \<Rightarrow> ref \<Rightarrow> bool) \<Rightarrow> nat \<Rightarrow> sizzle \<Rightarrow> bool" where
  "cells_valid T n s \<longleftrightarrow>
     (\<forall>r dir a. slot s (r, dir) = Some a \<longrightarrow> a < next_cell s \<and> cell_run (cells s a) \<le> dirruns s \<and>
        (cell_run (cells s a) = dirruns s \<longrightarrow> cell_name (cells s a) < n \<longrightarrow> cell_value (cells s a) = T (cell_name (cells s a)) dir r))"

text \<open>
  What a matcher with names below \<open>n\<close> leaves alone: the results in cells below \<open>base\<close>, the names of all cells, and
  slots, unless they refer to a cell from \<open>base\<close> on with a name below \<open>n\<close>.
\<close>

definition same_cell :: "cell \<Rightarrow> cell \<Rightarrow> bool" where
  "same_cell c c' \<longleftrightarrow> cell_run c' = cell_run c \<and> cell_name c' = cell_name c"

definition kept :: "nat \<Rightarrow> nat \<Rightarrow> sizzle \<Rightarrow> sizzle \<Rightarrow> bool" where
  "kept base n s s' \<longleftrightarrow> dirruns s' = dirruns s \<and> next_cell s \<le> next_cell s' \<and>
     (\<forall>a < next_cell s. same_cell (cells s a) (cells s' a) \<and> (a < base \<longrightarrow> cells s' a = cells s a)) \<and>
     (\<forall>k. slot s' k = slot s k \<or> (\<exists>a. slot s' k = Some a \<and> base \<le> a \<and> a < next_cell s' \<and> cell_name (cells s' a) < n))"

definition implements :: "dom_node \<Rightarrow> (nat \<Rightarrow> comb_direction \<Rightarrow> ref \<Rightarrow> bool) \<Rightarrow> nat \<Rightarrow> (ref \<Rightarrow> bool) \<Rightarrow> matcher \<Rightarrow> (ref \<Rightarrow> bool) \<Rightarrow> bool" where
  "implements d T n ok m P \<longleftrightarrow>
     (\<forall>r s. ok r \<longrightarrow> cells_valid T n s \<longrightarrow> numbers_valid d s \<longrightarrow>
        fst (m r s) = P r \<and> cells_valid T n (snd (m r s)) \<and> numbers_valid d (snd (m r s)) \<and> kept (next_cell s) n s (snd (m r s)))"

lemma frame_refl [simp]: "kept b n s s"
  by (simp add: kept_def same_cell_def)

lemma frame_slot:
  assumes "kept b n s s'"
  obtains (same) "slot s' k = slot s k"
  | (new) a where "slot s' k = Some a" "b \<le> a" "a < next_cell s'" "cell_name (cells s' a) < n"
  using assms unfolding kept_def by blast

lemma frame_cells: "kept b n s s' \<Longrightarrow> a < next_cell s \<Longrightarrow> a < b \<Longrightarrow> cells s' a = cells s a"
  by (simp add: kept_def)

lemma frame_same: "kept b n s s' \<Longrightarrow> a < next_cell s \<Longrightarrow> same_cell (cells s a) (cells s' a)"
  by (simp add: kept_def)

lemma frame_counters: "kept b n s s' \<Longrightarrow> dirruns s' = dirruns s \<and> next_cell s \<le> next_cell s'"
  by (simp add: kept_def)

lemma frame_slotI: "kept b n s s' \<Longrightarrow> slot s' k = slot s k \<or> (\<exists>a. slot s' k = Some a \<and> b \<le> a \<and> a < next_cell s' \<and> cell_name (cells s' a) < n)"
  unfolding kept_def by blast

lemma frame_trans:
  assumes f: "kept b n s1 s2" and g: "kept b' n s2 s3" and "b \<le> b'"
  shows "kept b n s1 s3"
proof -
  have mono: "next_cell s1 \<le> next_cell s2" "next_cell s2 \<le> next_cell s3" "dirruns s3 = dirruns s1"
    using frame_counters [OF f] frame_counters [OF g] by auto
  have "slot s3 k = slot s1 k \<or> (\<exists>a. slot s3 k = Some a \<and> b \<le> a \<and> a < next_cell s3 \<and> cell_name (cells s3 a) < n)" for k
  proof (cases rule: frame_slot [OF g, of k])
    case 1
    show ?thesis
    proof (cases rule: frame_slot [OF f, of k])
      case (2 a)
      then show ?thesis using 1 mono frame_same [OF g, of a] by (auto simp: same_cell_def)
    qed (use 1 in simp)
  next
    case (2 a)
    then show ?thesis using mono assms(3) by auto
  qed
  moreover have "same_cell (cells s1 a) (cells s3 a) \<and> (a < b \<longrightarrow> cells s3 a = cells s1 a)" if "a < next_cell s1" for a
    using that mono assms(3) frame_cells [OF f, of a] frame_cells [OF g, of a] frame_same [OF f, of a] frame_same [OF g, of a]
    by (auto simp: same_cell_def)
  ultimately show ?thesis
    using mono by (simp add: kept_def)
qed

lemma frame_mono: "kept b n s s' \<Longrightarrow> n \<le> k \<Longrightarrow> b' \<le> b \<Longrightarrow> kept b' k s s'"
  unfolding kept_def by (meson le_trans less_le_trans)

lemma cells_validD:
  assumes "cells_valid T n s" "slot s (r, dir) = Some a"
  shows "a < next_cell s" and "cell_run (cells s a) \<le> dirruns s"
    and "cell_run (cells s a) = dirruns s \<Longrightarrow> cell_name (cells s a) < n \<Longrightarrow> cell_value (cells s a) = T (cell_name (cells s a)) dir r"
  using assms by (auto simp: cells_valid_def)

lemma cells_valid_frame:
  assumes f: "kept (next_cell s) n s s'" and new: "cells_valid T n s'" and old: "cells_valid T k s"
  shows "cells_valid T k s'"
  unfolding cells_valid_def
proof (intro allI impI conjI)
  fix r dir a
  assume a: "slot s' (r, dir) = Some a"
  show "a < next_cell s'" "cell_run (cells s' a) \<le> dirruns s'" by (rule cells_validD [OF new a])+
  assume run: "cell_run (cells s' a) = dirruns s'" and nm: "cell_name (cells s' a) < k"
  show "cell_value (cells s' a) = T (cell_name (cells s' a)) dir r"
  proof (cases rule: frame_slot [OF f, of "(r, dir)"])
    case 1
    then have same: "slot s (r, dir) = Some a" "cells s' a = cells s a" "dirruns s' = dirruns s"
      using a cells_validD(1) [OF old, of r dir a] frame_cells [OF f, of a] frame_counters [OF f] by auto
    then show ?thesis using cells_validD(3) [OF old same(1)] run nm by simp
  next
    case (2 b)
    then show ?thesis using cells_validD(3) [OF new a run] a by simp
  qed
qed

lemma cells_valid_mono: "cells_valid T k s \<Longrightarrow> n \<le> k \<Longrightarrow> cells_valid T n s"
  by (auto simp: cells_valid_def)

section \<open>One search with the cache\<close>

text \<open>
  The state of the loop of \<open>cached_match\<close> with the nodes \<open>xs\<close> before it: the new cell \<open>a\<close> is only on nodes that
  the loop has passed, and the answer for each of them is the answer for the rest of the way.
\<close>

definition searching :: "(nat \<Rightarrow> comb_direction \<Rightarrow> ref \<Rightarrow> bool) \<Rightarrow> nat \<Rightarrow> comb_direction \<Rightarrow> nat \<Rightarrow> bool \<Rightarrow> sizzle \<Rightarrow> bool" where
  "searching T k dir a v s \<longleftrightarrow> cells_valid T k s \<and> a < next_cell s \<and>
     cells s a = \<lparr>cell_run = dirruns s, cell_name = k, cell_value = False\<rparr> \<and>
     (\<forall>r dir'. slot s (r, dir') = Some a \<longrightarrow> dir' = dir \<and> T k dir r = v) \<and>
     (\<forall>r dir' c. slot s (r, dir') = Some c \<longrightarrow> c \<noteq> a \<longrightarrow> cell_run (cells s c) = dirruns s \<longrightarrow> cell_name (cells s c) = k \<longrightarrow>
        cell_value (cells s c) = T k dir' r)"

definition ahead :: "nat \<Rightarrow> ref list \<Rightarrow> sizzle \<Rightarrow> bool" where
  "ahead a xs s \<longleftrightarrow> (\<forall>r dir. slot s (r, dir) = Some a \<longrightarrow> (\<forall>y \<in> set xs. path_weight y < path_weight r))"

lemma set_cell_simps [simp]:
  "slot (set_cell a b s) = slot s" "next_cell (set_cell a b s) = next_cell s" "dirruns (set_cell a b s) = dirruns s"
  "nth_at (set_cell a b s) = nth_at s" "last_at (set_cell a b s) = last_at s"
  "cells (set_cell a b s) = (cells s)(a := (cells s a)\<lparr>cell_value := b\<rparr>)"
  by (simp_all add: set_cell_def)

lemma numbers_valid_cong:
  "dirruns s' = dirruns s \<Longrightarrow> nth_at s' = nth_at s \<Longrightarrow> last_at s' = last_at s \<Longrightarrow> numbers_valid d s' = numbers_valid d s"
  by (simp add: numbers_valid_def numbers_past_def)

lemma search_ends:
  assumes "searching T k dir a v s"
  shows "cells_valid T (Suc k) (set_cell a v s)"
  using assms unfolding searching_def cells_valid_def by (auto simp: less_Suc_eq)

lemma set_cell_frame: "a < next_cell s \<Longrightarrow> kept a n s (set_cell a b s)"
  by (auto simp: kept_def same_cell_def)

lemma known_right:
  assumes "searching T k dir a v s" "ahead a (x # xs) s" "known dir k x s = Some b"
  shows "b = T k dir x"
proof -
  obtain c where c: "slot s (x, dir) = Some c" "cell_run (cells s c) = dirruns s" "cell_name (cells s c) = k" "b = cell_value (cells s c)"
    using assms(3) by (auto simp: known_def split: option.splits if_splits)
  then have "c \<noteq> a" using assms(2) by (auto simp: ahead_def)
  then show ?thesis using assms(1) c by (auto simp: searching_def)
qed

definition mark :: "ref \<Rightarrow> comb_direction \<Rightarrow> nat \<Rightarrow> sizzle \<Rightarrow> sizzle" where
  "mark x dir a s = s\<lparr>slot := (slot s)((x, dir) \<mapsto> a)\<rparr>"

lemma mark_simps [simp]:
  "slot (mark x dir a s) = (slot s)((x, dir) \<mapsto> a)" "next_cell (mark x dir a s) = next_cell s" "dirruns (mark x dir a s) = dirruns s"
  "nth_at (mark x dir a s) = nth_at s" "last_at (mark x dir a s) = last_at s" "cells (mark x dir a s) = cells s"
  by (simp_all add: mark_def)

lemma search_marks:
  assumes "searching T k dir a v s" "T k dir x = v"
  shows "searching T k dir a v (mark x dir a s)" and "kept a (Suc k) s (mark x dir a s)"
  using assms by (auto simp: searching_def cells_valid_def kept_def same_cell_def)

lemma mark_ahead: "ahead a (x # xs) s \<Longrightarrow> \<forall>y \<in> set xs. path_weight y < path_weight x \<Longrightarrow> ahead a xs (mark x dir a s)"
  by (auto simp: ahead_def)

text \<open>Matchers with smaller names do not disturb a search.\<close>

lemma search_inner:
  assumes s: "searching T k dir a v s" and f: "kept (next_cell s) k s s'" and c: "cells_valid T k s'"
  shows "searching T k dir a v s'"
proof -
  have a: "a < next_cell s" "cells s' a = cells s a" "next_cell s \<le> next_cell s'" "dirruns s' = dirruns s"
    using s frame_cells [OF f, of a] frame_counters [OF f] by (auto simp: searching_def)
  have old: "slot s x = Some b" if "slot s' x = Some b" "cell_name (cells s' b) = k" for x b
    using frame_slotI [OF f, of x] that by auto
  have cell_a: "cells s' a = \<lparr>cell_run = dirruns s', cell_name = k, cell_value = False\<rparr>"
    using s a by (simp add: searching_def)
  have mine: "dir' = dir \<and> T k dir r = v" if "slot s' (r, dir') = Some a" for r dir'
    using s old [OF that] cell_a by (auto simp: searching_def)
  have others: "cell_value (cells s' b) = T k dir' r"
    if "slot s' (r, dir') = Some b" "b \<noteq> a" "cell_run (cells s' b) = dirruns s'" "cell_name (cells s' b) = k" for r dir' b
  proof -
    have b: "slot s (r, dir') = Some b" using old that by simp
    then have "b < next_cell s" using s cells_validD(1) by (auto simp: searching_def)
    then have "cells s' b = cells s b" using frame_cells [OF f] by simp
    then show ?thesis using s b that a by (auto simp: searching_def)
  qed
  show ?thesis unfolding searching_def using c less_le_trans [OF a(1,3)] cell_a mine others by blast
qed

lemma frame_old: "kept (next_cell s) k s s' \<Longrightarrow> slot s' x = Some a \<Longrightarrow> a < next_cell s \<Longrightarrow> slot s x = Some a"
  by (drule frame_slotI [of _ _ _ _ x]) auto

lemma ahead_inner: "ahead a xs s \<Longrightarrow> a < next_cell s \<Longrightarrow> kept (next_cell s) k s s' \<Longrightarrow> ahead a xs s'"
  unfolding ahead_def by (blast dest: frame_old)

lemma set_cell_same: "cell_value (cells s a) = b \<Longrightarrow> set_cell a b s = s"
proof -
  assume "cell_value (cells s a) = b"
  then have "(cells s a)\<lparr>cell_value := b\<rparr> = cells s a" by (cases "cells s a") simp
  then show ?thesis by (simp add: set_cell_def)
qed

lemma implementsD:
  assumes "implements d T n ok m P" "ok r" "cells_valid T n s" "numbers_valid d s"
  shows "fst (m r s) = P r" "cells_valid T n (snd (m r s))" "numbers_valid d (snd (m r s))" "kept (next_cell s) n s (snd (m r s))"
  using assms by (auto simp: implements_def)

lemma cached_match_right:
  assumes impl: "implements d T k ok m P"
    and tab: "\<And>x. T k dir x = list_ex (\<lambda>x. ok x \<and> P x) (x # walk_along dir x)"
  shows "xs = walk_along dir r \<Longrightarrow> searching T k dir a (list_ex (\<lambda>x. ok x \<and> P x) xs) s \<Longrightarrow> ahead a xs s \<Longrightarrow> numbers_valid d s \<Longrightarrow>
    fst (cached_match ok m dir k a xs s) = list_ex (\<lambda>x. ok x \<and> P x) xs \<and>
    cells_valid T (Suc k) (snd (cached_match ok m dir k a xs s)) \<and>
    numbers_valid d (snd (cached_match ok m dir k a xs s)) \<and> kept a (Suc k) s (snd (cached_match ok m dir k a xs s))"
proof (induction xs arbitrary: r s)
  case Nil
  then show ?case
    using search_ends [OF Nil(2)] by (simp add: set_cell_same searching_def)
next
  case (Cons x xs)
  have rest: "walk_along dir x = xs" "\<forall>y \<in> set xs. path_weight y < path_weight x"
    using wk.steps_tail [of dir r x xs] wk.all_down [of _ dir x] Cons.prems(1) by auto
  have a: "a < next_cell s" using Cons.prems(2) by (simp add: searching_def)
  have v: "T k dir x = list_ex (\<lambda>x. ok x \<and> P x) (x # xs)" using tab rest by simp
  show ?case
  proof (cases "ok x")
    case False
    then have "searching T k dir a (list_ex (\<lambda>x. ok x \<and> P x) xs) s" "ahead a xs s"
      using Cons.prems(2,3) by (simp_all add: ahead_def)
    from Cons.IH [OF rest(1) [symmetric] this Cons.prems(4)] False show ?thesis by simp
  next
    case True
    show ?thesis
    proof (cases "known dir k x s")
      case (Some b)
      then have "b = list_ex (\<lambda>x. ok x \<and> P x) (x # xs)" using known_right [OF Cons.prems(2,3) Some] v by simp
      then show ?thesis
        using True Some search_ends [OF Cons.prems(2)] set_cell_frame [OF a] Cons.prems(4) numbers_valid_cong [of "set_cell a b s" s d]
        by simp
    next
      case None
      let ?s1 = "mark x dir a s"
      obtain b s2 where m: "m x ?s1 = (b, s2)" by force
      have s1: "searching T k dir a (list_ex (\<lambda>x. ok x \<and> P x) (x # xs)) ?s1" "kept a (Suc k) s ?s1"
        using search_marks [OF Cons.prems(2) v] by auto
      have "cells_valid T k ?s1" "numbers_valid d ?s1"
        using s1 Cons.prems(4) numbers_valid_cong [of ?s1 s d] by (auto simp: searching_def)
      from implementsD [OF impl True this] m
      have s2: "b = P x" "cells_valid T k s2" "numbers_valid d s2" "kept (next_cell ?s1) k ?s1 s2" by auto
      have search: "searching T k dir a (list_ex (\<lambda>x. ok x \<and> P x) (x # xs)) s2"
        by (rule search_inner [OF s1(1) s2(4,2)])
      have fr: "kept a (Suc k) s s2"
        using frame_trans [OF s1(2) frame_mono [OF s2(4), of "Suc k" a]] a by simp
      show ?thesis
      proof (cases b)
        case True
        then show ?thesis
          using \<open>ok x\<close> None m s2 search_ends [OF search] numbers_valid_cong [of "set_cell a True s2" s2 d]
            frame_trans [OF fr set_cell_frame [of a s2]] search
          by (simp add: mark_def searching_def)
      next
        case False
        then have same: "set_cell a False s2 = s2" and eq: "list_ex (\<lambda>x. ok x \<and> P x) (x # xs) = list_ex (\<lambda>x. ok x \<and> P x) xs"
          using search s2(1) by (auto simp: set_cell_same searching_def)
        have ah: "ahead a xs s2"
          using ahead_inner [OF mark_ahead [OF Cons.prems(3) rest(2)] _ s2(4)] a by simp
        have "cached_match ok m dir k a (x # xs) s = cached_match ok m dir k a xs s2"
          using \<open>ok x\<close> None m False same by (simp add: mark_def)
        then show ?thesis
          using Cons.IH [OF rest(1) [symmetric] _ ah s2(3)] search eq frame_trans [OF fr _ order_refl] by simp
      qed
    qed
  qed
qed

section \<open>Matchers that implement a predicate\<close>

lemma implements_mono: "implements d T n ok m P \<Longrightarrow> n \<le> k \<Longrightarrow> implements d T k ok m P"
  unfolding implements_def
  by (meson cells_valid_frame cells_valid_mono frame_mono order_refl)

lemma cells_valid_cong: "(\<And>j. j < n \<Longrightarrow> T' j = T j) \<Longrightarrow> cells_valid T' n s = cells_valid T n s"
  by (auto simp: cells_valid_def)

lemma implements_table: "implements d T n ok m P \<Longrightarrow> (\<And>j. j < n \<Longrightarrow> T' j = T j) \<Longrightarrow> implements d T' n ok m P"
  by (simp add: implements_def cells_valid_cong [of n T' T])

lemma implements_pure: "(\<And>r. ok r \<Longrightarrow> P r = Q r) \<Longrightarrow> implements d T n ok (pure_matcher P) Q"
  by (simp add: implements_def pure_matcher_def)

lemma new_cell_searching:
  assumes "cells_valid T (Suc k) s"
  shows "searching T k dir (next_cell s) v (new_cell k s)" "ahead (next_cell s) xs (new_cell k s)"
    "kept (next_cell s) (Suc k) s (new_cell k s)"
  using assms
  by (force simp: searching_def ahead_def kept_def same_cell_def new_cell_def cells_valid_def)+

lemma implements_cached:
  assumes "implements d T k ok m P" "\<And>x. T k dir x = list_ex (\<lambda>x. ok x \<and> P x) (x # walk_along dir x)"
  shows "implements d T (Suc k) ok' (\<lambda>r s. cached_match ok m dir k (next_cell s) (walk_along dir r) (new_cell k s))
           (\<lambda>r. list_ex P (filter ok (walk_along dir r)))"
  unfolding implements_def
proof (intro allI impI)
  fix r s
  assume s: "cells_valid T (Suc k) s" "numbers_valid d s"
  have "numbers_valid d (new_cell k s)"
    using s(2) numbers_valid_cong [of "new_cell k s" s d] by (simp add: new_cell_def)
  from cached_match_right [OF assms refl new_cell_searching(1,2) [OF s(1)] this, of r]
    frame_trans [OF new_cell_searching(3) [OF s(1)] _ order_refl]
  show "fst (cached_match ok m dir k (next_cell s) (walk_along dir r) (new_cell k s)) = list_ex P (filter ok (walk_along dir r)) \<and>
    cells_valid T (Suc k) (snd (cached_match ok m dir k (next_cell s) (walk_along dir r) (new_cell k s))) \<and>
    numbers_valid d (snd (cached_match ok m dir k (next_cell s) (walk_along dir r) (new_cell k s))) \<and>
    kept (next_cell s) (Suc k) s (snd (cached_match ok m dir k (next_cell s) (walk_along dir r) (new_cell k s)))"
    by (auto simp: list_ex_iff)
qed

lemma implements_any: "implements d T n ok m P \<Longrightarrow> implements d T n ok' (\<lambda>r. any_match ok m (f r)) (\<lambda>r. list_ex P (filter ok (f r)))"
proof -
  assume m: "implements d T n ok m P"
  have "cells_valid T n s \<Longrightarrow> numbers_valid d s \<Longrightarrow>
    fst (any_match ok m xs s) = list_ex P (filter ok xs) \<and> cells_valid T n (snd (any_match ok m xs s)) \<and>
    numbers_valid d (snd (any_match ok m xs s)) \<and> kept (next_cell s) n s (snd (any_match ok m xs s))" for xs s
  proof (induction xs arbitrary: s)
    case (Cons x xs)
    obtain b s1 where b: "m x s = (b, s1)" by force
    show ?case
    proof (cases "ok x")
      case True
      have s1: "b = P x" "cells_valid T n s1" "numbers_valid d s1" "kept (next_cell s) n s s1"
        using implementsD [OF m True Cons.prems] b by auto
      then show ?thesis
        using True b Cons.IH [OF s1(2,3)] frame_trans [OF s1(4)] frame_counters [OF s1(4)] by auto
    qed (use Cons in auto)
  qed simp
  then show ?thesis by (simp add: implements_def)
qed

lemma implements_closest: "implements d T n ok m P \<Longrightarrow> implements d T n ok' (\<lambda>r. closest_match ok m (f r)) (\<lambda>r. list_ex P (take 1 (filter ok (f r))))"
proof -
  assume m: "implements d T n ok m P"
  have "cells_valid T n s \<Longrightarrow> numbers_valid d s \<Longrightarrow>
    fst (closest_match ok m xs s) = list_ex P (take 1 (filter ok xs)) \<and> cells_valid T n (snd (closest_match ok m xs s)) \<and>
    numbers_valid d (snd (closest_match ok m xs s)) \<and> kept (next_cell s) n s (snd (closest_match ok m xs s))" for xs s
    by (induction xs) (auto dest: implementsD [OF m])
  then show ?thesis by (simp add: implements_def)
qed

definition comb_entry :: "(ref \<Rightarrow> bool) \<Rightarrow> (ref \<Rightarrow> bool) \<Rightarrow> comb_direction \<Rightarrow> ref \<Rightarrow> bool" where
  "comb_entry ok P dir x = list_ex (\<lambda>x. ok x \<and> P x) (x # walk_along dir x)"

lemma implements_combinator:
  assumes m: "implements d T n ok m P" and ok: "ok = (\<lambda>x. is_element d x \<or> base \<and> comb_dir c = Up)"
  shows "implements d (T(n := comb_entry ok P)) (Suc n) ok' (addCombinator xml d m c base n) (\<lambda>r. list_ex P (related ok c r))"
proof -
  let ?T = "T(n := comb_entry ok P)"
  have T: "implements d ?T n ok m P"
    by (rule implements_table [OF m]) simp
  have eq: "addCombinator xml d m c base n =
      (if comb_first c then (\<lambda>r. closest_match ok m (walk_along (comb_dir c) r))
       else if xml then (\<lambda>r. any_match ok m (walk_along (comb_dir c) r))
       else (\<lambda>r s. cached_match ok m (comb_dir c) n (next_cell s) (walk_along (comb_dir c) r) (new_cell n s)))"
    by (simp add: addCombinator_def fun_eq_iff ok Let_def)
  show ?thesis
    unfolding eq
    using implements_closest [OF implements_mono [OF T, of "Suc n"], of ok' "walk_along (comb_dir c)"]
      implements_any [OF implements_mono [OF T, of "Suc n"], of ok' "walk_along (comb_dir c)"]
      implements_cached [OF T, of "comb_dir c" ok']
    by (simp add: related_def Let_def comb_entry_def)
qed

section \<open>Child filters\<close>

lemma cycle_test_iff: "cycle_test a b n \<longleftrightarrow> in_progression a b n"
proof
  assume "in_progression a b n"
  then obtain k where "n = a * int k + b" unfolding in_progression_def by blast
  then have k: "n - b = a * int k" by simp
  then show "cycle_test a b n"
    by (cases "k = 0") (auto simp: cycle_test_def Let_def js_rem_def sgn_mult abs_mult)
next
  assume c: "cycle_test a b n"
  show "in_progression a b n"
  proof (cases "n - b = a")
    case True
    then have "n = a * int 1 + b" by simp
    then show ?thesis unfolding in_progression_def by blast
  next
    case False
    with c have a: "a \<noteq> 0" "\<bar>n - b\<bar> mod \<bar>a\<bar> = 0 \<or> n - b = 0" "n - b = 0 \<or> sgn (n - b) = sgn a"
      by (auto simp: cycle_test_def Let_def js_rem_def sgn_0_0 split: if_splits)
    then have "a dvd n - b" by (auto simp: mod_eq_0_iff_dvd)
    then obtain q where q: "n - b = a * q" by (elim dvdE)
    with a have "0 \<le> q" by (auto simp: sgn_if zero_less_mult_iff split: if_splits)
    then have "n = a * int (nat q) + b" using q by simp
    then show ?thesis unfolding in_progression_def by blast
  qed
qed

lemma in_progression_code [code]: "in_progression a b n = cycle_test a b n"
  by (simp add: cycle_test_iff)

lemma siblings_facts:
  "distinct (siblings_of d p)" "i < length (siblings_of d p) \<Longrightarrow> siblings_of d p ! i = i # p"
  by (auto simp: siblings_of_def distinct_map inj_on_def split: option.splits)

lemma element_bound: "is_element d (i # p) \<Longrightarrow> i < length (siblings_of d p)"
  by (auto simp: is_element_def siblings_of_def split: option.splits if_splits)

lemma preceding_siblings: "i \<le> length (siblings_of d p) \<Longrightarrow> preceding (i # p) = rev (take i (siblings_of d p))"
proof (induction i)
  case (Suc i)
  then show ?case by (simp add: take_Suc_conv_app_nth siblings_facts)
qed simp

lemma seek_found:
  "distinct xs \<Longrightarrow> k < length xs \<Longrightarrow> xs ! k = r \<Longrightarrow> P r \<Longrightarrow> seek P r xs i n = Some (i + k, n + length (filter P (take (Suc k) xs)))"
proof (induction xs arbitrary: k i n)
  case (Cons x xs)
  then show ?case
  proof (cases k)
    case (Suc j)
    then have "x \<noteq> r" using Cons.prems by auto
    then show ?thesis using Cons Suc by simp
  qed simp
qed simp

lemma seek_none: "r \<notin> set xs \<Longrightarrow> seek P r xs i n = None"
  by (induction xs arbitrary: i n) auto

lemma resume_seek_right:
  assumes v: "numbers_valid d s" and e: "is_element d (i # p)" and f: "resume_seek d p (i # p) s = Some f"
  shows "f = (i, front_number d p i)"
proof -
  let ?xs = "siblings_of d p"
  obtain j n where j: "nth_at s p = Some (dirruns s, j, n)" "seek (is_element d) (i # p) (drop (Suc j) ?xs) (Suc j) n = Some f"
    using f by (auto simp: resume_seek_def split: option.splits if_splits)
  have n: "j < length ?xs" "n = front_number d p j"
    using v j(1) by (auto simp: numbers_valid_def)
  have "i # p \<in> set (drop (Suc j) ?xs)"
    using j(2) seek_none by (metis option.distinct(1))
  then obtain k where k: "k < length (drop (Suc j) ?xs)" "drop (Suc j) ?xs ! k = i # p"
    by (auto simp: in_set_conv_nth)
  then have i: "i = Suc j + k" using siblings_facts(2) [of "Suc j + k" d p] by simp
  have "f = (Suc j + k, n + length (filter (is_element d) (take (Suc k) (drop (Suc j) ?xs))))"
    using j(2) seek_found [OF _ k, of "is_element d"] e siblings_facts(1) [of d p] by simp
  moreover have "take (Suc i) ?xs = take (Suc j) ?xs @ take (Suc k) (drop (Suc j) ?xs)"
    using take_add [of "Suc j" "Suc k" ?xs] by (simp add: i)
  ultimately show ?thesis using n i by (simp add: front_number_def)
qed

lemma seek_right: "is_element d (i # p) \<Longrightarrow> seek (is_element d) (i # p) (siblings_of d p) 0 0 = Some (i, front_number d p i)"
  using seek_found [OF siblings_facts(1) element_bound, of d i p "i # p" "is_element d" 0 0]
  by (simp add: siblings_facts element_bound front_number_def)

lemma nth_index_right:
  assumes v: "numbers_valid d s" and e: "is_element d (i # p)"
  shows "nth_index d p (i # p) s = (front_number d p i, s\<lparr>nth_at := (nth_at s)(p \<mapsto> (dirruns s, i, front_number d p i))\<rparr>)"
  using resume_seek_right [OF v e] seek_right [OF e]
  by (cases "resume_seek d p (i # p) s") (auto simp: nth_index_def)

lemma nth_index_valid:
  assumes "numbers_valid d s" "is_element d (i # p)"
  shows "numbers_valid d (s\<lparr>nth_at := (nth_at s)(p \<mapsto> (dirruns s, i, front_number d p i))\<rparr>)"
  using assms element_bound [OF assms(2)] by (auto simp: numbers_valid_def numbers_past_def)

lemma back_number_step:
  "i < length (siblings_of d p) \<Longrightarrow> back_number d p i = (if is_element d (i # p) then 1 else 0) + back_number d p (Suc i)"
  by (simp add: back_number_def Cons_nth_drop_Suc [symmetric] siblings_facts)

definition same_cells :: "sizzle \<Rightarrow> sizzle \<Rightarrow> bool" where
  "same_cells s s' \<longleftrightarrow> slot s' = slot s \<and> cells s' = cells s \<and> next_cell s' = next_cell s \<and> dirruns s' = dirruns s"

lemma same_cells_frame: "same_cells s s' \<Longrightarrow> kept b n s s'"
  by (simp add: same_cells_def kept_def same_cell_def)

lemma same_cells_valid: "same_cells s s' \<Longrightarrow> cells_valid T n s' = cells_valid T n s"
  by (simp add: same_cells_def cells_valid_def)

lemma count_back_right:
  assumes "is_element d (i # p)"
  shows "i < m \<Longrightarrow> m \<le> length (siblings_of d p) \<Longrightarrow> numbers_valid d s \<Longrightarrow>
    fst (count_back d (i # p) (rev (take m (siblings_of d p))) (back_number d p m) s) = back_number d p i \<and>
    numbers_valid d (snd (count_back d (i # p) (rev (take m (siblings_of d p))) (back_number d p m) s)) \<and>
    same_cells s (snd (count_back d (i # p) (rev (take m (siblings_of d p))) (back_number d p m) s))"
proof (induction m arbitrary: s)
  case (Suc m)
  have ys: "rev (take (Suc m) (siblings_of d p)) = (m # p) # rev (take m (siblings_of d p))"
    using Suc.prems by (simp add: take_Suc_conv_app_nth siblings_facts)
  have n: "back_number d p m = (if is_element d (m # p) then 1 else 0) + back_number d p (Suc m)"
    using Suc.prems by (simp add: back_number_step)
  let ?s1 = "s\<lparr>last_at := (last_at s)(m # p \<mapsto> (dirruns s, Suc (back_number d p (Suc m))))\<rparr>"
  show ?case
  proof (cases "is_element d (m # p)")
    case True
    then have s1: "numbers_valid d ?s1" "same_cells s ?s1"
      using Suc.prems(3) n by (auto simp: numbers_valid_def numbers_past_def same_cells_def)
    show ?thesis
    proof (cases "m = i")
      case False
      then show ?thesis
        using Suc.IH [of ?s1] Suc.prems s1 True n unfolding ys by (auto simp: same_cells_def Let_def)
    next
      case eq: True
      then show ?thesis using s1 True n unfolding ys unfolding eq by (simp add: Let_def)
    qed
  next
    case False
    then have "m \<noteq> i" using assms by auto
    then show ?thesis using Suc.IH [of s] Suc.prems False n unfolding ys by simp
  qed
qed simp

lemma last_index_right:
  assumes v: "numbers_valid d s" and e: "is_element d (i # p)"
  shows "fst (last_index d p (i # p) s) = back_number d p i \<and> numbers_valid d (snd (last_index d p (i # p) s)) \<and>
    same_cells s (snd (last_index d p (i # p) s))"
proof -
  have all: "back_number d p (length (siblings_of d p)) = 0" by (simp add: back_number_def)
  have "n = back_number d p i" if "last_at s (i # p) = Some (dirruns s, n)" for n
    using v that by (auto simp: numbers_valid_def)
  then show ?thesis
    using count_back_right [OF e element_bound [OF e] order_refl v] all v
    by (auto simp: last_index_def same_cells_def split: option.splits)
qed

lemma number_before: "is_element d (i # p) \<Longrightarrow> front_number d p i = Suc (length (filter (is_element d) (preceding (i # p))))"
  using element_bound [of d i p] preceding_siblings [of i d p]
  by (simp add: front_number_def take_Suc_conv_app_nth siblings_facts rev_filter [symmetric])

lemma number_after: "is_element d (i # p) \<Longrightarrow> back_number d p i = Suc (length (filter (is_element d) (following d (i # p))))"
  using element_bound [of d i p]
  by (simp add: back_number_def following_def Cons_nth_drop_Suc [symmetric] siblings_facts)

lemma seek_counts:
  assumes "is_element d (i # p)"
  shows "found_count (seek (counts d t (i # p)) (i # p) (siblings_of d p) 0 0) = Suc (length (filter (counts d t (i # p)) (preceding (i # p))))"
    and "found_count (seek (counts d t (i # p)) (i # p) (rev (siblings_of d p)) 0 0) = Suc (length (filter (counts d t (i # p)) (following d (i # p))))"
proof -
  let ?xs = "siblings_of d p" and ?P = "counts d t (i # p)"
  note i = element_bound [OF assms]
  have P: "?P (i # p)" using assms by (simp add: counts_def)
  show "found_count (seek ?P (i # p) ?xs 0 0) = Suc (length (filter ?P (preceding (i # p))))"
    using seek_found [OF siblings_facts(1) i, of "i # p" ?P 0 0] i P preceding_siblings [of i d p]
    by (simp add: siblings_facts found_count_def take_Suc_conv_app_nth rev_filter [symmetric])
  have k: "length ?xs - Suc i < length (rev ?xs)" "rev ?xs ! (length ?xs - Suc i) = i # p"
    using i by (simp_all add: rev_nth siblings_facts)
  have "take (Suc (length ?xs - Suc i)) (rev ?xs) = rev (drop i ?xs)"
    using i by (simp add: take_rev Suc_diff_Suc)
  then show "found_count (seek ?P (i # p) (rev ?xs) 0 0) = Suc (length (filter ?P (following d (i # p))))"
    using seek_found [OF _ k, of ?P 0 0] i P siblings_facts(1) [of d p]
    by (simp add: found_count_def following_def Cons_nth_drop_Suc [symmetric] siblings_facts rev_filter [symmetric])
qed

lemma child_index_right:
  assumes v: "numbers_valid d s" and e: "is_element d (i # p)"
  shows "fst (child_index xml d fw t p (i # p) s) =
      Suc (length (filter (counts d t (i # p)) (if fw then preceding (i # p) else following d (i # p)))) \<and>
    numbers_valid d (snd (child_index xml d fw t p (i # p) s)) \<and> same_cells s (snd (child_index xml d fw t p (i # p) s))"
proof (cases "xml \<or> t")
  case True
  then show ?thesis using v seek_counts [OF e, of t] by (simp add: child_index_def same_cells_def)
next
  case False
  then have "counts d t (i # p) = is_element d" by (simp add: counts_def fun_eq_iff)
  then show ?thesis
    using False nth_index_right [OF v e] nth_index_valid [OF v e] last_index_right [OF v e] number_before [OF e] number_after [OF e]
    by (simp add: child_index_def same_cells_def)
qed

lemma nth_filter_right:
  assumes v: "numbers_valid d s" and e: "is_element d (i # p)"
  shows "fst (nth_filter xml d fw t a b p (i # p) s) =
      in_progression a b (1 + int (length (filter (counts d t (i # p)) (if fw then preceding (i # p) else following d (i # p))))) \<and>
    numbers_valid d (snd (nth_filter xml d fw t a b p (i # p) s)) \<and> same_cells s (snd (nth_filter xml d fw t a b p (i # p) s))"
proof (cases "a = 1 \<and> b = 0")
  case True
  have "in_progression 1 0 (1 + int n)" for n
    unfolding in_progression_def by (rule exI [of _ "Suc n"]) simp
  then show ?thesis using True v by (simp add: nth_filter_def same_cells_def)
next
  case False
  then show ?thesis
    using child_index_right [OF v e, of xml fw t]
    by (auto simp: nth_filter_def cycle_test_iff split: prod.splits)
qed

lemma implements_child: "implements d T n (is_element d) (child_filter xml d ty t a b) (child_spec d ty t a b)"
  unfolding implements_def
proof (intro allI impI)
  fix r s
  assume a: "is_element d r" "cells_valid T n s" "numbers_valid d s"
  show "fst (child_filter xml d ty t a b r s) = child_spec d ty t a b r \<and>
    cells_valid T n (snd (child_filter xml d ty t a b r s)) \<and> numbers_valid d (snd (child_filter xml d ty t a b r s)) \<and>
    kept (next_cell s) n s (snd (child_filter xml d ty t a b r s))"
  proof (cases r)
    case Nil
    then show ?thesis using a by (cases ty) (simp_all add: child_filter_def)
  next
    case (Cons i p)
    have e: "is_element d (i # p)" using a(1) Cons by simp
    show ?thesis
      using a(2,3) nth_filter_right [OF a(3) e, of xml True t a b] nth_filter_right [OF a(3) e, of xml False t a b]
      by (cases ty) (auto simp: child_filter_def Cons filter_empty_conv list_ex_iff same_cells_frame same_cells_valid)
  qed
qed

lemma implements_filter: "implements d T n (is_element d) (filter_matcher ps xml d f) (filter_spec ps d f)"
proof -
  have "filter_spec ps d (CHILD ty t a b) = child_spec d ty t a b" for ty t a b by (simp add: fun_eq_iff)
  then show ?thesis by (cases f) (simp_all add: implements_pure implements_child)
qed

section \<open>Compiled selectors\<close>

lemma elementMatcher_ask: "ms \<noteq> [] \<Longrightarrow> elementMatcher ms = ask (rev ms)"
  by (cases ms; cases "tl ms") (auto simp: elementMatcher_def fun_eq_iff split: prod.split)

lemma implements_ask:
  assumes f: "implements d T n ok m P" and g: "implements d T n ok (ask ms) Q"
  shows "implements d T n ok (ask (m # ms)) (\<lambda>r. P r \<and> Q r)"
  unfolding implements_def
proof (intro allI impI)
  fix r s
  assume a: "ok r" "cells_valid T n s" "numbers_valid d s"
  obtain b s1 where b: "m r s = (b, s1)" by force
  then have s1: "b = P r" "cells_valid T n s1" "numbers_valid d s1" "kept (next_cell s) n s s1"
    using implementsD [OF f a] by auto
  show "fst (ask (m # ms) r s) = (P r \<and> Q r) \<and> cells_valid T n (snd (ask (m # ms) r s)) \<and>
    numbers_valid d (snd (ask (m # ms) r s)) \<and> kept (next_cell s) n s (snd (ask (m # ms) r s))"
    using implementsD [OF g a(1) s1(2,3)] b s1 frame_trans [OF s1(4)] frame_counters [OF s1(4)] by auto
qed

definition compiled :: "run \<Rightarrow> (nat \<Rightarrow> comb_direction \<Rightarrow> ref \<Rightarrow> bool) \<Rightarrow> nat \<Rightarrow> matcher list \<Rightarrow> (ref \<Rightarrow> bool) \<Rightarrow> bool" where
  "compiled e T n ms Q \<longleftrightarrow> ms \<noteq> [] \<and> implements (r_doc e) T n (is_element (r_doc e)) (ask (rev ms)) Q"

lemma compiled_one: "implements (r_doc e) T n (is_element (r_doc e)) m Q \<Longrightarrow> compiled e T n [m] Q"
  using elementMatcher_ask [of "[m]"] by (simp add: compiled_def elementMatcher_def)

lemma add_token_compiled:
  assumes "compiled e T n ms (selects e lead us)" "add_token e t (ms, n) = (ms', n')"
  obtains T' where "n \<le> n'" "\<And>j. j < n \<Longrightarrow> T' j = T j" "compiled e T' n' ms' (selects e lead (t # us))"
proof (cases t)
  case (Rel c)
  let ?ok = "is_element (r_doc e)"
  have m: "implements (r_doc e) T n ?ok (elementMatcher ms) (selects e lead us)"
    using assms(1) by (simp add: compiled_def elementMatcher_ask)
  have ms: "ms' = [addCombinator (r_xml e) (r_doc e) (elementMatcher ms) c False n]" "n' = Suc n"
    using assms(2) Rel by auto
  have "selects e lead (t # us) = (\<lambda>r. list_ex (selects e lead us) (related ?ok c r))"
    by (simp add: Rel fun_eq_iff)
  then have "compiled e (T(n := comb_entry ?ok (selects e lead us))) n' ms' (selects e lead (t # us))"
    unfolding ms using compiled_one [OF implements_combinator [OF m, of False c ?ok "r_xml e"]] by simp
  then show thesis using that [of "T(n := comb_entry ?ok (selects e lead us))"] ms by simp
next
  case (Filter f)
  have "selects e lead (t # us) = (\<lambda>r. filter_spec (r_pseudos e) (r_doc e) f r \<and> selects e lead us r)"
    by (simp add: Filter fun_eq_iff)
  then have "compiled e T n' ms' (selects e lead (t # us))"
    using assms implements_ask [OF implements_filter] by (auto simp: compiled_def Filter)
  then show thesis using that [of T] assms(2) Filter by simp
qed

lemma fold_compiled:
  "compiled e T n ms (selects e lead us) \<Longrightarrow> fold (add_token e) ts (ms, n) = (ms', n') \<Longrightarrow>
   \<exists>T'. n \<le> n' \<and> (\<forall>j < n. T' j = T j) \<and> compiled e T' n' ms' (selects e lead (rev ts @ us))"
proof (induction ts arbitrary: T n ms us)
  case Nil
  then show ?case by auto
next
  case (Cons t ts)
  obtain ms1 n1 where t: "add_token e t (ms, n) = (ms1, n1)" by force
  obtain T1 where T1: "n \<le> n1" "\<And>j. j < n \<Longrightarrow> T1 j = T j" "compiled e T1 n1 ms1 (selects e lead (t # us))"
    using add_token_compiled [OF Cons.prems(1) t] by blast
  have "fold (add_token e) ts (ms1, n1) = (ms', n')" using Cons.prems(2) t by simp
  from Cons.IH [OF T1(3) this] obtain T2 where
    "n1 \<le> n'" "\<forall>j < n1. T2 j = T1 j" "compiled e T2 n' ms' (selects e lead (rev ts @ t # us))" by blast
  then show ?case using T1 by (intro exI [of _ T2]) auto
qed

text \<open>The context as the first matcher.\<close>

lemma context_compiled:
  "\<exists>T'. (\<forall>j < n. T' j = T j) \<and> implements (r_doc e) T' (n + 2) (is_element (r_doc e)) (context_matcher e lead n) (from_context e lead)"
proof (cases "lead = None \<and> (r_xml e \<or> outermostContext e \<noteq> Some (r_context e))")
  case True
  then have "from_context e lead r" for r
    by (auto simp: from_context_def outermostContext_def split: option.splits if_splits)
  moreover have "context_matcher e lead n = pure_matcher (\<lambda>_. True)"
    using True by (auto simp: context_matcher_def pure_matcher_def fun_eq_iff)
  ultimately have "implements (r_doc e) T (n + 2) (is_element (r_doc e)) (context_matcher e lead n) (from_context e lead)"
    by (simp add: implements_pure)
  then show ?thesis by (intro exI [of _ T]) simp
next
  case False
  define c where "c = (case lead of None \<Rightarrow> Descendant | Some c \<Rightarrow> c)"
  define ok where "ok = (\<lambda>x. is_element (r_doc e) x \<or> True \<and> comb_dir c = Up)"
  have m: "context_matcher e lead n = addCombinator (r_xml e) (r_doc e) (pure_matcher (\<lambda>x. x = r_context e)) c True n"
    unfolding context_matcher_def c_def fun_eq_iff if_not_P [OF False] by simp
  have p: "implements (r_doc e) T n ok (pure_matcher (\<lambda>x. x = r_context e)) (\<lambda>x. x = r_context e)"
    by (simp add: implements_pure)
  have "from_context e lead = (\<lambda>r. list_ex (\<lambda>x. x = r_context e) (related ok c r))"
    using False by (cases lead) (auto simp: from_context_def fun_eq_iff ok_def c_def related_def comb_first_def list_ex_iff outermostContext_def)
  then have "implements (r_doc e) (T(n := comb_entry ok (\<lambda>x. x = r_context e))) (n + 2) (is_element (r_doc e)) (context_matcher e lead n) (from_context e lead)"
    using implements_mono [OF implements_combinator [OF p ok_def, of "is_element (r_doc e)" "r_xml e"], of "n + 2"] m by simp
  then show ?thesis by (intro exI [of _ "T(n := comb_entry ok (\<lambda>x. x = r_context e))"]) simp
qed

lemma matcherFromTokens_compiled:
  assumes "matcherFromTokens e ts n = (m, k)"
  shows "\<exists>T'. n \<le> k \<and> (\<forall>j < n. T' j = T j) \<and> implements (r_doc e) T' k (is_element (r_doc e)) m (matches_group e ts)"
proof -
  let ?ts = "if leading ts = None then ts else tl ts"
  obtain ms where f: "fold (add_token e) ?ts ([context_matcher e (leading ts) n], n + 2) = (ms, k)" "m = elementMatcher ms"
    using assms by (auto simp: matcherFromTokens_def split: prod.splits)
  obtain T1 where T1: "\<forall>j < n. T1 j = T j"
    "implements (r_doc e) T1 (n + 2) (is_element (r_doc e)) (context_matcher e (leading ts) n) (from_context e (leading ts))"
    using context_compiled by blast
  have "from_context e (leading ts) = selects e (leading ts) []" by (simp add: fun_eq_iff)
  then have "compiled e T1 (n + 2) [context_matcher e (leading ts) n] (selects e (leading ts) [])"
    using compiled_one [OF T1(2)] by simp
  from fold_compiled [OF this f(1)] obtain T2 where T2: "n + 2 \<le> k" "\<forall>j < n + 2. T2 j = T1 j"
    "compiled e T2 k ms (selects e (leading ts) (rev ?ts @ []))" by blast
  then have i: "ms \<noteq> []" "implements (r_doc e) T2 k (is_element (r_doc e)) (ask (rev ms)) (selects e (leading ts) (rev ?ts))"
    unfolding compiled_def append_Nil2 by blast+
  have "implements (r_doc e) T2 k (is_element (r_doc e)) m (matches_group e ts)"
    unfolding f(2) elementMatcher_ask [OF i(1)] matches_group_def by (rule i(2))
  then show ?thesis using T1 T2 by (intro exI [of _ T2]) auto
qed

lemma compile_groups_compiled:
  "compile_groups e gs n = (ms, k) \<Longrightarrow>
   \<exists>T'. n \<le> k \<and> (\<forall>j < n. T' j = T j) \<and>
     list_all2 (\<lambda>m g. implements (r_doc e) T' k (is_element (r_doc e)) m (matches_group e g)) ms gs"
proof (induction gs arbitrary: n T ms)
  case Nil
  then show ?case by (auto intro!: exI [of _ T])
next
  case (Cons g gs)
  obtain m j ms1 where m: "matcherFromTokens e g n = (m, j)" "compile_groups e gs j = (ms1, k)" "ms = m # ms1"
    using Cons.prems by (auto split: prod.splits)
  obtain T1 where T1: "n \<le> j" "\<forall>i < n. T1 i = T i" "implements (r_doc e) T1 j (is_element (r_doc e)) m (matches_group e g)"
    using matcherFromTokens_compiled [OF m(1)] by blast
  obtain T2 where T2: "j \<le> k" "\<forall>i < j. T2 i = T1 i"
    "list_all2 (\<lambda>m g. implements (r_doc e) T2 k (is_element (r_doc e)) m (matches_group e g)) ms1 gs"
    using Cons.IH [OF m(2), of T1] by blast
  have "implements (r_doc e) T2 k (is_element (r_doc e)) m (matches_group e g)"
    using implements_mono [OF implements_table [OF T1(3)] T2(1)] T2(2) by blast
  then show ?case using T1 T2 m(3) by (intro exI [of _ T2]) auto
qed

lemma implements_any_group:
  "list_all2 (\<lambda>m g. implements d T k ok m (Q g)) ms gs \<Longrightarrow> implements d T k ok (any_group ms) (\<lambda>r. list_ex (\<lambda>g. Q g r) gs)"
proof (induction rule: list_all2_induct)
  case Nil
  then show ?case by (simp add: implements_def)
next
  case (Cons m ms g gs)
  show ?case
    unfolding implements_def
  proof (intro allI impI)
    fix r s
    assume a: "ok r" "cells_valid T k s" "numbers_valid d s"
    obtain b s1 where b: "m r s = (b, s1)" by force
    then have s1: "b = Q g r" "cells_valid T k s1" "numbers_valid d s1" "kept (next_cell s) k s s1"
      using implementsD [OF Cons.hyps(1) a] by auto
    show "fst (any_group (m # ms) r s) = list_ex (\<lambda>g. Q g r) (g # gs) \<and> cells_valid T k (snd (any_group (m # ms) r s)) \<and>
      numbers_valid d (snd (any_group (m # ms) r s)) \<and> kept (next_cell s) k s (snd (any_group (m # ms) r s))"
      using implementsD [OF Cons.IH a(1) s1(2,3)] b s1 frame_trans [OF s1(4)] frame_counters [OF s1(4)] by auto
  qed
qed

lemma match_elements_filter:
  assumes "implements d T k ok (any_group ms) Q"
  shows "(\<And>x. x \<in> set xs \<Longrightarrow> ok x) \<Longrightarrow> cells_valid T k s \<Longrightarrow> numbers_valid d s \<Longrightarrow>
    fst (match_elements ms xs s) = filter Q xs \<and> cells_valid T k (snd (match_elements ms xs s)) \<and>
    numbers_valid d (snd (match_elements ms xs s))"
proof (induction xs arbitrary: s)
  case (Cons x xs)
  obtain b s1 where b: "any_group ms x s = (b, s1)" by force
  then have s1: "b = Q x" "cells_valid T k s1" "numbers_valid d s1"
    using implementsD [OF assms _ Cons.prems(2,3), of x] Cons.prems(1) by auto
  then show ?case using Cons.IH [OF _ s1(2,3)] Cons.prems(1) b by (auto split: prod.splits)
qed simp

text \<open>Between searches, everything on the nodes belongs to runs that are over.\<close>

definition results_past :: "sizzle \<Rightarrow> bool" where
  "results_past s \<longleftrightarrow> cells_valid (\<lambda>_ _ _. False) 0 s \<and> numbers_past s"

lemma next_run_valid:
  assumes "results_past s"
  shows "cells_valid T k (s\<lparr>dirruns := Suc (dirruns s)\<rparr>)" "numbers_valid d (s\<lparr>dirruns := Suc (dirruns s)\<rparr>)"
  using assms by (force simp: results_past_def cells_valid_def numbers_valid_def numbers_past_def)+

lemma valid_past: "cells_valid T k s \<Longrightarrow> numbers_valid d s \<Longrightarrow> results_past s"
  by (auto simp: results_past_def cells_valid_def numbers_valid_def)

definition search_candidates :: "run \<Rightarrow> ref list option \<Rightarrow> ref \<Rightarrow> ref list" where
  "search_candidates e seed outermost = (case seed of None \<Rightarrow> elements_below (r_doc e) outermost | Some xs \<Rightarrow> xs)"

lemma superMatcher_filter:
  assumes "results_past s" "\<And>x. x \<in> set (search_candidates e seed outermost) \<Longrightarrow> is_element (r_doc e) x"
  shows "fst (superMatcher e groups n seed outermost s) =
      filter (\<lambda>x. list_ex (\<lambda>g. matches_group e g x) groups) (search_candidates e seed outermost)"
    and "results_past (snd (superMatcher e groups n seed outermost s))"
proof -
  obtain ms k where c: "compile_groups e (rev groups) n = (ms, k)" by force
  obtain T where "list_all2 (\<lambda>m g. implements (r_doc e) T k (is_element (r_doc e)) m (matches_group e g)) ms (rev groups)"
    using compile_groups_compiled [OF c, of "\<lambda>_ _ _. False"] by blast
  from match_elements_filter [OF implements_any_group [OF this] assms(2) next_run_valid [OF assms(1)]]
  have "fst (superMatcher e groups n seed outermost s) =
      filter (\<lambda>x. list_ex (\<lambda>g. matches_group e g x) (rev groups)) (search_candidates e seed outermost) \<and>
    results_past (snd (superMatcher e groups n seed outermost s))"
    unfolding superMatcher_def c search_candidates_def [symmetric] by (auto dest: valid_past)
  then show "fst (superMatcher e groups n seed outermost s) =
      filter (\<lambda>x. list_ex (\<lambda>g. matches_group e g x) groups) (search_candidates e seed outermost)"
    "results_past (snd (superMatcher e groups n seed outermost s))"
    by (simp_all add: list_ex_iff)
qed

section \<open>Sequences of searches\<close>

record search =
  q_run :: run
  q_groups :: "sel_token list list"
  q_done :: nat
  q_seed :: "ref list option"
  q_root :: ref

fun searches :: "search list \<Rightarrow> sizzle \<Rightarrow> ref list list \<times> sizzle" where
  "searches [] s = ([], s)"
| "searches (q # qs) s =
     (case superMatcher (q_run q) (q_groups q) (q_done q) (q_seed q) (q_root q) s of
        (xs, s1) \<Rightarrow> (case searches qs s1 of (xss, s2) \<Rightarrow> (xs # xss, s2)))"

definition answer :: "search \<Rightarrow> ref list" where
  "answer q = filter (\<lambda>x. list_ex (\<lambda>g. matches_group (q_run q) g x) (q_groups q)) (search_candidates (q_run q) (q_seed q) (q_root q))"

lemma searches_right:
  "results_past s \<Longrightarrow> (\<And>q x. q \<in> set qs \<Longrightarrow> x \<in> set (search_candidates (q_run q) (q_seed q) (q_root q)) \<Longrightarrow> is_element (r_doc (q_run q)) x) \<Longrightarrow>
   fst (searches qs s) = map answer qs"
proof (induction qs arbitrary: s)
  case (Cons q qs)
  obtain xs s1 where q: "superMatcher (q_run q) (q_groups q) (q_done q) (q_seed q) (q_root q) s = (xs, s1)" by force
  have "xs = answer q" "results_past s1"
    using superMatcher_filter [OF Cons.prems(1), of "q_run q" "q_seed q" "q_root q" "q_groups q" "q_done q"] Cons.prems(2) [of q] q
    by (auto simp: answer_def)
  then show ?case using Cons.IH [of s1] Cons.prems(2) q by (auto split: prod.splits)
qed simp

lemma no_results_past: "results_past no_results"
  by (simp add: results_past_def cells_valid_def numbers_past_def no_results_def)

end
