(* ===== verification/JQ_Sizzle_Select.thy ===== *)
theory JQ_Sizzle_Select
  imports JQ_Sizzle_Props "HOL-Library.List_Lexorder"
begin

text \<open>
  The search of \<open>select\<close> with its shortcuts, the order of the document, and the caches of limited size.
\<close>

section \<open>Elements in the order of the document\<close>

lemma ancestors_suffix: "a \<in> set (ancestors x) \<longleftrightarrow> (\<exists>zs. zs \<noteq> [] \<and> x = zs @ a)"
proof (induction x)
  case (Cons i p)
  show ?case
    unfolding ancestors.simps set_simps insert_iff Cons.IH by (metis append_Cons append_Nil list.distinct(1) list.exhaust list.inject)
qed simp

lemma ancestors_trans: "a \<in> set (ancestors b) \<Longrightarrow> b \<in> set (ancestors x) \<Longrightarrow> a \<in> set (ancestors x)"
  unfolding ancestors_suffix by (metis append_assoc append_is_Nil_conv)

lemma ancestors_length: "a \<in> set (ancestors x) \<Longrightarrow> b \<in> set (ancestors x) \<Longrightarrow> length a = length b \<Longrightarrow> a = b"
  unfolding ancestors_suffix by (metis append_eq_append_conv)

lemma ancestors_less: "a \<in> set (ancestors x) \<Longrightarrow> length a < length x"
  by (auto simp: ancestors_suffix)

lemma below_under:
  "x \<in> set (below p i ns) \<Longrightarrow> p \<in> set (ancestors x)"
  "x \<in> set (below_node r n) \<Longrightarrow> x = r \<or> r \<in> set (ancestors x)"
proof (induction p i ns and r n rule: below_below_node.induct)
  case (2 p i n ns)
  then show ?case using ancestors_trans [of p "i # p" x] by auto
qed (auto split: if_splits)

lemma filter_below:
  "filter (\<lambda>x. k # p \<in> set (ancestors x)) (below p i ns) =
     (if i \<le> k \<and> k < i + length ns then below (k # p) 0 (childNodes (ns ! (k - i))) else [])"
proof (induction ns arbitrary: i)
  case (Cons n ns)
  obtain ty nm ats v kids where n: "n = Node ty nm ats v kids" by (cases n)
  have "filter (\<lambda>x. k # p \<in> set (ancestors x)) (below (i # p) 0 kids) = (if k = i then below (i # p) 0 kids else [])"
  proof (cases "k = i")
    case True
    then show ?thesis using below_under(1) [of _ "i # p" 0 kids] by (simp add: filter_id_conv)
  next
    case False
    then have "k # p \<notin> set (ancestors x)" if "x \<in> set (below (i # p) 0 kids)" for x
      using below_under(1) [OF that] ancestors_length [of "i # p" x "k # p"] by auto
    then show ?thesis using False by (simp add: filter_empty_conv)
  qed
  moreover have "k # p \<notin> set (ancestors (i # p))" using ancestors_less [of "k # p" "i # p"] by auto
  ultimately show ?case
    using Cons.IH [of "Suc i"] by (auto simp: n nth_Cons' not_less_eq_eq)
qed auto

lemma elements_below_child: "filter (\<lambda>x. k # p \<in> set (ancestors x)) (elements_below d p) = elements_below d (k # p)"
  by (auto simp: elements_below_def filter_below split: option.splits)

lemma elements_below_filter: "node_at d y \<noteq> None \<Longrightarrow> filter (\<lambda>x. y \<in> set (ancestors x)) (elements_below d []) = elements_below d y"
proof (induction y)
  case Nil
  then show ?case using below_under(1) by (auto simp: elements_below_def filter_id_conv)
next
  case (Cons k p)
  have n: "node_at d p \<noteq> None" using Cons.prems by (auto split: option.splits)
  have "elements_below d (k # p) = filter (\<lambda>x. k # p \<in> set (ancestors x)) (filter (\<lambda>x. p \<in> set (ancestors x)) (elements_below d []))"
    unfolding Cons.IH [OF n] elements_below_child ..
  also have "\<dots> = filter (\<lambda>x. k # p \<in> set (ancestors x)) (elements_below d [])"
    unfolding filter_filter using ancestors_trans [of p "k # p"] by (intro filter_cong) auto
  finally show ?case by simp
qed

lemma below_elements:
  "(\<And>j. j < length ns \<Longrightarrow> node_at d ((i + j) # p) = Some (ns ! j)) \<Longrightarrow> x \<in> set (below p i ns) \<Longrightarrow> is_element d x"
  "node_at d r = Some n \<Longrightarrow> x \<in> set (below_node r n) \<Longrightarrow> is_element d x"
proof (induction p i ns and r n rule: below_below_node.induct)
  case (2 p i n ns)
  have "node_at d (i # p) = Some n" using 2(3) [of 0] by simp
  moreover have "node_at d ((Suc i + j) # p) = Some (ns ! j)" if "j < length ns" for j
    using 2(3) [of "Suc j"] that by simp
  ultimately show ?case using 2(1,2,4) by auto
next
  case (3 r ty nm ats v kids)
  then show ?case by (auto simp: is_element_def split: if_splits)
qed simp

lemma elements_below_elements: "x \<in> set (elements_below d r) \<Longrightarrow> is_element d x"
proof -
  assume x: "x \<in> set (elements_below d r)"
  then obtain n where n: "node_at d r = Some n" "x \<in> set (below r 0 (childNodes n))"
    by (cases "node_at d r") (auto simp: elements_below_def)
  show ?thesis by (rule below_elements(1) [OF _ n(2)]) (simp add: n(1))
qed

lemma below_direct: "j < length ns \<Longrightarrow> nodeType (ns ! j) = 1 \<Longrightarrow> (i + j) # p \<in> set (below p i ns)"
proof (induction ns arbitrary: i j)
  case (Cons n ns)
  show ?case
  proof (cases j)
    case 0
    then show ?thesis using Cons.prems by (cases n) auto
  next
    case (Suc k)
    then show ?thesis using Cons.IH [of k "Suc i"] Cons.prems by simp
  qed
qed simp

lemma element_listed: "is_element d (i # p) \<Longrightarrow> i # p \<in> set (elements_below d [])"
proof -
  assume e: "is_element d (i # p)"
  then obtain n where n: "node_at d p = Some n" "i < length (childNodes n)" "nodeType (childNodes n ! i) = 1"
    by (auto simp: is_element_def split: option.splits if_splits)
  then have "i # p \<in> set (elements_below d p)"
    using below_direct [of i "childNodes n" 0 p] by (simp add: elements_below_def)
  then show ?thesis using elements_below_filter [of d p] n(1) by (metis filter_is_subset in_mono option.distinct(1))
qed

lemma elements_below_nonroot: "x \<in> set (elements_below d r) \<Longrightarrow> r \<in> set (ancestors x)"
  using below_under(1) by (auto simp: elements_below_def split: option.splits)

section \<open>Selecting\<close>

text \<open>A document: the root is the document node, and elements are children of elements or of the root.\<close>

fun wf_below :: "dom_node \<Rightarrow> bool" where
  "wf_below (Node ty nm ats v kids) = list_all (\<lambda>k. nodeType k \<noteq> 9 \<and> (nodeType k = 1 \<longrightarrow> ty = 1) \<and> wf_below k) kids"

definition wf_document :: "dom_node \<Rightarrow> bool" where
  "wf_document d \<longleftrightarrow> nodeType d = 9 \<and> list_all (\<lambda>k. nodeType k \<noteq> 9 \<and> wf_below k) (childNodes d)"

lemma wf_children: "wf_below n \<Longrightarrow> k \<in> set (childNodes n) \<Longrightarrow> nodeType k \<noteq> 9 \<and> wf_below k \<and> (nodeType k = 1 \<longrightarrow> nodeType n = 1)"
  by (cases n) (auto simp: list_all_iff)

lemma wf_nodes: "wf_document d \<Longrightarrow> node_at d (i # p) = Some n \<Longrightarrow> nodeType n \<noteq> 9 \<and> wf_below n"
proof (induction p arbitrary: i n)
  case Nil
  then show ?case by (auto simp: wf_document_def list_all_iff split: if_splits)
next
  case (Cons j q)
  then obtain m where m: "node_at d (j # q) = Some m" "i < length (childNodes m)" "n = childNodes m ! i"
    by (simp only: node_at.simps) (auto split: option.splits if_splits)
  then show ?case using Cons.IH [OF Cons.prems(1) m(1)] wf_children [of m n] by auto
qed

lemma wf_parent: "wf_document d \<Longrightarrow> is_element d (i # j # q) \<Longrightarrow> is_element d (j # q)"
proof -
  assume wf: "wf_document d" and e: "is_element d (i # j # q)"
  then obtain m where m: "node_at d (j # q) = Some m" "i < length (childNodes m)" "nodeType (childNodes m ! i) = 1"
    unfolding is_element_def node_at.simps(2) [of d i] by (auto split: option.splits if_splits)
  then show ?thesis using wf_nodes [OF wf m(1)] wf_children [of m "childNodes m ! i"] by (simp add: is_element_def)
qed

lemma wf_root: "wf_document d \<Longrightarrow> \<not> is_element d []"
  by (simp add: wf_document_def is_element_def)

lemma document_root: "wf_document (r_doc e) \<Longrightarrow> is_document e \<longleftrightarrow> r_context e = []"
proof (cases "r_context e")
  case (Cons i p)
  assume "wf_document (r_doc e)"
  then show ?thesis
    using wf_nodes [of "r_doc e" i p] Cons by (cases "node_at (r_doc e) (i # p)") (simp_all add: is_document_def del: node_at.simps)
qed (simp add: is_document_def wf_document_def)

lemma outermost_document: "outermostContext e = None \<longleftrightarrow> is_document e"
  by (auto simp: outermostContext_def is_document_def split: option.splits)

text \<open>
  What is relied on from the document: its finders return what the filter of their type accepts, the document has
  \<open>getElementById\<close>, and ids are unique.
\<close>

definition finders_agree :: "finder \<Rightarrow> pseudo_table \<Rightarrow> dom_node \<Rightarrow> bool" where
  "finders_agree finds ps d \<longleftrightarrow> (\<forall>f c xs. finds f c = Some xs \<longrightarrow> xs = filter (filter_spec ps d f) (elements_below d c)) \<and>
     (\<forall>n. finds (ID n) [] \<noteq> None)"

definition unique_ids :: "dom_node \<Rightarrow> bool" where
  "unique_ids d \<longleftrightarrow> (\<forall>n. length (filter (id_filter d n) (elements_below d [])) \<le> 1)"

definition combinator_texts :: "(sel_token \<Rightarrow> string) \<Rightarrow> bool" where
  "combinator_texts txt \<longleftrightarrow> CHR ''+'' \<in> set (txt (Rel Adjacent)) \<and> CHR ''~'' \<in> set (txt (Rel Sibling))"

lemma related_walk: "x \<in> set (related ok c r) \<Longrightarrow> x \<in> set (walk_along (comb_dir c) r) \<and> ok x"
  by (auto simp: related_def Let_def split: if_splits dest: in_set_takeD)

lemma preceding_parent: "x \<in> set (preceding r) \<Longrightarrow> \<exists>i j p. x = i # p \<and> r = j # p"
  by (induction r rule: preceding.induct) auto

lemma under_related:
  "x \<in> set (related ok c r) \<Longrightarrow> a \<in> set (ancestors x) \<Longrightarrow> a \<in> set (ancestors r)"
  using related_walk [of x ok c r] preceding_parent [of x r] ancestors_trans [of a x r] by (cases c) auto

text \<open>All matches are below the node where the search starts.\<close>

lemma selects_under:
  assumes "\<And>r. from_context e lead r \<Longrightarrow> r \<noteq> [] \<Longrightarrow> a \<in> set (ancestors r)" "wf_document (r_doc e)"
  shows "selects e lead us r \<Longrightarrow> r \<noteq> [] \<Longrightarrow> a \<in> set (ancestors r)"
proof (induction us arbitrary: r)
  case Nil
  then show ?case using assms by simp
next
  case (Cons t us)
  show ?case
  proof (cases t)
    case (Rel c)
    then obtain x where x: "x \<in> set (related (is_element (r_doc e)) c r)" "selects e lead us x"
      using Cons.prems by (auto simp: list_ex_iff)
    then have "x \<noteq> []" using related_walk [OF x(1)] wf_root [OF assms(2)] by auto
    then show ?thesis using under_related [OF x(1)] Cons.IH [OF x(2)] by simp
  qed (use Cons in simp)
qed

lemma root_in_ancestors: "r \<noteq> [] \<Longrightarrow> [] \<in> set (ancestors r)"
  by (simp add: ancestors_suffix)

lemma context_under:
  assumes "from_context e lead r" "r \<noteq> []" "wf_document (r_doc e)" "\<not> r_xml e"
    "sib \<or> lead \<noteq> Some Adjacent \<and> lead \<noteq> Some Sibling"
  shows "search_root e sib \<in> set (ancestors r)"
proof -
  have "r_context e \<in> set (ancestors r) \<or> sib \<and> r_context e \<in> set (preceding r)"
  proof (cases lead)
    case None
    then show ?thesis
      using assms root_in_ancestors [of r] by (auto simp: from_context_def outermost_document document_root)
  next
    case (Some c)
    then show ?thesis
      using assms related_walk [of "r_context e" _ c r] by (cases c) (auto simp: from_context_def)
  qed
  then consider (up) "r_context e \<in> set (ancestors r)" | (side) sib "r_context e \<in> set (preceding r)" by blast
  then show ?thesis
  proof cases
    case a: up
    show ?thesis
    proof (cases "r_context e")
      case (Cons i p)
      then show ?thesis using a ancestors_trans [of p "i # p" r] by (simp add: search_root_def)
    qed (use root_in_ancestors assms(2) in \<open>simp add: search_root_def\<close>)
  next
    case side
    then show ?thesis
      using preceding_parent [of "r_context e" r] by (auto simp: search_root_def)
  qed
qed

lemma matches_under:
  assumes "matches_group e ts r" "r \<noteq> []" "wf_document (r_doc e)" "\<not> r_xml e"
    "sib \<or> leading ts \<noteq> Some Adjacent \<and> leading ts \<noteq> Some Sibling"
  shows "search_root e sib \<in> set (ancestors r)"
  using assms selects_under [OF context_under [OF _ _ assms(3-5)] assms(3), where us = "rev (if leading ts = None then ts else tl ts)" and r = r]
  unfolding matches_group_def by blast

text \<open>Taking a filter out of the last compound of a selector.\<close>

definition plain_token :: "sel_token \<Rightarrow> bool" where
  "plain_token t = (case t of Filter f \<Rightarrow> True | Rel c \<Rightarrow> False)"

lemma fetch_seed_split:
  "fetch_seed finds rts passed = Some (xs, rest) \<Longrightarrow>
   \<exists>f fs rts1. rts = fs @ Filter f # rts1 \<and> list_all plain_token fs \<and> finds f = Some xs \<and> rest = rev rts1 @ rev fs @ passed"
proof (induction finds rts passed rule: fetch_seed.induct)
  case (3 finds f rts passed)
  show ?case
  proof (cases "finds f")
    case None
    then obtain g fs rts1 where "rts = fs @ Filter g # rts1" "list_all plain_token fs" "finds g = Some xs" "rest = rev rts1 @ rev fs @ Filter f # passed"
      using 3 by auto
    then have "Filter f # rts = (Filter f # fs) @ Filter g # rts1 \<and> list_all plain_token (Filter f # fs) \<and> finds g = Some xs \<and>
        rest = rev rts1 @ rev (Filter f # fs) @ passed"
      by (simp add: plain_token_def)
    then show ?thesis by blast
  next
    case (Some ys)
    then have "Filter f # rts = [] @ Filter f # rts \<and> list_all plain_token [] \<and> finds f = Some xs \<and> rest = rev rts @ rev [] @ passed"
      using 3 by simp
    then show ?thesis by blast
  qed
qed simp_all

lemma selects_filters:
  "list_all plain_token fs \<Longrightarrow> selects e lead (fs @ Filter f # us) r \<longleftrightarrow> filter_spec (r_pseudos e) (r_doc e) f r \<and> selects e lead (fs @ us) r"
  by (induction fs) (auto simp: plain_token_def split: sel_token.splits)

lemma leading_filters: "list_all plain_token fs \<Longrightarrow> leading fs = None"
  by (auto simp: leading_def plain_token_def split: list.splits sel_token.splits)

lemma matches_split:
  assumes "list_all plain_token fs"
  shows "matches_group e (rev rts @ Filter f # rev fs) r \<longleftrightarrow>
    filter_spec (r_pseudos e) (r_doc e) f r \<and> matches_group e (rev rts @ rev fs) r"
proof (cases rts rule: rev_cases)
  case Nil
  have "leading (rev fs) = None" using assms by (intro leading_filters) (simp add: list_all_iff)
  then show ?thesis
    using selects_filters [OF assms, of e None f "[]" r] by (simp add: Nil matches_group_def leading_def)
next
  case (snoc us t)
  then show ?thesis
    using selects_filters [OF assms, of e _ f "rts" r] selects_filters [OF assms, of e _ f "us" r]
    by (cases t) (simp_all add: matches_group_def leading_def)
qed

lemma context_valid: "is_element d c \<or> c = [] \<Longrightarrow> node_at d c \<noteq> None"
  by (cases "node_at d c") (auto simp: is_element_def)

lemma search_root_valid: "node_at (r_doc e) (r_context e) \<noteq> None \<Longrightarrow> node_at (r_doc e) (search_root e sib) \<noteq> None"
  by (auto simp: search_root_def split: list.splits option.splits)

lemma filter_under:
  assumes "wf_document (r_doc e)" "\<not> r_xml e" "node_at (r_doc e) (r_context e) \<noteq> None"
    "\<And>g. g \<in> set groups \<Longrightarrow> sib \<or> leading g \<noteq> Some Adjacent \<and> leading g \<noteq> Some Sibling"
  shows "filter (\<lambda>x. list_ex (\<lambda>g. matches_group e g x) groups) (elements_below (r_doc e) (search_root e sib)) =
    filter (\<lambda>x. list_ex (\<lambda>g. matches_group e g x) groups) (elements_below (r_doc e) [])"
proof -
  have "search_root e sib \<in> set (ancestors x)"
    if m: "list_ex (\<lambda>g. matches_group e g x) groups" and x: "x \<in> set (elements_below (r_doc e) [])" for x
  proof -
    obtain g where "g \<in> set groups" "matches_group e g x" using m by (auto simp: list_ex_iff)
    moreover have "x \<noteq> []" using elements_below_nonroot [OF x] by auto
    ultimately show ?thesis by (blast intro: matches_under [OF _ _ assms(1,2) assms(4)])
  qed
  then show ?thesis
    unfolding elements_below_filter [OF search_root_valid [OF assms(3)], symmetric] filter_filter
    by (intro filter_cong) auto
qed

lemma rsibling_leading:
  "combinator_texts txt \<Longrightarrow> g \<in> set groups \<Longrightarrow> rsibling txt groups \<or> leading g \<noteq> Some Adjacent \<and> leading g \<noteq> Some Sibling"
  by (force simp: combinator_texts_def rsibling_def leading_def list_ex_iff split: list.splits sel_token.splits)

lemma candidates_none: "search_candidates e None r = elements_below (r_doc e) r"
  by (simp add: search_candidates_def)

lemma superMatcher_all:
  assumes "wf_document (r_doc e)" "\<not> r_xml e" "node_at (r_doc e) (r_context e) \<noteq> None" "results_past s" "combinator_texts txt"
  shows "fst (superMatcher e groups n None (search_root e (rsibling txt groups)) s) =
    filter (\<lambda>x. list_ex (\<lambda>g. matches_group e g x) groups) (elements_below (r_doc e) [])"
  using superMatcher_filter(1) [OF assms(4), of e None "search_root e (rsibling txt groups)" groups n]
    elements_below_elements [of _ "r_doc e"] filter_under [OF assms(1-3) rsibling_leading [OF assms(5)], of groups]
  by (simp add: candidates_none)

lemma select_one_right:
  assumes wf: "wf_document (r_doc e)" and html: "\<not> r_xml e" and ctx: "node_at (r_doc e) (r_context e) \<noteq> None"
    and past: "results_past s" and texts: "combinator_texts txt" and find: "finders_agree finds (r_pseudos e) (r_doc e)"
  shows "fst (select_one finds txt e ts n s) = filter (matches_group e ts) (elements_below (r_doc e) [])"
proof (cases "if needsContext ts then None
    else fetch_seed (\<lambda>f. finds f (search_root e (leading ts = Some Adjacent \<or> leading ts = Some Sibling))) (rev ts) []")
  case None
  then show ?thesis
    using superMatcher_all [OF wf html ctx past texts, of "[ts]" n] by (simp add: select_one_def)
next
  case (Some q)
  obtain seed rest where q: "q = (seed, rest)" by force
  have lead: "leading ts \<noteq> Some Adjacent" "leading ts \<noteq> Some Sibling"
    using Some by (auto simp: needsContext_def split: if_splits option.splits)
  obtain f fs rts where f: "rev ts = fs @ Filter f # rts" "list_all plain_token fs"
    "finds f (search_root e False) = Some seed" "rest = rev rts @ rev fs"
    using Some q lead fetch_seed_split [of _ "rev ts" "[]" seed rest] by (fastforce split: if_splits)
  have ts: "ts = rev rts @ Filter f # rev fs" using arg_cong [OF f(1), of rev] by simp
  have seed: "seed = filter (filter_spec (r_pseudos e) (r_doc e) f) (elements_below (r_doc e) (search_root e False))"
    using find f(3) by (auto simp: finders_agree_def)
  have all: "filter (matches_group e rest) seed = filter (matches_group e ts) (elements_below (r_doc e) [])"
  proof -
    have "matches_group e ts = (\<lambda>r. filter_spec (r_pseudos e) (r_doc e) f r \<and> matches_group e rest r)"
      using matches_split [OF f(2), of e rts f] by (intro ext) (simp only: ts f(4))
    then have "filter (matches_group e rest) seed = filter (matches_group e ts) (elements_below (r_doc e) (search_root e False))"
      by (simp add: seed conj_commute)
    then show ?thesis using filter_under [OF wf html ctx, of "[ts]" False] lead by simp
  qed
  show ?thesis
  proof (cases "seed = [] \<or> rest = []")
    case True
    have "matches_group e [] r" if "r \<in> set seed" for r
      using that wf elements_below_nonroot [of r "r_doc e" "search_root e False"] html
      by (auto simp: seed matches_group_def leading_def from_context_def outermost_document document_root search_root_def split: list.splits)
    then have "filter (matches_group e rest) seed = seed"
      using True by (auto simp: filter_id_conv)
    then show ?thesis using True all Some q by (simp add: select_one_def)
  next
    case False
    have "fst (superMatcher e [rest] n (Some seed) (search_root e (rsibling txt [rest])) s) = filter (matches_group e rest) seed"
      using superMatcher_filter(1) [OF past, of e "Some seed" _ "[rest]" n] elements_below_elements [of _ "r_doc e"]
      by (auto simp: search_candidates_def seed)
    then show ?thesis using False all Some q by (simp add: select_one_def)
  qed
qed

text \<open>With a unique element of the id, the rest of the selector can start from it.\<close>

lemma related_reduced:
  assumes wf: "wf_document d" and x: "is_element d x" and r: "is_element d r"
  shows "x \<in> set (related (is_element d) c r) \<longleftrightarrow> x \<in> set (related (\<lambda>y. is_element d y \<or> comb_dir c = Up) c r)"
proof (cases c)
  case Child
  obtain i p where ip: "r = i # p" using r wf_root [OF wf] by (cases r) auto
  show ?thesis
  proof (cases p)
    case Nil
    then show ?thesis using wf_root [OF wf] x by (auto simp: related_def Child ip comb_first_def)
  next
    case (Cons j q)
    then show ?thesis using wf_parent [OF wf, of i j q] r by (simp add: related_def Child ip comb_first_def)
  qed
qed (use x in \<open>auto simp: related_def comb_first_def\<close>)

lemma selects_reduced:
  assumes wf: "wf_document (r_doc e)" and doc: "is_document e" and x: "is_element (r_doc e) x"
    and only: "\<And>y. is_element (r_doc e) y \<Longrightarrow> id_filter (r_doc e) n y \<longleftrightarrow> y = x"
  shows "is_element (r_doc e) r \<Longrightarrow>
    selects e None (us @ [Rel c, Filter (ID n)]) r = selects (e\<lparr>r_context := x\<rparr>) (Some c) us r"
proof (induction us arbitrary: r)
  case Nil
  have "from_context e None y" for y using doc by (simp add: from_context_def outermost_document)
  then have "selects e None [Filter (ID n)] = id_filter (r_doc e) n" by (simp add: fun_eq_iff)
  moreover have "list_ex (id_filter (r_doc e) n) (related (is_element (r_doc e)) c r) \<longleftrightarrow> x \<in> set (related (is_element (r_doc e)) c r)"
    using only x related_walk [of _ "is_element (r_doc e)" c r] by (auto simp: list_ex_iff)
  ultimately show ?case
    using related_reduced [OF wf x Nil, of c] by (simp add: from_context_def cong: list.pred_cong)
next
  case (Cons t us)
  show ?case
  proof (cases t)
    case (Rel b)
    have "selects e None (us @ [Rel c, Filter (ID n)]) y = selects (e\<lparr>r_context := x\<rparr>) (Some c) us y"
      if "y \<in> set (related (is_element (r_doc e)) b r)" for y
      using Cons.IH related_walk [OF that] by blast
    then show ?thesis by (auto simp: Rel list_ex_iff)
  qed (use Cons in simp)
qed

lemma selects_id: "selects e None (us @ [Rel c, Filter (ID n)]) r \<Longrightarrow> \<exists>y. is_element (r_doc e) y \<and> id_filter (r_doc e) n y"
proof (induction us arbitrary: r)
  case Nil
  then show ?case using related_walk by (fastforce simp: list_ex_iff)
next
  case (Cons t us)
  then show ?case by (cases t) (auto simp: list_ex_iff)
qed

lemma matches_id_group: "matches_group e (Filter (ID i) # Rel c # us) = selects e None (rev us @ [Rel c, Filter (ID i)])"
  by (simp add: matches_group_def leading_def)

lemma listed_ids:
  assumes "wf_document d" "is_element d y"
  shows "id_filter d n y \<longleftrightarrow> y \<in> set (filter (id_filter d n) (elements_below d []))"
  using assms wf_root [OF assms(1)] element_listed [of d] by (cases y) auto

lemma filter_ID: "filter_spec ps d (ID n) = id_filter d n"
  by (simp add: fun_eq_iff)

lemma select_right:
  assumes wf: "wf_document (r_doc e)" and html: "\<not> r_xml e" and ctx: "node_at (r_doc e) (r_context e) \<noteq> None"
    and past: "results_past s" and texts: "combinator_texts txt" and find: "finders_agree finds (r_pseudos e) (r_doc e)"
    and ids: "unique_ids (r_doc e)"
  shows "fst (select finds txt e groups n s) = filter (\<lambda>x. list_ex (\<lambda>g. matches_group e g x) groups) (elements_below (r_doc e) [])"
proof (cases "\<exists>ts. groups = [ts]")
  case False
  then show ?thesis
    using superMatcher_all [OF wf html ctx past texts] by (auto simp: select_def split: list.splits)
next
  case True
  then obtain ts where g: "groups = [ts]" by blast
  let ?all = "elements_below (r_doc e) []"
  have found: "finds (ID i) (r_context e) = Some (filter (id_filter (r_doc e) i) ?all)" if "is_document e" for i
  proof -
    obtain ys where "finds (ID i) [] = Some ys" using find unfolding finders_agree_def by blast
    then show ?thesis
      using find that document_root [OF wf] unfolding finders_agree_def by (metis filter_ID)
  qed
  show ?thesis
  proof (cases "reduce_context finds e ts")
    case Keep
    then show ?thesis using select_one_right [OF wf html ctx past texts find] by (simp add: select_def g)
  next
    case Nothing
    then obtain i c us where ts: "ts = Filter (ID i) # Rel c # us" and "is_document e" "filter (id_filter (r_doc e) i) ?all = []"
      using found by (auto simp: reduce_context_def split: list.splits sel_token.splits sfilter.splits if_splits)
    then have "\<not> matches_group e ts r" for r
      using selects_id [of e "rev us" c i r] listed_ids [OF wf, of _ i] by (auto simp: ts matches_id_group)
    then show ?thesis using Nothing by (simp add: select_def g)
  next
    case (Reduce x)
    then obtain i c us xs where ts: "ts = Filter (ID i) # Rel c # us" and doc: "is_document e"
      and x: "filter (id_filter (r_doc e) i) ?all = x # xs"
      using found by (auto simp: reduce_context_def split: list.splits sel_token.splits sfilter.splits if_splits)
    have xs: "xs = []" using ids x unfolding unique_ids_def by (metis One_nat_def Suc_le_mono le_zero_eq length_Cons length_0_conv)
    have x_el: "is_element (r_doc e) x"
      using x elements_below_elements [of x "r_doc e" "[]"] by (metis filter_is_subset in_mono list.set_intros(1))
    have only: "id_filter (r_doc e) i y \<longleftrightarrow> y = x" if "is_element (r_doc e) y" for y
      using listed_ids [OF wf that, of i] x xs by simp
    let ?e = "e\<lparr>r_context := x\<rparr>"
    have "matches_group ?e (tl ts) r = matches_group e ts r" if "r \<in> set ?all" for r
      using selects_reduced [OF wf doc x_el only elements_below_elements [OF that], of "rev us" c]
      unfolding ts matches_id_group by (simp add: matches_group_def leading_def)
    moreover have "fst (select_one finds txt ?e (tl ts) n s) = filter (matches_group ?e (tl ts)) ?all"
      using select_one_right [of ?e s "txt" finds "tl ts" n] wf html past texts find x_el context_valid [of "r_doc e" x] by simp
    ultimately show ?thesis using Reduce by (simp add: select_def g cong: filter_cong)
  qed
qed

section \<open>The order of the document\<close>

text \<open>The way from the root: node before node by the indices on it.\<close>

fun chain :: "ref \<Rightarrow> nat list \<Rightarrow> ref list" where
  "chain r [] = [r]"
| "chain r (i # is) = r # chain (i # r) is"

lemma chain_snoc: "chain r (is @ [i]) = chain r is @ [i # rev is @ r]"
  by (induction "is" arbitrary: r) auto

lemma chain_ancestors: "rev (a # ancestors a) = chain [] (rev a)"
  by (induction a) (simp_all add: chain_snoc)

lemma node_at_suffix: "node_at d (xs @ y) \<noteq> None \<Longrightarrow> node_at d y \<noteq> None"
  by (induction xs) (auto split: option.splits)

lemma siblingCheck_less:
  assumes "i \<noteq> j" "node_at d (j # p) \<noteq> None"
  shows "siblingCheck d (Some (i # p)) (Some (j # p)) < 0 \<longleftrightarrow> i < j"
  using assms
  by (auto simp: siblingCheck_def following_def siblings_of_def drop_map drop_upt split: option.splits if_splits)

lemma discrepancy_less:
  "p \<noteq> q \<Longrightarrow> node_at d (rev q @ r) \<noteq> None \<Longrightarrow>
   (case discrepancy (chain r p) (chain r q) of (x, y) \<Rightarrow> siblingCheck d x y) < 0 \<longleftrightarrow> p < q"
proof (induction p arbitrary: q r)
  case Nil
  then obtain j js where "q = j # js" by (cases q) auto
  then show ?case by (cases js) (simp_all add: siblingCheck_def)
next
  case (Cons i p)
  show ?case
  proof (cases q)
    case Nil
    then show ?thesis by (cases p) (simp_all add: siblingCheck_def)
  next
    case q: (Cons j js)
    have v: "node_at d (rev js @ j # r) \<noteq> None" using Cons.prems(2) q by simp
    show ?thesis
    proof (cases "i = j")
      case True
      then show ?thesis using Cons.IH [of js "j # r"] Cons.prems v q by simp
    next
      case False
      moreover have "discrepancy (chain (i # r) p) (chain (j # r) js) = (Some (i # r), Some (j # r))"
        using False by (cases p; cases js) simp_all
      ultimately show ?thesis
        using siblingCheck_less [OF False node_at_suffix [OF v]] q by simp
    qed
  qed
qed

lemma sortOrder_less:
  assumes "node_at d b \<noteq> None"
  shows "sortOrder d a b < 0 \<longleftrightarrow> rev a < rev b"
proof (cases "a = b \<or> a = [] \<or> b = []")
  case True
  then show ?thesis by (auto simp: sortOrder_def neq_Nil_conv split: list.splits) (metis Nil_less_Cons list.exhaust rev_is_Nil_conv)+
next
  case False
  then obtain i p j q where ab: "a = i # p" "b = j # q" by (meson list.exhaust)
  show ?thesis
  proof (cases "p = q")
    case True
    have "us @ [i] < us @ [j] \<longleftrightarrow> i < j" for us by (induction us) auto
    then show ?thesis using True False ab siblingCheck_less [of i j d q] assms by (simp add: sortOrder_def)
  next
    case neq: False
    then have "sortOrder d a b = (case discrepancy (chain [] (rev a)) (chain [] (rev b)) of (x, y) \<Rightarrow> siblingCheck d x y)"
      using neq False ab unfolding sortOrder_def chain_ancestors by simp
    then show ?thesis using discrepancy_less [of "rev a" "rev b" d "[]"] False assms by simp
  qed
qed

interpretation doc_order: consistent_less "\<lambda>a b. sortOrder d a b < 0" "{r. node_at d r \<noteq> None}" for d
  by unfold_locales (auto simp: sortOrder_less)

lemma append_less: "a < b \<Longrightarrow> us @ a # v < us @ b # (w :: nat list)" "w \<noteq> [] \<Longrightarrow> us < us @ w"
  by (induction us) (auto simp: neq_Nil_conv)

lemma below_index:
  "x \<in> set (below p i ns) \<Longrightarrow> \<exists>k zs. i \<le> k \<and> x = zs @ k # p"
proof (induction ns arbitrary: i)
  case (Cons n ns)
  show ?case
  proof (cases "x \<in> set (below_node (i # p) n)")
    case True
    then show ?thesis using below_under(2) [OF True] unfolding ancestors_suffix by (metis append_Nil order_refl)
  next
    case False
    then show ?thesis using Cons.IH [of "Suc i"] Cons.prems by (auto intro: Suc_leD)
  qed
qed simp

lemma below_sorted:
  "sorted_wrt (\<lambda>a b. rev a < rev b) (below p i ns)"
  "sorted_wrt (\<lambda>a b. rev a < rev b) (below_node r n)"
proof (induction p i ns and r n rule: below_below_node.induct)
  case (2 p i n ns)
  have "rev x < rev y" if x: "x \<in> set (below_node (i # p) n)" and y: "y \<in> set (below p (Suc i) ns)" for x y
  proof -
    obtain zs where "x = zs @ i # p" using below_under(2) [OF x] unfolding ancestors_suffix by (metis append_Nil)
    moreover obtain k ws where "i < k" "y = ws @ k # p" using below_index [OF y] by (auto simp: Suc_le_eq)
    ultimately show ?thesis using append_less(1) by simp
  qed
  with 2 show ?case by (simp add: sorted_wrt_append)
next
  case (3 r ty nm ats v kids)
  have "rev r < rev x" if "x \<in> set (below r 0 kids)" for x
    using below_under(1) [OF that] append_less(2) by (auto simp: ancestors_suffix)
  with 3 show ?case by simp
qed simp

lemma duplicate_indices_Suc: "duplicate_indices (Suc i) xs = map Suc (duplicate_indices i xs)"
  by (induction i xs rule: duplicate_indices.induct) auto

lemma splice_Suc: "foldr splice_one (map Suc js) (x # xs) = x # foldr splice_one js xs"
  by (induction js) (auto simp: splice_one_def)

lemma splice_duplicates: "foldr splice_one (duplicate_indices 0 xs) xs = remdups_adj xs"
proof (induction xs rule: remdups_adj.induct)
  case (3 x y xs)
  have "foldr splice_one (duplicate_indices 0 (x # y # xs)) (x # y # xs) =
      (if x = y then splice_one 1 else (\<lambda>zs. zs)) (x # foldr splice_one (duplicate_indices 0 (y # xs)) (y # xs))"
    using duplicate_indices_Suc [of 0 "y # xs"] by (simp add: splice_Suc)
  also have "foldr splice_one (duplicate_indices 0 (y # xs)) (y # xs) = remdups_adj (y # xs)"
    using 3 by (cases "x = y") auto
  also have "(if x = y then splice_one 1 else (\<lambda>zs. zs)) (x # remdups_adj (y # xs)) = remdups_adj (x # y # xs)"
    using remdups_adj_Cons_alt [of y xs] by (auto simp: splice_one_def drop_Suc)
  finally show ?case .
qed simp_all

lemma uniqueSort_adj:
  assumes "\<And>x. x \<in> set xs \<Longrightarrow> node_at d x \<noteq> None"
  shows "uniqueSort detect d xs = remdups_adj (sort_by (\<lambda>a b. sortOrder d a b < 0) xs)"
proof -
  have "distinct xs \<Longrightarrow> distinct (sort_by (\<lambda>a b. sortOrder d a b < 0) xs)"
    by (metis distinct_count_atmost_1 mset_sort_by set_sort_by)
  then show ?thesis by (auto simp: uniqueSort_def Let_def splice_duplicates remdups_adj_distinct)
qed

lemma sorted_remdups_distinct: "sorted (xs :: nat list list) \<Longrightarrow> sorted_wrt (<) (remdups_adj xs)"
proof (induction xs rule: remdups_adj.induct)
  case (3 x y xs)
  then show ?case by (cases "x = y") (auto simp: order.strict_iff_order intro: order_trans)
qed simp_all

text \<open>A list in the order of the document is determined by its elements.\<close>

lemma document_list: "sorted_wrt (\<lambda>a b. rev a < rev b) xs \<Longrightarrow> sorted_wrt (\<lambda>a b. rev a < rev b) ys \<Longrightarrow> set xs = set (ys :: ref list) \<Longrightarrow> xs = ys"
proof -
  assume "sorted_wrt (\<lambda>a b. rev a < rev b) xs" "sorted_wrt (\<lambda>a b. rev a < rev b) ys" "set xs = set ys"
  then have "map rev xs = map rev ys"
    by (intro strict_sorted_equal [of "map rev ys" "map rev xs"]) (simp_all add: sorted_wrt_map)
  then show ?thesis by (simp add: inj_map_eq_map)
qed

lemma uniqueSort_sorted:
  assumes v: "\<And>x. x \<in> set xs \<Longrightarrow> node_at d x \<noteq> None"
  shows "sorted_wrt (\<lambda>a b. rev a < rev b) (uniqueSort detect d xs)" and "set (uniqueSort detect d xs) = set xs"
proof -
  let ?lt = "\<lambda>a b. sortOrder d a b < 0" and ?ys = "sort_by (\<lambda>a b. sortOrder d a b < 0) xs"
  have u: "uniqueSort detect d xs = remdups_adj ?ys" using v by (rule uniqueSort_adj)
  have "sorted_wrt (\<lambda>a b. \<not> ?lt b a) ?ys"
    using v by (intro doc_order.sort_by_sorted) auto
  then have "sorted_wrt (\<lambda>a b. rev a \<le> rev b) ?ys"
    by (rule sorted_wrt_mono_rel [rotated]) (simp add: sortOrder_less v not_less [symmetric] del: not_less)
  then have "sorted (map rev ?ys)" by (simp add: sorted_map)
  then have "sorted_wrt (<) (map rev (uniqueSort detect d xs))"
    using sorted_remdups_distinct [of "map rev ?ys"] by (simp add: u remdups_adj_map_injective)
  then show "sorted_wrt (\<lambda>a b. rev a < rev b) (uniqueSort detect d xs)" by (simp add: sorted_wrt_map)
  show "set (uniqueSort detect d xs) = set xs" by (simp add: u)
qed

lemma elements_sorted: "sorted_wrt (\<lambda>a b. rev a < rev b) (elements_below d r)"
  using below_sorted(1) by (auto simp: elements_below_def split: option.split)

section \<open>Caches of limited size\<close>

definition store_all :: "nat \<Rightarrow> (string \<times> 'a) list \<Rightarrow> 'a cache" where
  "store_all n ps = fold (\<lambda>(k, v). cache_store n k v) ps createCache"

text \<open>Every entry has a key in the queue, and there is one entry for a key.\<close>

definition cache_inv :: "nat \<Rightarrow> 'a cache \<Rightarrow> bool" where
  "cache_inv n c \<longleftrightarrow> distinct (map fst (cache_entries c)) \<and> fst ` set (cache_entries c) \<subseteq> set (cache_keys c) \<and> length (cache_keys c) \<le> n"

lemma distinct_filter_entries: "distinct (map fst xs) \<Longrightarrow> distinct (map fst (filter P xs))"
  by (induction xs) auto

lemma store_inv: "0 < n \<Longrightarrow> cache_inv n c \<Longrightarrow> cache_inv n (cache_store n k v c)"
  by (cases "cache_keys c") (auto simp: cache_inv_def cache_store_def Let_def distinct_filter_entries)

lemma store_all_snoc: "store_all n (ps @ [(k, v)]) = cache_store n k v (store_all n ps)"
  by (simp add: store_all_def)

lemma store_all_inv: "0 < n \<Longrightarrow> cache_inv n (store_all n ps)"
proof (induction ps rule: rev_induct)
  case Nil
  then show ?case by (simp add: store_all_def createCache_def cache_inv_def)
next
  case (snoc p ps)
  then show ?case by (cases p) (simp add: store_all_snoc store_inv)
qed

lemma entries_bound: "cache_inv n c \<Longrightarrow> length (cache_entries c) \<le> n"
proof -
  assume i: "cache_inv n c"
  then have "length (cache_entries c) = card (fst ` set (cache_entries c))"
    by (metis cache_inv_def distinct_card length_map list.set_map)
  also have "\<dots> \<le> length (cache_keys c)"
    using i by (metis cache_inv_def List.finite_set card_length card_mono order_trans)
  finally show ?thesis using i by (simp add: cache_inv_def)
qed

lemma map_of_drop: "map_of (filter (\<lambda>(k, _). k \<noteq> a) xs) b = (if a = b then None else map_of xs b)"
  by (induction xs) auto

lemma lookup_store:
  "cache_lookup k (cache_store n j v c) = (if k = j then Some v else if length (cache_keys c) \<ge> n \<and> hd (cache_keys c @ [j @ '' '']) = k @ '' '' then None else cache_lookup k c)"
  by (auto simp: cache_lookup_def cache_store_def Let_def map_of_drop)

lemma lookup_latest:
  "cache_lookup k (store_all n ps) = Some v \<Longrightarrow> \<exists>qs rs. ps = qs @ (k, v) # rs \<and> k \<notin> fst ` set rs"
proof (induction ps rule: rev_induct)
  case Nil
  then show ?case by (simp add: store_all_def createCache_def cache_lookup_def)
next
  case (snoc p ps)
  obtain j w where p: "p = (j, w)" by force
  show ?case
  proof (cases "k = j")
    case True
    then have "ps @ [p] = ps @ (k, v) # [] \<and> k \<notin> fst ` set []"
      using snoc.prems p by (simp add: store_all_snoc lookup_store)
    then show ?thesis by blast
  next
    case False
    then have "cache_lookup k (store_all n ps) = Some v"
      using snoc.prems p by (auto simp: store_all_snoc lookup_store split: if_splits)
    then obtain qs rs where "ps = qs @ (k, v) # rs" "k \<notin> fst ` set rs" using snoc.IH by blast
    then show ?thesis using p False by (intro exI [of _ qs] exI [of _ "rs @ [p]"]) auto
  qed
qed

section \<open>Properties\<close>

text \<open>
  C36. Whatever was stored before, a cache never has more entries than its limit, a key that was just stored is found, and
  what is found for a key is the value that was stored for it last.
\<close>

theorem cache_bounded:
  assumes "0 < n"
  shows "length (cache_entries (store_all n (ps @ [(k, v)]))) \<le> n \<and> cache_lookup k (store_all n (ps @ [(k, v)])) = Some v \<and>
    (\<forall>j w. cache_lookup j (store_all n ps) = Some w \<longrightarrow> (\<exists>qs rs. ps = qs @ (j, w) # rs \<and> j \<notin> fst ` set rs))"
proof (intro conjI allI impI)
  show "length (cache_entries (store_all n (ps @ [(k, v)]))) \<le> n" by (rule entries_bound [OF store_all_inv [OF assms]])
  show "cache_lookup k (store_all n (ps @ [(k, v)])) = Some v" by (simp add: store_all_snoc lookup_store)
qed (rule lookup_latest)

theorem cache_bounded_witness:
  "cache_lookup ''b'' (store_all 2 [(''a'', 1), (''b'', 2), (''c'', 3 :: nat)]) = Some 2 \<and>
   cache_lookup ''a'' (store_all 2 [(''a'', 1), (''b'', 2), (''c'', 3 :: nat)]) = None \<and>
   length (cache_entries (store_all 2 ([(''a'', 1), (''b'', 2)] @ [(''c'', 3 :: nat)]))) \<le> 2"
  using cache_bounded [of 2 "[(''a'', 1), (''b'', 2)]" "''c''" "3 :: nat"]
  by (simp add: store_all_def cache_store_def createCache_def cache_lookup_def)

text \<open>
  C24. Sorting results removes duplicates and puts the elements in the order of the document: the result is the list
  of all elements of the document, reduced to those that were given.
\<close>

theorem uniqueSort_document:
  assumes "set xs \<subseteq> set (elements_below d [])"
  shows "uniqueSort detect d xs = filter (\<lambda>x. x \<in> set xs) (elements_below d [])"
proof (rule document_list)
  have v: "node_at d x \<noteq> None" if "x \<in> set xs" for x
    using assms that elements_below_elements [of x d "[]"] context_valid by blast
  show "sorted_wrt (\<lambda>a b. rev a < rev b) (uniqueSort detect d xs)" using v by (rule uniqueSort_sorted)
  show "sorted_wrt (\<lambda>a b. rev a < rev b) (filter (\<lambda>x. x \<in> set xs) (elements_below d []))"
    by (intro sorted_wrt_filter elements_sorted)
  show "set (uniqueSort detect d xs) = set (filter (\<lambda>x. x \<in> set xs) (elements_below d []))"
    using assms uniqueSort_sorted(2) [of xs d detect] v by auto
qed

text \<open>A small document, with finders that go through its elements.\<close>

definition demo_doc :: dom_node where
  "demo_doc =
     Node 9 ''#document'' [] [] [Node 1 ''HTML'' [] [] [
       Node 1 ''DIV'' [(''id'', ''main''), (''class'', ''box big'')] [] [
         Node 1 ''P'' [(''class'', ''lead'')] [] [Node 3 ''#text'' [] ''one'' []],
         Node 3 ''#text'' [] '' '' [],
         Node 1 ''P'' [] [] [Node 1 ''B'' [] [] []]],
       Node 1 ''P'' [] [] []]]"

definition demo_run :: "ref \<Rightarrow> run" where
  "demo_run ctx = \<lparr>r_pseudos = (\<lambda>_ _ _. False), r_doc = demo_doc, r_xml = False, r_context = ctx\<rparr>"

definition plain_finder :: "pseudo_table \<Rightarrow> dom_node \<Rightarrow> finder" where
  "plain_finder ps d f c =
     (case f of
        TAG n \<Rightarrow> Some (filter (filter_spec ps d f) (elements_below d c))
      | ID n \<Rightarrow> if c = [] then Some (filter (filter_spec ps d f) (elements_below d c)) else None
      | _ \<Rightarrow> None)"

text \<open>Texts of tokens.\<close>

definition plain_text :: "sel_token \<Rightarrow> string" where
  "plain_text t = (case t of Rel Child \<Rightarrow> ''>'' | Rel Descendant \<Rightarrow> '' '' | Rel Adjacent \<Rightarrow> ''+'' | Rel Sibling \<Rightarrow> ''~'' | Filter f \<Rightarrow> ''x'')"

lemma demo_finders: "finders_agree (plain_finder ps d) ps d"
  by (auto simp: finders_agree_def plain_finder_def split: sfilter.splits if_splits)

lemma demo_elements: "elements_below demo_doc [] = [[0], [0, 0], [0, 0, 0], [2, 0, 0], [0, 2, 0, 0], [1, 0]]"
  by (simp add: demo_doc_def elements_below_def)

lemma demo_ids: "unique_ids demo_doc"
proof -
  have "to_lower ''id'' = ''id''" by code_simp
  then show ?thesis
    unfolding unique_ids_def demo_elements by (auto simp: id_filter_def getAttribute_def demo_doc_def)
qed

theorem uniqueSort_document_witness:
  "uniqueSort True demo_doc [[1, 0], [0, 0, 0], [1, 0]] = [[0, 0, 0], [1, 0]]"
  using uniqueSort_document [of "[[1, 0], [0, 0, 0], [1, 0]]" demo_doc True] by (simp add: demo_elements)

text \<open>
  C7. A search in a document gives exactly the elements that match, in the order of the document: the reduction of the
  context to the element of a leading id and the seed of elements from a finder of the document are shortcuts only.
\<close>

theorem select_exact:
  assumes "wf_document (r_doc e)" "\<not> r_xml e" "is_element (r_doc e) (r_context e) \<or> r_context e = []"
    and "results_past s" "combinator_texts txt" "finders_agree finds (r_pseudos e) (r_doc e)" "unique_ids (r_doc e)"
  shows "fst (select finds txt e groups n s) =
    filter (\<lambda>x. list_ex (\<lambda>g. matches_group e g x) groups) (elements_below (r_doc e) [])"
  using select_right assms context_valid [of "r_doc e" "r_context e"] by blast

theorem select_exact_witness:
  "fst (select (plain_finder (\<lambda>_ _ _. False) demo_doc) plain_text (demo_run [])
      [[Filter (ID ''main''), Rel Child, Filter (TAG ''p''), Filter (CHILD Nth False 0 2)]] 7 no_results) = [[2, 0, 0]] \<and>
   filter (\<lambda>x. list_ex (\<lambda>g. matches_group (demo_run []) g x)
      [[Filter (ID ''main''), Rel Child, Filter (TAG ''p''), Filter (CHILD Nth False 0 2)]]) (elements_below demo_doc []) = [[2, 0, 0]]"
proof -
  note no_results_past
  moreover have "fst (select (plain_finder (\<lambda>_ _ _. False) demo_doc) plain_text (demo_run [])
      [[Filter (ID ''main''), Rel Child, Filter (TAG ''p''), Filter (CHILD Nth False 0 2)]] 7 no_results) = [[2, 0, 0]]"
    by code_simp
  moreover have "combinator_texts plain_text" by (simp add: combinator_texts_def plain_text_def)
  moreover have "wf_document demo_doc" by (simp add: wf_document_def demo_doc_def)
  ultimately show ?thesis
    using select_exact [of "demo_run []" no_results plain_text "plain_finder (\<lambda>_ _ _. False) demo_doc"
        "[[Filter (ID ''main''), Rel Child, Filter (TAG ''p''), Filter (CHILD Nth False 0 2)]]" 7] demo_finders demo_ids
    by (simp add: demo_run_def)
qed

text \<open>
  C2. Any number of searches, in any documents and over any elements, leave their results on the nodes without a
  trace in the answers: each search gives the elements that match, as if there was no cache.
\<close>

theorem caches_transparent:
  assumes "\<And>q xs x. q \<in> set qs \<Longrightarrow> q_seed q = Some xs \<Longrightarrow> x \<in> set xs \<Longrightarrow> is_element (r_doc (q_run q)) x"
  shows "fst (searches qs no_results) = map answer qs"
proof (rule searches_right [OF no_results_past])
  fix q x
  assume "q \<in> set qs" "x \<in> set (search_candidates (q_run q) (q_seed q) (q_root q))"
  then show "is_element (r_doc (q_run q)) x"
    using assms [of q] elements_below_elements [of x] by (cases "q_seed q") (auto simp: search_candidates_def)
qed

definition demo_search :: "ref list option \<Rightarrow> sel_token list \<Rightarrow> search" where
  "demo_search seed ts = \<lparr>q_run = demo_run [0, 0], q_groups = [ts], q_done = 3, q_seed = seed, q_root = [0, 0]\<rparr>"

theorem caches_transparent_witness:
  "fst (searches [demo_search None [Filter (CLASS ''lead''), Rel Sibling, Filter (TAG ''p''), Rel Descendant, Filter (TAG ''b'')],
      demo_search (Some [[0, 2, 0, 0], [1, 0]]) [Filter (TAG ''p''), Rel Descendant, Filter (TAG ''b'')]] no_results) =
   [[[0, 2, 0, 0]], [[0, 2, 0, 0]]]"
proof -
  have a: "answer (demo_search None [Filter (CLASS ''lead''), Rel Sibling, Filter (TAG ''p''), Rel Descendant, Filter (TAG ''b'')]) = [[0, 2, 0, 0]]"
    "answer (demo_search (Some [[0, 2, 0, 0], [1, 0]]) [Filter (TAG ''p''), Rel Descendant, Filter (TAG ''b'')]) = [[0, 2, 0, 0]]"
    "is_element demo_doc [0, 2, 0, 0]" "is_element demo_doc [1, 0]"
    by code_simp+
  have "fst (searches [demo_search None [Filter (CLASS ''lead''), Rel Sibling, Filter (TAG ''p''), Rel Descendant, Filter (TAG ''b'')],
      demo_search (Some [[0, 2, 0, 0], [1, 0]]) [Filter (TAG ''p''), Rel Descendant, Filter (TAG ''b'')]] no_results) =
    map answer [demo_search None [Filter (CLASS ''lead''), Rel Sibling, Filter (TAG ''p''), Rel Descendant, Filter (TAG ''b'')],
      demo_search (Some [[0, 2, 0, 0], [1, 0]]) [Filter (TAG ''p''), Rel Descendant, Filter (TAG ''b'')]]"
    by (rule caches_transparent) (use a(3,4) in \<open>auto simp: demo_search_def demo_run_def\<close>)
  then show ?thesis by (simp only: a list.map)
qed

text \<open>
  In a document that is not HTML, a list of selectors with a sibling combinator reaches out of its context: the search
  starts at the parent of the context, and the context is not checked.
\<close>

lemma xml_leaves_context:
  "fst (select (\<lambda>_ _. None) plain_text ((demo_run [0, 0])\<lparr>r_xml := True\<rparr>)
     [[Filter (TAG ''b''), Rel Adjacent, Filter (TAG ''b'')], [Filter (TAG ''p'')]] 0 no_results) = [[0, 0, 0], [2, 0, 0], [1, 0]]"
  by code_simp

end
