(* ===== verification/JQ_Sizzle_Text.thy ===== *)
theory JQ_Sizzle_Text
  imports JQ_Sizzle
begin

text \<open>Texts in selectors: escaping a text and reading it back, and what the filters for classes and words accept.\<close>

section \<open>Escapes\<close>

lemma hex_digit_char: "d < 16 \<Longrightarrow> css_hex (hex_char d) = Some d"
  by (auto simp: css_hex_def hex_char_def Let_def)

lemma hex_digit_space: "css_hex (CHR '' '') = None"
  by (simp add: css_hex_def Let_def)

lemma skip_white_space: "skip_white (CHR '' '' # t) = t"
  by (simp add: skip_white_def)

lemma unescape_hex:
  assumes "css_hex x \<noteq> None"
  shows "css_unescape (css_backslash # x # t) =
    char_of (fst (hex_prefix 5 (the (css_hex x)) t)) # css_unescape (skip_white (snd (hex_prefix 5 (the (css_hex x)) t)))"
  using assms by simp

lemma hex_prefix_space: "hex_prefix k v (CHR '' '' # t) = (v, CHR '' '' # t)"
  by (cases k) (simp_all add: hex_digit_space)

lemma hex_prefix_last: "0 < k \<Longrightarrow> css_hex x = Some h \<Longrightarrow> hex_prefix k v (x # CHR '' '' # t) = (16 * v + h, CHR '' '' # t)"
  by (cases k) (simp_all add: hex_prefix_space)

lemma unescape_code: "css_unescape (code_escape c @ t) = c # css_unescape t"
proof -
  let ?n = "of_char c :: nat"
  have n: "?n < 256" by simp
  show ?thesis
  proof (cases "?n < 16")
    case True
    then show ?thesis
      using unescape_hex [of "hex_char ?n" "CHR '' '' # t"]
      by (simp add: code_escape_def Let_def hex_digit_char hex_prefix_space skip_white_space del: css_unescape.simps)
  next
    case False
    have d: "?n div 16 < 16" using n by (simp add: div_less_iff_less_mult)
    have h: "hex_prefix 5 (?n div 16) (hex_char (?n mod 16) # CHR '' '' # t) = (?n, CHR '' '' # t)"
      using hex_prefix_last [OF _ hex_digit_char, of 5 "?n mod 16"] by simp
    have "css_unescape (code_escape c @ t) = css_unescape (css_backslash # hex_char (?n div 16) # hex_char (?n mod 16) # CHR '' '' # t)"
      using False by (simp add: code_escape_def Let_def del: css_unescape.simps)
    also have "\<dots> = char_of ?n # css_unescape t"
      using unescape_hex [of "hex_char (?n div 16)" "hex_char (?n mod 16) # CHR '' '' # t"]
      by (simp only: hex_digit_char [OF d] h option.sel fst_conv snd_conv skip_white_space option.distinct simp_thms)
    finally show ?thesis by simp
  qed
qed

lemma hex_digit_word: "css_hex c \<noteq> None \<Longrightarrow> is_word c"
  by (auto simp: css_hex_def is_word_def Let_def split: if_splits)

lemma unescape_special: "32 \<le> (of_char c :: nat) \<Longrightarrow> \<not> is_word c \<Longrightarrow> css_unescape (css_backslash # c # t) = c # css_unescape t"
proof -
  assume c: "32 \<le> (of_char c :: nat)" "\<not> is_word c"
  then have "css_hex c = None" using hex_digit_word by blast
  moreover have "c \<notin> {CHR 0x0D, CHR 0x0A, CHR 0x0C}" using c by auto
  ultimately show ?thesis unfolding css_unescape.simps(2) [of css_backslash] by (simp del: css_unescape.simps)
qed

lemma unescape_plain: "c \<noteq> css_backslash \<Longrightarrow> css_unescape (c # t) = c # css_unescape t"
  by simp

lemma unescape_char:
  assumes "CHR 0x00 \<noteq> c"
  shows "css_unescape (escape_char repl c @ t) = c # css_unescape t"
proof (cases "css_special c")
  case True
  then show ?thesis
    using unescape_special [of c t] unescape_code [of c t]
    by (auto simp: escape_char_def css_special_def simp del: css_unescape.simps)
next
  case False
  have "css_special css_backslash" by (simp add: css_special_def css_backslash_def is_word_def Let_def)
  then have "c \<noteq> css_backslash" using False by auto
  then show ?thesis
    using False assms unescape_plain [of c t] unescape_code [of c t] by (auto simp: escape_char_def simp del: css_unescape.simps)
qed

lemma unescape_chars: "CHR 0x00 \<notin> set s \<Longrightarrow> css_unescape (concat (map (escape_char repl) s)) = s"
proof (induction s)
  case (Cons c s)
  then show ?case using unescape_char [of c repl "concat (map (escape_char repl) s)"] by (simp del: css_unescape.simps)
qed simp

text \<open>
  C37. A text that is escaped for a selector is read back by the selector as it was, when it has no null character.
\<close>

theorem escape_roundtrip:
  assumes "CHR 0x00 \<notin> set s"
  shows "css_unescape (css_escape repl s) = s"
proof (cases "(repl, s)" rule: css_escape.cases)
  case (2 q c)
  have "css_unescape [css_backslash, CHR ''-''] = ''-''"
    using unescape_special [of "CHR ''-''" "[]"] by (simp add: is_word_def)
  then show ?thesis
    using 2 assms unescape_code [of c "[]"] unescape_char [of c repl "[]"] by (simp del: css_unescape.simps(2))
next
  case (3 q c x s')
  have "css_unescape (CHR ''-'' # t) = CHR ''-'' # css_unescape t" for t by (simp add: css_backslash_def)
  then show ?thesis
    using 3 assms unescape_code unescape_char [of c repl] unescape_chars [of "x # s'" repl] unescape_chars [of s' repl]
    by (simp del: css_unescape.simps(2) concat.simps list.map)
qed simp

theorem escape_roundtrip_witness:
  "css_escape (CHR ''?'') ''-1 a.b'' = [CHR ''-'', css_backslash] @ ''31 '' @ [css_backslash] @ '' a'' @ [css_backslash] @ ''.b'' \<and>
   css_unescape (css_escape (CHR ''?'') ''-1 a.b'') = ''-1 a.b''"
proof
  show "css_escape (CHR ''?'') ''-1 a.b'' = [CHR ''-'', css_backslash] @ ''31 '' @ [css_backslash] @ '' a'' @ [css_backslash] @ ''.b''"
    by code_simp
  show "css_unescape (css_escape (CHR ''?'') ''-1 a.b'') = ''-1 a.b''"
    by (rule escape_roundtrip) simp
qed

section \<open>Classes\<close>

lemma in_white: "in_class False False (map (\<lambda>c. (c, c)) [CHR '' '', CHR 0x09, CHR 0x0D, CHR 0x0A, CHR 0x0C]) c \<longleftrightarrow> html_white c"
  by (simp add: in_class_def in_range_single html_white_def)

lemma run_white: "re_run False n white_re s = (case s of [] \<Rightarrow> [] | c # t \<Rightarrow> if html_white c then [t] else [])"
  unfolding white_re_def re_run.simps in_white ..

lemma occurs_word: "word x \<Longrightarrow> (a = [] \<or> html_white (last a)) \<Longrightarrow> (b = [] \<or> html_white (hd b)) \<Longrightarrow> x \<in> set (match_words (a @ x @ b))"
proof -
  assume x: "word x" and a: "a = [] \<or> html_white (last a)" and b: "b = [] \<or> html_white (hd b)"
  have w: "x \<in> set (match_words (x @ b))"
    using b x match_words_split [of "hd b" x "tl b"] by (cases b) (auto simp: match_words_word)
  show ?thesis
    using a w match_words_split [of "last a" "butlast a" "x @ b"] by (cases a rule: rev_cases) auto
qed

lemma run_Seq: "re_run ic n (Seq a b) s \<noteq> [] \<longleftrightarrow> (\<exists>u \<in> set (re_run ic n a s). re_run ic n b u \<noteq> [])"
  by simp

lemma run_end: "re_run False n (Alt white_re Eol) b \<noteq> [] \<longleftrightarrow> b = [] \<or> html_white (hd b)"
  by (cases b) (simp_all add: run_white)

lemma run_start: "set (re_run False n (Alt Bol white_re) t) = {u. length t = n \<and> u = t \<or> (\<exists>c. html_white c \<and> t = c # u)}"
  by (cases t) (auto simp: run_white)

lemma run_text: "set (re_run False n (lit_re w Eps) u) = {b. u = w @ b}"
  by (auto simp: re_run_lit prefix_def)

lemma class_pattern:
  "re_run False n (Seq (Alt Bol white_re) (Seq (lit_re w Eps) (Alt white_re Eol))) t \<noteq> [] \<longleftrightarrow>
   (\<exists>u b. (length t = n \<and> u = t \<or> (\<exists>c. html_white c \<and> t = c # u)) \<and> u = w @ b \<and> (b = [] \<or> html_white (hd b)))"
  unfolding run_Seq run_start run_text run_end by blast

text \<open>
  A class selector with a plain name accepts the elements that have the name among the words of their class attribute.
\<close>

theorem class_filter_words:
  assumes "word w" "set w \<inter> set re_syntax = {}"
  shows "class_filter d w r \<longleftrightarrow> w \<in> set (match_words (case getAttribute d ''class'' r of None \<Rightarrow> [] | Some c \<Rightarrow> c))"
proof -
  define s where "s = (case getAttribute d ''class'' r of None \<Rightarrow> [] | Some c \<Rightarrow> c)"
  have "class_filter d w r \<longleftrightarrow> (\<exists>k \<le> length s. re_run False (length s) (Seq (Alt Bol white_re) (Seq (lit_re w Eps) (Alt white_re Eol))) (drop k s) \<noteq> [])"
    unfolding class_filter_def RegExp_plain [OF assms(2)] re_test_iff s_def by simp
  also have "\<dots> \<longleftrightarrow> w \<in> set (match_words s)"
  proof
    assume "\<exists>k \<le> length s. re_run False (length s) (Seq (Alt Bol white_re) (Seq (lit_re w Eps) (Alt white_re Eol))) (drop k s) \<noteq> []"
    then obtain k u b where k: "k \<le> length s" "length (drop k s) = length s \<and> u = drop k s \<or> (\<exists>c. html_white c \<and> drop k s = c # u)"
      "u = w @ b" "b = [] \<or> html_white (hd b)"
      unfolding class_pattern by blast
    have "\<exists>a. s = a @ w @ b \<and> (a = [] \<or> html_white (last a))"
    proof (cases "\<exists>c. html_white c \<and> drop k s = c # u")
      case True
      then obtain c where c: "html_white c" "drop k s = c # u" by blast
      then have "s = (take k s @ [c]) @ w @ b" using k(3) append_take_drop_id [of k s] by simp
      moreover have "html_white (last (take k s @ [c]))" using c(1) by simp
      ultimately show ?thesis by blast
    next
      case False
      then have "length (drop k s) = length s" "u = drop k s" using k(2) by auto
      moreover from this k(1) have "k = 0 \<or> s = []" by auto
      ultimately have "s = [] @ w @ b" using k(3) by auto
      then show ?thesis by blast
    qed
    then show "w \<in> set (match_words s)" using occurs_word [OF assms(1)] k(4) by blast
  next
    assume "w \<in> set (match_words s)"
    then obtain a b where ab: "s = a @ w @ b" "a = [] \<or> html_white (last a)" "b = [] \<or> html_white (hd b)"
      using match_words_occurs by blast
    define k where "k = length a - 1"
    have "length (drop k s) = length s \<and> w @ b = drop k s \<or> (\<exists>c. html_white c \<and> drop k s = c # w @ b)"
      using ab(1,2) by (cases a rule: rev_cases) (auto simp: k_def)
    moreover have "k \<le> length s" using ab(1) by (simp add: k_def)
    ultimately show "\<exists>k \<le> length s. re_run False (length s) (Seq (Alt Bol white_re) (Seq (lit_re w Eps) (Alt white_re Eol))) (drop k s) \<noteq> []"
      unfolding class_pattern using ab(3) by blast
  qed
  finally show ?thesis by (simp add: s_def)
qed

theorem class_filter_words_witness:
  "class_filter (Node 1 ''P'' [(''class'', ''box big'')] [] []) ''big'' [] \<longleftrightarrow> ''big'' \<in> set (match_words ''box big'')"
proof -
  have "getAttribute (Node 1 ''P'' [(''class'', ''box big'')] [] []) ''class'' [] = Some ''box big''" by code_simp
  then show ?thesis
    using class_filter_words [of "''big''" "Node 1 ''P'' [(''class'', ''box big'')] [] []" "[]"]
    by (simp add: word_def html_white_def re_syntax_def)
qed

section \<open>Arguments and positions\<close>

text \<open>
  The pattern of child filters ignores case, the test of its argument does not: the capital form of \<open>even\<close> is taken
  for no number and accepts no element.
\<close>

lemma capital_even_matches_nothing:
  "preFilter_CHILD '':nth-child(EVEN)'' Nth ''child'' ''EVEN'' None None = Inr (CHILD Nth False 0 0) \<and>
   \<not> cycle_test 0 0 (int (Suc n))"
  by (simp add: preFilter_CHILD_def child_numbers_def cycle_test_def js_rem_def)

text \<open>The positions before, at and after an index are all positions, and an index below zero counts from the end.\<close>

lemma positions_split:
  assumes "0 \<le> a" "a < n"
  shows "rev (positions (PLt a) n) @ positions (PEq a) n @ positions (PGt a) n = [0..n - 1]"
    and "positions (PEq (a - n)) n = positions (PEq a) n"
  using assms upto_split1 [of 0 a "n - 1"] upto_rec1 [of a "n - 1"] by (auto simp: positions_def)

lemma take_position_length: "length (fst (take_position j sm)) = length (fst sm) \<and> length (snd (take_position j sm)) = length (snd sm)"
  by (cases sm) (simp add: take_position_def)

text \<open>Nothing is lost between the seed and the matches.\<close>

definition split_of :: "ref option list \<Rightarrow> ref option list \<times> ref option list \<Rightarrow> bool" where
  "split_of seed sm \<longleftrightarrow> length (fst sm) = length seed \<and> length (snd sm) = length seed \<and>
     (\<forall>i < length seed. (fst sm ! i = seed ! i \<and> snd sm ! i = None) \<or> (fst sm ! i = None \<and> snd sm ! i = seed ! i))"

lemma take_position_split: "split_of seed sm \<Longrightarrow> split_of seed (take_position j sm)"
proof (cases "0 \<le> j \<and> j < int (length (fst sm)) \<and> fst sm ! nat j \<noteq> None")
  case True
  assume s: "split_of seed sm"
  have t: "take_position j sm = ((fst sm)[nat j := None], (snd sm)[nat j := fst sm ! nat j])"
    using True by (cases sm) (simp add: take_position_def)
  have "(fst (take_position j sm) ! i = seed ! i \<and> snd (take_position j sm) ! i = None) \<or>
      (fst (take_position j sm) ! i = None \<and> snd (take_position j sm) ! i = seed ! i)" if i: "i < length seed" for i
  proof (cases "i = nat j")
    case False
    then show ?thesis using s i by (simp add: t split_of_def)
  next
    case eq: True
    have "fst sm ! i = seed ! i \<or> fst sm ! i = None" using s i by (auto simp: split_of_def)
    moreover have "fst sm ! i \<noteq> None" using True unfolding eq by blast
    ultimately have "fst sm ! i = seed ! i" by blast
    moreover have "i < length (fst sm)" "i < length (snd sm)" using s i by (simp_all add: split_of_def)
    ultimately show ?thesis by (simp add: t eq [symmetric])
  qed
  then show ?thesis using s take_position_length [of j sm] by (simp add: split_of_def)
qed (cases sm, auto simp: take_position_def)

lemma positional_split: "split_of seed (createPositionalPseudo p seed)"
proof -
  have "split_of seed (foldr take_position js (seed, replicate (length seed) None))" for js
    by (induction js) (simp_all add: take_position_split, simp add: split_of_def)
  then show ?thesis by (simp add: createPositionalPseudo_def)
qed

end
