(* ===== verification/JQ_Traverse.thy ===== *)
theory JQ_Traverse
  imports JQ_Sizzle_Select
begin

text \<open>
  Traversing from the elements of a matched set: the methods from \<open>parent\<close> to \<open>contents\<close>, \<open>closest\<close>, \<open>find\<close>, \<open>filter\<close>
  and \<open>index\<close> on the documents of the selector engine. Selectors that filter a set are predicates on nodes.
\<close>

section \<open>Methods\<close>

definition node_type :: "dom_node \<Rightarrow> ref \<Rightarrow> nat" where
  "node_type d r = (case node_at d r of None \<Rightarrow> 0 | Some n \<Rightarrow> nodeType n)"

text \<open>\<open>dir\<close> on the nodes it visits; the function \<open>siblings\<close> goes over nodes from the first child on.\<close>

fun jq_dir :: "dom_node \<Rightarrow> (ref \<Rightarrow> bool) option \<Rightarrow> ref list \<Rightarrow> ref list" where
  "jq_dir d until [] = []"
| "jq_dir d until (x # xs) =
     (if node_type d x = 9 then []
      else if node_type d x = 1
      then (case until of
              Some P \<Rightarrow> if P x then [] else x # jq_dir d until xs
            | None \<Rightarrow> x # jq_dir d until xs)
      else jq_dir d until xs)"

definition jq_siblings :: "dom_node \<Rightarrow> ref list \<Rightarrow> ref option \<Rightarrow> ref list" where
  "jq_siblings d ns elem = filter (\<lambda>n. node_type d n = 1 \<and> Some n \<noteq> elem) ns"

fun jq_sibling :: "dom_node \<Rightarrow> ref list \<Rightarrow> ref list" where
  "jq_sibling d [] = []"
| "jq_sibling d (x # xs) = (if node_type d x = 1 then [x] else jq_sibling d xs)"

datatype traversal =
    Parent | Parents | ParentsUntil | Next | Prev | NextAll | PrevAll | NextUntil | PrevUntil | Siblings | Children | Contents

definition traverse_one :: "dom_node \<Rightarrow> traversal \<Rightarrow> (ref \<Rightarrow> bool) option \<Rightarrow> ref \<Rightarrow> ref list" where
  "traverse_one d t until r =
     (case t of
        Parent \<Rightarrow> (case r of [] \<Rightarrow> [] | i # p \<Rightarrow> if node_type d p \<noteq> 11 then [p] else [])
      | Parents \<Rightarrow> jq_dir d None (ancestors r)
      | ParentsUntil \<Rightarrow> jq_dir d until (ancestors r)
      | Next \<Rightarrow> jq_sibling d (following d r)
      | Prev \<Rightarrow> jq_sibling d (preceding r)
      | NextAll \<Rightarrow> jq_dir d None (following d r)
      | PrevAll \<Rightarrow> jq_dir d None (preceding r)
      | NextUntil \<Rightarrow> jq_dir d until (following d r)
      | PrevUntil \<Rightarrow> jq_dir d until (preceding r)
      | Siblings \<Rightarrow> (case r of [] \<Rightarrow> [] | i # p \<Rightarrow> jq_siblings d (siblings_of d p) (Some r))
      | Children \<Rightarrow> jq_siblings d (siblings_of d r) None
      | Contents \<Rightarrow> siblings_of d r)"

definition guaranteedUnique :: "traversal \<Rightarrow> bool" where
  "guaranteedUnique t \<longleftrightarrow> t \<in> {Children, Contents, Next, Prev}"

definition rparentsprev :: "traversal \<Rightarrow> bool" where
  "rparentsprev t \<longleftrightarrow> t \<in> {Parents, ParentsUntil, PrevAll, PrevUntil}"

text \<open>\<open>jQuery.filter\<close> without \<open>not\<close>: a single element is asked directly, other sets are reduced to elements first.\<close>

definition jq_filter :: "dom_node \<Rightarrow> (ref \<Rightarrow> bool) \<Rightarrow> ref list \<Rightarrow> ref list" where
  "jq_filter d P xs =
     (case xs of
        [x] \<Rightarrow> if node_type d x = 1 then (if P x then [x] else []) else filter P (filter (\<lambda>y. node_type d y = 1) xs)
      | _ \<Rightarrow> filter P (filter (\<lambda>y. node_type d y = 1) xs))"

definition traverse :: "bool \<Rightarrow> dom_node \<Rightarrow> traversal \<Rightarrow> (ref \<Rightarrow> bool) option \<Rightarrow> (ref \<Rightarrow> bool) option \<Rightarrow> ref list \<Rightarrow> ref list" where
  "traverse detect d t until selector this =
     (let m = concat (map (traverse_one d t until) this);
          m1 = (case selector of None \<Rightarrow> m | Some P \<Rightarrow> jq_filter d P m)
      in if length this > 1
         then (let m2 = (if guaranteedUnique t then m1 else uniqueSort detect d m1) in if rparentsprev t then rev m2 else m2)
         else m1)"

text \<open>\<open>closest\<close> with a selector: the way up from each element, to the context.\<close>

fun closest_up :: "dom_node \<Rightarrow> (ref \<Rightarrow> bool) \<Rightarrow> ref option \<Rightarrow> ref list \<Rightarrow> ref list" where
  "closest_up d P context [] = []"
| "closest_up d P context (x # xs) =
     (if Some x = context then []
      else if node_type d x = 1 \<and> P x then [x]
      else closest_up d P context xs)"

definition jq_closest :: "bool \<Rightarrow> dom_node \<Rightarrow> (ref \<Rightarrow> bool) \<Rightarrow> ref option \<Rightarrow> ref list \<Rightarrow> ref list" where
  "jq_closest detect d P context this =
     (let m = concat (map (\<lambda>r. closest_up d P context (r # ancestors r)) this)
      in if length m > 1 then uniqueSort detect d m else m)"

text \<open>
  \<open>find\<close> with a selector, where \<open>jQuery.find\<close> ends in \<open>select\<close>: the shortcuts of \<open>Sizzle()\<close> before it
  (\<open>getElementById\<close>, \<open>getElementsByTagName\<close>, \<open>getElementsByClassName\<close> and \<open>querySelectorAll\<close>), which leave the
  search to the browser, are not part of the model.
\<close>

fun find_in :: "finder \<Rightarrow> (sel_token \<Rightarrow> string) \<Rightarrow> run \<Rightarrow> sel_token list list \<Rightarrow> nat \<Rightarrow> ref list \<Rightarrow> sizzle \<Rightarrow> ref list \<times> sizzle" where
  "find_in finds txt e groups n [] s = ([], s)"
| "find_in finds txt e groups n (c # cs) s =
     (case select finds txt (e\<lparr>r_context := c\<rparr>) groups n s of
        (xs, s1) \<Rightarrow> (case find_in finds txt e groups n cs s1 of (ys, s2) \<Rightarrow> (xs @ ys, s2)))"

definition jq_find :: "bool \<Rightarrow> finder \<Rightarrow> (sel_token \<Rightarrow> string) \<Rightarrow> run \<Rightarrow> sel_token list list \<Rightarrow> nat \<Rightarrow> ref list \<Rightarrow> sizzle \<Rightarrow> ref list \<times> sizzle" where
  "jq_find detect finds txt e groups n this s =
     (case find_in finds txt e groups n this s of
        (xs, s1) \<Rightarrow> (if length this > 1 then uniqueSort detect (r_doc e) xs else xs, s1))"

text \<open>\<open>index\<close> without an argument, \<open>add\<close> and \<open>has\<close> with elements.\<close>

definition jq_index :: "dom_node \<Rightarrow> ref list \<Rightarrow> int" where
  "jq_index d this =
     (case this of (i # p) # _ \<Rightarrow> int (length (traverse_one d PrevAll None (i # p))) | _ \<Rightarrow> -1)"

definition jq_add :: "bool \<Rightarrow> dom_node \<Rightarrow> ref list \<Rightarrow> ref list \<Rightarrow> ref list" where
  "jq_add detect d this other = uniqueSort detect d (this @ other)"

definition jq_has :: "ref list \<Rightarrow> ref list \<Rightarrow> ref list" where
  "jq_has targets this = filter (\<lambda>r. list_ex (\<lambda>t. r \<in> set (ancestors t)) targets) this"

section \<open>Order of results\<close>

lemma node_type_element: "node_type d r = Suc 0 \<longleftrightarrow> is_element d r"
  by (auto simp: node_type_def is_element_def split: option.splits)

lemma dir_set: "x \<in> set (jq_dir d u xs) \<Longrightarrow> x \<in> set xs \<and> is_element d x"
  by (induction xs) (auto simp: node_type_element split: if_splits option.splits)

lemma dir_sorted: "sorted_wrt R xs \<Longrightarrow> sorted_wrt R (jq_dir d u xs)"
  by (induction xs) (auto split: option.split dest: dir_set)

lemma sibling_set: "x \<in> set (jq_sibling d xs) \<Longrightarrow> x \<in> set xs \<and> is_element d x"
  by (induction xs) (auto simp: node_type_element split: if_splits)

lemma ancestors_sorted: "sorted_wrt (\<lambda>a b. rev b < rev a) (ancestors r)"
proof (induction r)
  case (Cons i p)
  have "rev x < rev p" if "x \<in> set (ancestors p)" for x
    using that append_less(2) by (auto simp: ancestors_suffix)
  then show ?case using Cons by simp
qed simp

lemma preceding_sorted: "sorted_wrt (\<lambda>a b. rev b < rev a) (preceding r)"
proof (induction r rule: preceding.induct)
  case (3 i p)
  have "rev x < rev (i # p)" if "x \<in> set (preceding (i # p))" for x
    using that
  proof (induction i)
    case (Suc i)
    have "rev (i # p) < rev (Suc i # p)" using append_less(1) [of i "Suc i" "rev p" "[]" "[]"] by simp
    then show ?case using Suc by (auto intro: less_trans)
  qed simp
  then show ?case using 3 by simp
qed simp_all

lemma siblings_sorted: "sorted_wrt (\<lambda>a b. rev a < rev b) (siblings_of d p)"
proof -
  have "sorted_wrt (\<lambda>i j. rev (i # p) < rev (j # p)) [0..<n]" for n
    by (rule sorted_wrt_mono_rel [OF _ sorted_wrt_upt]) (simp add: append_less(1))
  then show ?thesis by (simp add: siblings_of_def sorted_wrt_map split: option.split)
qed

lemma following_sorted: "sorted_wrt (\<lambda>a b. rev a < rev b) (following d r)"
  using siblings_sorted [of d] by (auto simp: following_def sorted_wrt_drop split: list.split)

text \<open>All methods lead to elements, or to the document.\<close>

definition doc_nodes :: "dom_node \<Rightarrow> ref list" where
  "doc_nodes d = [] # elements_below d []"

lemma doc_nodes_sorted: "sorted_wrt (\<lambda>a b. rev a < rev b) (doc_nodes d)"
proof -
  have "rev [] < rev x" if "x \<in> set (elements_below d [])" for x
    using elements_below_nonroot [OF that] append_less(2) [of "rev x" "[]"] by (cases x) auto
  then show ?thesis using elements_sorted [of d "[]"] by (simp add: doc_nodes_def)
qed

lemma element_doc: "is_element d x \<Longrightarrow> x \<in> set (doc_nodes d)"
  using element_listed [of d] by (cases x) (auto simp: doc_nodes_def)

lemma doc_valid: "x \<in> set (doc_nodes d) \<Longrightarrow> node_at d x \<noteq> None"
  using elements_below_elements [of x d "[]"] context_valid [of d x] by (auto simp: doc_nodes_def)

lemma traverse_elements: "x \<in> set (traverse_one d t u r) \<Longrightarrow> t \<noteq> Parent \<Longrightarrow> t \<noteq> Contents \<Longrightarrow> is_element d x"
  by (cases t) (auto simp: traverse_one_def jq_siblings_def node_type_element split: list.splits dest: dir_set sibling_set)

lemma traverse_nodes:
  assumes "wf_document d" "is_element d r" "t \<noteq> Contents"
  shows "set (traverse_one d t u r) \<subseteq> set (doc_nodes d)"
proof (cases t)
  case Parent
  have "p \<in> set (doc_nodes d)" if "r = i # p" for i p
  proof (cases p)
    case Nil
    then show ?thesis by (simp add: doc_nodes_def)
  next
    case (Cons j q)
    then show ?thesis using element_doc wf_parent [OF assms(1), of i j q] assms(2) that by simp
  qed
  then show ?thesis by (auto simp: Parent traverse_one_def split: list.splits if_splits)
qed (use assms(3) element_doc traverse_elements in blast)+

lemma jq_filter_filter: "jq_filter d P xs = filter (\<lambda>x. is_element d x \<and> P x) xs"
  by (auto simp: jq_filter_def node_type_element conj_commute split: list.split)

definition selected :: "dom_node \<Rightarrow> (ref \<Rightarrow> bool) option \<Rightarrow> ref \<Rightarrow> bool" where
  "selected d selector x = (case selector of None \<Rightarrow> True | Some P \<Rightarrow> is_element d x \<and> P x)"

lemma selected_simps: "selected d None = (\<lambda>_. True)" "selected d (Some P) = (\<lambda>x. is_element d x \<and> P x)"
  by (simp_all add: selected_def fun_eq_iff)

lemma traverse_one_sorted:
  assumes "\<not> guaranteedUnique t"
  shows "sorted_wrt (\<lambda>a b. if rparentsprev t then rev b < rev a else rev a < rev b) (traverse_one d t u r)"
  using assms ancestors_sorted preceding_sorted following_sorted siblings_sorted
  by (cases t) (auto simp: traverse_one_def guaranteedUnique_def rparentsprev_def jq_siblings_def
      split: list.split intro: dir_sorted sorted_wrt_filter)

lemma traverse_single: "sorted_wrt (\<lambda>a b. if D then rev b < rev a else rev a < rev b) xs \<Longrightarrow> set xs \<subseteq> set (doc_nodes d) \<Longrightarrow>
   xs = (if D then rev else (\<lambda>ys. ys)) (filter (\<lambda>y. y \<in> set xs) (doc_nodes d))"
proof -
  assume s: "sorted_wrt (\<lambda>a b. if D then rev b < rev a else rev a < rev b) xs" and n: "set xs \<subseteq> set (doc_nodes d)"
  have f: "sorted_wrt (\<lambda>a b. rev a < rev b) (filter (\<lambda>y. y \<in> set xs) (doc_nodes d))"
    by (intro sorted_wrt_filter doc_nodes_sorted)
  have "(if D then rev else (\<lambda>ys. ys)) xs = filter (\<lambda>y. y \<in> set xs) (doc_nodes d)"
    using s n by (intro document_list [OF _ f]) (auto simp: sorted_wrt_rev)
  then show ?thesis by (cases D) (simp_all add: rev_swap)
qed

section \<open>Properties\<close>

text \<open>
  C25. The methods that may meet an element twice give every element once, in the order of the document; the
  methods that lead up or back give them in the opposite order. This holds for sets of any size, although the sets of one element
  are not sorted.
\<close>

theorem traverse_order:
  assumes "wf_document d" "\<And>x. x \<in> set this \<Longrightarrow> is_element d x" "\<not> guaranteedUnique t"
  shows "traverse detect d t until selector this =
    (if rparentsprev t then rev else (\<lambda>ys. ys))
      (filter (\<lambda>y. list_ex (\<lambda>x. y \<in> set (traverse_one d t until x)) this \<and> selected d selector y) (doc_nodes d))"
proof -
  define m where "m = filter (selected d selector) (concat (map (traverse_one d t until) this))"
  have m: "(case selector of None \<Rightarrow> concat (map (traverse_one d t until) this) | Some P \<Rightarrow> jq_filter d P (concat (map (traverse_one d t until) this))) = m"
    by (cases selector) (simp_all add: m_def selected_simps jq_filter_filter)
  have nodes: "set m \<subseteq> set (doc_nodes d)"
    using assms traverse_nodes [OF assms(1) assms(2)] by (fastforce simp: m_def guaranteedUnique_def)
  have set_m: "(\<lambda>y. y \<in> set m) = (\<lambda>y. list_ex (\<lambda>x. y \<in> set (traverse_one d t until x)) this \<and> selected d selector y)"
    by (auto simp: fun_eq_iff m_def list_ex_iff)
  show ?thesis
  proof (cases "length this > 1")
    case True
    have v: "node_at d x \<noteq> None" if "x \<in> set m" for x using that nodes doc_valid by blast
    have "uniqueSort detect d m = filter (\<lambda>y. y \<in> set m) (doc_nodes d)"
      using v nodes uniqueSort_sorted [of m d detect] doc_nodes_sorted [of d]
      by (intro document_list) (auto intro: sorted_wrt_filter)
    then show ?thesis using True assms(3) by (simp add: traverse_def m set_m)
  next
    case False
    then obtain r where "this = [] \<or> this = [r]" by (cases this; cases "tl this") auto
    then have "m = [] \<or> m = filter (selected d selector) (traverse_one d t until r)" by (auto simp: m_def)
    then have "sorted_wrt (\<lambda>a b. if rparentsprev t then rev b < rev a else rev a < rev b) m"
      using sorted_wrt_filter [OF traverse_one_sorted [OF assms(3)]] by (elim disjE) (simp_all only: sorted_wrt.simps)
    from traverse_single [OF this nodes] show ?thesis using False by (simp add: traverse_def m set_m)
  qed
qed

section \<open>Unique sets\<close>

lemma sibling_split: "x \<in> set (jq_sibling d xs) \<Longrightarrow> \<exists>ys zs. xs = ys @ x # zs \<and> (\<forall>y \<in> set ys. \<not> is_element d y)"
proof (induction xs)
  case (Cons a xs)
  show ?case
  proof (cases "is_element d a")
    case True
    then have "a # xs = [] @ x # xs" using Cons.prems by (simp add: node_type_element)
    then show ?thesis by fastforce
  next
    case False
    then obtain ys zs where "xs = ys @ x # zs" "\<forall>y \<in> set ys. \<not> is_element d y" using Cons by (auto simp: node_type_element)
    then have "a # xs = (a # ys) @ x # zs \<and> (\<forall>y \<in> set (a # ys). \<not> is_element d y)" using False by simp
    then show ?thesis by blast
  qed
qed simp

lemma preceding_indices: "preceding (i # p) = rev (map (\<lambda>j. j # p) [0..<i])"
  by (induction i) simp_all

lemma following_nth: "n < length (following d (i # p)) \<Longrightarrow> following d (i # p) ! n = (Suc i + n) # p"
  by (auto simp: following_def siblings_facts)

lemma next_gap: "x \<in> set (jq_sibling d (following d (i # p))) \<Longrightarrow> \<exists>k > i. x = k # p \<and> (\<forall>m. i < m \<and> m < k \<longrightarrow> \<not> is_element d (m # p))"
proof -
  assume "x \<in> set (jq_sibling d (following d (i # p)))"
  then obtain ys zs where f: "following d (i # p) = ys @ x # zs" "\<forall>y \<in> set ys. \<not> is_element d y" using sibling_split by blast
  have x: "x = (Suc i + length ys) # p" using following_nth [of "length ys" d i p] f(1) by simp
  have "\<not> is_element d (m # p)" if "i < m" "m < Suc i + length ys" for m
  proof -
    have n: "m - Suc i < length ys" using that by linarith
    then have "following d (i # p) ! (m - Suc i) = ys ! (m - Suc i)" using f(1) by (simp add: nth_append)
    moreover have "following d (i # p) ! (m - Suc i) = m # p"
      using following_nth [of "m - Suc i" d i p] f(1) that by simp
    ultimately show ?thesis using f(2) nth_mem [OF n] by auto
  qed
  then show ?thesis using x by (intro exI [of _ "Suc i + length ys"]) auto
qed

lemma prev_gap: "x \<in> set (jq_sibling d (preceding (i # p))) \<Longrightarrow> \<exists>k < i. x = k # p \<and> (\<forall>m. k < m \<and> m < i \<longrightarrow> \<not> is_element d (m # p))"
proof -
  assume "x \<in> set (jq_sibling d (preceding (i # p)))"
  then obtain ys zs where f: "preceding (i # p) = ys @ x # zs" "\<forall>y \<in> set ys. \<not> is_element d y" using sibling_split by blast
  have len: "length ys < i" using arg_cong [OF f(1), of length] by (simp add: preceding_indices)
  have at: "preceding (i # p) ! n = (i - Suc n) # p" if "n < i" for n
    using that by (simp add: preceding_indices rev_nth)
  have x: "x = (i - Suc (length ys)) # p" using at [OF len] f(1) by simp
  have "\<not> is_element d (m # p)" if "i - Suc (length ys) < m" "m < i" for m
  proof -
    have "preceding (i # p) ! (i - Suc m) = ys ! (i - Suc m)" "i - Suc m < length ys" using f(1) that len by (auto simp: nth_append)
    moreover have "preceding (i # p) ! (i - Suc m) = m # p" using at [of "i - Suc m"] that by simp
    ultimately show ?thesis using f(2) nth_mem by fastforce
  qed
  then show ?thesis using x len by (intro exI [of _ "i - Suc (length ys)"]) auto
qed

text \<open>Two elements have no result in common.\<close>

lemma results_disjoint:
  assumes "guaranteedUnique t" "is_element d r" "is_element d q" "x \<in> set (traverse_one d t u r)" "x \<in> set (traverse_one d t u q)"
  shows "r = q"
proof (cases t)
  case Next
  then obtain i p j p' where r: "r = i # p" "q = j # p'" using assms(4,5) by (cases r; cases q) (auto simp: traverse_one_def following_def)
  obtain k where k: "i < k" "x = k # p" "\<forall>m. i < m \<and> m < k \<longrightarrow> \<not> is_element d (m # p)"
    using next_gap [of x d i p] assms(4) by (auto simp: Next traverse_one_def r)
  obtain l where l: "j < l" "x = l # p'" "\<forall>m. j < m \<and> m < l \<longrightarrow> \<not> is_element d (m # p')"
    using next_gap [of x d j p'] assms(5) by (auto simp: Next traverse_one_def r)
  have "p' = p" "l = k" using k(2) l(2) by simp_all
  then show ?thesis using r k l assms(2,3) by (metis linorder_less_linear)
next
  case Prev
  then obtain i p j p' where r: "r = i # p" "q = j # p'" using assms(4,5) by (cases r; cases q) (auto simp: traverse_one_def)
  obtain k where k: "k < i" "x = k # p" "\<forall>m. k < m \<and> m < i \<longrightarrow> \<not> is_element d (m # p)"
    using prev_gap [of x d i p] assms(4) by (auto simp: Prev traverse_one_def r)
  obtain l where l: "l < j" "x = l # p'" "\<forall>m. l < m \<and> m < j \<longrightarrow> \<not> is_element d (m # p')"
    using prev_gap [of x d j p'] assms(5) by (auto simp: Prev traverse_one_def r)
  have "p' = p" "l = k" using k(2) l(2) by simp_all
  then show ?thesis using r k l assms(2,3) by (metis linorder_less_linear)
qed (use assms in \<open>auto simp: guaranteedUnique_def traverse_one_def jq_siblings_def siblings_of_def split: option.splits\<close>)

lemma results_distinct: "guaranteedUnique t \<Longrightarrow> distinct (traverse_one d t u r)"
proof -
  have "distinct (jq_sibling d xs)" for xs by (induction xs) auto
  then show "guaranteedUnique t \<Longrightarrow> ?thesis"
    using siblings_facts(1) by (auto simp: guaranteedUnique_def traverse_one_def jq_siblings_def)
qed

lemma distinct_concat_map:
  "distinct xs \<Longrightarrow> (\<And>x. x \<in> set xs \<Longrightarrow> distinct (f x)) \<Longrightarrow>
   (\<And>x y z. x \<in> set xs \<Longrightarrow> y \<in> set xs \<Longrightarrow> z \<in> set (f x) \<Longrightarrow> z \<in> set (f y) \<Longrightarrow> x = y) \<Longrightarrow> distinct (concat (map f xs))"
proof (induction xs)
  case (Cons a xs)
  have "set (f a) \<inter> set (concat (map f xs)) = {}"
  proof (rule ccontr)
    assume "set (f a) \<inter> set (concat (map f xs)) \<noteq> {}"
    then obtain z y where "z \<in> set (f a)" "y \<in> set xs" "z \<in> set (f y)" by auto
    then have "a = y" using Cons.prems(3) [of a y z] by simp
    then show False using Cons.prems(1) \<open>y \<in> set xs\<close> by simp
  qed
  moreover have "distinct (concat (map f xs))" using Cons.prems by (intro Cons.IH) auto
  ultimately show ?case using Cons.prems(2) [of a] by simp
qed simp

text \<open>The methods that are guaranteed to give a unique set do so: elements without duplicates lead to nodes without duplicates.\<close>

theorem traverse_unique:
  assumes "\<And>x. x \<in> set this \<Longrightarrow> is_element d x" "guaranteedUnique t" "distinct this"
  shows "distinct (traverse detect d t until selector this)"
proof -
  have "distinct (concat (map (traverse_one d t until) this))"
    using results_distinct [OF assms(2)] results_disjoint [OF assms(2) assms(1) assms(1)] assms(3)
    by (intro distinct_concat_map) blast+
  then show ?thesis using assms(2)
    by (cases selector) (simp_all add: traverse_def Let_def jq_filter_filter)
qed

section \<open>Closest\<close>

definition nearest_above :: "dom_node \<Rightarrow> (ref \<Rightarrow> bool) \<Rightarrow> ref option \<Rightarrow> ref \<Rightarrow> ref \<Rightarrow> bool" where
  "nearest_above d P context x y \<longleftrightarrow> y \<in> set (x # ancestors x) \<and> is_element d y \<and> P y \<and>
     (\<forall>z \<in> set (x # ancestors x). length y \<le> length z \<longrightarrow> Some z \<noteq> context \<and> (z \<noteq> y \<longrightarrow> \<not> (is_element d z \<and> P z)))"

lemma closest_nearest: "y \<in> set (closest_up d P context (x # ancestors x)) \<longleftrightarrow> nearest_above d P context x y"
proof (induction x)
  case Nil
  then show ?case by (auto simp: nearest_above_def node_type_element)
next
  case (Cons i p)
  have short: "length z \<le> length p" if "z \<in> set (p # ancestors p)" for z
    using that ancestors_less [of z p] by auto
  show ?case
  proof (cases "Some (i # p) = context \<or> is_element d (i # p) \<and> P (i # p)")
    case True
    have "nearest_above d P context (i # p) y \<longleftrightarrow> Some (i # p) \<noteq> context \<and> y = i # p"
    proof
      assume n: "nearest_above d P context (i # p) y"
      then have "length y \<le> length (i # p)" using short [of y] by (auto simp: nearest_above_def)
      then show "Some (i # p) \<noteq> context \<and> y = i # p" using n True by (auto simp: nearest_above_def)
    next
      assume y: "Some (i # p) \<noteq> context \<and> y = i # p"
      have "\<not> length (i # p) \<le> length z" if "z \<in> set (p # ancestors p)" for z using short [OF that] by simp
      then show "nearest_above d P context (i # p) y" using y True unfolding nearest_above_def ancestors.simps by auto
    qed
    then show ?thesis using True by (auto simp: node_type_element)
  next
    case False
    then have "closest_up d P context ((i # p) # ancestors (i # p)) = closest_up d P context (p # ancestors p)"
      unfolding ancestors.simps closest_up.simps(2) [of d P "context" "i # p"] by (auto simp: node_type_element simp del: closest_up.simps)
    moreover have "nearest_above d P context (i # p) y \<longleftrightarrow> nearest_above d P context p y"
      using False short [of y] by (auto simp: nearest_above_def)
    ultimately show ?thesis using Cons by simp
  qed
qed

lemma closest_element: "x \<in> set (closest_up d P context xs) \<Longrightarrow> is_element d x"
  by (induction xs) (auto simp: node_type_element split: if_splits)

text \<open>
  \<open>closest\<close> gives the nearest accepted element at or above each element, below the context; each of them once and in
  the order of the document.
\<close>

theorem closest_exact:
  "jq_closest detect d P context this = filter (\<lambda>y. list_ex (\<lambda>x. nearest_above d P context x y) this) (doc_nodes d)"
proof -
  define m where "m = concat (map (\<lambda>r. closest_up d P context (r # ancestors r)) this)"
  have el: "is_element d x" if "x \<in> set m" for x using that by (auto simp: m_def simp del: closest_up.simps dest: closest_element)
  have nodes: "set m \<subseteq> set (doc_nodes d)" using el element_doc by blast
  have eq: "(\<lambda>y. list_ex (\<lambda>x. nearest_above d P context x y) this) = (\<lambda>y. y \<in> set m)"
    by (auto simp: fun_eq_iff m_def list_ex_iff closest_nearest simp del: closest_up.simps)
  have v: "node_at d x \<noteq> None" if "x \<in> set m" for x using that nodes doc_valid by blast
  have s: "sorted_wrt (\<lambda>a b. rev a < rev b) (filter (\<lambda>y. y \<in> set m) (doc_nodes d))"
    by (intro sorted_wrt_filter doc_nodes_sorted)
  have "(if length m > 1 then uniqueSort detect d m else m) = filter (\<lambda>y. y \<in> set m) (doc_nodes d)"
  proof (rule document_list [OF _ s])
    show "sorted_wrt (\<lambda>a b. rev a < rev b) (if length m > 1 then uniqueSort detect d m else m)"
      using uniqueSort_sorted(1) [of m d detect] v by (cases m; cases "tl m") auto
    show "set (if length m > 1 then uniqueSort detect d m else m) = set (filter (\<lambda>y. y \<in> set m) (doc_nodes d))"
      using uniqueSort_sorted(2) [of m d detect] v nodes by auto
  qed
  then show ?thesis unfolding jq_closest_def Let_def m_def [symmetric] eq .
qed

section \<open>Find\<close>

lemma select_one_past:
  assumes "results_past s" "finders_agree finds (r_pseudos e) (r_doc e)"
  shows "results_past (snd (select_one finds txt e ts n s))"
proof (cases "if needsContext ts then None
    else fetch_seed (\<lambda>f. finds f (search_root e (leading ts = Some Adjacent \<or> leading ts = Some Sibling))) (rev ts) []")
  case None
  then show ?thesis
    using superMatcher_filter(2) [OF assms(1), of e None "search_root e (rsibling txt [ts])" "[ts]" n] elements_below_elements [of _ "r_doc e"]
    by (simp add: select_one_def candidates_none)
next
  case (Some q)
  obtain seed rest where q: "q = (seed, rest)" by force
  obtain f c where "finds f c = Some seed"
    using Some q fetch_seed_split [of _ "rev ts" "[]" seed rest] by (fastforce split: if_splits)
  then have "\<And>x. x \<in> set seed \<Longrightarrow> is_element (r_doc e) x"
  proof -
    fix x assume that: "x \<in> set seed"
    have "seed = filter (filter_spec (r_pseudos e) (r_doc e) f) (elements_below (r_doc e) c)"
      using assms(2) \<open>finds f c = Some seed\<close> unfolding finders_agree_def by blast
    then show "is_element (r_doc e) x" using that elements_below_elements [of x "r_doc e" c] by simp
  qed
  then show ?thesis
    using Some q assms(1) superMatcher_filter(2) [OF assms(1), of e "Some seed" "search_root e (rsibling txt [rest])" "[rest]" n]
    by (simp add: select_one_def search_candidates_def)
qed

lemma select_past:
  assumes "results_past s" "finders_agree finds (r_pseudos e) (r_doc e)"
  shows "results_past (snd (select finds txt e groups n s))"
proof (cases "\<exists>ts. groups = [ts]")
  case True
  then show ?thesis
    using assms select_one_past [OF assms(1)] by (auto simp: select_def split: reduction.split)
next
  case False
  then show ?thesis
    using superMatcher_filter(2) [OF assms(1), of e None "search_root e (rsibling txt groups)" groups n] elements_below_elements [of _ "r_doc e"]
    by (auto simp: select_def candidates_none split: list.splits)
qed

definition found_from :: "run \<Rightarrow> sel_token list list \<Rightarrow> ref list \<Rightarrow> ref \<Rightarrow> bool" where
  "found_from e groups this x = list_ex (\<lambda>c. list_ex (\<lambda>g. matches_group (e\<lparr>r_context := c\<rparr>) g x) groups) this"

lemma find_in_set:
  assumes "wf_document (r_doc e)" "\<not> r_xml e" "combinator_texts txt" "finders_agree finds (r_pseudos e) (r_doc e)" "unique_ids (r_doc e)"
  shows "(\<And>c. c \<in> set this \<Longrightarrow> c \<in> set (doc_nodes (r_doc e))) \<Longrightarrow> results_past s \<Longrightarrow>
    fst (find_in finds txt e groups n this s) = concat (map (\<lambda>c. filter (found_from e groups [c]) (elements_below (r_doc e) [])) this)"
proof (induction this arbitrary: s)
  case (Cons c cs)
  let ?e = "e\<lparr>r_context := c\<rparr>"
  obtain xs s1 where x: "select finds txt ?e groups n s = (xs, s1)" by force
  have "xs = filter (found_from e groups [c]) (elements_below (r_doc e) [])"
    using select_right [of ?e s "txt" finds groups n] assms Cons.prems doc_valid [of c "r_doc e"] x by (simp add: found_from_def [abs_def])
  moreover have "results_past s1" using select_past [OF Cons.prems(2), of finds ?e "txt" groups n] assms(4) x by simp
  ultimately show ?case
    using Cons.IH [of s1] Cons.prems(1) x by (cases "find_in finds txt e groups n cs s1") simp
qed simp

text \<open>
  C8. \<open>find\<close> on any set of elements gives the elements that match from one of them, each once and in the order of the document.
\<close>

theorem find_exact:
  assumes "wf_document (r_doc e)" "\<not> r_xml e" "combinator_texts txt" "finders_agree finds (r_pseudos e) (r_doc e)" "unique_ids (r_doc e)"
    and "\<And>c. c \<in> set this \<Longrightarrow> c \<in> set (doc_nodes (r_doc e))" "results_past s"
  shows "fst (jq_find detect finds txt e groups n this s) = filter (found_from e groups this) (elements_below (r_doc e) [])"
proof -
  let ?all = "elements_below (r_doc e) []"
  define m where "m = concat (map (\<lambda>c. filter (found_from e groups [c]) ?all) this)"
  have f: "fst (find_in finds txt e groups n this s) = m"
    unfolding m_def using find_in_set [OF assms(1-5)] assms(6,7) by blast
  have sub: "set m \<subseteq> set ?all" by (auto simp: m_def)
  have mem: "found_from e groups this = (\<lambda>x. list_ex (\<lambda>c. found_from e groups [c] x) this)"
    by (auto simp: fun_eq_iff found_from_def list_ex_iff)
  then have same: "filter (found_from e groups this) ?all = filter (\<lambda>x. x \<in> set m) ?all"
    by (intro filter_cong) (auto simp: m_def list_ex_iff)
  have "(if length this > 1 then uniqueSort detect (r_doc e) m else m) = filter (\<lambda>x. x \<in> set m) ?all"
  proof (cases "length this > 1")
    case False
    then obtain c where "this = [] \<or> this = [c]" by (cases this; cases "tl this") auto
    then show ?thesis using False by (auto simp: m_def intro: filter_cong)
  next
    case True
    have v: "node_at (r_doc e) x \<noteq> None" if "x \<in> set m" for x
      using that sub elements_below_elements [of x "r_doc e" "[]"] context_valid by blast
    have "uniqueSort detect (r_doc e) m = filter (\<lambda>x. x \<in> set m) ?all"
      using uniqueSort_sorted [of m "r_doc e" detect] v sub by (intro document_list sorted_wrt_filter elements_sorted) auto
    then show ?thesis using True by simp
  qed
  then show ?thesis using f same by (cases "find_in finds txt e groups n this s") (simp add: jq_find_def)
qed

section \<open>Examples\<close>

lemma demo_wf: "wf_document demo_doc"
  by (simp add: wf_document_def demo_doc_def)

lemma demo_is_element: "x \<in> set [[0], [0, 0], [0, 0, 0], [2, 0, 0], [0, 2, 0, 0], [1, 0]] \<Longrightarrow> is_element demo_doc x"
  using elements_below_elements [of x demo_doc "[]"] by (simp only: demo_elements)

theorem traverse_order_witness:
  "traverse True demo_doc Parents None None [[0, 2, 0, 0], [1, 0]] = [[2, 0, 0], [0, 0], [0]]"
proof -
  have "filter (\<lambda>y. list_ex (\<lambda>x. y \<in> set (traverse_one demo_doc Parents None x)) [[0, 2, 0, 0], [1, 0]] \<and> selected demo_doc None y) (doc_nodes demo_doc) =
      [[0], [0, 0], [2, 0, 0]]"
    by code_simp
  moreover have "is_element demo_doc x" if "x \<in> set [[0, 2, 0, 0], [1, 0]]" for x
    using that by (intro demo_is_element) auto
  ultimately show ?thesis
    using traverse_order [OF demo_wf, of "[[0, 2, 0, 0], [1, 0]]" Parents True None None] by (simp add: guaranteedUnique_def rparentsprev_def)
qed

theorem traverse_unique_witness:
  "distinct (traverse True demo_doc Next None None [[0, 0, 0], [0, 0]]) \<and> traverse True demo_doc Next None None [[0, 0, 0], [0, 0]] = [[2, 0, 0], [1, 0]]"
proof
  show "distinct (traverse True demo_doc Next None None [[0, 0, 0], [0, 0]])"
  proof (rule traverse_unique)
    fix x :: ref
    assume "x \<in> set [[0, 0, 0], [0, 0]]"
    then show "is_element demo_doc x" by (intro demo_is_element) auto
  qed (simp_all add: guaranteedUnique_def)
  show "traverse True demo_doc Next None None [[0, 0, 0], [0, 0]] = [[2, 0, 0], [1, 0]]" by code_simp
qed

theorem find_exact_witness:
  "fst (jq_find True (plain_finder (\<lambda>_ _ _. False) demo_doc) plain_text (demo_run []) [[Filter (TAG ''p'')]] 0 [[0, 0], [0]] no_results) =
   filter (found_from (demo_run []) [[Filter (TAG ''p'')]] [[0, 0], [0]]) (elements_below demo_doc []) \<and>
   filter (found_from (demo_run []) [[Filter (TAG ''p'')]] [[0, 0], [0]]) (elements_below demo_doc []) = [[0, 0, 0], [2, 0, 0], [1, 0]]"
proof
  have "c \<in> set (doc_nodes (r_doc (demo_run [])))" if "c \<in> set [[0, 0], [0]]" for c
    using that by (auto simp: doc_nodes_def demo_run_def demo_elements)
  moreover have "combinator_texts plain_text" by (simp add: combinator_texts_def plain_text_def)
  ultimately show "fst (jq_find True (plain_finder (\<lambda>_ _ _. False) demo_doc) plain_text (demo_run []) [[Filter (TAG ''p'')]] 0 [[0, 0], [0]] no_results) =
      filter (found_from (demo_run []) [[Filter (TAG ''p'')]] [[0, 0], [0]]) (elements_below demo_doc [])"
    using find_exact [of "demo_run []" plain_text "plain_finder (\<lambda>_ _ _. False) demo_doc" "[[0, 0], [0]]" no_results True "[[Filter (TAG ''p'')]]" 0]
      demo_wf demo_finders demo_ids no_results_past
    by (simp add: demo_run_def)
  show "filter (found_from (demo_run []) [[Filter (TAG ''p'')]] [[0, 0], [0]]) (elements_below demo_doc []) = [[0, 0, 0], [2, 0, 0], [1, 0]]"
    by code_simp
qed

end
