(* ===== verification/Spec2Isabelle.thy ===== *)
theory Spec2Isabelle
  imports JQ_Core Mustache_Props Mustache_Render_Props Columns_Store UI_Datepicker_Props UI_Slider UI_Spinner UI_Progressbar
    JQ_Deferred_Props JQ_Class JQ_Param JQ_Ajax_Props JQ_Queue JQ_Event_Props
    UI_Mouse UI_Draggable UI_Resizable UI_Widget UI_Autocomplete UI_Selectable UI_Droppable UI_Sortable UI_Tabs UI_Accordion
    JQ_Sizzle_Select JQ_Sizzle_Text JQ_Traverse
begin

text \<open>
  Verification of the browser front end of org.little.

  \<^bold>\<open>The program.\<close> The repository is a suite of servers written in Java (mail, messages, proxies,
  keys, syslog, remote commands) with small web applications. Their pages show tables of rows that the
  servers send as JSON. The code that runs in the browser is what is verified here: the template
  engine \<open>mustache.js\<close>, the table plug-in \<open>jquery.columns.js\<close> that uses it, and jQuery and jQuery UI
  below both. The applications carry identical copies of these files; the development reads those
  under \<open>src/src/main/config/var/html\<close>: \<open>mustache.js\<close>, \<open>jquery.columns.js\<close>, \<open>jquery-3.5.1.js\<close> and
  \<open>ui1121/jquery-ui.js\<close>. A page calls \<open>$(...).columns(...)\<close>; the plug-in keeps the rows, filters, sorts and
  cuts them into pages on the events of the user, and renders the table by Mustache. jQuery provides
  the data, the events, the queues, the deferreds and the requests, jQuery UI the widgets.

  \<^bold>\<open>The language.\<close> \<open>Prelude\<close> has the library of lists, texts and association lists (the laws of objects
  as maps in the locale \<open>object_map\<close>, orders to sort by in \<open>consistent_less\<close>) and two locales for machines that
  take one step for every input: \<open>invariant_system\<close>, an invariant that every legal step keeps, and \<open>simulation\<close>,
  which extends it by an abstract machine; the widgets interpret them. \<open>JsVal\<close> has the values of
  JavaScript: numbers are integers with \<open>NaN\<close> and the infinities, objects are association lists in the
  order of their properties, property reads fall back to \<open>Object.prototype\<close>, and reading a property of
  \<open>undefined\<close> is an error value. \<open>JsRegExp\<close> has regular expressions, with a parser of patterns and a
  backtracking matcher, \<open>JsDate\<close> the calendar of \<open>Date\<close> with the carries of its constructor. What a
  callback, a getter or the browser answers is an argument of the definitions.

  \<^bold>\<open>mustache.js.\<close> \<open>Mustache_Scanner\<close>: \<open>escapeHtml\<close>, \<open>escapeRegExp\<close>, \<open>Scanner\<close>. \<open>Mustache_Parser\<close>: \<open>parseTemplate\<close>
  with its loop, \<open>squashTokens\<close>, \<open>nestTokens\<close>. \<open>Mustache_Writer\<close>: \<open>Context\<close> with its cache of lookups, the
  \<open>Writer\<close> with its cache of templates, and the functions of the module. Rendering takes fuel for the
  depth of sections and partials, because a partial may include itself; running out of fuel is an
  error value of its own. \<open>Mustache_Props\<close>, \<open>Mustache_Parser_Props\<close> and \<open>Mustache_Render_Props\<close> show
  that escaped text has no markup and decodes to the original, that every parse ends in one of the
  errors of the parser or in a closed tree and never in a \<open>TypeError\<close>, that nesting reads back, and that
  both caches are invisible. A template that is not a string is cached under its text as in the code;
  the cache of templates is visible for partials that are \<open>false\<close>, \<open>0\<close> or \<open>NaN\<close>, which is shown too.

  \<^bold>\<open>jquery.columns.js.\<close> \<open>Columns\<close>: the state of the plug-in as a record, \<open>sort\<close>, \<open>filter\<close>, \<open>paginate\<close>,
  \<open>condition\<close>, \<open>create\<close> and the listeners. \<open>Columns_Props\<close>: sorting keeps the rows, orders them by their
  values in the direction chosen and is stable, the pages partition the rows, and a plain query selects
  the rows with a text that contains it or a number it spells. \<open>Columns_Store\<close> has the arrays of the
  plug-in as references into a store, where \<open>sort\<close> works in place and \<open>slice\<close> copies: no sequence of
  actions changes an array of the caller, and the methods on references simulate those on values.

  \<^bold>\<open>jquery-3.5.1.js.\<close> \<open>JQ_Core\<close>: the utilities and \<open>extend\<close>. \<open>JQ_Callbacks\<close>: callback lists and deferreds
  as a machine with an explicit stack, so that callbacks may call the list that calls them;
  \<open>JQ_Callbacks_Props\<close> and \<open>JQ_Deferred_Props\<close> show that a list fired once has one value, that firing
  calls every callback, and that a deferred settles once. \<open>JQ_Words\<close> and \<open>JQ_Class\<close>: the class attribute
  as text and its equivalence with lists of names (locale \<open>class_edit\<close>). \<open>JQ_Param\<close>: query strings and
  their round trip. \<open>JQ_Ajax\<close> and \<open>JQ_Ajax_Props\<close>: prefilters, data types and the conversion of
  responses; the loop of \<open>ajaxConvert\<close> has fuel, two rounds for every data type are enough as long as no
  converter is falsy, and with a falsy one it does not end. \<open>JQ_Data\<close>: the data store (locale
  \<open>named_store\<close>). \<open>JQ_Queue\<close>: queues on the data store, a refinement of a first-in first-out buffer, and that they drain.
  \<open>JQ_Event\<close> and \<open>JQ_Event_Props\<close>: binding, unbinding, delegation, dispatch and bubbling of events.

  \<^bold>\<open>jquery-ui.js.\<close> \<open>UI_Number\<close>: exact numbers and grids of steps (locale \<open>step_grid\<close>); lengths and values
  are rationals. \<open>UI_Datepicker\<close> and \<open>UI_Datepicker_Props\<close>: formats, parsing, stepping through the calendar, limits.
  \<open>UI_Slider\<close>, \<open>UI_Spinner\<close>, \<open>UI_Progressbar\<close>: the values of these widgets under all interactions, as step
  relations with invariants. \<open>UI_Mouse\<close>: the state machine of drags that several widgets share.
  \<open>UI_Position\<close>: placement next to a target with \<open>fit\<close> and \<open>flip\<close>. \<open>UI_Draggable\<close> and \<open>UI_Resizable\<close>: the geometry of
  drags, in containments and grids, and of resizing, with limits and ratios.

  The widget factory and the widgets with a state of their own: \<open>UI_Widget\<close> has the merging and the nested
  keys of options and the classes that a widget puts on elements; it shows that options are read back
  and that \<open>destroy\<close> takes every class away. \<open>UI_Menu\<close>: focus, movement and type-ahead of menus.
  \<open>UI_Autocomplete\<close> puts a menu below a field: searches with numbered requests, answers in any order, the
  keyboard; the answer to the last search decides what is shown, and the counts of requests stay true.
  \<open>UI_Selectable\<close>: clicks and lassos, a refinement of selections as functions of the boxes drawn.
  \<open>UI_Droppable\<close>: which droppables a helper meets and which one receives it. \<open>UI_Sortable\<close>: sorting in connected
  lists, where a document is a list of nodes for every container; only the sorted item moves, and
  \<open>cancel\<close> puts it back. \<open>UI_Tabs\<close>: tabs and their panels, with animations, delayed activation, disabled tabs,
  remote tabs and changes of the list; the search for the next enabled tab is a partial function, and
  it is shown when it returns. \<open>UI_Accordion\<close>: headers and panels with their classes, attributes, icons and
  animations; the page agrees with the active header under all inputs and changes of the headers.

  The selector engine: \<open>JQ_Sizzle\<close> has documents as trees, the escapes and filters of simple selectors, the
  combinators with the results they keep on the nodes (arrays that several nodes share are cells with addresses), the
  compiled matchers, \<open>select\<close> with its shortcuts, document order and the caches of limited size. Selectors are lists of
  tokens; pseudo-classes and the finders of the document are arguments. \<open>JQ_Sizzle_Props\<close> has a reference semantics of
  selectors and shows that matchers implement it on every state of the caches, by a table of the answers for each
  combinator and a frame condition for matchers that call each other. \<open>JQ_Sizzle_Select\<close> shows the same of \<open>select\<close>, and
  that sorted results are in document order; \<open>JQ_Sizzle_Text\<close> reads escaped texts back and reads classes as words.
  \<open>JQ_Traverse\<close> has the traversing methods of matched sets on the same documents, with the order and the uniqueness of their results.

  \<^bold>\<open>Witnesses.\<close> A theorem with hypotheses is followed by a theorem with the suffix \<open>_witness\<close> that
  applies it to a concrete page, table or widget. Theorems about defects evaluate a concrete input.

  \<^bold>\<open>Not modelled.\<close> The servers, which are Java programs that mostly do input and output. Of the browser
  code: everything that only reads, measures or changes the document (manipulation, styles,
  animations, markup of widgets), network transports, native queries (the shortcuts of \<open>Sizzle()\<close> and the comparison of
  positions by the browser), characters with codes above 255, attributes of XML documents, the plug-ins of
  draggables, the tokenizer of selectors, whose patterns
  capture groups, positional filters inside of selectors, and the widgets of jQuery UI not named above. Floating-point numbers that are no integers are outside of
  \<open>JsVal\<close>; the widgets use exact rationals instead, so rounding of binary fractions is not covered.

  \<^bold>\<open>What could follow.\<close> The tokenizer of selectors on a model of patterns with captures, the order of dialogs, and
  the prototype of \<open>jQuery.Event\<close>.
\<close>

end
